(* ===== verification/Lsm_Prelude.thy ===== *)
theory Lsm_Prelude
  imports Main "HOL-Library.Word" "HOL-Library.Product_Lexorder" "HOL-Library.Multiset"
begin

section \<open>Shared vocabulary of the development\<close>

text \<open>
  Machine integers of the Rust code at their width, results as sums with an error on the left,
  the little-endian byte encodings of the standard library (\<open>to_le_bytes\<close>, \<open>from_le_bytes\<close>),
  \<open>chunks_exact\<close>, \<open>std::cmp::Reverse\<close> as an ordered type, and the list lemmas
  every component uses.
\<close>

unbundle bit_operations_syntax

type_synonym u8 = "8 word"
type_synonym u16 = "16 word"
type_synonym u32 = "32 word"
type_synonym u64 = "64 word"
type_synonym i32 = "32 word"
type_synonym bytes = "8 word list"

named_theorems codec_simps \<open>lengths and round trips of the fixed-width encodings\<close>
named_theorems key_simps \<open>the sort keys of edge records\<close>

subsection \<open>Results\<close>

text \<open>The failures the storage code can report. A Rust panic on an out-of-range slice is
  \<open>Slice_out_of_range\<close>.\<close>

datatype lsm_error =
    Not_found
  | Header_too_short nat
  | Bad_magic u32
  | Unsupported_version u32
  | Bad_length nat
  | Unexpected_eof
  | Slice_out_of_range
  | Missing_column string
  | Missing_external_id int
  | Parse_error string
  | Unsupported string
  | Write_zero
  | Unaligned_offset nat

type_synonym 'a res = "lsm_error + 'a"

fun rbind :: "'a res \<Rightarrow> ('a \<Rightarrow> 'b res) \<Rightarrow> 'b res" where
  "rbind (Inl e) f = Inl e"
| "rbind (Inr x) f = f x"

lemma rbind_Inr_iff: "rbind r f = Inr y \<longleftrightarrow> (\<exists>x. r = Inr x \<and> f x = Inr y)"
  by (cases r) auto

lemma rbind_assoc: "rbind (rbind r f) g = rbind r (\<lambda>x. rbind (f x) g)"
  by (cases r) auto

lemma rbind_cong [fundef_cong]:
  "\<lbrakk>r = r'; \<And>x. r' = Inr x \<Longrightarrow> f x = f' x\<rbrakk> \<Longrightarrow> rbind r f = rbind r' f'"
  by (cases r') auto

text \<open>A loop whose body can fail: the first error stops it.\<close>

fun rfold :: "('a \<Rightarrow> 's \<Rightarrow> 's res) \<Rightarrow> 'a list \<Rightarrow> 's \<Rightarrow> 's res" where
  "rfold f [] s = Inr s"
| "rfold f (x # xs) s = rbind (f x s) (rfold f xs)"

lemma rfold_append: "rfold f (xs @ ys) s = rbind (rfold f xs s) (rfold f ys)"
proof (induction xs arbitrary: s)
  case (Cons x xs)
  then show ?case by (cases "f x s") auto
qed simp

fun rmap :: "('a \<Rightarrow> 'b res) \<Rightarrow> 'a list \<Rightarrow> 'b list res" where
  "rmap f [] = Inr []"
| "rmap f (x # xs) = rbind (f x) (\<lambda>y. rbind (rmap f xs) (\<lambda>ys. Inr (y # ys)))"

lemma rmap_Inr: "(\<And>x. x \<in> set xs \<Longrightarrow> f x = Inr (g x)) \<Longrightarrow> rmap f xs = Inr (map g xs)"
  by (induction xs) auto

lemma rmap_Inr_all:
  "rmap f xs = Inr ys \<Longrightarrow> length ys = length xs \<and> (\<forall>i < length xs. f (xs ! i) = Inr (ys ! i))"
proof (induction xs arbitrary: ys)
  case (Cons x xs)
  then obtain z zs where "f x = Inr z" "rmap f xs = Inr zs" "ys = z # zs"
    by (auto simp: rbind_Inr_iff)
  with Cons.IH [of zs] show ?case
    by (auto simp: nth_Cons split: nat.splits)
qed simp

text \<open>Code that changes a state and can fail: an error leaves the state as the steps before it
  made it.\<close>

type_synonym ('s, 'a) st = "'s \<Rightarrow> 's \<times> 'a res"

definition sreturn :: "'a \<Rightarrow> ('s, 'a) st" where
  "sreturn x s = (s, Inr x)"

definition sthrow :: "lsm_error \<Rightarrow> ('s, 'a) st" where
  "sthrow e s = (s, Inl e)"

definition slift :: "'a res \<Rightarrow> ('s, 'a) st" where
  "slift r s = (s, r)"

definition sreads :: "('s \<Rightarrow> 'a res) \<Rightarrow> ('s, 'a) st" where
  "sreads f s = (s, f s)"

definition supdate :: "('s \<Rightarrow> 's) \<Rightarrow> ('s, unit) st" where
  "supdate f s = (f s, Inr ())"

definition sbind :: "('s, 'a) st \<Rightarrow> ('a \<Rightarrow> ('s, 'b) st) \<Rightarrow> ('s, 'b) st" where
  "sbind m f s = (case m s of (s', Inl e) \<Rightarrow> (s', Inl e) | (s', Inr x) \<Rightarrow> f x s')"

fun smap :: "('a \<Rightarrow> ('s, 'b) st) \<Rightarrow> 'a list \<Rightarrow> ('s, 'b list) st" where
  "smap f [] = sreturn []"
| "smap f (x # xs) = sbind (f x) (\<lambda>y. sbind (smap f xs) (\<lambda>ys. sreturn (y # ys)))"

lemma sbind_simps:
  "m s = (s', Inr x) \<Longrightarrow> sbind m f s = f x s'"
  "m s = (s', Inl e) \<Longrightarrow> sbind m f s = (s', Inl e)"
  by (simp_all add: sbind_def)

lemma sbind_Inr_iff:
  "sbind m f s = (s', Inr y) \<longleftrightarrow> (\<exists>t x. m s = (t, Inr x) \<and> f x t = (s', Inr y))"
  by (auto simp: sbind_def split: prod.splits sum.splits)

lemmas st_simps = sreturn_def sthrow_def slift_def sreads_def supdate_def

subsection \<open>Reversed order\<close>

text \<open>\<open>std::cmp::Reverse\<close>: the same values in the opposite order.\<close>

datatype 'a reverse = Reverse 'a

fun unreverse :: "'a reverse \<Rightarrow> 'a" where
  "unreverse (Reverse x) = x"

instantiation reverse :: (linorder) linorder
begin
definition less_eq_reverse :: "'a reverse \<Rightarrow> 'a reverse \<Rightarrow> bool" where
  "less_eq_reverse a b \<longleftrightarrow> unreverse b \<le> unreverse a"
definition less_reverse :: "'a reverse \<Rightarrow> 'a reverse \<Rightarrow> bool" where
  "less_reverse a b \<longleftrightarrow> unreverse b < unreverse a"
instance
proof
  fix a b c :: "'a reverse"
  show "a < b \<longleftrightarrow> a \<le> b \<and> \<not> b \<le> a"
    by (auto simp: less_reverse_def less_eq_reverse_def)
  show "a \<le> a" by (simp add: less_eq_reverse_def)
  show "a \<le> b \<Longrightarrow> b \<le> c \<Longrightarrow> a \<le> c" by (auto simp: less_eq_reverse_def)
  show "a \<le> b \<Longrightarrow> b \<le> a \<Longrightarrow> a = b"
    by (cases a; cases b) (auto simp: less_eq_reverse_def)
  show "a \<le> b \<or> b \<le> a" by (auto simp: less_eq_reverse_def)
qed
end

lemma Reverse_le_iff [simp]: "Reverse a \<le> Reverse b \<longleftrightarrow> b \<le> a"
  by (simp add: less_eq_reverse_def)

lemma Reverse_less_iff [simp]: "Reverse a < Reverse b \<longleftrightarrow> b < a"
  by (simp add: less_reverse_def)

subsection \<open>Little-endian integers\<close>

primrec le_bytes :: "nat \<Rightarrow> nat \<Rightarrow> bytes" where
  "le_bytes 0 v = []"
| "le_bytes (Suc n) v = of_nat (v mod 256) # le_bytes n (v div 256)"

primrec le_nat :: "bytes \<Rightarrow> nat" where
  "le_nat [] = 0"
| "le_nat (b # bs) = unat b + 256 * le_nat bs"

lemma length_le_bytes [simp, codec_simps]: "length (le_bytes n v) = n"
  by (induction n arbitrary: v) auto

lemma unat_of_nat_u8: "unat (of_nat n :: u8) = n mod 256"
  by (simp add: unat_of_nat)

lemma le_nat_le_bytes [codec_simps]: "le_nat (le_bytes n v) = v mod 256 ^ n"
proof (induction n arbitrary: v)
  case (Suc n)
  have "v mod (256 * 256 ^ n) = v mod 256 + 256 * (v div 256 mod 256 ^ n)"
    by (simp add: mod_mult2_eq add.commute)
  with Suc show ?case by (simp add: unat_of_nat_u8)
qed simp

lemma unat_word_less:
  "unat (b :: u8) < 256" "unat (s :: u16) < 65536" "unat (i :: u32) < 4294967296"
  "unat (l :: u64) < 18446744073709551616"
  using unsigned_less [of b] unsigned_less [of s] unsigned_less [of i] unsigned_less [of l]
  by simp_all

lemma unat_of_nat_u64: "n < 2 ^ 64 \<Longrightarrow> unat (of_nat n :: u64) = n"
  by (simp add: unat_of_nat)

lemma unat_plus_1: "unat f + 1 < 2 ^ 64 \<Longrightarrow> unat (f + 1 :: u64) = unat f + 1"
  using unat_of_nat_u64 [of "unat f + 1"] by (simp add: add.commute)

lemma le_less_plus_1: "unat f + 1 < 2 ^ 64 \<Longrightarrow> x \<le> f \<Longrightarrow> x < (f + 1 :: u64)"
  by (simp add: word_less_nat_alt word_le_nat_alt unat_plus_1)

lemmas unat_u8_less = unat_word_less(1)

lemma le_nat_less: "le_nat bs < 256 ^ length bs"
proof (induction bs)
  case (Cons b bs)
  then have "256 * le_nat bs + 256 \<le> 256 * 256 ^ length bs" by simp
  with unat_u8_less [of b] show ?case by simp
qed simp

lemma le_bytes_le_nat: "le_bytes (length bs) (le_nat bs) = bs"
proof (induction bs)
  case (Cons b bs)
  have "(unat b + 256 * le_nat bs) mod 256 = unat b"
    using unat_u8_less [of b] by simp
  moreover have "(unat b + 256 * le_nat bs) div 256 = le_nat bs"
    using unat_u8_less [of b] by simp
  ultimately show ?case using Cons by simp
qed simp

text \<open>\<open>w.to_le_bytes()\<close> and \<open>from_le_bytes\<close> at the widths the formats use.\<close>

definition u16_le :: "u16 \<Rightarrow> bytes" where "u16_le w = le_bytes 2 (unat w)"
definition u32_le :: "u32 \<Rightarrow> bytes" where "u32_le w = le_bytes 4 (unat w)"
definition u64_le :: "u64 \<Rightarrow> bytes" where "u64_le w = le_bytes 8 (unat w)"
definition of_le16 :: "bytes \<Rightarrow> u16" where "of_le16 bs = of_nat (le_nat bs)"
definition of_le32 :: "bytes \<Rightarrow> u32" where "of_le32 bs = of_nat (le_nat bs)"
definition of_le64 :: "bytes \<Rightarrow> u64" where "of_le64 bs = of_nat (le_nat bs)"

lemma length_u_le [simp, codec_simps]:
  "length (u16_le a) = 2" "length (u32_le b) = 4" "length (u64_le c) = 8"
  by (simp_all add: u16_le_def u32_le_def u64_le_def)

lemma of_le_u_le [simp, codec_simps]:
  "of_le16 (u16_le a) = a" "of_le32 (u32_le b) = b" "of_le64 (u64_le c) = c"
proof -
  show "of_le16 (u16_le a) = a"
    using unat_word_less(2) [of a] by (simp add: of_le16_def u16_le_def le_nat_le_bytes)
  show "of_le32 (u32_le b) = b"
    using unat_word_less(3) [of b] by (simp add: of_le32_def u32_le_def le_nat_le_bytes)
  show "of_le64 (u64_le c) = c"
    using unat_word_less(4) [of c] by (simp add: of_le64_def u64_le_def le_nat_le_bytes)
qed

subsection \<open>Slices and chunks\<close>

text \<open>\<open>xs[a..b]\<close> panics unless \<open>a <= b <= xs.len()\<close>.\<close>

definition sub_list :: "nat \<Rightarrow> nat \<Rightarrow> 'a list \<Rightarrow> 'a list" where
  "sub_list off n xs = take n (drop off xs)"

definition slice :: "nat \<Rightarrow> nat \<Rightarrow> 'a list \<Rightarrow> 'a list res" where
  "slice a b xs = (if a \<le> b \<and> b \<le> length xs then Inr (sub_list a (b - a) xs)
                   else Inl Slice_out_of_range)"

text \<open>Seeking to an offset and \<open>Read::read_exact\<close>.\<close>

definition read_exact :: "nat \<Rightarrow> nat \<Rightarrow> 'a list \<Rightarrow> 'a list res" where
  "read_exact off n f = (if off + n \<le> length f then Inr (sub_list off n f) else Inl Unexpected_eof)"

lemma length_sub_list [simp]: "length (sub_list off n xs) = min n (length xs - off)"
  by (simp add: sub_list_def)

lemma sub_list_append1: "off + n \<le> length xs \<Longrightarrow> sub_list off n (xs @ ys) = sub_list off n xs"
  by (simp add: sub_list_def)

lemma sub_list_append2: "length xs \<le> off \<Longrightarrow> sub_list off n (xs @ ys) = sub_list (off - length xs) n ys"
  by (simp add: sub_list_def)

lemma sub_list_0 [simp]: "length xs \<le> n \<Longrightarrow> sub_list 0 n xs = xs"
  by (simp add: sub_list_def)

lemma sub_list_0_append: "length xs = n \<Longrightarrow> sub_list 0 n (xs @ ys) = xs"
  by (simp add: sub_list_def)

lemma sub_list_sub_list:
  "b + m \<le> n \<Longrightarrow> sub_list b m (sub_list a n xs) = sub_list (a + b) m xs"
  by (simp add: sub_list_def take_drop add.commute add.left_commute min.absorb2)

text \<open>\<open>slice::chunks_exact(n)\<close>: whole chunks only, a shorter remainder is left out.\<close>

function chunks_exact :: "nat \<Rightarrow> 'a list \<Rightarrow> 'a list list" where
  "chunks_exact n xs =
     (if n = 0 \<or> length xs < n then [] else take n xs # chunks_exact n (drop n xs))"
  by pat_completeness auto
termination
  by (relation "measure (\<lambda>(n, xs). length xs)") auto

declare chunks_exact.simps [simp del]

lemma chunks_exact_short: "length xs < n \<Longrightarrow> chunks_exact n xs = []"
  by (simp add: chunks_exact.simps)

lemma chunks_exact_append:
  assumes "length ys = n" "0 < n"
  shows "chunks_exact n (ys @ xs) = ys # chunks_exact n xs"
  using assms by (subst chunks_exact.simps) simp

lemma length_chunks_exact:
  assumes "0 < n" shows "length (chunks_exact n xs) = length xs div n"
  using assms
proof (induction n xs rule: chunks_exact.induct)
  case (1 n xs)
  show ?case
  proof (cases "length xs < n")
    case True
    then show ?thesis by (simp add: chunks_exact_short)
  next
    case False
    with 1 show ?thesis
      by (subst chunks_exact.simps) (simp add: le_div_geq)
  qed
qed

subsection \<open>Fixed-width encodings\<close>

text \<open>
  The interface every on-disk record type offers: an encoder of constant width and a decoder
  that reads it back. The clients store arrays of such records back to back and read them with
  \<open>chunks_exact\<close> or by index arithmetic.
\<close>

locale fixed_codec =
  fixes enc :: "'a \<Rightarrow> bytes" and dec :: "bytes \<Rightarrow> 'a" and width :: nat
  assumes width_pos: "0 < width"
    and enc_width: "length (enc x) = width"
    and dec_enc: "dec (enc x) = x"
begin

lemma length_concat_enc: "length (concat (map enc xs)) = width * length xs"
  by (induction xs) (auto simp: enc_width)

lemma decode_array: "map dec (chunks_exact width (concat (map enc xs))) = xs"
  by (induction xs) (auto simp: chunks_exact_short width_pos chunks_exact_append enc_width dec_enc)

lemma drop_array: "drop (width * i) (concat (map enc xs)) = concat (map enc (drop i xs))"
proof (induction i arbitrary: xs)
  case (Suc i)
  then show ?case by (cases xs) (auto simp: enc_width)
qed simp

lemma take_array: "take (width * n) (concat (map enc xs)) = concat (map enc (take n xs))"
proof (induction n arbitrary: xs)
  case (Suc n)
  then show ?case by (cases xs) (auto simp: enc_width)
qed simp

lemma sub_array:
  "sub_list (width * i) (width * n) (concat (map enc xs)) = concat (map enc (sub_list i n xs))"
  by (simp add: sub_list_def drop_array take_array)

lemma decode_sub_array:
  "map dec (chunks_exact width (sub_list (width * i) (width * n) (concat (map enc xs)))) =
   sub_list i n xs"
  by (simp add: sub_array decode_array)

lemma enc_inj: "enc x = enc y \<Longrightarrow> x = y"
  by (metis dec_enc)

end

interpretation u32_codec: fixed_codec u32_le of_le32 4
  by unfold_locales simp_all

interpretation u64_codec: fixed_codec u64_le of_le64 8
  by unfold_locales simp_all

subsection \<open>Lists and sorting\<close>

lemma sorted_key_unique:
  fixes f :: "'a \<Rightarrow> 'k::linorder"
  assumes "sorted (map f xs)" "sorted (map f ys)" "distinct (map f xs)" "distinct (map f ys)"
    and "set xs = set ys"
  shows "xs = ys"
proof -
  have d: "distinct xs" "distinct ys"
    using assms(3,4) by (auto simp: distinct_map)
  have inj: "inj_on f (set xs \<union> set ys)"
    using assms(3,5) by (simp add: distinct_map)
  have "map f xs = map f ys"
    by (rule sorted_distinct_set_unique) (use assms in auto)
  then show ?thesis
    using inj by (simp add: inj_on_map_eq_map)
qed

lemma mset_concat_map: "mset (concat xss) = sum_list (map mset xss)"
  by (induction xss) auto

lemma filter_eq_replicate: "filter ((=) k) xs = replicate (count (mset xs) k) k"
  by (induction xs) auto

lemma mset_concat_list_update:
  "i < length xss \<Longrightarrow>
   mset (concat (xss[i := xs])) + mset (xss ! i) = mset (concat xss) + mset xs"
proof (induction xss arbitrary: i)
  case (Cons ys xss)
  then show ?case by (cases i) (auto simp: union_ac)
qed simp

lemma sort_key_cong_mset:
  fixes f :: "'a \<Rightarrow> 'k::linorder"
  assumes "mset xs = mset ys" and "inj_on f (set xs)"
  shows "sort_key f xs = sort_key f ys"
proof -
  have "set xs = set ys" using assms(1) by (metis set_mset_mset)
  show ?thesis
  proof (rule properties_for_sort_key)
    show "mset (sort_key f ys) = mset xs" using assms(1) by simp
    show "\<And>k. k \<in> set (sort_key f ys) \<Longrightarrow>
        filter (\<lambda>x. f k = f x) (sort_key f ys) = filter (\<lambda>x. f k = f x) xs"
    proof -
      fix k assume "k \<in> set (sort_key f ys)"
      then have k: "k \<in> set xs" using \<open>set xs = set ys\<close> by simp
      have "filter (\<lambda>x. f k = f x) zs = filter (\<lambda>x. k = x) zs" if "set zs = set xs" for zs
        using inj_onD [OF assms(2)] k that by (intro filter_cong) auto
      moreover have "set (sort_key f ys) = set xs" using \<open>set xs = set ys\<close> by simp
      ultimately show "filter (\<lambda>x. f k = f x) (sort_key f ys) = filter (\<lambda>x. f k = f x) xs"
        by (simp add: filter_eq_replicate assms(1))
    qed
    show "sorted (map f (sort_key f ys))" by simp
  qed
qed

end
