(* ===== verification/Std_Maps.thy ===== *)
theory Std_Maps
  imports Lsm_Prelude "HOL-Library.AList"
begin

section \<open>The standard library's maps\<close>

text \<open>
  \<^verbatim>\<open>HashMap\<close> and \<^verbatim>\<open>BTreeMap\<close> as association lists with distinct keys. A
  \<^verbatim>\<open>BTreeMap\<close> keeps them in increasing order, which is the order its iterators promise. The
  order in which a \<^verbatim>\<open>HashMap\<close> iterates is unspecified; the model fixes one (insertion order),
  and results that go through such an iteration are shown not to depend on it.
\<close>

type_synonym ('k, 'v) hash_map = "('k \<times> 'v) list"
type_synonym ('k, 'v) btree_map = "('k \<times> 'v) list"

definition hm_get :: "('k, 'v) hash_map \<Rightarrow> 'k \<Rightarrow> 'v option" where
  "hm_get m k = map_of m k"

definition hm_insert :: "'k \<Rightarrow> 'v \<Rightarrow> ('k, 'v) hash_map \<Rightarrow> ('k, 'v) hash_map" where
  "hm_insert k v m = AList.update k v m"

definition hm_remove :: "'k \<Rightarrow> ('k, 'v) hash_map \<Rightarrow> ('k, 'v) hash_map" where
  "hm_remove k m = AList.delete k m"

fun bt_insert :: "'k::linorder \<Rightarrow> 'v \<Rightarrow> ('k, 'v) btree_map \<Rightarrow> ('k, 'v) btree_map" where
  "bt_insert k v [] = [(k, v)]"
| "bt_insert k v ((k', v') # m) =
     (if k < k' then (k, v) # (k', v') # m
      else if k = k' then (k, v) # m
      else (k', v') # bt_insert k v m)"

definition bt_get :: "('k, 'v) btree_map \<Rightarrow> 'k \<Rightarrow> 'v option" where
  "bt_get m k = map_of m k"

definition bt_remove :: "'k \<Rightarrow> ('k, 'v) btree_map \<Rightarrow> ('k, 'v) btree_map" where
  "bt_remove k m = AList.delete k m"

definition bt_values :: "('k, 'v) btree_map \<Rightarrow> 'v list" where
  "bt_values m = map snd m"

definition hm_inv :: "('k, 'v) hash_map \<Rightarrow> bool" where
  "hm_inv m \<longleftrightarrow> distinct (map fst m)"

definition bt_inv :: "('k::linorder, 'v) btree_map \<Rightarrow> bool" where
  "bt_inv m \<longleftrightarrow> sorted_wrt (<) (map fst m)"

text \<open>Everything stored under any key, where the values are containers themselves.\<close>

definition hm_all :: "('v \<Rightarrow> 'a list) \<Rightarrow> ('k, 'v) hash_map \<Rightarrow> 'a list" where
  "hm_all f m = concat (map (\<lambda>(k, v). f v) m)"

lemma mset_hm_all_insert:
  "hm_inv m \<Longrightarrow>
   mset (hm_all f (hm_insert k v m)) + (case hm_get m k of None \<Rightarrow> {#} | Some w \<Rightarrow> mset (f w)) =
   mset (hm_all f m) + mset (f v)"
proof (induction m)
  case (Cons kw m)
  obtain a w where kw: "kw = (a, w)" by (cases kw)
  show ?case
  proof (cases "a = k")
    case True
    with Cons.prems kw show ?thesis
      by (simp add: hm_all_def hm_insert_def hm_get_def union_ac)
  next
    case False
    with Cons kw show ?thesis
      by (simp add: hm_all_def hm_insert_def hm_get_def hm_inv_def union_ac)
  qed
qed (simp add: hm_all_def hm_insert_def hm_get_def)

subsection \<open>The contract of a map\<close>

locale std_map =
  fixes empty :: "'m" and get :: "'m \<Rightarrow> 'k \<Rightarrow> 'v option"
    and ins :: "'k \<Rightarrow> 'v \<Rightarrow> 'm \<Rightarrow> 'm" and del :: "'k \<Rightarrow> 'm \<Rightarrow> 'm"
    and entries :: "'m \<Rightarrow> ('k \<times> 'v) list" and inv :: "'m \<Rightarrow> bool"
  assumes get_empty: "get empty k = None"
    and inv_empty: "inv empty"
    and get_ins: "inv m \<Longrightarrow> get (ins k v m) k' = (if k' = k then Some v else get m k')"
    and inv_ins: "inv m \<Longrightarrow> inv (ins k v m)"
    and get_del: "inv m \<Longrightarrow> get (del k m) k' = (if k' = k then None else get m k')"
    and inv_del: "inv m \<Longrightarrow> inv (del k m)"
    and entries_get: "inv m \<Longrightarrow> (k, v) \<in> set (entries m) \<longleftrightarrow> get m k = Some v"
    and entries_distinct: "inv m \<Longrightarrow> distinct (map fst (entries m))"
begin

definition ins_all :: "('k \<times> 'v) list \<Rightarrow> 'm \<Rightarrow> 'm" where
  "ins_all kvs m = fold (\<lambda>(k, v). ins k v) kvs m"

lemma inv_ins_all: "inv m \<Longrightarrow> inv (ins_all kvs m)"
  unfolding ins_all_def by (induction kvs arbitrary: m) (auto simp: inv_ins)

lemma get_ins_all:
  "inv m \<Longrightarrow> distinct (map fst kvs) \<Longrightarrow>
   get (ins_all kvs m) k = (case map_of kvs k of Some v \<Rightarrow> Some v | None \<Rightarrow> get m k)"
proof (induction kvs arbitrary: m)
  case (Cons kv kvs)
  obtain a v where kv: "kv = (a, v)" by (cases kv)
  have "map_of kvs a = None"
    using Cons.prems(2) kv by (simp add: map_of_eq_None_iff)
  with Cons kv show ?case
    by (auto simp: ins_all_def inv_ins get_ins split: option.splits)
qed (simp add: ins_all_def)

lemma values_unique_keys:
  "inv m \<Longrightarrow> (k, v) \<in> set (entries m) \<Longrightarrow> (k, v') \<in> set (entries m) \<Longrightarrow> v = v'"
  by (simp add: entries_get)

lemma length_entries: "inv m \<Longrightarrow> length (entries m) = card {k. get m k \<noteq> None}"
proof -
  assume m: "inv m"
  have "{k. get m k \<noteq> None} = set (map fst (entries m))"
    by (force simp: entries_get [OF m, symmetric])
  then show ?thesis
    using distinct_card [OF entries_distinct [OF m]] by simp
qed

end

text \<open>An ordered map moreover iterates in increasing key order, so its iteration is determined
  by its lookups.\<close>

locale ordered_map = std_map empty get ins del entries inv
  for empty :: "'m" and get :: "'m \<Rightarrow> 'k::linorder \<Rightarrow> 'v option"
    and ins :: "'k \<Rightarrow> 'v \<Rightarrow> 'm \<Rightarrow> 'm" and del :: "'k \<Rightarrow> 'm \<Rightarrow> 'm"
    and entries :: "'m \<Rightarrow> ('k \<times> 'v) list" and inv :: "'m \<Rightarrow> bool" +
  assumes entries_sorted: "inv m \<Longrightarrow> sorted (map fst (entries m))"
begin

lemma entries_unique:
  assumes "inv m" "inv m'" "\<And>k. get m k = get m' k"
  shows "entries m = entries m'"
proof (rule sorted_key_unique [where f = fst])
  show "set (entries m) = set (entries m')"
    using entries_get [OF assms(1)] entries_get [OF assms(2)] assms(3) by auto
qed (use assms entries_sorted entries_distinct in auto)

end

subsection \<open>Both maps meet it\<close>

lemma map_of_Some_entries: "distinct (map fst m) \<Longrightarrow> (k, v) \<in> set m \<longleftrightarrow> map_of m k = Some v"
  by (metis map_of_SomeD map_of_is_SomeI)

interpretation hm: std_map "[]" hm_get hm_insert hm_remove "\<lambda>m. m" hm_inv
  by unfold_locales
    (auto simp: hm_get_def hm_insert_def hm_remove_def hm_inv_def update_conv' delete_conv'
      map_of_Some_entries [symmetric] distinct_update distinct_delete restrict_map_def)

lemma bt_inv_Nil [simp]: "bt_inv []"
  by (simp add: bt_inv_def)

lemma bt_inv_distinct: "bt_inv m \<Longrightarrow> distinct (map fst m)"
  by (simp add: bt_inv_def strict_sorted_iff)

lemma bt_inv_sorted: "bt_inv m \<Longrightarrow> sorted (map fst m)"
  by (simp add: bt_inv_def strict_sorted_iff)

lemma set_bt_insert_fst: "fst ` set (bt_insert k v m) = insert k (fst ` set m)"
  by (induction k v m rule: bt_insert.induct) auto

lemma bt_inv_insert: "bt_inv m \<Longrightarrow> bt_inv (bt_insert k v m)"
  unfolding bt_inv_def
  by (induction k v m rule: bt_insert.induct) (force simp: set_bt_insert_fst)+

lemma map_of_bt_insert:
  "bt_inv m \<Longrightarrow> map_of (bt_insert k v m) k' = (if k' = k then Some v else map_of m k')"
  unfolding bt_inv_def
  by (induction k v m rule: bt_insert.induct) auto

lemma bt_inv_delete: "bt_inv m \<Longrightarrow> bt_inv (AList.delete k m)"
  by (simp add: bt_inv_def AList.delete_eq sorted_wrt_map sorted_wrt_filter)

interpretation bt: ordered_map "[]" bt_get bt_insert bt_remove "\<lambda>m. m" bt_inv
  by unfold_locales
    (auto simp: bt_get_def bt_remove_def map_of_bt_insert bt_inv_insert bt_inv_delete
      delete_conv' map_of_Some_entries [symmetric] bt_inv_distinct bt_inv_sorted
      restrict_map_def)

lemma bt_insert_new_mset:
  "k \<notin> fst ` set m \<Longrightarrow> mset (bt_insert k v m) = add_mset (k, v) (mset m)"
  by (induction k v m rule: bt_insert.induct) auto

lemma mset_values_bt_insert_new:
  "k \<notin> fst ` set m \<Longrightarrow> mset (bt_values (bt_insert k v m)) = add_mset v (mset (bt_values m))"
  unfolding bt_values_def by (induction k v m rule: bt_insert.induct) auto

text \<open>Filtering everything stored down to what one key holds.\<close>

lemma filter_hm_all_one:
  assumes "hm_inv m" and "\<And>k v. (k, v) \<in> set m \<Longrightarrow> filter P (f v) = (if k = a then f v else [])"
  shows "filter P (hm_all f m) = (case hm_get m a of Some v \<Rightarrow> f v | None \<Rightarrow> [])"
  using assms
proof (induction m)
  case (Cons kv m)
  obtain k v where kv: "kv = (k, v)" by (cases kv)
  have ih: "filter P (hm_all f m) = (case hm_get m a of Some v \<Rightarrow> f v | None \<Rightarrow> [])"
    using Cons by (auto simp: hm_inv_def)
  have here: "filter P (f v) = (if k = a then f v else [])"
    using Cons.prems(2) [of k v] kv by simp
  show ?case
  proof (cases "k = a")
    case True
    then have "hm_get m a = None"
      using Cons.prems(1) kv by (auto simp: hm_get_def hm_inv_def map_of_eq_None_iff)
    with True ih here kv show ?thesis by (simp add: hm_all_def hm_get_def)
  next
    case False
    with ih here kv show ?thesis by (simp add: hm_all_def hm_get_def)
  qed
qed (simp add: hm_all_def hm_get_def)

lemma filter_concat_one:
  assumes "i < length xss" and "\<And>j. j < length xss \<Longrightarrow> filter P (xss ! j) = (if j = i then xss ! i else [])"
  shows "filter P (concat xss) = xss ! i"
  using assms
proof (induction xss arbitrary: i)
  case (Cons xs xss)
  show ?case
  proof (cases i)
    case 0
    have "filter P ys = []" if "ys \<in> set xss" for ys
      using that Cons.prems(2) 0 by (metis in_set_conv_nth length_Cons nth_Cons_Suc Suc_less_eq nat.distinct(1))
    then have "filter P (concat xss) = []" by (auto simp: filter_concat)
    with Cons.prems(2) [of 0] 0 show ?thesis by simp
  next
    case (Suc j)
    have "filter P (concat xss) = xss ! j"
    proof (rule Cons.IH)
      show "j < length xss" using Cons.prems(1) Suc by simp
      show "filter P (xss ! l) = (if l = j then xss ! j else [])" if "l < length xss" for l
        using Cons.prems(2) [of "Suc l"] that Suc by simp
    qed
    with Cons.prems(2) [of 0] Suc show ?thesis by simp
  qed
qed simp

end
