(* ===== verification/Graph_Types.thy ===== *)
theory Graph_Types
  imports Lsm_Prelude
begin

section \<open>Identifiers, labels and edge records\<close>

text \<open>
  The types of \<^verbatim>\<open>src/types.rs\<close> and the vertex id encoding of \<^verbatim>\<open>src/snb/props.rs\<close>.
  An \<^verbatim>\<open>i32\<close> is a 32-bit word; where the code compares two of them the model compares their
  signed values.
\<close>

type_synonym vertex_id = u64
type_synonym timestamp = u64
type_synonym snapshot_id = u64
type_synonym file_id = u64
type_synonym level_id = u8
type_synonym edge_type = i32

definition VERTEX_LABEL_SHIFT :: nat where "VERTEX_LABEL_SHIFT = 56"
definition UNKNOWN_SOURCE_LABEL :: i32 where "UNKNOWN_SOURCE_LABEL = 0"
definition MIXED_EDGE_TYPE :: edge_type where "MIXED_EDGE_TYPE = 0"

definition source_label_from_vertex_id :: "vertex_id \<Rightarrow> i32" where
  "source_label_from_vertex_id v =
     (let label = ucast (drop_bit VERTEX_LABEL_SHIFT v) :: i32
      in if 1 \<le> sint label \<and> sint label \<le> 8 then label else UNKNOWN_SOURCE_LABEL)"

datatype edge_marker = Insert | Delete

fun marker_to_u8 :: "edge_marker \<Rightarrow> u8" where
  "marker_to_u8 Insert = 0"
| "marker_to_u8 Delete = 1"

definition marker_from_u8 :: "u8 \<Rightarrow> edge_marker" where
  "marker_from_u8 v = (if v = 1 then Delete else Insert)"

lemma marker_from_to_u8 [simp]: "marker_from_u8 (marker_to_u8 m) = m"
  by (cases m) (simp_all add: marker_from_u8_def)

record edge_record =
  e_src :: vertex_id
  e_dst :: vertex_id
  e_type :: edge_type
  e_ts :: timestamp
  e_marker :: edge_marker

definition insert_record :: "vertex_id \<Rightarrow> vertex_id \<Rightarrow> edge_type \<Rightarrow> timestamp \<Rightarrow> edge_record" where
  "insert_record s d t ts =
     \<lparr>e_src = s, e_dst = d, e_type = t, e_ts = ts, e_marker = Insert\<rparr>"

definition delete_record :: "vertex_id \<Rightarrow> vertex_id \<Rightarrow> edge_type \<Rightarrow> timestamp \<Rightarrow> edge_record" where
  "delete_record s d t ts =
     \<lparr>e_src = s, e_dst = d, e_type = t, e_ts = ts, e_marker = Delete\<rparr>"

text \<open>\<^verbatim>\<open>size_of::<EdgeRecord>()\<close> on a 64-bit target: three u64, an i32 and a one-byte enum,
  padded to the alignment of u64.\<close>

definition EDGE_RECORD_SIZE :: nat where "EDGE_RECORD_SIZE = 32"

datatype vertex_label =
  Person | Comment | Post | Forum | Organisation | Place | Tag | TagClass

fun vertex_label_u64 :: "vertex_label \<Rightarrow> u64" where
  "vertex_label_u64 Person = 1"
| "vertex_label_u64 Comment = 2"
| "vertex_label_u64 Post = 3"
| "vertex_label_u64 Forum = 4"
| "vertex_label_u64 Organisation = 5"
| "vertex_label_u64 Place = 6"
| "vertex_label_u64 Tag = 7"
| "vertex_label_u64 TagClass = 8"

datatype edge_label =
    Knows | HasCreator | HasTag | HasType | IsLocatedIn | IsPartOf | LikesComment | LikesPost
  | ReplyOfComment | ReplyOfPost | ContainerOf | HasMember | HasModerator | HasInterest
  | StudyAt | WorkAt | IsSubclassOf

fun edge_label_i32 :: "edge_label \<Rightarrow> i32" where
  "edge_label_i32 Knows = 1"
| "edge_label_i32 HasCreator = 2"
| "edge_label_i32 HasTag = 3"
| "edge_label_i32 HasType = 4"
| "edge_label_i32 IsLocatedIn = 5"
| "edge_label_i32 IsPartOf = 6"
| "edge_label_i32 LikesComment = 7"
| "edge_label_i32 LikesPost = 8"
| "edge_label_i32 ReplyOfComment = 9"
| "edge_label_i32 ReplyOfPost = 10"
| "edge_label_i32 ContainerOf = 11"
| "edge_label_i32 HasMember = 12"
| "edge_label_i32 HasModerator = 13"
| "edge_label_i32 HasInterest = 14"
| "edge_label_i32 StudyAt = 15"
| "edge_label_i32 WorkAt = 16"
| "edge_label_i32 IsSubclassOf = 17"

lemma edge_label_i32_inj: "edge_label_i32 a = edge_label_i32 b \<longleftrightarrow> a = b"
  by (cases a; cases b) simp_all

lemma edge_label_i32_pos_neg: "edge_label_i32 a \<noteq> - edge_label_i32 b"
  by (cases a; cases b) simp_all

subsection \<open>Vertex ids\<close>

text \<open>\<^verbatim>\<open>encode_vid\<close>: the label in the top byte, the low 56 bits of the external id below.
  External ids are \<^verbatim>\<open>i64\<close>; the cast to \<^verbatim>\<open>u64\<close> takes them modulo \<open>2 ^ 64\<close>.\<close>

definition EXTERNAL_MASK :: u64 where
  "EXTERNAL_MASK = push_bit VERTEX_LABEL_SHIFT 1 - 1"

definition encode_vid :: "vertex_label \<Rightarrow> int \<Rightarrow> vertex_id" where
  "encode_vid label ext =
     push_bit VERTEX_LABEL_SHIFT (vertex_label_u64 label) OR (of_int ext AND EXTERNAL_MASK)"

definition external_id :: "vertex_id \<Rightarrow> int" where
  "external_id v = sint (v AND EXTERNAL_MASK)"

lemma EXTERNAL_MASK_mask: "EXTERNAL_MASK = mask 56"
  by (simp add: EXTERNAL_MASK_def VERTEX_LABEL_SHIFT_def mask_eq_decr_exp push_bit_eq_mult)

lemma bit_mask56: "bit (mask 56 :: u64) n \<longleftrightarrow> n < 56"
  by (auto simp: bit_mask_iff)

lemma encode_vid_low: "encode_vid label ext AND EXTERNAL_MASK = take_bit 56 (of_int ext)"
  by (rule bit_word_eqI)
    (auto simp: encode_vid_def EXTERNAL_MASK_mask VERTEX_LABEL_SHIFT_def bit_simps)

lemma vertex_label_u64_less: "vertex_label_u64 l < 256" "0 < vertex_label_u64 l"
  by (cases l; simp)+

lemma encode_vid_high: "drop_bit 56 (encode_vid label ext) = vertex_label_u64 label"
proof -
  have "take_bit 8 (vertex_label_u64 label) = vertex_label_u64 label"
    by (cases label) (simp_all add: take_bit_word_eq_self)
  then have "bit (vertex_label_u64 label) n \<Longrightarrow> n < 8" for n
    by (metis bit_take_bit_iff)
  then show ?thesis
    by (intro bit_word_eqI)
      (auto simp: encode_vid_def EXTERNAL_MASK_mask VERTEX_LABEL_SHIFT_def bit_simps)
qed

subsection \<open>Sort keys\<close>

text \<open>The tuples the code sorts edge records by.\<close>

type_synonym edge_key = "vertex_id \<times> int \<times> vertex_id"

definition edge_key :: "edge_record \<Rightarrow> edge_key" where
  "edge_key e = (e_src e, sint (e_type e), e_dst e)"

definition edge_sort_key :: "edge_record \<Rightarrow> vertex_id \<times> int \<times> vertex_id \<times> timestamp" where
  "edge_sort_key e = (e_src e, sint (e_type e), e_dst e, e_ts e)"

definition edge_newest_key :: "edge_record \<Rightarrow> vertex_id \<times> int \<times> vertex_id \<times> timestamp reverse" where
  "edge_newest_key e = (e_src e, sint (e_type e), e_dst e, Reverse (e_ts e))"

lemma sint_eq_iff: "sint (a :: i32) = sint b \<longleftrightarrow> a = b"
  by (auto intro: signed_word_eqI)

lemma edge_key_eq_iff [key_simps]:
  "edge_key a = edge_key b \<longleftrightarrow> e_src a = e_src b \<and> e_type a = e_type b \<and> e_dst a = e_dst b"
  by (simp add: edge_key_def sint_eq_iff)

lemma edge_sort_key_eq_iff [key_simps]:
  "edge_sort_key a = edge_sort_key b \<longleftrightarrow> edge_key a = edge_key b \<and> e_ts a = e_ts b"
  by (auto simp: edge_sort_key_def edge_key_def)

lemma edge_newest_key_le_iff [key_simps]:
  "edge_newest_key a \<le> edge_newest_key b \<longleftrightarrow>
     edge_key a < edge_key b \<or> edge_key a = edge_key b \<and> e_ts b \<le> e_ts a"
  by (auto simp: edge_newest_key_def edge_key_def less_eq_prod_def less_prod_def)

lemma edge_sort_key_le_src: "edge_sort_key a \<le> edge_sort_key b \<Longrightarrow> e_src a \<le> e_src b"
  by (auto simp: edge_sort_key_def less_eq_prod_def)

end
