(* ===== verification/Decimal.thy ===== *)
theory Decimal
  imports Lsm_Prelude
begin

section \<open>Decimal strings\<close>

text \<open>
  Rust's \<^verbatim>\<open>format!("{}", n)\<close> and \<^verbatim>\<open>format!("{:012}", n)\<close> on unsigned integers, and the
  reading of a run of digits. Segment file names and the parsed columns of the loaders rest on
  them.
\<close>

definition digit :: "nat \<Rightarrow> char" where
  "digit d = char_of (48 + d)"

definition digit_value :: "char \<Rightarrow> nat" where
  "digit_value c = of_char c - 48"

definition is_digit :: "char \<Rightarrow> bool" where
  "is_digit c \<longleftrightarrow> 48 \<le> (of_char c :: nat) \<and> (of_char c :: nat) \<le> 57"

fun dec :: "nat \<Rightarrow> string" where
  "dec n = (if n < 10 then [digit n] else dec (n div 10) @ [digit (n mod 10)])"

declare dec.simps [simp del]

definition pad0 :: "nat \<Rightarrow> string \<Rightarrow> string" where
  "pad0 w s = replicate (w - length s) (digit 0) @ s"

definition digits_value :: "string \<Rightarrow> nat" where
  "digits_value s = foldl (\<lambda>a c. 10 * a + digit_value c) 0 s"

lemma digit_value_digit [simp]: "d < 10 \<Longrightarrow> digit_value (digit d) = d"
  by (simp add: digit_value_def digit_def)

lemma is_digit_digit [simp]: "d < 10 \<Longrightarrow> is_digit (digit d)"
  by (simp add: is_digit_def digit_def)

lemma digits_value_snoc [simp]: "digits_value (s @ [c]) = 10 * digits_value s + digit_value c"
  by (simp add: digits_value_def)

lemma digits_value_dec [simp]: "digits_value (dec n) = n"
proof (induction n rule: dec.induct)
  case (1 n)
  then show ?case
    by (subst dec.simps) (auto simp: digits_value_def [of "[_]"])
qed

lemma digits_value_zeros: "digits_value (replicate k (digit 0) @ s) = digits_value s"
  by (induction k) (simp_all add: digits_value_def)

lemma digits_value_pad0 [simp]: "digits_value (pad0 w (dec n)) = n"
  by (simp add: pad0_def digits_value_zeros)

lemma is_digit_dec: "c \<in> set (dec n) \<Longrightarrow> is_digit c"
proof (induction n rule: dec.induct)
  case (1 n)
  then show ?case by (subst (asm) dec.simps) (auto split: if_splits)
qed

lemma is_digit_pad0: "c \<in> set (pad0 w (dec n)) \<Longrightarrow> is_digit c"
  by (auto simp: pad0_def dest: is_digit_dec)

lemma dec_inj: "dec a = dec b \<longleftrightarrow> a = b"
  by (metis digits_value_dec)

lemma pad0_dec_inj: "pad0 w (dec a) = pad0 w (dec b) \<longleftrightarrow> a = b"
  by (metis digits_value_pad0)

text \<open>Two strings of characters from a class, each followed by a character outside it, agree
  only if the parts agree.\<close>

lemma split_class_eq:
  assumes "\<forall>c \<in> set a. P c" "\<forall>c \<in> set b. P c" "\<not> P x" "\<not> P y"
  shows "a @ x # s = b @ y # t \<longleftrightarrow> a = b \<and> x = y \<and> s = t"
proof
  assume eq: "a @ x # s = b @ y # t"
  have "takeWhile P (a @ x # s) = a" "takeWhile P (b @ y # t) = b"
    using assms by (simp_all add: takeWhile_append2)
  with eq have "a = b" by simp
  with eq show "a = b \<and> x = y \<and> s = t" by simp
qed simp

end
