(* ===== verification/Csr_Format.thy ===== *)
theory Csr_Format
  imports Graph_Types Decimal
begin

section \<open>The segment file format\<close>

text \<open>
  \<^verbatim>\<open>src/csr/format.rs\<close>: a segment is a 128-byte header, an array of 24-byte source entries and
  an array of 32-byte edge bodies, all little-endian. The encoders write into fixed byte arrays
  at constant positions; each decoder is only called on a buffer long enough for its fields, so
  the slices it takes are in range.
\<close>

definition CSR_MAGIC :: u32 where "CSR_MAGIC = 0x47534d4c"
definition CSR_VERSION :: u16 where "CSR_VERSION = 1"
definition CSR_HEADER_LEN :: nat where "CSR_HEADER_LEN = 128"
definition EDGE_OFFSET_LEN :: nat where "EDGE_OFFSET_LEN = 24"
definition DISK_EDGE_BODY_LEN :: nat where "DISK_EDGE_BODY_LEN = 32"

record csr_header =
  h_magic :: u32
  h_version :: u16
  h_header_len :: u16
  h_level :: level_id
  h_flags :: u8
  h_file_id :: file_id
  h_create_ts :: timestamp
  h_min_ts :: timestamp
  h_max_ts :: timestamp
  h_src_label :: i32
  h_edge_type_partition :: edge_type
  h_min_src :: vertex_id
  h_max_src :: vertex_id
  h_edge_offset_count :: u64
  h_edge_body_count :: u64
  h_offsets_offset :: u64
  h_offsets_len :: u64
  h_bodies_offset :: u64
  h_bodies_len :: u64
  h_checksum :: u64

text \<open>\<^verbatim>\<open>out[off..off + n].copy_from_slice(bs)\<close> and the reads of the same shape.\<close>

definition put_bytes :: "nat \<Rightarrow> bytes \<Rightarrow> bytes \<Rightarrow> bytes" where
  "put_bytes off bs out = take off out @ bs @ drop (off + length bs) out"

definition put_u16 :: "nat \<Rightarrow> u16 \<Rightarrow> bytes \<Rightarrow> bytes" where
  "put_u16 off v out = put_bytes off (u16_le v) out"

definition put_u32 :: "nat \<Rightarrow> u32 \<Rightarrow> bytes \<Rightarrow> bytes" where
  "put_u32 off v out = put_bytes off (u32_le v) out"

definition put_u64 :: "nat \<Rightarrow> u64 \<Rightarrow> bytes \<Rightarrow> bytes" where
  "put_u64 off v out = put_bytes off (u64_le v) out"

definition put_u8 :: "nat \<Rightarrow> u8 \<Rightarrow> bytes \<Rightarrow> bytes" where
  "put_u8 off v out = put_bytes off [v] out"

definition get_u16 :: "bytes \<Rightarrow> nat \<Rightarrow> u16" where
  "get_u16 buf off = of_le16 (sub_list off 2 buf)"

definition get_u32 :: "bytes \<Rightarrow> nat \<Rightarrow> u32" where
  "get_u32 buf off = of_le32 (sub_list off 4 buf)"

definition get_u64 :: "bytes \<Rightarrow> nat \<Rightarrow> u64" where
  "get_u64 buf off = of_le64 (sub_list off 8 buf)"

definition csr_header_encode :: "csr_header \<Rightarrow> bytes" where
  "csr_header_encode h =
     (let out = replicate CSR_HEADER_LEN 0;
          out = put_u32 0 (h_magic h) out;
          out = put_u16 4 (h_version h) out;
          out = put_u16 6 (h_header_len h) out;
          out = put_u8 8 (h_level h) out;
          out = put_u8 9 (h_flags h) out;
          out = put_u64 16 (h_file_id h) out;
          out = put_u64 24 (h_create_ts h) out;
          out = put_u64 32 (h_max_ts h) out;
          out = put_u64 112 (h_min_ts h) out;
          out = put_u32 120 (h_src_label h) out;
          out = put_u32 124 (h_edge_type_partition h) out;
          out = put_u64 40 (h_min_src h) out;
          out = put_u64 48 (h_max_src h) out;
          out = put_u64 56 (h_edge_offset_count h) out;
          out = put_u64 64 (h_edge_body_count h) out;
          out = put_u64 72 (h_offsets_offset h) out;
          out = put_u64 80 (h_offsets_len h) out;
          out = put_u64 88 (h_bodies_offset h) out;
          out = put_u64 96 (h_bodies_len h) out;
          out = put_u64 104 (h_checksum h) out
      in out)"

definition csr_header_decode :: "bytes \<Rightarrow> csr_header res" where
  "csr_header_decode buf =
     (if length buf < CSR_HEADER_LEN then Inl (Header_too_short (length buf))
      else
        let header =
          \<lparr>h_magic = get_u32 buf 0, h_version = get_u16 buf 4, h_header_len = get_u16 buf 6,
           h_level = buf ! 8, h_flags = buf ! 9, h_file_id = get_u64 buf 16,
           h_create_ts = get_u64 buf 24, h_min_ts = get_u64 buf 112, h_max_ts = get_u64 buf 32,
           h_src_label = get_u32 buf 120, h_edge_type_partition = get_u32 buf 124,
           h_min_src = get_u64 buf 40, h_max_src = get_u64 buf 48,
           h_edge_offset_count = get_u64 buf 56, h_edge_body_count = get_u64 buf 64,
           h_offsets_offset = get_u64 buf 72, h_offsets_len = get_u64 buf 80,
           h_bodies_offset = get_u64 buf 88, h_bodies_len = get_u64 buf 96,
           h_checksum = get_u64 buf 104\<rparr>
        in if h_magic header \<noteq> CSR_MAGIC then Inl (Bad_magic (h_magic header))
           else if h_version header \<noteq> CSR_VERSION
             then Inl (Unsupported_version (ucast (h_version header)))
           else Inr header)"

subsection \<open>Writes at constant positions\<close>

lemma length_put_bytes: "off + length bs \<le> length out \<Longrightarrow> length (put_bytes off bs out) = length out"
  by (simp add: put_bytes_def)

lemma sub_list_put_same:
  "off + length bs \<le> length out \<Longrightarrow> n = length bs \<Longrightarrow> sub_list off n (put_bytes off bs out) = bs"
  by (simp add: put_bytes_def sub_list_def)

lemma sub_list_put_other:
  assumes "off + length bs \<le> length out" "o' + n \<le> off \<or> off + length bs \<le> o'"
  shows "sub_list o' n (put_bytes off bs out) = sub_list o' n out"
proof (cases "o' + n \<le> off")
  case True
  with assms(1) show ?thesis
    by (simp add: put_bytes_def sub_list_append1) (simp add: sub_list_def drop_take min_absorb1)
next
  case False
  then have "off + length bs \<le> o'" using assms(2) by simp
  with assms(1) show ?thesis
    by (simp add: put_bytes_def sub_list_def)
qed

lemma nth_put_other:
  assumes "off + length bs \<le> length out" "i < off \<or> off + length bs \<le> i"
  shows "put_bytes off bs out ! i = out ! i"
proof (cases "i < off")
  case True
  with assms(1) show ?thesis by (simp add: put_bytes_def nth_append)
next
  case False
  then have "off + length bs \<le> i" "\<not> i - off < length bs" using assms(2) by auto
  with assms(1) show ?thesis by (simp add: put_bytes_def nth_append min_absorb2)
qed

lemma nth_put_same: "off < length out \<Longrightarrow> put_bytes off [b] out ! off = b"
  by (simp add: put_bytes_def nth_append)

lemmas put_defs = put_u8_def put_u16_def put_u32_def put_u64_def
lemmas get_defs = get_u16_def get_u32_def get_u64_def

text \<open>The same facts for a buffer of known length, where each side condition is one step.\<close>

lemma put_get:
  assumes "length out = N" "off + length bs \<le> N"
  shows "length (put_bytes off bs out) = N"
    and "n = length bs \<Longrightarrow> sub_list off n (put_bytes off bs out) = bs"
    and "o' + n \<le> off \<or> off + length bs \<le> o' \<Longrightarrow>
      sub_list o' n (put_bytes off bs out) = sub_list o' n out"
    and "i < off \<or> off + length bs \<le> i \<Longrightarrow> put_bytes off bs out ! i = out ! i"
    and "bs = [b] \<Longrightarrow> put_bytes off bs out ! off = b"
  using assms
  by (auto simp: length_put_bytes sub_list_put_same sub_list_put_other nth_put_other nth_put_same)

lemmas put_get128 = put_get [where N = "128"]

lemma length_replicate128: "length (replicate 128 (0 :: u8)) = 128"
  by (rule length_replicate)

lemma length_csr_header_encode [simp, codec_simps]: "length (csr_header_encode h) = CSR_HEADER_LEN"
  unfolding csr_header_encode_def Let_def put_defs CSR_HEADER_LEN_def
  by (intro put_get128(1)) (simp_all)

lemma csr_header_decode_encode:
  assumes "h_magic h = CSR_MAGIC" "h_version h = CSR_VERSION"
  shows "csr_header_decode (csr_header_encode h) = Inr h"
  using assms
  by (cases h)
    (simp add: csr_header_decode_def csr_header_encode_def Let_def put_defs get_defs CSR_HEADER_LEN_def
      put_get128)

subsection \<open>Source entries and edge bodies\<close>

record edge_offset =
  o_src :: vertex_id
  o_first :: u64
  o_count :: u64

text \<open>What \<^verbatim>\<open>encode\<close> appends to the output vector.\<close>

definition edge_offset_encode :: "edge_offset \<Rightarrow> bytes" where
  "edge_offset_encode e = u64_le (o_src e) @ u64_le (o_first e) @ u64_le (o_count e)"

definition edge_offset_decode :: "bytes \<Rightarrow> edge_offset" where
  "edge_offset_decode buf =
     \<lparr>o_src = get_u64 buf 0, o_first = get_u64 buf 8, o_count = get_u64 buf 16\<rparr>"

record disk_edge_body =
  b_dst :: vertex_id
  b_ts :: timestamp
  b_prop_offset :: u64
  b_type :: edge_type
  b_marker :: edge_marker

definition body_of_edge :: "edge_record \<Rightarrow> disk_edge_body" where
  "body_of_edge e =
     \<lparr>b_dst = e_dst e, b_ts = e_ts e, b_prop_offset = 0, b_type = e_type e, b_marker = e_marker e\<rparr>"

definition to_edge_record :: "vertex_id \<Rightarrow> disk_edge_body \<Rightarrow> edge_record" where
  "to_edge_record src b =
     \<lparr>e_src = src, e_dst = b_dst b, e_type = b_type b, e_ts = b_ts b, e_marker = b_marker b\<rparr>"

definition disk_edge_body_encode :: "disk_edge_body \<Rightarrow> bytes" where
  "disk_edge_body_encode b =
     u64_le (b_dst b) @ u64_le (b_ts b) @ u64_le (b_prop_offset b) @ u32_le (b_type b) @
     [marker_to_u8 (b_marker b)] @ [0, 0, 0]"

definition disk_edge_body_decode :: "bytes \<Rightarrow> disk_edge_body" where
  "disk_edge_body_decode buf =
     \<lparr>b_dst = get_u64 buf 0, b_ts = get_u64 buf 8, b_prop_offset = get_u64 buf 16,
      b_type = get_u32 buf 24, b_marker = marker_from_u8 (buf ! 28)\<rparr>"

lemma to_edge_record_body [simp]: "to_edge_record (e_src e) (body_of_edge e) = e"
  by (simp add: to_edge_record_def body_of_edge_def)

lemma sub_list_append: "length xs = off \<Longrightarrow> sub_list (off + k) n (xs @ ys) = sub_list k n ys"
  by (simp add: sub_list_def)

lemma edge_offset_dec_enc: "edge_offset_decode (edge_offset_encode e) = e"
  by (cases e) (simp add: edge_offset_decode_def edge_offset_encode_def get_u64_def
    sub_list_append2 sub_list_append1)

lemma disk_edge_body_dec_enc: "disk_edge_body_decode (disk_edge_body_encode b) = b"
  by (cases b) (simp add: disk_edge_body_decode_def disk_edge_body_encode_def get_defs
    sub_list_append2 sub_list_append1 nth_append)

lemma length_edge_offset_encode: "length (edge_offset_encode e) = 24"
  by (simp add: edge_offset_encode_def)

lemma length_disk_edge_body_encode: "length (disk_edge_body_encode b) = 32"
  by (simp add: disk_edge_body_encode_def)

interpretation offset_codec: fixed_codec edge_offset_encode edge_offset_decode EDGE_OFFSET_LEN
  by unfold_locales (simp_all add: EDGE_OFFSET_LEN_def length_edge_offset_encode edge_offset_dec_enc)

interpretation body_codec: fixed_codec disk_edge_body_encode disk_edge_body_decode DISK_EDGE_BODY_LEN
  by unfold_locales (simp_all add: DISK_EDGE_BODY_LEN_def length_disk_edge_body_encode disk_edge_body_dec_enc)

subsection \<open>Segment metadata\<close>

record csr_segment_meta =
  m_file_id :: file_id
  m_level :: level_id
  m_src_label :: i32
  m_edge_type_partition :: edge_type
  m_min_src :: vertex_id
  m_max_src :: vertex_id
  m_min_ts :: timestamp
  m_edge_count :: u64
  m_unique_src_count :: u64
  m_segment_bytes :: u64
  m_max_ts :: timestamp

definition segment_file_path :: "level_id \<Rightarrow> file_id \<Rightarrow> string" where
  "segment_file_path level f =
     ''levels/L'' @ dec (unat level) @ ''/'' @ pad0 12 (dec (unat f)) @ ''.edge''"

definition relative_path :: "csr_segment_meta \<Rightarrow> string" where
  "relative_path m = segment_file_path (m_level m) (m_file_id m)"

definition may_contain_partition :: "csr_segment_meta \<Rightarrow> vertex_id \<Rightarrow> edge_type option \<Rightarrow> bool" where
  "may_contain_partition m src edge_type =
     (let src_label = source_label_from_vertex_id src;
          label_matches = (m_src_label m = UNKNOWN_SOURCE_LABEL \<or> src_label = UNKNOWN_SOURCE_LABEL \<or>
            m_src_label m = src_label);
          edge_matches = (case edge_type of
             Some t \<Rightarrow> m_edge_type_partition m = MIXED_EDGE_TYPE \<or> m_edge_type_partition m = t
           | None \<Rightarrow> True)
      in label_matches \<and> edge_matches)"

text \<open>Distinct segments never share a file.\<close>

lemma not_digit_slash: "\<not> is_digit (CHR ''/'')" "\<not> is_digit (CHR ''.'')"
  by (simp_all add: is_digit_def)

lemma segment_file_path_inj:
  "segment_file_path l f = segment_file_path l' f' \<longleftrightarrow> l = l' \<and> f = f'"
proof -
  have "segment_file_path l f = segment_file_path l' f' \<longleftrightarrow>
      dec (unat l) = dec (unat l') \<and>
      pad0 12 (dec (unat f)) @ CHR ''.'' # ''edge'' = pad0 12 (dec (unat f')) @ CHR ''.'' # ''edge''"
    using split_class_eq [of "dec (unat l)" is_digit "dec (unat l')" "CHR ''/''" "CHR ''/''"]
    by (simp add: segment_file_path_def is_digit_dec not_digit_slash)
  also have "pad0 12 (dec (unat f)) @ CHR ''.'' # ''edge'' = pad0 12 (dec (unat f')) @ CHR ''.'' # ''edge'' \<longleftrightarrow>
      pad0 12 (dec (unat f)) = pad0 12 (dec (unat f'))"
    by simp
  finally show ?thesis by (simp add: dec_inj pad0_dec_inj word_unat_eq_iff)
qed

text \<open>The temporary name \<^verbatim>\<open>with_extension("edge.tmp")\<close> gives a segment path is nobody's
  segment path.\<close>

definition tmp_path :: "string \<Rightarrow> string" where
  "tmp_path p = p @ ''.tmp''"

lemma last_segment_file_path [simp]: "last (segment_file_path l f) = CHR ''e''" "segment_file_path l f \<noteq> []"
  by (simp_all add: segment_file_path_def)

lemma tmp_path_neq: "tmp_path p \<noteq> segment_file_path l f"
proof
  assume "tmp_path p = segment_file_path l f"
  then have "last (tmp_path p) = last (segment_file_path l f)" by simp
  then show False by (simp add: tmp_path_def)
qed

end
