(* ===== verification/Io_Backend.thy ===== *)
theory Io_Backend
  imports Lsm_Prelude
begin

section \<open>I/O backends\<close>

text \<open>
  \<^verbatim>\<open>src/io\<close>: the three backends behind the \<^verbatim>\<open>IoBackend\<close> trait. A file system maps paths to
  contents; directories, permits and the runtime's thread hand-over do not show in it. How many
  bytes one \<^verbatim>\<open>pread\<close> or \<^verbatim>\<open>pwrite\<close> transfers is the operating system's choice, so that choice
  is a parameter of each backend.
\<close>

type_synonym file_system = "string \<rightharpoonup> bytes"

text \<open>The count a transfer call answers, from the file, the offset and the requested length.\<close>

type_synonym transfer = "bytes \<Rightarrow> nat \<Rightarrow> nat \<Rightarrow> nat res"

definition os_pread :: "transfer \<Rightarrow> bytes \<Rightarrow> nat \<Rightarrow> nat \<Rightarrow> bytes res" where
  "os_pread rd file off len =
     (case rd file off len of Inl e \<Rightarrow> Inl e | Inr n \<Rightarrow> Inr (sub_list off (min n len) file))"

text \<open>A write past the end fills the gap with zeros.\<close>

definition write_bytes :: "nat \<Rightarrow> bytes \<Rightarrow> bytes \<Rightarrow> bytes" where
  "write_bytes off bs file =
     take off (file @ replicate (off - length file) 0) @ bs @ drop (off + length bs) file"

subsection \<open>The blocking backend\<close>

text \<open>The loops of \<^verbatim>\<open>read_at_exactish\<close> and \<^verbatim>\<open>write_all_at\<close>. \<^verbatim>\<open>acc\<close> is the part of the
  buffer filled so far.\<close>

function read_at_exactish ::
  "transfer \<Rightarrow> bytes \<Rightarrow> nat \<Rightarrow> nat \<Rightarrow> bytes \<Rightarrow> bytes res"
where
  "read_at_exactish rd file off len acc =
     (if length acc < len then
        case os_pread rd file (off + length acc) (len - length acc) of
          Inl e \<Rightarrow> Inl e
        | Inr bs \<Rightarrow> if bs = [] then Inr acc else read_at_exactish rd file off len (acc @ bs)
      else Inr acc)"
  by pat_completeness auto
termination
  by (relation "measure (\<lambda>(rd, file, off, len, acc). len - length acc)") (auto intro!: diff_less_mono2)

declare read_at_exactish.simps [simp del]

text \<open>The write loop keeps what it has written when a later transfer fails.\<close>

function write_all_at ::
  "transfer \<Rightarrow> nat \<Rightarrow> bytes \<Rightarrow> nat \<Rightarrow> bytes \<Rightarrow> bytes \<times> unit res"
where
  "write_all_at wr off buf pos file =
     (if pos < length buf then
        case wr file (off + pos) (length buf - pos) of
          Inl e \<Rightarrow> (file, Inl e)
        | Inr n \<Rightarrow>
            if n = 0 then (file, Inl Write_zero)
            else write_all_at wr off buf (pos + n)
                   (write_bytes (off + pos) (take n (drop pos buf)) file)
      else (file, Inr ()))"
  by pat_completeness auto
termination
  by (relation "measure (\<lambda>(wr, off, buf, pos, file). length buf - pos)") auto

declare write_all_at.simps [simp del]

text \<open>The trait as a record of operations.\<close>

record io_ops =
  io_read :: "string \<Rightarrow> nat \<Rightarrow> nat \<Rightarrow> file_system \<Rightarrow> bytes res"
  io_write :: "string \<Rightarrow> nat \<Rightarrow> bytes \<Rightarrow> (file_system, nat) st"
  io_create :: "string \<Rightarrow> (file_system, unit) st"
  io_sync :: "string \<Rightarrow> (file_system, unit) st"
  io_remove :: "string \<Rightarrow> (file_system, unit) st"

definition blocking_read :: "transfer \<Rightarrow> string \<Rightarrow> nat \<Rightarrow> nat \<Rightarrow> file_system \<Rightarrow> bytes res" where
  "blocking_read rd p off len fs =
     (case fs p of None \<Rightarrow> Inl Not_found | Some file \<Rightarrow> read_at_exactish rd file off len [])"

definition blocking_write :: "transfer \<Rightarrow> string \<Rightarrow> nat \<Rightarrow> bytes \<Rightarrow> (file_system, nat) st" where
  "blocking_write wr p off buf fs =
     (let file = (case fs p of None \<Rightarrow> [] | Some file \<Rightarrow> file);
          (file', r) = write_all_at wr off buf 0 file
      in (fs(p \<mapsto> file'), rbind r (\<lambda>_. Inr (length buf))))"

definition file_create :: "string \<Rightarrow> (file_system, unit) st" where
  "file_create p fs = (fs(p \<mapsto> []), Inr ())"

definition file_sync :: "string \<Rightarrow> (file_system, unit) st" where
  "file_sync p fs = (fs, case fs p of None \<Rightarrow> Inl Not_found | Some _ \<Rightarrow> Inr ())"

definition file_remove :: "string \<Rightarrow> (file_system, unit) st" where
  "file_remove p fs = (fs(p := None), Inr ())"

definition blocking_io :: "transfer \<Rightarrow> transfer \<Rightarrow> io_ops" where
  "blocking_io rd wr =
     \<lparr>io_read = blocking_read rd, io_write = blocking_write wr, io_create = file_create,
      io_sync = file_sync, io_remove = file_remove\<rparr>"

subsection \<open>The direct backend\<close>

definition ALIGN :: u64 where "ALIGN = 4096"

definition align_down :: "u64 \<Rightarrow> u64 \<Rightarrow> u64" where
  "align_down v align = v AND NOT (align - 1)"

definition align_up :: "u64 \<Rightarrow> u64 \<Rightarrow> u64" where
  "align_up v align = (v + align - 1) AND NOT (align - 1)"

text \<open>One aligned \<^verbatim>\<open>pread\<close> around the requested range. The file (absent if the path does
  not exist) is opened only after the test for an empty range.\<close>

definition direct_read_at :: "transfer \<Rightarrow> bytes option \<Rightarrow> u64 \<Rightarrow> u64 \<Rightarrow> bytes res" where
  "direct_read_at rd at_path offset len =
     (if len = 0 then Inr []
      else
        let aligned_offset = align_down offset ALIGN;
            delta = offset - aligned_offset;
            aligned_len = align_up (delta + len) ALIGN
        in case at_path of None \<Rightarrow> Inl Not_found
           | Some file \<Rightarrow>
             (case os_pread rd file (unat aligned_offset) (unat aligned_len) of
                Inl e \<Rightarrow> Inl e
              | Inr buf \<Rightarrow>
                  let n = length buf
                  in if n \<le> unat delta then Inr []
                     else let available = min (n - unat delta) (unat len)
                          in Inr (sub_list (unat delta) available buf)))"

text \<open>The padded buffer is written in a loop; then the file is cut or extended to the end of
  the data. An offset that is not aligned is refused before the file is opened, so that no file is
  created.\<close>

definition set_len :: "nat \<Rightarrow> bytes \<Rightarrow> bytes" where
  "set_len n file = take n file @ replicate (n - length file) 0"

definition direct_write_at ::
  "transfer \<Rightarrow> u64 \<Rightarrow> bytes \<Rightarrow> bytes option \<Rightarrow> bytes option \<times> unit res"
where
  "direct_write_at wr offset buf at_path =
     (if offset mod ALIGN \<noteq> 0 then (at_path, Inl (Unaligned_offset (unat offset)))
      else
        let aligned_len = unat (align_up (of_nat (length buf)) ALIGN);
            file = (case at_path of None \<Rightarrow> [] | Some file \<Rightarrow> file);
            aligned = buf @ replicate (aligned_len - length buf) 0;
            (file', r) = write_all_at wr (unat offset) aligned 0 file
        in case r of Inl e \<Rightarrow> (Some file', Inl e)
           | Inr _ \<Rightarrow> (Some (set_len (unat offset + length buf) file'), Inr ()))"

definition direct_io :: "transfer \<Rightarrow> transfer \<Rightarrow> io_ops" where
  "direct_io rd wr =
     \<lparr>io_read = (\<lambda>p off len fs. direct_read_at rd (fs p) (of_nat off) (of_nat len)),
      io_write = (\<lambda>p off buf fs.
         let (at_path, r) = direct_write_at wr (of_nat off) buf (fs p)
         in (fs(p := at_path), rbind r (\<lambda>_. Inr (length buf)))),
      io_create = file_create, io_sync = file_sync, io_remove = file_remove\<rparr>"

subsection \<open>The io_uring backend\<close>

text \<open>One submitted vector read or write; a short write is an error, a short read is not.\<close>

definition uring_read_at :: "transfer \<Rightarrow> bytes \<Rightarrow> nat \<Rightarrow> nat \<Rightarrow> bytes res" where
  "uring_read_at rd file off len = os_pread rd file off len"

definition uring_write_at :: "transfer \<Rightarrow> nat \<Rightarrow> bytes \<Rightarrow> bytes \<Rightarrow> bytes \<times> unit res" where
  "uring_write_at wr off buf file =
     (case wr file off (length buf) of
        Inl e \<Rightarrow> (file, Inl e)
      | Inr n \<Rightarrow> (write_bytes off (take n buf) file,
                  if n \<noteq> length buf then Inl Unexpected_eof else Inr ()))"

definition uring_io :: "transfer \<Rightarrow> transfer \<Rightarrow> io_ops" where
  "uring_io rd wr =
     \<lparr>io_read = (\<lambda>p off len fs. case fs p of None \<Rightarrow> Inl Not_found
         | Some file \<Rightarrow> uring_read_at rd file off len),
      io_write = (\<lambda>p off buf fs.
         let (file', r) = uring_write_at wr off buf (case fs p of None \<Rightarrow> [] | Some f \<Rightarrow> f)
         in (fs(p \<mapsto> file'), rbind r (\<lambda>_. Inr (length buf)))),
      io_create = file_create, io_sync = file_sync, io_remove = file_remove\<rparr>"

datatype io_backend_kind = Blocking | Direct | Uring

text \<open>\<^verbatim>\<open>AnyIoBackend::new\<close>, on a build with both optional features.\<close>

definition any_io :: "io_backend_kind \<Rightarrow> transfer \<Rightarrow> transfer \<Rightarrow> io_ops" where
  "any_io k rd wr =
     (case k of Blocking \<Rightarrow> blocking_io rd wr | Direct \<Rightarrow> direct_io rd wr | Uring \<Rightarrow> uring_io rd wr)"

subsection \<open>What the operating system promises\<close>

text \<open>A transfer of a positive length moves at least one byte and at most what was asked. A
  complete one moves all of it.\<close>

definition makes_progress :: "transfer \<Rightarrow> bool" where
  "makes_progress t \<longleftrightarrow> (\<forall>file off len. 0 < len \<longrightarrow> (\<exists>n. t file off len = Inr n \<and> 0 < n \<and> n \<le> len))"

definition completes :: "transfer \<Rightarrow> bool" where
  "completes t \<longleftrightarrow> (\<forall>file off len. t file off len = Inr len)"

definition whole_transfer :: transfer where
  "whole_transfer file off len = Inr len"

definition chunked_transfer :: "nat \<Rightarrow> transfer" where
  "chunked_transfer c file off len = Inr (min (Suc c) len)"

lemma completes_progress: "completes t \<Longrightarrow> makes_progress t"
  by (simp add: completes_def makes_progress_def)

lemma transfer_instances:
  "completes whole_transfer" "makes_progress whole_transfer" "makes_progress (chunked_transfer c)"
  by (simp_all add: completes_def makes_progress_def whole_transfer_def chunked_transfer_def)

subsection \<open>The loops transfer everything\<close>

lemma sub_list_extend:
  "n \<le> len \<Longrightarrow> sub_list off n f @ sub_list (off + n) (len - n) f = sub_list off len f"
  by (simp add: sub_list_def add.commute flip: drop_drop take_add)

lemma sub_list_full: "xs = sub_list off n f \<Longrightarrow> xs = sub_list off (length xs) f"
  by (simp add: sub_list_def min_def)

lemma clip_aligned: "d + n \<le> al \<Longrightarrow> min (min al (m - ao) - d) n = min (m - (ao + d)) (n :: nat)"
  by (cases "m - ao \<le> al") (auto simp: min_def)

lemma read_at_exactish_prefix:
  assumes "makes_progress rd" "acc = sub_list off (length acc) f" "length acc \<le> len"
  shows "read_at_exactish rd f off len acc = Inr (sub_list off len f)"
  using assms
proof (induction rd f off len acc rule: read_at_exactish.induct)
  case (1 rd f off len acc)
  note acc = 1(3) and le = 1(4)
  show ?case
  proof (cases "length acc < len")
    case False
    then show ?thesis using acc le by (subst read_at_exactish.simps) simp
  next
    case True
    then obtain n where n: "rd f (off + length acc) (len - length acc) = Inr n" "0 < n" "n \<le> len - length acc"
      using 1(2) unfolding makes_progress_def by (metis zero_less_diff)
    define bs where "bs = sub_list (off + length acc) n f"
    have pread: "os_pread rd f (off + length acc) (len - length acc) = Inr bs"
      using n by (simp add: os_pread_def bs_def min_absorb1)
    show ?thesis
    proof (cases "bs = []")
      case True
      then have "length f \<le> off + length acc" using n(2) by (auto simp: bs_def sub_list_def)
      then have "sub_list (off + length acc) (len - length acc) f = []" by (simp add: sub_list_def)
      then have "sub_list off len f = acc"
        using sub_list_extend [of "length acc" len off f] acc le by simp
      then show ?thesis
        using \<open>length acc < len\<close> pread True by (subst read_at_exactish.simps) simp
    next
      case False
      have "length bs \<le> n" by (simp add: bs_def)
      then have "acc @ bs = sub_list off (length acc + n) f"
        using sub_list_extend [of "length acc" "length acc + n" off f] acc by (simp add: bs_def)
      moreover from this have "acc @ bs = sub_list off (length (acc @ bs)) f"
        by (rule sub_list_full)
      ultimately have "read_at_exactish rd f off len (acc @ bs) = Inr (sub_list off len f)"
        using 1(1) [OF \<open>length acc < len\<close> pread False 1(2)] \<open>length bs \<le> n\<close> n(3) \<open>length acc < len\<close> by simp
      then show ?thesis
        using \<open>length acc < len\<close> pread False by (subst read_at_exactish.simps) simp
    qed
  qed
qed

lemma length_write_bytes: "length (write_bytes off bs file) = max (length file) (off + length bs)"
  by (auto simp: write_bytes_def)

lemma write_bytes_append:
  "write_bytes (off + length xs) ys (write_bytes off xs f) = write_bytes off (xs @ ys) f"
proof -
  let ?p = "take off (f @ replicate (off - length f) 0)"
  have "length ?p = off" by simp
  then show ?thesis by (simp add: write_bytes_def add.assoc add.commute [of "length ys"])
qed

lemma write_bytes_Nil: "off \<le> length f \<Longrightarrow> write_bytes off [] f = f"
  by (simp add: write_bytes_def)

lemma write_all_at_suffix:
  assumes "makes_progress wr" "pos \<le> length buf"
  shows "pos = length buf \<and> write_all_at wr off buf pos f = (f, Inr ()) \<or>
    pos < length buf \<and>
    write_all_at wr off buf pos f = (write_bytes (off + pos) (drop pos buf) f, Inr ())"
  using assms
proof (induction wr off buf pos f rule: write_all_at.induct)
  case (1 wr off buf pos f)
  show ?case
  proof (cases "pos < length buf")
    case True
    then obtain n where n: "wr f (off + pos) (length buf - pos) = Inr n" "0 < n" "n \<le> length buf - pos"
      using 1(2) unfolding makes_progress_def by (metis zero_less_diff)
    let ?f = "write_bytes (off + pos) (take n (drop pos buf)) f"
    have step: "write_all_at wr off buf pos f = write_all_at wr off buf (pos + n) ?f"
      using True n by (subst write_all_at.simps) simp
    have tl: "length (take n (drop pos buf)) = n" using n(3) by simp
    have "write_bytes (off + (pos + n)) (drop (pos + n) buf) ?f = write_bytes (off + pos) (drop pos buf) f"
      using write_bytes_append [of "off + pos" "take n (drop pos buf)" "drop n (drop pos buf)" f]
        append_take_drop_id [of n "drop pos buf"] tl
      by (simp add: add.assoc add.commute [of n] del: append_take_drop_id)
    moreover have "?f = write_bytes (off + pos) (drop pos buf) f" if "pos + n = length buf"
      using that by simp
    moreover have "pos + n \<le> length buf" "n \<noteq> 0" using n True by simp_all
    ultimately show ?thesis
      using 1(1) [OF True n(1)] 1(2) True step by auto
  next
    case False
    then have "write_all_at wr off buf pos f = (f, Inr ())" by (subst write_all_at.simps) simp
    with False 1(3) show ?thesis by simp
  qed
qed

lemma write_all_at_all:
  assumes "makes_progress wr" "off \<le> length f"
  shows "write_all_at wr off buf 0 f = (write_bytes off buf f, Inr ())"
  using write_all_at_suffix [OF assms(1), of 0 buf off f] assms(2) write_bytes_Nil [of off f] by auto

subsection \<open>Alignment\<close>

lemma ALIGN_mask: "ALIGN - 1 = mask 12"
  by (simp add: ALIGN_def mask_eq_decr_exp)

lemma and_not_mask: "unat (v AND NOT (mask 12) :: u64) = unat v div 4096 * 4096"
proof -
  have "v AND NOT (mask 12) = push_bit 12 (drop_bit 12 v)"
    by (rule bit_word_eqI) (auto simp: bit_simps)
  moreover have "unat (drop_bit 12 v) = unat v div 4096"
    by (simp add: unsigned_drop_bit_eq drop_bit_eq_div [where 'a = nat]
        take_bit_nat_eq_self unat_word_less(4))
  moreover have "unat (drop_bit 12 v) * unat (4096 :: u64) < 2 ^ LENGTH(64)"
    using unat_word_less(4) [of v] \<open>unat (drop_bit 12 v) = unat v div 4096\<close> by simp
  then have "unat (drop_bit 12 v * 4096) = unat (drop_bit 12 v) * unat (4096 :: u64)"
    by (simp only: unat_mult_lem)
  moreover have "push_bit 12 (drop_bit 12 v) = drop_bit 12 v * 4096"
    by (simp add: push_bit_eq_mult)
  ultimately show ?thesis by simp
qed

lemma unat_align_down: "unat (align_down v ALIGN) = unat v div 4096 * 4096"
  by (simp add: align_down_def ALIGN_mask and_not_mask)

lemma unat_align_up:
  assumes "unat v + 4095 < 2 ^ 64"
  shows "unat (align_up v ALIGN) = (unat v + 4095) div 4096 * 4096"
proof -
  have c: "unat (4095 :: u64) = 4095" by simp
  have "unat v + unat (4095 :: u64) < 2 ^ LENGTH(64)" using assms by simp
  then have "unat (v + 4095) = unat v + unat (4095 :: u64)" by (simp only: unat_add_lem)
  then have "unat (v + 4095) = unat v + 4095" by (simp only: c)
  moreover have "v + ALIGN - 1 = v + 4095" by (simp add: ALIGN_def)
  ultimately show ?thesis unfolding align_up_def ALIGN_mask and_not_mask by (simp only:)
qed

subsection \<open>The direct backend reads and writes the requested range\<close>

lemma sub_list_inner:
  "d + k \<le> n \<Longrightarrow> sub_list d k (sub_list a n f) = sub_list (a + d) k f"
  by (rule sub_list_sub_list)

lemma sub_list_min: "sub_list off (min (length f - off) n) f = sub_list off n f"
  by (simp add: sub_list_def min_def)

lemma direct_read_exact:
  assumes "completes rd" "unat offset + unat len < 2 ^ 62"
  shows "direct_read_at rd (Some f) offset len = Inr (sub_list (unat offset) (unat len) f)"
proof (cases "len = 0")
  case True
  then show ?thesis by (simp add: direct_read_at_def sub_list_def)
next
  case False
  define off where "off = unat offset"
  define ao where "ao = off div 4096 * 4096"
  define d where "d = off - ao"
  define n where "n = unat len"
  define al where "al = (d + n + 4095) div 4096 * 4096"
  have ao: "unat (align_down offset ALIGN) = ao" by (simp add: unat_align_down ao_def off_def)
  have le: "ao \<le> off" "d < 4096" "off = ao + d" by (auto simp: ao_def d_def)
  have d: "unat (offset - align_down offset ALIGN) = d"
    using ao le by (simp add: unat_sub word_le_nat_alt d_def off_def)
  have dn: "d + n < 2 ^ 63" using assms(2) le by (simp add: n_def off_def)
  then have sum: "unat (offset - align_down offset ALIGN + len) = d + n"
    using d unat_add_lem [of "offset - align_down offset ALIGN" len] by (simp add: n_def)
  then have al: "unat (align_up (offset - align_down offset ALIGN + len) ALIGN) = al"
    using dn by (simp add: unat_align_up al_def)
  have al_ge: "d + n \<le> al" by (simp add: al_def)
  have pread: "os_pread rd f ao al = Inr (sub_list ao al f)"
    using assms(1) by (simp add: os_pread_def completes_def)
  let ?buf = "sub_list ao al f"
  have result: "direct_read_at rd (Some f) offset len =
      (if length ?buf \<le> d then Inr [] else Inr (sub_list d (min (length ?buf - d) n) ?buf))"
    using False pread by (simp add: direct_read_at_def Let_def ao d al n_def)
  show ?thesis
  proof (cases "length ?buf \<le> d")
    case True
    moreover have "0 < n" using \<open>len \<noteq> 0\<close> by (simp add: n_def unat_gt_0)
    ultimately have "length f \<le> off" using al_ge le by simp
    then show ?thesis using result True by (simp add: sub_list_def off_def)
  next
    case False
    have "d + min (length ?buf - d) n \<le> al" using al_ge by simp
    then have "sub_list d (min (length ?buf - d) n) ?buf = sub_list off (min (length ?buf - d) n) f"
      using le by (simp add: sub_list_inner)
    moreover have "min (length ?buf - d) n = min (length f - off) n"
      using al_ge le by (simp add: clip_aligned)
    ultimately show ?thesis using result False by (simp add: sub_list_min off_def n_def)
  qed
qed

lemma set_len_write_bytes:
  assumes "off \<le> length f"
  shows "set_len (off + length buf) (write_bytes off (buf @ pad) f) = take off f @ buf"
  using assms by (simp add: set_len_def write_bytes_def)

lemma direct_write_exact:
  assumes "makes_progress wr" "offset mod ALIGN = 0" "unat offset \<le> length f"
  shows "direct_write_at wr offset buf (Some f) = (Some (take (unat offset) f @ buf), Inr ())"
  using assms
  by (simp add: direct_write_at_def Let_def write_all_at_all set_len_write_bytes)

text \<open>What the early returns do for a path that does not exist.\<close>

lemma direct_read_missing:
  "direct_read_at rd None offset len = (if len = 0 then Inr [] else Inl Not_found)"
  by (simp add: direct_read_at_def)

lemma direct_write_unaligned:
  "of_nat off mod ALIGN \<noteq> 0 \<Longrightarrow>
   io_write (direct_io rd wr) p off buf fs = (fs, Inl (Unaligned_offset (unat (of_nat off :: u64))))"
  by (simp add: direct_io_def direct_write_at_def)

subsection \<open>The contract the storage code relies on\<close>

text \<open>A segment is written once, at offset 0 of a file just created, and read back by range. The
  length bound keeps the direct backend's alignment arithmetic in 64 bits.\<close>

definition IO_BOUND :: nat where "IO_BOUND = 2 ^ 62"

locale io_backend =
  fixes io :: io_ops
  assumes create: "io_create io p fs = (fs(p \<mapsto> []), Inr ())"
    and write_new: "fs p = Some [] \<Longrightarrow> length bs < IO_BOUND \<Longrightarrow>
      io_write io p 0 bs fs = (fs(p \<mapsto> bs), Inr (length bs))"
    and sync: "fs p = Some c \<Longrightarrow> io_sync io p fs = (fs, Inr ())"
    and read: "fs p = Some c \<Longrightarrow> off + len < IO_BOUND \<Longrightarrow>
      io_read io p off len fs = Inr (sub_list off len c)"
    and read_missing: "fs p = None \<Longrightarrow> 0 < len \<Longrightarrow> len < IO_BOUND \<Longrightarrow> io_read io p off len fs = Inl Not_found"
    and remove: "io_remove io p fs = (fs(p := None), Inr ())"
begin

text \<open>Create, write and sync leave exactly the given bytes, which any later read sees.\<close>

lemma store:
  assumes "length bs < IO_BOUND"
  shows "sbind (io_create io p) (\<lambda>_. sbind (io_write io p 0 bs) (\<lambda>_. io_sync io p)) fs =
    (fs(p \<mapsto> bs), Inr ())"
  using assms by (simp add: sbind_def create write_new sync)

lemma read_stored:
  "length bs < IO_BOUND \<Longrightarrow> off + len < IO_BOUND \<Longrightarrow>
   io_read io p off len (fst (sbind (io_create io p) (\<lambda>_. io_write io p 0 bs) fs)) =
   Inr (sub_list off len bs)"
  by (simp add: sbind_def create write_new read)

end

lemma io_ops_sel [simp]:
  "io_create (any_io k rd wr) = file_create" "io_sync (any_io k rd wr) = file_sync"
  "io_remove (any_io k rd wr) = file_remove"
  by (cases k; simp add: any_io_def blocking_io_def direct_io_def uring_io_def)+

lemma of_nat_len_0: "len < IO_BOUND \<Longrightarrow> (of_nat len :: u64) = 0 \<longleftrightarrow> len = 0"
  by (auto simp: IO_BOUND_def word_unat_eq_iff unat_of_nat)

lemma any_io_contract:
  assumes "completes rd" "completes wr"
  shows "io_backend (any_io k rd wr)"
proof
  fix p :: string and fs :: file_system and off len :: nat and bs c :: bytes
  note pr = completes_progress [OF assms(1)] completes_progress [OF assms(2)]
  show "io_create (any_io k rd wr) p fs = (fs(p \<mapsto> []), Inr ())" by (simp add: file_create_def)
  show "fs p = Some c \<Longrightarrow> io_sync (any_io k rd wr) p fs = (fs, Inr ())" by (simp add: file_sync_def)
  show "io_remove (any_io k rd wr) p fs = (fs(p := None), Inr ())" by (simp add: file_remove_def)
  show "io_read (any_io k rd wr) p off len fs = Inl Not_found" if "fs p = None" "0 < len" "len < IO_BOUND"
    using that of_nat_len_0 [of len]
    by (cases k) (simp_all add: any_io_def blocking_io_def direct_io_def uring_io_def blocking_read_def direct_read_missing)
  show "io_read (any_io k rd wr) p off len fs = Inr (sub_list off len c)"
    if "fs p = Some c" "off + len < IO_BOUND"
    using that assms read_at_exactish_prefix [OF pr(1), of "[]" off c len]
      direct_read_exact [OF assms(1), of "of_nat off" "of_nat len" c]
    by (cases k)
      (simp_all add: any_io_def blocking_io_def direct_io_def uring_io_def blocking_read_def
        uring_read_at_def os_pread_def completes_def sub_list_def IO_BOUND_def unat_of_nat)
  show "io_write (any_io k rd wr) p 0 bs fs = (fs(p \<mapsto> bs), Inr (length bs))"
    if "fs p = Some []" "length bs < IO_BOUND"
    using that assms write_all_at_all [OF pr(2), of 0 "[]" bs]
      direct_write_exact [OF pr(2), of 0 "[]" bs]
    by (cases k)
      (simp_all add: any_io_def blocking_io_def direct_io_def uring_io_def blocking_write_def
        uring_write_at_def completes_def write_bytes_def)
qed

lemma blocking_contract:
  assumes "makes_progress rd" "makes_progress wr"
  shows "io_backend (blocking_io rd wr)"
proof
  fix p :: string and fs :: file_system and off len :: nat and bs c :: bytes
  show "io_create (blocking_io rd wr) p fs = (fs(p \<mapsto> []), Inr ())"
    by (simp add: blocking_io_def file_create_def)
  show "fs p = Some c \<Longrightarrow> io_sync (blocking_io rd wr) p fs = (fs, Inr ())"
    by (simp add: blocking_io_def file_sync_def)
  show "io_remove (blocking_io rd wr) p fs = (fs(p := None), Inr ())"
    by (simp add: blocking_io_def file_remove_def)
  show "fs p = None \<Longrightarrow> 0 < len \<Longrightarrow> len < IO_BOUND \<Longrightarrow> io_read (blocking_io rd wr) p off len fs = Inl Not_found"
    by (simp add: blocking_io_def blocking_read_def)
  show "fs p = Some c \<Longrightarrow> io_read (blocking_io rd wr) p off len fs = Inr (sub_list off len c)"
    using read_at_exactish_prefix [OF assms(1), of "[]" off c len]
    by (simp add: blocking_io_def blocking_read_def sub_list_def)
  show "fs p = Some [] \<Longrightarrow> io_write (blocking_io rd wr) p 0 bs fs = (fs(p \<mapsto> bs), Inr (length bs))"
    using write_all_at_all [OF assms(2), of 0 "[]" bs]
    by (simp add: blocking_io_def blocking_write_def write_bytes_def)
qed

interpretation whole_io: io_backend "any_io k whole_transfer whole_transfer" for k
  by (rule any_io_contract) (rule transfer_instances)+

interpretation chunked_io: io_backend "blocking_io (chunked_transfer c) (chunked_transfer c)" for c
  by (rule blocking_contract) (rule transfer_instances)+

subsection \<open>Properties\<close>

text \<open>C28. On an operating system that completes its transfers the three backends answer every
  read of an existing file alike, with the bytes of the requested range that exist, and fail on a
  missing file, with one exception: an empty read through the direct backend does not open the
  file and succeeds whether it exists or not.\<close>

theorem backends_read_alike:
  assumes "completes rd" "off + len < IO_BOUND"
  shows "io_read (any_io k rd wr) p off len fs =
    (case fs p of
       None \<Rightarrow> if k = Direct \<and> len = 0 then Inr [] else Inl Not_found
     | Some c \<Rightarrow> Inr (sub_list off len c))"
proof -
  note io = any_io_contract [OF assms(1) transfer_instances(1), of k]
  have rd: "io_read (any_io k rd wr) = io_read (any_io k rd whole_transfer)"
    by (cases k) (simp_all add: any_io_def blocking_io_def direct_io_def uring_io_def)
  show ?thesis
  proof (cases "fs p")
    case None
    then show ?thesis
      using io_backend.read_missing [OF io, of fs p len off] assms(2) rd
      by (cases "len = 0"; cases k)
        (simp_all add: any_io_def blocking_io_def direct_io_def uring_io_def blocking_read_def direct_read_missing)
  next
    case (Some c)
    then show ?thesis using io_backend.read [OF io, of fs p c off len] assms(2) rd by simp
  qed
qed

theorem backends_read_alike_witness:
  "io_read (any_io Direct whole_transfer whole_transfer) ''f'' 5 3 [''f'' \<mapsto> [1, 2, 3, 4, 5, 6, 7]] = Inr [6, 7] \<and>
   io_read (any_io Direct whole_transfer whole_transfer) ''g'' 5 0 [''f'' \<mapsto> [1]] = Inr [] \<and>
   io_read (any_io Uring whole_transfer whole_transfer) ''g'' 5 0 [''f'' \<mapsto> [1]] = Inl Not_found"
  using backends_read_alike [OF transfer_instances(1), of 5 3 Direct whole_transfer "''f''" "[''f'' \<mapsto> [1, 2, 3, 4, 5, 6, 7]]"]
    backends_read_alike [OF transfer_instances(1), of 5 0 _ whole_transfer "''g''" "[''f'' \<mapsto> [1]]"]
  by (simp add: IO_BOUND_def sub_list_def)

text \<open>The blocking backend reads the whole range and writes the whole buffer however the
  operating system splits the transfers, as long as each moves something.\<close>

lemma blocking_io_exact:
  assumes "makes_progress rd" "makes_progress wr" "fs p = Some c" "off \<le> length c"
  shows "io_read (blocking_io rd wr) p off len fs = Inr (sub_list off len c) \<and>
    io_write (blocking_io rd wr) p off buf fs = (fs(p \<mapsto> write_bytes off buf c), Inr (length buf))"
  using assms read_at_exactish_prefix [OF assms(1), of "[]" off c len]
    write_all_at_all [OF assms(2,4), of buf]
  by (simp_all add: blocking_io_def blocking_read_def blocking_write_def sub_list_def)

lemma blocking_io_exact_example:
  "io_read (blocking_io (chunked_transfer 0) (chunked_transfer 1)) ''f'' 1 9 [''f'' \<mapsto> [1, 2, 3, 4]] =
     Inr [2, 3, 4] \<and>
   io_write (blocking_io (chunked_transfer 0) (chunked_transfer 1)) ''f'' 1 [7, 8, 9, 10, 11] [''f'' \<mapsto> [1, 2, 3, 4]] =
     ([''f'' \<mapsto> [1, 7, 8, 9, 10, 11]], Inr 5)"
  using blocking_io_exact [OF transfer_instances(3) transfer_instances(3), where fs = "[''f'' \<mapsto> [1, 2, 3, 4]]"
      and p = "''f''" and c = "[1, 2, 3, 4]" and off = 1]
  by (simp add: sub_list_def write_bytes_def)

text \<open>A direct write leaves nothing of the file after the written range, where the blocking
  backend keeps it.\<close>

theorem direct_write_cuts_tail:
  assumes "makes_progress wr" "offset mod ALIGN = 0" "unat offset \<le> length f"
  shows "direct_write_at wr offset buf (Some f) = (Some (take (unat offset) f @ buf), Inr ()) \<and>
    write_all_at wr (unat offset) buf 0 f =
      (take (unat offset) f @ buf @ drop (unat offset + length buf) f, Inr ())"
  using direct_write_exact [OF assms] write_all_at_all [OF assms(1,3)] assms(3)
  by (simp add: write_bytes_def)

theorem direct_write_cuts_tail_witness:
  "direct_write_at (chunked_transfer 1000) 0 [9] (Some [1, 2, 3]) = (Some [9], Inr ()) \<and>
   write_all_at (chunked_transfer 1000) 0 [9] 0 [1, 2, 3] = ([9, 2, 3], Inr ())"
  using direct_write_cuts_tail [OF transfer_instances(3), of 0 "[1, 2, 3]" 1000 "[9]"] by simp

text \<open>A short vector read is handed to the caller as it is: the io_uring backend can return
  fewer bytes than the file holds in the range.\<close>

theorem uring_read_short:
  "io_read (uring_io (chunked_transfer 0) wr) ''f'' 0 4 [''f'' \<mapsto> [1, 2, 3, 4]] = Inr [1] \<and>
   io_read (blocking_io (chunked_transfer 0) wr) ''f'' 0 4 [''f'' \<mapsto> [1, 2, 3, 4]] = Inr [1, 2, 3, 4]"
  using read_at_exactish_prefix [OF transfer_instances(3), of "[]" 0 "[1, 2, 3, 4]" 4 0]
  by (simp add: uring_io_def uring_read_at_def os_pread_def chunked_transfer_def sub_list_def
      blocking_io_def blocking_read_def)

end
