(* ===== verification/Csr_Writer.thy ===== *)
theory Csr_Writer
  imports Csr_Format Io_Backend
begin

section \<open>Writing a segment\<close>

text \<open>
  \<^verbatim>\<open>src/csr/writer.rs\<close>: the records are sorted, one source entry is emitted per run of
  records with the same source, and header, entries and bodies go to a temporary file that is
  then renamed. The backend is the parameter \<^verbatim>\<open>B\<close> of \<^verbatim>\<open>CsrWriter\<close>.
\<close>

fun emit_run :: "vertex_id \<Rightarrow> edge_record list \<Rightarrow> bytes \<Rightarrow> u64 \<Rightarrow> edge_record list \<times> bytes \<times> u64" where
  "emit_run src [] bodies cnt = ([], bodies, cnt)"
| "emit_run src (e # es) bodies cnt =
     (if e_src e = src
      then emit_run src es (bodies @ disk_edge_body_encode (body_of_edge e)) (cnt + 1)
      else (e # es, bodies, cnt))"

lemma length_emit_run: "length (fst (emit_run src es bodies cnt)) \<le> length es"
  by (induction src es bodies cnt rule: emit_run.induct) auto

function emit_runs :: "nat \<Rightarrow> edge_record list \<Rightarrow> bytes \<Rightarrow> bytes \<Rightarrow> bytes \<times> bytes" where
  "emit_runs idx [] offsets bodies = (offsets, bodies)"
| "emit_runs idx (e # es) offsets bodies =
     (let (rest, bodies', cnt) = emit_run (e_src e) (e # es) bodies 0
      in emit_runs (idx + (length (e # es) - length rest)) rest
           (offsets @ edge_offset_encode
              \<lparr>o_src = e_src e, o_first = of_nat idx, o_count = cnt\<rparr>)
           bodies')"
  by pat_completeness auto
termination
proof (relation "measure (\<lambda>(idx, es, offsets, bodies). length es)", goal_cases)
  case (2 idx e es offsets bodies r rest p bodies' cnt)
  then have "rest = fst (emit_run (e_src e) es (bodies @ disk_edge_body_encode (body_of_edge e)) 1)"
    by (metis add_0 emit_run.simps(2) fst_conv)
  then show ?case
    using length_emit_run [of "e_src e" es "bodies @ disk_edge_body_encode (body_of_edge e)" 1]
    by simp
qed simp

fun count_unique_from :: "edge_record list \<Rightarrow> u64 \<Rightarrow> vertex_id option \<Rightarrow> u64" where
  "count_unique_from [] cnt prev = cnt"
| "count_unique_from (e # es) cnt prev =
     (if prev \<noteq> Some (e_src e) then count_unique_from es (cnt + 1) (Some (e_src e))
      else count_unique_from es cnt prev)"

definition count_unique_sources :: "edge_record list \<Rightarrow> u64" where
  "count_unique_sources es = count_unique_from es 0 None"

text \<open>The loop of \<^verbatim>\<open>segment_src_label\<close> and \<^verbatim>\<open>segment_edge_type\<close>: the common value, or the
  given one as soon as two differ.\<close>

fun common_value :: "'a \<Rightarrow> 'a list \<Rightarrow> 'a option \<Rightarrow> 'a" where
  "common_value d [] acc = (case acc of None \<Rightarrow> d | Some v \<Rightarrow> v)"
| "common_value d (x # xs) acc =
     (case acc of None \<Rightarrow> common_value d xs (Some x)
      | Some v \<Rightarrow> if v = x then common_value d xs acc else d)"

definition segment_src_label :: "edge_record list \<Rightarrow> i32" where
  "segment_src_label es =
     common_value UNKNOWN_SOURCE_LABEL (map (\<lambda>e. source_label_from_vertex_id (e_src e)) es) None"

definition segment_edge_type :: "edge_record list \<Rightarrow> edge_type" where
  "segment_edge_type es = common_value MIXED_EDGE_TYPE (map e_type es) None"

text \<open>\<^verbatim>\<open>iter().min().unwrap_or(0)\<close> and its companions.\<close>

definition min_or_0 :: "u64 list \<Rightarrow> u64" where
  "min_or_0 xs = (case xs of [] \<Rightarrow> 0 | y # ys \<Rightarrow> fold min ys y)"

definition max_or_0 :: "u64 list \<Rightarrow> u64" where
  "max_or_0 xs = (case xs of [] \<Rightarrow> 0 | y # ys \<Rightarrow> fold max ys y)"

definition first_or_0 :: "u64 list \<Rightarrow> u64" where
  "first_or_0 xs = (case xs of [] \<Rightarrow> 0 | y # _ \<Rightarrow> y)"

definition last_or_0 :: "u64 list \<Rightarrow> u64" where
  "last_or_0 xs = (if xs = [] then 0 else last xs)"

definition join_path :: "string \<Rightarrow> string \<Rightarrow> string" where
  "join_path a b = a @ ''/'' @ b"

definition segment_path :: "string \<Rightarrow> level_id \<Rightarrow> file_id \<Rightarrow> string" where
  "segment_path store level f = join_path store (segment_file_path level f)"

definition rename_blocking :: "string \<Rightarrow> string \<Rightarrow> (file_system, unit) st" where
  "rename_blocking from to fs =
     (case fs from of
        None \<Rightarrow> (fs, Inl Not_found)
      | Some c \<Rightarrow> ((fs(from := None))(to \<mapsto> c), Inr ()))"

text \<open>The part of \<^verbatim>\<open>write_segment\<close> before any I/O: the bytes of the file and the metadata.\<close>

definition segment_image ::
  "level_id \<Rightarrow> file_id \<Rightarrow> edge_record list \<Rightarrow> bytes \<times> csr_segment_meta"
where
  "segment_image level f edges0 =
     (let edges = sort_key edge_sort_key edges0;
          min_ts = min_or_0 (map e_ts edges); max_ts = max_or_0 (map e_ts edges);
          min_src = first_or_0 (map e_src edges); max_src = last_or_0 (map e_src edges);
          src_label = segment_src_label edges; edge_type_partition = segment_edge_type edges;
          (offsets, bodies) = emit_runs 0 edges [] [];
          offsets_offset = (of_nat CSR_HEADER_LEN :: u64);
          bodies_offset = offsets_offset + of_nat (length offsets);
          header =
            \<lparr>h_magic = CSR_MAGIC, h_version = CSR_VERSION, h_header_len = of_nat CSR_HEADER_LEN,
             h_level = level, h_flags = 0, h_file_id = f, h_create_ts = max_ts, h_min_ts = min_ts,
             h_max_ts = max_ts, h_src_label = src_label,
             h_edge_type_partition = edge_type_partition, h_min_src = min_src,
             h_max_src = max_src,
             h_edge_offset_count = of_nat (length offsets div EDGE_OFFSET_LEN),
             h_edge_body_count = of_nat (length edges), h_offsets_offset = offsets_offset,
             h_offsets_len = of_nat (length offsets), h_bodies_offset = bodies_offset,
             h_bodies_len = of_nat (length bodies), h_checksum = 0\<rparr>;
          bytes = csr_header_encode header @ offsets @ bodies
      in (bytes,
          \<lparr>m_file_id = f, m_level = level, m_src_label = src_label,
           m_edge_type_partition = edge_type_partition, m_min_src = min_src, m_max_src = max_src,
           m_min_ts = min_ts, m_edge_count = of_nat (length edges),
           m_unique_src_count = count_unique_sources edges,
           m_segment_bytes = of_nat (length bytes), m_max_ts = max_ts\<rparr>))"

definition write_segment ::
  "io_ops \<Rightarrow> string \<Rightarrow> level_id \<Rightarrow> file_id \<Rightarrow> edge_record list \<Rightarrow> (file_system, csr_segment_meta) st"
where
  "write_segment io store level f edges =
     (let (bytes, meta) = segment_image level f edges;
          final = segment_path store level f;
          tmp = tmp_path final
      in sbind (io_create io tmp) (\<lambda>_.
         sbind (io_write io tmp 0 bytes) (\<lambda>_.
         sbind (io_sync io tmp) (\<lambda>_.
         sbind (rename_blocking tmp final) (\<lambda>_. sreturn meta)))))"

subsection \<open>The runs\<close>

text \<open>What the two loops compute, as a list of entries.\<close>

function run_offsets :: "nat \<Rightarrow> edge_record list \<Rightarrow> edge_offset list" where
  "run_offsets idx [] = []"
| "run_offsets idx (e # es) =
     (let n = length (takeWhile (\<lambda>x. e_src x = e_src e) (e # es))
      in \<lparr>o_src = e_src e, o_first = of_nat idx, o_count = of_nat n\<rparr> #
         run_offsets (idx + n) (drop n (e # es)))"
  by pat_completeness auto
termination
  by (relation "measure (\<lambda>(idx, es). length es)") auto

definition encode_bodies :: "edge_record list \<Rightarrow> bytes" where
  "encode_bodies es = concat (map disk_edge_body_encode (map body_of_edge es))"

definition encode_offsets :: "edge_offset list \<Rightarrow> bytes" where
  "encode_offsets os = concat (map edge_offset_encode os)"

lemma emit_run_spec:
  "emit_run src es bodies cnt =
   (let n = length (takeWhile (\<lambda>x. e_src x = src) es)
    in (drop n es, bodies @ encode_bodies (take n es), cnt + of_nat n))"
  by (induction src es bodies cnt rule: emit_run.induct)
    (auto simp: Let_def encode_bodies_def)

lemma emit_runs_spec:
  "emit_runs idx es offsets bodies =
   (offsets @ encode_offsets (run_offsets idx es), bodies @ encode_bodies es)"
proof (induction idx es offsets bodies rule: emit_runs.induct)
  case (2 idx e es offsets bodies)
  let ?n = "length (takeWhile (\<lambda>x. e_src x = e_src e) (e # es))"
  have n: "?n \<le> length (e # es)" by (rule length_takeWhile_le)
  have "encode_bodies (take ?n (e # es)) @ encode_bodies (drop ?n (e # es)) = encode_bodies (e # es)"
    by (metis append_take_drop_id concat_append encode_bodies_def map_append)
  moreover have "length (e # es) - length (drop ?n (e # es)) = ?n" using n by simp
  ultimately show ?case
    using 2 [OF refl] n
    by (simp add: emit_run_spec Let_def encode_offsets_def del: takeWhile.simps)
qed (simp add: encode_offsets_def encode_bodies_def)

text \<open>On records sorted by source each entry spans exactly the records of its source.\<close>

lemma takeWhile_sorted_from:
  fixes f :: "'a \<Rightarrow> 'k::linorder"
  assumes "sorted (map f xs)" "\<forall>x \<in> set xs. k \<le> f x"
  shows "takeWhile (\<lambda>x. f x = k) xs = filter (\<lambda>x. f x = k) xs \<and>
    (\<forall>x \<in> set (dropWhile (\<lambda>x. f x = k) xs). k < f x)"
  using assms
proof (induction xs)
  case (Cons y ys)
  show ?case
  proof (cases "f y = k")
    case False
    then have "k < f y" using Cons.prems(2) by (auto simp: order_le_less)
    then have "\<forall>x \<in> set (y # ys). k < f x" using Cons.prems(1) by auto
    then have "filter (\<lambda>x. f x = k) (y # ys) = []" by (auto simp: filter_empty_conv)
    with False \<open>\<forall>x \<in> set (y # ys). k < f x\<close> show ?thesis by simp
  qed (use Cons in simp)
qed simp

lemma takeWhile_sorted_key:
  fixes f :: "'a \<Rightarrow> 'k::linorder"
  assumes "sorted (map f (e # es))"
  shows "takeWhile (\<lambda>x. f x = f e) (e # es) = filter (\<lambda>x. f x = f e) (e # es)"
    and "\<forall>x \<in> set (drop (length (takeWhile (\<lambda>x. f x = f e) (e # es))) (e # es)). f e < f x"
  using takeWhile_sorted_from [OF assms, of "f e"] assms
  unfolding dropWhile_eq_drop [symmetric] by auto

lemma run_offsets_Cons:
  assumes sorted: "sorted (map e_src (e # es))"
  obtains n rest where "0 < n" "n + length rest = length (e # es)"
    "take n (e # es) = filter (\<lambda>x. e_src x = e_src e) (e # es)"
    "rest = drop n (e # es)" "\<forall>x \<in> set rest. e_src e < e_src x" "sorted (map e_src rest)"
    "run_offsets idx (e # es) =
      \<lparr>o_src = e_src e, o_first = of_nat idx, o_count = of_nat n\<rparr> # run_offsets (idx + n) rest"
proof -
  let ?n = "length (takeWhile (\<lambda>x. e_src x = e_src e) (e # es))"
  have le: "?n \<le> length (e # es)" by (rule length_takeWhile_le)
  have tw: "take ?n (e # es) = filter (\<lambda>x. e_src x = e_src e) (e # es)"
    unfolding takeWhile_eq_take [symmetric] by (rule takeWhile_sorted_key(1) [OF sorted])
  have gt: "\<forall>x \<in> set (drop ?n (e # es)). e_src e < e_src x"
    by (rule takeWhile_sorted_key(2) [OF sorted])
  have srt: "sorted (map e_src (drop ?n (e # es)))"
    unfolding drop_map [symmetric] by (rule sorted_wrt_drop [OF sorted])
  have len: "?n + length (drop ?n (e # es)) = length (e # es)"
    using le unfolding length_drop by linarith
  have ro: "run_offsets idx (e # es) =
      \<lparr>o_src = e_src e, o_first = of_nat idx, o_count = of_nat ?n\<rparr> #
      run_offsets (idx + ?n) (drop ?n (e # es))"
    by (simp only: run_offsets.simps Let_def)
  have "0 < ?n" by simp
  from that [OF this len tw refl gt srt ro] show thesis .
qed

lemma run_offsets_src:
  assumes "sorted (map e_src es)"
  shows "o_src ` set (run_offsets idx es) = e_src ` set es \<and>
    sorted_wrt (<) (map o_src (run_offsets idx es))"
  using assms
proof (induction "length es" arbitrary: idx es rule: less_induct)
  case less
  show ?case
  proof (cases es)
    case (Cons e es')
    obtain n rest where r: "0 < n" "n + length rest = length (e # es')"
      "take n (e # es') = filter (\<lambda>x. e_src x = e_src e) (e # es')"
      "rest = drop n (e # es')" "\<forall>x \<in> set rest. e_src e < e_src x" "sorted (map e_src rest)"
      "run_offsets idx (e # es') =
        \<lparr>o_src = e_src e, o_first = of_nat idx, o_count = of_nat n\<rparr> # run_offsets (idx + n) rest"
      using run_offsets_Cons [of e es' idx] less.prems Cons by blast
    have "length rest < length es" using r(1,2) Cons by simp
    note ih = less.hyps [OF this r(6), of "idx + n"]
    have "set (e # es') = set (take n (e # es')) \<union> set rest"
      unfolding r(4) set_append [symmetric] append_take_drop_id by (rule refl)
    then have "e_src ` set (e # es') = insert (e_src e) (e_src ` set rest)"
      unfolding r(3) by auto
    moreover have "\<forall>x \<in> set (map o_src (run_offsets (idx + n) rest)). e_src e < x"
      using r(5) ih by auto
    ultimately show ?thesis
      unfolding Cons r(7) using ih by simp
  qed simp
qed

lemma run_offsets_span:
  assumes "sorted (map e_src es)" "idx + length es < 2 ^ 64" "en \<in> set (run_offsets idx es)"
  shows "idx \<le> unat (o_first en) \<and>
    unat (o_first en) + unat (o_count en) \<le> idx + length es \<and>
    sub_list (unat (o_first en) - idx) (unat (o_count en)) es = filter (\<lambda>e. e_src e = o_src en) es"
  using assms
proof (induction "length es" arbitrary: idx es rule: less_induct)
  case less
  show ?case
  proof (cases es)
    case (Cons e es')
    obtain n rest where r: "0 < n" "n + length rest = length (e # es')"
      "take n (e # es') = filter (\<lambda>x. e_src x = e_src e) (e # es')"
      "rest = drop n (e # es')" "\<forall>x \<in> set rest. e_src e < e_src x" "sorted (map e_src rest)"
      "run_offsets idx (e # es') =
        \<lparr>o_src = e_src e, o_first = of_nat idx, o_count = of_nat n\<rparr> # run_offsets (idx + n) rest"
      using run_offsets_Cons [of e es' idx] less.prems(1) Cons by blast
    have bound: "idx + n < 2 ^ 64" "idx < 2 ^ 64" "n < 2 ^ 64"
      using r(2) less.prems(2) Cons by simp_all
    have split: "es = take n es @ rest" using r(4) Cons by simp
    show ?thesis
    proof (cases "en = \<lparr>o_src = e_src e, o_first = of_nat idx, o_count = of_nat n\<rparr>")
      case True
      then show ?thesis
        using bound r(2,3) Cons by (simp add: unat_of_nat sub_list_def del: take_Cons')
    next
      case False
      then have en: "en \<in> set (run_offsets (idx + n) rest)" using less.prems(3) r(7) Cons by simp
      have "length rest < length es" "idx + n + length rest < 2 ^ 64"
        using r(1,2) less.prems(2) Cons by simp_all
      note ih = less.hyps [OF this(1) r(6) this(2) en]
      have "o_src en \<in> e_src ` set rest" using run_offsets_src [OF r(6), of "idx + n"] en by auto
      then have "e_src e < o_src en" using r(5) by auto
      then have "filter (\<lambda>x. e_src x = o_src en) (take n es) = []"
        using r(3) Cons by (auto simp: filter_empty_conv)
      then have "filter (\<lambda>x. e_src x = o_src en) es = filter (\<lambda>x. e_src x = o_src en) rest"
        by (subst split) simp
      moreover have "sub_list (unat (o_first en) - idx) k es = sub_list (unat (o_first en) - (idx + n)) k rest" for k
        using ih r(4) Cons by (simp add: sub_list_def add.commute)
      ultimately show ?thesis using ih r(2) Cons by simp
    qed
  qed (use less.prems in simp)
qed

text \<open>Read back to back the runs give the records again.\<close>

lemma run_offsets_concat:
  assumes "sorted (map e_src es)" "idx + length es < 2 ^ 64"
  shows "concat (map (\<lambda>en. sub_list (unat (o_first en) - idx) (unat (o_count en)) es) (run_offsets idx es)) = es"
  using assms
proof (induction "length es" arbitrary: idx es rule: less_induct)
  case less
  show ?case
  proof (cases es)
    case (Cons e es')
    obtain n rest where r: "0 < n" "n + length rest = length (e # es')"
      "take n (e # es') = filter (\<lambda>x. e_src x = e_src e) (e # es')"
      "rest = drop n (e # es')" "\<forall>x \<in> set rest. e_src e < e_src x" "sorted (map e_src rest)"
      "run_offsets idx (e # es') =
        \<lparr>o_src = e_src e, o_first = of_nat idx, o_count = of_nat n\<rparr> # run_offsets (idx + n) rest"
      using run_offsets_Cons [of e es' idx] less.prems(1) Cons by blast
    have bound: "idx < 2 ^ 64" "n < 2 ^ 64" "length rest < length es" "idx + n + length rest < 2 ^ 64"
      using r(1,2) less.prems(2) Cons by simp_all
    have "sub_list (unat (o_first en) - idx) k es = sub_list (unat (o_first en) - (idx + n)) k rest"
      if "en \<in> set (run_offsets (idx + n) rest)" for en k
      using run_offsets_span [OF r(6) bound(4) that] r(4) Cons by (simp add: sub_list_def add.commute)
    then have "map (\<lambda>en. sub_list (unat (o_first en) - idx) (unat (o_count en)) es) (run_offsets (idx + n) rest) =
        map (\<lambda>en. sub_list (unat (o_first en) - (idx + n)) (unat (o_count en)) rest) (run_offsets (idx + n) rest)"
      by (rule map_cong [OF refl])
    then have "concat (map (\<lambda>en. sub_list (unat (o_first en) - idx) (unat (o_count en)) es) (run_offsets (idx + n) rest)) = rest"
      using less.hyps [OF bound(3) r(6) bound(4)] by (simp only:)
    moreover have "take n es @ rest = es" using r(4) Cons by simp
    ultimately show ?thesis
      using r(7) bound Cons by (simp add: unat_of_nat sub_list_def del: take_Cons')
  qed simp
qed

lemma length_run_offsets: "length (run_offsets idx es) \<le> length es"
proof (induction idx es rule: run_offsets.induct)
  case (2 idx e es)
  let ?n = "length (takeWhile (\<lambda>x. e_src x = e_src e) (e # es))"
  have "length (run_offsets (idx + ?n) (drop ?n (e # es))) \<le> length (drop ?n (e # es))"
    by (rule 2) simp
  also have "\<dots> \<le> length es" by simp
  finally show ?case by (simp only: run_offsets.simps Let_def list.size)
qed simp

subsection \<open>The layout of the file\<close>

definition segment_fits :: "edge_record list \<Rightarrow> bool" where
  "segment_fits es \<longleftrightarrow> length es < 2 ^ 56"

definition segment_header ::
  "level_id \<Rightarrow> file_id \<Rightarrow> edge_record list \<Rightarrow> nat \<Rightarrow> csr_header"
where
  "segment_header level f edges n =
     \<lparr>h_magic = CSR_MAGIC, h_version = CSR_VERSION, h_header_len = 128, h_level = level,
      h_flags = 0, h_file_id = f, h_create_ts = max_or_0 (map e_ts edges),
      h_min_ts = min_or_0 (map e_ts edges), h_max_ts = max_or_0 (map e_ts edges),
      h_src_label = segment_src_label edges, h_edge_type_partition = segment_edge_type edges,
      h_min_src = first_or_0 (map e_src edges), h_max_src = last_or_0 (map e_src edges),
      h_edge_offset_count = of_nat n, h_edge_body_count = of_nat (length edges),
      h_offsets_offset = 128, h_offsets_len = of_nat (24 * n),
      h_bodies_offset = of_nat (128 + 24 * n), h_bodies_len = of_nat (32 * length edges),
      h_checksum = 0\<rparr>"

lemma length_encode_offsets [simp]: "length (encode_offsets os) = 24 * length os"
  using offset_codec.length_concat_enc [of os] by (simp add: encode_offsets_def EDGE_OFFSET_LEN_def)

lemma length_encode_bodies [simp]: "length (encode_bodies es) = 32 * length es"
  using body_codec.length_concat_enc [of "map body_of_edge es"]
  by (simp add: encode_bodies_def DISK_EDGE_BODY_LEN_def)

lemma segment_image_layout:
  "fst (segment_image level f edges) =
     csr_header_encode (segment_header level f (sort_key edge_sort_key edges)
       (length (run_offsets 0 (sort_key edge_sort_key edges)))) @
     encode_offsets (run_offsets 0 (sort_key edge_sort_key edges)) @
     encode_bodies (sort_key edge_sort_key edges)"
  by (simp add: segment_image_def Let_def emit_runs_spec segment_header_def CSR_HEADER_LEN_def
      EDGE_OFFSET_LEN_def)

lemma length_segment_image:
  assumes "segment_fits edges"
  shows "length (fst (segment_image level f edges)) < IO_BOUND"
  using assms length_run_offsets [of 0 "sort_key edge_sort_key edges"]
  by (simp add: segment_image_layout segment_fits_def IO_BOUND_def CSR_HEADER_LEN_def)

lemma segment_image_meta:
  "snd (segment_image level f edges) =
     \<lparr>m_file_id = f, m_level = level, m_src_label = segment_src_label (sort_key edge_sort_key edges),
      m_edge_type_partition = segment_edge_type (sort_key edge_sort_key edges),
      m_min_src = first_or_0 (map e_src (sort_key edge_sort_key edges)),
      m_max_src = last_or_0 (map e_src (sort_key edge_sort_key edges)),
      m_min_ts = min_or_0 (map e_ts (sort_key edge_sort_key edges)),
      m_edge_count = of_nat (length edges),
      m_unique_src_count = count_unique_sources (sort_key edge_sort_key edges),
      m_segment_bytes = of_nat (length (fst (segment_image level f edges))),
      m_max_ts = max_or_0 (map e_ts (sort_key edge_sort_key edges))\<rparr>"
  by (simp add: segment_image_def Let_def emit_runs_spec)

text \<open>On any backend that meets the contract a segment ends up under its final name, whole, and
  nothing else changes.\<close>

context io_backend
begin

lemma write_segment_stores:
  assumes "segment_fits edges"
  shows "write_segment io store level f edges fs =
    (fs(tmp_path (segment_path store level f) := None,
        segment_path store level f \<mapsto> fst (segment_image level f edges)),
     Inr (snd (segment_image level f edges)))"
  using length_segment_image [OF assms, of level f]
  by (simp add: write_segment_def Let_def split_beta sbind_def create write_new sync rename_blocking_def
      sreturn_def)

end

subsection \<open>The metadata covers the records\<close>

lemma common_value_Some:
  "common_value d xs (Some v) \<noteq> d \<Longrightarrow> common_value d xs (Some v) = v \<and> (\<forall>x \<in> set xs. x = v)"
  by (induction xs) (auto split: if_splits)

lemma common_value_all:
  "common_value d xs None \<noteq> d \<Longrightarrow> x \<in> set xs \<Longrightarrow> x = common_value d xs None"
proof (cases xs)
  case (Cons y ys)
  then show "common_value d xs None \<noteq> d \<Longrightarrow> x \<in> set xs \<Longrightarrow> x = common_value d xs None"
    using common_value_Some [of d ys y] by auto
qed simp

lemma min_max_or_0:
  assumes "x \<in> set xs" shows "min_or_0 xs \<le> x" "x \<le> max_or_0 xs"
  using assms
  by (cases xs; auto simp: min_or_0_def max_or_0_def Min.set_eq_fold [symmetric] Max.set_eq_fold [symmetric])+

lemma first_last_or_0:
  assumes "sorted xs" "x \<in> set xs" shows "first_or_0 xs \<le> x" "x \<le> last_or_0 xs"
proof -
  show "first_or_0 xs \<le> x" using assms by (cases xs) (auto simp: first_or_0_def)
  obtain ys z where "xs = ys @ [z]" using assms(2) by (cases xs rule: rev_cases) auto
  then show "x \<le> last_or_0 xs"
    using assms by (auto simp: last_or_0_def sorted_append)
qed

lemma sorted_src: "sorted (map edge_sort_key es) \<Longrightarrow> sorted (map e_src es)"
  by (induction es) (auto simp: edge_sort_key_le_src)

lemma segment_meta_covers_record:
  assumes "e \<in> set edges"
  shows "m_min_src (snd (segment_image level f edges)) \<le> e_src e \<and>
    e_src e \<le> m_max_src (snd (segment_image level f edges)) \<and>
    m_min_ts (snd (segment_image level f edges)) \<le> e_ts e \<and>
    e_ts e \<le> m_max_ts (snd (segment_image level f edges)) \<and>
    may_contain_partition (snd (segment_image level f edges)) (e_src e) None \<and>
    may_contain_partition (snd (segment_image level f edges)) (e_src e) (Some (e_type e))"
proof -
  let ?es = "sort_key edge_sort_key edges"
  have e: "e \<in> set ?es" using assms by simp
  have src: "sorted (map e_src ?es)" by (rule sorted_src) simp
  have "source_label_from_vertex_id (e_src e) \<in> set (map (\<lambda>e. source_label_from_vertex_id (e_src e)) ?es)"
    "e_type e \<in> set (map e_type ?es)"
    using e by auto
  then have lab: "segment_src_label ?es = UNKNOWN_SOURCE_LABEL \<or>
      segment_src_label ?es = source_label_from_vertex_id (e_src e)"
    and ty: "segment_edge_type ?es = MIXED_EDGE_TYPE \<or> segment_edge_type ?es = e_type e"
    unfolding segment_src_label_def segment_edge_type_def by (metis common_value_all)+
  show ?thesis
    using lab ty e first_last_or_0 [OF src, of "e_src e"] min_max_or_0 [of "e_ts e" "map e_ts ?es"]
    by (auto simp: segment_image_meta may_contain_partition_def Let_def)
qed

end
