(* ===== verification/Base_Catalog.thy ===== *)
theory Base_Catalog
  imports Std_Maps Csr_Writer "HOL-Library.List_Lexorder" "HOL-Library.Char_ord"
begin

section \<open>The catalog of the base graph\<close>

text \<open>
  \<^verbatim>\<open>src/base_graph/ids.rs\<close> and \<^verbatim>\<open>catalog.rs\<close>: the labels, and the catalog that names the
  files of a base graph. Rendering and parsing the catalog is the work of \<^verbatim>\<open>serde_json\<close>, a
  parameter.
\<close>

subsection \<open>Identifiers\<close>

datatype label_id = L_Person | L_Comment | L_Post | L_Forum | L_Organisation | L_Place | L_Tag | L_TagClass

fun label_code :: "label_id \<Rightarrow> u16" where
  "label_code L_Person = 1"
| "label_code L_Comment = 2"
| "label_code L_Post = 3"
| "label_code L_Forum = 4"
| "label_code L_Organisation = 5"
| "label_code L_Place = 6"
| "label_code L_Tag = 7"
| "label_code L_TagClass = 8"

fun label_str :: "label_id \<Rightarrow> string" where
  "label_str L_Person = ''Person''"
| "label_str L_Comment = ''Comment''"
| "label_str L_Post = ''Post''"
| "label_str L_Forum = ''Forum''"
| "label_str L_Organisation = ''Organisation''"
| "label_str L_Place = ''Place''"
| "label_str L_Tag = ''Tag''"
| "label_str L_TagClass = ''TagClass''"

datatype message_id = Post_id u32 | Comment_id u32

record global_id =
  gid_label :: u16
  gid_local :: u32

definition global_id_new :: "label_id \<Rightarrow> u32 \<Rightarrow> global_id" where
  "global_id_new label local = \<lparr>gid_label = label_code label, gid_local = local\<rparr>"

subsection \<open>The catalog\<close>

record vertex_catalog_entry =
  ve_label :: string
  ve_count :: u64
  ve_ext_id_to_local :: string

record single_column_entry =
  se_name :: string
  se_file :: string
  se_src_label :: string
  se_dst_label :: string
  se_rows :: u64
  se_value_type :: string

record csr_prop_entry =
  pe_name :: string
  pe_file :: string
  pe_value_type :: string

record csr_catalog_entry =
  ce_name :: string
  ce_path :: string
  ce_src_label :: string
  ce_dst_label :: string
  ce_num_src_vertices :: u64
  ce_num_edges :: u64
  ce_offset_type :: string
  ce_neighbor_type :: string
  ce_sort_order :: string
  ce_prop_access :: string
  ce_props :: "csr_prop_entry list"
  ce_neighbor_block_bytes :: nat
  ce_file_alignment :: nat

record derived_column_entry =
  de_name :: string
  de_file :: string
  de_rows :: u64
  de_value_type :: string

record base_graph_catalog =
  cat_format :: string
  cat_version :: u32
  cat_source :: string
  cat_vertex_labels :: "(string, vertex_catalog_entry) btree_map"
  cat_single_columns :: "(string, single_column_entry) btree_map"
  cat_csr_adjacencies :: "(string, csr_catalog_entry) btree_map"
  cat_derived_columns :: "(string, derived_column_entry) btree_map"

definition catalog_new :: "string \<Rightarrow> base_graph_catalog" where
  "catalog_new source = \<lparr>cat_format = ''lsmgraph.base_graph'', cat_version = 1, cat_source = source,
     cat_vertex_labels = [], cat_single_columns = [], cat_csr_adjacencies = [], cat_derived_columns = []\<rparr>"

definition catalog_load :: "(bytes \<Rightarrow> base_graph_catalog res) \<Rightarrow> file_system \<Rightarrow> string \<Rightarrow> base_graph_catalog res" where
  "catalog_load parse fs path = (case fs path of None \<Rightarrow> Inl Not_found | Some bs \<Rightarrow> parse bs)"

definition catalog_save :: "(base_graph_catalog \<Rightarrow> bytes) \<Rightarrow> string \<Rightarrow> base_graph_catalog \<Rightarrow> file_system \<Rightarrow> file_system" where
  "catalog_save render path catalog fs = fs(path \<mapsto> render catalog)"

definition catalog_inv :: "base_graph_catalog \<Rightarrow> bool" where
  "catalog_inv c \<longleftrightarrow> bt_inv (cat_vertex_labels c) \<and> bt_inv (cat_single_columns c) \<and>
     bt_inv (cat_csr_adjacencies c) \<and> bt_inv (cat_derived_columns c)"

lemma catalog_new_inv: "catalog_inv (catalog_new source)"
  by (simp add: catalog_inv_def catalog_new_def)

lemma label_code_inj: "label_code l = label_code l' \<longleftrightarrow> l = l'"
  by (cases l; cases l') simp_all

end
