(* ===== verification/Base_Csr.thy ===== *)
theory Base_Csr
  imports Base_Catalog
begin

section \<open>The base graph's adjacency files\<close>

text \<open>
  \<^verbatim>\<open>src/base_graph/csr.rs\<close>, \<^verbatim>\<open>column.rs\<close> and \<^verbatim>\<open>io.rs\<close>: columns of
  fixed-width integers, and an adjacency in compressed rows, an offset for every source and the
  destinations of all sources one after the other. The reader goes through a row in chunks.
\<close>

subsection \<open>Identifiers and configuration\<close>

datatype csr_id =
    KnowsOut | KnowsIn | PersonLikesPostOut | PersonLikesPostIn | PersonLikesCommentOut
  | PersonLikesCommentIn | ForumHasMemberOut | ForumHasMemberIn | PersonHasInterestOut
  | PersonHasInterestIn | PostHasTagOut | PostHasTagIn | CommentHasTagOut | CommentHasTagIn
  | ForumHasTagOut | ForumHasTagIn | WorkAtOut | WorkAtIn | StudyAtOut | StudyAtIn
  | PersonCreatedPost | PersonCreatedComment | PostChildComments | CommentChildComments
  | ForumContainerOfPost

fun csr_id_str :: "csr_id \<Rightarrow> string" where
  "csr_id_str KnowsOut = ''KNOWS/OUT''"
| "csr_id_str KnowsIn = ''KNOWS/IN''"
| "csr_id_str PersonLikesPostOut = ''PERSON_LIKES_POST/OUT''"
| "csr_id_str PersonLikesPostIn = ''PERSON_LIKES_POST/IN''"
| "csr_id_str PersonLikesCommentOut = ''PERSON_LIKES_COMMENT/OUT''"
| "csr_id_str PersonLikesCommentIn = ''PERSON_LIKES_COMMENT/IN''"
| "csr_id_str ForumHasMemberOut = ''FORUM_HAS_MEMBER/OUT''"
| "csr_id_str ForumHasMemberIn = ''FORUM_HAS_MEMBER/IN''"
| "csr_id_str PersonHasInterestOut = ''PERSON_HAS_INTEREST/OUT''"
| "csr_id_str PersonHasInterestIn = ''PERSON_HAS_INTEREST/IN''"
| "csr_id_str PostHasTagOut = ''POST_HAS_TAG/OUT''"
| "csr_id_str PostHasTagIn = ''POST_HAS_TAG/IN''"
| "csr_id_str CommentHasTagOut = ''COMMENT_HAS_TAG/OUT''"
| "csr_id_str CommentHasTagIn = ''COMMENT_HAS_TAG/IN''"
| "csr_id_str ForumHasTagOut = ''FORUM_HAS_TAG/OUT''"
| "csr_id_str ForumHasTagIn = ''FORUM_HAS_TAG/IN''"
| "csr_id_str WorkAtOut = ''WORK_AT/OUT''"
| "csr_id_str WorkAtIn = ''WORK_AT/IN''"
| "csr_id_str StudyAtOut = ''STUDY_AT/OUT''"
| "csr_id_str StudyAtIn = ''STUDY_AT/IN''"
| "csr_id_str PersonCreatedPost = ''PERSON_CREATED_POST''"
| "csr_id_str PersonCreatedComment = ''PERSON_CREATED_COMMENT''"
| "csr_id_str PostChildComments = ''POST_CHILD_COMMENTS''"
| "csr_id_str CommentChildComments = ''COMMENT_CHILD_COMMENTS''"
| "csr_id_str ForumContainerOfPost = ''FORUM_CONTAINER_OF_POST''"

datatype sort_order = DstId | CreationDateDesc | JoinDateDesc | By_person_id | By_tag_id | Unsorted

fun sort_order_str :: "sort_order \<Rightarrow> string" where
  "sort_order_str DstId = ''dst_id''"
| "sort_order_str CreationDateDesc = ''creation_date_desc''"
| "sort_order_str JoinDateDesc = ''join_date_desc''"
| "sort_order_str By_person_id = ''person_id''"
| "sort_order_str By_tag_id = ''tag_id''"
| "sort_order_str Unsorted = ''unsorted''"

definition sort_order_of_str :: "string \<Rightarrow> sort_order" where
  "sort_order_of_str s =
     (if s = ''creation_date_desc'' then CreationDateDesc
      else if s = ''join_date_desc'' then JoinDateDesc
      else if s = ''person_id'' then By_person_id
      else if s = ''tag_id'' then By_tag_id
      else if s = ''unsorted'' then Unsorted
      else DstId)"

datatype cache_policy = Cache_all | Bypass | Cache_first_n_blocks nat

datatype reader_backend_kind = Direct_reads | Buffered_pread | Mmap_debug
datatype offset_strategy = Preload | Cache_offsets

record io_config =
  io_backend :: reader_backend_kind
  io_offset_strategy :: offset_strategy
  io_neighbor_block_bytes :: nat
  io_prop_block_bytes :: nat
  io_cache_mb_per_worker :: nat
  io_small_degree_threshold :: nat
  io_huge_degree_threshold :: nat
  io_base_dir :: "string option"

definition io_config_default :: io_config where
  "io_config_default = \<lparr>io_backend = Buffered_pread, io_offset_strategy = Preload,
     io_neighbor_block_bytes = 262144, io_prop_block_bytes = 65536, io_cache_mb_per_worker = 256,
     io_small_degree_threshold = 128, io_huge_degree_threshold = 65536, io_base_dir = None\<rparr>"

definition linux_direct :: io_config where
  "linux_direct = io_config_default\<lparr>io_backend := Direct_reads\<rparr>"

record read_context =
  rc_worker_id :: nat
  rc_scratch_u32 :: "u32 list"
  rc_read_chunks :: nat
  rc_read_items :: nat
  rc_config :: io_config

definition read_context_new :: "nat \<Rightarrow> io_config \<Rightarrow> read_context" where
  "read_context_new worker_id config =
     \<lparr>rc_worker_id = worker_id, rc_scratch_u32 = [], rc_read_chunks = 0, rc_read_items = 0, rc_config = config\<rparr>"

subsection \<open>Columns\<close>

text \<open>A column file is created anew; its directory has been made. An \<^verbatim>\<open>i64\<close> is written as
  the bytes of its two's complement.\<close>

definition write_u32_column :: "string \<Rightarrow> u32 list \<Rightarrow> file_system \<Rightarrow> file_system" where
  "write_u32_column path values fs = fs(path \<mapsto> concat (map u32_le values))"

definition write_u8_column :: "string \<Rightarrow> u8 list \<Rightarrow> file_system \<Rightarrow> file_system" where
  "write_u8_column path values fs = fs(path \<mapsto> values)"

definition write_u64s :: "string \<Rightarrow> u64 list \<Rightarrow> file_system \<Rightarrow> file_system" where
  "write_u64s path values fs = fs(path \<mapsto> concat (map u64_le values))"

definition write_i64_column :: "string \<Rightarrow> int list \<Rightarrow> file_system \<Rightarrow> file_system" where
  "write_i64_column path values fs = fs(path \<mapsto> concat (map (\<lambda>v. u64_le (of_int v)) values))"

definition write_u32s :: "string \<Rightarrow> u32 list \<Rightarrow> file_system \<Rightarrow> file_system" where
  "write_u32s path values fs = fs(path \<mapsto> concat (map u32_le values))"

definition write_ext_id_map :: "string \<Rightarrow> (int \<times> u32) list \<Rightarrow> file_system \<Rightarrow> file_system" where
  "write_ext_id_map path pairs fs =
     fs(path \<mapsto> concat (map (\<lambda>(external, local). u64_le (of_int external) @ u32_le local) pairs))"

definition read_u32_column :: "string \<Rightarrow> file_system \<Rightarrow> u32 list res" where
  "read_u32_column path fs =
     (case fs path of
        None \<Rightarrow> Inl Not_found
      | Some bs \<Rightarrow> if length bs mod 4 \<noteq> 0 then Inl (Bad_length (length bs)) else Inr (map of_le32 (chunks_exact 4 bs)))"

definition read_u64_column :: "string \<Rightarrow> file_system \<Rightarrow> u64 list res" where
  "read_u64_column path fs =
     (case fs path of
        None \<Rightarrow> Inl Not_found
      | Some bs \<Rightarrow> if length bs mod 8 \<noteq> 0 then Inl (Bad_length (length bs)) else Inr (map of_le64 (chunks_exact 8 bs)))"

subsection \<open>Writing\<close>

text \<open>The two loops over the offsets: count the edges of a source one place to the right, then add up.\<close>

definition count_sources :: "nat \<Rightarrow> (u32 \<times> u32) list \<Rightarrow> u64 list" where
  "count_sources n edges =
     fold (\<lambda>(src, _) offsets.
         if unat src < n then offsets[unat src + 1 := offsets ! (unat src + 1) + 1] else offsets)
       edges (replicate (n + 1) 0)"

definition add_up :: "u64 list \<Rightarrow> u64 list" where
  "add_up offsets = fold (\<lambda>i offsets. offsets[i := offsets ! i + offsets ! (i - 1)]) [1..<length offsets] offsets"

text \<open>\<^verbatim>\<open>write_csr\<close>; \<open>meta\<close> is \<^verbatim>\<open>serde_json\<close>'s rendering of the three values of
  \<^verbatim>\<open>meta.json\<close>. The edges are sorted by source and destination whatever the sort order.\<close>

definition write_csr ::
  "(nat \<Rightarrow> nat \<Rightarrow> string \<Rightarrow> bytes) \<Rightarrow> string \<Rightarrow> nat \<Rightarrow> (u32 \<times> u32) list \<Rightarrow> sort_order \<Rightarrow> file_system \<Rightarrow> file_system \<times> u64"
where
  "write_csr meta dir num_src_vertices edges order fs =
     (let edges = sort edges;
          offsets = add_up (count_sources num_src_vertices edges);
          fs = write_u64s (join_path dir ''offsets.bin'') offsets fs;
          neighbors = map snd edges;
          fs = write_u32s (join_path dir ''neighbors.bin'') neighbors fs;
          fs = fs(join_path dir ''meta.json'' \<mapsto> meta num_src_vertices (length neighbors) (sort_order_str order))
      in (fs, of_nat (length neighbors)))"

subsection \<open>Reading\<close>

record csr_adjacency =
  ca_id :: string
  ca_offsets :: "u64 list"
  ca_neighbors_path :: string
  ca_sort_order :: sort_order

definition csr_open :: "string \<Rightarrow> csr_catalog_entry \<Rightarrow> file_system \<Rightarrow> csr_adjacency res" where
  "csr_open base_dir entry fs =
     (let path = join_path base_dir (ce_path entry)
      in rbind (read_u64_column (join_path path ''offsets.bin'') fs) (\<lambda>offsets.
         Inr \<lparr>ca_id = ce_name entry, ca_offsets = offsets, ca_neighbors_path = join_path path ''neighbors.bin'',
              ca_sort_order = sort_order_of_str (ce_sort_order entry)\<rparr>))"

definition csr_range :: "csr_adjacency \<Rightarrow> u32 \<Rightarrow> (nat \<times> nat) option" where
  "csr_range c src =
     (if unat src + 1 < length (ca_offsets c)
      then Some (unat (ca_offsets c ! unat src), unat (ca_offsets c ! (unat src + 1))) else None)"

definition choose_chunk_items :: "nat \<Rightarrow> io_config \<Rightarrow> nat" where
  "choose_chunk_items degree config =
     (if degree \<le> io_small_degree_threshold config then max degree 1 else max (io_neighbor_block_bytes config div 4) 1)"

text \<open>The loop over the chunks of a row. \<open>choose_chunk_items\<close> is never 0, which the second guard
  records for the termination of the loop.\<close>

function scan_loop ::
  "(u32 list \<Rightarrow> 's \<Rightarrow> 's res) \<Rightarrow> bytes \<Rightarrow> nat \<Rightarrow> nat \<Rightarrow> nat \<Rightarrow> read_context \<Rightarrow> 's \<Rightarrow> (read_context \<times> 's) res"
where
  "scan_loop f file chunk_items pos stop ctx s =
     (if pos < stop \<and> 0 < chunk_items then
        let n = min chunk_items (stop - pos)
        in rbind (read_exact (pos * 4) (n * 4) file) (\<lambda>bs.
           let xs = map of_le32 (chunks_exact 4 bs);
               ctx = ctx\<lparr>rc_scratch_u32 := xs, rc_read_chunks := rc_read_chunks ctx + 1,
                         rc_read_items := rc_read_items ctx + n\<rparr>
           in rbind (f xs s) (\<lambda>s. scan_loop f file chunk_items (pos + n) stop ctx s))
      else Inr (ctx, s))"
  by pat_completeness auto
termination
  by (relation "measure (\<lambda>(f, file, chunk_items, pos, stop, ctx, s). stop - pos)") auto

declare scan_loop.simps [simp del]

definition scan_chunks ::
  "csr_adjacency \<Rightarrow> u32 \<Rightarrow> (u32 list \<Rightarrow> 's \<Rightarrow> 's res) \<Rightarrow> file_system \<Rightarrow> read_context \<Rightarrow> 's \<Rightarrow> (read_context \<times> 's) res"
where
  "scan_chunks c src f fs ctx s =
     (case csr_range c src of
        None \<Rightarrow> Inr (ctx, s)
      | Some (start, stop) \<Rightarrow>
          if start = stop then Inr (ctx, s)
          else case fs (ca_neighbors_path c) of
            None \<Rightarrow> Inl Not_found
          | Some file \<Rightarrow> scan_loop f file (choose_chunk_items (stop - start) (rc_config ctx)) start stop ctx s)"

definition csr_neighbors_vec :: "csr_adjacency \<Rightarrow> u32 \<Rightarrow> file_system \<Rightarrow> read_context \<Rightarrow> (read_context \<times> u32 list) res" where
  "csr_neighbors_vec c src fs ctx = scan_chunks c src (\<lambda>chunk out. Inr (out @ chunk)) fs ctx []"

subsection \<open>The offsets\<close>

lemma length_count_sources [simp]: "length (count_sources n edges) = n + 1"
proof -
  have "length (fold (\<lambda>(src, _) offsets.
         if unat src < n then offsets[unat src + 1 := offsets ! (unat src + 1) + 1] else offsets) edges offs) = length offs"
    for edges :: "(u32 \<times> u32) list" and offs :: "u64 list"
    by (induction edges arbitrary: offs) auto
  then show ?thesis by (simp add: count_sources_def)
qed

lemma count_sources_nth:
  assumes "j \<le> n"
  shows "count_sources n edges ! j = (if j = 0 then 0 else of_nat (length (filter (\<lambda>e. unat (fst e) = j - 1) edges)))"
proof -
  have "length offs = n + 1 \<Longrightarrow> fold (\<lambda>(src, _) offsets.
         if unat src < n then offsets[unat src + 1 := offsets ! (unat src + 1) + 1] else offsets) edges offs ! j =
      offs ! j + (if j = 0 then 0 else of_nat (length (filter (\<lambda>e. unat (fst e) = j - 1) edges)))"
    for offs :: "u64 list"
    using assms
  proof (induction edges arbitrary: offs)
    case (Cons e edges)
    obtain src dst where e: "e = (src, dst)" by (cases e)
    show ?case using Cons by (auto simp: e nth_list_update)
  qed simp
  then show ?thesis using assms by (simp add: count_sources_def del: replicate.simps)
qed

lemma add_up_spec:
  "length (fold (\<lambda>i offsets. offsets[i := offsets ! i + offsets ! (i - 1)]) [1..<m] offs) = length offs \<and>
   (m \<le> length offs \<longrightarrow> (\<forall>j < length offs.
      fold (\<lambda>i offsets. offsets[i := offsets ! i + offsets ! (i - 1)]) [1..<m] offs ! j =
      (if j < m then \<Sum>k \<le> j. offs ! k else offs ! j :: u64)))"
proof (induction m)
  case (Suc m)
  show ?case
  proof (cases m)
    case 0
    then show ?thesis by (auto simp: less_Suc_eq)
  next
    case (Suc m')
    define r where "r = fold (\<lambda>i offsets. offsets[i := offsets ! i + offsets ! (i - 1)]) [1..<m] offs"
    have up: "fold (\<lambda>i offsets. offsets[i := offsets ! i + offsets ! (i - 1)]) [1..<Suc m] offs = r[m := r ! m + r ! m']"
      using Suc by (simp add: r_def)
    have len: "length r = length offs"
      and nth: "m \<le> length offs \<longrightarrow> (\<forall>j < length offs. r ! j = (if j < m then \<Sum>k \<le> j. offs ! k else offs ! j))"
      using Suc.IH by (simp_all add: r_def)
    have "r[m := r ! m + r ! m'] ! j = (if j < Suc m then \<Sum>k \<le> j. offs ! k else offs ! j)"
      if "Suc m \<le> length offs" "j < length offs" for j
      using nth that len Suc by (cases "j = m") (auto simp: add.commute)
    then show ?thesis unfolding up using len by simp
  qed
qed simp

lemma rows_before:
  fixes j :: nat and f :: "'a \<Rightarrow> nat"
  shows "(\<Sum>k \<le> j. if k = 0 then 0 else of_nat (length (filter (\<lambda>e. f e = k - 1) es))) =
    (of_nat (length (filter (\<lambda>e. f e < j) es)) :: u64)"
proof (induction j)
  case (Suc j)
  have "length (filter (\<lambda>e. f e < Suc j) es) = length (filter (\<lambda>e. f e < j) es) + length (filter (\<lambda>e. f e = j) es)"
    by (induction es) auto
  with Suc show ?case by simp
qed simp

lemma offsets_nth:
  assumes "j \<le> n" "length edges < 2 ^ 64"
  shows "length (add_up (count_sources n edges)) = n + 1"
    "unat (add_up (count_sources n edges) ! j) = length (filter (\<lambda>e. unat (fst e) < j) edges)"
proof -
  show len: "length (add_up (count_sources n edges)) = n + 1"
    using add_up_spec [of "n + 1" "count_sources n edges"] by (simp add: add_up_def)
  have "add_up (count_sources n edges) ! j = (\<Sum>k \<le> j. count_sources n edges ! k)"
    using add_up_spec [of "n + 1" "count_sources n edges"] assms(1) unfolding add_up_def by simp
  also have "\<dots> = (\<Sum>k \<le> j. if k = 0 then 0 else of_nat (length (filter (\<lambda>e. unat (fst e) = k - 1) edges)))"
    using assms(1) by (intro sum.cong refl count_sources_nth) simp
  also have "\<dots> = of_nat (length (filter (\<lambda>e. unat (fst e) < j) edges))" by (rule rows_before)
  finally have "unat (add_up (count_sources n edges) ! j) =
      unat (of_nat (length (filter (\<lambda>e. unat (fst e) < j) edges)) :: u64)" by simp
  also have "\<dots> = length (filter (\<lambda>e. unat (fst e) < j) edges)"
    using length_filter_le assms(2) by (intro unat_of_nat_u64) (rule le_less_trans)
  finally show "unat (add_up (count_sources n edges) ! j) = length (filter (\<lambda>e. unat (fst e) < j) edges)" .
qed

subsection \<open>A row of the sorted edges\<close>

lemma sorted_split:
  fixes es :: "(u32 \<times> u32) list"
  assumes "sorted es"
  shows "es = filter (\<lambda>e. unat (fst e) < j) es @ filter (\<lambda>e. unat (fst e) = j) es @ filter (\<lambda>e. j < unat (fst e)) es"
  using assms
proof (induction es)
  case (Cons e es)
  have le: "\<forall>e' \<in> set es. unat (fst e) \<le> unat (fst e')"
    using Cons.prems by (auto simp: less_eq_prod_def word_le_nat_alt word_less_nat_alt)
  consider "unat (fst e) < j" | "unat (fst e) = j" | "j < unat (fst e)" by linarith
  then show ?case
  proof cases
    case 2
    then have "filter (\<lambda>e. unat (fst e) < j) es = []" using le by (auto simp: filter_empty_conv)
    then show ?thesis using Cons 2 by simp
  next
    case 3
    then have "filter (\<lambda>e. unat (fst e) < j) es = []" "filter (\<lambda>e. unat (fst e) = j) es = []"
      using le by (auto simp: filter_empty_conv)
    then show ?thesis using Cons 3 by simp
  qed (use Cons in simp)
qed simp

lemma length_filter_mono: "(\<And>x. P x \<Longrightarrow> Q x) \<Longrightarrow> length (filter P xs) \<le> length (filter Q xs)"
  by (induction xs) auto

lemma sorted_row:
  fixes es :: "(u32 \<times> u32) list"
  assumes "sorted es"
  shows "sub_list (length (filter (\<lambda>e. unat (fst e) < j) es))
      (length (filter (\<lambda>e. unat (fst e) < Suc j) es) - length (filter (\<lambda>e. unat (fst e) < j) es)) (map snd es) =
    map snd (filter (\<lambda>e. unat (fst e) = j) es)"
proof -
  let ?a = "filter (\<lambda>e. unat (fst e) < j) es" and ?b = "filter (\<lambda>e. unat (fst e) = j) es"
    and ?c = "filter (\<lambda>e. j < unat (fst e)) es"
  have "length (filter (\<lambda>e. unat (fst e) < Suc j) es) = length ?a + length ?b" by (induction es) auto
  moreover have "map snd es = map snd ?a @ map snd ?b @ map snd ?c"
    by (subst sorted_split [OF assms, of j]) simp
  ultimately show ?thesis by (simp add: sub_list_append2 sub_list_0_append)
qed

lemma sort_row:
  fixes es :: "(u32 \<times> u32) list"
  shows "map snd (filter (\<lambda>e. unat (fst e) = unat src) (sort es)) = sort (map snd (filter (\<lambda>e. fst e = src) es))"
proof (rule properties_for_sort [symmetric])
  let ?f = "filter (\<lambda>e. unat (fst e) = unat src)"
  show "mset (map snd (?f (sort es))) = mset (map snd (filter (\<lambda>e. fst e = src) es))"
    by (simp add: mset_filter word_unat_eq_iff)
  have "sorted (?f (sort es))" by (simp add: sorted_wrt_filter)
  then show "sorted (map snd (?f (sort es)))"
    unfolding sorted_map by (rule sorted_wrt_mono_rel [rotated]) (auto simp: less_eq_prod_def word_less_nat_alt)
qed

subsection \<open>Reading a row back\<close>

lemma read_exact_words:
  assumes "pos + n \<le> length xs"
  shows "read_exact (pos * 4) (n * 4) (concat (map u32_le xs)) = Inr (concat (map u32_le (sub_list pos n xs)))"
proof -
  have "length (concat (map u32_le xs)) = length xs * 4" by (induction xs) simp_all
  then have "pos * 4 + n * 4 \<le> length (concat (map u32_le xs))" using assms by simp
  then show ?thesis
    using u32_codec.sub_array [of pos n xs] by (simp add: read_exact_def mult.commute)
qed

lemma scan_loop_row:
  assumes "stop \<le> length xs" "pos \<le> stop" "0 < chunk_items"
  shows "\<exists>ctx'. scan_loop (\<lambda>chunk out. Inr (out @ chunk)) (concat (map u32_le xs)) chunk_items pos stop ctx out =
    Inr (ctx', out @ sub_list pos (stop - pos) xs) \<and> rc_config ctx' = rc_config ctx"
  using assms
proof (induction "stop - pos" arbitrary: pos ctx out rule: less_induct)
  case less
  let ?bs = "concat (map u32_le xs)" and ?f = "\<lambda>chunk out. Inr (out @ chunk)"
  show ?case
  proof (cases "pos < stop")
    case False
    then show ?thesis by (simp add: scan_loop.simps sub_list_def)
  next
    case True
    define n where "n = min chunk_items (stop - pos)"
    have n: "0 < n" "pos + n \<le> stop" using True less.prems by (auto simp: n_def)
    have read: "read_exact (pos * 4) (n * 4) ?bs = Inr (concat (map u32_le (sub_list pos n xs)))"
      using n less.prems by (intro read_exact_words) simp
    have dec: "map of_le32 (chunks_exact 4 (concat (map u32_le (sub_list pos n xs)))) = sub_list pos n xs"
      by (rule u32_codec.decode_array)
    define ctx1 where "ctx1 = ctx\<lparr>rc_scratch_u32 := sub_list pos n xs, rc_read_chunks := rc_read_chunks ctx + 1,
      rc_read_items := rc_read_items ctx + n\<rparr>"
    have ctx1: "scan_loop ?f ?bs chunk_items pos stop ctx out =
        scan_loop ?f ?bs chunk_items (pos + n) stop ctx1 (out @ sub_list pos n xs)" "rc_config ctx1 = rc_config ctx"
      using True less.prems
      by (simp_all add: scan_loop.simps [of _ _ _ pos] Let_def read dec ctx1_def flip: n_def)
    obtain ctx' where ctx': "scan_loop ?f ?bs chunk_items (pos + n) stop ctx1 (out @ sub_list pos n xs) =
        Inr (ctx', (out @ sub_list pos n xs) @ sub_list (pos + n) (stop - (pos + n)) xs)" "rc_config ctx' = rc_config ctx1"
      using less.hyps [of "pos + n" ctx1 "out @ sub_list pos n xs", OF _ less.prems(1) n(2) less.prems(3)] n True
      by fastforce
    have "sub_list pos n xs @ sub_list (pos + n) (stop - (pos + n)) xs = sub_list pos (stop - pos) xs"
      using n take_add [of n "stop - (pos + n)" "drop pos xs"] by (simp add: sub_list_def add.commute)
    then show ?thesis using ctx1 ctx' by simp
  qed
qed

lemma choose_chunk_items_pos: "0 < choose_chunk_items degree config"
  by (simp add: choose_chunk_items_def less_max_iff_disj)

text \<open>The reader on the files of the writer.\<close>

lemma csr_written:
  assumes len: "length edges < 2 ^ 64"
    and offsets: "fs (join_path (join_path base_dir (ce_path entry)) ''offsets.bin'') =
      Some (concat (map u64_le (add_up (count_sources n (sort edges)))))"
    and neighbors: "fs (join_path (join_path base_dir (ce_path entry)) ''neighbors.bin'') =
      Some (concat (map u32_le (map snd (sort edges))))"
  shows "\<exists>c. csr_open base_dir entry fs = Inr c \<and> ca_id c = ce_name entry \<and> (\<forall>src ctx. \<exists>ctx'. csr_neighbors_vec c src fs ctx =
      Inr (ctx', if unat src < n then sort (map snd (filter (\<lambda>e. fst e = src) edges)) else []))"
proof -
  let ?es = "sort edges"
  let ?offs = "add_up (count_sources n ?es)" and ?xs = "map snd ?es"
  let ?path = "join_path (join_path base_dir (ce_path entry)) ''neighbors.bin''"
  have len: "length ?es < 2 ^ 64" using assms by simp
  define c where "c = \<lparr>ca_id = ce_name entry, ca_offsets = ?offs, ca_neighbors_path = ?path,
      ca_sort_order = sort_order_of_str (ce_sort_order entry)\<rparr>"
  have "length (concat (map u64_le ?offs)) = 8 * length ?offs" by (rule u64_codec.length_concat_enc)
  then have opened: "csr_open base_dir entry fs = Inr c"
    by (simp add: csr_open_def read_u64_column_def offsets u64_codec.decode_array c_def Let_def)
  have "\<exists>ctx'. csr_neighbors_vec c src fs ctx =
      Inr (ctx', if unat src < n then sort (map snd (filter (\<lambda>e. fst e = src) edges)) else [])" for src ctx
  proof (cases "unat src < n")
    case False
    then show ?thesis
      by (simp add: csr_neighbors_vec_def scan_chunks_def csr_range_def c_def offsets_nth(1) [OF le0 len])
  next
    case True
    let ?a = "length (filter (\<lambda>e. unat (fst e) < unat src) ?es)"
      and ?b = "length (filter (\<lambda>e. unat (fst e) < Suc (unat src)) ?es)"
    have range: "csr_range c src = Some (?a, ?b)"
      using True offsets_nth [OF _ len, of "unat src" n] offsets_nth [OF _ len, of "Suc (unat src)" n]
      by (simp add: csr_range_def c_def)
    have path: "ca_neighbors_path c = ?path" by (simp add: c_def)
    have le: "?a \<le> ?b" by (rule length_filter_mono) simp
    have row: "sub_list ?a (?b - ?a) ?xs = sort (map snd (filter (\<lambda>e. fst e = src) edges))"
      using sorted_row [of ?es "unat src"] sort_row [of src edges] by simp
    have bound: "?b \<le> length ?xs" by (simp only: length_map length_filter_le)
    show ?thesis
    proof (cases "?a = ?b")
      case True
      then show ?thesis using row \<open>unat src < n\<close>
        by (simp add: csr_neighbors_vec_def scan_chunks_def range sub_list_def)
    next
      case False
      obtain ctx' where "scan_loop (\<lambda>chunk out. Inr (out @ chunk)) (concat (map u32_le ?xs))
          (choose_chunk_items (?b - ?a) (rc_config ctx)) ?a ?b ctx [] = Inr (ctx', [] @ sub_list ?a (?b - ?a) ?xs)"
        using scan_loop_row [OF bound le choose_chunk_items_pos] by blast
      then show ?thesis using False row \<open>unat src < n\<close> neighbors
        by (simp add: csr_neighbors_vec_def scan_chunks_def range path)
    qed
  qed
  then show ?thesis using opened by (auto simp: c_def)
qed

lemma write_csr_files:
  "fst (write_csr meta dir n edges order fs) =
    fs(join_path dir ''offsets.bin'' \<mapsto> concat (map u64_le (add_up (count_sources n (sort edges)))),
       join_path dir ''neighbors.bin'' \<mapsto> concat (map u32_le (map snd (sort edges))),
       join_path dir ''meta.json'' \<mapsto> meta n (length edges) (sort_order_str order))"
  by (simp add: write_csr_def Let_def write_u64s_def write_u32s_def)

text \<open>C29. What is written is read back: after \<^verbatim>\<open>write_csr\<close> the adjacency opens and the row of a
  source vertex is the list of its destinations, sorted, duplicates kept, whatever the order of the edges,
  the size of the chunks and the declared sort order; a source out of range has an empty row.\<close>

theorem csr_roundtrip:
  assumes "length edges < 2 ^ 64"
  shows "rbind (csr_open base_dir entry (fst (write_csr meta (join_path base_dir (ce_path entry)) n edges order fs))) (\<lambda>c.
      rbind (csr_neighbors_vec c src (fst (write_csr meta (join_path base_dir (ce_path entry)) n edges order fs)) ctx)
        (\<lambda>(ctx, row). Inr row)) =
    Inr (if unat src < n then sort (map snd (filter (\<lambda>e. fst e = src) edges)) else [])"
proof -
  let ?fs = "fst (write_csr meta (join_path base_dir (ce_path entry)) n edges order fs)"
  have "?fs (join_path (join_path base_dir (ce_path entry)) ''offsets.bin'') =
      Some (concat (map u64_le (add_up (count_sources n (sort edges)))))"
    "?fs (join_path (join_path base_dir (ce_path entry)) ''neighbors.bin'') = Some (concat (map u32_le (map snd (sort edges))))"
    by (simp_all add: write_csr_files join_path_def)
  note csr_written [OF assms this]
  then obtain c where c: "csr_open base_dir entry ?fs = Inr c"
    and row: "\<exists>ctx'. csr_neighbors_vec c src ?fs ctx =
      Inr (ctx', if unat src < n then sort (map snd (filter (\<lambda>e. fst e = src) edges)) else [])" by blast
  from row obtain ctx' where "csr_neighbors_vec c src ?fs ctx =
      Inr (ctx', if unat src < n then sort (map snd (filter (\<lambda>e. fst e = src) edges)) else [])" by blast
  with c show ?thesis by simp
qed

lemma csr_roundtrip_witness:
  "rbind (csr_open ''b'' \<lparr>ce_name = ''K'', ce_path = ''k'', ce_src_label = [], ce_dst_label = [], ce_num_src_vertices = 2,
       ce_num_edges = 3, ce_offset_type = [], ce_neighbor_type = [], ce_sort_order = ''dst_id'', ce_prop_access = [],
       ce_props = [], ce_neighbor_block_bytes = 0, ce_file_alignment = 0\<rparr>
     (fst (write_csr (\<lambda>_ _ _. []) (join_path ''b'' ''k'') 2 [(1, 5), (0, 7), (1, 2)] DstId (\<lambda>_. None)))) (\<lambda>c.
   rbind (csr_neighbors_vec c 1
     (fst (write_csr (\<lambda>_ _ _. []) (join_path ''b'' ''k'') 2 [(1, 5), (0, 7), (1, 2)] DstId (\<lambda>_. None)))
     (read_context_new 0 io_config_default)) (\<lambda>(ctx, row). Inr row)) = Inr [2, 5]"
  using csr_roundtrip [of "[(1, 5), (0, 7), (1, 2)]" "''b''" "\<lparr>ce_name = ''K'', ce_path = ''k'', ce_src_label = [], ce_dst_label = [], ce_num_src_vertices = 2,
       ce_num_edges = 3, ce_offset_type = [], ce_neighbor_type = [], ce_sort_order = ''dst_id'', ce_prop_access = [],
       ce_props = [], ce_neighbor_block_bytes = 0, ce_file_alignment = 0\<rparr>" "\<lambda>_ _ _. []" 2 DstId "\<lambda>_. None" 1
     "read_context_new 0 io_config_default"]
  by simp

end
