(* ===== verification/Base_Graph.thy ===== *)
theory Base_Graph
  imports Base_Csr
begin

section \<open>The base graph\<close>

text \<open>
  \<^verbatim>\<open>src/base_graph/graph.rs\<close>: opening the files the catalog names, and the lookups. A column
  holds \<^verbatim>\<open>u32::MAX\<close> where there is no value.
\<close>

record base_graph =
  bg_base_dir :: string
  bg_catalog :: base_graph_catalog
  bg_io_config :: io_config
  bg_csr :: "(string, csr_adjacency) btree_map"
  bg_single_u32 :: "(string, u32 list) btree_map"
  bg_comment_parent_kind :: "u8 list"

definition read_optional_u8_column :: "string \<Rightarrow> file_system \<Rightarrow> u8 list res" where
  "read_optional_u8_column path fs = (case fs path of Some bs \<Rightarrow> Inr bs | None \<Rightarrow> Inr [])"

definition open_csrs :: "string \<Rightarrow> base_graph_catalog \<Rightarrow> file_system \<Rightarrow> (string, csr_adjacency) btree_map res" where
  "open_csrs base_dir catalog fs =
     rfold (\<lambda>(name, entry) csr. rbind (csr_open base_dir entry fs) (\<lambda>c. Inr (bt_insert name c csr)))
       (cat_csr_adjacencies catalog) []"

definition open_columns :: "string \<Rightarrow> base_graph_catalog \<Rightarrow> file_system \<Rightarrow> (string, u32 list) btree_map res" where
  "open_columns base_dir catalog fs =
     rfold (\<lambda>(name, entry) columns.
         if se_value_type entry = ''u32''
         then rbind (read_u32_column (join_path base_dir (se_file entry)) fs) (\<lambda>values. Inr (bt_insert name values columns))
         else Inr columns)
       (cat_single_columns catalog) []"

definition base_open ::
  "(bytes \<Rightarrow> base_graph_catalog res) \<Rightarrow> string \<Rightarrow> io_config \<Rightarrow> file_system \<Rightarrow> base_graph res"
where
  "base_open parse base_dir config fs =
     (let config = config\<lparr>io_base_dir := Some base_dir\<rparr>
      in rbind (catalog_load parse fs (join_path base_dir ''catalog.json'')) (\<lambda>catalog.
         rbind (open_csrs base_dir catalog fs) (\<lambda>csr.
         rbind (open_columns base_dir catalog fs) (\<lambda>single_u32.
         rbind (read_optional_u8_column (join_path base_dir ''single_edges/REPLY_OF/comment_parent_kind.col'') fs) (\<lambda>kinds.
         Inr \<lparr>bg_base_dir = base_dir, bg_catalog = catalog, bg_io_config = config, bg_csr = csr,
              bg_single_u32 = single_u32, bg_comment_parent_kind = kinds\<rparr>)))))"

definition new_read_context :: "base_graph \<Rightarrow> nat \<Rightarrow> read_context" where
  "new_read_context g worker_id = read_context_new worker_id (bg_io_config g)"

definition csr_of :: "base_graph \<Rightarrow> string \<Rightarrow> csr_adjacency option" where
  "csr_of g name = bt_get (bg_csr g) name"

definition scan_csr ::
  "base_graph \<Rightarrow> string \<Rightarrow> u32 \<Rightarrow> (u32 list \<Rightarrow> 's \<Rightarrow> 's res) \<Rightarrow> file_system \<Rightarrow> read_context \<Rightarrow> 's \<Rightarrow> (read_context \<times> 's) res"
where
  "scan_csr g name src f fs ctx s =
     (case bt_get (bg_csr g) name of None \<Rightarrow> Inr (ctx, s) | Some csr \<Rightarrow> scan_chunks csr src f fs ctx s)"

subsection \<open>Single values\<close>

definition value_at :: "u32 list \<Rightarrow> u32 \<Rightarrow> u32 option" where
  "value_at values i =
     (if unat i < length values \<and> values ! unat i \<noteq> - 1 then Some (values ! unat i) else None)"

definition single_value :: "base_graph \<Rightarrow> string \<Rightarrow> u32 \<Rightarrow> u32 option" where
  "single_value g name i = (case bt_get (bg_single_u32 g) name of None \<Rightarrow> None | Some values \<Rightarrow> value_at values i)"

text \<open>A derived column is read from its file at every lookup; a failed read is no value.\<close>

definition derived_value :: "base_graph \<Rightarrow> string \<Rightarrow> u32 \<Rightarrow> file_system \<Rightarrow> u32 option" where
  "derived_value g name i fs =
     (case bt_get (cat_derived_columns (bg_catalog g)) name of
        None \<Rightarrow> None
      | Some entry \<Rightarrow>
          case read_u32_column (join_path (bg_base_dir g) (de_file entry)) fs of
            Inl _ \<Rightarrow> None | Inr values \<Rightarrow> value_at values i)"

definition base_post_creator :: "base_graph \<Rightarrow> u32 \<Rightarrow> u32 option" where
  "base_post_creator g post = single_value g ''post_creator'' post"

definition base_comment_creator :: "base_graph \<Rightarrow> u32 \<Rightarrow> u32 option" where
  "base_comment_creator g comment = single_value g ''comment_creator'' comment"

definition base_post_forum :: "base_graph \<Rightarrow> u32 \<Rightarrow> u32 option" where
  "base_post_forum g post = single_value g ''post_forum'' post"

definition person_place :: "base_graph \<Rightarrow> u32 \<Rightarrow> u32 option" where
  "person_place g person = single_value g ''person_place'' person"

definition comment_reply_of :: "base_graph \<Rightarrow> u32 \<Rightarrow> message_id option" where
  "comment_reply_of g comment =
     (if unat comment < length (bg_comment_parent_kind g)
      then let kind = bg_comment_parent_kind g ! unat comment
        in case single_value g ''comment_parent_id'' comment of
             None \<Rightarrow> None
           | Some i \<Rightarrow> if kind = 0 then Some (Post_id i) else if kind = 1 then Some (Comment_id i) else None
      else None)"

definition comment_root_post :: "base_graph \<Rightarrow> u32 \<Rightarrow> file_system \<Rightarrow> u32 option" where
  "comment_root_post g comment fs = derived_value g ''comment_root_post'' comment fs"

subsection \<open>What an opened graph holds\<close>

lemma read_u32_written: "fs path = Some (concat (map u32_le vs)) \<Longrightarrow> read_u32_column path fs = Inr vs"
  using u32_codec.length_concat_enc [of vs]
  by (simp add: read_u32_column_def u32_codec.decode_array)

lemma open_csrs_get:
  assumes "rfold (\<lambda>(name, entry) csr. rbind (csr_open base_dir entry fs) (\<lambda>c. Inr (bt_insert name c csr))) es csr0 = Inr csr"
    and "bt_inv csr0" "distinct (map fst es)"
  shows "bt_inv csr \<and> bt_get csr name =
    (case map_of es name of Some entry \<Rightarrow> (case csr_open base_dir entry fs of Inr c \<Rightarrow> Some c | Inl _ \<Rightarrow> None)
     | None \<Rightarrow> bt_get csr0 name)"
  using assms
proof (induction es arbitrary: csr0)
  case (Cons e es)
  obtain n entry where e: "e = (n, entry)" by (cases e)
  obtain c where c: "csr_open base_dir entry fs = Inr c" using Cons.prems(1) by (auto simp: e rbind_Inr_iff)
  have new: "map_of es n = None" using Cons.prems(3) by (simp add: e map_of_eq_None_iff)
  have "bt_inv csr \<and> bt_get csr name =
    (case map_of es name of Some entry \<Rightarrow> (case csr_open base_dir entry fs of Inr c \<Rightarrow> Some c | Inl _ \<Rightarrow> None)
     | None \<Rightarrow> bt_get (bt_insert n c csr0) name)"
    using Cons.prems c by (intro Cons.IH) (auto simp: e bt.inv_ins)
  then show ?case using Cons.prems(2) c new by (auto simp: e bt.get_ins split: option.splits)
qed simp

lemma open_columns_get:
  assumes "rfold (\<lambda>(name, entry) columns.
      if se_value_type entry = ''u32''
      then rbind (read_u32_column (join_path base_dir (se_file entry)) fs) (\<lambda>values. Inr (bt_insert name values columns))
      else Inr columns) es cols0 = Inr cols"
    and "bt_inv cols0" "distinct (map fst es)" "\<forall>(n, entry) \<in> set es. se_value_type entry = ''u32''"
  shows "bt_inv cols \<and> bt_get cols name =
    (case map_of es name of Some entry \<Rightarrow> (case read_u32_column (join_path base_dir (se_file entry)) fs of Inr c \<Rightarrow> Some c | Inl _ \<Rightarrow> None)
     | None \<Rightarrow> bt_get cols0 name)"
  using assms
proof (induction es arbitrary: cols0)
  case (Cons e es)
  obtain n entry where e: "e = (n, entry)" by (cases e)
  obtain c where c: "read_u32_column (join_path base_dir (se_file entry)) fs = Inr c"
    using Cons.prems(1,4) by (auto simp: e rbind_Inr_iff)
  have new: "map_of es n = None" using Cons.prems(3) by (simp add: e map_of_eq_None_iff)
  have "bt_inv cols \<and> bt_get cols name =
    (case map_of es name of Some entry \<Rightarrow> (case read_u32_column (join_path base_dir (se_file entry)) fs of Inr c \<Rightarrow> Some c | Inl _ \<Rightarrow> None)
     | None \<Rightarrow> bt_get (bt_insert n c cols0) name)"
    using Cons.prems c by (intro Cons.IH) (auto simp: e bt.inv_ins)
  then show ?case using Cons.prems(2) c new by (auto simp: e bt.get_ins split: option.splits)
qed simp

end
