(* ===== verification/Csv.thy ===== *)
theory Csv
  imports Csr_Writer Decimal
begin

section \<open>Reading delimited files\<close>

text \<open>
  What the importers use of the standard library and of the \<^verbatim>\<open>csv\<close> package. A string is the list of
  its bytes. The package is a parameter: it turns a file into a header and the records after it, each of
  which may be an error. \<^verbatim>\<open>str::parse\<close> of the signed integers is written out here; \<^verbatim>\<open>str::trim\<close>
  is modelled on the white space of ASCII.
\<close>

type_synonym csv_table = "string list \<times> string list res list"
type_synonym csv_package = "bytes \<Rightarrow> csv_table res"

subsection \<open>Strings\<close>

definition parse_int :: "int \<Rightarrow> int \<Rightarrow> string \<Rightarrow> int res" where
  "parse_int lo hi s =
     (let (negative, ds) = (case s of [] \<Rightarrow> (False, [])
        | c # cs \<Rightarrow> if c = CHR ''-'' then (True, cs) else if c = CHR ''+'' then (False, cs) else (False, s));
          v = (if negative then - int (digits_value ds) else int (digits_value ds))
      in if ds = [] \<or> \<not> list_all is_digit ds \<or> v < lo \<or> hi < v then Inl (Parse_error s) else Inr v)"

definition parse_i64_str :: "string \<Rightarrow> int res" where
  "parse_i64_str = parse_int (- (2 ^ 63)) (2 ^ 63 - 1)"

definition parse_i32_str :: "string \<Rightarrow> int res" where
  "parse_i32_str = parse_int (- (2 ^ 31)) (2 ^ 31 - 1)"

definition is_space :: "char \<Rightarrow> bool" where
  "is_space c \<longleftrightarrow> (let n = of_char c :: nat in n = 32 \<or> 9 \<le> n \<and> n \<le> 13)"

definition trim :: "string \<Rightarrow> string" where
  "trim s = rev (dropWhile is_space (rev (dropWhile is_space s)))"

fun str_split :: "char \<Rightarrow> string \<Rightarrow> string list" where
  "str_split d [] = [[]]"
| "str_split d (c # cs) = (if c = d then [] # str_split d cs
     else case str_split d cs of [] \<Rightarrow> [[c]] | p # ps \<Rightarrow> (c # p) # ps)"

text \<open>\<^verbatim>\<open>str::split_once\<close>.\<close>

fun split_once :: "char \<Rightarrow> string \<Rightarrow> (string \<times> string) option" where
  "split_once d [] = None"
| "split_once d (c # cs) = (if c = d then Some ([], cs)
     else case split_once d cs of None \<Rightarrow> None | Some (a, b) \<Rightarrow> Some (c # a, b))"

text \<open>\<^verbatim>\<open>Iterator::position\<close>.\<close>

fun position :: "('a \<Rightarrow> bool) \<Rightarrow> 'a list \<Rightarrow> nat option" where
  "position P [] = None"
| "position P (x # xs) = (if P x then Some 0 else map_option Suc (position P xs))"

text \<open>\<open>record.get(i).unwrap_or_default()\<close>.\<close>

definition get_or_empty :: "string list \<Rightarrow> nat \<Rightarrow> string" where
  "get_or_empty r i = (if i < length r then r ! i else '''')"

subsection \<open>Scanning\<close>

definition scan_csv ::
  "csv_package \<Rightarrow> file_system \<Rightarrow> string \<Rightarrow> (string list \<Rightarrow> string list \<Rightarrow> 's \<Rightarrow> 's res) \<Rightarrow> 's \<Rightarrow> 's res"
where
  "scan_csv csv fs path f s =
     (case fs path of None \<Rightarrow> Inl Not_found
      | Some bs \<Rightarrow> rbind (csv bs) (\<lambda>(header, records).
          rfold (\<lambda>record s. rbind record (\<lambda>record. f header record s)) records s))"

definition idx :: "string list \<Rightarrow> string \<Rightarrow> nat res" where
  "idx header name = (case position (\<lambda>candidate. candidate = name) header of
     None \<Rightarrow> Inl (Missing_column name) | Some i \<Rightarrow> Inr i)"

definition parse_i64 :: "string list \<Rightarrow> nat \<Rightarrow> int res" where
  "parse_i64 record i =
     (let value = get_or_empty record i
      in if value = '''' then Inl (Parse_error '''') else parse_i64_str value)"

subsection \<open>Facts\<close>

lemma position_SomeD: "position P xs = Some i \<Longrightarrow> i < length xs \<and> P (xs ! i) \<and> (\<forall>j < i. \<not> P (xs ! j))"
proof (induction xs arbitrary: i)
  case (Cons x xs)
  then show ?case by (cases i) (auto simp: nth_Cons split: if_splits nat.splits)
qed simp

lemma parse_int_range: "parse_int lo hi s = Inr v \<Longrightarrow> lo \<le> v \<and> v \<le> hi"
  by (auto simp: parse_int_def Let_def split: if_splits prod.splits)

lemma dec_not_sign: "dec n \<noteq> [] \<and> hd (dec n) \<noteq> CHR ''-'' \<and> hd (dec n) \<noteq> CHR ''+''"
proof -
  have ne: "dec n \<noteq> []" by (subst dec.simps) simp
  then have "is_digit (hd (dec n))" by (simp add: is_digit_dec [of _ n])
  then show ?thesis using ne by (auto simp: is_digit_def)
qed

lemma parse_int_dec: "lo \<le> int n \<Longrightarrow> int n \<le> hi \<Longrightarrow> parse_int lo hi (dec n) = Inr (int n)"
proof -
  assume n: "lo \<le> int n" "int n \<le> hi"
  obtain c cs where c: "dec n = c # cs" "c \<noteq> CHR ''-''" "c \<noteq> CHR ''+''"
    using dec_not_sign [of n] by (cases "dec n") auto
  have "list_all is_digit (dec n)" by (simp add: list_all_iff is_digit_dec)
  then show ?thesis using n c digits_value_dec [of n] by (simp add: parse_int_def Let_def)
qed

lemma parse_int_neg_dec: "lo \<le> - int n \<Longrightarrow> - int n \<le> hi \<Longrightarrow> parse_int lo hi (CHR ''-'' # dec n) = Inr (- int n)"
  using dec_not_sign [of n] by (simp add: parse_int_def Let_def list_all_iff is_digit_dec)

lemma str_split_first: "str_split d s \<noteq> [] \<and> d \<notin> set (hd (str_split d s))"
  by (induction s) (auto split: list.splits)

end
