(* ===== verification/Base_Builder.thy ===== *)
theory Base_Builder
  imports Base_Graph Csv
begin

section \<open>Building the base graph\<close>

text \<open>
  \<^verbatim>\<open>src/base_graph/builder.rs\<close>: the tables of the benchmark's data set are read and turned into id
  maps, columns and adjacencies under the output directory, with a catalog of them. The state of a build
  is the file system, the catalog and the statistics; the \<^verbatim>\<open>csv\<close> package and the renderings of
  \<^verbatim>\<open>serde_json\<close> are parameters.
\<close>

subsection \<open>Configuration, statistics and state\<close>

record build_config =
  bc_vertices_per_bucket :: u64
  bc_max_bucket_bytes :: nat
  bc_max_parallel_buckets :: nat
  bc_temp_dir :: string
  bc_temp_disk_budget_gb :: nat
  bc_sort_memory_limit_mb :: nat

definition for_output :: "string \<Rightarrow> build_config" where
  "for_output output_dir = \<lparr>bc_vertices_per_bucket = 10000000, bc_max_bucket_bytes = 512 * 1024 * 1024,
     bc_max_parallel_buckets = 1, bc_temp_dir = join_path output_dir ''build-tmp'',
     bc_temp_disk_budget_gb = 512, bc_sort_memory_limit_mb = 1024\<rparr>"

record build_stats =
  st_source :: string
  st_output_dir :: string
  st_vertex_counts :: "(string, u64) btree_map"
  st_csr_edges :: "(string, u64) btree_map"
  st_single_columns :: "(string, u64) btree_map"
  st_derived_columns :: "(string, u64) btree_map"

record build_state =
  b_fs :: file_system
  b_catalog :: base_graph_catalog
  b_stats :: build_stats

record build_env =
  be_csv :: csv_package
  be_meta :: "nat \<Rightarrow> nat \<Rightarrow> string \<Rightarrow> bytes"
  be_render :: "base_graph_catalog \<Rightarrow> bytes"

subsection \<open>Id maps\<close>

record id_map =
  im_external_to_local :: "(int, u32) hash_map"
  im_ordered_pairs :: "(int \<times> u32) list"

definition id_map_default :: id_map where
  "id_map_default = \<lparr>im_external_to_local = [], im_ordered_pairs = []\<rparr>"

definition id_map_get :: "id_map \<Rightarrow> int \<Rightarrow> u32 res" where
  "id_map_get m external = (case hm_get (im_external_to_local m) external of
     None \<Rightarrow> Inl (Missing_external_id external) | Some local \<Rightarrow> Inr local)"

definition id_map_len :: "id_map \<Rightarrow> nat" where
  "id_map_len m = length (im_ordered_pairs m)"

definition id_map_add :: "int \<Rightarrow> id_map \<Rightarrow> id_map" where
  "id_map_add external m =
     (let local = of_nat (length (im_ordered_pairs m))
      in \<lparr>im_external_to_local = hm_insert external local (im_external_to_local m),
          im_ordered_pairs = im_ordered_pairs m @ [(external, local)]\<rparr>)"

record id_maps =
  m_person :: id_map
  m_post :: id_map
  m_comment :: id_map
  m_forum :: id_map
  m_place :: id_map
  m_organisation :: id_map
  m_tag :: id_map
  m_tag_class :: id_map

text \<open>\<open>scan_csv\<close> on the state of a build, and \<open>map.get(parse_i64(record, idx(header, name)?)?)?\<close>, which
  every closure is made of. Indexing a column out of range panics.\<close>

definition bscan ::
  "build_env \<Rightarrow> string \<Rightarrow> (string list \<Rightarrow> string list \<Rightarrow> 's \<Rightarrow> 's res) \<Rightarrow> 's \<Rightarrow> (build_state, 's) st"
where
  "bscan env path f s = sreads (\<lambda>b. scan_csv (be_csv env) (b_fs b) path f s)"

definition local_id :: "id_map \<Rightarrow> string list \<Rightarrow> string list \<Rightarrow> string \<Rightarrow> u32 res" where
  "local_id m header record name = rbind (idx header name) (\<lambda>i. rbind (parse_i64 record i) (id_map_get m))"

definition put_at :: "u32 \<Rightarrow> 'a \<Rightarrow> 'a list \<Rightarrow> 'a list res" where
  "put_at i v xs = (if unat i < length xs then Inr (xs[unat i := v]) else Inl Slice_out_of_range)"

definition load_id_map :: "build_env \<Rightarrow> string \<Rightarrow> string \<Rightarrow> (build_state, id_map) st" where
  "load_id_map env path id_col =
     bscan env path (\<lambda>header record out.
       rbind (idx header id_col) (\<lambda>i. rbind (parse_i64 record i) (\<lambda>external. Inr (id_map_add external out))))
     id_map_default"

subsection \<open>Entries\<close>

definition write_single_u32 ::
  "string \<Rightarrow> string \<Rightarrow> string \<Rightarrow> string \<Rightarrow> string \<Rightarrow> u32 list \<Rightarrow> (build_state, unit) st"
where
  "write_single_u32 output_dir name rel src_label dst_label values =
     supdate (\<lambda>b. b\<lparr>b_fs := write_u32_column (join_path output_dir rel) values (b_fs b),
       b_catalog := (b_catalog b)\<lparr>cat_single_columns := bt_insert name
         \<lparr>se_name = name, se_file = rel, se_src_label = src_label, se_dst_label = dst_label,
          se_rows = of_nat (length values), se_value_type = ''u32''\<rparr> (cat_single_columns (b_catalog b))\<rparr>,
       b_stats := (b_stats b)\<lparr>st_single_columns := bt_insert name (of_nat (length values)) (st_single_columns (b_stats b))\<rparr>\<rparr>)"

definition write_csr_entry ::
  "build_env \<Rightarrow> string \<Rightarrow> string \<Rightarrow> string \<Rightarrow> string \<Rightarrow> string \<Rightarrow> nat \<Rightarrow> (u32 \<times> u32) list \<Rightarrow> (build_state, unit) st"
where
  "write_csr_entry env output_dir name rel src_label dst_label num_src edges =
     supdate (\<lambda>b.
       let (fs, edge_count) = write_csr (be_meta env) (join_path output_dir rel) num_src edges DstId (b_fs b)
       in b\<lparr>b_fs := fs,
         b_catalog := (b_catalog b)\<lparr>cat_csr_adjacencies := bt_insert name
           \<lparr>ce_name = name, ce_path = rel, ce_src_label = src_label, ce_dst_label = dst_label,
            ce_num_src_vertices = of_nat num_src, ce_num_edges = edge_count, ce_offset_type = ''u64'',
            ce_neighbor_type = ''u32'', ce_sort_order = ''dst_id'', ce_prop_access = ''none'', ce_props = [],
            ce_neighbor_block_bytes = 256 * 1024, ce_file_alignment = 4096\<rparr> (cat_csr_adjacencies (b_catalog b))\<rparr>,
         b_stats := (b_stats b)\<lparr>st_csr_edges := bt_insert name edge_count (st_csr_edges (b_stats b))\<rparr>\<rparr>)"

definition write_derived_csr ::
  "build_env \<Rightarrow> string \<Rightarrow> string \<Rightarrow> string \<Rightarrow> string \<Rightarrow> string \<Rightarrow> nat \<Rightarrow> (u32 \<times> u32) list \<Rightarrow> (build_state, unit) st"
where
  "write_derived_csr env output_dir name rel src_label dst_label num_src edges =
     write_csr_entry env output_dir name rel src_label dst_label num_src edges"

definition write_derived_column :: "string \<Rightarrow> string \<Rightarrow> string \<Rightarrow> u32 list \<Rightarrow> (build_state, unit) st" where
  "write_derived_column output_dir name rel values =
     supdate (\<lambda>b. b\<lparr>b_fs := write_u32_column (join_path output_dir rel) values (b_fs b),
       b_catalog := (b_catalog b)\<lparr>cat_derived_columns := bt_insert name
         \<lparr>de_name = name, de_file = rel, de_rows = of_nat (length values), de_value_type = ''u32''\<rparr>
         (cat_derived_columns (b_catalog b))\<rparr>,
       b_stats := (b_stats b)\<lparr>st_derived_columns := bt_insert name (of_nat (length values)) (st_derived_columns (b_stats b))\<rparr>\<rparr>)"

definition build_bidirectional_csr ::
  "build_env \<Rightarrow> string \<Rightarrow> string \<Rightarrow> string \<Rightarrow> string \<Rightarrow> string \<Rightarrow> nat \<Rightarrow> nat \<Rightarrow> id_map \<Rightarrow> id_map \<Rightarrow> string \<Rightarrow> string
    \<Rightarrow> (build_state, unit) st"
where
  "build_bidirectional_csr env csv_path output_dir name src_label dst_label num_src num_dst src_map dst_map src_col dst_col =
     sbind (bscan env csv_path (\<lambda>header record (out_edges, in_edges).
         rbind (local_id src_map header record src_col) (\<lambda>src.
         rbind (local_id dst_map header record dst_col) (\<lambda>dst.
         Inr (out_edges @ [(src, dst)], in_edges @ [(dst, src)])))) ([], [])) (\<lambda>(out_edges, in_edges).
     sbind (write_csr_entry env output_dir (name @ ''/OUT'') (''edges/'' @ name @ ''/OUT'') src_label dst_label num_src out_edges) (\<lambda>_.
     write_csr_entry env output_dir (name @ ''/IN'') (''edges/'' @ name @ ''/IN'') dst_label src_label num_dst in_edges))"

subsection \<open>The tables\<close>

definition write_id_map :: "string \<Rightarrow> label_id \<Rightarrow> id_map \<Rightarrow> (build_state, unit) st" where
  "write_id_map output_dir label m =
     (let rel = ''vertices/'' @ label_str label @ ''/ext_id_to_local.idx''
      in supdate (\<lambda>b. b\<lparr>b_fs := write_ext_id_map (join_path output_dir rel) (im_ordered_pairs m) (b_fs b),
        b_catalog := (b_catalog b)\<lparr>cat_vertex_labels := bt_insert (label_str label)
          \<lparr>ve_label = label_str label, ve_count = of_nat (id_map_len m), ve_ext_id_to_local = rel\<rparr>
          (cat_vertex_labels (b_catalog b))\<rparr>,
        b_stats := (b_stats b)\<lparr>st_vertex_counts := bt_insert (label_str label) (of_nat (id_map_len m)) (st_vertex_counts (b_stats b))\<rparr>\<rparr>))"

definition build_id_maps :: "build_env \<Rightarrow> string \<Rightarrow> string \<Rightarrow> (build_state, id_maps) st" where
  "build_id_maps env csv_root output_dir =
     (let dynamic = join_path csv_root ''dynamic''; static = join_path csv_root ''static''
      in sbind (load_id_map env (join_path dynamic ''person_0_0.csv'') ''id'') (\<lambda>person.
         sbind (load_id_map env (join_path dynamic ''post_0_0.csv'') ''id'') (\<lambda>post.
         sbind (load_id_map env (join_path dynamic ''comment_0_0.csv'') ''id'') (\<lambda>comment.
         sbind (load_id_map env (join_path dynamic ''forum_0_0.csv'') ''id'') (\<lambda>forum.
         sbind (load_id_map env (join_path static ''place_0_0.csv'') ''id'') (\<lambda>place.
         sbind (load_id_map env (join_path static ''organisation_0_0.csv'') ''id'') (\<lambda>organisation.
         sbind (load_id_map env (join_path static ''tag_0_0.csv'') ''id'') (\<lambda>tag.
         sbind (load_id_map env (join_path static ''tagclass_0_0.csv'') ''id'') (\<lambda>tag_class.
         sbind (smap (\<lambda>(label, m). write_id_map output_dir label m)
           [(L_Person, person), (L_Post, post), (L_Comment, comment), (L_Forum, forum), (L_Place, place),
            (L_Organisation, organisation), (L_Tag, tag), (L_TagClass, tag_class)]) (\<lambda>_.
         sreturn \<lparr>m_person = person, m_post = post, m_comment = comment, m_forum = forum, m_place = place,
           m_organisation = organisation, m_tag = tag, m_tag_class = tag_class\<rparr>))))))))))"

text \<open>A column that one field of a table determines: \<open>person_place\<close>, \<open>forum_moderator\<close>,
  \<open>organisation_place\<close> and \<open>tag_tagclass\<close> are built by the same loop.\<close>

definition one_column ::
  "id_map \<Rightarrow> id_map \<Rightarrow> string \<Rightarrow> string list \<Rightarrow> string list \<Rightarrow> u32 list \<Rightarrow> u32 list res"
where
  "one_column keys targets col header record column =
     rbind (local_id keys header record ''id'') (\<lambda>key.
     rbind (local_id targets header record col) (\<lambda>target.
     put_at key target column))"

definition no_values :: "id_map \<Rightarrow> u32 list" where
  "no_values m = replicate (id_map_len m) (- 1)"

definition build_person_place :: "build_env \<Rightarrow> string \<Rightarrow> string \<Rightarrow> id_maps \<Rightarrow> (build_state, unit) st" where
  "build_person_place env dynamic output_dir maps =
     sbind (bscan env (join_path dynamic ''person_0_0.csv'') (one_column (m_person maps) (m_place maps) ''place'')
       (no_values (m_person maps)))
     (write_single_u32 output_dir ''person_place'' ''single_edges/LOCATED_IN/person_place.col'' ''Person'' ''Place'')"

definition post_columns ::
  "id_maps \<Rightarrow> string list \<Rightarrow> string list \<Rightarrow> u32 list \<times> u32 list \<times> u32 list \<Rightarrow> (u32 list \<times> u32 list \<times> u32 list) res"
where
  "post_columns maps header record = (\<lambda>(creators, forums, places).
     rbind (local_id (m_post maps) header record ''id'') (\<lambda>post.
     rbind (local_id (m_person maps) header record ''creator'') (\<lambda>creator.
     rbind (put_at post creator creators) (\<lambda>creators.
     rbind (local_id (m_forum maps) header record ''Forum.id'') (\<lambda>forum.
     rbind (put_at post forum forums) (\<lambda>forums.
     rbind (local_id (m_place maps) header record ''place'') (\<lambda>place.
     rbind (put_at post place places) (\<lambda>places.
     Inr (creators, forums, places)))))))))"

definition build_post_columns :: "build_env \<Rightarrow> string \<Rightarrow> string \<Rightarrow> id_maps \<Rightarrow> (build_state, unit) st" where
  "build_post_columns env dynamic output_dir maps =
     sbind (bscan env (join_path dynamic ''post_0_0.csv'') (post_columns maps)
       (no_values (m_post maps), no_values (m_post maps), no_values (m_post maps))) (\<lambda>(creators, forums, places).
     sbind (write_single_u32 output_dir ''post_creator'' ''single_edges/HAS_CREATOR/post_creator.col'' ''Post'' ''Person'' creators) (\<lambda>_.
     sbind (write_single_u32 output_dir ''post_forum'' ''single_edges/CONTAINER_OF/post_forum.col'' ''Post'' ''Forum'' forums) (\<lambda>_.
     write_single_u32 output_dir ''post_place'' ''single_edges/LOCATED_IN/post_place.col'' ''Post'' ''Place'' places)))"

text \<open>The parent of a comment, as both passes over the comments read it: the post if there is one,
  else the comment, else none.\<close>

definition comment_parent :: "id_maps \<Rightarrow> string list \<Rightarrow> string list \<Rightarrow> message_id option res" where
  "comment_parent maps header record =
     rbind (idx header ''replyOfPost'') (\<lambda>i. let reply_post = get_or_empty record i
     in rbind (idx header ''replyOfComment'') (\<lambda>j. let reply_comment = get_or_empty record j
     in if reply_post \<noteq> '''' then
          rbind (parse_i64_str reply_post) (\<lambda>x. rbind (id_map_get (m_post maps) x) (\<lambda>post. Inr (Some (Post_id post))))
        else if reply_comment \<noteq> '''' then
          rbind (parse_i64_str reply_comment) (\<lambda>x. rbind (id_map_get (m_comment maps) x) (\<lambda>c. Inr (Some (Comment_id c))))
        else Inr None))"

definition put_parent :: "u32 \<Rightarrow> message_id option \<Rightarrow> u8 list \<times> u32 list \<Rightarrow> (u8 list \<times> u32 list) res" where
  "put_parent comment parent = (\<lambda>(kinds, ids).
     case parent of
       None \<Rightarrow> Inr (kinds, ids)
     | Some (Post_id p) \<Rightarrow> rbind (put_at comment 0 kinds) (\<lambda>kinds. rbind (put_at comment p ids) (\<lambda>ids. Inr (kinds, ids)))
     | Some (Comment_id c) \<Rightarrow> rbind (put_at comment 1 kinds) (\<lambda>kinds. rbind (put_at comment c ids) (\<lambda>ids. Inr (kinds, ids))))"

definition no_kinds :: "id_map \<Rightarrow> u8 list" where
  "no_kinds m = replicate (id_map_len m) (- 1)"

definition comment_columns ::
  "id_maps \<Rightarrow> string list \<Rightarrow> string list \<Rightarrow> u32 list \<times> u32 list \<times> u8 list \<times> u32 list \<Rightarrow> (u32 list \<times> u32 list \<times> u8 list \<times> u32 list) res"
where
  "comment_columns maps header record = (\<lambda>(creators, places, parents).
     rbind (local_id (m_comment maps) header record ''id'') (\<lambda>comment.
     rbind (local_id (m_person maps) header record ''creator'') (\<lambda>creator.
     rbind (put_at comment creator creators) (\<lambda>creators.
     rbind (local_id (m_place maps) header record ''place'') (\<lambda>place.
     rbind (put_at comment place places) (\<lambda>places.
     rbind (comment_parent maps header record) (\<lambda>parent.
     rbind (put_parent comment parent parents) (\<lambda>parents.
     Inr (creators, places, parents)))))))))"

definition write_parent_kinds :: "string \<Rightarrow> u8 list \<Rightarrow> (build_state, unit) st" where
  "write_parent_kinds output_dir kinds =
     supdate (\<lambda>b. b\<lparr>b_fs := write_u8_column (join_path output_dir ''single_edges/REPLY_OF/comment_parent_kind.col'') kinds (b_fs b)\<rparr>)"

definition build_comment_columns :: "build_env \<Rightarrow> string \<Rightarrow> string \<Rightarrow> id_maps \<Rightarrow> (build_state, unit) st" where
  "build_comment_columns env dynamic output_dir maps =
     sbind (bscan env (join_path dynamic ''comment_0_0.csv'') (comment_columns maps)
       (no_values (m_comment maps), no_values (m_comment maps), no_kinds (m_comment maps), no_values (m_comment maps)))
     (\<lambda>(creators, places, kinds, parents).
     sbind (write_single_u32 output_dir ''comment_creator'' ''single_edges/HAS_CREATOR/comment_creator.col'' ''Comment'' ''Person'' creators) (\<lambda>_.
     sbind (write_single_u32 output_dir ''comment_place'' ''single_edges/LOCATED_IN/comment_place.col'' ''Comment'' ''Place'' places) (\<lambda>_.
     sbind (write_parent_kinds output_dir kinds) (\<lambda>_.
     write_single_u32 output_dir ''comment_parent_id'' ''single_edges/REPLY_OF/comment_parent_id.col'' ''Comment'' ''Message'' parents))))"

definition build_forum_moderator :: "build_env \<Rightarrow> string \<Rightarrow> string \<Rightarrow> id_maps \<Rightarrow> (build_state, unit) st" where
  "build_forum_moderator env dynamic output_dir maps =
     sbind (bscan env (join_path dynamic ''forum_0_0.csv'') (one_column (m_forum maps) (m_person maps) ''moderator'')
       (no_values (m_forum maps)))
     (write_single_u32 output_dir ''forum_moderator'' ''single_edges/HAS_MODERATOR/forum_moderator.col'' ''Forum'' ''Person'')"

definition build_organisation_place :: "build_env \<Rightarrow> string \<Rightarrow> string \<Rightarrow> id_maps \<Rightarrow> (build_state, unit) st" where
  "build_organisation_place env static output_dir maps =
     sbind (bscan env (join_path static ''organisation_0_0.csv'') (one_column (m_organisation maps) (m_place maps) ''place'')
       (no_values (m_organisation maps)))
     (write_single_u32 output_dir ''organisation_place'' ''single_edges/LOCATED_IN/organisation_place.col'' ''Organisation'' ''Place'')"

definition build_tag_tagclass :: "build_env \<Rightarrow> string \<Rightarrow> string \<Rightarrow> id_maps \<Rightarrow> (build_state, unit) st" where
  "build_tag_tagclass env static output_dir maps =
     sbind (bscan env (join_path static ''tag_0_0.csv'') (one_column (m_tag maps) (m_tag_class maps) ''hasType'')
       (no_values (m_tag maps)))
     (write_single_u32 output_dir ''tag_tagclass'' ''single_edges/HAS_TYPE/tag_tagclass.col'' ''Tag'' ''TagClass'')"

definition build_single_edges :: "build_env \<Rightarrow> string \<Rightarrow> string \<Rightarrow> id_maps \<Rightarrow> (build_state, unit) st" where
  "build_single_edges env csv_root output_dir maps =
     (let dynamic = join_path csv_root ''dynamic''; static = join_path csv_root ''static''
      in sbind (build_person_place env dynamic output_dir maps) (\<lambda>_.
         sbind (build_post_columns env dynamic output_dir maps) (\<lambda>_.
         sbind (build_comment_columns env dynamic output_dir maps) (\<lambda>_.
         sbind (build_forum_moderator env dynamic output_dir maps) (\<lambda>_.
         sbind (build_organisation_place env static output_dir maps) (\<lambda>_.
         build_tag_tagclass env static output_dir maps))))))"

definition build_multi_edges :: "build_env \<Rightarrow> string \<Rightarrow> string \<Rightarrow> id_maps \<Rightarrow> (build_state, unit) st" where
  "build_multi_edges env csv_root output_dir maps =
     (let dynamic = join_path csv_root ''dynamic'';
          person = m_person maps; post = m_post maps; comment = m_comment maps; forum = m_forum maps
      in sbind (build_bidirectional_csr env (join_path dynamic ''person_knows_person_0_0.csv'') output_dir ''KNOWS'' ''Person'' ''Person''
           (id_map_len person) (id_map_len person) person person ''Person.id'' ''Person.id'') (\<lambda>_.
         sbind (build_bidirectional_csr env (join_path dynamic ''person_likes_post_0_0.csv'') output_dir ''PERSON_LIKES_POST'' ''Person'' ''Post''
           (id_map_len person) (id_map_len post) person post ''Person.id'' ''Post.id'') (\<lambda>_.
         sbind (build_bidirectional_csr env (join_path dynamic ''person_likes_comment_0_0.csv'') output_dir ''PERSON_LIKES_COMMENT'' ''Person'' ''Comment''
           (id_map_len person) (id_map_len comment) person comment ''Person.id'' ''Comment.id'') (\<lambda>_.
         build_bidirectional_csr env (join_path dynamic ''forum_hasMember_person_0_0.csv'') output_dir ''FORUM_HAS_MEMBER'' ''Forum'' ''Person''
           (id_map_len forum) (id_map_len person) forum person ''Forum.id'' ''Person.id''))))"

subsection \<open>Derived indexes\<close>

text \<open>\<^verbatim>\<open>resolve_comment_root\<close> follows the parents without a bound: no value stands for a recursion that
  never ends. The memo is a mutable argument, hence a part of the result.\<close>

partial_function (option) resolve_comment_root ::
  "u8 list \<Rightarrow> u32 list \<Rightarrow> u32 \<Rightarrow> u32 list \<Rightarrow> (u32 \<times> u32 list) res option"
where
  "resolve_comment_root kinds ids comment memo =
     (let i = unat comment
      in if length memo \<le> i then Some (Inl Slice_out_of_range)
         else if memo ! i \<noteq> - 1 then Some (Inr (memo ! i, memo))
         else if length kinds \<le> i then Some (Inl Slice_out_of_range)
         else if kinds ! i = 0 then
           (if length ids \<le> i then Some (Inl Slice_out_of_range) else Some (Inr (ids ! i, memo[i := ids ! i])))
         else if kinds ! i = 1 then
           (if length ids \<le> i then Some (Inl Slice_out_of_range)
            else Option.bind (resolve_comment_root kinds ids (ids ! i) memo) (\<lambda>r. case r of
              Inl e \<Rightarrow> Some (Inl e)
            | Inr (root, memo) \<Rightarrow> Some (Inr (root, memo[i := root]))))
         else Some (Inr (- 1, memo[i := - 1])))"

declare resolve_comment_root.simps [code]

text \<open>The loop over all comments.\<close>

fun resolve_roots :: "u8 list \<Rightarrow> u32 list \<Rightarrow> nat list \<Rightarrow> u32 list \<Rightarrow> u32 list res option" where
  "resolve_roots kinds ids [] memo = Some (Inr memo)"
| "resolve_roots kinds ids (i # is) memo =
     Option.bind (resolve_comment_root kinds ids (of_nat i) memo) (\<lambda>r. case r of
       Inl e \<Rightarrow> Some (Inl e)
     | Inr (_, memo) \<Rightarrow> resolve_roots kinds ids is memo)"

definition derived_posts :: "build_env \<Rightarrow> string \<Rightarrow> string \<Rightarrow> id_maps \<Rightarrow> (build_state, unit) st" where
  "derived_posts env dynamic output_dir maps =
     sbind (bscan env (join_path dynamic ''post_0_0.csv'') (\<lambda>header record (person_posts, forum_posts, post_root).
         rbind (local_id (m_post maps) header record ''id'') (\<lambda>post.
         rbind (local_id (m_person maps) header record ''creator'') (\<lambda>creator.
         rbind (local_id (m_forum maps) header record ''Forum.id'') (\<lambda>forum.
         rbind (put_at post post post_root) (\<lambda>post_root.
         Inr (person_posts @ [(creator, post)], forum_posts @ [(forum, post)], post_root))))))
       ([], [], no_values (m_post maps))) (\<lambda>(person_posts, forum_posts, post_root).
     sbind (write_derived_csr env output_dir ''PERSON_CREATED_POST'' ''derived_indexes/PERSON_CREATED_POST'' ''Person'' ''Post''
       (id_map_len (m_person maps)) person_posts) (\<lambda>_.
     sbind (write_derived_csr env output_dir ''FORUM_CONTAINER_OF_POST'' ''derived_indexes/FORUM_CONTAINER_OF_POST'' ''Forum'' ''Post''
       (id_map_len (m_forum maps)) forum_posts) (\<lambda>_.
     write_derived_column output_dir ''post_root_post'' ''derived_indexes/MESSAGE_ROOT_POST/post_root_post.col'' post_root)))"

definition derived_comments :: "build_env \<Rightarrow> string \<Rightarrow> string \<Rightarrow> id_maps \<Rightarrow> (build_state, u8 list \<times> u32 list) st" where
  "derived_comments env dynamic output_dir maps =
     sbind (bscan env (join_path dynamic ''comment_0_0.csv'') (\<lambda>header record (person_comments, post_children, comment_children, parents).
         rbind (local_id (m_comment maps) header record ''id'') (\<lambda>comment.
         rbind (local_id (m_person maps) header record ''creator'') (\<lambda>creator.
         rbind (comment_parent maps header record) (\<lambda>parent.
         rbind (put_parent comment parent parents) (\<lambda>parents.
         Inr (person_comments @ [(creator, comment)],
              (case parent of Some (Post_id p) \<Rightarrow> post_children @ [(p, comment)] | _ \<Rightarrow> post_children),
              (case parent of Some (Comment_id c) \<Rightarrow> comment_children @ [(c, comment)] | _ \<Rightarrow> comment_children),
              parents))))))
       ([], [], [], no_kinds (m_comment maps), no_values (m_comment maps)))
     (\<lambda>(person_comments, post_children, comment_children, parents).
     sbind (write_derived_csr env output_dir ''PERSON_CREATED_COMMENT'' ''derived_indexes/PERSON_CREATED_COMMENT'' ''Person'' ''Comment''
       (id_map_len (m_person maps)) person_comments) (\<lambda>_.
     sbind (write_derived_csr env output_dir ''POST_CHILD_COMMENTS'' ''derived_indexes/POST_CHILD_COMMENTS'' ''Post'' ''Comment''
       (id_map_len (m_post maps)) post_children) (\<lambda>_.
     sbind (write_derived_csr env output_dir ''COMMENT_CHILD_COMMENTS'' ''derived_indexes/COMMENT_CHILD_COMMENTS'' ''Comment'' ''Comment''
       (id_map_len (m_comment maps)) comment_children) (\<lambda>_.
     sreturn parents))))"

definition build_derived_indexes ::
  "build_env \<Rightarrow> string \<Rightarrow> string \<Rightarrow> id_maps \<Rightarrow> build_state \<Rightarrow> (build_state \<times> unit res) option"
where
  "build_derived_indexes env csv_root output_dir maps b =
     (let dynamic = join_path csv_root ''dynamic''
      in case sbind (derived_posts env dynamic output_dir maps) (\<lambda>_. derived_comments env dynamic output_dir maps) b of
           (b, Inl e) \<Rightarrow> Some (b, Inl e)
         | (b, Inr (kinds, ids)) \<Rightarrow>
             Option.bind (resolve_roots kinds ids [0..<id_map_len (m_comment maps)] (no_values (m_comment maps))) (\<lambda>r.
             Some (sbind (slift r)
               (write_derived_column output_dir ''comment_root_post'' ''derived_indexes/MESSAGE_ROOT_POST/comment_root_post.col'') b)))"

subsection \<open>The build\<close>

definition build_from_snb ::
  "build_env \<Rightarrow> string \<Rightarrow> string \<Rightarrow> file_system \<Rightarrow> (build_state \<times> build_stats res) option"
where
  "build_from_snb env csv_root output_dir fs =
     (let b = \<lparr>b_fs = fs, b_catalog = catalog_new csv_root,
            b_stats = \<lparr>st_source = csv_root, st_output_dir = output_dir, st_vertex_counts = [], st_csr_edges = [],
              st_single_columns = [], st_derived_columns = []\<rparr>\<rparr>
      in case sbind (build_id_maps env csv_root output_dir) (\<lambda>maps.
            sbind (build_single_edges env csv_root output_dir maps) (\<lambda>_.
            sbind (build_multi_edges env csv_root output_dir maps) (\<lambda>_. sreturn maps))) b of
           (b, Inl e) \<Rightarrow> Some (b, Inl e)
         | (b, Inr maps) \<Rightarrow>
             map_option (\<lambda>(b, r). case r of
                 Inl e \<Rightarrow> (b, Inl e)
               | Inr _ \<Rightarrow> (b\<lparr>b_fs := catalog_save (be_render env) (join_path output_dir ''catalog.json'') (b_catalog b) (b_fs b)\<rparr>,
                           Inr (b_stats b)))
               (build_derived_indexes env csv_root output_dir maps b))"

end
