(* ===== verification/Base_Built.thy ===== *)
theory Base_Built
  imports Base_Builder
begin

section \<open>What a build writes\<close>

text \<open>
  The adjacencies of a finished build as the base graph reads them. A frame property per step, closed
  under sequencing, carries a written adjacency through the rest of the build.
\<close>

subsection \<open>The edges of a table\<close>

definition csv_edges ::
  "csv_package \<Rightarrow> file_system \<Rightarrow> string \<Rightarrow> id_map \<Rightarrow> id_map \<Rightarrow> string \<Rightarrow> string \<Rightarrow> (u32 \<times> u32) list res"
where
  "csv_edges csv fs path src_map dst_map src_col dst_col =
     (case fs path of None \<Rightarrow> Inl Not_found
      | Some bs \<Rightarrow> rbind (csv bs) (\<lambda>(header, records).
          rmap (\<lambda>record. rbind record (\<lambda>record.
            rbind (local_id src_map header record src_col) (\<lambda>src.
            rbind (local_id dst_map header record dst_col) (\<lambda>dst. Inr (src, dst))))) records))"

lemma rfold_collect:
  "rfold (\<lambda>x (os, is). rbind (f x) (\<lambda>(s, d). Inr (os @ [(s, d)], is @ [(d, s)]))) xs (os, is) =
   rbind (rmap f xs) (\<lambda>es. Inr (os @ es, is @ map prod.swap es))"
proof (induction xs arbitrary: os "is")
  case (Cons x xs)
  then show ?case by (cases "f x"; cases "rmap f xs") (auto split: prod.splits)
qed simp

lemma bidirectional_scan:
  "scan_csv csv fs path (\<lambda>header record (out_edges, in_edges).
      rbind (local_id src_map header record src_col) (\<lambda>src.
      rbind (local_id dst_map header record dst_col) (\<lambda>dst.
      Inr (out_edges @ [(src, dst)], in_edges @ [(dst, src)])))) ([], []) =
   rbind (csv_edges csv fs path src_map dst_map src_col dst_col) (\<lambda>es. Inr (es, map prod.swap es))"
proof -
  let ?edge = "\<lambda>header record. rbind record (\<lambda>record.
      rbind (local_id src_map header record src_col) (\<lambda>src.
      rbind (local_id dst_map header record dst_col) (\<lambda>dst. Inr (src, dst))))"
  let ?body = "\<lambda>header record s. rbind record (\<lambda>record. case s of (out_edges, in_edges) \<Rightarrow>
      rbind (local_id src_map header record src_col) (\<lambda>src.
      rbind (local_id dst_map header record dst_col) (\<lambda>dst.
      Inr (out_edges @ [(src, dst)], in_edges @ [(dst, src)]))))"
  have body: "?body header = (\<lambda>x (os, is). rbind (?edge header x) (\<lambda>(s, d). Inr (os @ [(s, d)], is @ [(d, s)])))" for header
    by (intro ext) (auto simp: rbind_assoc split: prod.splits)
  have run: "rfold (?body header) records ([], []) = rbind (rmap (?edge header) records) (\<lambda>es. Inr (es, map prod.swap es))"
    for header records unfolding body rfold_collect by simp
  show ?thesis
  proof (cases "fs path")
    case (Some bs)
    show ?thesis
    proof (cases "csv bs")
      case (Inr t)
      obtain header records where t: "t = (header, records)" by (cases t)
      show ?thesis using run [of header records] by (simp only: scan_csv_def csv_edges_def Some Inr t rbind.simps option.case prod.case)
    qed (simp add: scan_csv_def csv_edges_def Some)
  qed (simp add: scan_csv_def csv_edges_def)
qed

subsection \<open>The frame of a step\<close>

text \<open>\<open>keeps paths names m\<close>: the step leaves the files of \<open>paths\<close> and the adjacencies
  \<open>names\<close> of the catalog alone, and keeps the catalog an ordered map.\<close>

definition keeps :: "string set \<Rightarrow> string set \<Rightarrow> (build_state, 'a) st \<Rightarrow> bool" where
  "keeps paths names m \<longleftrightarrow> (\<forall>b. bt_inv (cat_csr_adjacencies (b_catalog b)) \<longrightarrow>
     bt_inv (cat_csr_adjacencies (b_catalog (fst (m b)))) \<and>
     (\<forall>p \<in> paths. b_fs (fst (m b)) p = b_fs b p) \<and>
     (\<forall>name \<in> names. bt_get (cat_csr_adjacencies (b_catalog (fst (m b)))) name =
        bt_get (cat_csr_adjacencies (b_catalog b)) name))"

lemma keepsD:
  assumes "keeps paths names m" "m b = (b', r)" "bt_inv (cat_csr_adjacencies (b_catalog b))"
  shows "bt_inv (cat_csr_adjacencies (b_catalog b'))"
    and "p \<in> paths \<Longrightarrow> b_fs b' p = b_fs b p"
    and "name \<in> names \<Longrightarrow> bt_get (cat_csr_adjacencies (b_catalog b')) name = bt_get (cat_csr_adjacencies (b_catalog b)) name"
  using assms unfolding keeps_def by (metis fst_conv)+

lemma keeps_sbind [intro!]:
  assumes "keeps paths names m" "\<And>x. keeps paths names (f x)"
  shows "keeps paths names (sbind m f)"
  unfolding keeps_def
proof (intro allI impI)
  fix b :: build_state
  assume inv: "bt_inv (cat_csr_adjacencies (b_catalog b))"
  obtain b1 r where m: "m b = (b1, r)" by (cases "m b")
  note first = keepsD [OF assms(1) m inv]
  show "bt_inv (cat_csr_adjacencies (b_catalog (fst (sbind m f b)))) \<and>
     (\<forall>p \<in> paths. b_fs (fst (sbind m f b)) p = b_fs b p) \<and>
     (\<forall>name \<in> names. bt_get (cat_csr_adjacencies (b_catalog (fst (sbind m f b)))) name =
        bt_get (cat_csr_adjacencies (b_catalog b)) name)"
  proof (cases r)
    case (Inl e)
    then show ?thesis using first by (simp add: sbind_def m)
  next
    case (Inr x)
    obtain b2 r2 where f: "f x b1 = (b2, r2)" by (cases "f x b1")
    note second = keepsD [OF assms(2) f first(1)]
    show ?thesis using first second by (simp add: sbind_def m Inr f)
  qed
qed

lemma keeps_pure [intro!]:
  "keeps paths names (sreturn x)" "keeps paths names (slift r)" "keeps paths names (sreads g)"
  "keeps paths names (bscan env path h s)"
  by (simp_all add: keeps_def sreturn_def slift_def sreads_def bscan_def)

lemma keeps_smap [intro!]: "(\<And>x. x \<in> set xs \<Longrightarrow> keeps paths names (f x)) \<Longrightarrow> keeps paths names (smap f xs)"
  by (induction xs) auto

lemma keeps_write_single [intro!]:
  "join_path output_dir rel \<notin> paths \<Longrightarrow> keeps paths names (write_single_u32 output_dir name rel src_label dst_label vs)"
  by (auto simp: keeps_def write_single_u32_def supdate_def write_u32_column_def)

lemma keeps_write_derived [intro!]:
  "join_path output_dir rel \<notin> paths \<Longrightarrow> keeps paths names (write_derived_column output_dir name rel vs)"
  by (auto simp: keeps_def write_derived_column_def supdate_def write_u32_column_def)

lemma keeps_write_id_map [intro!]:
  "join_path output_dir (''vertices/'' @ label_str label @ ''/ext_id_to_local.idx'') \<notin> paths \<Longrightarrow>
   keeps paths names (write_id_map output_dir label m)"
  by (auto simp: keeps_def write_id_map_def Let_def supdate_def write_ext_id_map_def)

lemma keeps_write_parent_kinds [intro!]:
  "join_path output_dir ''single_edges/REPLY_OF/comment_parent_kind.col'' \<notin> paths \<Longrightarrow>
   keeps paths names (write_parent_kinds output_dir kinds)"
  by (auto simp: keeps_def write_parent_kinds_def supdate_def write_u8_column_def)

definition entry_written :: "string \<Rightarrow> string \<Rightarrow> string \<Rightarrow> string \<Rightarrow> nat \<Rightarrow> nat \<Rightarrow> csr_catalog_entry" where
  "entry_written name rel src_label dst_label num_src num_edges =
     \<lparr>ce_name = name, ce_path = rel, ce_src_label = src_label, ce_dst_label = dst_label,
      ce_num_src_vertices = of_nat num_src, ce_num_edges = of_nat num_edges, ce_offset_type = ''u64'',
      ce_neighbor_type = ''u32'', ce_sort_order = ''dst_id'', ce_prop_access = ''none'', ce_props = [],
      ce_neighbor_block_bytes = 256 * 1024, ce_file_alignment = 4096\<rparr>"

lemma write_csr_entry_eq:
  "write_csr_entry env output_dir name rel src_label dst_label num_src edges b =
     (b\<lparr>b_fs := (b_fs b)(join_path (join_path output_dir rel) ''offsets.bin'' \<mapsto> concat (map u64_le (add_up (count_sources num_src (sort edges)))),
         join_path (join_path output_dir rel) ''neighbors.bin'' \<mapsto> concat (map u32_le (map snd (sort edges))),
         join_path (join_path output_dir rel) ''meta.json'' \<mapsto> be_meta env num_src (length edges) (sort_order_str DstId)),
        b_catalog := (b_catalog b)\<lparr>cat_csr_adjacencies := bt_insert name
          (entry_written name rel src_label dst_label num_src (length edges)) (cat_csr_adjacencies (b_catalog b))\<rparr>,
        b_stats := (b_stats b)\<lparr>st_csr_edges := bt_insert name (of_nat (length edges)) (st_csr_edges (b_stats b))\<rparr>\<rparr>, Inr ())"
proof -
  have k: "snd (write_csr (be_meta env) (join_path output_dir rel) num_src edges DstId (b_fs b)) = of_nat (length edges)"
    by (simp add: write_csr_def Let_def)
  show ?thesis
    by (simp add: write_csr_entry_def supdate_def split_def Let_def write_csr_files k entry_written_def)
qed

lemma keeps_write_csr_entry [intro!]:
  assumes "join_path (join_path output_dir rel) ''offsets.bin'' \<notin> paths" "join_path (join_path output_dir rel) ''neighbors.bin'' \<notin> paths"
    "join_path (join_path output_dir rel) ''meta.json'' \<notin> paths" "name \<notin> names"
  shows "keeps paths names (write_csr_entry env output_dir name rel src_label dst_label num_src edges)"
  unfolding keeps_def
proof (intro allI impI)
  fix b :: build_state
  assume inv: "bt_inv (cat_csr_adjacencies (b_catalog b))"
  have ne: "\<forall>n \<in> names. n \<noteq> name" "\<forall>p \<in> paths. p \<noteq> join_path (join_path output_dir rel) ''offsets.bin'' \<and>
      p \<noteq> join_path (join_path output_dir rel) ''neighbors.bin'' \<and> p \<noteq> join_path (join_path output_dir rel) ''meta.json''"
    using assms by blast+
  show "bt_inv (cat_csr_adjacencies (b_catalog (fst (write_csr_entry env output_dir name rel src_label dst_label num_src edges b)))) \<and>
     (\<forall>p \<in> paths. b_fs (fst (write_csr_entry env output_dir name rel src_label dst_label num_src edges b)) p = b_fs b p) \<and>
     (\<forall>nm \<in> names. bt_get (cat_csr_adjacencies (b_catalog (fst (write_csr_entry env output_dir name rel src_label dst_label num_src edges b)))) nm =
        bt_get (cat_csr_adjacencies (b_catalog b)) nm)"
    unfolding write_csr_entry_eq using inv ne by (simp add: bt.inv_ins bt.get_ins)
qed

text \<open>The friendship adjacency, and what the other steps of a build write.\<close>

definition knows_out_files :: "string \<Rightarrow> string set" where
  "knows_out_files output_dir =
     (\<lambda>f. join_path (join_path output_dir ''edges/KNOWS/OUT'') f) ` {''offsets.bin'', ''neighbors.bin''}"

lemma keeps_knows_out:
  "keeps (knows_out_files output_dir) {''KNOWS/OUT''} (derived_posts env dynamic output_dir maps)"
  "keeps (knows_out_files output_dir) {''KNOWS/OUT''} (derived_comments env dynamic output_dir maps)"
  "keeps (knows_out_files output_dir) {''KNOWS/OUT''}
     (write_derived_column output_dir ''comment_root_post'' ''derived_indexes/MESSAGE_ROOT_POST/comment_root_post.col'' memo)"
  unfolding derived_posts_def derived_comments_def write_derived_csr_def
  by (auto simp: knows_out_files_def join_path_def split: prod.splits)

lemma keeps_knows_out_other:
  assumes "name \<in> {''PERSON_LIKES_POST'', ''PERSON_LIKES_COMMENT'', ''FORUM_HAS_MEMBER''}"
  shows "keeps (knows_out_files output_dir) {''KNOWS/OUT''}
     (build_bidirectional_csr env csv_path output_dir name src_label dst_label num_src num_dst src_map dst_map src_col dst_col)"
  using assms unfolding build_bidirectional_csr_def
  by (auto simp: knows_out_files_def join_path_def split: prod.splits)

lemma keeps_names:
  "keeps {} {} (build_id_maps env csv_root output_dir)"
  "keeps {} {} (build_single_edges env csv_root output_dir maps)"
  unfolding build_id_maps_def build_single_edges_def Let_def load_id_map_def build_person_place_def build_post_columns_def
    build_comment_columns_def build_forum_moderator_def build_organisation_place_def build_tag_tagclass_def
  by (auto split: prod.splits)

subsection \<open>Both adjacencies of a table\<close>

definition csr_files :: "string \<Rightarrow> string \<Rightarrow> nat \<Rightarrow> (u32 \<times> u32) list \<Rightarrow> build_state \<Rightarrow> bool" where
  "csr_files output_dir name n es b \<longleftrightarrow>
     (\<exists>entry. bt_get (cat_csr_adjacencies (b_catalog b)) name = Some entry \<and> ce_path entry = ''edges/'' @ name \<and>
        b_fs b (join_path (join_path output_dir (ce_path entry)) ''offsets.bin'') =
          Some (concat (map u64_le (add_up (count_sources n (sort es))))) \<and>
        b_fs b (join_path (join_path output_dir (ce_path entry)) ''neighbors.bin'') =
          Some (concat (map u32_le (map snd (sort es)))))"

lemma bidirectional_written:
  assumes "build_bidirectional_csr env csv_path output_dir name src_label dst_label num_src num_dst src_map dst_map src_col dst_col b =
      (b', Inr ())"
    and inv: "bt_inv (cat_csr_adjacencies (b_catalog b))"
  shows "\<exists>es. csv_edges (be_csv env) (b_fs b) csv_path src_map dst_map src_col dst_col = Inr es \<and>
    csr_files output_dir (name @ ''/OUT'') num_src es b' \<and>
    csr_files output_dir (name @ ''/IN'') num_dst (map prod.swap es) b' \<and>
    bt_inv (cat_csr_adjacencies (b_catalog b'))"
proof -
  obtain es where es: "csv_edges (be_csv env) (b_fs b) csv_path src_map dst_map src_col dst_col = Inr es"
    using assms(1) unfolding build_bidirectional_csr_def bscan_def bidirectional_scan
    by (auto simp: sbind_def sreads_def split: sum.splits prod.splits)
       (cases "csv_edges (be_csv env) (b_fs b) csv_path src_map dst_map src_col dst_col"; auto)
  have b': "b' = fst (write_csr_entry env output_dir (name @ ''/IN'') (''edges/'' @ name @ ''/IN'') dst_label src_label num_dst (map prod.swap es)
      (fst (write_csr_entry env output_dir (name @ ''/OUT'') (''edges/'' @ name @ ''/OUT'') src_label dst_label num_src es b)))"
    using assms(1) unfolding build_bidirectional_csr_def bscan_def bidirectional_scan
    by (simp add: sbind_def sreads_def es write_csr_entry_eq)
  have "csr_files output_dir (name @ ''/OUT'') num_src es b'" "csr_files output_dir (name @ ''/IN'') num_dst (map prod.swap es) b'"
    using inv unfolding csr_files_def b' write_csr_entry_eq
    by (simp_all add: bt.get_ins bt.inv_ins entry_written_def join_path_def)
  moreover have "bt_inv (cat_csr_adjacencies (b_catalog b'))"
    unfolding b' write_csr_entry_eq using inv by (simp add: bt.inv_ins)
  ultimately show ?thesis using es by blast
qed

text \<open>A written adjacency is what the opened graph scans.\<close>

definition graph_row :: "base_graph \<Rightarrow> string \<Rightarrow> u32 \<Rightarrow> file_system \<Rightarrow> read_context \<Rightarrow> u32 list res" where
  "graph_row g name src fs ctx =
     rbind (scan_csr g name src (\<lambda>chunk out. Inr (out @ chunk)) fs ctx []) (\<lambda>(ctx, row). Inr row)"

lemma base_openD:
  assumes "base_open parse output_dir config fs = Inr g"
    and "fs (join_path output_dir ''catalog.json'') = Some bs" "parse bs = Inr catalog"
  shows "open_csrs output_dir catalog fs = Inr (bg_csr g)" "open_columns output_dir catalog fs = Inr (bg_single_u32 g)"
    "bg_catalog g = catalog" "bg_base_dir g = output_dir"
  using assms by (auto simp: base_open_def Let_def catalog_load_def rbind_Inr_iff)

lemma graph_row_written:
  assumes g: "base_open parse output_dir config (b_fs b) = Inr g"
    and cat: "b_fs b (join_path output_dir ''catalog.json'') = Some bs" "parse bs = Inr (b_catalog b)"
    and inv: "bt_inv (cat_csr_adjacencies (b_catalog b))"
    and files: "csr_files output_dir name n es b" and len: "length es < 2 ^ 64"
  shows "graph_row g name src (b_fs b) ctx = Inr (if unat src < n then sort (map snd (filter (\<lambda>e. fst e = src) es)) else [])"
proof -
  obtain entry where entry: "bt_get (cat_csr_adjacencies (b_catalog b)) name = Some entry" 
    "b_fs b (join_path (join_path output_dir (ce_path entry)) ''offsets.bin'') =
          Some (concat (map u64_le (add_up (count_sources n (sort es)))))"
    "b_fs b (join_path (join_path output_dir (ce_path entry)) ''neighbors.bin'') =
          Some (concat (map u32_le (map snd (sort es))))"
    using files unfolding csr_files_def by blast
  obtain c where c: "csr_open output_dir entry (b_fs b) = Inr c"
    and row: "\<forall>src ctx. \<exists>ctx'. csr_neighbors_vec c src (b_fs b) ctx =
      Inr (ctx', if unat src < n then sort (map snd (filter (\<lambda>e. fst e = src) es)) else [])"
    using csr_written [OF len entry(2,3)] by blast
  have "bt_get (bg_csr g) name = Some c"
    using open_csrs_get [OF base_openD(1) [OF g cat, unfolded open_csrs_def] bt_inv_Nil bt_inv_distinct [OF inv], of name]
      entry(1) c by (simp add: bt_get_def)
  then have "scan_csr g name src (\<lambda>chunk out. Inr (out @ chunk)) (b_fs b) ctx [] = csr_neighbors_vec c src (b_fs b) ctx"
    by (simp add: scan_csr_def csr_neighbors_vec_def)
  moreover obtain ctx' where "csr_neighbors_vec c src (b_fs b) ctx =
      Inr (ctx', if unat src < n then sort (map snd (filter (\<lambda>e. fst e = src) es)) else [])"
    using row by blast
  ultimately show ?thesis by (simp add: graph_row_def)
qed

subsection \<open>The friendship adjacency of a finished build\<close>

lemma csr_files_kept:
  assumes "csr_files output_dir name n es b" "keeps paths names m" "m b = (b', r)"
    and "bt_inv (cat_csr_adjacencies (b_catalog b))" "name \<in> names"
    and "(\<lambda>f. join_path (join_path output_dir (''edges/'' @ name)) f) ` {''offsets.bin'', ''neighbors.bin''} \<subseteq> paths"
  shows "csr_files output_dir name n es b'"
proof -
  note kept = keepsD [OF assms(2,3,4)]
  obtain entry where entry: "bt_get (cat_csr_adjacencies (b_catalog b)) name = Some entry" "ce_path entry = ''edges/'' @ name"
    "b_fs b (join_path (join_path output_dir (ce_path entry)) ''offsets.bin'') =
          Some (concat (map u64_le (add_up (count_sources n (sort es)))))"
    "b_fs b (join_path (join_path output_dir (ce_path entry)) ''neighbors.bin'') =
          Some (concat (map u32_le (map snd (sort es))))"
    using assms(1) unfolding csr_files_def by blast
  have "join_path (join_path output_dir (ce_path entry)) ''offsets.bin'' \<in> paths"
    "join_path (join_path output_dir (ce_path entry)) ''neighbors.bin'' \<in> paths"
    using assms(6) entry(2) by simp_all
  then show ?thesis using entry kept(2) kept(3) [OF assms(5)] unfolding csr_files_def by auto
qed

definition build_start :: "string \<Rightarrow> string \<Rightarrow> file_system \<Rightarrow> build_state" where
  "build_start csv_root output_dir fs = \<lparr>b_fs = fs, b_catalog = catalog_new csv_root,
     b_stats = \<lparr>st_source = csv_root, st_output_dir = output_dir, st_vertex_counts = [], st_csr_edges = [],
       st_single_columns = [], st_derived_columns = []\<rparr>\<rparr>"

text \<open>The stages of a build that succeeds.\<close>

lemma build_from_snbE:
  assumes build: "build_from_snb env csv_root output_dir fs = Some (b, Inr stats)"
  obtains b1 b2 b3 b4 d1 maps kinds ids z where
    "build_id_maps env csv_root output_dir (build_start csv_root output_dir fs) = (b1, Inr maps)"
    "build_single_edges env csv_root output_dir maps b1 = (b2, Inr ())"
    "build_multi_edges env csv_root output_dir maps b2 = (b3, Inr ())"
    "sbind (derived_posts env (join_path csv_root ''dynamic'') output_dir maps)
      (\<lambda>_. derived_comments env (join_path csv_root ''dynamic'') output_dir maps) b3 = (d1, Inr (kinds, ids))"
    "sbind (slift z) (write_derived_column output_dir ''comment_root_post'' ''derived_indexes/MESSAGE_ROOT_POST/comment_root_post.col'') d1 = (b4, Inr ())"
    "b = b4\<lparr>b_fs := (b_fs b4)(join_path output_dir ''catalog.json'' \<mapsto> be_render env (b_catalog b4))\<rparr>"
proof -
  obtain b3 maps b4 where main: "sbind (build_id_maps env csv_root output_dir) (\<lambda>maps.
            sbind (build_single_edges env csv_root output_dir maps) (\<lambda>_.
            sbind (build_multi_edges env csv_root output_dir maps) (\<lambda>_. sreturn maps))) (build_start csv_root output_dir fs) = (b3, Inr maps)"
    and derived: "build_derived_indexes env csv_root output_dir maps b3 = Some (b4, Inr ())"
    and b: "b = b4\<lparr>b_fs := catalog_save (be_render env) (join_path output_dir ''catalog.json'') (b_catalog b4) (b_fs b4)\<rparr>"
    using build unfolding build_from_snb_def Let_def build_start_def [symmetric]
    by (auto split: prod.splits sum.splits) (metis (full_types) old.unit.exhaust sum.exhaust)
  obtain b1 b2 where b1: "build_id_maps env csv_root output_dir (build_start csv_root output_dir fs) = (b1, Inr maps)"
    and b2: "build_single_edges env csv_root output_dir maps b1 = (b2, Inr ())"
    and b3: "build_multi_edges env csv_root output_dir maps b2 = (b3, Inr ())"
    using main by (auto simp: sbind_Inr_iff sreturn_def)
  obtain d1 kinds ids z where "sbind (derived_posts env (join_path csv_root ''dynamic'') output_dir maps)
      (\<lambda>_. derived_comments env (join_path csv_root ''dynamic'') output_dir maps) b3 = (d1, Inr (kinds, ids))"
    "sbind (slift z) (write_derived_column output_dir ''comment_root_post'' ''derived_indexes/MESSAGE_ROOT_POST/comment_root_post.col'') d1 = (b4, Inr ())"
    using derived unfolding build_derived_indexes_def Let_def
    by (auto simp: bind_eq_Some_conv split: prod.splits sum.splits)
  then show thesis using that b1 b2 b3 b by (simp add: catalog_save_def)
qed

lemma build_from_snb_knows:
  assumes build: "build_from_snb env csv_root output_dir fs = Some (b, Inr stats)"
  shows "\<exists>(maps :: id_maps) es fs'. csv_edges (be_csv env) fs' (join_path (join_path csv_root ''dynamic'') ''person_knows_person_0_0.csv'')
      (m_person maps) (m_person maps) ''Person.id'' ''Person.id'' = Inr es \<and>
    csr_files output_dir ''KNOWS/OUT'' (id_map_len (m_person maps)) es b \<and>
    bt_inv (cat_csr_adjacencies (b_catalog b)) \<and>
    b_fs b (join_path output_dir ''catalog.json'') = Some (be_render env (b_catalog b))"
proof -
  let ?inv = "\<lambda>b. bt_inv (cat_csr_adjacencies (b_catalog b))" and ?K = "knows_out_files output_dir"
  let ?files = "csr_files output_dir ''KNOWS/OUT''"
  have inv0: "?inv (build_start csv_root output_dir fs)" by (simp add: build_start_def catalog_new_def)
  from build obtain b1 b2 b3 b4 d1 maps kinds ids z where
    b1: "build_id_maps env csv_root output_dir (build_start csv_root output_dir fs) = (b1, Inr maps)" and
    b2: "build_single_edges env csv_root output_dir maps b1 = (b2, Inr ())" and
    b3: "build_multi_edges env csv_root output_dir maps b2 = (b3, Inr ())" and
    d1: "sbind (derived_posts env (join_path csv_root ''dynamic'') output_dir maps)
      (\<lambda>_. derived_comments env (join_path csv_root ''dynamic'') output_dir maps) b3 = (d1, Inr (kinds, ids))" and
    z: "sbind (slift z) (write_derived_column output_dir ''comment_root_post'' ''derived_indexes/MESSAGE_ROOT_POST/comment_root_post.col'') d1 = (b4, Inr ())" and
    b: "b = b4\<lparr>b_fs := (b_fs b4)(join_path output_dir ''catalog.json'' \<mapsto> be_render env (b_catalog b4))\<rparr>"
    by (rule build_from_snbE)
  have inv2: "?inv b2"
    by (rule keepsD(1) [OF keeps_names(2) b2 keepsD(1) [OF keeps_names(1) b1 inv0]])
  obtain c1 c2 c3 where c1: "build_bidirectional_csr env (join_path (join_path csv_root ''dynamic'') ''person_knows_person_0_0.csv'') output_dir ''KNOWS'' ''Person'' ''Person''
           (id_map_len (m_person maps)) (id_map_len (m_person maps)) (m_person maps) (m_person maps) ''Person.id'' ''Person.id'' b2 = (c1, Inr ())"
    and c2: "build_bidirectional_csr env (join_path (join_path csv_root ''dynamic'') ''person_likes_post_0_0.csv'') output_dir ''PERSON_LIKES_POST'' ''Person'' ''Post''
           (id_map_len (m_person maps)) (id_map_len (m_post maps)) (m_person maps) (m_post maps) ''Person.id'' ''Post.id'' c1 = (c2, Inr ())"
    and c3: "build_bidirectional_csr env (join_path (join_path csv_root ''dynamic'') ''person_likes_comment_0_0.csv'') output_dir ''PERSON_LIKES_COMMENT'' ''Person'' ''Comment''
           (id_map_len (m_person maps)) (id_map_len (m_comment maps)) (m_person maps) (m_comment maps) ''Person.id'' ''Comment.id'' c2 = (c3, Inr ())"
    and c4: "build_bidirectional_csr env (join_path (join_path csv_root ''dynamic'') ''forum_hasMember_person_0_0.csv'') output_dir ''FORUM_HAS_MEMBER'' ''Forum'' ''Person''
           (id_map_len (m_forum maps)) (id_map_len (m_person maps)) (m_forum maps) (m_person maps) ''Forum.id'' ''Person.id'' c3 = (b3, Inr ())"
    using b3 by (auto simp: build_multi_edges_def Let_def sbind_Inr_iff)
  obtain es where es: "csv_edges (be_csv env) (b_fs b2) (join_path (join_path csv_root ''dynamic'') ''person_knows_person_0_0.csv'')
      (m_person maps) (m_person maps) ''Person.id'' ''Person.id'' = Inr es"
    and f1: "?files (id_map_len (m_person maps)) es c1" and inv_c1: "?inv c1"
    using bidirectional_written [OF c1 inv2] by auto
  have step: "?files n es y \<and> ?inv y" if "?files n es x \<and> ?inv x" "m x = (y, r)" "keeps ?K {''KNOWS/OUT''} m"
    for x y r n and m :: "(build_state, 'z) st"
    using that csr_files_kept [of output_dir _ n es x ?K "{''KNOWS/OUT''}" m y r] keepsD(1) [of ?K "{''KNOWS/OUT''}" m x y r]
    by (auto simp: knows_out_files_def)
  have s2: "?files (id_map_len (m_person maps)) es c2 \<and> ?inv c2"
    by (rule step [OF _ c2 keeps_knows_out_other]) (use f1 inv_c1 in simp_all)
  have s3: "?files (id_map_len (m_person maps)) es c3 \<and> ?inv c3"
    by (rule step [OF s2 c3 keeps_knows_out_other]) simp
  have s4: "?files (id_map_len (m_person maps)) es b3 \<and> ?inv b3"
    by (rule step [OF s3 c4 keeps_knows_out_other]) simp
  have k5: "keeps ?K {''KNOWS/OUT''} (sbind (derived_posts env (join_path csv_root ''dynamic'') output_dir maps)
      (\<lambda>_. derived_comments env (join_path csv_root ''dynamic'') output_dir maps))"
    by (intro keeps_sbind keeps_knows_out)
  have k6: "keeps ?K {''KNOWS/OUT''} (sbind (slift z) (write_derived_column output_dir ''comment_root_post''
      ''derived_indexes/MESSAGE_ROOT_POST/comment_root_post.col''))"
    by (intro keeps_sbind keeps_pure keeps_knows_out)
  have s5: "?files (id_map_len (m_person maps)) es d1 \<and> ?inv d1" by (rule step [OF s4 _ k5]) (rule d1)
  have s6: "?files (id_map_len (m_person maps)) es b4 \<and> ?inv b4" by (rule step [OF s5 _ k6]) (rule z)
  have "?files (id_map_len (m_person maps)) es b"
    using s6 by (auto simp: b csr_files_def join_path_def)
  moreover have "?inv b" "b_fs b (join_path output_dir ''catalog.json'') = Some (be_render env (b_catalog b))"
    using s6 by (simp_all add: b)
  ultimately show ?thesis using es by blast
qed

lemma csv_edges_same_column:
  assumes "csv_edges csv fs path m m col col = Inr es"
  shows "\<forall>e \<in> set es. fst e = snd e"
proof -
  obtain header records where "rmap (\<lambda>record. rbind record (\<lambda>record.
        rbind (local_id m header record col) (\<lambda>src. rbind (local_id m header record col) (\<lambda>dst. Inr (src, dst))))) records = Inr es"
    using assms by (auto simp: csv_edges_def rbind_Inr_iff split: option.splits)
  from rmap_Inr_all [OF this] show ?thesis
    by (auto simp: in_set_conv_nth rbind_Inr_iff) (metis Inr_inject prod.inject)
qed

lemma csv_edges_length:
  assumes "csv_edges csv fs path m m' col col' = Inr es"
    and "\<And>bs header records. csv bs = Inr (header, records) \<Longrightarrow> length records < 2 ^ 64"
  shows "length es < 2 ^ 64"
proof -
  obtain bs header records where t: "csv bs = Inr (header, records)" and "rmap (\<lambda>record. rbind record (\<lambda>record.
        rbind (local_id m header record col) (\<lambda>src. rbind (local_id m' header record col') (\<lambda>dst. Inr (src, dst))))) records = Inr es"
    using assms(1) by (auto simp: csv_edges_def rbind_Inr_iff split: option.splits)
  from rmap_Inr_all [OF this(2)] assms(2) [OF t] show ?thesis by simp
qed

subsection \<open>A finished build opens\<close>

definition preserves :: "(build_state \<Rightarrow> bool) \<Rightarrow> (build_state, 'a) st \<Rightarrow> bool" where
  "preserves P m \<longleftrightarrow> (\<forall>b. P b \<longrightarrow> P (fst (m b)))"

lemma preservesD: "preserves P m \<Longrightarrow> m b = (b', r) \<Longrightarrow> P b \<Longrightarrow> P b'"
  unfolding preserves_def by (metis fst_conv)

lemma preserves_sbind [intro!]:
  "preserves P m \<Longrightarrow> (\<And>x. preserves P (f x)) \<Longrightarrow> preserves P (sbind m f)"
  unfolding preserves_def sbind_def by (metis (mono_tags, lifting) case_prod_beta fst_conv old.sum.simps(5,6) obj_sumE)

lemma preserves_pure [intro!]:
  "preserves P (sreturn x)" "preserves P (slift r)" "preserves P (sreads g)" "preserves P (bscan env path h s)"
  by (simp_all add: preserves_def sreturn_def slift_def sreads_def bscan_def)

lemma preserves_smap [intro!]: "(\<And>x. x \<in> set xs \<Longrightarrow> preserves P (f x)) \<Longrightarrow> preserves P (smap f xs)"
  by (induction xs) auto

definition openable :: "string \<Rightarrow> build_state \<Rightarrow> bool" where
  "openable output_dir b \<longleftrightarrow> catalog_inv (b_catalog b) \<and>
     (\<forall>(n, e) \<in> set (cat_csr_adjacencies (b_catalog b)).
        \<exists>offs. b_fs b (join_path (join_path output_dir (ce_path e)) ''offsets.bin'') = Some (concat (map u64_le offs))) \<and>
     (\<forall>(n, e) \<in> set (cat_single_columns (b_catalog b)).
        se_value_type e = ''u32'' \<and> se_file e \<noteq> [] \<and> last (se_file e) = CHR ''l'' \<and>
        se_file e \<noteq> ''single_edges/REPLY_OF/comment_parent_kind.col'' \<and>
        (\<exists>vs. b_fs b (join_path output_dir (se_file e)) = Some (concat (map u32_le vs))))"

lemma set_bt_insert_subset: "set (bt_insert k v m) \<subseteq> insert (k, v) (set m)"
  by (induction k v m rule: bt_insert.induct) auto

lemma join_path_last: "rel \<noteq> [] \<Longrightarrow> last (join_path dir rel) = last rel"
  by (simp add: join_path_def)

lemma join_path_inj: "join_path dir a = join_path dir b \<longleftrightarrow> a = b"
  by (simp add: join_path_def)

lemma join_path_neq: "a \<noteq> [] \<Longrightarrow> b \<noteq> [] \<Longrightarrow> last a \<noteq> last b \<Longrightarrow> join_path dir a \<noteq> join_path dir' b"
  by (metis join_path_last)

text \<open>A write that changes no entry: the file is neither an offset file nor, unless it is written as a
  column, a column of the catalog.\<close>

lemma openable_write_file:
  assumes "openable output_dir b" and fs: "b_fs b' = (b_fs b)(p \<mapsto> c)"
    and cats: "cat_csr_adjacencies (b_catalog b') = cat_csr_adjacencies (b_catalog b)"
      "cat_single_columns (b_catalog b') = cat_single_columns (b_catalog b)" "catalog_inv (b_catalog b')"
    and off: "\<And>d. join_path (join_path output_dir d) ''offsets.bin'' \<noteq> p"
    and col: "\<And>rel. rel \<noteq> [] \<Longrightarrow> last rel = CHR ''l'' \<Longrightarrow> rel \<noteq> ''single_edges/REPLY_OF/comment_parent_kind.col'' \<Longrightarrow>
      join_path output_dir rel = p \<Longrightarrow> \<exists>vs. c = concat (map u32_le vs)"
  shows "openable output_dir b'"
proof -
  have csrs: "\<forall>(n, e) \<in> set (cat_csr_adjacencies (b_catalog b')).
        \<exists>offs. b_fs b' (join_path (join_path output_dir (ce_path e)) ''offsets.bin'') = Some (concat (map u64_le offs))"
    using assms(1) by (simp add: openable_def fs cats off)
  have "se_value_type e = ''u32'' \<and> se_file e \<noteq> [] \<and> last (se_file e) = CHR ''l'' \<and>
        se_file e \<noteq> ''single_edges/REPLY_OF/comment_parent_kind.col'' \<and>
        (\<exists>vs. b_fs b' (join_path output_dir (se_file e)) = Some (concat (map u32_le vs)))"
    if "(n, e) \<in> set (cat_single_columns (b_catalog b))" for n e
  proof -
    have e: "se_value_type e = ''u32''" "se_file e \<noteq> []" "last (se_file e) = CHR ''l''"
        "se_file e \<noteq> ''single_edges/REPLY_OF/comment_parent_kind.col''"
        "\<exists>vs. b_fs b (join_path output_dir (se_file e)) = Some (concat (map u32_le vs))"
      using assms(1) that unfolding openable_def by blast+
    then show ?thesis using col [OF e(2,3,4)] by (cases "join_path output_dir (se_file e) = p") (auto simp: fs)
  qed
  then have "\<forall>(n, e) \<in> set (cat_single_columns (b_catalog b')).
        se_value_type e = ''u32'' \<and> se_file e \<noteq> [] \<and> last (se_file e) = CHR ''l'' \<and>
        se_file e \<noteq> ''single_edges/REPLY_OF/comment_parent_kind.col'' \<and>
        (\<exists>vs. b_fs b' (join_path output_dir (se_file e)) = Some (concat (map u32_le vs)))"
    unfolding cats by blast
  then show ?thesis unfolding openable_def using csrs cats(3) by blast
qed

lemma preserves_write_single [intro!]:
  assumes "rel \<noteq> []" "last rel = CHR ''l''" "rel \<noteq> ''single_edges/REPLY_OF/comment_parent_kind.col''"
  shows "preserves (openable output_dir) (write_single_u32 output_dir name rel src_label dst_label vs)"
  unfolding preserves_def
proof (intro allI impI)
  fix b :: build_state
  assume b: "openable output_dir b"
  let ?b' = "fst (write_single_u32 output_dir name rel src_label dst_label vs b)"
  let ?e = "\<lparr>se_name = name, se_file = rel, se_src_label = src_label, se_dst_label = dst_label,
          se_rows = of_nat (length vs), se_value_type = ''u32''\<rparr>"
  have fs: "b_fs ?b' = (b_fs b)(join_path output_dir rel \<mapsto> concat (map u32_le vs))"
    and cat: "b_catalog ?b' = (b_catalog b)\<lparr>cat_single_columns := bt_insert name ?e (cat_single_columns (b_catalog b))\<rparr>"
    by (simp_all add: write_single_u32_def supdate_def write_u32_column_def)
  have off: "join_path (join_path output_dir d) ''offsets.bin'' \<noteq> join_path output_dir rel" for d
    using assms by (intro join_path_neq) simp_all
  have cols: "\<forall>(n, e) \<in> set (cat_single_columns (b_catalog ?b')).
        se_value_type e = ''u32'' \<and> se_file e \<noteq> [] \<and> last (se_file e) = CHR ''l'' \<and>
        se_file e \<noteq> ''single_edges/REPLY_OF/comment_parent_kind.col'' \<and>
        (\<exists>vs. b_fs ?b' (join_path output_dir (se_file e)) = Some (concat (map u32_le vs)))"
  proof (intro ballI, clarify)
    fix n e assume "(n, e) \<in> set (cat_single_columns (b_catalog ?b'))"
    then have "(n, e) = (name, ?e) \<or> (n, e) \<in> set (cat_single_columns (b_catalog b))"
      using set_bt_insert_subset [of name ?e "cat_single_columns (b_catalog b)"] by (auto simp: cat)
    then show "se_value_type e = ''u32'' \<and> se_file e \<noteq> [] \<and> last (se_file e) = CHR ''l'' \<and>
        se_file e \<noteq> ''single_edges/REPLY_OF/comment_parent_kind.col'' \<and>
        (\<exists>vs. b_fs ?b' (join_path output_dir (se_file e)) = Some (concat (map u32_le vs)))"
    proof
      assume "(n, e) = (name, ?e)"
      then show ?thesis using assms by (auto simp: fs)
    next
      assume "(n, e) \<in> set (cat_single_columns (b_catalog b))"
      then show ?thesis using b by (fastforce simp: openable_def fs)
    qed
  qed
  have inv: "catalog_inv (b_catalog ?b')" using b by (simp add: openable_def catalog_inv_def cat bt.inv_ins)
  have csrs: "\<forall>(n, e) \<in> set (cat_csr_adjacencies (b_catalog ?b')).
        \<exists>offs. b_fs ?b' (join_path (join_path output_dir (ce_path e)) ''offsets.bin'') = Some (concat (map u64_le offs))"
    using b by (simp add: openable_def fs cat off)
  show "openable output_dir ?b'" unfolding openable_def using inv csrs cols by blast
qed

lemma openable_catalog_inv: "openable output_dir b \<Longrightarrow> catalog_inv (b_catalog b)"
  by (simp add: openable_def)

lemma preserves_write_derived [intro!]:
  assumes "rel \<noteq> []" "last rel = CHR ''l''"
  shows "preserves (openable output_dir) (write_derived_column output_dir name rel vs)"
  unfolding preserves_def
proof (intro allI impI)
  fix b :: build_state
  assume b: "openable output_dir b"
  show "openable output_dir (fst (write_derived_column output_dir name rel vs b))"
  proof (rule openable_write_file [OF b, where p = "join_path output_dir rel" and c = "concat (map u32_le vs)"])
    show "join_path (join_path output_dir d) ''offsets.bin'' \<noteq> join_path output_dir rel" for d
      using assms by (intro join_path_neq) simp_all
  qed (use openable_catalog_inv [OF b] in \<open>auto simp: write_derived_column_def supdate_def write_u32_column_def
      catalog_inv_def bt.inv_ins\<close>)
qed

lemma preserves_write_id_map [intro!]: "preserves (openable output_dir) (write_id_map output_dir label m)"
  unfolding preserves_def
proof (intro allI impI)
  fix b :: build_state
  assume b: "openable output_dir b"
  let ?rel = "''vertices/'' @ label_str label @ ''/ext_id_to_local.idx''"
  show "openable output_dir (fst (write_id_map output_dir label m b))"
  proof (rule openable_write_file [OF b, where p = "join_path output_dir ?rel"
      and c = "concat (map (\<lambda>(external, local). u64_le (of_int external) @ u32_le local) (im_ordered_pairs m))"])
    show "join_path (join_path output_dir d) ''offsets.bin'' \<noteq> join_path output_dir ?rel" for d
      by (intro join_path_neq) simp_all
    show "\<exists>vs. concat (map (\<lambda>(external, local). u64_le (of_int external) @ u32_le local) (im_ordered_pairs m)) = concat (map u32_le vs)"
      if "rel \<noteq> []" "last rel = CHR ''l''" "join_path output_dir rel = join_path output_dir ?rel" for rel
      using that by (auto simp: join_path_inj)
  qed (use openable_catalog_inv [OF b] in \<open>auto simp: write_id_map_def Let_def supdate_def write_ext_id_map_def
      catalog_inv_def bt.inv_ins\<close>)
qed

lemma preserves_write_parent_kinds [intro!]: "preserves (openable output_dir) (write_parent_kinds output_dir kinds)"
  unfolding preserves_def
proof (intro allI impI)
  fix b :: build_state
  assume b: "openable output_dir b"
  let ?rel = "''single_edges/REPLY_OF/comment_parent_kind.col''"
  show "openable output_dir (fst (write_parent_kinds output_dir kinds b))"
  proof (rule openable_write_file [OF b, where p = "join_path output_dir ?rel" and c = kinds])
    show "join_path (join_path output_dir d) ''offsets.bin'' \<noteq> join_path output_dir ?rel" for d
      by (intro join_path_neq) simp_all
  qed (use openable_catalog_inv [OF b] in \<open>auto simp: write_parent_kinds_def supdate_def write_u8_column_def join_path_inj\<close>)
qed

lemma preserves_write_csr_entry [intro!]:
  assumes "rel \<noteq> []"
  shows "preserves (openable output_dir) (write_csr_entry env output_dir name rel src_label dst_label num_src edges)"
  unfolding preserves_def
proof (intro allI impI)
  fix b :: build_state
  assume b: "openable output_dir b"
  let ?b' = "fst (write_csr_entry env output_dir name rel src_label dst_label num_src edges b)"
  let ?e = "entry_written name rel src_label dst_label num_src (length edges)"
  let ?offs = "add_up (count_sources num_src (sort edges))"
  have neq: "join_path (join_path output_dir d) ''offsets.bin'' \<noteq> join_path (join_path output_dir rel) ''neighbors.bin''"
    "join_path (join_path output_dir d) ''offsets.bin'' \<noteq> join_path (join_path output_dir rel) ''meta.json''" for d
  proof -
    have "rev (join_path x ''offsets.bin'') \<noteq> rev (join_path y ''neighbors.bin'')"
      "rev (join_path x ''offsets.bin'') \<noteq> rev (join_path y ''meta.json'')" for x y
      by (simp_all add: join_path_def)
    then show "join_path (join_path output_dir d) ''offsets.bin'' \<noteq> join_path (join_path output_dir rel) ''neighbors.bin''"
      "join_path (join_path output_dir d) ''offsets.bin'' \<noteq> join_path (join_path output_dir rel) ''meta.json''" by metis+
  qed
  have col: "join_path output_dir r \<noteq> join_path (join_path output_dir rel) f"
    if "r \<noteq> []" "last r = CHR ''l''" "f \<in> {''offsets.bin'', ''neighbors.bin'', ''meta.json''}" for r f
    using that by (intro join_path_neq) auto
  have csrs: "\<exists>offs. b_fs ?b' (join_path (join_path output_dir (ce_path e)) ''offsets.bin'') = Some (concat (map u64_le offs))"
    if "(n, e) \<in> set (cat_csr_adjacencies (b_catalog ?b'))" for n e
  proof -
    have "(n, e) = (name, ?e) \<or> (n, e) \<in> set (cat_csr_adjacencies (b_catalog b))"
      using that set_bt_insert_subset [of name ?e "cat_csr_adjacencies (b_catalog b)"]
      by (auto simp: write_csr_entry_eq)
    then show ?thesis
    proof
      assume "(n, e) = (name, ?e)"
      then show ?thesis by (auto simp: write_csr_entry_eq neq entry_written_def)
    next
      assume "(n, e) \<in> set (cat_csr_adjacencies (b_catalog b))"
      then obtain offs where "b_fs b (join_path (join_path output_dir (ce_path e)) ''offsets.bin'') = Some (concat (map u64_le offs))"
        using b unfolding openable_def by blast
      then show ?thesis by (auto simp: write_csr_entry_eq neq)
    qed
  qed
  have cols: "se_value_type e = ''u32'' \<and> se_file e \<noteq> [] \<and> last (se_file e) = CHR ''l'' \<and>
        se_file e \<noteq> ''single_edges/REPLY_OF/comment_parent_kind.col'' \<and>
        (\<exists>vs. b_fs ?b' (join_path output_dir (se_file e)) = Some (concat (map u32_le vs)))"
    if "(n, e) \<in> set (cat_single_columns (b_catalog ?b'))" for n e
  proof -
    have "(n, e) \<in> set (cat_single_columns (b_catalog b))" using that by (simp add: write_csr_entry_eq)
    then have e: "se_value_type e = ''u32''" "se_file e \<noteq> []" "last (se_file e) = CHR ''l''"
        "se_file e \<noteq> ''single_edges/REPLY_OF/comment_parent_kind.col''"
        "\<exists>vs. b_fs b (join_path output_dir (se_file e)) = Some (concat (map u32_le vs))"
      using b unfolding openable_def by blast+
    then show ?thesis using col [OF e(2,3)] by (simp add: write_csr_entry_eq)
  qed
  have "catalog_inv (b_catalog ?b')"
    using openable_catalog_inv [OF b] by (simp add: write_csr_entry_eq catalog_inv_def bt.inv_ins)
  then show "openable output_dir ?b'" unfolding openable_def using csrs cols by blast
qed

lemma preserves_build:
  "preserves (openable output_dir) (build_id_maps env csv_root output_dir)"
  "preserves (openable output_dir) (build_single_edges env csv_root output_dir maps)"
  "preserves (openable output_dir) (build_multi_edges env csv_root output_dir maps)"
  "preserves (openable output_dir) (derived_posts env dynamic output_dir maps)"
  "preserves (openable output_dir) (derived_comments env dynamic output_dir maps)"
  "preserves (openable output_dir)
     (write_derived_column output_dir ''comment_root_post'' ''derived_indexes/MESSAGE_ROOT_POST/comment_root_post.col'' memo)"
  unfolding build_id_maps_def build_single_edges_def Let_def load_id_map_def build_person_place_def build_post_columns_def
    build_comment_columns_def build_forum_moderator_def build_organisation_place_def build_tag_tagclass_def
    build_multi_edges_def build_bidirectional_csr_def derived_posts_def derived_comments_def write_derived_csr_def
  by (auto split: prod.splits)

lemma rfold_succeeds: "(\<And>x s. x \<in> set xs \<Longrightarrow> \<exists>s'. f x s = Inr s') \<Longrightarrow> \<exists>s'. rfold f xs s = Inr s'"
proof (induction xs arbitrary: s)
  case (Cons x xs)
  obtain s1 where "f x s = Inr s1" using Cons.prems by fastforce
  then show ?case using Cons.IH [of s1] Cons.prems by simp
qed simp

lemma openable_opens:
  assumes b: "openable output_dir b"
    and cat: "b_fs b (join_path output_dir ''catalog.json'') = Some bs" "parse bs = Inr (b_catalog b)"
  shows "\<exists>g. base_open parse output_dir config (b_fs b) = Inr g"
proof -
  have "\<exists>c. csr_open output_dir e (b_fs b) = Inr c" if "(n, e) \<in> set (cat_csr_adjacencies (b_catalog b))" for n e
  proof -
    obtain offs where "b_fs b (join_path (join_path output_dir (ce_path e)) ''offsets.bin'') = Some (concat (map u64_le offs))"
      using b \<open>(n, e) \<in> _\<close> unfolding openable_def by blast
    then show ?thesis using u64_codec.length_concat_enc [of offs]
      by (simp add: csr_open_def read_u64_column_def u64_codec.decode_array Let_def)
  qed
  then have "\<exists>csr. open_csrs output_dir (b_catalog b) (b_fs b) = Inr csr"
    unfolding open_csrs_def by (intro rfold_succeeds) fastforce
  moreover have "\<exists>vs. read_u32_column (join_path output_dir (se_file e)) (b_fs b) = Inr vs"
    if "(n, e) \<in> set (cat_single_columns (b_catalog b))" for n e
    using b that read_u32_written unfolding openable_def by blast
  then have "\<exists>cols. open_columns output_dir (b_catalog b) (b_fs b) = Inr cols"
    unfolding open_columns_def by (intro rfold_succeeds) fastforce
  moreover have "\<exists>kinds. read_optional_u8_column p (b_fs b) = Inr kinds" for p
    by (cases "b_fs b p") (auto simp: read_optional_u8_column_def)
  ultimately show ?thesis
    using cat by (auto simp: base_open_def Let_def catalog_load_def) (metis rbind.simps(2))
qed

lemma build_from_snb_openable:
  assumes "build_from_snb env csv_root output_dir fs = Some (b, Inr stats)"
  shows "openable output_dir b"
  using assms
proof (rule build_from_snbE)
  fix b1 b2 b3 b4 d1 maps kinds ids z
  assume b1: "build_id_maps env csv_root output_dir (build_start csv_root output_dir fs) = (b1, Inr maps)" and
    b2: "build_single_edges env csv_root output_dir maps b1 = (b2, Inr ())" and
    b3: "build_multi_edges env csv_root output_dir maps b2 = (b3, Inr ())" and
    d1: "sbind (derived_posts env (join_path csv_root ''dynamic'') output_dir maps)
      (\<lambda>_. derived_comments env (join_path csv_root ''dynamic'') output_dir maps) b3 = (d1, Inr (kinds, ids))" and
    z: "sbind (slift z) (write_derived_column output_dir ''comment_root_post'' ''derived_indexes/MESSAGE_ROOT_POST/comment_root_post.col'') d1 = (b4, Inr ())" and
    b: "b = b4\<lparr>b_fs := (b_fs b4)(join_path output_dir ''catalog.json'' \<mapsto> be_render env (b_catalog b4))\<rparr>"
  have "openable output_dir (build_start csv_root output_dir fs)"
    by (simp add: openable_def build_start_def catalog_new_inv) (simp add: catalog_new_def)
  then have "openable output_dir b3"
    by (rule preservesD [OF preserves_build(3) b3 preservesD [OF preserves_build(2) b2 preservesD [OF preserves_build(1) b1]]])
  then have "openable output_dir d1"
    by (rule preservesD [OF preserves_sbind [OF preserves_build(4) preserves_build(5)] d1])
  then have b4: "openable output_dir b4"
    by (rule preservesD [OF preserves_sbind [OF preserves_pure(2) preserves_build(6)] z])
  show "openable output_dir b"
  proof (rule openable_write_file [OF b4, where p = "join_path output_dir ''catalog.json''" and c = "be_render env (b_catalog b4)"])
    show "join_path (join_path output_dir d) ''offsets.bin'' \<noteq> join_path output_dir ''catalog.json''" for d
    proof -
      have "rev (join_path (join_path output_dir d) ''offsets.bin'') \<noteq> rev (join_path output_dir ''catalog.json'')"
        by (simp add: join_path_def)
      then show ?thesis by metis
    qed
  qed (use openable_catalog_inv [OF b4] in \<open>auto simp: b join_path_inj\<close>)
qed

subsection \<open>Inputs stay as they are\<close>

text \<open>\<open>yields fs m x\<close>: where the tables, the files whose names end in \<^verbatim>\<open>.csv\<close>, are those of
  \<open>fs\<close>, the step returns \<open>x\<close> and leaves them so; nothing a build writes has such a name.\<close>

definition csv_names :: "string set" where
  "csv_names = {p. p \<noteq> [] \<and> last p = CHR ''v''}"

definition yields :: "file_system \<Rightarrow> (build_state, 'a) st \<Rightarrow> 'a \<Rightarrow> bool" where
  "yields fs m x \<longleftrightarrow> (\<forall>b. (\<forall>p \<in> csv_names. b_fs b p = fs p) \<longrightarrow>
     (\<exists>b'. m b = (b', Inr x) \<and> (\<forall>p \<in> csv_names. b_fs b' p = fs p)))"

lemma yields_sbind: "yields fs m x \<Longrightarrow> yields fs (f x) y \<Longrightarrow> yields fs (sbind m f) y"
  unfolding yields_def by (metis sbind_simps(1))

lemma yields_sreturn: "yields fs (sreturn x) x"
  by (auto simp: yields_def sreturn_def)

lemma yields_slift: "yields fs (slift (Inr x)) x"
  by (auto simp: yields_def slift_def)

lemma yields_bscan:
  assumes "scan_csv (be_csv env) fs path f s = Inr x" "path \<in> csv_names"
  shows "yields fs (bscan env path f s) x"
  using assms by (auto simp: yields_def bscan_def sreads_def scan_csv_def)

lemma yields_write_single: "rel \<noteq> [] \<Longrightarrow> last rel \<noteq> CHR ''v'' \<Longrightarrow> yields fs (write_single_u32 output_dir name rel sl dl vs) ()"
  by (auto simp: yields_def write_single_u32_def supdate_def write_u32_column_def csv_names_def join_path_last)

lemma yields_write_derived: "rel \<noteq> [] \<Longrightarrow> last rel \<noteq> CHR ''v'' \<Longrightarrow> yields fs (write_derived_column output_dir name rel vs) ()"
  by (auto simp: yields_def write_derived_column_def supdate_def write_u32_column_def csv_names_def join_path_last)

lemma yields_write_parent_kinds: "yields fs (write_parent_kinds output_dir kinds) ()"
  by (auto simp: yields_def write_parent_kinds_def supdate_def write_u8_column_def csv_names_def join_path_last)

lemma yields_write_id_map: "yields fs (write_id_map output_dir label m) ()"
  by (auto simp: yields_def write_id_map_def Let_def supdate_def write_ext_id_map_def csv_names_def join_path_last)

lemma yields_write_csr_entry: "yields fs (write_csr_entry env output_dir name rel sl dl n es) ()"
  by (auto simp: yields_def write_csr_entry_eq csv_names_def join_path_last)

lemma build_succeeds:
  assumes "yields fs (build_id_maps env csv_root output_dir) maps" "yields fs (build_single_edges env csv_root output_dir maps) ()"
    "yields fs (build_multi_edges env csv_root output_dir maps) ()"
    "yields fs (derived_posts env (join_path csv_root ''dynamic'') output_dir maps) ()"
    "yields fs (derived_comments env (join_path csv_root ''dynamic'') output_dir maps) (kinds, ids)"
    "resolve_roots kinds ids [0..<id_map_len (m_comment maps)] (no_values (m_comment maps)) = Some (Inr memo)"
  shows "\<exists>b stats. build_from_snb env csv_root output_dir fs = Some (b, Inr stats)"
proof -
  have "yields fs (sbind (build_id_maps env csv_root output_dir) (\<lambda>maps.
            sbind (build_single_edges env csv_root output_dir maps) (\<lambda>_.
            sbind (build_multi_edges env csv_root output_dir maps) (\<lambda>_. sreturn maps)))) maps"
    by (rule yields_sbind [OF assms(1)], rule yields_sbind [OF assms(2)], rule yields_sbind [OF assms(3)], rule yields_sreturn)
  moreover have start: "\<forall>p \<in> csv_names. b_fs (build_start csv_root output_dir fs) p = fs p" by (simp add: build_start_def)
  ultimately obtain b1 where b1: "sbind (build_id_maps env csv_root output_dir) (\<lambda>maps.
            sbind (build_single_edges env csv_root output_dir maps) (\<lambda>_.
            sbind (build_multi_edges env csv_root output_dir maps) (\<lambda>_. sreturn maps))) (build_start csv_root output_dir fs) = (b1, Inr maps)"
    "\<forall>p \<in> csv_names. b_fs b1 p = fs p"
    unfolding yields_def using start by blast
  have "yields fs (sbind (derived_posts env (join_path csv_root ''dynamic'') output_dir maps)
      (\<lambda>_. derived_comments env (join_path csv_root ''dynamic'') output_dir maps)) (kinds, ids)"
    using assms(4,5) by (intro yields_sbind)
  then obtain b2 where b2: "sbind (derived_posts env (join_path csv_root ''dynamic'') output_dir maps)
      (\<lambda>_. derived_comments env (join_path csv_root ''dynamic'') output_dir maps) b1 = (b2, Inr (kinds, ids))"
    using b1(2) unfolding yields_def by blast
  have lifted: "sbind (slift (Inr x)) g b = g x b" for x b and g :: "u32 list \<Rightarrow> (build_state, unit) st"
    by (simp add: sbind_def slift_def)
  show ?thesis
    unfolding build_from_snb_def build_derived_indexes_def Let_def build_start_def [symmetric]
    by (simp add: b1 b2 assms(6) lifted write_derived_column_def supdate_def)
qed
subsection \<open>Friendships in the opened graph\<close>

text \<open>Two persons, one place and one friendship, between the two persons; the other tables are empty.\<close>

definition sample_csv :: csv_package where
  "sample_csv bs =
     (if bs = [2] then Inr ([''id'', ''place''], [Inr [''10'', ''5''], Inr [''11'', ''5'']])
      else if bs = [3] then Inr ([''id''], [Inr [''5'']])
      else if bs = [4] then Inr ([''Person.id'', ''Person.id''], [Inr [''10'', ''11'']])
      else Inr ([''id''], []))"

definition sample_env :: build_env where
  "sample_env = \<lparr>be_csv = sample_csv, be_meta = \<lambda>_ _ _. [], be_render = \<lambda>_. []\<rparr>"

definition sample_tables :: file_system where
  "sample_tables p =
     (if p = ''r/dynamic/person_0_0.csv'' then Some [2] else if p = ''r/static/place_0_0.csv'' then Some [3]
      else if p = ''r/dynamic/person_knows_person_0_0.csv'' then Some [4] else Some [])"

definition sample_maps :: id_maps where
  "sample_maps = (let person = \<lparr>im_external_to_local = [(10, 0), (11, 1)], im_ordered_pairs = [(10, 0), (11, 1)]\<rparr>;
       place = \<lparr>im_external_to_local = [(5, 0)], im_ordered_pairs = [(5, 0)]\<rparr>
     in \<lparr>m_person = person, m_post = id_map_default, m_comment = id_map_default, m_forum = id_map_default, m_place = place,
         m_organisation = id_map_default, m_tag = id_map_default, m_tag_class = id_map_default\<rparr>)"

lemmas sample_eval = sample_env_def sample_csv_def sample_tables_def sample_maps_def scan_csv_def join_path_def idx_def
  parse_i64_def parse_i64_str_def parse_int_def get_or_empty_def id_map_add_def id_map_default_def hm_insert_def hm_get_def
  id_map_get_def local_id_def put_at_def one_column_def no_values_def no_kinds_def id_map_len_def is_digit_def digits_value_def digit_value_def Let_def

lemma in_csv_names: "p \<noteq> [] \<Longrightarrow> last p = CHR ''v'' \<Longrightarrow> join_path a p \<in> csv_names"
  by (simp add: csv_names_def join_path_def)

lemma yields_smap: "(\<And>x. x \<in> set xs \<Longrightarrow> yields fs (f x) ()) \<Longrightarrow> yields fs (smap f xs) (map (\<lambda>_. ()) xs)"
  by (induction xs) (auto intro!: yields_sreturn yields_sbind)

lemma yields_no_records:
  assumes "sample_tables p = Some []" "p \<in> csv_names"
  shows "yields sample_tables (bscan sample_env p f s) s"
  using assms by (intro yields_bscan) (simp_all add: scan_csv_def sample_env_def sample_csv_def)

lemma yields_sample_persons:
  "yields sample_tables (load_id_map sample_env (join_path (join_path ''r'' ''dynamic'') ''person_0_0.csv'') ''id'') (m_person sample_maps)"
  "yields sample_tables (load_id_map sample_env (join_path (join_path ''r'' ''static'') ''place_0_0.csv'') ''id'') (m_place sample_maps)"
  "yields sample_tables (bscan sample_env (join_path (join_path ''r'' ''dynamic'') ''person_0_0.csv'')
     (one_column (m_person sample_maps) (m_place sample_maps) ''place'') (no_values (m_person sample_maps))) [0, 0]"
  unfolding load_id_map_def by (rule yields_bscan; simp add: sample_eval csv_names_def)+

lemma yields_sample_knows:
  "yields sample_tables (bscan sample_env (join_path (join_path ''r'' ''dynamic'') ''person_knows_person_0_0.csv'')
     (\<lambda>header record (out_edges, in_edges).
         rbind (local_id (m_person sample_maps) header record ''Person.id'') (\<lambda>src.
         rbind (local_id (m_person sample_maps) header record ''Person.id'') (\<lambda>dst.
         Inr (out_edges @ [(src, dst)], in_edges @ [(dst, src)])))) ([], [])) ([(0, 0)], [(0, 0)])"
  by (rule yields_bscan; simp add: sample_eval csv_names_def)

lemma yields_load_empty:
  "sample_tables p = Some [] \<Longrightarrow> p \<in> csv_names \<Longrightarrow> yields sample_tables (load_id_map sample_env p ''id'') id_map_default"
  unfolding load_id_map_def by (rule yields_no_records)

lemma yields_cong: "yields fs m x \<Longrightarrow> x = y \<Longrightarrow> yields fs m y"
  by simp

lemma yields_write_id_maps: "yields fs (smap (\<lambda>(label, m). write_id_map output_dir label m) xs) (map (\<lambda>_. ()) xs)"
  by (rule yields_smap) (auto simp: yields_write_id_map)

lemma yields_load_rest:
  "yields sample_tables (load_id_map sample_env (join_path (join_path ''r'' ''dynamic'') ''post_0_0.csv'') ''id'') id_map_default"
  "yields sample_tables (load_id_map sample_env (join_path (join_path ''r'' ''dynamic'') ''comment_0_0.csv'') ''id'') id_map_default"
  "yields sample_tables (load_id_map sample_env (join_path (join_path ''r'' ''dynamic'') ''forum_0_0.csv'') ''id'') id_map_default"
  "yields sample_tables (load_id_map sample_env (join_path (join_path ''r'' ''static'') ''organisation_0_0.csv'') ''id'') id_map_default"
  "yields sample_tables (load_id_map sample_env (join_path (join_path ''r'' ''static'') ''tag_0_0.csv'') ''id'') id_map_default"
  "yields sample_tables (load_id_map sample_env (join_path (join_path ''r'' ''static'') ''tagclass_0_0.csv'') ''id'') id_map_default"
  by (rule yields_load_empty; simp add: sample_tables_def join_path_def csv_names_def)+

lemma sample_id_maps: "yields sample_tables (build_id_maps sample_env ''r'' ''o'') sample_maps"
  unfolding build_id_maps_def Let_def
  by (rule yields_cong, (rule yields_sbind yields_sample_persons yields_load_rest yields_write_id_maps yields_sreturn)+)
    (simp add: sample_maps_def Let_def)

lemma sample_single_edges: "yields sample_tables (build_single_edges sample_env ''r'' ''o'' sample_maps) ()"
  unfolding build_single_edges_def Let_def build_person_place_def build_post_columns_def
    build_comment_columns_def build_forum_moderator_def build_organisation_place_def build_tag_tagclass_def
  by (rule yields_sbind yields_sample_persons yields_no_records yields_write_single yields_write_parent_kinds
      | simp add: sample_tables_def join_path_def csv_names_def)+

lemma sample_multi_edges: "yields sample_tables (build_multi_edges sample_env ''r'' ''o'' sample_maps) ()"
  unfolding build_multi_edges_def Let_def build_bidirectional_csr_def
  by (rule yields_sbind yields_sample_knows yields_no_records yields_write_csr_entry
      | simp add: sample_tables_def join_path_def csv_names_def)+

lemma sample_no_comments: "no_kinds (m_comment sample_maps) = []" "no_values (m_comment sample_maps) = []"
  by (simp_all add: sample_maps_def Let_def no_kinds_def no_values_def id_map_len_def id_map_default_def)

lemma sample_derived:
  "yields sample_tables (derived_posts sample_env (join_path ''r'' ''dynamic'') ''o'' sample_maps) ()"
  "yields sample_tables (derived_comments sample_env (join_path ''r'' ''dynamic'') ''o'' sample_maps) ([], [])"
  unfolding derived_posts_def derived_comments_def write_derived_csr_def
  by (rule yields_sbind yields_no_records yields_write_csr_entry yields_write_derived yields_sreturn yields_sreturn [THEN yields_cong]
      | simp add: sample_tables_def join_path_def csv_names_def sample_no_comments)+

text \<open>C31. The friendships of a built base graph are self loops. \<^verbatim>\<open>build_multi_edges\<close> passes
  \<^verbatim>\<open>Person.id\<close> as the column of both ends and \<^verbatim>\<open>idx\<close> finds the first column of that name:
  whatever the table of friendships says, a finished build opens and the row of a person in the opened graph
  holds nobody but the person.\<close>

theorem knows_rows_are_self_loops:
  assumes build: "build_from_snb env csv_root output_dir fs = Some (b, Inr stats)"
    and json: "parse (be_render env (b_catalog b)) = Inr (b_catalog b)"
    and small: "\<And>bs header records. be_csv env bs = Inr (header, records) \<Longrightarrow> length records < 2 ^ 64"
  shows "\<exists>g row. base_open parse output_dir config (b_fs b) = Inr g \<and>
    graph_row g ''KNOWS/OUT'' src (b_fs b) ctx = Inr row \<and> set row \<subseteq> {src}"
proof -
  obtain maps :: id_maps and es fs' where es: "csv_edges (be_csv env) fs' (join_path (join_path csv_root ''dynamic'') ''person_knows_person_0_0.csv'')
      (m_person maps) (m_person maps) ''Person.id'' ''Person.id'' = Inr es"
    and files: "csr_files output_dir ''KNOWS/OUT'' (id_map_len (m_person maps)) es b"
    and inv: "bt_inv (cat_csr_adjacencies (b_catalog b))"
    and cat: "b_fs b (join_path output_dir ''catalog.json'') = Some (be_render env (b_catalog b))"
    using build_from_snb_knows [OF build] by blast
  obtain g where g: "base_open parse output_dir config (b_fs b) = Inr g"
    using openable_opens [where parse = parse and bs = "be_render env (b_catalog b)", OF build_from_snb_openable [OF build] cat json]
    by blast
  have len: "length es < 2 ^ 64" by (rule csv_edges_length [OF es]) (rule small)
  have "set (map snd (filter (\<lambda>e. fst e = src) es)) \<subseteq> {src}" using csv_edges_same_column [OF es] by auto
  then show ?thesis using g graph_row_written [OF g cat json inv files len, of src ctx] by auto
qed

lemma knows_rows_are_self_loops_witness:
  "\<exists>b stats g row. build_from_snb sample_env ''r'' ''o'' sample_tables = Some (b, Inr stats) \<and>
     base_open (\<lambda>_. Inr (b_catalog b)) ''o'' io_config_default (b_fs b) = Inr g \<and>
     graph_row g ''KNOWS/OUT'' 0 (b_fs b) (read_context_new 0 io_config_default) = Inr row \<and> set row \<subseteq> {0}"
proof -
  have "\<exists>b stats. build_from_snb sample_env ''r'' ''o'' sample_tables = Some (b, Inr stats)"
    by (rule build_succeeds [OF sample_id_maps sample_single_edges sample_multi_edges sample_derived, where memo = "[]"])
      (simp add: sample_no_comments, simp add: sample_maps_def Let_def id_map_len_def id_map_default_def)
  then obtain b stats where b: "build_from_snb sample_env ''r'' ''o'' sample_tables = Some (b, Inr stats)" by blast
  have "length records < 2 ^ 64" if "be_csv sample_env bs = Inr (header, records)" for bs header records
    using that by (auto simp: sample_env_def sample_csv_def split: if_splits)
  then show ?thesis
    using knows_rows_are_self_loops [OF b, of "\<lambda>_. Inr (b_catalog b)" io_config_default 0 "read_context_new 0 io_config_default"] b
    by blast
qed

end
