(* ===== verification/Mem_Graph.thy ===== *)
theory Mem_Graph
  imports Graph_Types Std_Maps
begin

section \<open>The in-memory graph\<close>

text \<open>
  \<^verbatim>\<open>src/memgraph/mod.rs\<close>: a vertex of low degree keeps its records in an inline segment in
  arrival order; once the segment is full they move to an ordered tree keyed by
  \<open>(edge_type, dst, ts)\<close>. The mutex makes every operation atomic, so the model passes the
  state explicitly.
\<close>

datatype adj_ref = Inline nat | Overflow

type_synonym mem_key = "int \<times> vertex_id \<times> u64"

definition mem_key :: "edge_record \<Rightarrow> mem_key" where
  "mem_key e = (sint (e_type e), e_dst e, e_ts e)"

type_synonym overflow_tree = "(mem_key, edge_record) btree_map"

record mem_graph =
  mg_id :: u64
  mg_inline_capacity :: nat
  mg_capacity_bytes :: nat
  mg_vertex_map :: "(vertex_id, adj_ref) hash_map"
  mg_segments :: "edge_record list list"
  mg_high_degree :: "(vertex_id, overflow_tree) hash_map"
  mg_bytes :: nat
  mg_edge_count :: nat

definition mg_new :: "u64 \<Rightarrow> nat \<Rightarrow> nat \<Rightarrow> mem_graph" where
  "mg_new i capacity_bytes inline_capacity =
     \<lparr>mg_id = i, mg_inline_capacity = inline_capacity, mg_capacity_bytes = capacity_bytes,
      mg_vertex_map = [], mg_segments = [], mg_high_degree = [], mg_bytes = 0,
      mg_edge_count = 0\<rparr>"

definition tree_or_default :: "mem_graph \<Rightarrow> vertex_id \<Rightarrow> overflow_tree" where
  "tree_or_default g v = (case hm_get (mg_high_degree g) v of Some t \<Rightarrow> t | None \<Rightarrow> [])"

definition tree_add :: "edge_record \<Rightarrow> overflow_tree \<Rightarrow> overflow_tree" where
  "tree_add e t = bt_insert (mem_key e) e t"

definition mg_insert :: "edge_record \<Rightarrow> mem_graph \<Rightarrow> mem_graph res" where
  "mg_insert e g0 =
     (let g = g0\<lparr>mg_bytes := mg_bytes g0 + EDGE_RECORD_SIZE,
                 mg_edge_count := mg_edge_count g0 + 1\<rparr>;
          v = e_src e; segs = mg_segments g
      in case hm_get (mg_vertex_map g) v of
           None \<Rightarrow>
             Inr (g\<lparr>mg_segments := segs @ [[e]],
                    mg_vertex_map := hm_insert v (Inline (length segs)) (mg_vertex_map g)\<rparr>)
         | Some (Inline i) \<Rightarrow>
             if i < length segs then
               if length (segs ! i) < mg_inline_capacity g then
                 Inr (g\<lparr>mg_segments := segs[i := segs ! i @ [e]]\<rparr>)
               else
                 let existing = segs ! i;
                     tree = tree_add e (fold tree_add existing (tree_or_default g v))
                 in Inr (g\<lparr>mg_segments := segs[i := []],
                           mg_high_degree := hm_insert v tree (mg_high_degree g),
                           mg_vertex_map := hm_insert v Overflow (mg_vertex_map g)\<rparr>)
             else Inl Slice_out_of_range
         | Some Overflow \<Rightarrow>
             Inr (g\<lparr>mg_high_degree :=
                      hm_insert v (tree_add e (tree_or_default g v)) (mg_high_degree g)\<rparr>))"

definition mg_is_full :: "mem_graph \<Rightarrow> bool" where
  "mg_is_full g \<longleftrightarrow> mg_bytes g \<ge> mg_capacity_bytes g"

definition mg_is_empty :: "mem_graph \<Rightarrow> bool" where
  "mg_is_empty g \<longleftrightarrow> mg_edge_count g = 0"

definition get_edges_for_src :: "mem_graph \<Rightarrow> vertex_id \<Rightarrow> edge_record list res" where
  "get_edges_for_src g v =
     (case hm_get (mg_vertex_map g) v of
        None \<Rightarrow> Inr []
      | Some (Inline i) \<Rightarrow>
          if i < length (mg_segments g) then Inr (mg_segments g ! i) else Inl Slice_out_of_range
      | Some Overflow \<Rightarrow>
          Inr (case hm_get (mg_high_degree g) v of Some t \<Rightarrow> bt_values t | None \<Rightarrow> []))"

definition all_edges_sorted :: "mem_graph \<Rightarrow> edge_record list" where
  "all_edges_sorted g =
     sort_key edge_sort_key
       (concat (mg_segments g) @ hm_all bt_values (mg_high_degree g))"

text \<open>A sequence of inserts.\<close>

definition mg_insert_all :: "edge_record list \<Rightarrow> mem_graph \<Rightarrow> mem_graph res" where
  "mg_insert_all es g = rfold mg_insert es g"

subsection \<open>Invariant\<close>

definition tree_ok :: "vertex_id \<Rightarrow> overflow_tree \<Rightarrow> bool" where
  "tree_ok v t \<longleftrightarrow> bt_inv t \<and> (\<forall>(k, e) \<in> set t. k = mem_key e \<and> e_src e = v)"

definition contents :: "mem_graph \<Rightarrow> edge_record list" where
  "contents g = concat (mg_segments g) @ hm_all bt_values (mg_high_degree g)"

definition mg_inv :: "mem_graph \<Rightarrow> bool" where
  "mg_inv g \<longleftrightarrow>
     hm_inv (mg_vertex_map g) \<and> hm_inv (mg_high_degree g) \<and>
     (\<forall>v i. hm_get (mg_vertex_map g) v = Some (Inline i) \<longrightarrow>
        i < length (mg_segments g) \<and> mg_segments g ! i \<noteq> [] \<and>
        (\<forall>e \<in> set (mg_segments g ! i). e_src e = v)) \<and>
     (\<forall>i < length (mg_segments g). \<forall>e \<in> set (mg_segments g ! i).
        hm_get (mg_vertex_map g) (e_src e) = Some (Inline i)) \<and>
     (\<forall>v. hm_get (mg_vertex_map g) v = Some Overflow \<longleftrightarrow> hm_get (mg_high_degree g) v \<noteq> None) \<and>
     (\<forall>v t. hm_get (mg_high_degree g) v = Some t \<longrightarrow> tree_ok v t) \<and>
     mg_bytes g = EDGE_RECORD_SIZE * mg_edge_count g \<and>
     length (contents g) \<le> mg_edge_count g"

lemma mg_inv_new: "mg_inv (mg_new i c n)"
  by (simp add: mg_inv_def mg_new_def hm_get_def hm_inv_def contents_def hm_all_def)

text \<open>Fields no operation changes.\<close>

lemma mg_insert_frame:
  "mg_insert e g = Inr g' \<Longrightarrow>
   mg_id g' = mg_id g \<and> mg_inline_capacity g' = mg_inline_capacity g \<and>
   mg_capacity_bytes g' = mg_capacity_bytes g \<and> mg_edge_count g' = mg_edge_count g + 1"
  by (auto simp: mg_insert_def Let_def split: option.splits adj_ref.splits if_splits)

lemma mem_key_eq_iff: "mem_key a = mem_key b \<longleftrightarrow> e_type a = e_type b \<and> e_dst a = e_dst b \<and> e_ts a = e_ts b"
  by (simp add: mem_key_def sint_eq_iff)

lemma edge_sort_key_mem_key: "edge_sort_key a = edge_sort_key b \<longleftrightarrow> e_src a = e_src b \<and> mem_key a = mem_key b"
  by (auto simp: edge_sort_key_def mem_key_def)

lemma tree_ok_add: "tree_ok v t \<Longrightarrow> e_src e = v \<Longrightarrow> tree_ok v (tree_add e t)"
proof -
  assume t: "tree_ok v t" and e: "e_src e = v"
  have "bt_inv (tree_add e t)" using t by (simp add: tree_ok_def tree_add_def bt_inv_insert)
  moreover have "k = mem_key x \<and> e_src x = v" if "(k, x) \<in> set (tree_add e t)" for k x
  proof -
    have "bt_get (tree_add e t) k = Some x"
      using that \<open>bt_inv (tree_add e t)\<close> by (simp add: bt.entries_get [symmetric])
    then show ?thesis
      using t e by (auto simp: tree_ok_def tree_add_def bt.get_ins bt.entries_get [symmetric]
        split: if_splits)
  qed
  ultimately show ?thesis by (auto simp: tree_ok_def)
qed

lemma tree_ok_fold_add:
  "tree_ok v t \<Longrightarrow> (\<forall>e \<in> set es. e_src e = v) \<Longrightarrow> tree_ok v (fold tree_add es t)"
  by (induction es arbitrary: t) (auto simp: tree_ok_add)

lemma tree_ok_Nil: "tree_ok v []"
  by (simp add: tree_ok_def)

lemma tree_key_fresh:
  "tree_ok v t \<Longrightarrow> mem_key e \<notin> mem_key ` set (bt_values t) \<Longrightarrow> mem_key e \<notin> fst ` set t"
  by (force simp: tree_ok_def bt_values_def)

lemma mset_tree_add_fresh:
  "tree_ok v t \<Longrightarrow> mem_key e \<notin> mem_key ` set (bt_values t) \<Longrightarrow>
   mset (bt_values (tree_add e t)) = add_mset e (mset (bt_values t))"
  unfolding tree_add_def by (rule mset_values_bt_insert_new) (rule tree_key_fresh)

lemma length_bt_insert: "length (bt_insert k v m) \<le> Suc (length m)"
  by (induction k v m rule: bt_insert.induct) auto

lemma length_tree_adds: "length (fold tree_add es t) \<le> length es + length t"
proof (induction es arbitrary: t)
  case (Cons e es)
  have "length (tree_add e t) \<le> Suc (length t)"
    by (simp add: tree_add_def length_bt_insert)
  with Cons.IH [of "tree_add e t"] show ?case by simp
qed simp

lemma mset_tree_adds_fresh:
  assumes "tree_ok v t" "\<forall>e \<in> set es. e_src e = v"
    and "distinct (map mem_key (es @ bt_values t))"
  shows "mset (bt_values (fold tree_add es t)) = mset es + mset (bt_values t)"
  using assms
proof (induction es arbitrary: t)
  case (Cons e es)
  have m: "mset (bt_values (tree_add e t)) = add_mset e (mset (bt_values t))"
    using Cons.prems by (intro mset_tree_add_fresh) auto
  have "mset (map mem_key (es @ bt_values (tree_add e t))) = mset (map mem_key (e # es @ bt_values t))"
    using m by simp
  then have "distinct (map mem_key (es @ bt_values (tree_add e t)))"
    using Cons.prems(3) by (metis append_Cons mset_eq_imp_distinct_iff)
  then have "mset (bt_values (fold tree_add es (tree_add e t))) =
    mset es + mset (bt_values (tree_add e t))"
    using Cons.prems by (intro Cons.IH tree_ok_add) auto
  with m show ?case by simp
qed simp

subsection \<open>Inserting\<close>

lemma mg_invD:
  assumes "mg_inv g"
  shows "hm_inv (mg_vertex_map g)" "hm_inv (mg_high_degree g)"
    and "hm_get (mg_vertex_map g) v = Some (Inline i) \<Longrightarrow> i < length (mg_segments g)"
    and "hm_get (mg_vertex_map g) v = Some (Inline i) \<Longrightarrow> e \<in> set (mg_segments g ! i) \<Longrightarrow> e_src e = v"
    and "i < length (mg_segments g) \<Longrightarrow> e \<in> set (mg_segments g ! i) \<Longrightarrow>
      hm_get (mg_vertex_map g) (e_src e) = Some (Inline i)"
    and "hm_get (mg_vertex_map g) v = Some Overflow \<longleftrightarrow> hm_get (mg_high_degree g) v \<noteq> None"
    and "hm_get (mg_high_degree g) v = Some t \<Longrightarrow> tree_ok v t"
  using assms unfolding mg_inv_def by blast+

text \<open>One vertex, one segment.\<close>

lemma mg_inline_inj:
  assumes "mg_inv g" "hm_get (mg_vertex_map g) v = Some (Inline i)" "hm_get (mg_vertex_map g) w = Some (Inline i)"
  shows "v = w"
  using assms unfolding mg_inv_def by (metis last_in_set)

lemma tree_or_default_ok: "mg_inv g \<Longrightarrow> tree_ok v (tree_or_default g v)"
  by (auto simp: tree_or_default_def tree_ok_Nil mg_invD(7) split: option.splits)

text \<open>The branches of \<^verbatim>\<open>insert\<close>, as what each leaves in the three containers.\<close>

lemma mg_insert_branches:
  assumes inv: "mg_inv g"
  obtains
    (first) g' where "mg_insert e g = Inr g'" "hm_get (mg_vertex_map g) (e_src e) = None"
      "mg_vertex_map g' = hm_insert (e_src e) (Inline (length (mg_segments g))) (mg_vertex_map g)"
      "mg_segments g' = mg_segments g @ [[e]]" "mg_high_degree g' = mg_high_degree g"
  | (push) g' i where "mg_insert e g = Inr g'"
      "hm_get (mg_vertex_map g) (e_src e) = Some (Inline i)" "i < length (mg_segments g)"
      "mg_vertex_map g' = mg_vertex_map g"
      "mg_segments g' = (mg_segments g)[i := mg_segments g ! i @ [e]]"
      "mg_high_degree g' = mg_high_degree g"
  | (spill) g' i where "mg_insert e g = Inr g'"
      "hm_get (mg_vertex_map g) (e_src e) = Some (Inline i)" "i < length (mg_segments g)"
      "mg_vertex_map g' = hm_insert (e_src e) Overflow (mg_vertex_map g)"
      "mg_segments g' = (mg_segments g)[i := []]"
      "mg_high_degree g' =
         hm_insert (e_src e) (tree_add e (fold tree_add (mg_segments g ! i) [])) (mg_high_degree g)"
  | (overflow) g' t where "mg_insert e g = Inr g'"
      "hm_get (mg_vertex_map g) (e_src e) = Some Overflow"
      "hm_get (mg_high_degree g) (e_src e) = Some t"
      "mg_vertex_map g' = mg_vertex_map g" "mg_segments g' = mg_segments g"
      "mg_high_degree g' = hm_insert (e_src e) (tree_add e t) (mg_high_degree g)"
proof (cases "hm_get (mg_vertex_map g) (e_src e)")
  case None
  show thesis
    by (rule first [of "projr (mg_insert e g)"]) (use None in \<open>simp_all add: mg_insert_def Let_def\<close>)
next
  case (Some r)
  show thesis
  proof (cases r)
    case (Inline i)
    have i: "i < length (mg_segments g)" using mg_invD(3) [OF inv] Some Inline by blast
    have "hm_get (mg_high_degree g) (e_src e) = None"
      using mg_invD(6) [OF inv, of "e_src e"] Some Inline by auto
    then have t: "tree_or_default (g\<lparr>mg_bytes := b, mg_edge_count := c\<rparr>) (e_src e) = []" for b c
      by (simp add: tree_or_default_def)
    show thesis
    proof (cases "length (mg_segments g ! i) < mg_inline_capacity g")
      case True
      show thesis
        by (rule push [of "projr (mg_insert e g)" i]) (use Some Inline i True in \<open>simp_all add: mg_insert_def Let_def\<close>)
    next
      case False
      show thesis
        by (rule spill [of "projr (mg_insert e g)" i]) (use Some Inline i t False in \<open>simp_all add: mg_insert_def Let_def\<close>)
    qed
  next
    case Overflow
    then obtain t where t: "hm_get (mg_high_degree g) (e_src e) = Some t"
      using mg_invD(6) [OF inv, of "e_src e"] Some by auto
    show thesis
      by (rule overflow [of "projr (mg_insert e g)"]) (use Some Overflow t in \<open>simp_all add: mg_insert_def Let_def tree_or_default_def\<close>)
  qed
qed

lemma mg_insert_total: "mg_inv g \<Longrightarrow> \<exists>g'. mg_insert e g = Inr g'"
  by (erule mg_insert_branches [of g e]) auto

lemma length_hm_insert_le:
  "hm_inv m \<Longrightarrow> length (hm_all f (hm_insert k v m)) \<le> length (hm_all f m) + length (f v)"
  by (induction m) (auto simp: hm_all_def hm_insert_def hm_inv_def)

lemma mg_contents_count:
  assumes inv: "mg_inv g" and g': "mg_insert e g = Inr g'"
  shows "length (contents g') \<le> Suc (length (contents g))"
  using inv
proof (cases rule: mg_insert_branches [of g e])
  case (push h i)
  have "length (concat ((mg_segments g)[i := mg_segments g ! i @ [e]])) = Suc (length (concat (mg_segments g)))"
    using arg_cong [OF mset_concat_list_update [OF push(3), of "mg_segments g ! i @ [e]"], of size]
    by simp
  with push g' show ?thesis by (simp add: contents_def)
next
  case (spill h i)
  have "length (concat ((mg_segments g)[i := []])) + length (mg_segments g ! i) = length (concat (mg_segments g))"
    using arg_cong [OF mset_concat_list_update [OF spill(3), of "[]"], of size] by simp
  moreover have "length (bt_values (tree_add e (fold tree_add (mg_segments g ! i) []))) \<le> Suc (length (mg_segments g ! i))"
    using length_tree_adds [of "mg_segments g ! i @ [e]" "[]"] by (simp add: bt_values_def)
  ultimately show ?thesis
    using spill g' length_hm_insert_le [OF mg_invD(2) [OF inv], of bt_values "e_src e"
        "tree_add e (fold tree_add (mg_segments g ! i) [])"]
    by (simp add: contents_def)
next
  case (overflow h t)
  have "length (hm_all bt_values (hm_insert (e_src e) (tree_add e t) (mg_high_degree g))) + length t
    = length (hm_all bt_values (mg_high_degree g)) + length (tree_add e t)"
    using arg_cong [OF mset_hm_all_insert [OF mg_invD(2) [OF inv], of bt_values "e_src e" "tree_add e t"], of size]
      overflow(3) by (simp add: bt_values_def)
  then show ?thesis
    using overflow g' length_bt_insert [of "mem_key e" e t] by (simp add: contents_def tree_add_def)
qed (use g' in \<open>auto simp: contents_def\<close>)

text \<open>The vertex-wise part of the invariant, which the branches re-establish.\<close>

definition mg_shape ::
  "(vertex_id, adj_ref) hash_map \<Rightarrow> edge_record list list \<Rightarrow> (vertex_id, overflow_tree) hash_map \<Rightarrow> bool"
where
  "mg_shape vm segs hi \<longleftrightarrow>
     hm_inv vm \<and> hm_inv hi \<and>
     (\<forall>v i. hm_get vm v = Some (Inline i) \<longrightarrow>
        i < length segs \<and> segs ! i \<noteq> [] \<and> (\<forall>e \<in> set (segs ! i). e_src e = v)) \<and>
     (\<forall>i < length segs. \<forall>e \<in> set (segs ! i). hm_get vm (e_src e) = Some (Inline i)) \<and>
     (\<forall>v. hm_get vm v = Some Overflow \<longleftrightarrow> hm_get hi v \<noteq> None) \<and>
     (\<forall>v t. hm_get hi v = Some t \<longrightarrow> tree_ok v t)"

lemma mg_inv_shape:
  "mg_inv g \<longleftrightarrow> mg_shape (mg_vertex_map g) (mg_segments g) (mg_high_degree g) \<and>
     mg_bytes g = EDGE_RECORD_SIZE * mg_edge_count g \<and> length (contents g) \<le> mg_edge_count g"
  unfolding mg_inv_def mg_shape_def by blast

lemma mg_insert_shape:
  assumes inv: "mg_inv g" and g': "mg_insert e g = Inr g'"
  shows "mg_shape (mg_vertex_map g') (mg_segments g') (mg_high_degree g')"
  using inv
proof (cases rule: mg_insert_branches [of g e])
  case (first h)
  have "hm_get (mg_vertex_map g) v \<noteq> Some (Inline (length (mg_segments g)))" for v
    using mg_invD(3) [OF inv] by blast
  moreover have "e_src x \<noteq> e_src e" if "i < length (mg_segments g)" "x \<in> set (mg_segments g ! i)" for i x
    using mg_invD(5) [OF inv that] first(2) by auto
  moreover have "hm_get (mg_high_degree g) (e_src e) = None"
    using mg_invD(6) [OF inv, of "e_src e"] first(2) by auto
  ultimately show ?thesis using first g' inv
    by (auto simp: mg_inv_shape mg_shape_def hm.inv_ins hm.get_ins nth_append less_Suc_eq)
next
  case (push h i)
  have "v = e_src e" if "hm_get (mg_vertex_map g) v = Some (Inline i)" for v
    using mg_inline_inj [OF inv that push(2)] .
  with push g' inv show ?thesis
    by (auto simp: mg_inv_shape mg_shape_def nth_list_update split: if_splits)
next
  case (spill h i)
  have ok: "tree_ok (e_src e) (tree_add e (fold tree_add (mg_segments g ! i) []))"
    using mg_invD(4) [OF inv spill(2)] by (intro tree_ok_add tree_ok_fold_add tree_ok_Nil) auto
  have other: "v = e_src e" if "hm_get (mg_vertex_map g) v = Some (Inline i)" for v
    using mg_inline_inj [OF inv that spill(2)] .
  have uniq: "e_src x \<noteq> e_src e" if "j < length (mg_segments g)" "x \<in> set (mg_segments g ! j)" "j \<noteq> i" for j x
    using mg_invD(5) [OF inv that(1,2)] spill(2) that(3) by auto
  have eq: "g' = h" using g' spill(1) by simp
  have old: "mg_shape (mg_vertex_map g) (mg_segments g) (mg_high_degree g)"
    using inv by (simp add: mg_inv_shape)
  note hms = hm.inv_ins hm.get_ins
  show ?thesis
    unfolding eq spill(4-6) mg_shape_def
    using old ok other uniq spill(3)
    by (intro conjI; unfold mg_shape_def)
      (auto simp: hms nth_list_update split: if_splits)
next
  case (overflow h t)
  have "tree_ok (e_src e) (tree_add e t)"
    using mg_invD(7) [OF inv overflow(3)] by (simp add: tree_ok_add)
  with overflow g' inv show ?thesis
    by (auto simp: mg_inv_shape mg_shape_def hm.inv_ins hm.get_ins split: if_splits)
qed

lemma mg_inv_insert:
  assumes "mg_inv g" "mg_insert e g = Inr g'" shows "mg_inv g'"
proof -
  have "mg_bytes g' = mg_bytes g + EDGE_RECORD_SIZE" "mg_edge_count g' = mg_edge_count g + 1"
    using assms(2) by (auto simp: mg_insert_def Let_def split: option.splits adj_ref.splits if_splits)
  then show ?thesis
    using mg_insert_shape [OF assms] mg_contents_count [OF assms] assms(1) by (simp add: mg_inv_shape)
qed

lemma get_edges_for_src_contents:
  assumes inv: "mg_inv g"
  shows "get_edges_for_src g v = Inr (filter (\<lambda>e. e_src e = v) (contents g))"
proof -
  let ?P = "\<lambda>e. e_src e = v"
  have hd: "filter ?P (hm_all bt_values (mg_high_degree g)) =
      (case hm_get (mg_high_degree g) v of Some t \<Rightarrow> bt_values t | None \<Rightarrow> [])"
  proof (rule filter_hm_all_one [OF mg_invD(2) [OF inv]])
    fix k t assume "(k, t) \<in> set (mg_high_degree g)"
    then have "tree_ok k t" using hm.entries_get [OF mg_invD(2) [OF inv]] mg_invD(7) [OF inv] by blast
    then have "e_src e = k" if "e \<in> set (bt_values t)" for e
      using that by (auto simp: tree_ok_def bt_values_def)
    then show "filter ?P (bt_values t) = (if k = v then bt_values t else [])"
      by (auto simp: filter_empty_conv intro!: filter_True)
  qed
  have none: "filter ?P (concat (mg_segments g)) = []"
    if "\<And>i. hm_get (mg_vertex_map g) v \<noteq> Some (Inline i)"
  proof -
    have "e_src e \<noteq> v" if "e \<in> set (concat (mg_segments g))" for e
      using that mg_invD(5) [OF inv] \<open>\<And>i. hm_get (mg_vertex_map g) v \<noteq> Some (Inline i)\<close>
      by (fastforce simp: in_set_conv_nth)
    then show ?thesis by (auto simp: filter_empty_conv)
  qed
  show ?thesis
  proof (cases "hm_get (mg_vertex_map g) v")
    case None
    then have "hm_get (mg_high_degree g) v = None" using mg_invD(6) [OF inv, of v] by auto
    with None hd none show ?thesis by (simp add: get_edges_for_src_def contents_def)
  next
    case (Some r)
    show ?thesis
    proof (cases r)
      case Overflow
      with Some hd none show ?thesis by (simp add: get_edges_for_src_def contents_def)
    next
      case (Inline i)
      then have i: "i < length (mg_segments g)" using Some mg_invD(3) [OF inv] by blast
      have "hm_get (mg_high_degree g) v = None" using mg_invD(6) [OF inv, of v] Some Inline by auto
      moreover have "filter ?P (concat (mg_segments g)) = mg_segments g ! i"
      proof (rule filter_concat_one [OF i])
        fix j assume j: "j < length (mg_segments g)"
        have "e_src e \<noteq> v" if "e \<in> set (mg_segments g ! j)" "j \<noteq> i" for e
          using mg_invD(5) [OF inv j that(1)] Some Inline that(2) by auto
        moreover have "e_src e = v" if "e \<in> set (mg_segments g ! i)" for e
          using mg_invD(4) [OF inv _ that] Some Inline by blast
        ultimately show "filter ?P (mg_segments g ! j) = (if j = i then mg_segments g ! i else [])"
          by (auto simp: filter_empty_conv intro!: filter_True)
      qed
      ultimately show ?thesis using Some Inline i hd by (simp add: get_edges_for_src_def contents_def)
    qed
  qed
qed

text \<open>An insert whose sort key is new adds exactly its record.\<close>

lemma mg_insert_contents:
  assumes inv: "mg_inv g" and g': "mg_insert e g = Inr g'"
    and dist: "distinct (map edge_sort_key (e # contents g))"
  shows "mset (contents g') = add_mset e (mset (contents g))"
  using inv
proof (cases rule: mg_insert_branches [of g e])
  case (push h i)
  have "mset (concat ((mg_segments g)[i := mg_segments g ! i @ [e]])) =
      add_mset e (mset (concat (mg_segments g)))"
    using mset_concat_list_update [OF push(3), of "mg_segments g ! i @ [e]"] by simp
  with push g' show ?thesis by (simp add: contents_def)
next
  case (spill h i)
  let ?es = "mg_segments g ! i" and ?t = "tree_add e (fold tree_add (mg_segments g ! i) [])"
  have src: "\<forall>x \<in> set ?es. e_src x = e_src e" using mg_invD(4) [OF inv spill(2)] by blast
  have "distinct (map edge_sort_key (contents g))" using dist by simp
  moreover have "contents g = concat (take i (mg_segments g)) @ ?es @
      concat (drop (Suc i) (mg_segments g)) @ hm_all bt_values (mg_high_degree g)"
    using id_take_nth_drop [OF spill(3)] by (metis append_assoc concat.simps(2) concat_append contents_def)
  ultimately have "distinct (map edge_sort_key (?es @ [e]))" using dist by auto
  then have d: "distinct (map mem_key (?es @ [e]))"
    using src by (auto simp: distinct_map inj_on_def edge_sort_key_mem_key)
      (metis edge_sort_key_mem_key image_eqI)
  have hd: "hm_get (mg_high_degree g) (e_src e) = None"
    using mg_invD(6) [OF inv, of "e_src e"] spill(2) by auto
  have "?t = fold tree_add (?es @ [e]) []" by simp
  moreover have "mset (bt_values (fold tree_add (?es @ [e]) [])) = mset (?es @ [e]) + mset (bt_values ([] :: overflow_tree))"
    using d src by (intro mset_tree_adds_fresh [where v = "e_src e"]) (auto simp: tree_ok_Nil bt_values_def)
  ultimately have t: "mset (bt_values ?t) = add_mset e (mset ?es)" by (simp add: bt_values_def)
  show ?thesis
    using spill g' t hd mset_concat_list_update [OF spill(3), of "[]"]
      mset_hm_all_insert [OF mg_invD(2) [OF inv], of bt_values "e_src e" ?t]
    by (simp add: contents_def union_ac)
next
  case (overflow h t)
  have ok: "tree_ok (e_src e) t" using mg_invD(7) [OF inv overflow(3)] .
  have sub: "set (bt_values t) \<subseteq> set (contents g)"
    using overflow(3) hm.entries_get [OF mg_invD(2) [OF inv], of "e_src e" t]
    by (auto simp: contents_def hm_all_def)
  have "mem_key e \<notin> mem_key ` set (bt_values t)"
  proof
    assume "mem_key e \<in> mem_key ` set (bt_values t)"
    then obtain x where x: "x \<in> set (bt_values t)" "mem_key e = mem_key x" by auto
    then have "e_src x = e_src e" using ok by (auto simp: tree_ok_def bt_values_def)
    then have "edge_sort_key e = edge_sort_key x" using x(2) by (simp add: edge_sort_key_mem_key)
    then show False using dist x(1) sub by auto
  qed
  then have "mset (bt_values (tree_add e t)) = add_mset e (mset (bt_values t))"
    by (rule mset_tree_add_fresh [OF ok])
  then show ?thesis
    using overflow g' mset_hm_all_insert [OF mg_invD(2) [OF inv], of bt_values "e_src e" "tree_add e t"]
    by (simp add: contents_def union_ac)
qed (use g' in \<open>auto simp: contents_def\<close>)

subsection \<open>A run of inserts\<close>

lemma mg_insert_all_Cons:
  "mg_insert_all (e # es) g = rbind (mg_insert e g) (mg_insert_all es)"
  by (simp add: mg_insert_all_def [abs_def])

lemma mg_insert_all_contents:
  assumes "mg_inv g" "mg_insert_all es g = Inr g'"
    and "distinct (map edge_sort_key (es @ contents g))"
  shows "mg_inv g'" "mset (contents g') = mset es + mset (contents g)"
    "mg_edge_count g' = mg_edge_count g + length es"
  using assms
proof (induction es arbitrary: g)
  case (Cons e es)
  {
    case 1
    then obtain h where h: "mg_insert e g = Inr h" "mg_insert_all es h = Inr g'"
      by (auto simp: mg_insert_all_Cons rbind_Inr_iff)
    have inv: "mg_inv h" using mg_inv_insert [OF 1(1) h(1)] .
    have m: "mset (contents h) = add_mset e (mset (contents g))"
      using 1 h(1) by (intro mg_insert_contents) auto
    then have "mset (map edge_sort_key (es @ contents h)) = mset (map edge_sort_key ((e # es) @ contents g))"
      by simp
    then have d: "distinct (map edge_sort_key (es @ contents h))"
      using 1(3) mset_eq_imp_distinct_iff by blast
    note r = Cons.IH [OF inv h(2) d]
    have "mg_edge_count h = mg_edge_count g + 1" using mg_insert_frame [OF h(1)] by simp
    with m r have "mg_inv g'" "mset (contents g') = mset (e # es) + mset (contents g)"
      "mg_edge_count g' = mg_edge_count g + length (e # es)" by simp_all
  }
  note all = this
  {
    case 1 then show ?case by (rule all)
  next
    case 2 then show ?case by (rule all)
  next
    case 3 then show ?case by (rule all)
  }
qed (simp_all add: mg_insert_all_def)

lemma mg_insert_all_total: "mg_inv g \<Longrightarrow> \<exists>g'. mg_insert_all es g = Inr g' \<and> mg_inv g'"
proof (induction es arbitrary: g)
  case (Cons e es)
  then show ?case
    using mg_insert_total [of g e] mg_inv_insert [of g e] by (auto simp: mg_insert_all_Cons)
qed (simp add: mg_insert_all_def)

lemma mg_insert_all_frame:
  "mg_insert_all es g = Inr g' \<Longrightarrow>
   mg_capacity_bytes g' = mg_capacity_bytes g \<and> mg_id g' = mg_id g \<and>
   mg_edge_count g' = mg_edge_count g + length es"
  by (induction es arbitrary: g)
    (auto simp: mg_insert_all_Cons rbind_Inr_iff mg_insert_all_def dest!: mg_insert_frame)

lemma contents_new [simp]: "contents (mg_new i c n) = []"
  by (simp add: mg_new_def contents_def hm_all_def)

text \<open>What a flush writes depends only on which records the graph holds, not on the order the
  hash map yields them in.\<close>

lemma all_edges_sorted_mset:
  assumes "mset (contents g) = mset es" "distinct (map edge_sort_key es)"
  shows "all_edges_sorted g = sort_key edge_sort_key es"
proof -
  have "set (contents g) = set es" using assms(1) by (metis set_mset_mset)
  then have "inj_on edge_sort_key (set (contents g))" using assms(2) by (simp add: distinct_map)
  then show ?thesis
    using assms(1) unfolding all_edges_sorted_def contents_def by (rule sort_key_cong_mset [rotated])
qed

lemma set_all_edges_sorted [simp]: "set (all_edges_sorted g) = set (contents g)"
  by (simp add: all_edges_sorted_def contents_def)

lemma mset_all_edges_sorted [simp]: "mset (all_edges_sorted g) = mset (contents g)"
  by (simp add: all_edges_sorted_def contents_def)

lemma sorted_all_edges_sorted [simp]: "sorted (map edge_sort_key (all_edges_sorted g))"
  by (simp add: all_edges_sorted_def)

subsection \<open>Properties\<close>

text \<open>C20. A memgraph built by any run of inserts of records with distinct sort keys never panics
  on a segment index, and flushes exactly the inserted records, sorted by source, type,
  destination and timestamp, whichever of them were kept inline and whichever spilled to
  trees.\<close>

theorem memgraph_flushes_inserts:
  assumes "distinct (map edge_sort_key es)"
  shows "\<exists>g. mg_insert_all es (mg_new i cap n) = Inr g \<and>
             all_edges_sorted g = sort_key edge_sort_key es \<and>
             mg_edge_count g = length es"
proof -
  obtain g where g: "mg_insert_all es (mg_new i cap n) = Inr g"
    using mg_insert_all_total [OF mg_inv_new] by blast
  have d: "distinct (map edge_sort_key (es @ contents (mg_new i cap n)))" using assms by simp
  note c = mg_insert_all_contents [OF mg_inv_new g d]
  have "all_edges_sorted g = sort_key edge_sort_key es"
    using c(2) assms by (intro all_edges_sorted_mset) simp_all
  with g c(3) show ?thesis by (simp add: mg_new_def)
qed

theorem memgraph_flushes_inserts_witness:
  "\<exists>g. mg_insert_all
      [insert_record 2 5 1 1, insert_record 1 7 1 2, delete_record 1 7 1 3, insert_record 1 6 2 4]
      (mg_new 1 4096 2) = Inr g \<and>
    all_edges_sorted g =
      sort_key edge_sort_key
        [insert_record 2 5 1 1, insert_record 1 7 1 2, delete_record 1 7 1 3, insert_record 1 6 2 4] \<and>
    mg_edge_count g =
      length [insert_record 2 5 1 1, insert_record 1 7 1 2, delete_record 1 7 1 3, insert_record 1 6 2 4]"
  by (rule memgraph_flushes_inserts)
    (simp add: edge_sort_key_def insert_record_def delete_record_def)

text \<open>Looking a vertex up returns exactly the records of that source among all the graph
  holds, after any run of inserts.\<close>

lemma memgraph_lookup:
  assumes "distinct (map edge_sort_key es)" "mg_insert_all es (mg_new i cap n) = Inr g"
  shows "\<exists>rs. get_edges_for_src g v = Inr rs \<and> mset rs = mset (filter (\<lambda>e. e_src e = v) es)"
proof -
  have d: "distinct (map edge_sort_key (es @ contents (mg_new i cap n)))" using assms(1) by simp
  note c = mg_insert_all_contents [OF mg_inv_new assms(2) d]
  show ?thesis
    using get_edges_for_src_contents [OF c(1), of v] c(2) by simp
qed

lemma memgraph_lookup_example:
  "\<exists>rs. get_edges_for_src
      (projr (mg_insert_all [insert_record 1 7 1 2, delete_record 1 7 1 3, insert_record 2 6 2 4] (mg_new 1 4096 1))) 1 =
      Inr rs \<and>
    mset rs = mset (filter (\<lambda>e. e_src e = 1)
      [insert_record 1 7 1 2, delete_record 1 7 1 3, insert_record 2 6 2 4])"
proof (rule memgraph_lookup)
  let ?es = "[insert_record 1 7 1 2, delete_record 1 7 1 3, insert_record 2 6 2 4]"
  show "distinct (map edge_sort_key ?es)"
    by (simp add: edge_sort_key_def insert_record_def delete_record_def)
  show "mg_insert_all ?es (mg_new 1 4096 1) = Inr (projr (mg_insert_all ?es (mg_new 1 4096 1)))"
    using mg_insert_all_total [OF mg_inv_new, of ?es 1 4096 1] by auto
qed

text \<open>The graph reports itself full exactly when the records inserted so far, at 32 bytes
  each, reach the configured capacity.\<close>

theorem memgraph_full:
  assumes "mg_insert_all es (mg_new i cap n) = Inr g"
  shows "mg_is_full g \<longleftrightarrow> cap \<le> 32 * length es"
proof -
  have "mg_inv g" using mg_insert_all_total [OF mg_inv_new, of es i cap n] assms by auto
  then show ?thesis
    using mg_insert_all_frame [OF assms]
    by (simp add: mg_inv_def EDGE_RECORD_SIZE_def mg_new_def mg_is_full_def)
qed

theorem memgraph_full_witness:
  "mg_is_full (projr (mg_insert_all [insert_record 1 7 1 2, insert_record 1 7 1 2] (mg_new 1 64 8))) \<longleftrightarrow>
   (64 :: nat) \<le> 32 * length [insert_record 1 7 1 2, insert_record 1 7 1 2]"
proof (rule memgraph_full)
  let ?es = "[insert_record 1 7 1 2, insert_record 1 7 1 2]"
  show "mg_insert_all ?es (mg_new 1 64 8) = Inr (projr (mg_insert_all ?es (mg_new 1 64 8)))"
    using mg_insert_all_total [OF mg_inv_new, of ?es 1 64 8] by auto
qed

end
