(* ===== verification/Csr_Cache.thy ===== *)
theory Csr_Cache
  imports Csr_Format Std_Maps
begin

section \<open>The segment metadata cache and its source filter\<close>

text \<open>
  \<^verbatim>\<open>src/csr/cache.rs\<close>: a Bloom filter over the sources of a segment, and a bounded cache of
  decoded segment metadata with a queue of recently used file ids. Indexing the filter's words
  out of range would panic, so its operations answer a result.
\<close>

subsection \<open>The Bloom filter\<close>

record source_bloom =
  bl_bits :: "u64 list"
  bl_mask :: u64

definition mix64 :: "u64 \<Rightarrow> u64" where
  "mix64 v0 =
     (let v1 = v0 XOR drop_bit 30 v0;
          v2 = v1 * 0xbf58476d1ce4e5b9;
          v3 = v2 XOR drop_bit 27 v2;
          v4 = v3 * 0x94d049bb133111eb
      in v4 XOR drop_bit 31 v4)"

definition bits_for :: "u64 \<Rightarrow> vertex_id \<Rightarrow> u64 list" where
  "bits_for bmask src =
     (let h1 = mix64 src; h2 = mix64 (src XOR 0x9e3779b97f4a7c15)
      in [h1 AND bmask, (h1 + h2) AND bmask, (h1 + h2 * 2) AND bmask])"

text \<open>\<^verbatim>\<open>usize::next_power_of_two\<close>.\<close>

function pow2_from :: "nat \<Rightarrow> nat \<Rightarrow> nat" where
  "pow2_from p n = (if 0 < p \<and> p < n then pow2_from (2 * p) n else p)"
  by pat_completeness auto
termination
  by (relation "measure (\<lambda>(p, n). n - p)") auto

declare pow2_from.simps [simp del]

definition next_power_of_two :: "nat \<Rightarrow> nat" where
  "next_power_of_two n = pow2_from 1 n"

text \<open>One iteration of the loop of \<^verbatim>\<open>insert\<close>.\<close>

definition bloom_set_bit :: "u64 \<Rightarrow> u64 list \<Rightarrow> u64 list res" where
  "bloom_set_bit i bits =
     (let w = unat (i div 64); offset = unat (i mod 64)
      in if w < length bits then Inr (bits[w := bits ! w OR push_bit offset 1])
         else Inl Slice_out_of_range)"

definition bloom_insert :: "vertex_id \<Rightarrow> source_bloom \<Rightarrow> source_bloom res" where
  "bloom_insert src b =
     rbind (rfold bloom_set_bit (bits_for (bl_mask b) src) (bl_bits b))
       (\<lambda>bits. Inr (b\<lparr>bl_bits := bits\<rparr>))"

definition bloom_from_sources :: "vertex_id list \<Rightarrow> source_bloom res" where
  "bloom_from_sources sources =
     (let bit_count = next_power_of_two (max (length sources) 4 * 16);
          word_count = (bit_count + 63) div 64
      in rfold bloom_insert sources
           \<lparr>bl_bits = replicate word_count 0, bl_mask = of_nat bit_count - 1\<rparr>)"

text \<open>\<^verbatim>\<open>all\<close> stops at the first unset bit.\<close>

fun bloom_all_set :: "u64 list \<Rightarrow> u64 list \<Rightarrow> bool res" where
  "bloom_all_set bits [] = Inr True"
| "bloom_all_set bits (i # is) =
     (let w = unat (i div 64); offset = unat (i mod 64)
      in if w < length bits
         then if bits ! w AND push_bit offset 1 \<noteq> 0 then bloom_all_set bits is else Inr False
         else Inl Slice_out_of_range)"

definition bloom_may_contain :: "source_bloom \<Rightarrow> vertex_id \<Rightarrow> bool res" where
  "bloom_may_contain b src =
     (if bl_bits b = [] then Inr False else bloom_all_set (bl_bits b) (bits_for (bl_mask b) src))"

subsection \<open>Every bit index is in range\<close>

lemma pow2_from_bounds: "0 < p \<Longrightarrow> n \<le> pow2_from p n \<and> pow2_from p n \<le> max p (2 * n)"
proof (induction p n rule: pow2_from.induct)
  case (1 p n)
  show ?case
  proof (cases "p < n")
    case True
    with 1 show ?thesis by (subst (1 2) pow2_from.simps) auto
  next
    case False
    with 1 show ?thesis by (subst (1 2) pow2_from.simps) auto
  qed
qed

lemma next_power_of_two_bounds: "1 < n \<Longrightarrow> n \<le> next_power_of_two n \<and> next_power_of_two n \<le> 2 * n"
  using pow2_from_bounds [of 1 n] by (simp add: next_power_of_two_def)

definition bloom_ok :: "source_bloom \<Rightarrow> bool" where
  "bloom_ok b \<longleftrightarrow> unat (bl_mask b) < 64 * length (bl_bits b)"

lemma bits_for_in_range:
  assumes "bloom_ok b" "i \<in> set (bits_for (bl_mask b) src)"
  shows "unat (i div 64) < length (bl_bits b)"
proof -
  have "i \<le> bl_mask b"
    using assms(2) by (auto simp: bits_for_def Let_def word_and_le1)
  then have "unat i < 64 * length (bl_bits b)"
    using assms(1) by (simp add: bloom_ok_def word_le_nat_alt)
  then show ?thesis by (simp add: unat_div less_mult_imp_div_less mult.commute)
qed

definition bit_is_set :: "u64 list \<Rightarrow> u64 \<Rightarrow> bool" where
  "bit_is_set bits i \<longleftrightarrow> unat (i div 64) < length bits \<and> bit (bits ! unat (i div 64)) (unat (i mod 64))"

lemma and_push_bit_1: "(w :: u64) AND 2 ^ n \<noteq> 0 \<longleftrightarrow> bit w n"
  by (simp add: bit_iff_and_push_bit_not_eq_0)

lemma bloom_all_set_iff:
  "\<forall>i \<in> set is. unat (i div 64) < length bits \<Longrightarrow>
   bloom_all_set bits is = Inr (\<forall>i \<in> set is. bit_is_set bits i)"
  by (induction "is") (auto simp: Let_def and_push_bit_1 bit_is_set_def)

lemma bloom_set_bit_spec:
  assumes "unat (i div 64) < length bits"
  obtains bits' where "bloom_set_bit i bits = Inr bits'" "length bits' = length bits"
    "bit_is_set bits' i" "\<And>j. bit_is_set bits j \<Longrightarrow> bit_is_set bits' j"
proof
  let ?w = "unat (i div 64)"
  let ?bits' = "bits[?w := bits ! ?w OR push_bit (unat (i mod 64)) 1]"
  have "unat (i mod 64) < 64" by (simp add: unat_mod)
  then show "bit_is_set ?bits' i"
    using assms by (simp add: bit_is_set_def bit_simps)
  show "bit_is_set ?bits' j" if "bit_is_set bits j" for j
    using that assms by (cases "unat (j div 64) = ?w") (auto simp: bit_is_set_def bit_simps)
qed (use assms in \<open>simp_all add: bloom_set_bit_def Let_def\<close>)

lemma bloom_set_bits_spec:
  assumes "\<forall>i \<in> set is. unat (i div 64) < length bits"
  shows "\<exists>bits'. rfold bloom_set_bit is bits = Inr bits' \<and> length bits' = length bits \<and>
    (\<forall>i \<in> set is. bit_is_set bits' i) \<and> (\<forall>j. bit_is_set bits j \<longrightarrow> bit_is_set bits' j)"
  using assms
proof (induction "is" arbitrary: bits)
  case (Cons i "is")
  obtain b1 where b1: "bloom_set_bit i bits = Inr b1" "length b1 = length bits" "bit_is_set b1 i"
      "\<And>j. bit_is_set bits j \<Longrightarrow> bit_is_set b1 j"
    using bloom_set_bit_spec [of i bits] Cons.prems by auto
  from Cons.IH [of b1] Cons.prems b1(2) obtain b2 where
    "rfold bloom_set_bit is b1 = Inr b2" "length b2 = length bits"
    "\<forall>i \<in> set is. bit_is_set b2 i" "\<forall>j. bit_is_set b1 j \<longrightarrow> bit_is_set b2 j"
    by auto
  with b1 show ?case by auto
qed simp

lemma bloom_insert_spec:
  assumes "bloom_ok b"
  shows "\<exists>b'. bloom_insert src b = Inr b' \<and> bloom_ok b' \<and> bl_mask b' = bl_mask b \<and>
    (\<forall>i \<in> set (bits_for (bl_mask b) src). bit_is_set (bl_bits b') i) \<and>
    (\<forall>j. bit_is_set (bl_bits b) j \<longrightarrow> bit_is_set (bl_bits b') j)"
  using bloom_set_bits_spec [of "bits_for (bl_mask b) src" "bl_bits b"] bits_for_in_range [OF assms] assms
  by (auto simp: bloom_insert_def bloom_ok_def)

lemma bloom_inserts_spec:
  assumes "bloom_ok b"
  shows "\<exists>b'. rfold bloom_insert srcs b = Inr b' \<and> bloom_ok b' \<and> bl_mask b' = bl_mask b \<and>
    (\<forall>src \<in> set srcs. \<forall>i \<in> set (bits_for (bl_mask b) src). bit_is_set (bl_bits b') i) \<and>
    (\<forall>j. bit_is_set (bl_bits b) j \<longrightarrow> bit_is_set (bl_bits b') j)"
  using assms
proof (induction srcs arbitrary: b)
  case (Cons src srcs)
  obtain b1 where b1: "bloom_insert src b = Inr b1" "bloom_ok b1" "bl_mask b1 = bl_mask b"
      "\<forall>i \<in> set (bits_for (bl_mask b) src). bit_is_set (bl_bits b1) i"
      "\<forall>j. bit_is_set (bl_bits b) j \<longrightarrow> bit_is_set (bl_bits b1) j"
    using bloom_insert_spec [OF Cons.prems] by blast
  from Cons.IH [OF b1(2)] b1 show ?case by auto
qed simp

text \<open>A filter can be built from any list of sources whose length leaves the bit count below
  \<open>2 ^ 64\<close>.\<close>

lemma unat_of_nat_minus_1: "n < 2 ^ 64 \<Longrightarrow> 0 < n \<Longrightarrow> unat (of_nat n - 1 :: u64) = n - 1"
proof -
  assume n: "n < 2 ^ 64" "0 < n"
  then have "of_nat n - 1 = (of_nat (n - 1) :: u64)" by (simp add: of_nat_diff)
  then have "unat (of_nat n - 1 :: u64) = (n - 1) mod 2 ^ 64" by (simp only: unat_of_nat) simp
  with n show ?thesis by simp
qed

definition bloom_size_ok :: "'a list \<Rightarrow> bool" where
  "bloom_size_ok xs \<longleftrightarrow> length xs < 2 ^ 58"

lemma bloom_from_sources_spec:
  assumes "bloom_size_ok srcs"
  shows "\<exists>b. bloom_from_sources srcs = Inr b \<and> bloom_ok b \<and>
    (\<forall>src \<in> set srcs. \<forall>i \<in> set (bits_for (bl_mask b) src). bit_is_set (bl_bits b) i)"
proof -
  define n where "n = next_power_of_two (max (length srcs) 4 * 16)"
  have n: "max (length srcs) 4 * 16 \<le> n" "n \<le> 2 * (max (length srcs) 4 * 16)"
    using next_power_of_two_bounds [of "max (length srcs) 4 * 16"] by (simp_all add: n_def)
  have "n < 2 ^ 64" using n(2) assms by (simp add: bloom_size_ok_def)
  moreover have "0 < n" using n(1) by simp
  ultimately have "unat (of_nat n - 1 :: u64) = n - 1"
    by (rule unat_of_nat_minus_1)
  then have ok: "bloom_ok \<lparr>bl_bits = replicate ((n + 63) div 64) 0, bl_mask = of_nat n - 1\<rparr>"
    using \<open>0 < n\<close> by (simp add: bloom_ok_def)
  show ?thesis
    using bloom_inserts_spec [OF ok, of srcs]
    by (auto simp: bloom_from_sources_def Let_def n_def)
qed

lemma bloom_may_contain_spec:
  assumes "bloom_ok b"
  shows "bloom_may_contain b src = Inr (\<forall>i \<in> set (bits_for (bl_mask b) src). bit_is_set (bl_bits b) i)"
proof -
  have "bl_bits b \<noteq> []" using assms by (auto simp: bloom_ok_def)
  then show ?thesis
    using bits_for_in_range [OF assms] by (simp add: bloom_may_contain_def bloom_all_set_iff)
qed

subsection \<open>Cached metadata\<close>

record cached_csr_metadata =
  cm_header :: csr_header
  cm_offsets :: "edge_offset list"
  cm_filter :: source_bloom

definition cached_metadata_new :: "csr_header \<Rightarrow> edge_offset list \<Rightarrow> cached_csr_metadata res" where
  "cached_metadata_new h offsets =
     rbind (bloom_from_sources (map o_src offsets))
       (\<lambda>f. Inr \<lparr>cm_header = h, cm_offsets = offsets, cm_filter = f\<rparr>)"

definition may_contain_src :: "cached_csr_metadata \<Rightarrow> vertex_id \<Rightarrow> bool res" where
  "may_contain_src m src = bloom_may_contain (cm_filter m) src"

text \<open>The cache keeps a map and a queue of file ids, least recent first. The entry type is a
  parameter here; the engine stores metadata.\<close>

record 'm metadata_cache =
  ca_max :: nat
  ca_map :: "(file_id, 'm) hash_map"
  ca_lru :: "file_id list"

definition cache_new :: "nat \<Rightarrow> 'm metadata_cache" where
  "cache_new n = \<lparr>ca_max = max n 1, ca_map = [], ca_lru = []\<rparr>"

definition cache_get :: "file_id \<Rightarrow> 'm metadata_cache \<Rightarrow> 'm option \<times> 'm metadata_cache" where
  "cache_get f c =
     (case hm_get (ca_map c) f of
        None \<Rightarrow> (None, c)
      | Some v \<Rightarrow> (Some v, c\<lparr>ca_lru := ca_lru c @ [f]\<rparr>))"

text \<open>The eviction loop pops victims until there is room or the queue is empty.\<close>

fun cache_evict ::
  "nat \<Rightarrow> file_id \<Rightarrow> (file_id, 'm) hash_map \<Rightarrow> file_id list \<Rightarrow> (file_id, 'm) hash_map \<times> file_id list"
where
  "cache_evict n f m [] = (m, [])"
| "cache_evict n f m (victim # lru) =
     (if length m < n then (m, victim # lru)
      else cache_evict n f (if victim \<noteq> f then hm_remove victim m else m) lru)"

definition cache_insert :: "file_id \<Rightarrow> 'm \<Rightarrow> 'm metadata_cache \<Rightarrow> 'm metadata_cache" where
  "cache_insert f v c =
     (let (m, lru) = (if hm_get (ca_map c) f = None
                      then cache_evict (ca_max c) f (ca_map c) (ca_lru c)
                      else (ca_map c, ca_lru c))
      in c\<lparr>ca_lru := lru @ [f], ca_map := hm_insert f v m\<rparr>)"

definition cached_may_contain_src ::
  "file_id \<Rightarrow> vertex_id \<Rightarrow> cached_csr_metadata metadata_cache \<Rightarrow>
   bool res option \<times> cached_csr_metadata metadata_cache"
where
  "cached_may_contain_src f src c =
     (let (m, c') = cache_get f c in (map_option (\<lambda>m. may_contain_src m src) m, c'))"

definition cache_inv :: "'m metadata_cache \<Rightarrow> bool" where
  "cache_inv c \<longleftrightarrow> 0 < ca_max c \<and> hm_inv (ca_map c) \<and> length (ca_map c) \<le> ca_max c \<and>
     (\<forall>f. hm_get (ca_map c) f \<noteq> None \<longrightarrow> f \<in> set (ca_lru c))"

lemma cache_evict_spec:
  assumes "hm_inv m" "\<forall>g. hm_get m g \<noteq> None \<longrightarrow> g \<in> set lru" "0 < n"
    and "cache_evict n f m lru = (m', lru')" "hm_get m f = None"
  shows "hm_inv m' \<and> length m' < n \<and> (\<forall>g. hm_get m' g \<noteq> None \<longrightarrow> g \<in> set lru') \<and>
    (\<forall>g v. hm_get m' g = Some v \<longrightarrow> hm_get m g = Some v)"
  using assms
proof (induction n f m lru rule: cache_evict.induct)
  case (1 n f m)
  then have "m = []" by (cases m) (auto simp: hm_get_def split: if_splits)
  with 1 show ?case by (simp add: hm_get_def)
next
  case (2 n f m victim lru)
  show ?case
  proof (cases "length m < n")
    case True
    with 2 show ?thesis by auto
  next
    case False
    define m2 where "m2 = (if victim \<noteq> f then hm_remove victim m else m)"
    have get2: "hm_get m2 g = (if g = victim then None else hm_get m g)" for g
      using 2(2,6) by (auto simp: hm.get_del m2_def)
    have "hm_inv m2" using 2(2) by (simp add: hm.inv_del m2_def)
    moreover have "\<forall>g. hm_get m2 g \<noteq> None \<longrightarrow> g \<in> set lru" using 2(3) by (auto simp: get2)
    moreover have "cache_evict n f m2 lru = (m', lru')" using 2(5) False by (simp add: m2_def)
    ultimately have "hm_inv m' \<and> length m' < n \<and> (\<forall>g. hm_get m' g \<noteq> None \<longrightarrow> g \<in> set lru') \<and>
        (\<forall>g v. hm_get m' g = Some v \<longrightarrow> hm_get m2 g = Some v)"
      using 2(1) [OF False, folded m2_def] 2(4,6) by (simp add: get2)
    then show ?thesis by (metis get2 option.distinct(1))
  qed
qed

lemma fst_cache_get: "fst (cache_get f c) = hm_get (ca_map c) f"
  by (simp add: cache_get_def split: option.splits)

lemma cache_inv_new: "cache_inv (cache_new n)"
  by (simp add: cache_inv_def cache_new_def hm_inv_def hm_get_def)

lemma cache_inv_get: "cache_inv c \<Longrightarrow> cache_inv (snd (cache_get f c))"
  by (auto simp: cache_inv_def cache_get_def split: option.splits)

lemma length_hm_insert:
  "hm_inv m \<Longrightarrow> length (hm_insert k v m) = (if hm_get m k = None then Suc (length m) else length m)"
  by (induction m) (auto simp: hm_insert_def hm_get_def hm_inv_def)

lemma cache_insert_spec:
  assumes "cache_inv c"
  shows "cache_inv (cache_insert f v c) \<and> ca_max (cache_insert f v c) = ca_max c \<and>
    hm_get (ca_map (cache_insert f v c)) f = Some v \<and>
    (\<forall>g w. g \<noteq> f \<longrightarrow> hm_get (ca_map (cache_insert f v c)) g = Some w \<longrightarrow> hm_get (ca_map c) g = Some w)"
proof (cases "hm_get (ca_map c) f = None")
  case True
  obtain m lru where ev: "cache_evict (ca_max c) f (ca_map c) (ca_lru c) = (m, lru)"
    by (cases "cache_evict (ca_max c) f (ca_map c) (ca_lru c)")
  note spec = cache_evict_spec [OF _ _ _ ev True]
  have inv: "hm_inv m" and len: "length m < ca_max c"
    and dom: "\<forall>g. hm_get m g \<noteq> None \<longrightarrow> g \<in> set lru"
    and sub: "\<forall>g v. hm_get m g = Some v \<longrightarrow> hm_get (ca_map c) g = Some v"
    using spec assms by (auto simp: cache_inv_def)
  have "hm_get m f = None" using sub True by (cases "hm_get m f") auto
  then show ?thesis
    using inv len dom sub True ev assms
    by (auto simp: cache_insert_def cache_inv_def hm.inv_ins hm.get_ins length_hm_insert)
next
  case False
  with assms show ?thesis
    by (auto simp: cache_insert_def cache_inv_def hm.inv_ins hm.get_ins length_hm_insert)
qed

lemma cached_metadata_new_spec:
  assumes "bloom_size_ok offsets"
  shows "\<exists>m. cached_metadata_new h offsets = Inr m \<and> cm_header m = h \<and> cm_offsets m = offsets \<and>
    (\<forall>src. \<exists>b. may_contain_src m src = Inr b \<and> (src \<in> o_src ` set offsets \<longrightarrow> b))"
proof -
  obtain b where b: "bloom_from_sources (map o_src offsets) = Inr b" "bloom_ok b"
    "\<forall>src \<in> set (map o_src offsets). \<forall>i \<in> set (bits_for (bl_mask b) src). bit_is_set (bl_bits b) i"
    using bloom_from_sources_spec [of "map o_src offsets"] assms by (auto simp: bloom_size_ok_def)
  then show ?thesis
    using bloom_may_contain_spec [OF b(2)]
    by (auto simp: cached_metadata_new_def may_contain_src_def)
qed

subsection \<open>Properties\<close>

text \<open>Building the source filter of a segment never indexes its words out of range, and the
  filter never denies a source of the segment; any other lookup answers without panicking.\<close>

lemma bloom_no_false_negatives:
  assumes "length sources < 2 ^ 58"
  shows "\<exists>b. bloom_from_sources sources = Inr b \<and>
    (\<forall>src. \<exists>r. bloom_may_contain b src = Inr r \<and> (src \<in> set sources \<longrightarrow> r))"
proof -
  obtain b where "bloom_from_sources sources = Inr b" "bloom_ok b"
    "\<forall>src \<in> set sources. \<forall>i \<in> set (bits_for (bl_mask b) src). bit_is_set (bl_bits b) i"
    using bloom_from_sources_spec [of sources] assms by (auto simp: bloom_size_ok_def)
  then show ?thesis using bloom_may_contain_spec [of b] by auto
qed

lemma bloom_no_false_negatives_example:
  "\<exists>b. bloom_from_sources [3, 72057594037927937, 5] = Inr b \<and>
    (\<forall>src. \<exists>r. bloom_may_contain b src = Inr r \<and> (src \<in> set [3, 72057594037927937, 5] \<longrightarrow> r))"
  by (rule bloom_no_false_negatives) simp

text \<open>C27. The metadata cache never holds more than its configured number of entries, returns
  after an insert the inserted metadata, and any other entry it still holds is unchanged.\<close>

theorem cache_bounded_and_coherent:
  assumes "cache_inv c"
  shows "cache_inv (cache_insert f v c) \<and>
    length (ca_map (cache_insert f v c)) \<le> ca_max c \<and>
    fst (cache_get f (cache_insert f v c)) = Some v \<and>
    (g \<noteq> f \<longrightarrow> fst (cache_get g (cache_insert f v c)) \<in> {None, fst (cache_get g c)})"
proof -
  note s = cache_insert_spec [OF assms, of f v]
  have "hm_get (ca_map (cache_insert f v c)) g \<in> {None, hm_get (ca_map c) g}" if "g \<noteq> f"
    using s that by (cases "hm_get (ca_map (cache_insert f v c)) g") auto
  then show ?thesis using s by (auto simp: cache_inv_def fst_cache_get)
qed

theorem cache_bounded_and_coherent_witness:
  "length (ca_map (cache_insert 7 True (cache_new 0))) \<le> 1"
  using cache_bounded_and_coherent [OF cache_inv_new [of 0], of 7 True 7]
  by (simp add: cache_new_def)

text \<open>The queue keeps every past position of an id and the eviction pops the oldest one, so
  an entry that was just read is evicted before one that was not: with room for two, after
  storing 1 and 2 and reading 1 again, storing 3 drops 1.\<close>

lemma cache_evicts_recently_used:
  "let c = cache_insert 2 ''b'' (cache_insert 1 ''a'' (cache_new 2));
       c = snd (cache_get 1 c);
       c = cache_insert 3 ''c'' c
   in fst (cache_get 1 c) = None \<and> fst (cache_get 2 c) = Some ''b''"
  by (simp add: cache_new_def cache_insert_def cache_get_def hm_get_def hm_insert_def hm_remove_def Let_def)

end
