(* ===== verification/Segments.thy ===== *)
theory Segments
  imports Csr_Format Io_Backend Std_Maps
begin

section \<open>Cutting records into segments\<close>

text \<open>
  The pure helpers of \<^verbatim>\<open>src/graph.rs\<close>, with the engine's configuration of
  \<^verbatim>\<open>src/config.rs\<close> and the levels of \<^verbatim>\<open>src/levels.rs\<close>: how a flush and a compaction cut their
  sorted records into segments, and which segments a targeted compaction takes.
\<close>

record lsm_config =
  cfg_store_dir :: string
  cfg_memgraph_capacity_bytes :: nat
  cfg_inline_segment_capacity :: nat
  cfg_level_fanout :: nat
  cfg_max_levels :: nat
  cfg_l0_file_threshold :: nat
  cfg_segment_target_bytes :: nat
  cfg_min_l0_partition_bytes :: nat
  cfg_max_l0_segments_per_flush :: nat
  cfg_max_background_flushes :: nat
  cfg_max_outstanding_io :: nat
  cfg_io_backend :: io_backend_kind
  cfg_auto_compaction :: bool
  cfg_graph_aware_l0 :: bool
  cfg_l0_ra_range_bucket_size :: u64
  cfg_l0_ra_min_queries :: u64
  cfg_l0_ra_min_l0_segments :: nat

definition config_new :: "string \<Rightarrow> lsm_config" where
  "config_new store_dir =
     \<lparr>cfg_store_dir = store_dir, cfg_memgraph_capacity_bytes = 64 * 1024 * 1024,
      cfg_inline_segment_capacity = 8, cfg_level_fanout = 10, cfg_max_levels = 5,
      cfg_l0_file_threshold = 4, cfg_segment_target_bytes = 64 * 1024 * 1024,
      cfg_min_l0_partition_bytes = 4 * 1024 * 1024, cfg_max_l0_segments_per_flush = 128,
      cfg_max_background_flushes = 2, cfg_max_outstanding_io = 128, cfg_io_backend = Blocking,
      cfg_auto_compaction = False, cfg_graph_aware_l0 = False,
      cfg_l0_ra_range_bucket_size = 1048576, cfg_l0_ra_min_queries = 10,
      cfg_l0_ra_min_l0_segments = 2\<rparr>"

definition with_memgraph_capacity :: "nat \<Rightarrow> lsm_config \<Rightarrow> lsm_config" where
  "with_memgraph_capacity bytes cfg = cfg\<lparr>cfg_memgraph_capacity_bytes := bytes\<rparr>"

definition with_io_backend :: "io_backend_kind \<Rightarrow> lsm_config \<Rightarrow> lsm_config" where
  "with_io_backend backend cfg = cfg\<lparr>cfg_io_backend := backend\<rparr>"

definition with_auto_compaction :: "bool \<Rightarrow> lsm_config \<Rightarrow> lsm_config" where
  "with_auto_compaction enabled cfg = cfg\<lparr>cfg_auto_compaction := enabled\<rparr>"

definition with_graph_aware_l0 :: "bool \<Rightarrow> lsm_config \<Rightarrow> lsm_config" where
  "with_graph_aware_l0 enabled cfg = cfg\<lparr>cfg_graph_aware_l0 := enabled\<rparr>"

subsection \<open>Levels\<close>

type_synonym levels = "csr_segment_meta list list"

definition L0 :: level_id where "L0 = 0"
definition L1 :: level_id where "L1 = 1"

text \<open>\<^verbatim>\<open>Vec::resize\<close> with a longer length.\<close>

definition resize_levels :: "nat \<Rightarrow> levels \<Rightarrow> levels" where
  "resize_levels n ls = take n ls @ replicate (n - length ls) []"

definition ensure_level :: "level_id \<Rightarrow> levels \<Rightarrow> levels" where
  "ensure_level level ls =
     (if length ls \<le> unat level then resize_levels (unat level + 1) ls else ls)"

fun split_levels_loop :: "csr_segment_meta list \<Rightarrow> levels \<Rightarrow> levels" where
  "split_levels_loop [] ls = ls"
| "split_levels_loop (m # ms) ls =
     (let idx = unat (m_level m);
          ls = (if length ls \<le> idx then resize_levels (idx + 1) ls else ls)
      in split_levels_loop ms (ls[idx := ls ! idx @ [m]]))"

definition split_levels :: "csr_segment_meta list \<Rightarrow> nat \<Rightarrow> levels" where
  "split_levels files max_levels =
     map (sort_key (\<lambda>m. (m_min_src m, m_file_id m)))
       (split_levels_loop files (replicate (max max_levels 2) []))"

definition sort_level :: "csr_segment_meta list \<Rightarrow> csr_segment_meta list" where
  "sort_level ms =
     sort_key (\<lambda>m. (sint (m_src_label m), sint (m_edge_type_partition m), m_min_src m, m_file_id m)) ms"

lemma sort_level_simps [simp]: "set (sort_level ms) = set ms" "mset (sort_level ms) = mset ms"
  by (simp_all add: sort_level_def)

lemma resize_levels_concat: "length ls \<le> n \<Longrightarrow> concat (resize_levels n ls) = concat ls"
  by (simp add: resize_levels_def)

lemma nth_resize_levels:
  "length ls \<le> n \<Longrightarrow> j < length (resize_levels n ls) \<Longrightarrow>
   resize_levels n ls ! j = (if j < length ls then ls ! j else [])"
  by (simp add: resize_levels_def nth_append)

lemma mset_split_levels_loop:
  "mset (concat (split_levels_loop ms ls)) = mset ms + mset (concat ls)"
proof (induction ms ls rule: split_levels_loop.induct)
  case (2 m ms ls)
  let ?i = "unat (m_level m)"
  let ?ls = "if length ls \<le> ?i then resize_levels (?i + 1) ls else ls"
  have "?i < length ?ls" by (simp add: resize_levels_def)
  then have "mset (concat (?ls[?i := ?ls ! ?i @ [m]])) = add_mset m (mset (concat ?ls))"
    using mset_concat_list_update [of ?i ?ls "?ls ! ?i @ [m]"] by simp
  moreover have "concat ?ls = concat ls" by (simp add: resize_levels_concat)
  ultimately show ?case using 2 [OF refl refl] by (simp add: Let_def)
qed simp

lemma mset_concat_map_sort: "mset (concat (map (sort_key f) xss)) = mset (concat xss)"
  by (induction xss) auto

lemma mset_split_levels: "mset (concat (split_levels files n)) = mset files"
  by (simp add: split_levels_def mset_concat_map_sort mset_split_levels_loop)

lemma split_levels_loop_placed:
  assumes "\<forall>i < length ls. \<forall>m \<in> set (ls ! i). unat (m_level m) = i"
    and "i < length (split_levels_loop ms ls)" "m \<in> set (split_levels_loop ms ls ! i)"
  shows "unat (m_level m) = i"
  using assms
proof (induction ms ls rule: split_levels_loop.induct)
  case (2 x ms ls)
  let ?i = "unat (m_level x)"
  let ?ls = "if length ls \<le> ?i then resize_levels (?i + 1) ls else ls"
  have "\<forall>j < length (resize_levels (?i + 1) ls). \<forall>m \<in> set (resize_levels (?i + 1) ls ! j). unat (m_level m) = j"
    if "length ls \<le> ?i"
    using 2(2) that by (simp add: nth_resize_levels)
  then have ok: "\<forall>j < length ?ls. \<forall>m \<in> set (?ls ! j). unat (m_level m) = j"
    using 2(2) by (cases "length ls \<le> ?i") (simp_all only: if_True if_False True_implies_equals)
  define l1 where "l1 = ?ls"
  have ok1: "unat (m_level m) = j" if "j < length l1" "m \<in> set (l1 ! j)" for j m
    using ok that unfolding l1_def by blast
  have placed: "\<forall>j < length (l1[?i := l1 ! ?i @ [x]]). \<forall>m \<in> set (l1[?i := l1 ! ?i @ [x]] ! j). unat (m_level m) = j"
  proof (intro allI impI ballI)
    fix j m
    assume j: "j < length (l1[?i := l1 ! ?i @ [x]])" and m: "m \<in> set (l1[?i := l1 ! ?i @ [x]] ! j)"
    show "unat (m_level m) = j"
    proof (cases "j = ?i")
      case True
      with m j have "m = x \<or> m \<in> set (l1 ! j)" by (simp add: nth_list_update_eq)
      moreover have "j < length l1" using j by simp
      ultimately show ?thesis using True ok1 by blast
    next
      case False
      with m have "m \<in> set (l1 ! j)" by simp
      moreover have "j < length l1" using j by simp
      ultimately show ?thesis using ok1 by blast
    qed
  qed
  have eq: "split_levels_loop (x # ms) ls = split_levels_loop ms (l1[?i := l1 ! ?i @ [x]])"
    by (simp only: split_levels_loop.simps Let_def l1_def)
  show ?case
    by (rule 2(1) [OF refl refl, folded l1_def, OF placed]) (fact 2(3,4) [unfolded eq])+
qed simp

subsection \<open>Segments of bounded size\<close>

definition estimate_segment_bytes :: "edge_record list \<Rightarrow> nat" where
  "estimate_segment_bytes es = length es * EDGE_RECORD_SIZE"

fun split_range_loop ::
  "nat \<Rightarrow> edge_record list \<Rightarrow> edge_record list list \<Rightarrow> edge_record list \<Rightarrow> vertex_id option \<Rightarrow> edge_record list list"
where
  "split_range_loop target [] segments current last_src =
     (if current \<noteq> [] then segments @ [current] else segments)"
| "split_range_loop target (e # es) segments current last_src =
     (if current \<noteq> [] \<and> target \<le> length current \<and> (\<exists>s. last_src = Some s \<and> s \<noteq> e_src e)
      then split_range_loop target es (segments @ [current]) [e] (Some (e_src e))
      else split_range_loop target es segments (current @ [e]) (Some (e_src e)))"

definition split_range_bounded_segments :: "edge_record list \<Rightarrow> nat \<Rightarrow> edge_record list list" where
  "split_range_bounded_segments edges target_segment_bytes =
     (if edges = [] then []
      else split_range_loop (max (target_segment_bytes div EDGE_RECORD_SIZE) 1) edges [] [] None)"

definition split_compaction_segments :: "edge_record list \<Rightarrow> nat \<Rightarrow> edge_record list list" where
  "split_compaction_segments edges target =
     split_range_bounded_segments (sort_key edge_sort_key edges) target"

definition div_ceil :: "nat \<Rightarrow> nat \<Rightarrow> nat" where
  "div_ceil a b = (a + b - 1) div b"

fun merge_cap_loop ::
  "nat \<Rightarrow> nat \<Rightarrow> edge_record list list \<Rightarrow> edge_record list list \<Rightarrow> edge_record list \<Rightarrow> edge_record list list"
where
  "merge_cap_loop chunk idx [] merged current =
     (if current \<noteq> [] then merged @ [current] else merged)"
| "merge_cap_loop chunk idx (seg # segs) merged current =
     (if (idx + 1) mod chunk = 0
      then merge_cap_loop chunk (idx + 1) segs (merged @ [current @ seg]) []
      else merge_cap_loop chunk (idx + 1) segs merged (current @ seg))"

definition merge_segments_to_cap :: "edge_record list list \<Rightarrow> nat \<Rightarrow> edge_record list list" where
  "merge_segments_to_cap segments max_segments =
     (if length segments \<le> max_segments \<or> max_segments = 0 then segments
      else merge_cap_loop (div_ceil (length segments) max_segments) 0 segments [] [])"

text \<open>\<^verbatim>\<open>partitions.entry(k).or_default().extend(es)\<close>.\<close>

definition bt_extend :: "'k::linorder \<Rightarrow> 'v list \<Rightarrow> ('k, 'v list) btree_map \<Rightarrow> ('k, 'v list) btree_map" where
  "bt_extend k vs m = bt_insert k ((case bt_get m k of None \<Rightarrow> [] | Some xs \<Rightarrow> xs) @ vs) m"

text \<open>The keys are pairs of \<^verbatim>\<open>i32\<close>, compared as signed numbers.\<close>

definition l0_exact_groups :: "edge_record list \<Rightarrow> (int \<times> int, edge_record list) btree_map" where
  "l0_exact_groups edges =
     fold (\<lambda>e. bt_extend (sint (source_label_from_vertex_id (e_src e)), sint (e_type e)) [e]) edges []"

definition l0_partitions ::
  "lsm_config \<Rightarrow> (int \<times> int, edge_record list) btree_map \<Rightarrow> (int \<times> int, edge_record list) btree_map"
where
  "l0_partitions cfg exact =
     fold (\<lambda>((label, typ), group).
         bt_extend
           (label, if estimate_segment_bytes group < cfg_min_l0_partition_bytes cfg
                   then sint MIXED_EDGE_TYPE else typ)
           group)
       exact []"

definition build_l0_flush_segments :: "lsm_config \<Rightarrow> edge_record list \<Rightarrow> edge_record list list" where
  "build_l0_flush_segments cfg edges =
     (if \<not> cfg_graph_aware_l0 cfg then [edges]
      else
        let partitions = l0_partitions cfg (l0_exact_groups edges);
            segments = concat (map (\<lambda>(_, group).
              split_range_bounded_segments (sort_key edge_sort_key group) (cfg_segment_target_bytes cfg))
              partitions)
        in if segments = [] then []
           else if length segments \<le> cfg_max_l0_segments_per_flush cfg then segments
           else merge_segments_to_cap segments (cfg_max_l0_segments_per_flush cfg))"

subsection \<open>Targets of a compaction\<close>

record l0_compaction_target =
  t_src_label :: i32
  t_edge_type :: "edge_type option"
  t_min_src :: "vertex_id option"
  t_max_src :: "vertex_id option"

definition ranges_overlap :: "vertex_id \<Rightarrow> vertex_id \<Rightarrow> vertex_id \<Rightarrow> vertex_id \<Rightarrow> bool" where
  "ranges_overlap left_min left_max right_min right_max \<longleftrightarrow>
     left_min \<le> right_max \<and> right_min \<le> left_max"

definition partition_overlaps_target :: "csr_segment_meta \<Rightarrow> i32 \<Rightarrow> edge_type option \<Rightarrow> bool" where
  "partition_overlaps_target meta src_label edge_type =
     (let label_matches = (src_label = UNKNOWN_SOURCE_LABEL \<or> m_src_label meta = UNKNOWN_SOURCE_LABEL \<or>
            m_src_label meta = src_label);
          edge_matches = (case edge_type of
             Some t \<Rightarrow> m_edge_type_partition meta = MIXED_EDGE_TYPE \<or> m_edge_type_partition meta = t
           | None \<Rightarrow> True)
      in label_matches \<and> edge_matches)"

definition target_matches_meta :: "csr_segment_meta \<Rightarrow> l0_compaction_target \<Rightarrow> bool" where
  "target_matches_meta meta target =
     (if \<not> partition_overlaps_target meta (t_src_label target) (t_edge_type target) then False
      else case (t_min_src target, t_max_src target) of
             (Some lo, Some hi) \<Rightarrow> ranges_overlap (m_min_src meta) (m_max_src meta) lo hi
           | _ \<Rightarrow> True)"

definition estimated_meta_bytes :: "csr_segment_meta \<Rightarrow> u64" where
  "estimated_meta_bytes meta =
     (if 0 < m_segment_bytes meta then m_segment_bytes meta
      else m_edge_count meta * of_nat EDGE_RECORD_SIZE)"

subsection \<open>No record is lost or split off its source\<close>

lemma split_range_loop_concat:
  "concat (split_range_loop target es segments current ls) = concat segments @ current @ es"
  by (induction target es segments current ls rule: split_range_loop.induct) auto

lemma split_range_concat: "concat (split_range_bounded_segments edges target) = edges"
  by (simp add: split_range_bounded_segments_def split_range_loop_concat)

lemma split_range_loop_nonempty:
  "\<forall>s \<in> set segments. s \<noteq> [] \<Longrightarrow> \<forall>s \<in> set (split_range_loop target es segments current ls). s \<noteq> []"
  by (induction target es segments current ls rule: split_range_loop.induct) auto

lemma split_range_nonempty: "s \<in> set (split_range_bounded_segments edges target) \<Longrightarrow> s \<noteq> []"
  using split_range_loop_nonempty [of "[]" "max (target div EDGE_RECORD_SIZE) 1" edges "[]" None]
  by (auto simp: split_range_bounded_segments_def split: if_splits)

text \<open>Every finished segment but the last reaches the target size.\<close>

lemma split_range_loop_sizes:
  "\<forall>s \<in> set segments. target \<le> length s \<Longrightarrow>
   \<forall>s \<in> set (butlast (split_range_loop target es segments current ls)). target \<le> length s"
proof (induction target es segments current ls rule: split_range_loop.induct)
  case (1 target segments current ls)
  then show ?case by (auto dest: in_set_butlastD)
qed (auto split: if_splits)

text \<open>A new segment starts where the source changes, so on sorted records the sources of two
  segments are disjoint and in order.\<close>

fun boundaries_ok :: "edge_record list list \<Rightarrow> bool" where
  "boundaries_ok (a # b # segs) \<longleftrightarrow> e_src (last a) \<noteq> e_src (hd b) \<and> boundaries_ok (b # segs)"
| "boundaries_ok segs \<longleftrightarrow> True"

lemma boundaries_snoc2:
  "boundaries_ok (segs @ [a, b]) \<longleftrightarrow> boundaries_ok (segs @ [a]) \<and> e_src (last a) \<noteq> e_src (hd b)"
  by (induction segs rule: boundaries_ok.induct) auto

lemma boundaries_grow:
  "a \<noteq> [] \<Longrightarrow> boundaries_ok (segs @ [a @ [e]]) \<longleftrightarrow> boundaries_ok (segs @ [a])"
  by (induction segs rule: boundaries_ok.induct) (auto simp: hd_append)

lemma split_range_loop_boundaries:
  assumes "current = [] \<Longrightarrow> segments = []"
    and "current \<noteq> [] \<Longrightarrow> boundaries_ok (segments @ [current]) \<and> ls = Some (e_src (last current))"
  shows "boundaries_ok (split_range_loop target es segments current ls)"
  using assms
proof (induction target es segments current ls rule: split_range_loop.induct)
  case (1 target segments current ls)
  then show ?case by auto
next
  case (2 target e es segments current ls)
  show ?case
  proof (cases "current \<noteq> [] \<and> target \<le> length current \<and> (\<exists>s. ls = Some s \<and> s \<noteq> e_src e)")
    case True
    then have "boundaries_ok (segments @ [current, [e]])"
      using 2(4) by (simp add: boundaries_snoc2)
    then show ?thesis unfolding split_range_loop.simps if_P [OF True] using 2(1) [OF True] by simp
  next
    case False
    have "boundaries_ok (segments @ [current @ [e]])"
      using 2(3,4) by (cases "current = []") (auto simp: boundaries_grow)
    then show ?thesis unfolding split_range_loop.simps if_not_P [OF False] using 2(2) [OF False] by simp
  qed
qed

definition sources_before :: "edge_record list \<Rightarrow> edge_record list \<Rightarrow> bool" where
  "sources_before a b \<longleftrightarrow> (\<forall>x \<in> set a. \<forall>y \<in> set b. e_src x < e_src y)"

lemma boundaries_sorted:
  assumes "boundaries_ok segs" "\<forall>s \<in> set segs. s \<noteq> []" "sorted (map e_src (concat segs))"
  shows "sorted_wrt sources_before segs"
  using assms
proof (induction segs)
  case (Cons a segs)
  show ?case
  proof (cases segs)
    case (Cons b rest)
    have ne: "a \<noteq> []" "b \<noteq> []" using Cons.prems(2) Cons by auto
    have srt: "sorted (map e_src a)" "sorted (map e_src (concat segs))"
      "\<forall>x \<in> set a. \<forall>y \<in> set (concat segs). e_src x \<le> e_src y"
      using Cons.prems(3) by (auto simp: sorted_append)
    have la: "e_src x \<le> e_src (last a)" if "x \<in> set a" for x
      using srt(1) that ne(1) by (induction a) (auto split: if_splits)
    have hb: "e_src (hd b) \<le> e_src y" if "y \<in> set (concat segs)" for y
      using srt(2) that ne(2) Cons by (cases b) auto
    have "last a \<in> set a" "hd b \<in> set (concat segs)" using ne Cons by auto
    then have "e_src (last a) < e_src (hd b)"
      using srt(3) Cons.prems(1) Cons by (simp add: order_less_le)
    then have "e_src x < e_src y" if "x \<in> set a" "y \<in> set (concat segs)" for x y
      using la [OF that(1)] hb [OF that(2)] by order
    then have "\<forall>s \<in> set segs. sources_before a s" by (auto simp: sources_before_def)
    moreover have "sorted_wrt sources_before segs"
      using Cons.IH Cons.prems srt(2) Cons by simp
    ultimately show ?thesis by simp
  qed simp
qed simp

lemma split_range_disjoint:
  assumes "sorted (map e_src edges)"
  shows "sorted_wrt sources_before (split_range_bounded_segments edges target)"
proof (rule boundaries_sorted)
  show "boundaries_ok (split_range_bounded_segments edges target)"
    unfolding split_range_bounded_segments_def by (auto intro!: split_range_loop_boundaries)
qed (use split_range_nonempty split_range_concat assms in auto)

subsection \<open>Merging down to a number of segments\<close>

lemma merge_cap_loop_concat:
  "concat (merge_cap_loop chunk idx segs merged current) = concat merged @ current @ concat segs"
  by (induction chunk idx segs merged current rule: merge_cap_loop.induct) auto

lemma merge_cap_loop_length:
  assumes "0 < chunk" "current \<noteq> [] \<Longrightarrow> idx mod chunk \<noteq> 0"
  shows "length (merge_cap_loop chunk idx segs merged current) + idx div chunk \<le>
    length merged + (idx + length segs + chunk - 1) div chunk"
  using assms
proof (induction chunk idx segs merged current rule: merge_cap_loop.induct)
  case (1 chunk idx merged current)
  show ?case
  proof (cases "idx mod chunk = 0")
    case True
    then have "current = []" using 1(2) by auto
    moreover have "idx div chunk \<le> (idx + chunk - 1) div chunk"
      using 1(1) by (intro div_le_mono) simp
    ultimately show ?thesis by simp
  next
    case False
    then have "idx = idx div chunk * chunk + idx mod chunk" "0 < idx mod chunk" by simp_all
    then have "(idx div chunk + 1) * chunk \<le> idx + chunk - 1"
      unfolding add_mult_distrib mult_1 by linarith
    then have "idx div chunk + 1 \<le> (idx + chunk - 1) div chunk"
      using 1(1) by (simp add: less_eq_div_iff_mult_less_eq)
    then show ?thesis by simp
  qed
next
  case (2 chunk idx seg segs merged current)
  show ?case
  proof (cases "(idx + 1) mod chunk = 0")
    case True
    have "(idx + 1) div chunk = idx div chunk + 1"
      using True 2(3) by (simp add: div_Suc)
    then show ?thesis using 2(1) [OF True] 2(3) True by simp
  next
    case False
    have "(idx + 1) div chunk = idx div chunk"
      using False 2(3) by (simp add: div_Suc)
    then show ?thesis using 2(2) [OF False] 2(3) False by simp
  qed
qed

lemma div_ceil_mult: "0 < b \<Longrightarrow> a \<le> b * div_ceil a b"
  unfolding div_ceil_def
  using mult_div_mod_eq [of b "a + b - 1"] mod_less_divisor [of b "a + b - 1"] by linarith

lemma merge_segments_concat: "concat (merge_segments_to_cap segs n) = concat segs"
  by (simp add: merge_segments_to_cap_def merge_cap_loop_concat)

lemma merge_segments_cap:
  assumes "0 < n" shows "length (merge_segments_to_cap segs n) \<le> n"
proof (cases "length segs \<le> n")
  case False
  let ?c = "div_ceil (length segs) n"
  have c: "length segs \<le> n * ?c" by (rule div_ceil_mult [OF assms])
  then have pos: "0 < ?c" using False by (cases ?c) auto
  have "(length segs + ?c - 1) div ?c < Suc n"
    using c pos by (simp add: div_less_iff_less_mult)
  moreover have "length (merge_cap_loop ?c 0 segs [] []) \<le> (length segs + ?c - 1) div ?c"
    using merge_cap_loop_length [OF pos, of "[]" 0 segs "[]"] by simp
  ultimately show ?thesis using False assms by (simp add: merge_segments_to_cap_def)
qed (simp add: merge_segments_to_cap_def)

lemma merge_cap_loop_nonempty:
  assumes "\<forall>s \<in> set segs. s \<noteq> []" "\<forall>s \<in> set merged. s \<noteq> []"
  shows "\<forall>s \<in> set (merge_cap_loop chunk idx segs merged current). s \<noteq> []"
  using assms
  by (induction chunk idx segs merged current rule: merge_cap_loop.induct) auto

subsection \<open>The segments of a flush\<close>

lemma mset_bt_insert_values:
  assumes "bt_inv m"
  shows "mset (concat (map snd (bt_insert k v m))) + (case bt_get m k of None \<Rightarrow> {#} | Some w \<Rightarrow> mset w) =
    mset v + mset (concat (map snd m))"
  using assms
proof (induction k v m rule: bt_insert.induct)
  case (2 k v k' v' m)
  have "map_of m k = None" if "k < k'"
    using 2(2) that by (auto simp: bt_inv_def map_of_eq_None_iff)
  with 2 show ?case by (auto simp: bt_get_def bt_inv_def union_ac)
qed (simp add: bt_get_def)

lemma bt_extend_spec:
  assumes "bt_inv m"
  shows "bt_inv (bt_extend k vs m)"
    and "mset (concat (map snd (bt_extend k vs m))) = mset vs + mset (concat (map snd m))"
  using assms mset_bt_insert_values [OF assms, of k "(case bt_get m k of None \<Rightarrow> [] | Some xs \<Rightarrow> xs) @ vs"]
  by (auto simp: bt_extend_def bt_inv_insert split: option.splits)

lemma fold_bt_extend:
  assumes "bt_inv m"
  shows "bt_inv (fold (\<lambda>x. bt_extend (f x) (g x)) xs m) \<and>
    mset (concat (map snd (fold (\<lambda>x. bt_extend (f x) (g x)) xs m))) =
    mset (concat (map g xs)) + mset (concat (map snd m))"
  using assms by (induction xs arbitrary: m) (auto simp: bt_extend_spec union_ac)

lemma l0_exact_groups_mset: "mset (concat (map snd (l0_exact_groups edges))) = mset edges"
  unfolding l0_exact_groups_def
  using fold_bt_extend [OF bt_inv_Nil, of "\<lambda>e. (sint (source_label_from_vertex_id (e_src e)), sint (e_type e))"
      "\<lambda>e. [e]" edges] by (simp add: mset_concat_map comp_def)

lemma l0_partitions_mset: "mset (concat (map snd (l0_partitions cfg m))) = mset (concat (map snd m))"
proof -
  let ?k = "\<lambda>p. (fst (fst p), if estimate_segment_bytes (snd p) < cfg_min_l0_partition_bytes cfg
      then sint MIXED_EDGE_TYPE else snd (fst p))"
  have "l0_partitions cfg m = fold (\<lambda>p. bt_extend (?k p) (snd p)) m []"
    unfolding l0_partitions_def by (rule fold_cong) (auto simp: split_beta)
  then show ?thesis using fold_bt_extend [OF bt_inv_Nil, of ?k snd m] by simp
qed

lemma split_partitions_mset:
  "mset (concat (concat (map (\<lambda>(_, group). split_range_bounded_segments (sort_key edge_sort_key group) t) ps))) =
   mset (concat (map snd ps))"
  by (induction ps) (auto simp: split_range_concat)

lemma build_l0_flush_segments_mset:
  "mset (concat (build_l0_flush_segments cfg edges)) = mset edges"
proof -
  let ?ps = "l0_partitions cfg (l0_exact_groups edges)"
  let ?segs = "concat (map (\<lambda>(_, group).
      split_range_bounded_segments (sort_key edge_sort_key group) (cfg_segment_target_bytes cfg)) ?ps)"
  have "mset (concat ?segs) = mset edges"
    by (simp only: split_partitions_mset l0_partitions_mset l0_exact_groups_mset)
  moreover from this have "edges = []" if "?segs = []" unfolding that by simp
  ultimately show ?thesis
    by (auto simp: build_l0_flush_segments_def Let_def merge_segments_concat)
qed

lemma build_l0_flush_segments_cap:
  assumes "cfg_graph_aware_l0 cfg" "0 < cfg_max_l0_segments_per_flush cfg"
  shows "length (build_l0_flush_segments cfg edges) \<le> cfg_max_l0_segments_per_flush cfg"
  using merge_segments_cap [OF assms(2)] assms by (simp add: build_l0_flush_segments_def Let_def)

subsection \<open>Properties\<close>

text \<open>Cutting records sorted by source keeps them all in order, never leaves a source in two
  segments, makes no empty segment, and every segment but the last has at least the target
  number of records.\<close>

lemma split_segments_correct:
  assumes "sorted (map e_src edges)"
  shows "concat (split_range_bounded_segments edges target) = edges \<and>
    sorted_wrt (\<lambda>a b. \<forall>x \<in> set a. \<forall>y \<in> set b. e_src x < e_src y)
      (split_range_bounded_segments edges target) \<and>
    [] \<notin> set (split_range_bounded_segments edges target) \<and>
    (\<forall>s \<in> set (butlast (split_range_bounded_segments edges target)).
       max (target div 32) 1 \<le> length s)"
proof -
  have "\<forall>s \<in> set (butlast (split_range_bounded_segments edges target)). max (target div 32) 1 \<le> length s"
    using split_range_loop_sizes [of "[]" "max (target div 32) 1" edges "[]" None]
    by (simp add: split_range_bounded_segments_def EDGE_RECORD_SIZE_def)
  then show ?thesis
    using split_range_concat split_range_disjoint [OF assms, unfolded sources_before_def]
      split_range_nonempty by blast
qed

text \<open>C21. A flush writes every record exactly once, however its records fall into partitions, and a
  partitioned flush makes at most the configured number of segments.\<close>

theorem flush_segments_correct:
  "mset (concat (build_l0_flush_segments cfg edges)) = mset edges \<and>
   (cfg_graph_aware_l0 cfg \<longrightarrow> 0 < cfg_max_l0_segments_per_flush cfg \<longrightarrow>
      length (build_l0_flush_segments cfg edges) \<le> cfg_max_l0_segments_per_flush cfg)"
  using build_l0_flush_segments_mset build_l0_flush_segments_cap by blast

theorem flush_segments_correct_witness:
  "length (build_l0_flush_segments
     ((config_new ''s'')\<lparr>cfg_graph_aware_l0 := True, cfg_max_l0_segments_per_flush := 1,
        cfg_segment_target_bytes := 32\<rparr>)
     [insert_record 1 2 1 1, insert_record 4 2 1 3]) \<le> 1"
  using flush_segments_correct [of "(config_new ''s'')\<lparr>cfg_graph_aware_l0 := True,
      cfg_max_l0_segments_per_flush := 1, cfg_segment_target_bytes := 32\<rparr>"]
  by simp

end
