(* ===== verification/Manifest.thy ===== *)
theory Manifest
  imports Segments
begin

section \<open>The manifest\<close>

text \<open>
  \<^verbatim>\<open>src/csr/manifest.rs\<close>: an append-only log of created and deleted segment files, one JSON
  object per line, from which an engine recovers its live files. Here the log is the list of its
  records, or absent; \<open>Manifest_Text\<close> has the lines of the file, which may also fail to parse.
\<close>

datatype manifest_record = Create_file csr_segment_meta | Delete_file file_id

record manifest_state =
  ms_live_files :: "csr_segment_meta list"
  ms_next_file_id :: file_id
  ms_max_ts :: timestamp

text \<open>One line of the loop of \<^verbatim>\<open>load\<close>: the live files in a \<^verbatim>\<open>BTreeMap\<close>, the largest file id and
  the largest timestamp.\<close>

type_synonym replay_state = "(file_id, csr_segment_meta) btree_map \<times> file_id \<times> timestamp"

fun manifest_step :: "manifest_record \<Rightarrow> replay_state \<Rightarrow> replay_state" where
  "manifest_step (Create_file meta) (live, max_file_id, max_ts) =
     (bt_insert (m_file_id meta) meta live, max max_file_id (m_file_id meta), max max_ts (m_max_ts meta))"
| "manifest_step (Delete_file f) (live, max_file_id, max_ts) = (bt_remove f live, max_file_id, max_ts)"

definition manifest_replay :: "manifest_record list \<Rightarrow> replay_state" where
  "manifest_replay log = fold manifest_step log ([], 0, 0)"

definition manifest_load :: "manifest_record list option \<Rightarrow> manifest_state" where
  "manifest_load log =
     (case log of
        None \<Rightarrow> \<lparr>ms_live_files = [], ms_next_file_id = 1, ms_max_ts = 0\<rparr>
      | Some records \<Rightarrow>
          (let (live, max_file_id, max_ts) = manifest_replay records
           in \<lparr>ms_live_files = bt_values live, ms_next_file_id = max_file_id + 1, ms_max_ts = max_ts\<rparr>))"

definition manifest_append :: "manifest_record \<Rightarrow> manifest_record list option \<Rightarrow> manifest_record list option" where
  "manifest_append r log = Some ((case log of None \<Rightarrow> [] | Some rs \<Rightarrow> rs) @ [r])"

subsection \<open>What a log says\<close>

fun created :: "manifest_record list \<Rightarrow> csr_segment_meta list" where
  "created [] = []"
| "created (Create_file m # log) = m # created log"
| "created (Delete_file f # log) = created log"

lemma created_append [simp]: "created (a @ b) = created a @ created b"
  by (induction a rule: created.induct) auto

lemma created_deletes [simp]: "created (map Delete_file fs) = []"
  by (induction fs) auto

lemma created_creates [simp]: "created (map Create_file ms) = ms"
  by (induction ms) auto

definition replay_ok :: "replay_state \<Rightarrow> bool" where
  "replay_ok s \<longleftrightarrow> bt_inv (fst s) \<and> (\<forall>f m. bt_get (fst s) f = Some m \<longrightarrow> m_file_id m = f)"

lemma replay_ok_step: "replay_ok s \<Longrightarrow> replay_ok (manifest_step r s)"
  by (cases s; cases r) (auto simp: replay_ok_def bt.inv_ins bt.inv_del bt.get_ins bt.get_del split: if_splits)

lemma replay_ok_fold: "replay_ok s \<Longrightarrow> replay_ok (fold manifest_step log s)"
  by (induction log arbitrary: s) (auto simp: replay_ok_step)

lemma replay_ok_replay: "replay_ok (manifest_replay log)"
  unfolding manifest_replay_def by (rule replay_ok_fold) (simp add: replay_ok_def bt.get_empty)

lemma manifest_replay_append: "manifest_replay (a @ b) = fold manifest_step b (manifest_replay a)"
  by (simp add: manifest_replay_def)

lemma replay_bounds:
  "snd (fold manifest_step log (live, f, t)) =
   (fold max (map m_file_id (created log)) f, fold max (map m_max_ts (created log)) t)"
  by (induction log arbitrary: live f t rule: created.induct) (auto simp: max.commute)

text \<open>Which file an id maps to after more records.\<close>

lemma fold_max_le: "x \<le> fold max xs (y :: 'a::linorder) \<longleftrightarrow> x \<le> y \<or> (\<exists>z \<in> set xs. x \<le> z)"
  by (induction xs arbitrary: y) (auto simp: le_max_iff_disj)

lemma live_files_map:
  "replay_ok s \<Longrightarrow> m \<in> set (bt_values (fst s)) \<longleftrightarrow> bt_get (fst s) (m_file_id m) = Some m"
proof -
  assume ok: "replay_ok s"
  then have "m \<in> set (bt_values (fst s)) \<longleftrightarrow> (\<exists>f. bt_get (fst s) f = Some m)"
    using bt.entries_get [of "fst s"] by (force simp: bt_values_def replay_ok_def)
  then show ?thesis using ok by (auto simp: replay_ok_def)
qed

lemma replay_create:
  assumes "replay_ok s"
  shows "set (bt_values (fst (manifest_step (Create_file m) s))) =
    insert m {x \<in> set (bt_values (fst s)). m_file_id x \<noteq> m_file_id m}"
proof -
  have "bt_inv (fst s)" using assms by (simp add: replay_ok_def)
  then show ?thesis
    using live_files_map [OF assms] live_files_map [OF replay_ok_step [OF assms, of "Create_file m"]]
    by (cases s) (auto simp: bt.get_ins split: if_splits)
qed

lemma replay_delete:
  assumes "replay_ok s"
  shows "set (bt_values (fst (manifest_step (Delete_file f) s))) =
    {x \<in> set (bt_values (fst s)). m_file_id x \<noteq> f}"
proof -
  have "bt_inv (fst s)" using assms by (simp add: replay_ok_def)
  then show ?thesis
    using live_files_map [OF assms] live_files_map [OF replay_ok_step [OF assms, of "Delete_file f"]]
    by (cases s) (auto simp: bt.get_del split: if_splits)
qed

lemma replay_deletes:
  assumes "replay_ok s"
  shows "set (bt_values (fst (fold manifest_step (map Delete_file fs) s))) =
    {x \<in> set (bt_values (fst s)). m_file_id x \<notin> set fs}"
  using assms
proof (induction fs arbitrary: s)
  case (Cons f fs)
  then show ?case using replay_ok_step [OF Cons.prems] replay_delete [OF Cons.prems] by auto
qed simp

lemma replay_creates:
  assumes "replay_ok s" "distinct (map m_file_id ms)"
    and "\<forall>m \<in> set ms. \<forall>x \<in> set (bt_values (fst s)). m_file_id x \<noteq> m_file_id m"
  shows "set (bt_values (fst (fold manifest_step (map Create_file ms) s))) = set ms \<union> set (bt_values (fst s))"
  using assms
proof (induction ms arbitrary: s)
  case (Cons m ms)
  let ?s = "manifest_step (Create_file m) s"
  have "{x \<in> set (bt_values (fst s)). m_file_id x \<noteq> m_file_id m} = set (bt_values (fst s))"
    using Cons.prems(3) by auto
  then have s: "set (bt_values (fst ?s)) = insert m (set (bt_values (fst s)))"
    using replay_create [OF Cons.prems(1), of m] by simp
  have "set (bt_values (fst (fold manifest_step (map Create_file ms) ?s))) = set ms \<union> set (bt_values (fst ?s))"
    using Cons.prems by (intro Cons.IH replay_ok_step) (auto simp: s)
  with s show ?case by simp
qed simp

lemma created_set: "m \<in> set (created log) \<longleftrightarrow> Create_file m \<in> set log"
  by (induction log rule: created.induct) auto

text \<open>A file is live when the log creates it and later neither deletes it nor creates its id
  again.\<close>

definition live_in_log :: "manifest_record list \<Rightarrow> csr_segment_meta \<Rightarrow> bool" where
  "live_in_log log m \<longleftrightarrow>
     (\<exists>a b. log = a @ Create_file m # b \<and> Delete_file (m_file_id m) \<notin> set b \<and>
        (\<forall>x \<in> set (created b). m_file_id x \<noteq> m_file_id m))"

lemma live_in_log_snoc:
  "live_in_log (log @ [r]) m \<longleftrightarrow>
     r = Create_file m \<or>
     live_in_log log m \<and> r \<noteq> Delete_file (m_file_id m) \<and> (\<forall>x. r = Create_file x \<longrightarrow> m_file_id x \<noteq> m_file_id m)"
proof
  assume "live_in_log (log @ [r]) m"
  then obtain a b where ab: "log @ [r] = a @ Create_file m # b" "Delete_file (m_file_id m) \<notin> set b"
    "\<forall>x \<in> set (created b). m_file_id x \<noteq> m_file_id m"
    unfolding live_in_log_def by blast
  show "r = Create_file m \<or>
     live_in_log log m \<and> r \<noteq> Delete_file (m_file_id m) \<and> (\<forall>x. r = Create_file x \<longrightarrow> m_file_id x \<noteq> m_file_id m)"
  proof (cases b rule: rev_cases)
    case Nil
    with ab(1) show ?thesis by simp
  next
    case (snoc c r')
    with ab(1) have "log = a @ Create_file m # c" "r' = r" by auto
    moreover have "Delete_file (m_file_id m) \<notin> set c" "\<forall>x \<in> set (created c). m_file_id x \<noteq> m_file_id m"
      using ab(2,3) snoc by auto
    moreover from calculation have "live_in_log log m" unfolding live_in_log_def by blast
    moreover have "m_file_id x \<noteq> m_file_id m" if "r = Create_file x" for x
      using ab(3) snoc calculation(2) that by simp
    ultimately show ?thesis using ab(2) snoc by auto
  qed
next
  assume "r = Create_file m \<or>
     live_in_log log m \<and> r \<noteq> Delete_file (m_file_id m) \<and> (\<forall>x. r = Create_file x \<longrightarrow> m_file_id x \<noteq> m_file_id m)"
  then show "live_in_log (log @ [r]) m"
  proof
    assume "r = Create_file m"
    then show ?thesis
      unfolding live_in_log_def by (intro exI [of _ log] exI [of _ "[]"]) simp
  next
    assume r: "live_in_log log m \<and> r \<noteq> Delete_file (m_file_id m) \<and>
      (\<forall>x. r = Create_file x \<longrightarrow> m_file_id x \<noteq> m_file_id m)"
    then obtain a b where ab: "log = a @ Create_file m # b" "Delete_file (m_file_id m) \<notin> set b"
      "\<forall>x \<in> set (created b). m_file_id x \<noteq> m_file_id m"
      unfolding live_in_log_def by blast
    have "log @ [r] = a @ Create_file m # (b @ [r])" using ab(1) by simp
    moreover have "\<forall>x \<in> set (created (b @ [r])). m_file_id x \<noteq> m_file_id m"
      using r ab(3) by (cases r) auto
    moreover have "Delete_file (m_file_id m) \<notin> set (b @ [r])" using r ab(2) by auto
    ultimately show ?thesis unfolding live_in_log_def by blast
  qed
qed

lemma live_files_iff: "m \<in> set (bt_values (fst (manifest_replay log))) \<longleftrightarrow> live_in_log log m"
proof (induction log rule: rev_induct)
  case Nil
  then show ?case by (simp add: manifest_replay_def bt_values_def live_in_log_def)
next
  case (snoc r log)
  have ok: "replay_ok (manifest_replay log)" by (rule replay_ok_replay)
  have step: "manifest_replay (log @ [s]) = manifest_step s (manifest_replay log)" for s
    by (simp add: manifest_replay_def)
  show ?case
  proof (cases r)
    case (Create_file x)
    then show ?thesis
      by (simp only: step replay_create [OF ok] insert_iff mem_Collect_eq snoc live_in_log_snoc
          manifest_record.inject manifest_record.distinct) auto
  next
    case (Delete_file f)
    then show ?thesis
      by (simp only: step replay_delete [OF ok] mem_Collect_eq snoc live_in_log_snoc
          manifest_record.inject manifest_record.distinct) auto
  qed
qed

lemma manifest_ids:
  assumes "Create_file m \<in> set log"
  shows "m_file_id m \<le> fst (snd (manifest_replay log)) \<and> m_max_ts m \<le> snd (snd (manifest_replay log))"
proof -
  have "m \<in> set (created log)" using assms by (simp add: created_set)
  then show ?thesis
    unfolding manifest_replay_def replay_bounds by (auto simp: fold_max_le)
qed

lemma live_files_distinct:
  assumes "replay_ok s" shows "distinct (map m_file_id (bt_values (fst s)))"
proof -
  have ok: "bt_inv (fst s)" "\<forall>g x. bt_get (fst s) g = Some x \<longrightarrow> m_file_id x = g"
    using assms by (auto simp: replay_ok_def)
  have "\<forall>(g, x) \<in> set (fst s). m_file_id x = g" using ok by (auto simp: bt.entries_get)
  then have "map m_file_id (bt_values (fst s)) = map fst (fst s)" by (auto simp: bt_values_def)
  then show ?thesis using bt_inv_distinct [OF ok(1)] by simp
qed

lemma live_in_log_created: "live_in_log log m \<Longrightarrow> Create_file m \<in> set log"
  by (auto simp: live_in_log_def)

subsection \<open>Properties\<close>

text \<open>Loading a log recovers exactly the files it creates and does not later delete or
  recreate, with file ids pairwise distinct; no recovered file has an id the engine will hand
  out next or a timestamp beyond the recovered clock.\<close>

lemma manifest_load_correct:
  assumes "unat (fst (snd (manifest_replay log))) + 1 < 2 ^ 64"
  shows "(m \<in> set (ms_live_files (manifest_load (Some log))) \<longleftrightarrow> live_in_log log m) \<and>
    distinct (map m_file_id (ms_live_files (manifest_load (Some log)))) \<and>
    (Create_file m \<in> set log \<longrightarrow>
       m_file_id m < ms_next_file_id (manifest_load (Some log)) \<and>
       m_max_ts m \<le> ms_max_ts (manifest_load (Some log)))"
proof -
  obtain live f t where r: "manifest_replay log = (live, f, t)" by (cases "manifest_replay log")
  then have d: "distinct (map m_file_id (bt_values live))"
    using live_files_distinct [OF replay_ok_replay, of log] by simp
  have "x \<le> f \<Longrightarrow> x < f + 1" for x
    using assms r by (simp add: le_less_plus_1)
  then show ?thesis
    using live_files_iff [of m log] manifest_ids [of m log] d
    by (auto simp: manifest_load_def r)
qed

lemma manifest_load_correct_example:
  "let meta = (\<lambda>f. \<lparr>m_file_id = f, m_level = 0, m_src_label = 0, m_edge_type_partition = 0, m_min_src = 1,
         m_max_src = 9, m_min_ts = 1, m_edge_count = 2, m_unique_src_count = 2, m_segment_bytes = 0,
         m_max_ts = 7\<rparr>)
   in meta 2 \<in> set (ms_live_files (manifest_load (Some [Create_file (meta 1), Create_file (meta 2), Delete_file 1])))"
proof -
  define meta where "meta = (\<lambda>f. \<lparr>m_file_id = f, m_level = 0, m_src_label = 0, m_edge_type_partition = 0,
      m_min_src = 1, m_max_src = 9, m_min_ts = 1, m_edge_count = 2, m_unique_src_count = 2,
      m_segment_bytes = 0, m_max_ts = 7\<rparr>)"
  let ?log = "[Create_file (meta 1), Create_file (meta 2), Delete_file 1]"
  have "unat (fst (snd (manifest_replay ?log))) + 1 < 2 ^ 64"
    by (simp add: manifest_replay_def meta_def)
  moreover have "live_in_log ?log (meta 2)"
    unfolding live_in_log_def
    by (intro exI [of _ "[Create_file (meta 1)]"] exI [of _ "[Delete_file 1]"]) (simp add: meta_def)
  ultimately have "meta 2 \<in> set (ms_live_files (manifest_load (Some ?log)))"
    using manifest_load_correct [of ?log "meta 2"] by blast
  then show ?thesis by (simp add: meta_def Let_def)
qed

end
