(* ===== verification/Index.thy ===== *)
theory Index
  imports Csr_Format Std_Maps Csr_Cache
begin

section \<open>The multi-level index and the vertex locks\<close>

text \<open>
  \<^verbatim>\<open>src/index.rs\<close>: for each source the segments above level 0 that hold it, and the table of
  vertex lock shards. A lock is its shard number; which shard a vertex takes is what matters.
\<close>

type_synonym multi_level_index = "(vertex_id, csr_segment_meta list) hash_map"

definition get_positions :: "multi_level_index \<Rightarrow> vertex_id \<Rightarrow> csr_segment_meta list" where
  "get_positions ix src = (case hm_get ix src of None \<Rightarrow> [] | Some ms \<Rightarrow> ms)"

text \<open>\<^verbatim>\<open>entries.entry(src).or_default().push(meta)\<close>.\<close>

definition index_push :: "csr_segment_meta \<Rightarrow> vertex_id \<Rightarrow> multi_level_index \<Rightarrow> multi_level_index" where
  "index_push meta src ix = hm_insert src (get_positions ix src @ [meta]) ix"

lemma index_push_positions:
  "hm_inv ix \<Longrightarrow> hm_inv (index_push m s ix) \<and>
   get_positions (index_push m s ix) src = (if src = s then get_positions ix s @ [m] else get_positions ix src)"
  by (simp add: index_push_def get_positions_def hm.inv_ins hm.get_ins)

lemma index_push_all:
  assumes "hm_inv ix"
  shows "hm_inv (fold (index_push m) srcs ix) \<and>
    set (get_positions (fold (index_push m) srcs ix) src) =
    set (get_positions ix src) \<union> (if src \<in> set srcs then {m} else {})"
  using assms
proof (induction srcs arbitrary: ix)
  case (Cons s srcs)
  then show ?case using index_push_positions [OF Cons.prems, of m s] by (auto split: if_splits)
qed simp

definition vertex_lock_shards :: "nat \<Rightarrow> nat" where
  "vertex_lock_shards shards = next_power_of_two shards"

definition vertex_lock_index :: "nat \<Rightarrow> vertex_id \<Rightarrow> nat" where
  "vertex_lock_index shards src = unat (src AND (of_nat (vertex_lock_shards shards) - 1))"

lemma pow2_from_pos: "0 < p \<Longrightarrow> 0 < pow2_from p n"
proof (induction p n rule: pow2_from.induct)
  case (1 p n)
  then show ?case by (subst pow2_from.simps) simp
qed

lemma next_power_of_two_pos: "0 < next_power_of_two n"
  by (simp add: next_power_of_two_def pow2_from_pos)

text \<open>The shard of a vertex is always one of the table, so taking a vertex lock never indexes
  out of range.\<close>

theorem vertex_lock_in_range:
  assumes "vertex_lock_shards shards < 2 ^ 64"
  shows "vertex_lock_index shards src < vertex_lock_shards shards"
proof -
  let ?n = "vertex_lock_shards shards"
  have pos: "0 < ?n" by (simp add: vertex_lock_shards_def next_power_of_two_pos)
  have "src AND (of_nat ?n - 1) \<le> of_nat ?n - 1" by (rule word_and_le1)
  then have "unat (src AND (of_nat ?n - 1)) \<le> unat (of_nat ?n - 1 :: u64)" by (simp add: word_le_nat_alt)
  also have "\<dots> = ?n - 1" by (rule unat_of_nat_minus_1 [OF assms pos])
  finally show ?thesis using pos by (simp add: vertex_lock_index_def)
qed

theorem vertex_lock_in_range_witness:
  "vertex_lock_index 1 72057594037927937 < vertex_lock_shards 1"
  by (rule vertex_lock_in_range)
    (simp add: vertex_lock_shards_def next_power_of_two_def pow2_from.simps)

end
