(* ===== verification/Merge.thy ===== *)
theory Merge
  imports Graph_Types
begin

section \<open>Merging versions of an edge\<close>

text \<open>
  \<^verbatim>\<open>merge_latest_records\<close> and \<^verbatim>\<open>merge_visible\<close> of \<^verbatim>\<open>src/graph.rs\<close>: of all records of an edge
  (source, type, destination) that a snapshot can see only the newest counts, and a deleted edge
  does not show. Every read and every compaction goes through them.
\<close>

text \<open>The loop over the sorted records: \<^verbatim>\<open>seen.insert(key)\<close> is true for the first record of a
  key.\<close>

fun keep_first :: "bool \<Rightarrow> edge_key set \<Rightarrow> edge_record list \<Rightarrow> edge_record list" where
  "keep_first keep seen [] = []"
| "keep_first keep seen (e # es) =
     (if edge_key e \<in> seen then keep_first keep seen es
      else (if keep \<or> e_marker e = Insert then [e] else []) @
           keep_first keep (insert (edge_key e) seen) es)"

definition merge_latest_records :: "edge_record list \<Rightarrow> snapshot_id \<Rightarrow> bool \<Rightarrow> edge_record list" where
  "merge_latest_records updates0 snapshot keep_tombstones =
     (let updates = filter (\<lambda>e. e_ts e \<le> snapshot) updates0;
          updates = sort_key edge_newest_key updates
      in sort_key edge_key (keep_first keep_tombstones {} updates))"

definition merge_visible :: "edge_record list \<Rightarrow> snapshot_id \<Rightarrow> edge_record list" where
  "merge_visible updates snapshot =
     filter (\<lambda>e. e_marker e = Insert) (merge_latest_records updates snapshot False)"

subsection \<open>The newest record of each edge\<close>

definition latest :: "edge_record set \<Rightarrow> snapshot_id \<Rightarrow> edge_record set" where
  "latest U snap =
     {e \<in> U. e_ts e \<le> snap \<and>
        (\<forall>x \<in> U. e_ts x \<le> snap \<longrightarrow> edge_key x = edge_key e \<longrightarrow> e_ts x \<le> e_ts e)}"

text \<open>No two records of an edge carry the same timestamp.\<close>

definition ts_unique :: "edge_record set \<Rightarrow> bool" where
  "ts_unique U \<longleftrightarrow> (\<forall>a \<in> U. \<forall>b \<in> U. edge_key a = edge_key b \<longrightarrow> e_ts a = e_ts b \<longrightarrow> a = b)"

lemma ts_unique_subset: "ts_unique U \<Longrightarrow> V \<subseteq> U \<Longrightarrow> ts_unique V"
  unfolding ts_unique_def by blast

lemma latest_subset: "latest U snap \<subseteq> U"
  by (auto simp: latest_def)

lemma latest_unique:
  "ts_unique U \<Longrightarrow> a \<in> latest U snap \<Longrightarrow> b \<in> latest U snap \<Longrightarrow> edge_key a = edge_key b \<Longrightarrow> a = b"
  unfolding ts_unique_def latest_def mem_Collect_eq by (metis order_antisym)

lemma keep_first_notin: "e \<in> set (keep_first keep seen es) \<Longrightarrow> edge_key e \<notin> seen"
  by (induction keep seen es rule: keep_first.induct) (auto split: if_splits)

lemma keep_first_distinct: "distinct (map edge_key (keep_first keep seen es))"
proof (induction keep seen es rule: keep_first.induct)
  case (2 keep seen e es)
  have "edge_key e \<notin> edge_key ` set (keep_first keep (insert (edge_key e) seen) es)"
    by (auto dest: keep_first_notin)
  with 2 show ?case by simp
qed simp

lemma keep_first_set:
  assumes "sorted (map edge_newest_key es)" "ts_unique (set es)"
  shows "set (keep_first keep seen es) =
    {e \<in> set es. edge_key e \<notin> seen \<and> (keep \<or> e_marker e = Insert) \<and>
       (\<forall>x \<in> set es. edge_key x = edge_key e \<longrightarrow> e_ts x \<le> e_ts e)}"
  using assms
proof (induction keep seen es rule: keep_first.induct)
  case (2 keep seen e es)
  have newest: "e_ts x \<le> e_ts e" if "x \<in> set es" "edge_key x = edge_key e" for x
    using 2(3) that by (auto simp: edge_newest_key_le_iff)
  have uniq: "x = e" if "x \<in> set es" "edge_key x = edge_key e" "e_ts e \<le> e_ts x" for x
    using 2(4) that newest [OF that(1,2)] by (auto simp: ts_unique_def)
  have u: "ts_unique (set es)" using 2(4) by (auto simp: ts_unique_def)
  show ?case
  proof (cases "edge_key e \<in> seen")
    case True
    have ih: "set (keep_first keep seen es) =
        {e \<in> set es. edge_key e \<notin> seen \<and> (keep \<or> e_marker e = Insert) \<and>
          (\<forall>x \<in> set es. edge_key x = edge_key e \<longrightarrow> e_ts x \<le> e_ts e)}"
      using 2(1) [OF True] 2(3) u by simp
    show ?thesis
      unfolding keep_first.simps if_P [OF True] ih using True by auto
  next
    case False
    have ih: "set (keep_first keep (insert (edge_key e) seen) es) =
        {x \<in> set es. edge_key x \<notin> insert (edge_key e) seen \<and> (keep \<or> e_marker x = Insert) \<and>
          (\<forall>y \<in> set es. edge_key y = edge_key x \<longrightarrow> e_ts y \<le> e_ts x)}"
      using 2(2) [OF False] 2(3) u by simp
    show ?thesis
      unfolding keep_first.simps if_not_P [OF False] set_append ih
      using False newest uniq by auto
  qed
qed simp

lemma set_merge_latest:
  assumes "ts_unique (set us)"
  shows "set (merge_latest_records us snap keep) =
    {e \<in> latest (set us) snap. keep \<or> e_marker e = Insert}"
proof -
  have "ts_unique (set (sort_key edge_newest_key (filter (\<lambda>e. e_ts e \<le> snap) us)))"
    using assms by (rule ts_unique_subset) auto
  then show ?thesis
    by (auto simp: merge_latest_records_def Let_def keep_first_set latest_def)
qed

lemma merge_latest_sorted: "sorted (map edge_key (merge_latest_records us snap keep))"
  by (simp add: merge_latest_records_def Let_def)

lemma merge_latest_distinct: "distinct (map edge_key (merge_latest_records us snap keep))"
proof -
  let ?k = "keep_first keep {} (sort_key edge_newest_key (filter (\<lambda>e. e_ts e \<le> snap) us))"
  have "distinct (map edge_key ?k)" by (rule keep_first_distinct)
  moreover have "mset (map edge_key (sort_key edge_key ?k)) = mset (map edge_key ?k)" by simp
  ultimately show ?thesis
    unfolding merge_latest_records_def Let_def by (metis mset_eq_imp_distinct_iff)
qed

text \<open>What a merge answers depends only on the newest records among its input.\<close>

lemma merge_latest_cong:
  assumes "ts_unique (set us)" "ts_unique (set vs)" "latest (set us) snap = latest (set vs) snap"
  shows "merge_latest_records us snap keep = merge_latest_records vs snap keep"
  by (rule sorted_key_unique [where f = edge_key])
    (simp_all add: merge_latest_sorted merge_latest_distinct set_merge_latest assms)

lemma set_merge_visible:
  assumes "ts_unique (set us)"
  shows "set (merge_visible us snap) = {e \<in> latest (set us) snap. e_marker e = Insert}"
  using set_merge_latest [OF assms] by (auto simp: merge_visible_def)

lemma merge_visible_sorted: "sorted (map edge_key (merge_visible us snap))"
  unfolding merge_visible_def by (rule sorted_filter) (rule merge_latest_sorted)

lemma merge_visible_distinct: "distinct (map edge_key (merge_visible us snap))"
  unfolding merge_visible_def using merge_latest_distinct [of us snap False]
  by (simp add: distinct_map_filter)

lemma merge_visible_eqI:
  assumes "ts_unique (set us)" "sorted (map edge_key out)" "distinct (map edge_key out)"
    and "set out = {e \<in> latest (set us) snap. e_marker e = Insert}"
  shows "merge_visible us snap = out"
  by (rule sorted_key_unique [where f = edge_key])
    (simp_all add: merge_visible_sorted merge_visible_distinct set_merge_visible assms)

lemma merge_visible_cong:
  assumes "ts_unique (set us)" "ts_unique (set vs)" "latest (set us) snap = latest (set vs) snap"
  shows "merge_visible us snap = merge_visible vs snap"
  unfolding merge_visible_def using merge_latest_cong [OF assms] by simp

subsection \<open>How the newest records change\<close>

lemma latest_exists:
  assumes "finite U" "x \<in> U" "e_ts x \<le> snap"
  obtains m where "m \<in> latest U snap" "edge_key m = edge_key x" "e_ts x \<le> e_ts m"
proof -
  let ?S = "{y \<in> U. e_ts y \<le> snap \<and> edge_key y = edge_key x}"
  have S: "finite (e_ts ` ?S)" "e_ts ` ?S \<noteq> {}" using assms by auto
  then have "Max (e_ts ` ?S) \<in> e_ts ` ?S" by (rule Max_in)
  then obtain m where m: "Max (e_ts ` ?S) = e_ts m" "m \<in> ?S" by (rule imageE)
  have max: "e_ts y \<le> e_ts m" if "y \<in> ?S" for y
    unfolding m(1) [symmetric] by (rule Max_ge [OF S(1)]) (rule imageI [OF that])
  have "m \<in> latest U snap" using m(2) max by (auto simp: latest_def)
  moreover have "e_ts x \<le> e_ts m" using max assms by simp
  ultimately show thesis using that m(2) by simp
qed

text \<open>Dropping records that a remaining one supersedes changes nothing.\<close>

lemma latest_absorb:
  assumes "finite U" "V \<subseteq> U" "latest U snap \<subseteq> V"
  shows "latest V snap = latest U snap"
proof -
  have "e_ts x \<le> e_ts e"
    if e: "e \<in> latest V snap" and x: "x \<in> U" "e_ts x \<le> snap" "edge_key x = edge_key e" for e x
  proof -
    obtain m where m: "m \<in> latest U snap" "edge_key m = edge_key x" "e_ts x \<le> e_ts m"
      using latest_exists [OF assms(1) x(1,2)] .
    then have "m \<in> V" "e_ts m \<le> snap" using assms(3) by (auto simp: latest_def)
    then have "e_ts m \<le> e_ts e" using e m(2) x(3) by (simp add: latest_def)
    with m(3) show ?thesis by (rule order_trans)
  qed
  then show ?thesis using assms(2,3) by (auto simp: latest_def)
qed

text \<open>A compaction replaces some of the records by the newest of them.\<close>

lemma latest_compact:
  assumes "finite A" "finite B" "\<forall>e \<in> A \<union> B. e_ts e \<le> now" "now \<le> snap"
  shows "latest (latest A now \<union> B) snap = latest (A \<union> B) snap"
proof (rule latest_absorb)
  have snap: "e_ts x \<le> snap" if "x \<in> A" for x
    using assms(3,4) that by (blast intro: order_trans)
  show "latest (A \<union> B) snap \<subseteq> latest A now \<union> B"
    unfolding latest_def using assms(3) snap by blast
  show "latest A now \<union> B \<subseteq> A \<union> B" using latest_subset by blast
qed (use assms in simp)

text \<open>Records newer than the snapshot do not count, and a record newer than all others takes its
  edge over.\<close>

lemma latest_later: "\<forall>e \<in> B. snap < e_ts e \<Longrightarrow> latest (A \<union> B) snap = latest A snap"
  by (auto simp: latest_def)

lemma latest_insert_newest:
  assumes "\<forall>x \<in> U. e_ts x < e_ts e" "e_ts e \<le> snap"
  shows "latest (insert e U) snap = insert e {x \<in> latest U snap. edge_key x \<noteq> edge_key e}"
  using assms by (auto simp: latest_def)

text \<open>Restricting the records to some of the edges restricts the newest ones.\<close>

lemma latest_restrict:
  assumes "\<And>a b. edge_key a = edge_key b \<Longrightarrow> P a = P b"
  shows "latest {e \<in> U. P e} snap = {e \<in> latest U snap. P e}"
  using assms unfolding latest_def by blast

subsection \<open>Properties\<close>

text \<open>C19. A merge at a snapshot lists exactly the edges whose newest record not later than the
  snapshot is an insert, each once, in increasing order of source, type and destination.\<close>

theorem merge_visible_correct:
  assumes "ts_unique (set us)"
  shows "(e \<in> set (merge_visible us snap) \<longleftrightarrow>
      e \<in> set us \<and> e_ts e \<le> snap \<and> e_marker e = Insert \<and>
      (\<forall>x \<in> set us. e_ts x \<le> snap \<longrightarrow> edge_key x = edge_key e \<longrightarrow> e_ts x \<le> e_ts e)) \<and>
    sorted_wrt (<) (map edge_key (merge_visible us snap))"
  using merge_visible_sorted [of us snap] merge_visible_distinct [of us snap]
  by (auto simp: set_merge_visible [OF assms] latest_def strict_sorted_iff)

theorem merge_visible_correct_witness:
  "insert_record 1 3 1 5 \<in> set (merge_visible
     [insert_record 1 2 1 1, insert_record 1 3 1 5, delete_record 1 2 1 4, delete_record 1 3 1 3] 9)"
  using merge_visible_correct [of
      "[insert_record 1 2 1 1, insert_record 1 3 1 5, delete_record 1 2 1 4, delete_record 1 3 1 3]"
      "insert_record 1 3 1 5" 9]
  by (simp add: ts_unique_def insert_record_def delete_record_def edge_key_def)

end
