(* ===== verification/Engine.thy ===== *)
theory Engine
  imports Mem_Graph Csr_Reader Manifest Index Merge
begin

section \<open>The engine\<close>

text \<open>
  \<^verbatim>\<open>Engine\<close> of \<^verbatim>\<open>src/graph.rs\<close> with the version of \<^verbatim>\<open>src/version.rs\<close>. Memory graphs are shared
  by reference (\<^verbatim>\<open>Arc\<close>), so the state keeps them in a store by id and the version lists ids.
  Each operation runs to its end before the next one; a flush that was enqueued runs at any point
  between two operations or when it is awaited. The vertex locks and the mutex are then without
  effect, and the metrics, which no answer depends on, are left out.
\<close>

record version =
  v_id :: u64
  v_memgraphs :: "u64 list"
  v_levels :: levels

datatype flush_task = Pending u64 | Finished "unit res"

record engine =
  en_config :: lsm_config
  en_fs :: file_system
  en_manifest :: "manifest_record list option"
  en_graphs :: "(u64, mem_graph) hash_map"
  en_next_graph :: u64
  en_version :: version
  en_active :: u64
  en_next_file_id :: file_id
  en_tasks :: "flush_task list"
  en_ts :: timestamp
  en_index :: multi_level_index
  en_cache :: "cached_csr_metadata metadata_cache"

definition engine_io :: "engine \<Rightarrow> io_ops" where
  "engine_io e = any_io (cfg_io_backend (en_config e)) whole_transfer whole_transfer"

definition engine_store :: "engine \<Rightarrow> string" where
  "engine_store e = cfg_store_dir (en_config e)"

text \<open>Running file system and cache operations inside the engine.\<close>

definition with_fs :: "(file_system, 'a) st \<Rightarrow> (engine, 'a) st" where
  "with_fs m e = (let (fs, r) = m (en_fs e) in (e\<lparr>en_fs := fs\<rparr>, r))"

definition with_reader :: "(reader_state, 'a) st \<Rightarrow> (engine, 'a) st" where
  "with_reader m e =
     (let (c, r) = m (Some (en_cache e))
      in (e\<lparr>en_cache := (case c of Some c' \<Rightarrow> c' | None \<Rightarrow> en_cache e)\<rparr>, r))"

definition graph_of :: "engine \<Rightarrow> u64 \<Rightarrow> mem_graph" where
  "graph_of e i = (case hm_get (en_graphs e) i of Some g \<Rightarrow> g | None \<Rightarrow> mg_new i 0 0)"

definition new_memgraph :: "lsm_config \<Rightarrow> u64 \<Rightarrow> mem_graph" where
  "new_memgraph cfg i = mg_new i (cfg_memgraph_capacity_bytes cfg) (cfg_inline_segment_capacity cfg)"

definition publish :: "u64 list \<Rightarrow> levels \<Rightarrow> engine \<Rightarrow> engine" where
  "publish memgraphs levels e =
     e\<lparr>en_version := \<lparr>v_id = v_id (en_version e) + 1, v_memgraphs = memgraphs, v_levels = levels\<rparr>\<rparr>"

definition get_level :: "levels \<Rightarrow> level_id \<Rightarrow> csr_segment_meta list" where
  "get_level ls l = (if unat l < length ls then ls ! unat l else [])"

definition current_snapshot :: "engine \<Rightarrow> snapshot_id" where
  "current_snapshot e = en_ts e"

subsection \<open>The index\<close>

text \<open>A segment whose entries cannot be read is treated as one without entries
  (\<^verbatim>\<open>unwrap_or_default\<close>).\<close>

fun index_metas :: "csr_segment_meta list \<Rightarrow> multi_level_index \<Rightarrow> (engine, multi_level_index) st" where
  "index_metas [] ix = sreturn ix"
| "index_metas (m # ms) ix =
     (\<lambda>e. let (e, r) = with_reader (read_offsets (engine_io e) (engine_store e) (en_fs e) m) e;
              offsets = (case r of Inl _ \<Rightarrow> [] | Inr os \<Rightarrow> os)
          in index_metas ms (fold (index_push m) (map o_src offsets) ix) e)"

definition rebuild_index :: "(engine, unit) st" where
  "rebuild_index e =
     sbind (index_metas (concat (drop 1 (v_levels (en_version e)))) [])
       (\<lambda>ix. supdate (\<lambda>e. e\<lparr>en_index := ix\<rparr>)) e"

subsection \<open>Opening\<close>

definition prepare_store ::
  "string \<Rightarrow> bool \<Rightarrow> file_system \<times> manifest_record list option \<Rightarrow> file_system \<times> manifest_record list option"
where
  "prepare_store store fresh disk =
     (if fresh then (\<lambda>p. if take (Suc (length store)) p = store @ ''/'' then None else fst disk p, None)
      else disk)"

definition open_inner ::
  "lsm_config \<Rightarrow> bool \<Rightarrow> u64 \<Rightarrow> file_system \<times> manifest_record list option \<Rightarrow> engine \<times> unit res"
where
  "open_inner cfg fresh next_graph disk =
     (let ms = (if fresh then \<lparr>ms_live_files = [], ms_next_file_id = 1, ms_max_ts = 0\<rparr>
                else manifest_load (snd disk))
      in rebuild_index
           \<lparr>en_config = cfg, en_fs = fst disk, en_manifest = snd disk,
            en_graphs = hm_insert next_graph (new_memgraph cfg next_graph) [],
            en_next_graph = next_graph + 1,
            en_version = \<lparr>v_id = 1, v_memgraphs = [next_graph],
              v_levels = split_levels (ms_live_files ms) (cfg_max_levels cfg)\<rparr>,
            en_active = next_graph, en_next_file_id = ms_next_file_id ms, en_tasks = [],
            en_ts = ms_max_ts ms, en_index = [], en_cache = cache_new 4096\<rparr>)"

definition engine_create ::
  "lsm_config \<Rightarrow> u64 \<Rightarrow> file_system \<times> manifest_record list option \<Rightarrow> engine \<times> unit res"
where
  "engine_create cfg next_graph disk =
     open_inner cfg True next_graph (prepare_store (cfg_store_dir cfg) True disk)"

definition engine_open ::
  "lsm_config \<Rightarrow> u64 \<Rightarrow> file_system \<times> manifest_record list option \<Rightarrow> engine \<times> unit res"
where
  "engine_open cfg next_graph disk =
     open_inner cfg False next_graph (prepare_store (cfg_store_dir cfg) False disk)"

subsection \<open>Flushing\<close>

definition alloc_file_id :: "(engine, file_id) st" where
  "alloc_file_id e = (e\<lparr>en_next_file_id := en_next_file_id e + 1\<rparr>, Inr (en_next_file_id e))"

text \<open>One iteration of the writing loops: allocate an id, write the segment, log its creation.\<close>

definition write_level_segment :: "level_id \<Rightarrow> edge_record list \<Rightarrow> (engine, csr_segment_meta) st" where
  "write_level_segment level edges =
     sbind alloc_file_id (\<lambda>f e.
     sbind (with_fs (write_segment (engine_io e) (engine_store e) level f edges)) (\<lambda>meta.
     sbind (supdate (\<lambda>e. e\<lparr>en_manifest := manifest_append (Create_file meta) (en_manifest e)\<rparr>)) (\<lambda>_.
     sreturn meta)) e)"

definition publish_flush :: "u64 \<Rightarrow> csr_segment_meta list \<Rightarrow> engine \<Rightarrow> engine" where
  "publish_flush i metas e =
     (let levels = ensure_level L0 (v_levels (en_version e));
          levels = levels[unat L0 := sort_level (levels ! unat L0 @ metas)]
      in publish (filter (\<lambda>m. m \<noteq> i) (v_memgraphs (en_version e))) levels e)"

definition flush_memgraph :: "u64 \<Rightarrow> (engine, unit) st" where
  "flush_memgraph i e =
     (let edges = all_edges_sorted (graph_of e i)
      in if edges = [] then (e, Inr ())
         else
           sbind (smap (write_level_segment L0) (build_l0_flush_segments (en_config e) edges)) (\<lambda>metas.
           sbind (supdate (publish_flush i metas)) (\<lambda>_.
           rebuild_index)) e)"

definition enqueue_flush :: "u64 \<Rightarrow> (engine, unit) st" where
  "enqueue_flush i = supdate (\<lambda>e. e\<lparr>en_tasks := en_tasks e @ [Pending i]\<rparr>)"

fun run_task :: "flush_task \<Rightarrow> (engine, unit) st" where
  "run_task (Pending i) = flush_memgraph i"
| "run_task (Finished r) = slift r"

text \<open>The tasks are popped from the end and awaited one by one.\<close>

fun wait_tasks :: "flush_task list \<Rightarrow> (engine, unit) st" where
  "wait_tasks [] = sreturn ()"
| "wait_tasks (t # ts) =
     sbind (supdate (\<lambda>e. e\<lparr>en_tasks := butlast (en_tasks e)\<rparr>)) (\<lambda>_.
     sbind (run_task t) (\<lambda>_. wait_tasks ts))"

definition wait_for_flushes :: "(engine, unit) st" where
  "wait_for_flushes e = wait_tasks (rev (en_tasks e)) e"

text \<open>The runtime runs an enqueued flush on its own.\<close>

definition background_flush :: "nat \<Rightarrow> engine \<Rightarrow> engine" where
  "background_flush n e =
     (if n < length (en_tasks e)
      then case en_tasks e ! n of
             Pending i \<Rightarrow>
               (let (e', r) = flush_memgraph i e
                in e'\<lparr>en_tasks := (en_tasks e')[n := Finished r]\<rparr>)
           | Finished _ \<Rightarrow> e
      else e)"

subsection \<open>Writing\<close>

text \<open>A new active graph in front of the version's graphs.\<close>

definition rotate_active :: "engine \<Rightarrow> engine" where
  "rotate_active e =
     (let i = en_next_graph e
      in publish (i # v_memgraphs (en_version e)) (v_levels (en_version e))
           (e\<lparr>en_graphs := hm_insert i (new_memgraph (en_config e) i) (en_graphs e),
              en_next_graph := i + 1, en_active := i\<rparr>))"

definition write_edge :: "edge_record \<Rightarrow> (engine, unit) st" where
  "write_edge edge e =
     (case mg_insert edge (graph_of e (en_active e)) of
        Inl err \<Rightarrow> (e, Inl err)
      | Inr g \<Rightarrow>
          let e' = e\<lparr>en_graphs := hm_insert (en_active e) g (en_graphs e)\<rparr>
          in if mg_is_full g then enqueue_flush (en_active e) (rotate_active e') else (e', Inr ()))"

definition next_ts :: "(engine, timestamp) st" where
  "next_ts e = (e\<lparr>en_ts := en_ts e + 1\<rparr>, Inr (en_ts e + 1))"

definition insert_edge :: "vertex_id \<Rightarrow> vertex_id \<Rightarrow> edge_type \<Rightarrow> (engine, snapshot_id) st" where
  "insert_edge src dst edge_type =
     sbind next_ts (\<lambda>ts. sbind (write_edge (insert_record src dst edge_type ts)) (\<lambda>_. sreturn ts))"

definition delete_edge :: "vertex_id \<Rightarrow> vertex_id \<Rightarrow> edge_type \<Rightarrow> (engine, snapshot_id) st" where
  "delete_edge src dst edge_type =
     sbind next_ts (\<lambda>ts. sbind (write_edge (delete_record src dst edge_type ts)) (\<lambda>_. sreturn ts))"

subsection \<open>Reading\<close>

definition edges_of_graphs :: "engine \<Rightarrow> vertex_id \<Rightarrow> edge_record list res" where
  "edges_of_graphs e src =
     rbind (rmap (\<lambda>i. get_edges_for_src (graph_of e i) src) (v_memgraphs (en_version e)))
       (\<lambda>ess. Inr (concat ess))"

text \<open>The loop over level 0: partition filter, range filter, cached Bloom filter, lookup.\<close>

fun l0_lookup ::
  "vertex_id \<Rightarrow> edge_type option \<Rightarrow> csr_segment_meta list \<Rightarrow> (engine, edge_record list) st"
where
  "l0_lookup src edge_type [] = sreturn []"
| "l0_lookup src edge_type (m # ms) =
     (\<lambda>e. if \<not> may_contain_partition m src edge_type then l0_lookup src edge_type ms e
          else if src < m_min_src m \<or> m_max_src m < src then l0_lookup src edge_type ms e
          else
            let (cached, c) = cached_may_contain_src (m_file_id m) src (en_cache e);
                e = e\<lparr>en_cache := c\<rparr>
            in case cached of
                 Some (Inl err) \<Rightarrow> (e, Inl err)
               | Some (Inr False) \<Rightarrow> l0_lookup src edge_type ms e
               | _ \<Rightarrow>
                   sbind (with_reader (get_neighbors (engine_io e) (engine_store e) (en_fs e) m src)) (\<lambda>es.
                   sbind (l0_lookup src edge_type ms) (\<lambda>rest. sreturn (es @ rest))) e)"

fun index_lookup :: "vertex_id \<Rightarrow> csr_segment_meta list \<Rightarrow> (engine, edge_record list) st" where
  "index_lookup src [] = sreturn []"
| "index_lookup src (m # ms) =
     (\<lambda>e. sbind (with_reader (get_neighbors (engine_io e) (engine_store e) (en_fs e) m src)) (\<lambda>es.
          sbind (index_lookup src ms) (\<lambda>rest. sreturn (es @ rest))) e)"

definition get_neighbors_typed_internal ::
  "vertex_id \<Rightarrow> edge_type option \<Rightarrow> snapshot_id \<Rightarrow> (engine, edge_record list) st"
where
  "get_neighbors_typed_internal src edge_type snapshot =
     sbind (sreads (\<lambda>e. edges_of_graphs e src)) (\<lambda>mem.
     sbind (\<lambda>e. l0_lookup src edge_type (get_level (v_levels (en_version e)) L0) e) (\<lambda>l0.
     sbind (\<lambda>e. index_lookup src (get_positions (en_index e) src) e) (\<lambda>upper.
     let updates = mem @ l0 @ upper;
         updates = (case edge_type of Some t \<Rightarrow> filter (\<lambda>x. e_type x = t) updates | None \<Rightarrow> updates)
     in sreturn (merge_visible updates snapshot))))"

definition engine_get_neighbors :: "vertex_id \<Rightarrow> snapshot_id \<Rightarrow> (engine, edge_record list) st" where
  "engine_get_neighbors src snapshot = get_neighbors_typed_internal src None snapshot"

definition get_neighbors_typed ::
  "vertex_id \<Rightarrow> edge_type \<Rightarrow> snapshot_id \<Rightarrow> (engine, edge_record list) st"
where
  "get_neighbors_typed src edge_type snapshot = get_neighbors_typed_internal src (Some edge_type) snapshot"

definition read_segments :: "csr_segment_meta list \<Rightarrow> engine \<Rightarrow> edge_record list res" where
  "read_segments ms e =
     rbind (rmap (read_all_edges (engine_io e) (engine_store e) (en_fs e)) ms) (\<lambda>ess. Inr (concat ess))"

definition scan_edges :: "snapshot_id \<Rightarrow> engine \<Rightarrow> edge_record list res" where
  "scan_edges snapshot e =
     (let mem = concat (map (\<lambda>i. all_edges_sorted (graph_of e i)) (v_memgraphs (en_version e)))
      in rbind (read_segments (concat (v_levels (en_version e))) e)
           (\<lambda>es. Inr (merge_visible (mem @ es) snapshot)))"

subsection \<open>Compaction\<close>

definition log_deletes :: "csr_segment_meta list \<Rightarrow> engine \<Rightarrow> engine" where
  "log_deletes ms e =
     fold (\<lambda>m e. e\<lparr>en_manifest := manifest_append (Delete_file (m_file_id m)) (en_manifest e)\<rparr>) ms e"

text \<open>The levels a full compaction publishes, and those of a targeted one.\<close>

definition full_levels :: "csr_segment_meta \<Rightarrow> levels \<Rightarrow> levels" where
  "full_levels output levels0 =
     (let levels = ensure_level L1 levels0;
          levels = levels[unat L0 := []];
          levels = levels[unat L1 := sort_level [output]]
      in levels)"

definition target_levels ::
  "csr_segment_meta list \<Rightarrow> csr_segment_meta list \<Rightarrow> csr_segment_meta list \<Rightarrow> levels \<Rightarrow> levels"
where
  "target_levels l0_sel l1_sel outputs levels0 =
     (let levels = ensure_level L1 levels0;
          l0 = filter (\<lambda>m. m_file_id m \<notin> m_file_id ` set l0_sel) (levels ! unat L0);
          l1 = filter (\<lambda>m. m_file_id m \<notin> m_file_id ` set l1_sel) (levels ! unat L1) @ outputs
      in levels[unat L0 := sort_level l0, unat L1 := sort_level l1])"

definition compact_l0_to_l1_inner :: "bool \<Rightarrow> (engine, csr_segment_meta option) st" where
  "compact_l0_to_l1_inner force =
     sbind wait_for_flushes (\<lambda>_ e.
       let l0_files = get_level (v_levels (en_version e)) L0;
           l1_files = get_level (v_levels (en_version e)) L1
       in if l0_files = [] then (e, Inr None)
          else if \<not> force \<and> length l0_files < cfg_l0_file_threshold (en_config e) then (e, Inr None)
          else
            sbind (sreads (read_segments (l0_files @ l1_files))) (\<lambda>updates e.
            sbind (write_level_segment L1 (merge_latest_records updates (current_snapshot e) True)) (\<lambda>output.
            sbind (supdate (log_deletes (l0_files @ l1_files))) (\<lambda>_.
            sbind (supdate (\<lambda>e. publish (v_memgraphs (en_version e))
                              (full_levels output (v_levels (en_version e))) e)) (\<lambda>_.
            sbind rebuild_index (\<lambda>_.
            sreturn (Some output))))) e) e)"

definition compact_l0_to_l1 :: "(engine, csr_segment_meta option) st" where
  "compact_l0_to_l1 = compact_l0_to_l1_inner True"

definition select_l0 :: "l0_compaction_target \<Rightarrow> levels \<Rightarrow> csr_segment_meta list" where
  "select_l0 target levels = filter (\<lambda>m. target_matches_meta m target) (get_level levels L0)"

definition select_l1 :: "l0_compaction_target \<Rightarrow> levels \<Rightarrow> csr_segment_meta list" where
  "select_l1 target levels =
     (let sel = select_l0 target levels;
          lo = min_or_0 (map m_min_src sel); hi = max_or_0 (map m_max_src sel)
      in filter (\<lambda>m. partition_overlaps_target m (t_src_label target) (t_edge_type target) \<and>
                     ranges_overlap (m_min_src m) (m_max_src m) lo hi)
           (get_level levels L1))"

definition compact_l0_target_to_l1 :: "l0_compaction_target \<Rightarrow> (engine, csr_segment_meta list) st" where
  "compact_l0_target_to_l1 target =
     sbind wait_for_flushes (\<lambda>_ e.
       let sel0 = select_l0 target (v_levels (en_version e));
           sel1 = select_l1 target (v_levels (en_version e))
       in if sel0 = [] then (e, Inr [])
          else
            sbind (sreads (read_segments (sel0 @ sel1))) (\<lambda>updates e.
            sbind (smap (write_level_segment L1)
                    (split_compaction_segments (merge_latest_records updates (current_snapshot e) True)
                       (cfg_segment_target_bytes (en_config e)))) (\<lambda>outputs.
            sbind (supdate (log_deletes (sel0 @ sel1))) (\<lambda>_.
            sbind (supdate (\<lambda>e. publish (v_memgraphs (en_version e))
                              (target_levels sel0 sel1 outputs (v_levels (en_version e))) e)) (\<lambda>_.
            sbind rebuild_index (\<lambda>_.
            sreturn outputs)))) e) e)"

definition compact_l0_partition_to_l1 ::
  "i32 \<Rightarrow> edge_type option \<Rightarrow> (engine, csr_segment_meta list) st"
where
  "compact_l0_partition_to_l1 src_label edge_type =
     compact_l0_target_to_l1
       \<lparr>t_src_label = src_label, t_edge_type = edge_type, t_min_src = None, t_max_src = None\<rparr>"

definition compact_l0_range_to_l1 ::
  "i32 \<Rightarrow> edge_type option \<Rightarrow> vertex_id \<Rightarrow> vertex_id \<Rightarrow> (engine, csr_segment_meta list) st"
where
  "compact_l0_range_to_l1 src_label edge_type min_src max_src =
     compact_l0_target_to_l1
       \<lparr>t_src_label = src_label, t_edge_type = edge_type, t_min_src = Some min_src,
        t_max_src = Some max_src\<rparr>"

definition flush_active :: "(engine, unit) st" where
  "flush_active e =
     (let e' = (if mg_is_empty (graph_of e (en_active e)) then e
                else fst (enqueue_flush (en_active e) (rotate_active e)))
      in sbind wait_for_flushes (\<lambda>_ e.
           if cfg_auto_compaction (en_config e)
           then sbind (compact_l0_to_l1_inner False) (\<lambda>_. sreturn ()) e
           else (e, Inr ())) e')"

definition live_file_count_by_level :: "engine \<Rightarrow> nat list" where
  "live_file_count_by_level e = map length (v_levels (en_version e))"

record l0_partition_key =
  pk_src_label :: i32
  pk_edge_type :: edge_type
  pk_range_start :: vertex_id
  pk_range_end :: vertex_id

definition saturating_add :: "u64 \<Rightarrow> u64 \<Rightarrow> u64" where
  "saturating_add a b = (if unat a + unat b < 2 ^ 64 then a + b else -1)"

definition mk_l0_partition_key ::
  "lsm_config \<Rightarrow> vertex_id \<Rightarrow> edge_type option \<Rightarrow> csr_segment_meta \<Rightarrow> l0_partition_key"
where
  "mk_l0_partition_key cfg src edge_type meta =
     (let src_label = (if source_label_from_vertex_id src = UNKNOWN_SOURCE_LABEL then m_src_label meta
                       else source_label_from_vertex_id src);
          bucket_size = max (cfg_l0_ra_range_bucket_size cfg) 1;
          range_start = (src div bucket_size) * bucket_size
      in \<lparr>pk_src_label = src_label,
          pk_edge_type = (case edge_type of Some t \<Rightarrow> t | None \<Rightarrow> m_edge_type_partition meta),
          pk_range_start = range_start,
          pk_range_end = saturating_add range_start (bucket_size - 1)\<rparr>)"

end
