(* ===== verification/Segment_Store.thy ===== *)
theory Segment_Store
  imports Csr_Reader
begin

section \<open>The segments of a store\<close>

text \<open>
  What a set of live segments means: the records each of them holds, that ids are unique and
  that every file is where its metadata says. Writing a segment under a fresh id adds it and
  leaves the others alone.
\<close>

lemma sort_key_sorted: "sorted (map f xs) \<Longrightarrow> sort_key f xs = xs"
  for f :: "'a \<Rightarrow> 'k::linorder"
  by (rule properties_for_sort_key) auto

lemma sort_key_idem [simp]: "sort_key f (sort_key f xs) = sort_key f xs"
  for f :: "'a \<Rightarrow> 'k::linorder"
  by (rule sort_key_sorted) simp

lemma segment_image_sorted [simp]:
  "segment_image level f (sort_key edge_sort_key es) = segment_image level f es"
  by (simp add: segment_image_def)

lemma has_segment_sorted:
  "has_segment store fs m es \<Longrightarrow> has_segment store fs m (sort_key edge_sort_key es)"
  by (simp add: has_segment_def segment_fits_def)

lemma segment_metadata_sorted [simp]:
  "segment_metadata m (sort_key edge_sort_key es) = segment_metadata m es"
  by (simp add: segment_metadata_def segment_offsets_def)

definition seg_records :: "io_ops \<Rightarrow> string \<Rightarrow> file_system \<Rightarrow> csr_segment_meta \<Rightarrow> edge_record list" where
  "seg_records io store fs m =
     (case read_all_edges io store fs m of Inr es \<Rightarrow> es | Inl _ \<Rightarrow> [])"

definition files_ok :: "io_ops \<Rightarrow> string \<Rightarrow> file_system \<Rightarrow> file_id \<Rightarrow> csr_segment_meta set \<Rightarrow> bool" where
  "files_ok io store fs next_id M \<longleftrightarrow>
     inj_on m_file_id M \<and>
     (\<forall>m \<in> M. m_file_id m < next_id \<and> has_segment store fs m (seg_records io store fs m))"

lemma files_ok_subset: "files_ok io store fs n M \<Longrightarrow> N \<subseteq> M \<Longrightarrow> files_ok io store fs n N"
  unfolding files_ok_def by (meson inj_on_subset subsetD)

lemma files_okD:
  assumes "files_ok io store fs n M" "m \<in> M"
  shows "m_file_id m < n" "has_segment store fs m (seg_records io store fs m)"
  using assms by (auto simp: files_ok_def)

lemma has_segment_fs:
  "has_segment store fs m es \<Longrightarrow> fs' (path_for store m) = fs (path_for store m) \<Longrightarrow> has_segment store fs' m es"
  by (simp add: has_segment_def)

lemma segment_path_neq: "f \<noteq> f' \<Longrightarrow> segment_path store l f \<noteq> segment_path store l' f'"
  by (simp add: segment_path_def join_path_def segment_file_path_inj)

lemma tmp_path_neq_segment: "tmp_path p \<noteq> segment_path store l f"
proof
  assume "tmp_path p = segment_path store l f"
  then have "last (tmp_path p) = last (segment_path store l f)" by simp
  then show False by (simp add: tmp_path_def segment_path_def join_path_def)
qed

context io_backend
begin

lemma seg_records_written:
  "has_segment store fs m es \<Longrightarrow> seg_records io store fs m = sort_key edge_sort_key es"
  by (simp add: seg_records_def read_all_edges_written)

lemma seg_records_sorted:
  "files_ok io store fs n M \<Longrightarrow> m \<in> M \<Longrightarrow> sort_key edge_sort_key (seg_records io store fs m) = seg_records io store fs m"
  by (rule sym) (rule seg_records_written [OF files_okD(2)])

lemma read_all_edges_ok:
  assumes "files_ok io store fs n M" "m \<in> M"
  shows "read_all_edges io store fs m = Inr (seg_records io store fs m)"
  using read_all_edges_written [OF files_okD(2) [OF assms]] unfolding seg_records_sorted [OF assms] .

lemma write_segment_files_ok:
  assumes ok: "files_ok io store fs n M" and fits: "segment_fits es" and room: "unat n + 1 < 2 ^ 64"
  obtains fs' m where "write_segment io store level n es fs = (fs', Inr m)"
    "m_file_id m = n" "m_level m = level" "seg_records io store fs' m = sort_key edge_sort_key es"
    "\<And>x. x \<in> M \<Longrightarrow> seg_records io store fs' x = seg_records io store fs x"
    "files_ok io store fs' (n + 1) (insert m M)" "m \<notin> M"
    "\<forall>e \<in> set es. e_ts e \<le> m_max_ts m" "\<And>t. \<forall>e \<in> set es. e_ts e \<le> t \<Longrightarrow> m_max_ts m \<le> t"
proof -
  obtain fs' m where w: "write_segment io store level n es fs = (fs', Inr m)"
    and seg: "has_segment store fs' m es" and m: "m_level m = level" "m_file_id m = n"
    and other: "\<forall>p. p \<noteq> tmp_path (segment_path store level n) \<longrightarrow> p \<noteq> segment_path store level n \<longrightarrow> fs' p = fs p"
    using write_segment_has [OF io_backend_axioms fits] by blast
  have same: "has_segment store fs' x (seg_records io store fs x)" if "x \<in> M" for x
  proof (rule has_segment_fs [OF files_okD(2) [OF ok that]])
    have "m_file_id x \<noteq> n" using files_okD(1) [OF ok that] by auto
    then show "fs' (path_for store x) = fs (path_for store x)"
      using other tmp_path_neq_segment [symmetric] segment_path_neq by (simp add: path_for_segment)
  qed
  have recs: "seg_records io store fs' x = seg_records io store fs x" if "x \<in> M" for x
    using seg_records_written [OF same [OF that]] seg_records_sorted [OF ok that] by simp
  have new: "seg_records io store fs' m = sort_key edge_sort_key es" by (rule seg_records_written [OF seg])
  have "m_file_id x < n + 1" if "x \<in> M" for x
    using files_okD(1) [OF ok that] room by (simp add: le_less_plus_1)
  moreover have "n < n + 1" using room by (simp add: le_less_plus_1)
  moreover have "m_file_id x \<noteq> m_file_id m" if "x \<in> M" for x
    using files_okD(1) [OF ok that] m(2) by auto
  ultimately have ok': "files_ok io store fs' (n + 1) (insert m M)"
    using ok same recs seg new m has_segment_sorted [OF seg] unfolding files_ok_def inj_on_def by auto
  have notin: "m \<notin> M" using files_okD(1) [OF ok, of m] m(2) by auto
  have "m = snd (segment_image level n es)" using seg m by (metis has_segment_def)
  then have max: "m_max_ts m = max_or_0 (map e_ts (sort_key edge_sort_key es))" by (simp add: segment_image_meta)
  have "\<forall>e \<in> set es. e_ts e \<le> m_max_ts m"
    unfolding max using min_max_or_0(2) [of _ "map e_ts (sort_key edge_sort_key es)"] by auto
  moreover have "m_max_ts m \<le> t" if "\<forall>e \<in> set es. e_ts e \<le> t" for t
  proof -
    have mx: "max_or_0 xs \<le> t" if "\<forall>x \<in> set xs. x \<le> t" for xs
      using that by (cases xs) (auto simp: max_or_0_def Max.set_eq_fold [symmetric])
    show ?thesis
      unfolding max using mx [of "map e_ts (sort_key edge_sort_key es)"] that by simp
  qed
  ultimately show thesis using w m new recs ok' notin by (intro that)
qed

end

end
