(* ===== verification/Engine_Store.thy ===== *)
theory Engine_Store
  imports Engine Segment_Store
begin

section \<open>The engine's disk\<close>

text \<open>
  The live files of an engine, the records they hold, the log and the cache: what a run of
  segment writes and an index rebuild do to them.
\<close>

definition live :: "engine \<Rightarrow> csr_segment_meta set" where
  "live e = set (concat (v_levels (en_version e)))"

definition file_recs :: "engine \<Rightarrow> csr_segment_meta \<Rightarrow> edge_record list" where
  "file_recs e m = seg_records (engine_io e) (engine_store e) (en_fs e) m"

definition engine_log :: "engine \<Rightarrow> manifest_record list" where
  "engine_log e = (case en_manifest e of None \<Rightarrow> [] | Some log \<Rightarrow> log)"

abbreviation engine_files_ok :: "engine \<Rightarrow> csr_segment_meta set \<Rightarrow> bool" where
  "engine_files_ok e M \<equiv> files_ok (engine_io e) (engine_store e) (en_fs e) (en_next_file_id e) M"

lemma engine_io_backend: "io_backend (engine_io e)"
  unfolding engine_io_def by (rule whole_io.io_backend_axioms)

lemma engine_io_fields [simp]:
  "engine_io (e\<lparr>en_fs := a\<rparr>) = engine_io e" "engine_io (e\<lparr>en_manifest := b\<rparr>) = engine_io e"
  "engine_io (e\<lparr>en_graphs := c\<rparr>) = engine_io e" "engine_io (e\<lparr>en_next_graph := d\<rparr>) = engine_io e"
  "engine_io (e\<lparr>en_version := f\<rparr>) = engine_io e" "engine_io (e\<lparr>en_active := g\<rparr>) = engine_io e"
  "engine_io (e\<lparr>en_next_file_id := h\<rparr>) = engine_io e" "engine_io (e\<lparr>en_tasks := i\<rparr>) = engine_io e"
  "engine_io (e\<lparr>en_ts := j\<rparr>) = engine_io e" "engine_io (e\<lparr>en_index := k\<rparr>) = engine_io e"
  "engine_io (e\<lparr>en_cache := l\<rparr>) = engine_io e"
  by (simp_all add: engine_io_def)

lemma engine_store_fields [simp]:
  "engine_store (e\<lparr>en_fs := a\<rparr>) = engine_store e" "engine_store (e\<lparr>en_manifest := b\<rparr>) = engine_store e"
  "engine_store (e\<lparr>en_graphs := c\<rparr>) = engine_store e" "engine_store (e\<lparr>en_next_graph := d\<rparr>) = engine_store e"
  "engine_store (e\<lparr>en_version := f\<rparr>) = engine_store e" "engine_store (e\<lparr>en_active := g\<rparr>) = engine_store e"
  "engine_store (e\<lparr>en_next_file_id := h\<rparr>) = engine_store e" "engine_store (e\<lparr>en_tasks := i\<rparr>) = engine_store e"
  "engine_store (e\<lparr>en_ts := j\<rparr>) = engine_store e" "engine_store (e\<lparr>en_index := k\<rparr>) = engine_store e"
  "engine_store (e\<lparr>en_cache := l\<rparr>) = engine_store e"
  by (simp_all add: engine_store_def)

text \<open>Appending several records.\<close>

definition log_all :: "manifest_record list \<Rightarrow> manifest_record list option \<Rightarrow> manifest_record list option" where
  "log_all rs log = fold manifest_append rs log"

lemma log_all_Nil [simp]: "log_all [] log = log"
  by (simp add: log_all_def)

lemma log_all_Cons [simp]: "log_all (r # rs) log = log_all rs (manifest_append r log)"
  by (simp add: log_all_def)

lemma log_all_list:
  "(case log_all rs log of None \<Rightarrow> [] | Some l \<Rightarrow> l) = (case log of None \<Rightarrow> [] | Some l \<Rightarrow> l) @ rs"
  by (induction rs arbitrary: log) (auto simp: manifest_append_def)

text \<open>What a written segment holds.\<close>

definition holds :: "io_ops \<Rightarrow> string \<Rightarrow> file_system \<Rightarrow> level_id \<Rightarrow> csr_segment_meta \<Rightarrow> edge_record list \<Rightarrow> bool" where
  "holds io store fs level m es \<longleftrightarrow>
     m_level m = level \<and> seg_records io store fs m = sort_key edge_sort_key es \<and>
     (\<forall>e \<in> set es. e_ts e \<le> m_max_ts m) \<and> (\<forall>t. (\<forall>e \<in> set es. e_ts e \<le> t) \<longrightarrow> m_max_ts m \<le> t)"

lemma write_level_segment_run:
  assumes ok: "engine_files_ok e M" and fits: "segment_fits es"
    and room: "unat (en_next_file_id e) + 1 < 2 ^ 64"
  obtains fs' m where
    "write_level_segment level es e =
      (e\<lparr>en_fs := fs', en_next_file_id := en_next_file_id e + 1,
         en_manifest := manifest_append (Create_file m) (en_manifest e)\<rparr>, Inr m)"
    "holds (engine_io e) (engine_store e) fs' level m es" "m_file_id m = en_next_file_id e"
    "\<And>x. x \<in> M \<Longrightarrow> seg_records (engine_io e) (engine_store e) fs' x = file_recs e x"
    "files_ok (engine_io e) (engine_store e) fs' (en_next_file_id e + 1) (insert m M)" "m \<notin> M"
proof -
  obtain fs' m where "write_segment (engine_io e) (engine_store e) level (en_next_file_id e) es (en_fs e) = (fs', Inr m)"
    "m_file_id m = en_next_file_id e" "m_level m = level"
    "seg_records (engine_io e) (engine_store e) fs' m = sort_key edge_sort_key es"
    "\<And>x. x \<in> M \<Longrightarrow> seg_records (engine_io e) (engine_store e) fs' x = seg_records (engine_io e) (engine_store e) (en_fs e) x"
    "files_ok (engine_io e) (engine_store e) fs' (en_next_file_id e + 1) (insert m M)" "m \<notin> M"
    "\<forall>e \<in> set es. e_ts e \<le> m_max_ts m" "\<And>t. \<forall>e \<in> set es. e_ts e \<le> t \<Longrightarrow> m_max_ts m \<le> t"
    using io_backend.write_segment_files_ok [OF engine_io_backend ok fits room] by blast
  then show thesis
    by (intro that [where fs' = fs' and m = m])
      (simp_all add: write_level_segment_def sbind_def alloc_file_id_def with_fs_def supdate_def
        sreturn_def holds_def file_recs_def)
qed

lemma write_level_segments_run:
  assumes "engine_files_ok e M" "\<forall>s \<in> set segs. segment_fits s"
    and "unat (en_next_file_id e) + length segs < 2 ^ 64"
  shows "\<exists>fs' metas. smap (write_level_segment level) segs e =
      (e\<lparr>en_fs := fs', en_next_file_id := en_next_file_id e + of_nat (length segs),
         en_manifest := log_all (map Create_file metas) (en_manifest e)\<rparr>, Inr metas) \<and>
    list_all2 (holds (engine_io e) (engine_store e) fs' level) metas segs \<and>
    (\<forall>x \<in> M. seg_records (engine_io e) (engine_store e) fs' x = file_recs e x) \<and>
    files_ok (engine_io e) (engine_store e) fs' (en_next_file_id e + of_nat (length segs)) (set metas \<union> M) \<and>
    distinct (map m_file_id metas) \<and>
    (\<forall>m \<in> set metas. en_next_file_id e \<le> m_file_id m)"
  using assms
proof (induction segs arbitrary: e M)
  case Nil
  then show ?case by (intro exI [of _ "en_fs e"] exI [of _ "[]"]) (simp add: sreturn_def file_recs_def)
next
  case (Cons s segs)
  have room: "unat (en_next_file_id e) + 1 < 2 ^ 64" using Cons.prems(3) by simp
  have fits: "segment_fits s" using Cons.prems(2) by simp
  obtain fs1 m where w: "write_level_segment level s e =
      (e\<lparr>en_fs := fs1, en_next_file_id := en_next_file_id e + 1,
         en_manifest := manifest_append (Create_file m) (en_manifest e)\<rparr>, Inr m)"
    and m: "holds (engine_io e) (engine_store e) fs1 level m s" "m_file_id m = en_next_file_id e"
    and old: "\<And>x. x \<in> M \<Longrightarrow> seg_records (engine_io e) (engine_store e) fs1 x = file_recs e x"
    and ok1: "files_ok (engine_io e) (engine_store e) fs1 (en_next_file_id e + 1) (insert m M)" "m \<notin> M"
    using write_level_segment_run [OF Cons.prems(1) fits room] by blast
  let ?e = "e\<lparr>en_fs := fs1, en_next_file_id := en_next_file_id e + 1,
      en_manifest := manifest_append (Create_file m) (en_manifest e)\<rparr>"
  have "engine_files_ok ?e (insert m M)" using ok1 by simp
  moreover have "unat (en_next_file_id ?e) + length segs < 2 ^ 64"
    using Cons.prems(3) unat_plus_1 [OF room] by simp
  moreover have "\<forall>s \<in> set segs. segment_fits s" using Cons.prems(2) by simp
  ultimately obtain fs' metas where r: "smap (write_level_segment level) segs ?e =
      (?e\<lparr>en_fs := fs', en_next_file_id := en_next_file_id ?e + of_nat (length segs),
         en_manifest := log_all (map Create_file metas) (en_manifest ?e)\<rparr>, Inr metas)"
    "list_all2 (holds (engine_io ?e) (engine_store ?e) fs' level) metas segs"
    "\<forall>x \<in> insert m M. seg_records (engine_io ?e) (engine_store ?e) fs' x = file_recs ?e x"
    "files_ok (engine_io ?e) (engine_store ?e) fs' (en_next_file_id ?e + of_nat (length segs)) (set metas \<union> insert m M)"
    "distinct (map m_file_id metas)" "\<forall>m \<in> set metas. en_next_file_id ?e \<le> m_file_id m"
    using Cons.IH [of ?e "insert m M"] by blast
  have new: "en_next_file_id e < m_file_id x" if "x \<in> set metas" for x
    using r(6) that le_less_plus_1 [OF room order_refl] by fastforce
  have "holds (engine_io e) (engine_store e) fs' level m s"
    using m(1) r(3) by (simp add: holds_def file_recs_def)
  then have "list_all2 (holds (engine_io e) (engine_store e) fs' level) (m # metas) (s # segs)"
    using r(2) by simp
  moreover have "\<forall>x \<in> M. seg_records (engine_io e) (engine_store e) fs' x = file_recs e x"
    using r(3) old by (simp add: file_recs_def)
  moreover have "files_ok (engine_io e) (engine_store e) fs' (en_next_file_id e + of_nat (length (s # segs))) (set (m # metas) \<union> M)"
    using r(4) by (simp add: add.assoc)
  moreover have "distinct (map m_file_id (m # metas))" using r(5) new m(2) by force
  moreover have "\<forall>x \<in> set (m # metas). en_next_file_id e \<le> m_file_id x"
    using new m(2) by (auto intro: less_imp_le)
  moreover have "smap (write_level_segment level) (s # segs) e =
      (e\<lparr>en_fs := fs', en_next_file_id := en_next_file_id e + of_nat (length (s # segs)),
         en_manifest := log_all (map Create_file (m # metas)) (en_manifest e)\<rparr>, Inr (m # metas))"
    using w r(1) by (simp add: sbind_def sreturn_def add.assoc)
  ultimately show ?case by blast
qed

subsection \<open>The cache and the index\<close>

text \<open>A cached entry belongs to an id handed out before and, if the file is live, is what the file
  holds.\<close>

definition entry_ok ::
  "io_ops \<Rightarrow> string \<Rightarrow> file_system \<Rightarrow> file_id \<Rightarrow> csr_segment_meta set \<Rightarrow> file_id \<Rightarrow> cached_csr_metadata \<Rightarrow> bool"
where
  "entry_ok io store fs next_id M f md \<longleftrightarrow>
     f < next_id \<and> (\<forall>x \<in> M. m_file_id x = f \<longrightarrow> md = segment_metadata x (seg_records io store fs x))"

definition cache_ok :: "engine \<Rightarrow> csr_segment_meta set \<Rightarrow> bool" where
  "cache_ok e M \<longleftrightarrow>
     cache_all (entry_ok (engine_io e) (engine_store e) (en_fs e) (en_next_file_id e) M) (Some (en_cache e))"

lemma entry_okI:
  assumes "files_ok io store fs n M" "m \<in> M"
  shows "entry_ok io store fs n M (m_file_id m) (segment_metadata m (seg_records io store fs m))"
proof -
  have "x = m" if "x \<in> M" "m_file_id x = m_file_id m" for x
    using assms that by (auto simp: files_ok_def inj_on_def)
  then show ?thesis using files_okD(1) [OF assms] by (auto simp: entry_ok_def)
qed

lemma entry_ok_only:
  "entry_ok io store fs n M (m_file_id m) md \<Longrightarrow> m \<in> M \<Longrightarrow> md = segment_metadata m (seg_records io store fs m)"
  by (simp add: entry_ok_def)

lemma cache_all_mono:
  "cache_all P c \<Longrightarrow> (\<And>f m. P f m \<Longrightarrow> Q f m) \<Longrightarrow> cache_all Q c"
  by (auto simp: cache_all_def split: option.splits)

text \<open>Fewer live files, or new files under ids not handed out before, keep the cache good.\<close>

lemma cache_ok_shrink: "cache_ok e M \<Longrightarrow> N \<subseteq> M \<Longrightarrow> cache_ok e N"
  unfolding cache_ok_def by (erule cache_all_mono) (auto simp: entry_ok_def)

lemma cache_ok_grow:
  assumes "cache_ok e M" "engine_io e' = engine_io e" "engine_store e' = engine_store e"
    and "en_cache e' = en_cache e" "en_next_file_id e \<le> en_next_file_id e'"
    and "\<forall>x \<in> M. file_recs e' x = file_recs e x" "\<forall>x \<in> N. en_next_file_id e \<le> m_file_id x"
  shows "cache_ok e' (N \<union> M)"
  using assms(1) unfolding cache_ok_def assms(2-4)
proof (rule cache_all_mono)
  fix f md
  assume "entry_ok (engine_io e) (engine_store e) (en_fs e) (en_next_file_id e) M f md"
  then show "entry_ok (engine_io e) (engine_store e) (en_fs e') (en_next_file_id e') (N \<union> M) f md"
    using assms(2,3,5,6,7) by (auto simp: entry_ok_def file_recs_def)
qed

lemma index_metas_run:
  assumes "engine_files_ok e M" "cache_ok e M" "set ms \<subseteq> M" "hm_inv ix"
  shows "\<exists>c ix'. index_metas ms ix e = (e\<lparr>en_cache := c\<rparr>, Inr ix') \<and> cache_ok (e\<lparr>en_cache := c\<rparr>) M \<and>
    (\<forall>src m. m \<in> set (get_positions ix' src) \<longleftrightarrow>
       m \<in> set (get_positions ix src) \<or> m \<in> set ms \<and> src \<in> e_src ` set (file_recs e m))"
  using assms
proof (induction ms arbitrary: ix e)
  case Nil
  then show ?case by (intro exI [of _ "en_cache e"]) (simp add: sreturn_def)
next
  case (Cons m ms)
  have m: "m \<in> M" using Cons.prems(3) by simp
  let ?P = "entry_ok (engine_io e) (engine_store e) (en_fs e) (en_next_file_id e) M"
  have only: "\<And>md. ?P (m_file_id m) md \<Longrightarrow>
      md = segment_metadata m (seg_records (engine_io e) (engine_store e) (en_fs e) m)"
    by (rule entry_ok_only [OF _ m])
  obtain c where ro: "read_offsets (engine_io e) (engine_store e) (en_fs e) m (Some (en_cache e)) =
      (c, Inr (segment_offsets (file_recs e m)))" and all: "cache_all ?P c"
    unfolding file_recs_def
    using io_backend.read_offsets_written [OF engine_io_backend files_okD(2) [OF Cons.prems(1) m]
        Cons.prems(2) [unfolded cache_ok_def] only entry_okI [OF Cons.prems(1) m]] by blast
  define c' where "c' = (case c of Some x \<Rightarrow> x | None \<Rightarrow> en_cache e)"
  let ?e = "e\<lparr>en_cache := c'\<rparr>" and ?ix = "fold (index_push m) (map o_src (segment_offsets (file_recs e m))) ix"
  have wr: "with_reader (read_offsets (engine_io e) (engine_store e) (en_fs e) m) e =
      (?e, Inr (segment_offsets (file_recs e m)))"
    by (simp add: with_reader_def ro c'_def)
  have cache: "cache_ok ?e M"
    using all Cons.prems(2) by (cases c) (simp_all add: cache_ok_def c'_def)
  have "hm_inv ?ix" and pos: "\<And>src. set (get_positions ?ix src) =
      set (get_positions ix src) \<union> (if src \<in> e_src ` set (file_recs e m) then {m} else {})"
    using index_push_all [OF Cons.prems(4), of m "map o_src (segment_offsets (file_recs e m))"]
    by (simp_all add: segment_offsets_src)
  obtain c2 ix' where r: "index_metas ms ?ix ?e = (?e\<lparr>en_cache := c2\<rparr>, Inr ix')" "cache_ok (?e\<lparr>en_cache := c2\<rparr>) M"
      "\<forall>src x. x \<in> set (get_positions ix' src) \<longleftrightarrow>
        x \<in> set (get_positions ?ix src) \<or> x \<in> set ms \<and> src \<in> e_src ` set (file_recs ?e x)"
    using Cons.IH [of ?e ?ix] Cons.prems cache \<open>hm_inv ?ix\<close> by auto
  have fr: "file_recs ?e x = file_recs e x" for x by (simp add: file_recs_def)
  have "index_metas (m # ms) ix e = (e\<lparr>en_cache := c2\<rparr>, Inr ix')"
    using r(1) wr by simp
  moreover have "cache_ok (e\<lparr>en_cache := c2\<rparr>) M" using r(2) by simp
  moreover have "\<forall>src x. x \<in> set (get_positions ix' src) \<longleftrightarrow>
      x \<in> set (get_positions ix src) \<or> x \<in> set (m # ms) \<and> src \<in> e_src ` set (file_recs e x)"
    using r(3) unfolding pos fr by auto
  ultimately show ?case by blast
qed

text \<open>The segments above level 0, and an index that knows exactly their sources.\<close>

definition upper :: "engine \<Rightarrow> csr_segment_meta set" where
  "upper e = set (concat (drop 1 (v_levels (en_version e))))"

definition index_ok :: "engine \<Rightarrow> bool" where
  "index_ok e \<longleftrightarrow>
     (\<forall>src m. m \<in> set (get_positions (en_index e) src) \<longleftrightarrow>
        m \<in> upper e \<and> src \<in> e_src ` set (file_recs e m))"

lemma upper_live: "upper e \<subseteq> live e"
  by (auto simp: upper_def live_def dest: in_set_dropD)

lemma live_upper: "live e = set (get_level (v_levels (en_version e)) L0) \<union> upper e"
  by (cases "v_levels (en_version e)") (auto simp: live_def upper_def get_level_def L0_def)

lemma rebuild_index_run:
  assumes "engine_files_ok e (live e)" "cache_ok e (live e)"
  obtains ix c where "rebuild_index e = (e\<lparr>en_cache := c, en_index := ix\<rparr>, Inr ())"
    "cache_ok (e\<lparr>en_cache := c, en_index := ix\<rparr>) (live e)"
    "index_ok (e\<lparr>en_cache := c, en_index := ix\<rparr>)"
proof -
  have sub: "set (concat (drop 1 (v_levels (en_version e)))) \<subseteq> live e"
    using upper_live by (simp add: upper_def)
  obtain c ix where r: "index_metas (concat (drop 1 (v_levels (en_version e)))) [] e = (e\<lparr>en_cache := c\<rparr>, Inr ix)"
    "cache_ok (e\<lparr>en_cache := c\<rparr>) (live e)"
    "\<forall>src m. m \<in> set (get_positions ix src) \<longleftrightarrow> m \<in> set (get_positions [] src) \<or>
      m \<in> set (concat (drop 1 (v_levels (en_version e)))) \<and> src \<in> e_src ` set (file_recs e m)"
    using index_metas_run [OF assms sub hm.inv_empty] by blast
  show thesis
  proof (rule that [where c = c and ix = ix])
    show "rebuild_index e = (e\<lparr>en_cache := c, en_index := ix\<rparr>, Inr ())"
      using r(1) by (simp add: rebuild_index_def sbind_def supdate_def)
    show "cache_ok (e\<lparr>en_cache := c, en_index := ix\<rparr>) (live e)"
      using r(2) by (simp add: cache_ok_def)
    show "index_ok (e\<lparr>en_cache := c, en_index := ix\<rparr>)"
      using r(3) by (simp add: index_ok_def upper_def file_recs_def get_positions_def [of "[]"] hm.get_empty)
  qed
qed

text \<open>A rebuild changes nothing but the cache and the index.\<close>

lemma rebuild_only_index:
  assumes "rebuild_index e = (e', r)"
  shows "\<exists>c ix. e' = e\<lparr>en_cache := c, en_index := ix\<rparr>"
proof -
  have "\<exists>c. fst (index_metas ms ix e) = e\<lparr>en_cache := c\<rparr>" for ms ix and e :: engine
  proof (induction ms arbitrary: ix e)
    case Nil
    then show ?case by (intro exI [of _ "en_cache e"]) (simp add: sreturn_def)
  next
    case (Cons m ms)
    obtain c r where "with_reader (read_offsets (engine_io e) (engine_store e) (en_fs e) m) e = (e\<lparr>en_cache := c\<rparr>, r)"
      by (cases "read_offsets (engine_io e) (engine_store e) (en_fs e) m (Some (en_cache e))")
        (simp add: with_reader_def)
    with Cons.IH [of "fold (index_push m) (map o_src (case r of Inl _ \<Rightarrow> [] | Inr os \<Rightarrow> os)) ix" "e\<lparr>en_cache := c\<rparr>"]
    show ?case by simp
  qed
  then obtain c where c: "fst (index_metas (concat (drop 1 (v_levels (en_version e)))) [] e) = e\<lparr>en_cache := c\<rparr>" by blast
  show ?thesis
  proof (cases "snd (index_metas (concat (drop 1 (v_levels (en_version e)))) [] e)")
    case (Inl err)
    with c assms show ?thesis
      by (intro exI [of _ c] exI [of _ "en_index e"]) (auto simp: rebuild_index_def sbind_def split: prod.splits)
  next
    case (Inr ix)
    with c assms show ?thesis
      by (intro exI [of _ c] exI [of _ ix]) (auto simp: rebuild_index_def sbind_def supdate_def split: prod.splits)
  qed
qed

end
