(* ===== verification/Engine_Inv.thy ===== *)
theory Engine_Inv
  imports Engine_Store
begin

section \<open>The engine's invariant\<close>

text \<open>
  The records an engine holds, in memory and on disk, and the invariant every operation keeps:
  memory graphs that are well formed, files where the version says they are, a log that replays
  to the version, a coherent cache and index, and a clock no record is ahead of.
\<close>

definition memgraphs :: "engine \<Rightarrow> u64 list" where
  "memgraphs e = v_memgraphs (en_version e)"

definition mem_records :: "engine \<Rightarrow> edge_record set" where
  "mem_records e = (\<Union>i \<in> set (memgraphs e). set (contents (graph_of e i)))"

definition disk_records :: "engine \<Rightarrow> edge_record set" where
  "disk_records e = (\<Union>m \<in> live e. set (file_recs e m))"

definition records :: "engine \<Rightarrow> edge_record set" where
  "records e = mem_records e \<union> disk_records e"

definition pend :: "engine \<Rightarrow> nat" where
  "pend e = sum_list (map (\<lambda>i. length (contents (graph_of e i))) (memgraphs e))"

definition graph_good :: "mem_graph \<Rightarrow> bool" where
  "graph_good g \<longleftrightarrow> mg_inv g \<and> distinct (map edge_sort_key (contents g)) \<and>
     mg_edge_count g = length (contents g)"

definition graphs_ok :: "engine \<Rightarrow> bool" where
  "graphs_ok e \<longleftrightarrow>
     hm_inv (en_graphs e) \<and> distinct (memgraphs e) \<and> en_active e \<in> set (memgraphs e) \<and>
     (\<forall>i \<in> set (memgraphs e). i < en_next_graph e \<and> graph_good (graph_of e i))"

definition log_ok :: "engine \<Rightarrow> bool" where
  "log_ok e \<longleftrightarrow>
     (\<forall>m. live_in_log (engine_log e) m \<longleftrightarrow> m \<in> live e) \<and>
     (\<forall>m. Create_file m \<in> set (engine_log e) \<longrightarrow> m_file_id m < en_next_file_id e) \<and>
     (\<forall>m \<in> live e. \<forall>r \<in> set (file_recs e m). e_ts r \<le> m_max_ts m)"

definition disk_ok :: "engine \<Rightarrow> bool" where
  "disk_ok e \<longleftrightarrow>
     engine_files_ok e (live e) \<and> distinct (concat (v_levels (en_version e))) \<and>
     cache_ok e (live e) \<and> index_ok e \<and> log_ok e"

definition time_ok :: "engine \<Rightarrow> bool" where
  "time_ok e \<longleftrightarrow>
     inj_on e_ts (records e) \<and> (\<forall>r \<in> records e. e_ts r \<le> en_ts e) \<and> pend e \<le> unat (en_ts e)"

text \<open>Every memory graph but the active one waits for its flush.\<close>

definition pendings :: "flush_task list \<Rightarrow> u64 list" where
  "pendings ts = concat (map (\<lambda>t. case t of Pending i \<Rightarrow> [i] | Finished r \<Rightarrow> []) ts)"

definition tasks_ok :: "engine \<Rightarrow> flush_task list \<Rightarrow> bool" where
  "tasks_ok e ts \<longleftrightarrow>
     distinct (pendings ts) \<and> set (memgraphs e) = insert (en_active e) (set (pendings ts)) \<and>
     en_active e \<notin> set (pendings ts) \<and>
     (\<forall>i \<in> set (pendings ts). contents (graph_of e i) \<noteq> []) \<and> (\<forall>r. Finished r \<in> set ts \<longrightarrow> r = Inr ())"

definition engine_inv :: "engine \<Rightarrow> bool" where
  "engine_inv e \<longleftrightarrow> graphs_ok e \<and> disk_ok e \<and> time_ok e \<and> tasks_ok e (en_tasks e)"

text \<open>The counters are far from wrapping around.\<close>

definition small :: "engine \<Rightarrow> bool" where
  "small e \<longleftrightarrow> unat (en_ts e) < 2 ^ 55 \<and> unat (en_next_file_id e) < 2 ^ 63 \<and> unat (en_next_graph e) < 2 ^ 63"

lemma pendings_simps [simp]:
  "pendings [] = []" "pendings (Pending i # ts) = i # pendings ts" "pendings (Finished r # ts) = pendings ts"
  "pendings (xs @ ys) = pendings xs @ pendings ys"
  by (simp_all add: pendings_def)

lemma set_pendings [simp]: "i \<in> set (pendings ts) \<longleftrightarrow> Pending i \<in> set ts"
  by (induction ts) (auto simp: pendings_def split: flush_task.splits)

subsection \<open>What an operation leaves alone\<close>

text \<open>Operations on the memory side keep the disk side, and the other way round.\<close>

definition same_disk :: "engine \<Rightarrow> engine \<Rightarrow> bool" where
  "same_disk e e' \<longleftrightarrow>
     en_config e' = en_config e \<and> en_fs e' = en_fs e \<and> en_manifest e' = en_manifest e \<and>
     v_levels (en_version e') = v_levels (en_version e) \<and> en_next_file_id e' = en_next_file_id e \<and>
     en_index e' = en_index e \<and> en_cache e' = en_cache e"

definition same_memory :: "engine \<Rightarrow> engine \<Rightarrow> bool" where
  "same_memory e e' \<longleftrightarrow>
     en_config e' = en_config e \<and> en_graphs e' = en_graphs e \<and> en_next_graph e' = en_next_graph e \<and>
     en_active e' = en_active e \<and> en_ts e' = en_ts e \<and> en_tasks e' = en_tasks e"

lemma same_disk_live: "same_disk e e' \<Longrightarrow> live e' = live e"
  by (simp add: same_disk_def live_def)

lemma same_disk_recs: "same_disk e e' \<Longrightarrow> file_recs e' = file_recs e"
  by (rule ext) (simp add: same_disk_def file_recs_def engine_io_def engine_store_def)

lemma same_disk_records: "same_disk e e' \<Longrightarrow> disk_records e' = disk_records e"
  by (simp add: disk_records_def same_disk_live same_disk_recs)

lemma same_disk_ok:
  assumes "same_disk e e'" "disk_ok e" shows "disk_ok e'"
proof -
  have "engine_io e' = engine_io e" "engine_store e' = engine_store e" "upper e' = upper e"
    "engine_log e' = engine_log e"
    using assms(1) by (simp_all add: same_disk_def engine_io_def engine_store_def upper_def engine_log_def)
  then show ?thesis
    using assms same_disk_live [OF assms(1)] same_disk_recs [OF assms(1)]
    by (simp add: disk_ok_def log_ok_def index_ok_def cache_ok_def same_disk_def)
qed

lemma same_memory_graph: "same_memory e e' \<Longrightarrow> graph_of e' = graph_of e"
  by (rule ext) (simp add: same_memory_def graph_of_def)

lemma graph_of_fields [simp]:
  "graph_of (e\<lparr>en_fs := a\<rparr>) = graph_of e" "graph_of (e\<lparr>en_manifest := b\<rparr>) = graph_of e"
  "graph_of (e\<lparr>en_next_graph := d\<rparr>) = graph_of e"
  "graph_of (e\<lparr>en_version := f\<rparr>) = graph_of e" "graph_of (e\<lparr>en_active := g\<rparr>) = graph_of e"
  "graph_of (e\<lparr>en_next_file_id := h\<rparr>) = graph_of e" "graph_of (e\<lparr>en_tasks := i\<rparr>) = graph_of e"
  "graph_of (e\<lparr>en_ts := j\<rparr>) = graph_of e" "graph_of (e\<lparr>en_index := k\<rparr>) = graph_of e"
  "graph_of (e\<lparr>en_cache := l\<rparr>) = graph_of e"
  by (rule ext, simp add: graph_of_def)+

lemma memgraphs_fields [simp]:
  "memgraphs (e\<lparr>en_fs := a\<rparr>) = memgraphs e" "memgraphs (e\<lparr>en_manifest := b\<rparr>) = memgraphs e"
  "memgraphs (e\<lparr>en_graphs := c\<rparr>) = memgraphs e" "memgraphs (e\<lparr>en_next_graph := d\<rparr>) = memgraphs e"
  "memgraphs (e\<lparr>en_active := g\<rparr>) = memgraphs e"
  "memgraphs (e\<lparr>en_next_file_id := h\<rparr>) = memgraphs e" "memgraphs (e\<lparr>en_tasks := i\<rparr>) = memgraphs e"
  "memgraphs (e\<lparr>en_ts := j\<rparr>) = memgraphs e" "memgraphs (e\<lparr>en_index := k\<rparr>) = memgraphs e"
  "memgraphs (e\<lparr>en_cache := l\<rparr>) = memgraphs e"
  by (simp_all add: memgraphs_def)

lemma graph_of_insert:
  "hm_inv (en_graphs e) \<Longrightarrow>
   graph_of (e\<lparr>en_graphs := hm_insert i g (en_graphs e)\<rparr>) j = (if j = i then g else graph_of e j)"
  by (simp add: graph_of_def hm.get_ins)

lemma publish_simps [simp]:
  "memgraphs (publish ms ls e) = ms" "v_levels (en_version (publish ms ls e)) = ls"
  "en_config (publish ms ls e) = en_config e" "en_fs (publish ms ls e) = en_fs e"
  "en_manifest (publish ms ls e) = en_manifest e" "en_graphs (publish ms ls e) = en_graphs e"
  "en_next_graph (publish ms ls e) = en_next_graph e" "en_active (publish ms ls e) = en_active e"
  "en_next_file_id (publish ms ls e) = en_next_file_id e" "en_tasks (publish ms ls e) = en_tasks e"
  "en_ts (publish ms ls e) = en_ts e" "en_index (publish ms ls e) = en_index e"
  "en_cache (publish ms ls e) = en_cache e" "graph_of (publish ms ls e) = graph_of e"
  "engine_io (publish ms ls e) = engine_io e" "engine_store (publish ms ls e) = engine_store e"
  by (simp_all add: publish_def memgraphs_def)

lemma finite_records: "finite (records e)"
  by (simp add: records_def mem_records_def disk_records_def live_def)

lemma time_ok_unique: "time_ok e \<Longrightarrow> ts_unique (records e)"
  by (auto simp: time_ok_def ts_unique_def inj_on_def)

end
