(* ===== verification/Engine_Disk.thy ===== *)
theory Engine_Disk
  imports Engine_Inv
begin

section \<open>Replacing segments\<close>

text \<open>
  What a flush and every compaction have in common: write new segments, log them and the ones
  they replace, publish levels with the new ones in the place of the old ones, and rebuild the
  index. The live files, the log, the cache and the index stay consistent, and the records on
  disk are the written ones and those of the files that were kept.
\<close>

lemma log_deletes_log:
  "log_deletes ms e = e\<lparr>en_manifest := log_all (map (\<lambda>m. Delete_file (m_file_id m)) ms) (en_manifest e)\<rparr>"
  unfolding log_deletes_def by (induction ms arbitrary: e) simp_all

lemma list_all2_holds_records:
  assumes "list_all2 (holds io store fs level) metas segs"
  shows "(\<Union>m \<in> set metas. set (seg_records io store fs m)) = set (concat segs)"
    and "\<forall>m \<in> set metas. \<forall>r \<in> set (seg_records io store fs m). e_ts r \<le> m_max_ts m"
  using assms by (induction rule: list_all2_induct) (auto simp: holds_def)

text \<open>The files left by a replacement.\<close>

lemma replaced_files:
  assumes eq: "mset (concat ls') + mset old = mset metas + mset (concat ls)"
    and d: "distinct (concat ls)" "distinct metas" "set metas \<inter> set (concat ls) = {}"
    and sub: "set old \<subseteq> set (concat ls)"
  shows "distinct (concat ls')" "set (concat ls') = set metas \<union> (set (concat ls) - set old)"
proof -
  have eq': "mset (concat ls' @ old) = mset (metas @ concat ls)" using eq by simp
  have "distinct (metas @ concat ls)" using d by auto
  then have d': "distinct (concat ls' @ old)" using eq' mset_eq_imp_distinct_iff by blast
  have "set (concat ls') \<union> set old = set metas \<union> set (concat ls)"
    using mset_eq_setD [OF eq'] by (simp only: set_append)
  moreover have "set (concat ls') \<inter> set old = {}" "distinct (concat ls')" using d' by auto
  ultimately show "distinct (concat ls')" "set (concat ls') = set metas \<union> (set (concat ls) - set old)"
    using sub d(3) by blast+
qed

lemma log_after_replace:
  assumes live: "\<forall>m. live_in_log log m \<longleftrightarrow> m \<in> M" and ids: "inj_on m_file_id M"
    and new: "distinct (map m_file_id metas)" "\<forall>m \<in> set metas. \<forall>x \<in> M. m_file_id x \<noteq> m_file_id m"
    and sub: "set old \<subseteq> M"
  shows "live_in_log (log @ map Create_file metas @ map (\<lambda>m. Delete_file (m_file_id m)) old) m \<longleftrightarrow>
    m \<in> set metas \<union> (M - set old)"
proof -
  let ?s = "fold manifest_step (map Create_file metas) (manifest_replay log)"
  have M: "set (bt_values (fst (manifest_replay log))) = M"
    using live live_files_iff by blast
  then have s: "set (bt_values (fst ?s)) = set metas \<union> M"
    using replay_creates [OF replay_ok_replay new(1), of log] new(2) by simp
  have "(\<lambda>m. Delete_file (m_file_id m)) = Delete_file \<circ> m_file_id" by (simp add: comp_def)
  then have dels: "map (\<lambda>m. Delete_file (m_file_id m)) old = map Delete_file (map m_file_id old)" by simp
  have "m \<in> set (bt_values (fst (manifest_replay
      (log @ map Create_file metas @ map (\<lambda>m. Delete_file (m_file_id m)) old)))) \<longleftrightarrow>
      m \<in> set metas \<union> M \<and> m_file_id m \<notin> set (map m_file_id old)"
    unfolding manifest_replay_append fold_append comp_def dels
    using replay_deletes [OF replay_ok_fold [OF replay_ok_replay], of "map m_file_id old" "map Create_file metas" log]
    unfolding s by blast
  moreover have "m_file_id m \<in> set (map m_file_id old) \<longleftrightarrow> m \<in> set old" if "m \<in> M"
    using that sub ids by (auto simp: inj_on_def)
  moreover have "m_file_id m \<notin> set (map m_file_id old)" if "m \<in> set metas"
    using that sub new(2) by (metis imageE set_map subsetD)
  ultimately show ?thesis unfolding live_files_iff using new(2) by blast
qed

lemma engine_log_append:
  "engine_log (e\<lparr>en_manifest := log_all rs (en_manifest e)\<rparr>) = engine_log e @ rs"
  unfolding engine_log_def using log_all_list by simp

lemma log_all_append: "log_all ys (log_all xs log) = log_all (xs @ ys) log"
  by (simp add: log_all_def)

text \<open>The whole replacement.\<close>

definition committed ::
  "engine \<Rightarrow> u64 list \<Rightarrow> edge_record list list \<Rightarrow> csr_segment_meta list \<Rightarrow> engine \<Rightarrow> bool"
where
  "committed e mgs segs old e' \<longleftrightarrow>
     disk_ok e' \<and> same_memory e e' \<and> memgraphs e' = mgs \<and>
     en_next_file_id e' = en_next_file_id e + of_nat (length segs) \<and>
     disk_records e' = set (concat segs) \<union> (\<Union>m \<in> live e - set old. set (file_recs e m))"

lemma rebuild_committed:
  assumes disk: "disk_ok e" and e1: "e1 = e\<lparr>en_fs := fs', en_next_file_id := en_next_file_id e + of_nat (length segs),
         en_manifest := log_all (map Create_file metas) (en_manifest e)\<rparr>"
    and w: "list_all2 (holds (engine_io e) (engine_store e) fs' level) metas segs"
      "\<forall>x \<in> live e. seg_records (engine_io e) (engine_store e) fs' x = file_recs e x"
      "files_ok (engine_io e) (engine_store e) fs' (en_next_file_id e + of_nat (length segs)) (set metas \<union> live e)"
      "distinct (map m_file_id metas)" "\<forall>m \<in> set metas. en_next_file_id e \<le> m_file_id m"
    and sub: "set old \<subseteq> live e" and room: "unat (en_next_file_id e) + length segs < 2 ^ 64"
    and ls: "mset (concat ls') + mset old = mset metas + mset (concat (v_levels (en_version e)))"
  shows "\<exists>e'. rebuild_index (publish mgs ls' (log_deletes old e1)) = (e', Inr ()) \<and> committed e mgs segs old e'"
proof -
  let ?M = "set metas \<union> (live e - set old)" and ?n = "en_next_file_id e + of_nat (length segs)"
  define e3 where "e3 = publish mgs ls' (log_deletes old e1)"
  have files: "engine_files_ok e (live e)" and dl: "distinct (concat (v_levels (en_version e)))"
    and cache: "cache_ok e (live e)" and logo: "log_ok e"
    using disk by (auto simp: disk_ok_def)
  have io: "engine_io e3 = engine_io e" "engine_store e3 = engine_store e" "en_cache e3 = en_cache e"
    "en_next_file_id e3 = ?n" "en_fs e3 = fs'" "v_levels (en_version e3) = ls'"
    by (simp_all add: e3_def e1 log_deletes_log)
  have old_lt: "m_file_id x < en_next_file_id e" if "x \<in> live e" for x
    using files that by (auto simp: files_ok_def)
  have new: "\<forall>m \<in> set metas. \<forall>x \<in> live e. m_file_id x \<noteq> m_file_id m"
    using w(5) old_lt by fastforce
  then have disj: "set metas \<inter> set (concat (v_levels (en_version e))) = {}" by (auto simp: live_def)
  have dm: "distinct metas" using w(4) by (simp add: distinct_map)
  have sub': "set old \<subseteq> set (concat (v_levels (en_version e)))" using sub by (simp add: live_def)
  note rf = replaced_files [OF ls dl dm disj sub']
  have lv: "live e3 = ?M" unfolding live_def [of e3] io using rf(2) by (simp add: live_def)
  have sub3: "live e3 \<subseteq> set metas \<union> live e" unfolding lv by blast
  have fr: "file_recs e3 = seg_records (engine_io e) (engine_store e) fs'"
    by (rule ext) (simp add: file_recs_def io)
  have files3: "engine_files_ok e3 (live e3)"
    using files_ok_subset [OF w(3) sub3] by (simp add: io)
  have "unat ?n = unat (en_next_file_id e) + length segs"
    using room by (simp add: unat_word_ariths unat_of_nat)
  then have le: "en_next_file_id e \<le> en_next_file_id e3" by (simp add: io word_le_nat_alt)
  have "cache_ok e3 (set metas \<union> live e)"
    by (rule cache_ok_grow [OF cache io(1,2,3) le]) (use w(2,5) fr in simp_all)
  then have cache3: "cache_ok e3 (live e3)" using sub3 by (rule cache_ok_shrink)
  obtain ix c where r: "rebuild_index e3 = (e3\<lparr>en_cache := c, en_index := ix\<rparr>, Inr ())"
    "cache_ok (e3\<lparr>en_cache := c, en_index := ix\<rparr>) (live e3)" "index_ok (e3\<lparr>en_cache := c, en_index := ix\<rparr>)"
    using rebuild_index_run [OF files3 cache3] by blast
  define e' where "e' = e3\<lparr>en_cache := c, en_index := ix\<rparr>"
  have lv': "live e' = ?M" using lv by (simp add: e'_def live_def)
  have fr': "file_recs e' = file_recs e3" by (rule ext) (simp add: e'_def file_recs_def)
  have log': "engine_log e' = engine_log e @ map Create_file metas @ map (\<lambda>m. Delete_file (m_file_id m)) old"
    unfolding e'_def e3_def e1 log_deletes_log engine_log_def using log_all_list
    by (simp add: log_all_append)
  have "log_ok e'"
    unfolding log_ok_def log' lv'
  proof (intro conjI allI impI ballI)
    fix m
    show "live_in_log (engine_log e @ map Create_file metas @ map (\<lambda>m. Delete_file (m_file_id m)) old) m \<longleftrightarrow> m \<in> ?M"
      by (rule log_after_replace [OF _ _ w(4) new sub]) (use logo files in \<open>auto simp: log_ok_def files_ok_def\<close>)
    assume "Create_file m \<in> set (engine_log e @ map Create_file metas @ map (\<lambda>m. Delete_file (m_file_id m)) old)"
    then consider "Create_file m \<in> set (engine_log e)" | "m \<in> set metas" by auto
    then show "m_file_id m < en_next_file_id e'"
    proof cases
      case 1
      then have "m_file_id m < en_next_file_id e" using logo by (simp add: log_ok_def)
      then show ?thesis using le by (simp add: e'_def)
    next
      case 2
      then show ?thesis using w(3) by (simp add: e'_def io files_ok_def)
    qed
  next
    fix m r
    assume m: "m \<in> ?M" and r: "r \<in> set (file_recs e' m)"
    show "e_ts r \<le> m_max_ts m"
    proof (cases "m \<in> set metas")
      case True
      then show ?thesis using list_all2_holds_records(2) [OF w(1)] r by (simp add: fr' fr)
    next
      case False
      then have "m \<in> live e" using m by simp
      then show ?thesis using logo w(2) r by (simp add: log_ok_def fr' fr)
    qed
  qed
  moreover have "engine_files_ok e' (live e')"
    using files3 lv lv' by (simp add: e'_def)
  moreover have "distinct (concat (v_levels (en_version e')))"
    using rf(1) io by (simp add: e'_def)
  moreover have "cache_ok e' (live e')" "index_ok e'"
    using r(2,3) lv lv' by (simp_all add: e'_def)
  ultimately have "disk_ok e'" by (simp add: disk_ok_def)
  moreover have "disk_records e' = set (concat segs) \<union> (\<Union>m \<in> live e - set old. set (file_recs e m))"
    unfolding disk_records_def lv' fr' fr using list_all2_holds_records(1) [OF w(1)] w(2) by simp
  moreover have "same_memory e e'"
    by (simp add: same_memory_def e'_def e3_def e1 log_deletes_log)
  moreover have "memgraphs e' = mgs" "en_next_file_id e' = ?n"
    by (simp_all add: e'_def e3_def e1 log_deletes_log)
  ultimately have "committed e mgs segs old e'" by (simp add: committed_def)
  then show ?thesis using r(1) unfolding e3_def [symmetric] e'_def [symmetric] by blast
qed

end
