(* ===== verification/Engine_Flush.thy ===== *)
theory Engine_Flush
  imports Engine_Disk
begin

section \<open>Flush and compaction as replacements\<close>

text \<open>
  The three operations that replace segments, each as an instance of the replacement lemma: the
  flush of one memory graph, the full compaction of level 0 into level 1, and the compaction of a
  target.
\<close>

lemma ensure_level_concat [simp]: "concat (ensure_level l ls) = concat ls"
  by (simp add: ensure_level_def resize_levels_concat)

lemma ensure_level_length: "unat l < length (ensure_level l ls)"
  by (simp add: ensure_level_def resize_levels_def)

lemma ensure_level_nth:
  "unat k < length (ensure_level l ls) \<Longrightarrow> ensure_level l ls ! unat k = get_level ls k"
  by (auto simp: ensure_level_def get_level_def nth_resize_levels)

lemma length_concat_ge: "\<forall>s \<in> set xss. s \<noteq> [] \<Longrightarrow> length xss \<le> length (concat xss)"
  by (induction xss) (auto simp: Suc_le_eq length_greater_0_conv [symmetric] simp del: length_greater_0_conv)

lemma concat_mset_length:
  assumes "mset (concat xss) = mset ys" shows "length (concat xss) = length ys" "set (concat xss) = set ys"
  using mset_eq_length [OF assms] mset_eq_setD [OF assms] by simp_all

lemma segs_fit:
  assumes "length (concat segs) < 2 ^ 56" shows "\<forall>s \<in> set segs. segment_fits s"
proof
  fix s assume "s \<in> set segs"
  then have "length s \<le> sum_list (map length segs)" by (simp add: member_le_sum_list)
  then show "segment_fits s"
    using assms unfolding segment_fits_def length_concat by (rule le_less_trans)
qed

lemma merge_segments_nonempty:
  "\<forall>s \<in> set segs. s \<noteq> [] \<Longrightarrow> \<forall>s \<in> set (merge_segments_to_cap segs n). s \<noteq> []"
  unfolding merge_segments_to_cap_def using merge_cap_loop_nonempty [of segs "[]"] by simp

lemma build_l0_flush_segments_nonempty:
  assumes "edges \<noteq> []" shows "\<forall>s \<in> set (build_l0_flush_segments cfg edges). s \<noteq> []"
proof -
  let ?segs = "concat (map (\<lambda>(_, group).
      split_range_bounded_segments (sort_key edge_sort_key group) (cfg_segment_target_bytes cfg))
      (l0_partitions cfg (l0_exact_groups edges)))"
  have "\<forall>s \<in> set ?segs. s \<noteq> []" using split_range_nonempty by fastforce
  then have "s \<noteq> []" if "s \<in> set (build_l0_flush_segments cfg edges)" for s
    using that assms merge_segments_nonempty [of ?segs]
    unfolding build_l0_flush_segments_def Let_def by (auto split: if_splits simp del: set_concat)
  then show ?thesis by blast
qed

lemma mset_without:
  assumes "distinct fs" "distinct xs" "set fs \<subseteq> set xs"
  shows "filter_mset (\<lambda>x. x \<notin> set fs) (mset xs) + mset fs = mset xs"
proof -
  have "mset (filter (\<lambda>x. x \<in> set fs) xs) = mset fs"
    by (intro iffD1 [OF set_eq_iff_mset_eq_distinct]) (use assms in auto)
  then have "mset fs = filter_mset (\<lambda>x. x \<in> set fs) (mset xs)" by simp
  then show ?thesis by (metis add.commute multiset_partition)
qed

text \<open>Writing segments and committing them.\<close>

lemma commit_run:
  assumes disk: "disk_ok e" and fits: "length (concat segs) < 2 ^ 56"
    and room: "unat (en_next_file_id e) + length segs < 2 ^ 64" and sub: "set old \<subseteq> live e"
  obtains e1 metas where "smap (write_level_segment level) segs e = (e1, Inr metas)"
    "en_version e1 = en_version e" "same_memory e e1"
    "\<forall>mgs ls'. mset (concat ls') + mset old = mset metas + mset (concat (v_levels (en_version e))) \<longrightarrow>
      (\<exists>e'. rebuild_index (publish mgs ls' (log_deletes old e1)) = (e', Inr ()) \<and> committed e mgs segs old e')"
proof -
  have files: "engine_files_ok e (live e)" using disk by (simp add: disk_ok_def)
  obtain fs' metas where w: "smap (write_level_segment level) segs e =
      (e\<lparr>en_fs := fs', en_next_file_id := en_next_file_id e + of_nat (length segs),
         en_manifest := log_all (map Create_file metas) (en_manifest e)\<rparr>, Inr metas)"
    "list_all2 (holds (engine_io e) (engine_store e) fs' level) metas segs"
    "\<forall>x \<in> live e. seg_records (engine_io e) (engine_store e) fs' x = file_recs e x"
    "files_ok (engine_io e) (engine_store e) fs' (en_next_file_id e + of_nat (length segs)) (set metas \<union> live e)"
    "distinct (map m_file_id metas)" "\<forall>m \<in> set metas. en_next_file_id e \<le> m_file_id m"
    using write_level_segments_run [OF files segs_fit [OF fits] room] by blast
  show thesis
  proof (rule that [OF w(1)])
    show "\<forall>mgs ls'. mset (concat ls') + mset old = mset metas + mset (concat (v_levels (en_version e))) \<longrightarrow>
      (\<exists>e'. rebuild_index (publish mgs ls' (log_deletes old (e\<lparr>en_fs := fs',
         en_next_file_id := en_next_file_id e + of_nat (length segs),
         en_manifest := log_all (map Create_file metas) (en_manifest e)\<rparr>))) = (e', Inr ()) \<and>
         committed e mgs segs old e')"
      using rebuild_committed [OF disk refl w(2-6) sub room] by blast
  qed (simp_all add: same_memory_def)
qed

theorem flush_memgraph_run:
  assumes disk: "disk_ok e" and nonempty: "contents (graph_of e i) \<noteq> []"
    and fits: "length (contents (graph_of e i)) < 2 ^ 56"
    and room: "unat (en_next_file_id e) + length (contents (graph_of e i)) < 2 ^ 64"
  obtains e' segs where "flush_memgraph i e = (e', Inr ())"
    "committed e (filter (\<lambda>m. m \<noteq> i) (memgraphs e)) segs [] e'"
    "set (concat segs) = set (contents (graph_of e i))" "length segs \<le> length (contents (graph_of e i))"
proof -
  let ?es = "all_edges_sorted (graph_of e i)"
  define segs where "segs = build_l0_flush_segments (en_config e) ?es"
  have ms: "mset (concat segs) = mset (contents (graph_of e i))"
    by (simp add: segs_def build_l0_flush_segments_mset)
  have ne: "?es \<noteq> []" using nonempty by (metis mset_all_edges_sorted mset_zero_iff)
  have len: "length segs \<le> length (contents (graph_of e i))"
    using length_concat_ge [of segs] build_l0_flush_segments_nonempty [OF ne] concat_mset_length(1) [OF ms]
    by (simp add: segs_def)
  have fits': "length (concat segs) < 2 ^ 56" unfolding concat_mset_length(1) [OF ms] by (rule fits)
  have room': "unat (en_next_file_id e) + length segs < 2 ^ 64"
    by (rule le_less_trans [OF add_left_mono [OF len] room])
  have sub: "set [] \<subseteq> live e" by simp
  obtain e1 metas where w: "smap (write_level_segment L0) segs e = (e1, Inr metas)" "en_version e1 = en_version e"
      "same_memory e e1"
    and c: "\<forall>mgs ls'. mset (concat ls') + mset [] = mset metas + mset (concat (v_levels (en_version e))) \<longrightarrow>
      (\<exists>e'. rebuild_index (publish mgs ls' (log_deletes [] e1)) = (e', Inr ()) \<and> committed e mgs segs [] e')"
    by (rule commit_run [where level = L0, OF disk fits' room' sub])
  let ?ls = "ensure_level L0 (v_levels (en_version e))"
  have "mset (concat (?ls[unat L0 := sort_level (?ls ! unat L0 @ metas)])) + mset (?ls ! unat L0) =
      mset (concat ?ls) + mset (sort_level (?ls ! unat L0 @ metas))"
    by (rule mset_concat_list_update) (rule ensure_level_length)
  then have "mset (concat (?ls[unat L0 := sort_level (?ls ! unat L0 @ metas)])) + mset [] =
      mset metas + mset (concat (v_levels (en_version e)))" by simp
  with c obtain e' where e': "rebuild_index (publish (filter (\<lambda>m. m \<noteq> i) (memgraphs e))
      (?ls[unat L0 := sort_level (?ls ! unat L0 @ metas)]) e1) = (e', Inr ())"
    "committed e (filter (\<lambda>m. m \<noteq> i) (memgraphs e)) segs [] e'"
    unfolding log_deletes_def by fastforce
  have "flush_memgraph i e = (e', Inr ())"
    using ne w e'(1) unfolding segs_def
    by (simp add: flush_memgraph_def Let_def sbind_def supdate_def publish_flush_def memgraphs_def)
  then show thesis using e'(2) concat_mset_length(2) [OF ms] len by (rule that)
qed

text \<open>The levels after a compaction.\<close>

lemma mset_two_levels:
  assumes "length ls \<ge> 2"
  shows "mset (concat ls) = mset (ls ! 0) + mset (ls ! 1) + mset (concat (drop 2 ls))"
proof -
  obtain a b cs where "ls = a # b # cs" using assms by (metis One_nat_def Suc_1 Suc_le_length_iff)
  then show ?thesis by simp
qed

lemma full_levels_mset:
  "mset (concat (full_levels m ls)) + mset (get_level ls L0 @ get_level ls L1) = mset [m] + mset (concat ls)"
proof -
  let ?ls = "ensure_level L1 ls"
  have len: "2 \<le> length ?ls" using ensure_level_length [of L1 ls] by (simp add: L1_def)
  then have nonempty: "?ls \<noteq> []" by auto
  then have n: "?ls ! 0 = get_level ls L0" "?ls ! 1 = get_level ls L1"
    using ensure_level_nth [of L0 L1 ls] ensure_level_nth [of L1 L1 ls] len by (auto simp: L0_def L1_def)
  have "mset (concat (full_levels m ls)) = mset [m] + mset (concat (drop 2 ?ls))"
    using mset_two_levels [of "full_levels m ls"] len nonempty
    by (simp add: full_levels_def Let_def L0_def L1_def nth_list_update)
  then show ?thesis
    using mset_two_levels [OF len] n by simp
qed

lemma mset_exchange:
  "X + a = G \<Longrightarrow> Y + b = H \<Longrightarrow> X + Y + outs + D + (a + b) = outs + (G + H + D)"
  for X :: "'m multiset"
  by (auto simp: ac_simps)

lemma target_levels_mset:
  assumes ids: "inj_on m_file_id (set (concat ls))"
    and s0: "s0 = filter P (get_level ls L0)" and s1: "s1 = filter Q (get_level ls L1)"
  shows "mset (concat (target_levels s0 s1 outs ls)) + mset (s0 @ s1) = mset outs + mset (concat ls)"
proof -
  let ?ls = "ensure_level L1 ls"
  have len: "2 \<le> length ?ls" using ensure_level_length [of L1 ls] by (simp add: L1_def)
  then have nonempty: "?ls \<noteq> []" by auto
  then have n: "?ls ! 0 = get_level ls L0" "?ls ! 1 = get_level ls L1"
    using ensure_level_nth [of L0 L1 ls] ensure_level_nth [of L1 L1 ls] len by (auto simp: L0_def L1_def)
  have sub: "set (get_level ls k) \<subseteq> set (concat ls)" for k
    using nth_mem by (fastforce simp: get_level_def)
  have part: "mset (filter (\<lambda>m. m_file_id m \<notin> m_file_id ` set (filter R (get_level ls k))) (get_level ls k)) +
      mset (filter R (get_level ls k)) = mset (get_level ls k)" for k R
  proof -
    have "filter (\<lambda>m. m_file_id m \<notin> m_file_id ` set (filter R (get_level ls k))) (get_level ls k) =
        filter (\<lambda>m. \<not> R m) (get_level ls k)"
    proof (rule filter_cong [OF refl])
      fix m assume m: "m \<in> set (get_level ls k)"
      have "x = m" if "x \<in> set (get_level ls k)" "m_file_id m = m_file_id x" for x
        using inj_onD [OF ids that(2)] m that(1) sub by blast
      then show "(m_file_id m \<notin> m_file_id ` set (filter R (get_level ls k))) = (\<not> R m)"
        using m by auto
    qed
    then show ?thesis by (simp add: union_commute [of "mset (filter (\<lambda>m. \<not> R m) _)"])
  qed
  have "mset (concat (target_levels s0 s1 outs ls)) =
      mset (filter (\<lambda>m. m_file_id m \<notin> m_file_id ` set s0) (get_level ls L0)) +
      mset (filter (\<lambda>m. m_file_id m \<notin> m_file_id ` set s1) (get_level ls L1)) + mset outs +
      mset (concat (drop 2 ?ls))"
    using mset_two_levels [of "target_levels s0 s1 outs ls"] len nonempty n
    by (simp add: target_levels_def Let_def L0_def L1_def nth_list_update)
  then show ?thesis
    using mset_exchange [OF part [where k = L0 and R = P, folded s0] part [where k = L1 and R = Q, folded s1]]
      mset_two_levels [OF len] n by simp
qed

end
