(* ===== verification/Engine_Compact.thy ===== *)
theory Engine_Compact
  imports Engine_Flush Merge
begin

section \<open>Compaction keeps the newest records\<close>

text \<open>
  A compaction, full or targeted, replaces the records of the files it selects by the newest one
  of each edge and keeps the other files.
\<close>

definition compacted :: "engine \<Rightarrow> engine \<Rightarrow> bool" where
  "compacted e e' \<longleftrightarrow>
     disk_ok e' \<and> same_memory e e' \<and> memgraphs e' = memgraphs e \<and>
     (\<exists>A B. disk_records e = A \<union> B \<and> disk_records e' = latest A (en_ts e) \<union> B)"

lemma read_segments_run:
  assumes "disk_ok e" "set ms \<subseteq> live e"
  shows "read_segments ms e = Inr (concat (map (file_recs e) ms))"
proof -
  have "engine_files_ok e (live e)" using assms(1) by (simp add: disk_ok_def)
  then have "rmap (read_all_edges (engine_io e) (engine_store e) (en_fs e)) ms = Inr (map (file_recs e) ms)"
    using assms(2) io_backend.read_all_edges_ok [OF engine_io_backend]
    by (intro rmap_Inr) (auto simp: file_recs_def)
  then show ?thesis by (simp add: read_segments_def)
qed

lemma smap_length: "smap f xs s = (s', Inr ys) \<Longrightarrow> length ys = length xs"
  by (induction xs arbitrary: s ys) (auto simp: sbind_Inr_iff sreturn_def)

text \<open>Records with distinct timestamps are not more than the clock allows.\<close>

lemma length_by_clock:
  assumes "inj_on e_ts R" "\<forall>r \<in> R. e_ts r \<le> t" "set es \<subseteq> R" "distinct es"
  shows "length es \<le> Suc (unat t)"
proof -
  have "inj_on (unat \<circ> e_ts) (set es)"
    by (intro comp_inj_on inj_on_subset [OF assms(1,3)] inj_onI) (simp add: word_unat_eq_iff)
  then have "length es = card ((unat \<circ> e_ts) ` set es)"
    unfolding card_image using assms(4) by (simp only: card_image distinct_card)
  also have "(unat \<circ> e_ts) ` set es \<subseteq> {..unat t}"
    using assms(2,3) by (auto simp: word_le_nat_alt)
  then have "card ((unat \<circ> e_ts) ` set es) \<le> card {..unat t}" by (intro card_mono) simp_all
  finally show ?thesis by simp
qed

lemma selected_records:
  assumes "time_ok e" "set S \<subseteq> live e" and U: "U = concat (map (file_recs e) S)"
  shows "set (merge_latest_records U (en_ts e) True) = latest (set U) (en_ts e)"
    "length (merge_latest_records U (en_ts e) True) \<le> Suc (unat (en_ts e))"
proof -
  have sub: "set U \<subseteq> records e" using assms(2) U by (auto simp: records_def disk_records_def)
  then have "ts_unique (set U)" using time_ok_unique [OF assms(1)] ts_unique_subset by blast
  then show set: "set (merge_latest_records U (en_ts e) True) = latest (set U) (en_ts e)"
    by (simp add: set_merge_latest)
  have "distinct (merge_latest_records U (en_ts e) True)"
    using merge_latest_distinct distinct_map by blast
  then show "length (merge_latest_records U (en_ts e) True) \<le> Suc (unat (en_ts e))"
    using assms(1) set latest_subset [of "set U" "en_ts e"] sub
    by (intro length_by_clock [of "records e"]) (auto simp: time_ok_def)
qed

lemma committed_compacted:
  assumes c: "committed e (memgraphs e) segs S e'" and sub: "set S \<subseteq> live e"
    and U: "U = concat (map (file_recs e) S)" and segs: "set (concat segs) = latest (set U) (en_ts e)"
  shows "compacted e e'"
proof -
  have "disk_records e = set U \<union> (\<Union>m \<in> live e - set S. set (file_recs e m))"
    using sub U by (auto simp: disk_records_def)
  then have "\<exists>A B. disk_records e = A \<union> B \<and> disk_records e' = latest A (en_ts e) \<union> B"
    using c segs unfolding committed_def by (intro exI conjI) auto
  then show ?thesis
    using c unfolding committed_def compacted_def by simp
qed

text \<open>What both compactions do after their selection.\<close>

lemma compaction_run:
  assumes disk: "disk_ok e" and time: "time_ok e" and small: "unat (en_ts e) < 2 ^ 55"
    and room: "unat (en_next_file_id e) + Suc (unat (en_ts e)) < 2 ^ 64"
    and sub: "set S \<subseteq> live e" and U: "U = concat (map (file_recs e) S)"
    and segs: "mset (concat segs) = mset (merge_latest_records U (en_ts e) True)"
    and len: "length segs \<le> Suc (length (merge_latest_records U (en_ts e) True))"
      "segs = [merge_latest_records U (en_ts e) True] \<or> (\<forall>s \<in> set segs. s \<noteq> [])"
  obtains e1 metas where "smap (write_level_segment L1) segs e = (e1, Inr metas)"
    "en_version e1 = en_version e" "en_ts e1 = en_ts e" "length metas = length segs"
    "\<forall>ls'. mset (concat ls') + mset S = mset metas + mset (concat (v_levels (en_version e))) \<longrightarrow>
      (\<exists>e'. rebuild_index (publish (memgraphs e) ls' (log_deletes S e1)) = (e', Inr ()) \<and>
        compacted e e' \<and> unat (en_next_file_id e') \<le> unat (en_next_file_id e) + Suc (unat (en_ts e)))"
proof -
  let ?m = "merge_latest_records U (en_ts e) True"
  note sel = selected_records [OF time sub U]
  have lc: "length (concat segs) = length ?m" using concat_mset_length(1) [OF segs] .
  have n: "length segs \<le> Suc (unat (en_ts e))"
    using len(2) length_concat_ge [of segs] lc sel(2) by auto
  have fits: "length (concat segs) < 2 ^ 56"
    unfolding lc using sel(2) small by simp
  have room': "unat (en_next_file_id e) + length segs < 2 ^ 64"
    by (rule le_less_trans [OF add_left_mono [OF n] room])
  have setm: "set (concat segs) = latest (set U) (en_ts e)"
    using concat_mset_length(2) [OF segs] sel(1) by (rule trans)
  have id: "unat (en_next_file_id e') \<le> unat (en_next_file_id e) + Suc (unat (en_ts e))"
    if "committed e (memgraphs e) segs S e'" for e'
    using that n room' by (simp add: committed_def unat_word_ariths unat_of_nat)
  obtain e1 metas where w: "smap (write_level_segment L1) segs e = (e1, Inr metas)"
    "en_version e1 = en_version e" "same_memory e e1"
    and c: "\<forall>mgs ls'. mset (concat ls') + mset S = mset metas + mset (concat (v_levels (en_version e))) \<longrightarrow>
      (\<exists>e'. rebuild_index (publish mgs ls' (log_deletes S e1)) = (e', Inr ()) \<and> committed e mgs segs S e')"
    by (rule commit_run [where level = L1, OF disk fits room' sub])
  show thesis
  proof (rule that [OF w(1,2)])
    show "en_ts e1 = en_ts e" using w(3) by (simp add: same_memory_def)
    show "length metas = length segs" using smap_length [OF w(1)] .
  qed (use c id committed_compacted [OF _ sub U setm] in blast)
qed

text \<open>The two operations, after the flushes they wait for.\<close>

definition idle_or_compacted :: "engine \<Rightarrow> engine \<Rightarrow> bool" where
  "idle_or_compacted e e' \<longleftrightarrow> e' = e \<or>
     compacted e e' \<and> unat (en_next_file_id e') \<le> unat (en_next_file_id e) + Suc (unat (en_ts e))"

lemma get_level_live: "set (get_level (v_levels (en_version e)) l) \<subseteq> live e"
  using nth_mem by (fastforce simp: get_level_def live_def)

theorem compact_full_run:
  assumes w: "wait_for_flushes e0 = (e, Inr ())" and disk: "disk_ok e" and time: "time_ok e"
    and small: "unat (en_ts e) < 2 ^ 55" and room: "unat (en_next_file_id e) + Suc (unat (en_ts e)) < 2 ^ 64"
  obtains e' r where "compact_l0_to_l1_inner force e0 = (e', Inr r)" "idle_or_compacted e e'"
proof -
  let ?ls = "v_levels (en_version e)"
  define l0 l1 where "l0 = get_level ?ls L0" and "l1 = get_level ?ls L1"
  show thesis
  proof (cases "l0 = [] \<or> \<not> force \<and> length l0 < cfg_l0_file_threshold (en_config e)")
    case True
    then have "compact_l0_to_l1_inner force e0 = (e, Inr None)"
      by (auto simp: compact_l0_to_l1_inner_def sbind_def w l0_def Let_def)
    then show thesis by (rule that) (simp add: idle_or_compacted_def)
  next
    case False
    define U where "U = concat (map (file_recs e) (l0 @ l1))"
    let ?m = "merge_latest_records U (en_ts e) True"
    have sub: "set (l0 @ l1) \<subseteq> live e" using get_level_live by (simp add: l0_def l1_def)
    note read = read_segments_run [OF disk sub, folded U_def]
    obtain e1 metas where c: "smap (write_level_segment L1) [?m] e = (e1, Inr metas)"
      "en_version e1 = en_version e" "en_ts e1 = en_ts e" "length metas = length [?m]"
      "\<forall>ls'. mset (concat ls') + mset (l0 @ l1) = mset metas + mset (concat ?ls) \<longrightarrow>
        (\<exists>e'. rebuild_index (publish (memgraphs e) ls' (log_deletes (l0 @ l1) e1)) = (e', Inr ()) \<and>
          compacted e e' \<and> unat (en_next_file_id e') \<le> unat (en_next_file_id e) + Suc (unat (en_ts e)))"
      by (rule compaction_run [OF disk time small room sub U_def]) auto
    obtain m where m: "metas = [m]" using c(4) by (cases metas) auto
    have w1: "write_level_segment L1 ?m e = (e1, Inr m)"
      using c(1) unfolding m by (auto simp: sbind_Inr_iff sreturn_def)
    have "mset (concat (full_levels m ?ls)) + mset (l0 @ l1) = mset metas + mset (concat ?ls)"
      unfolding m l0_def l1_def by (rule full_levels_mset)
    then obtain e' where e': "rebuild_index (publish (memgraphs e) (full_levels m ?ls) (log_deletes (l0 @ l1) e1)) = (e', Inr ())"
      "compacted e e'" "unat (en_next_file_id e') \<le> unat (en_next_file_id e) + Suc (unat (en_ts e))"
      using c(5) by blast
    have v: "en_version (log_deletes (l0 @ l1) e1) = en_version e"
      by (simp add: log_deletes_log c(2))
    then have mg: "memgraphs (log_deletes (l0 @ l1) e1) = memgraphs e" by (simp add: memgraphs_def)
    have "compact_l0_to_l1_inner force e0 = (e', Inr (Some m))"
      using False unfolding compact_l0_to_l1_inner_def sbind_simps(1) [where m = wait_for_flushes and s = e0, OF w] Let_def
        l0_def [symmetric] l1_def [symmetric]
      by (simp add: sbind_def sreads_def read current_snapshot_def w1 supdate_def v
          memgraphs_def [symmetric] mg e'(1) sreturn_def)
    then show thesis by (rule that) (use e'(2,3) in \<open>simp add: idle_or_compacted_def\<close>)
  qed
qed

theorem compact_target_run:
  assumes w: "wait_for_flushes e0 = (e, Inr ())" and disk: "disk_ok e" and time: "time_ok e"
    and small: "unat (en_ts e) < 2 ^ 55" and room: "unat (en_next_file_id e) + Suc (unat (en_ts e)) < 2 ^ 64"
  obtains e' r where "compact_l0_target_to_l1 target e0 = (e', Inr r)" "idle_or_compacted e e'"
proof -
  let ?ls = "v_levels (en_version e)"
  define s0 s1 where "s0 = select_l0 target ?ls" and "s1 = select_l1 target ?ls"
  show thesis
  proof (cases "s0 = []")
    case True
    then have "compact_l0_target_to_l1 target e0 = (e, Inr [])"
      by (simp add: compact_l0_target_to_l1_def sbind_def w s0_def)
    then show thesis by (rule that) (simp add: idle_or_compacted_def)
  next
    case False
    define U where "U = concat (map (file_recs e) (s0 @ s1))"
    define segs where "segs = split_compaction_segments (merge_latest_records U (en_ts e) True)
        (cfg_segment_target_bytes (en_config e))"
    have sub: "set (s0 @ s1) \<subseteq> live e"
      using get_level_live by (fastforce simp: s0_def s1_def select_l0_def select_l1_def Let_def)
    note read = read_segments_run [OF disk sub, folded U_def]
    have ms: "mset (concat segs) = mset (merge_latest_records U (en_ts e) True)"
      by (simp add: segs_def split_compaction_segments_def split_range_concat)
    have ne: "\<forall>s \<in> set segs. s \<noteq> []"
      using split_range_nonempty by (auto simp: segs_def split_compaction_segments_def)
    have len: "length segs \<le> Suc (length (merge_latest_records U (en_ts e) True))"
      using length_concat_ge [OF ne] concat_mset_length(1) [OF ms] by simp
    obtain e1 metas where c: "smap (write_level_segment L1) segs e = (e1, Inr metas)"
      "en_version e1 = en_version e" "en_ts e1 = en_ts e" "length metas = length segs"
      "\<forall>ls'. mset (concat ls') + mset (s0 @ s1) = mset metas + mset (concat ?ls) \<longrightarrow>
        (\<exists>e'. rebuild_index (publish (memgraphs e) ls' (log_deletes (s0 @ s1) e1)) = (e', Inr ()) \<and>
          compacted e e' \<and> unat (en_next_file_id e') \<le> unat (en_next_file_id e) + Suc (unat (en_ts e)))"
      by (rule compaction_run [OF disk time small room sub U_def ms len disjI2 [OF ne]])
    have "inj_on m_file_id (set (concat ?ls))"
      using disk by (auto simp: disk_ok_def files_ok_def live_def)
    then have "mset (concat (target_levels s0 s1 metas ?ls)) + mset (s0 @ s1) = mset metas + mset (concat ?ls)"
      by (rule target_levels_mset) (simp_all add: s0_def s1_def select_l0_def select_l1_def Let_def)
    then obtain e' where e': "rebuild_index (publish (memgraphs e) (target_levels s0 s1 metas ?ls) (log_deletes (s0 @ s1) e1)) = (e', Inr ())"
      "compacted e e'" "unat (en_next_file_id e') \<le> unat (en_next_file_id e) + Suc (unat (en_ts e))"
      using c(5) by blast
    have v: "en_version (log_deletes (s0 @ s1) e1) = en_version e"
      by (simp add: log_deletes_log c(2))
    then have mg: "memgraphs (log_deletes (s0 @ s1) e1) = memgraphs e" by (simp add: memgraphs_def)
    have "compact_l0_target_to_l1 target e0 = (e', Inr metas)"
      using False unfolding compact_l0_target_to_l1_def sbind_simps(1) [where m = wait_for_flushes and s = e0, OF w] Let_def
        s0_def [symmetric] s1_def [symmetric]
      by (simp add: sbind_def sreads_def read current_snapshot_def c(1) segs_def [symmetric] supdate_def v
          memgraphs_def [symmetric] mg e'(1) sreturn_def)
    then show thesis by (rule that) (use e'(2,3) in \<open>simp add: idle_or_compacted_def\<close>)
  qed
qed

end
