(* ===== verification/Engine_Memory.thy ===== *)
theory Engine_Memory
  imports Engine_Inv
begin

section \<open>Writing to the memory graphs\<close>

text \<open>
  The write path: the active graph takes the record, and a full graph is replaced by a new
  active one and queued for its flush. The disk side is untouched.
\<close>

lemma graph_good_new: "graph_good (mg_new i c n)"
  by (simp add: graph_good_def mg_inv_new) (simp add: mg_new_def)

lemma mem_records_split:
  assumes "distinct (memgraphs e)" "i \<in> set (memgraphs e)"
  shows "mem_records e = set (contents (graph_of e i)) \<union>
      (\<Union>j \<in> set (memgraphs e) - {i}. set (contents (graph_of e j)))"
  using assms by (auto simp: mem_records_def)

lemma pend_split:
  assumes "distinct ms" "i \<in> set ms"
  shows "sum_list (map f ms) = f i + (sum_list (map f (filter (\<lambda>j. j \<noteq> i) ms)) :: nat)"
  using assms
  by (induction ms) (auto intro!: arg_cong [of _ _ "\<lambda>xs. sum_list (map f xs)"] filter_True [symmetric])

lemma pend_graph:
  assumes "distinct (memgraphs e)" "i \<in> set (memgraphs e)"
  shows "length (contents (graph_of e i)) \<le> pend e"
  unfolding pend_def pend_split [OF assms] by simp

text \<open>The active graph with one more record.\<close>

lemma insert_active:
  assumes g: "graphs_ok e" and new: "\<forall>r \<in> mem_records e. edge_sort_key r \<noteq> edge_sort_key edge"
  obtains g' where "mg_insert edge (graph_of e (en_active e)) = Inr g'" "graph_good g'"
    "set (contents g') = insert edge (set (contents (graph_of e (en_active e))))"
    "length (contents g') = Suc (length (contents (graph_of e (en_active e))))"
proof -
  let ?g = "graph_of e (en_active e)"
  have act: "en_active e \<in> set (memgraphs e)" and good: "graph_good ?g"
    using g by (auto simp: graphs_ok_def)
  then have inv: "mg_inv ?g" and dist: "distinct (map edge_sort_key (contents ?g))"
    and cnt: "mg_edge_count ?g = length (contents ?g)" by (auto simp: graph_good_def)
  obtain g' where g': "mg_insert edge ?g = Inr g'" using mg_insert_total [OF inv] by blast
  have "edge_sort_key edge \<notin> edge_sort_key ` set (contents ?g)"
    using new act by (force simp: mem_records_def)
  with dist have dist': "distinct (map edge_sort_key (edge # contents ?g))" by simp
  note ms = mg_insert_contents [OF inv g' dist']
  have len: "length (contents g') = Suc (length (contents ?g))"
    using arg_cong [OF ms, of size] by simp
  have set: "set (contents g') = insert edge (set (contents ?g))"
    using arg_cong [OF ms, of set_mset] by simp
  have "mset (map edge_sort_key (contents g')) = mset (map edge_sort_key (edge # contents ?g))"
    using ms by simp
  then have "distinct (map edge_sort_key (contents g'))"
    using dist' mset_eq_imp_distinct_iff by blast
  then have "graph_good g'"
    using mg_inv_insert [OF inv g'] mg_insert_frame [OF g'] cnt len by (simp add: graph_good_def)
  then show thesis using that g' set len by blast
qed

text \<open>The state after the insert, before any rotation.\<close>

lemma put_active:
  assumes g: "graphs_ok e" and t: "tasks_ok e ts" and good: "graph_good g'"
    and set: "set (contents g') = insert edge (set (contents (graph_of e (en_active e))))"
    and len: "length (contents g') = Suc (length (contents (graph_of e (en_active e))))"
    and e': "e' = e\<lparr>en_graphs := hm_insert (en_active e) g' (en_graphs e)\<rparr>"
  shows "graphs_ok e'" "tasks_ok e' ts" "mem_records e' = insert edge (mem_records e)" "pend e' = Suc (pend e)"
proof -
  have hm: "hm_inv (en_graphs e)" and d: "distinct (memgraphs e)" and act: "en_active e \<in> set (memgraphs e)"
    using g by (auto simp: graphs_ok_def)
  have gr: "graph_of e' j = (if j = en_active e then g' else graph_of e j)" for j
    using e' graph_of_insert [OF hm] by simp
  have ms: "memgraphs e' = memgraphs e" using e' by simp
  show "graphs_ok e'"
    using g good gr e' by (auto simp: graphs_ok_def hm.inv_ins)
  show "tasks_ok e' ts"
    using t gr e' by (auto simp: tasks_ok_def)
  show "mem_records e' = insert edge (mem_records e)"
    unfolding mem_records_def ms gr using act set by (auto split: if_splits)
  show "pend e' = Suc (pend e)"
    unfolding pend_def ms pend_split [OF d act] gr
    by (simp add: len) (rule arg_cong [of _ _ sum_list], simp)
qed

lemma rotate_active_run:
  assumes g: "graphs_ok e" and t: "tasks_ok e ts" and nonempty: "contents (graph_of e (en_active e)) \<noteq> []"
    and room: "unat (en_next_graph e) + 1 < 2 ^ 64" and e': "e' = rotate_active e"
  shows "graphs_ok e'" "tasks_ok e' (ts @ [Pending (en_active e)])" "mem_records e' = mem_records e"
    "pend e' = pend e" "same_disk e e'" "en_ts e' = en_ts e" "en_tasks e' = en_tasks e"
    "en_next_graph e' = en_next_graph e + 1"
proof -
  let ?i = "en_next_graph e"
  have hm: "hm_inv (en_graphs e)" and d: "distinct (memgraphs e)" and act: "en_active e \<in> set (memgraphs e)"
    and lt: "\<And>i. i \<in> set (memgraphs e) \<Longrightarrow> i < ?i \<and> graph_good (graph_of e i)"
    using g by (auto simp: graphs_ok_def)
  then have fresh: "?i \<notin> set (memgraphs e)" by auto
  have ms: "memgraphs e' = ?i # memgraphs e" and active: "en_active e' = ?i"
    and nxt: "en_next_graph e' = ?i + 1"
    unfolding e' by (simp_all add: rotate_active_def Let_def memgraphs_def [symmetric])
  have gr: "graph_of e' j = (if j = ?i then new_memgraph (en_config e) ?i else graph_of e j)" for j
    unfolding e' using graph_of_insert [OF hm, of ?i] by (simp add: rotate_active_def Let_def)
  have new: "contents (graph_of e' ?i) = []" "graph_good (graph_of e' ?i)"
    by (simp_all add: gr new_memgraph_def graph_good_new)
  have old: "graph_of e' j = graph_of e j" if "j \<in> set (memgraphs e)" for j
    using that fresh gr by auto
  show "en_next_graph e' = ?i + 1" "en_ts e' = en_ts e" "en_tasks e' = en_tasks e" "same_disk e e'"
    unfolding e' by (simp_all add: rotate_active_def Let_def same_disk_def)
  show "mem_records e' = mem_records e"
    unfolding mem_records_def ms using new(1) old by simp
  show "pend e' = pend e"
    unfolding pend_def ms using new(1) old by (simp cong: map_cong)
  have "j < ?i + 1" if "j \<in> set (memgraphs e)" for j
    using le_less_plus_1 [OF room, of j] lt [OF that] less_imp_le by blast
  moreover have "?i < ?i + 1" using le_less_plus_1 [OF room, of ?i] by simp
  ultimately show "graphs_ok e'"
    using hm d fresh lt new old unfolding graphs_ok_def ms active nxt
    by (auto simp: e' rotate_active_def Let_def hm.inv_ins)
  have ts: "set (memgraphs e) = insert (en_active e) {i. Pending i \<in> set ts}" "Pending (en_active e) \<notin> set ts"
    "distinct (pendings ts)" "\<forall>i. Pending i \<in> set ts \<longrightarrow> contents (graph_of e i) \<noteq> []"
    "\<forall>r. Finished r \<in> set ts \<longrightarrow> r = Inr ()"
    using t by (auto simp: tasks_ok_def)
  have "\<forall>i \<in> insert (en_active e) {i. Pending i \<in> set ts}. contents (graph_of e' i) \<noteq> []"
    using old ts(1,4) nonempty by auto
  then show "tasks_ok e' (ts @ [Pending (en_active e)])"
    using ts fresh unfolding tasks_ok_def ms active by (auto simp: ts(1))
qed

lemma enqueue_flush_run: "enqueue_flush i e = (e\<lparr>en_tasks := en_tasks e @ [Pending i]\<rparr>, Inr ())"
  by (simp add: enqueue_flush_def supdate_def)

lemma tasks_field:
  "graphs_ok (e\<lparr>en_tasks := ts\<rparr>) = graphs_ok e" "tasks_ok (e\<lparr>en_tasks := ts\<rparr>) us = tasks_ok e us"
  "mem_records (e\<lparr>en_tasks := ts\<rparr>) = mem_records e" "pend (e\<lparr>en_tasks := ts\<rparr>) = pend e"
  "same_disk x (e\<lparr>en_tasks := ts\<rparr>) = same_disk x e"
  by (simp_all add: graphs_ok_def tasks_ok_def mem_records_def pend_def same_disk_def)

theorem write_edge_run:
  assumes g: "graphs_ok e" and t: "tasks_ok e (en_tasks e)"
    and new: "\<forall>r \<in> mem_records e. edge_sort_key r \<noteq> edge_sort_key edge"
    and room: "unat (en_next_graph e) + 1 < 2 ^ 64"
  obtains e' where "write_edge edge e = (e', Inr ())" "graphs_ok e'" "tasks_ok e' (en_tasks e')"
    "mem_records e' = insert edge (mem_records e)" "pend e' = Suc (pend e)" "same_disk e e'"
    "en_ts e' = en_ts e" "unat (en_next_graph e') \<le> unat (en_next_graph e) + 1"
proof -
  obtain g' where g': "mg_insert edge (graph_of e (en_active e)) = Inr g'" "graph_good g'"
    "set (contents g') = insert edge (set (contents (graph_of e (en_active e))))"
    "length (contents g') = Suc (length (contents (graph_of e (en_active e))))"
    using insert_active [OF g new] .
  let ?e = "e\<lparr>en_graphs := hm_insert (en_active e) g' (en_graphs e)\<rparr>"
  note put = put_active [OF g t g'(2-4) refl]
  have same: "same_disk e ?e" by (simp add: same_disk_def)
  show thesis
  proof (cases "mg_is_full g'")
    case False
    then have "write_edge edge e = (?e, Inr ())" using g'(1) by (simp add: write_edge_def Let_def)
    then show thesis using put same by (intro that [of ?e]) simp_all
  next
    case True
    have "hm_inv (en_graphs e)" using g by (simp add: graphs_ok_def)
    then have "graph_of ?e (en_active ?e) = g'" using graph_of_insert by simp
    then have "contents (graph_of ?e (en_active ?e)) \<noteq> []" using g'(4) by auto
    note rot = rotate_active_run [OF put(1,2) this _ refl]
    let ?e2 = "(rotate_active ?e)\<lparr>en_tasks := en_tasks (rotate_active ?e) @ [Pending (en_active e)]\<rparr>"
    have "write_edge edge e = (?e2, Inr ())"
      using g'(1) True by (simp add: write_edge_def Let_def enqueue_flush_run)
    moreover have "same_disk e (rotate_active ?e)"
      using same rot(5) room by (simp add: same_disk_def)
    ultimately show thesis
      using put(3,4) rot room unat_plus_1 [OF room] by (intro that [of ?e2]) (simp_all add: tasks_field)
  qed
qed

text \<open>A write touches nothing of the disk side.\<close>

lemma write_edge_disk: "same_disk e (fst (write_edge r e))"
  by (simp add: write_edge_def enqueue_flush_def rotate_active_def publish_def same_disk_def supdate_def Let_def
      split: sum.split)

end
