(* ===== verification/Engine_Ops.thy ===== *)
theory Engine_Ops
  imports Engine_Compact Engine_Memory
begin

section \<open>The operations keep the invariant\<close>

text \<open>
  Every operation of the engine, run to its end from a state of the invariant with its counters
  far from their limits, succeeds, keeps the invariant and changes the records in the way stated
  for it.
\<close>

definition core_ok :: "engine \<Rightarrow> bool" where
  "core_ok e \<longleftrightarrow> graphs_ok e \<and> disk_ok e \<and> time_ok e"

definition kept :: "engine \<Rightarrow> engine \<Rightarrow> bool" where
  "kept e e' \<longleftrightarrow> core_ok e' \<and> records e' = records e \<and> en_ts e' = en_ts e \<and>
     en_next_graph e' = en_next_graph e \<and> en_config e' = en_config e \<and>
     en_active e' = en_active e \<and> en_graphs e' = en_graphs e \<and>
     disk_records e \<subseteq> disk_records e' \<and>
     unat (en_next_file_id e') + pend e' \<le> unat (en_next_file_id e) + pend e"

lemma engine_inv_core: "engine_inv e \<longleftrightarrow> core_ok e \<and> tasks_ok e (en_tasks e)"
  by (auto simp: engine_inv_def core_ok_def)

lemma kept_refl: "core_ok e \<Longrightarrow> kept e e"
  by (simp add: kept_def)

lemma kept_trans: "kept a b \<Longrightarrow> kept b c \<Longrightarrow> kept a c"
  by (auto simp: kept_def)

lemma core_ok_tasks [simp]: "core_ok (e\<lparr>en_tasks := ts\<rparr>) = core_ok e"
proof -
  have "same_disk e (e\<lparr>en_tasks := ts\<rparr>)" "same_disk (e\<lparr>en_tasks := ts\<rparr>) e" by (simp_all add: same_disk_def)
  note same = this
  have "disk_ok (e\<lparr>en_tasks := ts\<rparr>) = disk_ok e" "disk_records (e\<lparr>en_tasks := ts\<rparr>) = disk_records e"
    using same_disk_ok [OF same(1)] same_disk_ok [OF same(2)] same_disk_records [OF same(1)] by blast+
  then show ?thesis
    by (simp add: core_ok_def tasks_field time_ok_def records_def)
qed

lemma records_tasks [simp]: "records (e\<lparr>en_tasks := ts\<rparr>) = records e"
  using same_disk_records [of e "e\<lparr>en_tasks := ts\<rparr>"] by (simp add: records_def tasks_field same_disk_def)

lemma disk_records_tasks [simp]: "disk_records (e\<lparr>en_tasks := ts\<rparr>) = disk_records e"
  by (rule same_disk_records) (simp add: same_disk_def)

lemma kept_tasks [simp]: "kept e (e'\<lparr>en_tasks := ts\<rparr>) = kept e e'" "kept (e\<lparr>en_tasks := ts\<rparr>) e' = kept e e'"
  by (simp_all add: kept_def tasks_field)

subsection \<open>Flushes\<close>

lemma flush_task_run:
  assumes core: "core_ok e" and tasks: "tasks_ok e (xs @ Pending i # ys)"
    and small: "unat (en_ts e) < 2 ^ 55" and room: "unat (en_next_file_id e) + pend e < 2 ^ 64"
  obtains e' where "flush_memgraph i e = (e', Inr ())" "kept e e'" "tasks_ok e' (xs @ ys)" "en_tasks e' = en_tasks e"
proof -
  let ?n = "length (contents (graph_of e i))"
  have g: "graphs_ok e" and disk: "disk_ok e" and time: "time_ok e" using core by (auto simp: core_ok_def)
  have t: "distinct (pendings xs @ i # pendings ys)"
    "set (memgraphs e) = insert (en_active e) (set (pendings (xs @ Pending i # ys)))"
    "en_active e \<noteq> i" "contents (graph_of e i) \<noteq> []"
    using tasks by (auto simp: tasks_ok_def)
  have i: "i \<in> set (memgraphs e)" using t(2) by simp
  have d: "distinct (memgraphs e)" using g by (simp add: graphs_ok_def)
  have n: "?n \<le> pend e" using pend_graph [OF d i] .
  have fits: "?n < 2 ^ 56" using n time small by (simp add: time_ok_def)
  have room': "unat (en_next_file_id e) + ?n < 2 ^ 64" using n room by simp
  obtain e' segs where f: "flush_memgraph i e = (e', Inr ())"
    "committed e (filter (\<lambda>m. m \<noteq> i) (memgraphs e)) segs [] e'"
    "set (concat segs) = set (contents (graph_of e i))" "length segs \<le> ?n"
    using flush_memgraph_run [OF disk t(4) fits room'] by blast
  have mem: "same_memory e e'" and ms: "memgraphs e' = filter (\<lambda>m. m \<noteq> i) (memgraphs e)"
    and disk': "disk_ok e'" and next_id: "en_next_file_id e' = en_next_file_id e + of_nat (length segs)"
    and recs: "disk_records e' = set (contents (graph_of e i)) \<union> disk_records e"
    using f(2,3) by (auto simp: committed_def disk_records_def)
  note gr = same_memory_graph [OF mem]
  have records: "records e' = records e"
    using mem_records_split [OF d i] recs
    unfolding records_def mem_records_def ms gr by auto
  have pend: "pend e = ?n + pend e'"
    unfolding pend_def ms gr by (rule pend_split [OF d i])
  have "unat (en_next_file_id e') = unat (en_next_file_id e) + length segs"
    using next_id f(4) room' by (simp add: unat_word_ariths unat_of_nat)
  then have ids: "unat (en_next_file_id e') + pend e' \<le> unat (en_next_file_id e) + pend e"
    using pend f(4) by simp
  have g': "graphs_ok e'"
    using g t(3) mem gr ms by (auto simp: graphs_ok_def same_memory_def)
  have "time_ok e'" using time records pend mem by (simp add: time_ok_def same_memory_def)
  then have k: "kept e e'"
    using g' disk' records ids mem recs by (auto simp: kept_def core_ok_def same_memory_def)
  have "set (pendings (xs @ ys)) = set (pendings (xs @ Pending i # ys)) - {i}" using t(1) by auto
  then have "set (memgraphs e') = insert (en_active e) (set (pendings (xs @ ys)))"
    unfolding ms set_filter t(2) using t(3) by blast
  moreover have "en_active e' = en_active e" using mem by (simp add: same_memory_def)
  moreover have "\<forall>j \<in> set (pendings (xs @ ys)). contents (graph_of e' j) \<noteq> []"
    "\<forall>r. Finished r \<in> set (xs @ ys) \<longrightarrow> r = Inr ()" "en_active e \<notin> set (pendings (xs @ ys))"
    using tasks gr by (auto simp: tasks_ok_def)
  moreover have "distinct (pendings (xs @ ys))" using t(1) by auto
  ultimately have tk': "tasks_ok e' (xs @ ys)" by (simp only: tasks_ok_def simp_thms)
  have "en_tasks e' = en_tasks e" using mem by (simp add: same_memory_def)
  then show thesis by (rule that [OF f(1) k tk'])
qed

lemma tasks_ok_finished: "tasks_ok e (xs @ Finished (Inr ()) # ys) = tasks_ok e (xs @ ys)"
  by (auto simp: tasks_ok_def)

text \<open>Awaiting some of the tasks, the last enqueued first; the others \<open>us\<close> stay.\<close>

lemma wait_tasks_run:
  assumes "core_ok e" "en_tasks e = us @ rev ts" "tasks_ok e (us @ rev ts)"
    and "unat (en_ts e) < 2 ^ 55" "unat (en_next_file_id e) + pend e < 2 ^ 64"
  shows "\<exists>e'. wait_tasks ts e = (e', Inr ()) \<and> kept e e' \<and> en_tasks e' = us \<and> tasks_ok e' us"
  using assms
proof (induction ts arbitrary: e)
  case Nil
  then show ?case by (auto simp: sreturn_def kept_refl)
next
  case (Cons t ts)
  let ?e = "e\<lparr>en_tasks := us @ rev ts\<rparr>"
  have core: "core_ok ?e" and tk: "tasks_ok ?e ((us @ rev ts) @ [t])"
    and small: "unat (en_ts ?e) < 2 ^ 55" and room: "unat (en_next_file_id ?e) + pend ?e < 2 ^ 64"
    using Cons.prems by (simp_all add: tasks_field)
  have pop: "wait_tasks (t # ts) e = sbind (run_task t) (\<lambda>_. wait_tasks ts) ?e"
    using Cons.prems(2) by (simp add: sbind_def supdate_def butlast_append)
  obtain e1 where r: "run_task t ?e = (e1, Inr ())" "kept ?e e1" "tasks_ok e1 (us @ rev ts)" "en_tasks e1 = us @ rev ts"
  proof (cases t)
    case (Pending i)
    then show thesis using flush_task_run [of ?e "us @ rev ts" i "[]"] core tk small room that by auto
  next
    case (Finished r)
    then have "r = Inr ()" using tk by (auto simp: tasks_ok_def)
    moreover from this have "tasks_ok ?e (us @ rev ts)"
      using tk Finished tasks_ok_finished [of ?e "us @ rev ts" "[]"] by simp
    ultimately show thesis using Finished that [of ?e] kept_refl [OF core] by (simp add: slift_def)
  qed
  have "\<exists>e'. wait_tasks ts e1 = (e', Inr ()) \<and> kept e1 e' \<and> en_tasks e' = us \<and> tasks_ok e' us"
    using r small room by (intro Cons.IH) (auto simp: kept_def)
  then obtain e' where e': "wait_tasks ts e1 = (e', Inr ())" "kept e1 e'" "en_tasks e' = us" "tasks_ok e' us" by blast
  have "wait_tasks (t # ts) e = (e', Inr ())" unfolding pop using r(1) e'(1) by (simp add: sbind_def)
  moreover have "kept e e'" using kept_trans [OF r(2) e'(2)] by simp
  ultimately show ?case using e'(3,4) by blast
qed

lemma wait_for_flushes_run:
  assumes "engine_inv e" "unat (en_ts e) < 2 ^ 55" "unat (en_next_file_id e) + pend e < 2 ^ 64"
  obtains e' where "wait_for_flushes e = (e', Inr ())" "kept e e'" "en_tasks e' = []" "engine_inv e'"
proof -
  obtain e' where "wait_tasks (rev (en_tasks e)) e = (e', Inr ())" "kept e e'" "en_tasks e' = []" "tasks_ok e' []"
    using wait_tasks_run [of e "[]" "rev (en_tasks e)"] assms by (auto simp: engine_inv_core)
  then show thesis
    using that [of e'] by (simp add: wait_for_flushes_def engine_inv_core kept_def)
qed

lemma background_flush_run:
  assumes inv: "engine_inv e" and "unat (en_ts e) < 2 ^ 55" "unat (en_next_file_id e) + pend e < 2 ^ 64"
  shows "kept e (background_flush n e)" "engine_inv (background_flush n e)"
proof -
  have core: "core_ok e" and tk: "tasks_ok e (en_tasks e)" using inv by (auto simp: engine_inv_core)
  have "kept e (background_flush n e) \<and> engine_inv (background_flush n e)"
  proof (cases "n < length (en_tasks e) \<and> (\<exists>i. en_tasks e ! n = Pending i)")
    case False
    then have "background_flush n e = e"
      by (auto simp: background_flush_def split: flush_task.splits)
    then show ?thesis using inv core kept_refl by simp
  next
    case True
    then obtain i where n: "n < length (en_tasks e)" and i: "en_tasks e ! n = Pending i" by blast
    then have split: "en_tasks e = take n (en_tasks e) @ Pending i # drop (Suc n) (en_tasks e)"
      by (metis id_take_nth_drop)
    then have tk': "tasks_ok e (take n (en_tasks e) @ Pending i # drop (Suc n) (en_tasks e))"
      using tk by simp
    obtain e' where e': "flush_memgraph i e = (e', Inr ())" "kept e e'"
      "tasks_ok e' (take n (en_tasks e) @ drop (Suc n) (en_tasks e))" "en_tasks e' = en_tasks e"
      by (rule flush_task_run [OF core tk' assms(2,3)])
    have b: "background_flush n e = e'\<lparr>en_tasks := (en_tasks e)[n := Finished (Inr ())]\<rparr>"
      using n i e'(1,4) by (simp add: background_flush_def)
    have "tasks_ok e' ((en_tasks e)[n := Finished (Inr ())])"
      using e'(3) tasks_ok_finished n by (simp add: upd_conv_take_nth_drop)
    then show ?thesis unfolding b using e'(2) by (simp add: engine_inv_core tasks_field kept_def)
  qed
  then show "kept e (background_flush n e)" "engine_inv (background_flush n e)" by auto
qed

subsection \<open>Compaction\<close>

lemma same_memory_graphs_ok:
  assumes "same_memory e e'" "memgraphs e' = memgraphs e"
  shows "graphs_ok e' = graphs_ok e" "tasks_ok e' ts = tasks_ok e ts" "mem_records e' = mem_records e"
    "pend e' = pend e"
  using assms same_memory_graph [OF assms(1)]
  by (simp_all add: graphs_ok_def tasks_ok_def mem_records_def pend_def same_memory_def)

text \<open>A compaction keeps the newest record of every edge as seen from any snapshot not before it.\<close>

lemma compacted_run:
  assumes inv: "engine_inv e" and c: "compacted e e'"
  shows "engine_inv e'" "records e' \<subseteq> records e"
    and "en_ts e \<le> snap \<Longrightarrow> latest (records e') snap = latest (records e) snap"
    and "mem_records e' = mem_records e" "en_ts e' = en_ts e" "en_next_graph e' = en_next_graph e"
    "en_config e' = en_config e" "en_tasks e' = en_tasks e" "pend e' = pend e"
proof -
  obtain A B where A: "disk_records e = A \<union> B" "disk_records e' = latest A (en_ts e) \<union> B"
    and mem: "same_memory e e'" "memgraphs e' = memgraphs e" and disk: "disk_ok e'"
    using c by (auto simp: compacted_def)
  note sm = same_memory_graphs_ok [OF mem]
  have fields: "en_ts e' = en_ts e" "en_next_graph e' = en_next_graph e" "en_config e' = en_config e"
    "en_tasks e' = en_tasks e"
    using mem by (simp_all add: same_memory_def)
  have all: "records e = A \<union> (B \<union> mem_records e)" "records e' = latest A (en_ts e) \<union> (B \<union> mem_records e)"
    using A sm(3) by (auto simp: records_def)
  show sub: "records e' \<subseteq> records e" using all latest_subset by blast
  have time: "time_ok e" using inv by (simp add: engine_inv_def)
  then have "time_ok e'"
    using sub sm(4) fields inj_on_subset unfolding time_ok_def by (auto simp: inj_on_def subset_iff)
  then show "engine_inv e'" using inv sm disk fields by (simp add: engine_inv_def)
  have fin: "finite A" "finite (B \<union> mem_records e)"
    using finite_records [of e] unfolding all(1) by simp_all
  have "\<forall>r \<in> A \<union> (B \<union> mem_records e). e_ts r \<le> en_ts e"
    using time unfolding time_ok_def all(1) by blast
  then show "latest (records e') snap = latest (records e) snap" if "en_ts e \<le> snap"
    unfolding all using latest_compact [OF fin _ that] by simp
  show "mem_records e' = mem_records e" by (rule sm)
  show "pend e' = pend e" by (rule sm)
  show "en_ts e' = en_ts e" "en_next_graph e' = en_next_graph e" "en_config e' = en_config e"
    "en_tasks e' = en_tasks e"
    by (rule fields)+
qed

lemma small_room:
  assumes "engine_inv e" "small e"
  shows "unat (en_ts e) < 2 ^ 55" "unat (en_next_file_id e) + pend e + Suc (unat (en_ts e)) < 2 ^ 64"
    "unat (en_next_graph e) + 1 < 2 ^ 64"
proof -
  have "pend e \<le> unat (en_ts e)" using assms(1) by (simp add: engine_inv_def time_ok_def)
  then show "unat (en_ts e) < 2 ^ 55" "unat (en_next_file_id e) + pend e + Suc (unat (en_ts e)) < 2 ^ 64"
    "unat (en_next_graph e) + 1 < 2 ^ 64"
    using assms(2) by (simp_all add: small_def)
qed

text \<open>What every operation that adds no record guarantees, and how many file ids it can use.\<close>

definition spent :: "engine \<Rightarrow> nat" where
  "spent e = unat (en_next_file_id e) + pend e"

definition same_now :: "engine \<Rightarrow> engine \<Rightarrow> bool" where
  "same_now e e' \<longleftrightarrow>
     engine_inv e' \<and> records e' \<subseteq> records e \<and>
     (\<forall>snap. en_ts e \<le> snap \<longrightarrow> latest (records e') snap = latest (records e) snap) \<and>
     en_ts e' = en_ts e \<and> en_config e' = en_config e \<and>
     spent e' \<le> spent e + Suc (unat (en_ts e)) \<and> unat (en_next_graph e') \<le> Suc (unat (en_next_graph e))"

lemma same_now_kept: "kept e e' \<Longrightarrow> engine_inv e' \<Longrightarrow> same_now e e'"
  by (simp add: same_now_def kept_def spent_def)

lemma idle_or_compacted_run:
  assumes inv: "engine_inv e" and c: "idle_or_compacted e e'"
  shows "engine_inv e'" "records e' \<subseteq> records e"
    and "en_ts e \<le> snap \<Longrightarrow> latest (records e') snap = latest (records e) snap"
    and "mem_records e' = mem_records e" "en_ts e' = en_ts e" "en_next_graph e' = en_next_graph e"
    "en_config e' = en_config e" "spent e' \<le> spent e + Suc (unat (en_ts e))"
  using compacted_run [OF inv, of e'] inv c by (auto simp: idle_or_compacted_def spent_def)

lemma same_now_kept_compacted:
  assumes "kept e e1" "engine_inv e1" "idle_or_compacted e1 e'"
  shows "same_now e e'"
  using idle_or_compacted_run [OF assms(2,3)] assms(1)
  by (auto simp: same_now_def kept_def spent_def)

text \<open>A compaction after the wait for the flushes.\<close>

lemma after_flushes:
  assumes inv: "engine_inv e" and small: "small e"
  obtains e1 where "wait_for_flushes e = (e1, Inr ())" "kept e e1" "engine_inv e1"
    "en_tasks e1 = []" "disk_ok e1" "time_ok e1" "unat (en_ts e1) < 2 ^ 55"
    "unat (en_next_file_id e1) + Suc (unat (en_ts e1)) < 2 ^ 64"
proof -
  note s = small_room [OF inv small]
  have "unat (en_next_file_id e) + pend e < 2 ^ 64" using s(2) by simp
  from wait_for_flushes_run [OF inv s(1) this]
  obtain e1 where w: "wait_for_flushes e = (e1, Inr ())" "kept e e1" "en_tasks e1 = []" "engine_inv e1" .
  have t: "en_ts e1 = en_ts e" and ids: "unat (en_next_file_id e1) + pend e1 \<le> unat (en_next_file_id e) + pend e"
    using w(2) by (simp_all add: kept_def)
  have "unat (en_next_file_id e1) + Suc (unat (en_ts e1)) < 2 ^ 64" using ids s(2) unfolding t by simp
  then show thesis
    using that [OF w(1,2,4,3)] w(4) s(1) t by (simp add: engine_inv_def)
qed

lemma compact_full_op:
  assumes inv: "engine_inv e" and small: "small e"
  obtains e' r where "compact_l0_to_l1_inner force e = (e', Inr r)" "same_now e e'"
proof -
  obtain e1 where w: "wait_for_flushes e = (e1, Inr ())" "kept e e1" "engine_inv e1"
    "en_tasks e1 = []" "disk_ok e1" "time_ok e1" "unat (en_ts e1) < 2 ^ 55"
    "unat (en_next_file_id e1) + Suc (unat (en_ts e1)) < 2 ^ 64"
    by (rule after_flushes [OF inv small])
  obtain e' r where "compact_l0_to_l1_inner force e = (e', Inr r)" "idle_or_compacted e1 e'"
    by (rule compact_full_run [OF w(1,5-8)])
  then show thesis
    using that same_now_kept_compacted [OF w(2,3)] by blast
qed

lemma compact_target_op:
  assumes inv: "engine_inv e" and small: "small e"
  obtains e' r where "compact_l0_target_to_l1 target e = (e', Inr r)" "same_now e e'"
proof -
  obtain e1 where w: "wait_for_flushes e = (e1, Inr ())" "kept e e1" "engine_inv e1"
    "en_tasks e1 = []" "disk_ok e1" "time_ok e1" "unat (en_ts e1) < 2 ^ 55"
    "unat (en_next_file_id e1) + Suc (unat (en_ts e1)) < 2 ^ 64"
    by (rule after_flushes [OF inv small])
  obtain e' r where "compact_l0_target_to_l1 target e = (e', Inr r)" "idle_or_compacted e1 e'"
    by (rule compact_target_run [OF w(1,5-8)])
  then show thesis
    using that same_now_kept_compacted [OF w(2,3)] by blast
qed

subsection \<open>Inserts and deletes\<close>

text \<open>Stamping a record with the next timestamp and writing it.\<close>

definition stamp_and_write :: "(timestamp \<Rightarrow> edge_record) \<Rightarrow> (engine, snapshot_id) st" where
  "stamp_and_write f = sbind next_ts (\<lambda>ts. sbind (write_edge (f ts)) (\<lambda>_. sreturn ts))"

lemma insert_edge_stamp: "insert_edge s d t = stamp_and_write (insert_record s d t)"
  by (simp add: insert_edge_def stamp_and_write_def)

lemma delete_edge_stamp: "delete_edge s d t = stamp_and_write (delete_record s d t)"
  by (simp add: delete_edge_def stamp_and_write_def)

lemma clock_field:
  "graphs_ok (e\<lparr>en_ts := ts\<rparr>) = graphs_ok e" "tasks_ok (e\<lparr>en_ts := ts\<rparr>) us = tasks_ok e us"
  "mem_records (e\<lparr>en_ts := ts\<rparr>) = mem_records e" "pend (e\<lparr>en_ts := ts\<rparr>) = pend e"
  "same_disk (e\<lparr>en_ts := ts\<rparr>) x = same_disk e x"
  by (simp_all add: graphs_ok_def tasks_ok_def mem_records_def pend_def same_disk_def)

lemma stamp_and_write_run:
  assumes inv: "engine_inv e" and small: "small e" and f: "e_ts (f (en_ts e + 1)) = en_ts e + 1"
  obtains e' where "stamp_and_write f e = (e', Inr (en_ts e + 1))" "engine_inv e'"
    "records e' = insert (f (en_ts e + 1)) (records e)" "en_ts e' = en_ts e + 1" "en_config e' = en_config e"
    "spent e' = Suc (spent e)" "unat (en_next_graph e') \<le> Suc (unat (en_next_graph e))"
proof -
  let ?r = "f (en_ts e + 1)" and ?e = "e\<lparr>en_ts := en_ts e + 1\<rparr>"
  have time: "time_ok e" and g: "graphs_ok ?e" and t: "tasks_ok ?e (en_tasks ?e)" and disk: "disk_ok e"
    using inv by (simp_all add: engine_inv_def clock_field)
  have u: "unat (en_ts e) + 1 < 2 ^ 64" using small by (simp add: small_def)
  note lt = le_less_plus_1 [OF u]
  have older: "e_ts r < e_ts ?r" if "r \<in> records e" for r
    using time that lt f by (simp add: time_ok_def)
  then have new: "\<forall>r \<in> mem_records ?e. edge_sort_key r \<noteq> edge_sort_key ?r"
    by (fastforce simp: clock_field records_def edge_sort_key_eq_iff)
  have room: "unat (en_next_graph ?e) + 1 < 2 ^ 64" using small by (simp add: small_def)
  from write_edge_run [OF g t new room]
  obtain e' where w: "write_edge ?r ?e = (e', Inr ())" "graphs_ok e'" "tasks_ok e' (en_tasks e')"
    "mem_records e' = insert ?r (mem_records e)" "pend e' = Suc (pend e)" "same_disk e e'"
    "en_ts e' = en_ts e + 1" "unat (en_next_graph e') \<le> unat (en_next_graph e) + 1"
    by (auto simp: clock_field)
  have "stamp_and_write f e = (e', Inr (en_ts e + 1))"
    using w(1) by (simp add: stamp_and_write_def next_ts_def sbind_def sreturn_def)
  moreover have recs: "records e' = insert ?r (records e)"
    using w(4) same_disk_records [OF w(6)] by (auto simp: records_def)
  moreover have "time_ok e'"
    unfolding time_ok_def recs w(7)
  proof (intro conjI ballI)
    show "inj_on e_ts (insert ?r (records e))"
      using time older by (fastforce simp: time_ok_def)
    show "pend e' \<le> unat (en_ts e + 1)"
      using time w(5) unat_plus_1 [OF u] by (simp add: time_ok_def)
  next
    fix r assume "r \<in> insert ?r (records e)"
    then show "e_ts r \<le> en_ts e + 1" using older f less_imp_le by auto
  qed
  then have "engine_inv e'" using w same_disk_ok [OF w(6) disk] by (simp add: engine_inv_def)
  moreover have "en_config e' = en_config e" "spent e' = Suc (spent e)"
    using w(5,6) by (simp_all add: same_disk_def spent_def)
  moreover have "unat (en_next_graph e') \<le> Suc (unat (en_next_graph e))" using w(8) by simp
  ultimately show thesis using w(7) by (intro that)
qed

subsection \<open>Flushing the active graph\<close>

lemma rotated_inv:
  assumes inv: "engine_inv e" and small: "small e" and nonempty: "contents (graph_of e (en_active e)) \<noteq> []"
    and e': "e' = fst (enqueue_flush (en_active e) (rotate_active e))"
  shows "engine_inv e'" "records e' = records e" "en_ts e' = en_ts e" "pend e' = pend e"
    "en_next_file_id e' = en_next_file_id e" "contents (graph_of e' (en_active e')) = []"
    "en_config e' = en_config e" "unat (en_next_graph e') \<le> Suc (unat (en_next_graph e))"
proof -
  have g: "graphs_ok e" and t: "tasks_ok e (en_tasks e)" and disk: "disk_ok e" and time: "time_ok e"
    using inv by (simp_all add: engine_inv_def)
  note rot = rotate_active_run [OF g t nonempty small_room(3) [OF inv small] refl]
  have e'': "e' = (rotate_active e)\<lparr>en_tasks := en_tasks (rotate_active e) @ [Pending (en_active e)]\<rparr>"
    unfolding e' by (simp add: enqueue_flush_run)
  have same: "same_disk e e'" using rot(5) unfolding e'' by (simp add: tasks_field)
  show recs: "records e' = records e"
    using rot(3) same_disk_records [OF same] unfolding e'' by (simp add: records_def tasks_field)
  show pend: "pend e' = pend e" using rot(4) unfolding e'' by (simp add: tasks_field)
  show ts: "en_ts e' = en_ts e" using rot(6) unfolding e'' by simp
  show "unat (en_next_graph e') \<le> Suc (unat (en_next_graph e))"
    using rot(8) unat_plus_1 [OF small_room(3) [OF inv small]] unfolding e'' by simp
  show "en_next_file_id e' = en_next_file_id e" "en_config e' = en_config e"
    using same by (simp_all add: same_disk_def)
  have "hm_inv (en_graphs e)" using g by (simp add: graphs_ok_def)
  then show "contents (graph_of e' (en_active e')) = []"
    unfolding e'' using graph_of_insert [of e]
    by (simp add: rotate_active_def Let_def new_memgraph_def)
  have "time_ok e'" using time by (simp add: time_ok_def recs ts pend)
  then show "engine_inv e'"
    using rot(1,2,7) same_disk_ok [OF same disk] unfolding engine_inv_def e'' by (simp add: tasks_field)
qed

lemma empty_active:
  assumes "engine_inv e"
  shows "mg_is_empty (graph_of e (en_active e)) \<longleftrightarrow> contents (graph_of e (en_active e)) = []"
  using assms by (simp add: engine_inv_def graphs_ok_def graph_good_def mg_is_empty_def)

text \<open>A flush loses no record if it does not compact; either way nothing stays in memory.\<close>

lemma flush_active_run:
  assumes inv: "engine_inv e" and small: "small e"
  obtains e' where "flush_active e = (e', Inr ())" "same_now e e'" "mem_records e' = {}"
    "\<not> cfg_auto_compaction (en_config e) \<longrightarrow> records e' = records e"
proof -
  define e0 where "e0 = (if mg_is_empty (graph_of e (en_active e)) then e
      else fst (enqueue_flush (en_active e) (rotate_active e)))"
  have e0: "engine_inv e0" "records e0 = records e" "en_ts e0 = en_ts e" "pend e0 = pend e"
    "en_next_file_id e0 = en_next_file_id e" "contents (graph_of e0 (en_active e0)) = []"
    "en_config e0 = en_config e" "unat (en_next_graph e0) \<le> Suc (unat (en_next_graph e))"
    using rotated_inv [OF inv small _ refl] empty_active [OF inv] inv by (auto simp: e0_def)
  note s = small_room [OF inv small]
  have ts: "unat (en_ts e0) < 2 ^ 55" using s(1) e0(3) by simp
  have "unat (en_next_file_id e0) + pend e0 < 2 ^ 64" using s(2) e0(4,5) by simp
  from wait_for_flushes_run [OF e0(1) ts this]
  obtain e1 where w: "wait_for_flushes e0 = (e1, Inr ())" "kept e0 e1" "en_tasks e1 = []" "engine_inv e1" .
  have k: "records e1 = records e" "en_ts e1 = en_ts e" "en_config e1 = en_config e"
    "spent e1 \<le> spent e" "unat (en_next_graph e1) \<le> Suc (unat (en_next_graph e))"
    using w(2) e0 by (simp_all add: kept_def spent_def)
  have "graph_of e1 (en_active e1) = graph_of e0 (en_active e0)"
    using w(2) by (simp add: kept_def graph_of_def)
  moreover have "set (memgraphs e1) = {en_active e1}"
    using w(3,4) by (simp add: engine_inv_def tasks_ok_def)
  ultimately have mem: "mem_records e1 = {}" using e0(6) by (simp add: mem_records_def)
  have body: "flush_active e = (if cfg_auto_compaction (en_config e1)
      then sbind (compact_l0_to_l1_inner False) (\<lambda>_. sreturn ()) e1 else (e1, Inr ()))"
    unfolding flush_active_def Let_def e0_def [symmetric]
    by (simp add: sbind_def [of wait_for_flushes] w(1))
  have same: "same_now e e'" if "idle_or_compacted e1 e'" for e'
    using idle_or_compacted_run [OF w(4) that] k by (auto simp: same_now_def)
  show thesis
  proof (cases "cfg_auto_compaction (en_config e)")
    case False
    then have "flush_active e = (e1, Inr ())" using body k(3) by simp
    then show thesis
      by (rule that) (use same mem k(1) in \<open>simp_all add: idle_or_compacted_def\<close>)
  next
    case True
    have idle: "wait_for_flushes e1 = (e1, Inr ())" using w(3) by (simp add: wait_for_flushes_def sreturn_def)
    have d: "disk_ok e1" "time_ok e1" using w(4) by (simp_all add: engine_inv_def)
    have ts1: "unat (en_ts e1) < 2 ^ 55" using s(1) k(2) by simp
    have "unat (en_next_file_id e1) + Suc (unat (en_ts e1)) < 2 ^ 64"
      using k(4) s(2) unfolding k(2) spent_def by simp
    from compact_full_run [OF idle d ts1 this]
    obtain e' r where c: "compact_l0_to_l1_inner False e1 = (e', Inr r)" "idle_or_compacted e1 e'" .
    then have "flush_active e = (e', Inr ())"
      using body k(3) True by (simp add: sbind_def sreturn_def)
    moreover have "mem_records e' = {}"
      using idle_or_compacted_run(4) [OF w(4) c(2)] mem by simp
    ultimately show thesis using same [OF c(2)] True by (intro that) simp_all
  qed
qed

end
