(* ===== verification/Engine_Open.thy ===== *)
theory Engine_Open
  imports Engine_Ops
begin

section \<open>Creating and opening a store\<close>

text \<open>
  Opening replays the log of a store another engine left: the files it recovers hold exactly the
  records that engine had on disk. Creating empties the store.
\<close>

lemma cache_ok_new: "en_cache e = cache_new n \<Longrightarrow> cache_ok e M"
  by (simp add: cache_ok_def cache_all_def cache_inv_new) (simp add: cache_new_def hm.get_empty)

lemma rebuild_fresh:
  assumes files: "engine_files_ok e (live e)" and d: "distinct (concat (v_levels (en_version e)))"
    and cache: "en_cache e = cache_new n" and log: "log_ok e"
  obtains c ix where "rebuild_index e = (e\<lparr>en_cache := c, en_index := ix\<rparr>, Inr ())"
    "disk_ok (e\<lparr>en_cache := c, en_index := ix\<rparr>)"
proof -
  obtain ix c where r: "rebuild_index e = (e\<lparr>en_cache := c, en_index := ix\<rparr>, Inr ())"
    "cache_ok (e\<lparr>en_cache := c, en_index := ix\<rparr>) (live e)" "index_ok (e\<lparr>en_cache := c, en_index := ix\<rparr>)"
    using rebuild_index_run [OF files cache_ok_new [OF cache]] by blast
  let ?e = "e\<lparr>en_cache := c, en_index := ix\<rparr>"
  have "live ?e = live e" "engine_log ?e = engine_log e" "file_recs ?e = file_recs e"
    by (simp_all add: live_def engine_log_def file_recs_def fun_eq_iff)
  then have "disk_ok ?e" using r(2,3) files d log by (simp add: disk_ok_def log_ok_def)
  then show thesis using r(1) that by blast
qed

text \<open>The engine \<^verbatim>\<open>open_inner\<close> builds, before its index.\<close>

definition start_engine ::
  "lsm_config \<Rightarrow> u64 \<Rightarrow> file_system \<Rightarrow> manifest_record list option \<Rightarrow> manifest_state \<Rightarrow> engine"
where
  "start_engine cfg n fs log ms =
     \<lparr>en_config = cfg, en_fs = fs, en_manifest = log,
      en_graphs = hm_insert n (new_memgraph cfg n) [],
      en_next_graph = n + 1,
      en_version = \<lparr>v_id = 1, v_memgraphs = [n],
        v_levels = split_levels (ms_live_files ms) (cfg_max_levels cfg)\<rparr>,
      en_active = n, en_next_file_id = ms_next_file_id ms, en_tasks = [],
      en_ts = ms_max_ts ms, en_index = [], en_cache = cache_new 4096\<rparr>"

lemma start_engine_run:
  assumes n: "unat n + 1 < 2 ^ 64" and ids: "distinct (map m_file_id (ms_live_files ms))"
    and files: "files_ok io store fs (ms_next_file_id ms) (set (ms_live_files ms))"
    and io: "io = any_io (cfg_io_backend cfg) whole_transfer whole_transfer" "store = cfg_store_dir cfg"
    and log: "\<forall>m. live_in_log (case log of None \<Rightarrow> [] | Some l \<Rightarrow> l) m \<longleftrightarrow> m \<in> set (ms_live_files ms)"
      "\<forall>m. Create_file m \<in> set (case log of None \<Rightarrow> [] | Some l \<Rightarrow> l) \<longrightarrow> m_file_id m < ms_next_file_id ms"
    and ts: "\<forall>m \<in> set (ms_live_files ms). \<forall>r \<in> set (seg_records io store fs m). e_ts r \<le> m_max_ts m"
      "\<forall>m \<in> set (ms_live_files ms). m_max_ts m \<le> ms_max_ts ms"
      "inj_on e_ts (\<Union>m \<in> set (ms_live_files ms). set (seg_records io store fs m))"
  obtains e where "rebuild_index (start_engine cfg n fs log ms) = (e, Inr ())" "engine_inv e"
    "records e = (\<Union>m \<in> set (ms_live_files ms). set (seg_records io store fs m))" "mem_records e = {}"
    "en_ts e = ms_max_ts ms" "en_next_file_id e = ms_next_file_id ms" "en_next_graph e = n + 1"
    "en_config e = cfg" "en_tasks e = []" "pend e = 0"
proof -
  let ?e = "start_engine cfg n fs log ms"
  have live: "live ?e = set (ms_live_files ms)"
    using mset_eq_setD [OF mset_split_levels [of "ms_live_files ms" "cfg_max_levels cfg"]]
    by (simp add: live_def start_engine_def)
  have fields: "engine_io ?e = io" "engine_store ?e = store" "en_fs ?e = fs" "en_next_file_id ?e = ms_next_file_id ms"
    by (simp_all add: start_engine_def engine_io_def engine_store_def io)
  have fr: "file_recs ?e = seg_records io store fs" by (rule ext) (simp add: file_recs_def fields)
  have f: "engine_files_ok ?e (live ?e)" using files by (simp add: live fields)
  have "distinct (ms_live_files ms)" using ids by (simp add: distinct_map)
  then have d: "distinct (concat (v_levels (en_version ?e)))"
    using mset_eq_imp_distinct_iff [OF mset_split_levels] by (simp add: start_engine_def)
  have c: "en_cache ?e = cache_new 4096" by (simp add: start_engine_def)
  have l: "log_ok ?e"
    using log ts(1) by (simp add: log_ok_def live fr fields engine_log_def) (simp add: start_engine_def)
  from rebuild_fresh [OF f d c l]
  obtain ca ix where r: "rebuild_index ?e = (?e\<lparr>en_cache := ca, en_index := ix\<rparr>, Inr ())"
    "disk_ok (?e\<lparr>en_cache := ca, en_index := ix\<rparr>)" .
  let ?e' = "?e\<lparr>en_cache := ca, en_index := ix\<rparr>"
  have ms: "memgraphs ?e' = [n]" and act: "en_active ?e' = n"
    by (simp_all add: start_engine_def memgraphs_def)
  have gr: "graph_of ?e' n = new_memgraph cfg n"
    by (simp add: graph_of_def start_engine_def hm.get_ins [OF hm.inv_empty])
  have mem: "mem_records ?e' = {}" and pend: "pend ?e' = 0"
    unfolding mem_records_def pend_def ms using gr by (simp_all add: new_memgraph_def)
  have recs: "records ?e' = (\<Union>m \<in> set (ms_live_files ms). set (seg_records io store fs m))"
    unfolding records_def mem by (simp add: disk_records_def) (use live fr in \<open>simp add: live_def file_recs_def fun_eq_iff\<close>)
  have "n < n + 1" using n le_less_plus_1 [of n n] by simp
  then have "graphs_ok ?e'"
    unfolding graphs_ok_def ms act
    using graph_good_new gr hm.inv_ins [OF hm.inv_empty]
    by (simp add: new_memgraph_def) (simp add: start_engine_def)
  moreover have "tasks_ok ?e' (en_tasks ?e')"
    unfolding tasks_ok_def ms act by (simp add: start_engine_def)
  moreover have "time_ok ?e'"
    unfolding time_ok_def recs pend using ts by (auto simp: start_engine_def intro: order_trans)
  ultimately have "engine_inv ?e'" using r(2) by (simp add: engine_inv_def)
  then show thesis using r(1) mem pend recs by (intro that) (simp_all add: start_engine_def)
qed

lemma open_inner_start:
  "open_inner cfg False n disk = rebuild_index (start_engine cfg n (fst disk) (snd disk) (manifest_load (snd disk)))"
  "open_inner cfg True n disk = rebuild_index (start_engine cfg n (fst disk) (snd disk)
     \<lparr>ms_live_files = [], ms_next_file_id = 1, ms_max_ts = 0\<rparr>)"
  by (simp_all add: open_inner_def start_engine_def Let_def)

text \<open>A created engine is empty.\<close>

lemma engine_create_run:
  assumes "unat n + 1 < 2 ^ 64"
  obtains e where "engine_create cfg n disk = (e, Inr ())" "engine_inv e" "records e = {}" "en_ts e = 0"
    "en_next_file_id e = 1" "en_next_graph e = n + 1" "en_config e = cfg" "pend e = 0"
proof -
  let ?ms = "\<lparr>ms_live_files = [], ms_next_file_id = 1, ms_max_ts = 0\<rparr>"
  obtain e where "rebuild_index (start_engine cfg n (fst (prepare_store (cfg_store_dir cfg) True disk)) None ?ms) = (e, Inr ())"
    "engine_inv e" "records e = {}" "en_ts e = 0" "en_next_file_id e = 1" "en_next_graph e = n + 1"
    "en_config e = cfg" "pend e = 0"
    by (rule start_engine_run [OF assms, of ?ms _ _ "fst (prepare_store (cfg_store_dir cfg) True disk)" cfg None, OF _ _ refl refl])
      (auto simp: files_ok_def live_in_log_def)
  moreover have "snd (prepare_store (cfg_store_dir cfg) True disk) = None" by (simp add: prepare_store_def)
  ultimately show thesis using that by (simp add: engine_create_def open_inner_start)
qed

lemma fold_max_in: "fold max xs y \<in> insert y (set xs)"
  for y :: "'a::linorder"
  by (induction xs arbitrary: y) (force simp: max_def)+

text \<open>What the log of a consistent store loads to.\<close>

lemma load_log:
  assumes disk: "disk_ok e"
  shows "set (ms_live_files (manifest_load (en_manifest e))) = live e"
    "distinct (map m_file_id (ms_live_files (manifest_load (en_manifest e))))"
    "\<forall>m. Create_file m \<in> set (engine_log e) \<longrightarrow>
       m_file_id m < ms_next_file_id (manifest_load (en_manifest e)) \<and>
       m_max_ts m \<le> ms_max_ts (manifest_load (en_manifest e))"
    "unat (ms_next_file_id (manifest_load (en_manifest e))) \<le> max 1 (unat (en_next_file_id e))"
proof -
  have log: "log_ok e" using disk by (simp add: disk_ok_def)
  define ms where "ms = manifest_load (en_manifest e)"
  have "(set (ms_live_files ms) = live e \<and> distinct (map m_file_id (ms_live_files ms))) \<and>
    (\<forall>m. Create_file m \<in> set (engine_log e) \<longrightarrow> m_file_id m < ms_next_file_id ms \<and> m_max_ts m \<le> ms_max_ts ms) \<and>
    unat (ms_next_file_id ms) \<le> max 1 (unat (en_next_file_id e))"
  proof (cases "en_manifest e")
    case None
    then have "live e = {}" "engine_log e = []" using log by (auto simp: log_ok_def engine_log_def live_in_log_def)
    then show ?thesis using None by (simp add: ms_def manifest_load_def)
  next
    case (Some records)
    let ?r = "manifest_replay records"
    have el: "engine_log e = records" using Some by (simp add: engine_log_def)
    have load: "ms_live_files ms = bt_values (fst ?r)" "ms_next_file_id ms = fst (snd ?r) + 1"
      "ms_max_ts ms = snd (snd ?r)"
      using Some by (simp_all add: ms_def manifest_load_def split: prod.splits)
    have id_lt: "fst (snd ?r) = 0 \<or> fst (snd ?r) < en_next_file_id e"
      using fold_max_in [of "map m_file_id (created records)" 0] log
      by (auto simp: manifest_replay_def replay_bounds log_ok_def el created_set)
    then have u: "unat (fst (snd ?r)) + 1 \<le> max 1 (unat (en_next_file_id e))"
      by (auto simp: word_less_nat_alt)
    have "unat (en_next_file_id e) < 2 ^ 64" using unsigned_less [of "en_next_file_id e"] by simp
    with u have u64: "unat (fst (snd ?r)) + 1 < 2 ^ 64"
      by (auto simp: max_def split: if_splits)
    have "set (ms_live_files ms) = live e" "distinct (map m_file_id (ms_live_files ms))"
      using live_files_iff [of _ records] log live_files_distinct [OF replay_ok_replay]
      by (auto simp: load log_ok_def el)
    moreover have "\<forall>m. Create_file m \<in> set records \<longrightarrow> m_file_id m < fst (snd ?r) + 1 \<and> m_max_ts m \<le> snd (snd ?r)"
      using manifest_ids [of _ records] le_less_plus_1 [OF u64] by blast
    ultimately show ?thesis
      using u unat_plus_1 [OF u64] by (simp add: el load)
  qed
  then show "set (ms_live_files (manifest_load (en_manifest e))) = live e"
    "distinct (map m_file_id (ms_live_files (manifest_load (en_manifest e))))"
    "\<forall>m. Create_file m \<in> set (engine_log e) \<longrightarrow>
       m_file_id m < ms_next_file_id (manifest_load (en_manifest e)) \<and>
       m_max_ts m \<le> ms_max_ts (manifest_load (en_manifest e))"
    "unat (ms_next_file_id (manifest_load (en_manifest e))) \<le> max 1 (unat (en_next_file_id e))"
    by (simp_all add: ms_def)
qed

text \<open>Opening a consistent store, whatever the engine that left it still had in memory.\<close>

lemma disk_open_run:
  assumes disk: "disk_ok e" and inj: "inj_on e_ts (disk_records e)" and n: "unat n + 1 < 2 ^ 64"
  obtains e' where "engine_open (en_config e) n (en_fs e, en_manifest e) = (e', Inr ())" "engine_inv e'"
    "records e' = disk_records e" "mem_records e' = {}" "en_config e' = en_config e"
    "spent e' \<le> max 1 (unat (en_next_file_id e))" "en_next_graph e' = n + 1"
proof -
  have files: "engine_files_ok e (live e)" and log: "log_ok e"
    using disk by (auto simp: disk_ok_def)
  define ms where "ms = manifest_load (en_manifest e)"
  note load = load_log [OF disk, folded ms_def]
  have created: "Create_file m \<in> set (engine_log e)" if "m \<in> live e" for m
    using log that live_in_log_created by (auto simp: log_ok_def)
  have f: "files_ok (engine_io e) (engine_store e) (en_fs e) (ms_next_file_id ms) (set (ms_live_files ms))"
    using files load(3) created unfolding load(1) by (auto simp: files_ok_def)
  have io: "engine_io e = any_io (cfg_io_backend (en_config e)) whole_transfer whole_transfer"
    "engine_store e = cfg_store_dir (en_config e)"
    by (simp_all add: engine_io_def engine_store_def)
  have inj': "inj_on e_ts (\<Union>m \<in> set (ms_live_files ms). set (seg_records (engine_io e) (engine_store e) (en_fs e) m))"
    using inj unfolding load(1) disk_records_def file_recs_def .
  have recs: "disk_records e = (\<Union>m \<in> set (ms_live_files ms). set (seg_records (engine_io e) (engine_store e) (en_fs e) m))"
    unfolding load(1) disk_records_def file_recs_def ..
  obtain e' where e': "rebuild_index (start_engine (en_config e) n (en_fs e) (en_manifest e) ms) = (e', Inr ())"
    "engine_inv e'" "records e' = disk_records e" "mem_records e' = {}" "en_ts e' = ms_max_ts ms"
    "en_next_file_id e' = ms_next_file_id ms" "en_next_graph e' = n + 1" "en_config e' = en_config e"
    "en_tasks e' = []" "pend e' = 0"
    unfolding recs
    by (rule start_engine_run [OF n load(2) f io, of "en_manifest e"])
      (use load created log inj' in \<open>auto simp: log_ok_def engine_log_def [symmetric] file_recs_def\<close>)
  have "engine_open (en_config e) n (en_fs e, en_manifest e) = (e', Inr ())"
    using e'(1) by (simp add: engine_open_def open_inner_start prepare_store_def ms_def)
  moreover have "spent e' \<le> max 1 (unat (en_next_file_id e))"
    using load(4) e'(6,10) by (simp add: spent_def)
  ultimately show thesis using e' by (intro that)
qed

lemma engine_open_run:
  assumes inv: "engine_inv e" and n: "unat n + 1 < 2 ^ 64"
  obtains e' where "engine_open (en_config e) n (en_fs e, en_manifest e) = (e', Inr ())" "engine_inv e'"
    "records e' = disk_records e" "mem_records e' = {}" "en_config e' = en_config e"
    "spent e' \<le> max 1 (unat (en_next_file_id e))" "en_next_graph e' = n + 1"
proof -
  have "disk_ok e" "inj_on e_ts (disk_records e)"
    using inv unfolding engine_inv_def time_ok_def records_def by (auto simp: inj_on_Un)
  then show thesis using disk_open_run [OF _ _ n] that by metis
qed

end
