(* ===== verification/Engine_Read.thy ===== *)
theory Engine_Read
  imports Engine_Inv Merge
begin

section \<open>Reading\<close>

text \<open>
  Lookups and scans return what the records say: the memory graphs, the filters of level 0, the
  index above it and the merge together miss nothing and invent nothing. A lookup changes the
  cache only, and leaves it coherent.
\<close>

lemma engine_lookup:
  assumes files: "engine_files_ok e M" and cache: "cache_ok e M" and m: "m \<in> M"
  obtains c where "with_reader (get_neighbors (engine_io e) (engine_store e) (en_fs e) m src) e =
      (e\<lparr>en_cache := c\<rparr>, Inr (filter (\<lambda>r. e_src r = src) (file_recs e m)))"
    "cache_ok (e\<lparr>en_cache := c\<rparr>) M"
proof -
  let ?P = "entry_ok (engine_io e) (engine_store e) (en_fs e) (en_next_file_id e) M"
  have only: "\<And>md. ?P (m_file_id m) md \<Longrightarrow>
      md = segment_metadata m (seg_records (engine_io e) (engine_store e) (en_fs e) m)"
    by (rule entry_ok_only [OF _ m])
  obtain c where g: "get_neighbors (engine_io e) (engine_store e) (en_fs e) m src (Some (en_cache e)) =
      (c, Inr (filter (\<lambda>r. e_src r = src) (sort_key edge_sort_key (file_recs e m))))" and all: "cache_all ?P c"
    unfolding file_recs_def
    using io_backend.get_neighbors_written [OF engine_io_backend files_okD(2) [OF files m]
        cache [unfolded cache_ok_def] only entry_okI [OF files m]] by blast
  have sorted: "sort_key edge_sort_key (file_recs e m) = file_recs e m"
    unfolding file_recs_def by (rule io_backend.seg_records_sorted [OF engine_io_backend files m])
  define c' where "c' = (case c of Some x \<Rightarrow> x | None \<Rightarrow> en_cache e)"
  have "with_reader (get_neighbors (engine_io e) (engine_store e) (en_fs e) m src) e =
      (e\<lparr>en_cache := c'\<rparr>, Inr (filter (\<lambda>r. e_src r = src) (file_recs e m)))"
    using g unfolding sorted by (simp add: with_reader_def c'_def)
  moreover have "cache_ok (e\<lparr>en_cache := c'\<rparr>) M"
    using all cache by (cases c) (simp_all add: cache_ok_def c'_def)
  ultimately show thesis by (rule that)
qed

lemma cached_filter_run:
  assumes files: "engine_files_ok e M" and cache: "cache_ok e M" and m: "m \<in> M"
  obtains b c where "cached_may_contain_src (m_file_id m) src (en_cache e) = (b, c)"
    "cache_ok (e\<lparr>en_cache := c\<rparr>) M" "b = None \<or> (\<exists>t. b = Some (Inr t) \<and> (src \<in> e_src ` set (file_recs e m) \<longrightarrow> t))"
proof -
  let ?P = "entry_ok (engine_io e) (engine_store e) (en_fs e) (en_next_file_id e) M"
  obtain h c where g: "cache_get (m_file_id m) (en_cache e) = (h, c)" by (cases "cache_get (m_file_id m) (en_cache e)")
  have all: "cache_all ?P (Some (en_cache e))" using cache by (simp add: cache_ok_def)
  have c: "cache_ok (e\<lparr>en_cache := c\<rparr>) M"
    using cache_all_get [OF all, of "m_file_id m"] g by (simp add: cache_ok_def)
  have "map_option (\<lambda>md. may_contain_src md src) h = None \<or>
      (\<exists>t. map_option (\<lambda>md. may_contain_src md src) h = Some (Inr t) \<and> (src \<in> e_src ` set (file_recs e m) \<longrightarrow> t))"
  proof (cases h)
    case (Some md)
    then have "hm_get (ca_map (en_cache e)) (m_file_id m) = Some md"
      using g by (auto simp: cache_get_def split: option.splits)
    then have "?P (m_file_id m) md" using all by (simp add: cache_all_def)
    from entry_ok_only [OF this m] have md: "md = segment_metadata m (file_recs e m)" by (simp add: file_recs_def)
    have "segment_fits (file_recs e m)"
      using files_okD(2) [OF files m] by (simp add: has_segment_def file_recs_def)
    from segment_metadata_spec(4) [OF this, of m src] show ?thesis using Some md by auto
  qed simp
  then show thesis using that [OF _ c] g by (simp add: cached_may_contain_src_def)
qed

lemma pruned_segment:
  assumes files: "engine_files_ok e M" and m: "m \<in> M" and r: "r \<in> set (file_recs e m)"
    and ty: "edge_type = None \<or> edge_type = Some (e_type r)"
  shows "may_contain_partition m (e_src r) edge_type" "m_min_src m \<le> e_src r" "e_src r \<le> m_max_src m"
proof -
  have meta: "m = snd (segment_image (m_level m) (m_file_id m) (file_recs e m))"
    using files_okD(2) [OF files m] unfolding has_segment_def file_recs_def by blast
  show "may_contain_partition m (e_src r) edge_type" "m_min_src m \<le> e_src r" "e_src r \<le> m_max_src m"
    using segment_meta_covers_record [OF r, of "m_level m" "m_file_id m", folded meta] ty by auto
qed

text \<open>The answers of a set of segments: nothing but records of the source, and all of them of the
  asked type.\<close>

definition answers ::
  "engine \<Rightarrow> csr_segment_meta set \<Rightarrow> vertex_id \<Rightarrow> edge_type option \<Rightarrow> edge_record list \<Rightarrow> bool"
where
  "answers e ms src edge_type es \<longleftrightarrow>
     (\<forall>r \<in> set es. e_src r = src \<and> (\<exists>m \<in> ms. r \<in> set (file_recs e m))) \<and>
     (\<forall>m \<in> ms. \<forall>r \<in> set (file_recs e m). e_src r = src \<longrightarrow> edge_type = None \<or> edge_type = Some (e_type r) \<longrightarrow>
        r \<in> set es)"

lemma answers_skip:
  "answers e ms src edge_type es \<Longrightarrow>
   \<forall>r \<in> set (file_recs e m). e_src r = src \<longrightarrow> edge_type = None \<or> edge_type = Some (e_type r) \<longrightarrow> False \<Longrightarrow>
   answers e (insert m ms) src edge_type es"
  unfolding answers_def by blast

lemma answers_found:
  "answers e ms src edge_type es \<Longrightarrow>
   answers e (insert m ms) src edge_type (filter (\<lambda>r. e_src r = src) (file_recs e m) @ es)"
  unfolding answers_def set_append set_filter by blast

lemma file_recs_cache [simp]: "file_recs (e\<lparr>en_cache := c\<rparr>) = file_recs e"
  by (rule ext) (simp add: file_recs_def)

lemma answers_cache [simp]: "answers (e\<lparr>en_cache := c\<rparr>) = answers e"
  by (intro ext) (simp add: answers_def)

lemma l0_lookup_run:
  assumes "engine_files_ok e M" "cache_ok e M" "set ms \<subseteq> M"
  shows "\<exists>c es. l0_lookup src edge_type ms e = (e\<lparr>en_cache := c\<rparr>, Inr es) \<and>
    cache_ok (e\<lparr>en_cache := c\<rparr>) M \<and> answers e (set ms) src edge_type es"
  using assms
proof (induction ms arbitrary: e)
  case Nil
  then show ?case by (intro exI [of _ "en_cache e"] exI [of _ "[]"]) (simp add: sreturn_def answers_def)
next
  case (Cons m ms)
  have files: "engine_files_ok e M" and cache: "cache_ok e M" and m: "m \<in> M" and ms: "set ms \<subseteq> M"
    using Cons.prems by auto
  have IH: "\<exists>c' es. l0_lookup src edge_type ms (e\<lparr>en_cache := c\<rparr>) = (e\<lparr>en_cache := c'\<rparr>, Inr es) \<and>
      cache_ok (e\<lparr>en_cache := c'\<rparr>) M \<and> answers e (set ms) src edge_type es"
    if "cache_ok (e\<lparr>en_cache := c\<rparr>) M" for c
    using Cons.IH [of "e\<lparr>en_cache := c\<rparr>"] that files ms by simp
  let ?skip = "\<forall>r \<in> set (file_recs e m). e_src r = src \<longrightarrow> edge_type = None \<or> edge_type = Some (e_type r) \<longrightarrow> False"
  have skip: ?case if "l0_lookup src edge_type (m # ms) e = l0_lookup src edge_type ms (e\<lparr>en_cache := c\<rparr>)"
    "cache_ok (e\<lparr>en_cache := c\<rparr>) M" ?skip for c
    using IH [OF that(2)] answers_skip [OF _ that(3)] unfolding that(1) list.set by blast
  note pruned = pruned_segment [OF files m]
  show ?case
  proof (cases "\<not> may_contain_partition m src edge_type \<or> src < m_min_src m \<or> m_max_src m < src")
    case True
    then have s: "l0_lookup src edge_type (m # ms) e = l0_lookup src edge_type ms (e\<lparr>en_cache := en_cache e\<rparr>)" by simp
    have c: "cache_ok (e\<lparr>en_cache := en_cache e\<rparr>) M" using cache by simp
    have ?skip using True pruned by fastforce
    then show ?thesis by (rule skip [OF s c])
  next
    case False
    obtain b c where bc: "cached_may_contain_src (m_file_id m) src (en_cache e) = (b, c)"
      "cache_ok (e\<lparr>en_cache := c\<rparr>) M"
      and b: "b = None \<or> (\<exists>t. b = Some (Inr t) \<and> (src \<in> e_src ` set (file_recs e m) \<longrightarrow> t))"
      by (rule cached_filter_run [OF files cache m])
    show ?thesis
    proof (cases "b = Some (Inr False)")
      case True
      then have s: "l0_lookup src edge_type (m # ms) e = l0_lookup src edge_type ms (e\<lparr>en_cache := c\<rparr>)"
        using False bc(1) by simp
      have ?skip using b True by auto
      then show ?thesis by (rule skip [OF s bc(2)])
    next
      case no: False
      let ?e = "e\<lparr>en_cache := c\<rparr>"
      have step: "l0_lookup src edge_type (m # ms) e =
          sbind (with_reader (get_neighbors (engine_io ?e) (engine_store ?e) (en_fs ?e) m src))
            (\<lambda>es. sbind (l0_lookup src edge_type ms) (\<lambda>rest. sreturn (es @ rest))) ?e"
        using False bc(1) b no by auto
      have f: "engine_files_ok ?e M" using files by simp
      obtain c2 where g: "with_reader (get_neighbors (engine_io ?e) (engine_store ?e) (en_fs ?e) m src) ?e =
          (?e\<lparr>en_cache := c2\<rparr>, Inr (filter (\<lambda>r. e_src r = src) (file_recs ?e m)))" "cache_ok (?e\<lparr>en_cache := c2\<rparr>) M"
        by (rule engine_lookup [OF f bc(2) m])
      obtain c3 es where l: "l0_lookup src edge_type ms (e\<lparr>en_cache := c2\<rparr>) = (e\<lparr>en_cache := c3\<rparr>, Inr es)"
        "cache_ok (e\<lparr>en_cache := c3\<rparr>) M" "answers e (set ms) src edge_type es"
        using IH [of c2] g(2) by auto
      have "l0_lookup src edge_type (m # ms) e =
          (e\<lparr>en_cache := c3\<rparr>, Inr (filter (\<lambda>r. e_src r = src) (file_recs e m) @ es))"
        unfolding step using g(1) l(1) by (simp add: sbind_def sreturn_def)
      then show ?thesis using l(2) answers_found [OF l(3)] by auto
    qed
  qed
qed

lemma index_lookup_run:
  assumes "engine_files_ok e M" "cache_ok e M" "set ms \<subseteq> M"
  shows "\<exists>c es. index_lookup src ms e = (e\<lparr>en_cache := c\<rparr>, Inr es) \<and>
    cache_ok (e\<lparr>en_cache := c\<rparr>) M \<and> answers e (set ms) src None es"
  using assms
proof (induction ms arbitrary: e)
  case Nil
  then show ?case by (intro exI [of _ "en_cache e"] exI [of _ "[]"]) (simp add: sreturn_def answers_def)
next
  case (Cons m ms)
  have files: "engine_files_ok e M" and cache: "cache_ok e M" and m: "m \<in> M" and ms: "set ms \<subseteq> M"
    using Cons.prems by auto
  obtain c where g: "with_reader (get_neighbors (engine_io e) (engine_store e) (en_fs e) m src) e =
      (e\<lparr>en_cache := c\<rparr>, Inr (filter (\<lambda>r. e_src r = src) (file_recs e m)))" "cache_ok (e\<lparr>en_cache := c\<rparr>) M"
    by (rule engine_lookup [OF files cache m])
  obtain c3 es where l: "index_lookup src ms (e\<lparr>en_cache := c\<rparr>) = (e\<lparr>en_cache := c3\<rparr>, Inr es)"
    "cache_ok (e\<lparr>en_cache := c3\<rparr>) M" "answers e (set ms) src None es"
    using Cons.IH [of "e\<lparr>en_cache := c\<rparr>"] files g(2) ms by auto
  have "index_lookup src (m # ms) e =
      (e\<lparr>en_cache := c3\<rparr>, Inr (filter (\<lambda>r. e_src r = src) (file_recs e m) @ es))"
    using g(1) l(1) by (simp add: sbind_def sreturn_def)
  then show ?case using l(2) answers_found [OF l(3)] by auto
qed

lemma edges_of_graphs_run:
  assumes "graphs_ok e"
  shows "edges_of_graphs e src =
    Inr (filter (\<lambda>r. e_src r = src) (concat (map (\<lambda>i. contents (graph_of e i)) (memgraphs e))))"
proof -
  have "rmap (\<lambda>i. get_edges_for_src (graph_of e i) src) (memgraphs e) =
      Inr (map (\<lambda>i. filter (\<lambda>r. e_src r = src) (contents (graph_of e i))) (memgraphs e))"
    using assms by (intro rmap_Inr get_edges_for_src_contents) (auto simp: graphs_ok_def graph_good_def)
  then show ?thesis
    by (simp add: edges_of_graphs_def memgraphs_def filter_concat comp_def)
qed

lemma disk_ok_cache:
  assumes "disk_ok e" "cache_ok (e\<lparr>en_cache := c\<rparr>) (live e)"
  shows "disk_ok (e\<lparr>en_cache := c\<rparr>)"
proof -
  have "live (e\<lparr>en_cache := c\<rparr>) = live e" "upper (e\<lparr>en_cache := c\<rparr>) = upper e"
    "engine_log (e\<lparr>en_cache := c\<rparr>) = engine_log e"
    by (simp_all add: live_def upper_def engine_log_def)
  then show ?thesis using assms by (simp add: disk_ok_def log_ok_def index_ok_def)
qed

lemma engine_inv_cache:
  assumes "engine_inv e" "cache_ok (e\<lparr>en_cache := c\<rparr>) (live e)"
  shows "engine_inv (e\<lparr>en_cache := c\<rparr>)" "records (e\<lparr>en_cache := c\<rparr>) = records e"
proof -
  show recs: "records (e\<lparr>en_cache := c\<rparr>) = records e"
    by (simp add: records_def mem_records_def disk_records_def live_def)
  have "graphs_ok (e\<lparr>en_cache := c\<rparr>) = graphs_ok e" "tasks_ok (e\<lparr>en_cache := c\<rparr>) ts = tasks_ok e ts"
    "time_ok (e\<lparr>en_cache := c\<rparr>) = time_ok e" for ts
    by (simp_all add: graphs_ok_def tasks_ok_def time_ok_def recs pend_def)
  then show "engine_inv (e\<lparr>en_cache := c\<rparr>)"
    using assms disk_ok_cache by (simp add: engine_inv_def)
qed

definition of_type :: "edge_type option \<Rightarrow> edge_record \<Rightarrow> bool" where
  "of_type edge_type r \<longleftrightarrow> edge_type = None \<or> edge_type = Some (e_type r)"

theorem lookup_run:
  assumes inv: "engine_inv e"
  obtains c out where "get_neighbors_typed_internal src edge_type snap e = (e\<lparr>en_cache := c\<rparr>, Inr out)"
    "engine_inv (e\<lparr>en_cache := c\<rparr>)" "records (e\<lparr>en_cache := c\<rparr>) = records e"
    "set out = {r \<in> latest (records e) snap. e_marker r = Insert \<and> e_src r = src \<and> of_type edge_type r}"
    "sorted_wrt (<) (map edge_key out)"
proof -
  have g: "graphs_ok e" and files: "engine_files_ok e (live e)" and cache: "cache_ok e (live e)"
    and index: "index_ok e" and time: "time_ok e"
    using inv by (auto simp: engine_inv_def disk_ok_def)
  let ?l0 = "get_level (v_levels (en_version e)) L0"
  let ?mem = "filter (\<lambda>r. e_src r = src) (concat (map (\<lambda>i. contents (graph_of e i)) (memgraphs e)))"
  have sub: "set ?l0 \<subseteq> live e" "upper e \<subseteq> live e" using live_upper upper_live by blast+
  obtain c es where l: "l0_lookup src edge_type ?l0 e = (e\<lparr>en_cache := c\<rparr>, Inr es)"
    "cache_ok (e\<lparr>en_cache := c\<rparr>) (live e)" "answers e (set ?l0) src edge_type es"
    using l0_lookup_run [OF files cache sub(1)] by blast
  let ?e = "e\<lparr>en_cache := c\<rparr>" and ?ms = "get_positions (en_index e) src"
  have ms: "set ?ms \<subseteq> live e" using index sub(2) by (auto simp: index_ok_def)
  have f2: "engine_files_ok ?e (live e)" using files by simp
  from index_lookup_run [OF f2 l(2) ms, of src]
  obtain c2 us where u: "index_lookup src ?ms ?e = (e\<lparr>en_cache := c2\<rparr>, Inr us)"
    "cache_ok (e\<lparr>en_cache := c2\<rparr>) (live e)" "answers e (set ?ms) src None us"
    by auto
  define ups where "ups = filter (of_type edge_type) (?mem @ es @ us)"
  let ?P = "\<lambda>r. e_src r = src \<and> of_type edge_type r"
  have "set ups = {r \<in> records e. ?P r}"
  proof (rule set_eqI)
    fix r
    have "r \<in> set us" if "m \<in> upper e" "r \<in> set (file_recs e m)" "e_src r = src" for m
    proof -
      have "m \<in> set ?ms" using index that by (auto simp: index_ok_def)
      then show ?thesis using u(3) that unfolding answers_def by blast
    qed
    moreover have "r \<in> set es" if "m \<in> set ?l0" "r \<in> set (file_recs e m)" "e_src r = src" "of_type edge_type r" for m
      using that l(3) unfolding answers_def of_type_def by blast
    moreover have "r \<in> disk_records e \<and> e_src r = src" if "r \<in> set es \<union> set us"
      using that l(3) u(3) sub ms unfolding answers_def disk_records_def by blast
    ultimately show "r \<in> set ups \<longleftrightarrow> r \<in> {r \<in> records e. ?P r}"
      unfolding ups_def records_def mem_records_def disk_records_def live_upper by auto
  qed
  moreover have "ts_unique (set ups)"
    using time_ok_unique [OF time] by (rule ts_unique_subset) (use calculation in auto)
  moreover have "latest {r \<in> records e. ?P r} snap = {r \<in> latest (records e) snap. ?P r}"
    by (rule latest_restrict) (auto simp: edge_key_eq_iff of_type_def)
  ultimately have out: "set (merge_visible ups snap) =
      {r \<in> latest (records e) snap. e_marker r = Insert \<and> e_src r = src \<and> of_type edge_type r}"
    by (auto simp: set_merge_visible)
  have ty: "(case edge_type of Some t \<Rightarrow> filter (\<lambda>x. e_type x = t) xs | None \<Rightarrow> xs) = filter (of_type edge_type) xs" for xs
    by (auto simp: of_type_def split: option.splits intro!: filter_cong)
  have "get_neighbors_typed_internal src edge_type snap e = (e\<lparr>en_cache := c2\<rparr>, Inr (merge_visible ups snap))"
    unfolding get_neighbors_typed_internal_def ups_def Let_def ty
    using edges_of_graphs_run [OF g, of src] l(1) u(1)
    by (simp add: sbind_def sreads_def sreturn_def)
  moreover have "sorted_wrt (<) (map edge_key (merge_visible ups snap))"
    using merge_visible_sorted [of ups snap] merge_visible_distinct [of ups snap] by (simp add: strict_sorted_iff)
  ultimately show thesis using engine_inv_cache [OF inv u(2)] out by (intro that)
qed

theorem scan_run:
  assumes inv: "engine_inv e"
  obtains out where "scan_edges snap e = Inr out"
    "set out = {r \<in> latest (records e) snap. e_marker r = Insert}" "sorted_wrt (<) (map edge_key out)"
proof -
  let ?files = "concat (v_levels (en_version e))"
  have files: "engine_files_ok e (live e)" and time: "time_ok e"
    using inv by (auto simp: engine_inv_def disk_ok_def)
  have "rmap (read_all_edges (engine_io e) (engine_store e) (en_fs e)) ?files = Inr (map (file_recs e) ?files)"
    using io_backend.read_all_edges_ok [OF engine_io_backend files]
    by (intro rmap_Inr) (simp add: file_recs_def live_def)
  then have r: "read_segments ?files e = Inr (concat (map (file_recs e) ?files))"
    by (simp add: read_segments_def)
  define us where "us = concat (map (\<lambda>i. all_edges_sorted (graph_of e i)) (memgraphs e)) @
      concat (map (file_recs e) ?files)"
  have us: "set us = records e"
    by (simp add: us_def records_def mem_records_def disk_records_def live_def)
  have "scan_edges snap e = Inr (merge_visible us snap)"
    by (simp add: scan_edges_def Let_def r us_def memgraphs_def)
  moreover have "set (merge_visible us snap) = {r \<in> latest (records e) snap. e_marker r = Insert}"
    using set_merge_visible [of us snap] time_ok_unique [OF time] by (simp add: us)
  moreover have "sorted_wrt (<) (map edge_key (merge_visible us snap))"
    using merge_visible_sorted [of us snap] merge_visible_distinct [of us snap] by (simp add: strict_sorted_iff)
  ultimately show thesis by (rule that)
qed

end
