(* ===== verification/Engine_Spec.thy ===== *)
theory Engine_Spec
  imports Engine_Open Engine_Read
begin

section \<open>The engine against its specification\<close>

text \<open>
  The specification is a set of edges: an insert adds one, a delete removes one, and nothing else
  changes it. Any run of operations on a created engine refines it, at the present and, as far
  back as the last compaction, at every past snapshot.
\<close>

definition view :: "engine \<Rightarrow> snapshot_id \<Rightarrow> edge_key set" where
  "view e snap = edge_key ` {r \<in> latest (records e) snap. e_marker r = Insert}"

text \<open>What a set of records shows at a snapshot.\<close>

definition visible :: "edge_record set \<Rightarrow> snapshot_id \<Rightarrow> edge_key set" where
  "visible R snap = edge_key ` {r \<in> latest R snap. e_marker r = Insert}"

lemma view_visible: "view e snap = visible (records e) snap"
  by (simp add: view_def visible_def)

datatype engine_op =
    Put vertex_id vertex_id edge_type
  | Remove vertex_id vertex_id edge_type
  | Flush
  | Background nat
  | Compact
  | Compact_partition i32 "edge_type option"
  | Compact_range i32 "edge_type option" vertex_id vertex_id
  | Look vertex_id "edge_type option" snapshot_id

definition sdrop :: "('s, 'a) st \<Rightarrow> ('s, unit) st" where
  "sdrop m = sbind m (\<lambda>_. sreturn ())"

lemma sdrop_run [simp]: "m s = (s', Inr x) \<Longrightarrow> sdrop m s = (s', Inr ())"
  by (simp add: sdrop_def sbind_def sreturn_def)

fun exec_op :: "engine_op \<Rightarrow> (engine, unit) st" where
  "exec_op (Put src dst t) = sdrop (insert_edge src dst t)"
| "exec_op (Remove src dst t) = sdrop (delete_edge src dst t)"
| "exec_op Flush = flush_active"
| "exec_op (Background n) = supdate (background_flush n)"
| "exec_op Compact = sdrop compact_l0_to_l1"
| "exec_op (Compact_partition label t) = sdrop (compact_l0_partition_to_l1 label t)"
| "exec_op (Compact_range label t lo hi) = sdrop (compact_l0_range_to_l1 label t lo hi)"
| "exec_op (Look src t snap) = sdrop (get_neighbors_typed_internal src t snap)"

fun run_ops :: "engine_op list \<Rightarrow> (engine, unit) st" where
  "run_ops [] = sreturn ()"
| "run_ops (op # ops) = sbind (exec_op op) (\<lambda>_. run_ops ops)"

fun apply_op :: "engine_op \<Rightarrow> edge_key set \<Rightarrow> edge_key set" where
  "apply_op (Put src dst t) E = insert (src, sint t, dst) E"
| "apply_op (Remove src dst t) E = E - {(src, sint t, dst)}"
| "apply_op op E = E"

definition edges_after :: "engine_op list \<Rightarrow> edge_key set" where
  "edges_after ops = fold apply_op ops {}"

fun is_write :: "engine_op \<Rightarrow> bool" where
  "is_write (Put src dst t) = True"
| "is_write (Remove src dst t) = True"
| "is_write op = False"

definition writes :: "engine_op list \<Rightarrow> engine_op list" where
  "writes ops = filter is_write ops"

fun compacts :: "lsm_config \<Rightarrow> engine_op \<Rightarrow> bool" where
  "compacts cfg Compact = True"
| "compacts cfg (Compact_partition label t) = True"
| "compacts cfg (Compact_range label t lo hi) = True"
| "compacts cfg Flush = cfg_auto_compaction cfg"
| "compacts cfg op = False"

text \<open>The number of writes before the last compaction: history is kept from there on.\<close>

definition stable_from :: "lsm_config \<Rightarrow> engine_op list \<Rightarrow> nat" where
  "stable_from cfg ops = length (writes (rev (dropWhile (\<lambda>op. \<not> compacts cfg op) (rev ops))))"

lemma stable_from_snoc:
  "stable_from cfg (ops @ [op]) = (if compacts cfg op then length (writes (ops @ [op])) else stable_from cfg ops)"
  by (simp add: stable_from_def)

lemma writes_snoc [simp]: "writes (ops @ [op]) = writes ops @ (if is_write op then [op] else [])"
  by (simp add: writes_def)

lemma not_compacts_write: "is_write op \<Longrightarrow> \<not> compacts cfg op"
  by (cases op) auto

lemma stable_from_le: "stable_from cfg ops \<le> length (writes ops)"
proof (induction ops rule: rev_induct)
  case (snoc op ops)
  then show ?case using not_compacts_write by (auto simp: stable_from_snoc)
qed (simp add: stable_from_def)

subsection \<open>One write\<close>

lemma view_older:
  assumes "records e' = insert r (records e)" "snap < e_ts r"
  shows "view e' snap = view e snap"
  using latest_later [of "{r}" snap "records e"] assms by (simp add: view_def)

lemma view_newest:
  assumes "records e' = insert r (records e)" "\<forall>x \<in> records e. e_ts x < e_ts r" "e_ts r \<le> snap"
  shows "view e' snap = (if e_marker r = Insert then insert (edge_key r) (view e snap)
    else view e snap - {edge_key r})"
proof -
  have "latest (records e') snap = insert r {x \<in> latest (records e) snap. edge_key x \<noteq> edge_key r}"
    unfolding assms(1) by (rule latest_insert_newest [OF assms(2,3)])
  then show ?thesis unfolding view_def by auto
qed

lemma view_same: "same_now e e' \<Longrightarrow> en_ts e \<le> snap \<Longrightarrow> view e' snap = view e snap"
  by (simp add: view_def same_now_def)

lemma view_records: "records e' = records e \<Longrightarrow> view e' snap = view e snap"
  by (simp add: view_def)

text \<open>The record a write operation stamps.\<close>

fun write_record :: "engine_op \<Rightarrow> timestamp \<Rightarrow> edge_record" where
  "write_record (Put src dst t) ts = insert_record src dst t ts"
| "write_record (Remove src dst t) ts = delete_record src dst t ts"
| "write_record op ts = insert_record 0 0 0 ts"

lemma write_record_fun:
  "write_record (Put src dst t) = insert_record src dst t"
  "write_record (Remove src dst t) = delete_record src dst t"
  by (rule ext, simp)+

lemma exec_write: "is_write op \<Longrightarrow> exec_op op = sdrop (stamp_and_write (write_record op))"
  by (cases op) (simp_all add: insert_edge_stamp delete_edge_stamp write_record_fun)

lemma write_record_ts [simp]: "e_ts (write_record op ts) = ts"
  by (cases op) (simp_all add: insert_record_def delete_record_def)

lemma apply_write:
  "is_write op \<Longrightarrow> (if e_marker (write_record op ts) = Insert then insert (edge_key (write_record op ts)) E
     else E - {edge_key (write_record op ts)}) = apply_op op E"
  by (cases op) (simp_all add: insert_record_def delete_record_def edge_key_def)

text \<open>Every other operation keeps what is visible at present; without compaction, at any snapshot.\<close>

lemma exec_other:
  assumes inv: "engine_inv e" and small: "small e" and op: "\<not> is_write op"
  obtains e' where "exec_op op e = (e', Inr ())" "same_now e e'"
    "\<not> compacts (en_config e) op \<longrightarrow> records e' = records e"
proof (cases op)
  case Flush
  obtain e' where e': "flush_active e = (e', Inr ())" "same_now e e'" "mem_records e' = {}"
    "\<not> cfg_auto_compaction (en_config e) \<longrightarrow> records e' = records e"
    by (rule flush_active_run [OF inv small])
  show thesis by (rule that [of e']) (use e' Flush in simp_all)
next
  case (Background n)
  note s = small_room [OF inv small]
  have "unat (en_next_file_id e) + pend e < 2 ^ 64" using s(2) by simp
  note b = background_flush_run [OF inv s(1) this, of n]
  show thesis
    by (rule that [of "background_flush n e"])
      (use Background same_now_kept [OF b] b in \<open>simp_all add: supdate_def kept_def\<close>)
next
  case Compact
  obtain e' r where "compact_l0_to_l1_inner True e = (e', Inr r)" "same_now e e'"
    by (rule compact_full_op [OF inv small])
  then show thesis using that Compact by (simp add: compact_l0_to_l1_def)
next
  case (Compact_partition label t)
  obtain e' r where "compact_l0_target_to_l1 \<lparr>t_src_label = label, t_edge_type = t, t_min_src = None, t_max_src = None\<rparr> e = (e', Inr r)"
    "same_now e e'"
    by (rule compact_target_op [OF inv small])
  then show thesis using that Compact_partition by (simp add: compact_l0_partition_to_l1_def)
next
  case (Compact_range label t lo hi)
  obtain e' r where "compact_l0_target_to_l1 \<lparr>t_src_label = label, t_edge_type = t, t_min_src = Some lo, t_max_src = Some hi\<rparr> e = (e', Inr r)"
    "same_now e e'"
    by (rule compact_target_op [OF inv small])
  then show thesis using that Compact_range by (simp add: compact_l0_range_to_l1_def)
next
  case (Look src t snap)
  obtain c out where l: "get_neighbors_typed_internal src t snap e = (e\<lparr>en_cache := c\<rparr>, Inr out)"
    "engine_inv (e\<lparr>en_cache := c\<rparr>)" "records (e\<lparr>en_cache := c\<rparr>) = records e"
    by (rule lookup_run [OF inv])
  show thesis
    by (rule that [of "e\<lparr>en_cache := c\<rparr>"])
      (use Look l in \<open>simp_all add: same_now_def spent_def pend_def\<close>)
qed (use op in simp_all)

subsection \<open>Runs\<close>

definition tracks :: "lsm_config \<Rightarrow> nat \<Rightarrow> engine_op list \<Rightarrow> engine \<Rightarrow> bool" where
  "tracks cfg n h e \<longleftrightarrow>
     engine_inv e \<and> en_config e = cfg \<and> unat (en_ts e) = length (writes h) \<and>
     (\<forall>snap. stable_from cfg h \<le> unat snap \<longrightarrow> view e snap = edges_after (take (unat snap) (writes h))) \<and>
     spent e \<le> 1 + length h * (length h + 1) \<and> unat (en_next_graph e) \<le> n + length h"

lemma length_writes: "length (writes h) \<le> length h"
  by (simp add: writes_def)

lemma tracks_small:
  assumes "tracks cfg n h e" "length h < 2 ^ 30" "n \<le> 2 ^ 62"
  shows "small e"
proof -
  have "unat (en_ts e) < 2 ^ 55" using assms length_writes [of h] by (simp add: tracks_def)
  moreover have "length h * (length h + 1) \<le> 2 ^ 30 * 2 ^ 30"
    using assms(2) by (intro mult_le_mono) simp_all
  then have "unat (en_next_file_id e) < 2 ^ 63" using assms(1) by (simp add: tracks_def spent_def)
  moreover have "unat (en_next_graph e) < 2 ^ 63" using assms by (simp add: tracks_def)
  ultimately show ?thesis by (simp add: small_def)
qed

lemma tracks_step:
  assumes tr: "tracks cfg n h e" and len: "length h < 2 ^ 30" and n: "n \<le> 2 ^ 62"
  obtains e' where "exec_op op e = (e', Inr ())" "tracks cfg n (h @ [op]) e'"
proof -
  have inv: "engine_inv e" and cfg: "en_config e = cfg" and ts: "unat (en_ts e) = length (writes h)"
    and vw: "\<And>snap. stable_from cfg h \<le> unat snap \<Longrightarrow> view e snap = edges_after (take (unat snap) (writes h))"
    and sp: "spent e \<le> 1 + length h * (length h + 1)" and ng: "unat (en_next_graph e) \<le> n + length h"
    using tr by (auto simp: tracks_def)
  have small: "small e" using tracks_small [OF tr len n] .
  have lw: "length (writes h) \<le> length h" by (rule length_writes)
  have grow: "s \<le> spent e + Suc (unat (en_ts e)) \<Longrightarrow> s \<le> 1 + length (h @ [op]) * (length (h @ [op]) + 1)" for s
    using sp lw ts by (simp add: algebra_simps)
  show thesis
  proof (cases "is_write op")
    case True
    let ?r = "write_record op (en_ts e + 1)"
    obtain e' where w: "stamp_and_write (write_record op) e = (e', Inr (en_ts e + 1))" "engine_inv e'"
      "records e' = insert ?r (records e)" "en_ts e' = en_ts e + 1" "en_config e' = en_config e"
      "spent e' = Suc (spent e)" "unat (en_next_graph e') \<le> Suc (unat (en_next_graph e))"
      by (rule stamp_and_write_run [OF inv small, where f = "write_record op"]) simp_all
    have u: "unat (en_ts e) + 1 < 2 ^ 64" using small by (simp add: small_def)
    have ts': "unat (en_ts e + 1) = Suc (length (writes h))" using unat_plus_1 [OF u] ts by simp
    have "e_ts x \<le> en_ts e" if "x \<in> records e" for x using inv that by (simp add: engine_inv_def time_ok_def)
    then have older: "\<forall>x \<in> records e. e_ts x < e_ts ?r" using le_less_plus_1 [OF u] by simp
    have st: "stable_from cfg (h @ [op]) = stable_from cfg h"
      using not_compacts_write [OF True] by (simp add: stable_from_snoc)
    have "view e' snap = edges_after (take (unat snap) (writes (h @ [op])))" if s: "stable_from cfg h \<le> unat snap" for snap
    proof (cases "e_ts ?r \<le> snap")
      case le: True
      then have "Suc (length (writes h)) \<le> unat snap" using ts' by (simp add: word_le_nat_alt)
      then show ?thesis
        using view_newest [OF w(3) older le] apply_write [OF True, of "en_ts e + 1" "view e snap"] vw [OF s] True
        by (simp add: edges_after_def)
    next
      case False
      then have "snap < e_ts ?r" by simp
      then have "unat snap \<le> length (writes h)" using ts' by (simp add: word_less_nat_alt)
      then show ?thesis
        using view_older [OF w(3) \<open>snap < e_ts ?r\<close>] vw [OF s] True by simp
    qed
    then have "tracks cfg n (h @ [op]) e'"
      using w ng cfg ts' st True grow [of "spent e'"] by (simp add: tracks_def)
    moreover have "exec_op op e = (e', Inr ())" using w(1) exec_write [OF True] by simp
    ultimately show thesis by (intro that)
  next
    case False
    obtain e' where w: "exec_op op e = (e', Inr ())" "same_now e e'"
      "\<not> compacts (en_config e) op \<longrightarrow> records e' = records e"
      by (rule exec_other [OF inv small False])
    have "view e' snap = edges_after (take (unat snap) (writes h))" if s: "stable_from cfg (h @ [op]) \<le> unat snap" for snap
    proof (cases "compacts cfg op")
      case True
      then have "length (writes h) \<le> unat snap" using s False by (simp add: stable_from_snoc)
      then have "en_ts e \<le> snap" using ts by (simp add: word_le_nat_alt)
      moreover have "stable_from cfg h \<le> unat snap"
        using \<open>length (writes h) \<le> unat snap\<close> stable_from_le le_trans by blast
      ultimately show ?thesis using view_same [OF w(2)] vw by simp
    next
      case no: False
      then have "records e' = records e" using w(3) cfg by simp
      then show ?thesis using view_records [of e' e] vw s no by (simp add: stable_from_snoc)
    qed
    then have "tracks cfg n (h @ [op]) e'"
      using w(2) ng cfg ts False grow [of "spent e'"] by (simp add: tracks_def same_now_def)
    then show thesis using w(1) that by blast
  qed
qed

lemma tracks_run:
  assumes "tracks cfg n h e" "length h + length ops < 2 ^ 30" "n \<le> 2 ^ 62"
  shows "\<exists>e'. run_ops ops e = (e', Inr ()) \<and> tracks cfg n (h @ ops) e'"
  using assms
proof (induction ops arbitrary: e h)
  case Nil
  then show ?case by (simp add: sreturn_def)
next
  case (Cons op ops)
  have len: "length h < 2 ^ 30" using Cons.prems(2) by simp
  obtain e1 where s: "exec_op op e = (e1, Inr ())" "tracks cfg n (h @ [op]) e1"
    by (rule tracks_step [OF Cons.prems(1) len Cons.prems(3)])
  have "\<exists>e'. run_ops ops e1 = (e', Inr ()) \<and> tracks cfg n ((h @ [op]) @ ops) e'"
    by (rule Cons.IH [OF s(2)]) (use Cons.prems in simp_all)
  then show ?case using s(1) by (simp add: sbind_def)
qed

lemma created_run:
  assumes "length ops < 2 ^ 30" "unat n < 2 ^ 62"
  obtains e0 e where "engine_create cfg n disk = (e0, Inr ())" "run_ops ops e0 = (e, Inr ())"
    "tracks cfg (Suc (unat n)) ops e"
proof -
  have n: "unat n + 1 < 2 ^ 64" using assms(2) by simp
  obtain e0 where e0: "engine_create cfg n disk = (e0, Inr ())" "engine_inv e0" "records e0 = {}" "en_ts e0 = 0"
    "en_next_file_id e0 = 1" "en_next_graph e0 = n + 1" "en_config e0 = cfg" "pend e0 = 0"
    by (rule engine_create_run [OF n])
  have "tracks cfg (Suc (unat n)) [] e0"
    using e0 unat_plus_1 [OF n]
    by (simp add: tracks_def writes_def view_def latest_def edges_after_def spent_def)
  then have "\<exists>e. run_ops ops e0 = (e, Inr ()) \<and> tracks cfg (Suc (unat n)) ([] @ ops) e"
    by (rule tracks_run) (use assms in simp_all)
  then show thesis using e0(1) that by auto
qed

lemma write_then_flush:
  assumes t: "tracks cfg n h e" and len: "length h + 2 < 2 ^ 30" and n: "n \<le> 2 ^ 62" and auto: "\<not> cfg_auto_compaction cfg"
  obtains e' where "run_ops [op, Flush] e = (e', Inr ())" "tracks cfg n (h @ [op, Flush]) e'" "mem_records e' = {}"
proof -
  have len1: "length h < 2 ^ 30" "length (h @ [op]) < 2 ^ 30" using len by simp_all
  obtain a where a: "exec_op op e = (a, Inr ())" "tracks cfg n (h @ [op]) a"
    by (rule tracks_step [OF t len1(1) n])
  have inv: "engine_inv a" using a(2) by (simp add: tracks_def)
  obtain b where b: "flush_active a = (b, Inr ())" "mem_records b = {}"
    using flush_active_run [OF inv tracks_small [OF a(2) len1(2) n]] by metis
  obtain b' where "exec_op Flush a = (b', Inr ())" "tracks cfg n ((h @ [op]) @ [Flush]) b'"
    by (rule tracks_step [OF a(2) len1(2) n])
  then show thesis using that [of b] a(1) b by (simp add: sbind_def sreturn_def)
qed

text \<open>What the invariant says of any lookup and scan.\<close>

definition asks :: "vertex_id \<Rightarrow> edge_type option \<Rightarrow> edge_key \<Rightarrow> bool" where
  "asks src edge_type k \<longleftrightarrow> fst k = src \<and> (edge_type = None \<or> edge_type = Some (of_int (fst (snd k))))"

lemma asks_record: "asks src edge_type (edge_key r) \<longleftrightarrow> e_src r = src \<and> of_type edge_type r"
  by (simp add: asks_def edge_key_def of_type_def)

definition lookup_gives ::
  "engine \<Rightarrow> vertex_id \<Rightarrow> edge_type option \<Rightarrow> snapshot_id \<Rightarrow> edge_key set \<Rightarrow> bool"
where
  "lookup_gives e src edge_type snap E \<longleftrightarrow>
     (\<exists>e' out. get_neighbors_typed_internal src edge_type snap e = (e', Inr out) \<and>
        edge_key ` set out = {k \<in> E. asks src edge_type k} \<and> sorted_wrt (<) (map edge_key out))"

lemma lookup_view: "engine_inv e \<Longrightarrow> lookup_gives e src edge_type snap (view e snap)"
proof -
  assume inv: "engine_inv e"
  obtain c out where l: "get_neighbors_typed_internal src edge_type snap e = (e\<lparr>en_cache := c\<rparr>, Inr out)"
    "engine_inv (e\<lparr>en_cache := c\<rparr>)" "records (e\<lparr>en_cache := c\<rparr>) = records e"
    "set out = {r \<in> latest (records e) snap. e_marker r = Insert \<and> e_src r = src \<and> of_type edge_type r}"
    "sorted_wrt (<) (map edge_key out)"
    by (rule lookup_run [OF inv])
  have "edge_key ` set out = {k \<in> view e snap. asks src edge_type k}"
    unfolding l(4) view_def by (auto simp: asks_record)
  then show ?thesis unfolding lookup_gives_def using l(1,5) by blast
qed

definition scan_gives :: "engine \<Rightarrow> snapshot_id \<Rightarrow> edge_key set \<Rightarrow> bool" where
  "scan_gives e snap E \<longleftrightarrow>
     (\<exists>out. scan_edges snap e = Inr out \<and> edge_key ` set out = E \<and> sorted_wrt (<) (map edge_key out))"

lemma scan_view: "engine_inv e \<Longrightarrow> scan_gives e snap (view e snap)"
proof -
  assume inv: "engine_inv e"
  obtain out where "scan_edges snap e = Inr out"
    "set out = {r \<in> latest (records e) snap. e_marker r = Insert}" "sorted_wrt (<) (map edge_key out)"
    by (rule scan_run [OF inv])
  then show ?thesis by (simp add: scan_gives_def view_def)
qed

subsection \<open>Properties\<close>

text \<open>C1. Any run of inserts, deletes, flushes (awaited or in the background), compactions and
  lookups on a created engine succeeds, and a lookup at any snapshot not before the last
  compaction then gives exactly the edges left by the inserts and deletes up to that snapshot.\<close>

theorem engine_refines_edge_set:
  assumes "length ops < 2 ^ 30" "unat n < 2 ^ 62"
  shows "\<exists>e0 e. engine_create cfg n disk = (e0, Inr ()) \<and> run_ops ops e0 = (e, Inr ()) \<and>
    unat (current_snapshot e) = length (writes ops) \<and>
    (\<forall>src edge_type snap. stable_from cfg ops \<le> unat snap \<longrightarrow>
       lookup_gives e src edge_type snap (edges_after (take (unat snap) (writes ops))))"
proof -
  obtain e0 e where r: "engine_create cfg n disk = (e0, Inr ())" "run_ops ops e0 = (e, Inr ())"
    and t: "tracks cfg (Suc (unat n)) ops e"
    by (rule created_run [OF assms])
  then show ?thesis
    using lookup_view [of e] unfolding tracks_def current_snapshot_def by metis
qed

theorem engine_refines_edge_set_witness:
  "\<exists>e0 e. engine_create (config_new ''db'') 1 (\<lambda>_. None, None) = (e0, Inr ()) \<and>
    run_ops [Put 1 2 3, Flush, Compact, Put 1 5 3, Remove 1 2 3] e0 = (e, Inr ()) \<and>
    lookup_gives e 1 None 3 {(1, 3, 5)} \<and> lookup_gives e 1 (Some 3) 2 {(1, 3, 2), (1, 3, 5)} \<and>
    lookup_gives e 1 None 1 {(1, 3, 2)}"
proof -
  let ?ops = "[Put 1 2 3, Flush, Compact, Put 1 5 3, Remove 1 2 3]" and ?cfg = "config_new ''db''"
  obtain e0 e where r: "engine_create ?cfg 1 (\<lambda>_. None, None) = (e0, Inr ())" "run_ops ?ops e0 = (e, Inr ())"
    and l: "\<forall>src edge_type snap. stable_from ?cfg ?ops \<le> unat snap \<longrightarrow>
       lookup_gives e src edge_type snap (edges_after (take (unat snap) (writes ?ops)))"
    using engine_refines_edge_set [of ?ops 1 ?cfg "(\<lambda>_. None, None)"] by auto
  have s: "stable_from ?cfg ?ops = 1" by (simp add: stable_from_def writes_def config_new_def)
  have "edges_after (take 3 (writes ?ops)) = {(1, 3, 5)}" "edges_after (take 2 (writes ?ops)) = {(1, 3, 2), (1, 3, 5)}"
    "edges_after (take 1 (writes ?ops)) = {(1, 3, 2)}"
    by (auto simp: edges_after_def writes_def take_Cons')
  then show ?thesis using r l [rule_format, of 3] l [rule_format, of 2] l [rule_format, of 1] s by simp
qed

text \<open>C5. A scan agrees with the lookups: at any snapshot not before the last compaction it lists each
  edge that the inserts and deletes up to the snapshot leave, once and in key order. A compaction drops
  the versions that only older snapshots would show, so nothing is claimed for those.\<close>

theorem engine_scan_history:
  assumes "length ops < 2 ^ 30" "unat n < 2 ^ 62"
  shows "\<exists>e0 e. engine_create cfg n disk = (e0, Inr ()) \<and> run_ops ops e0 = (e, Inr ()) \<and>
    (\<forall>snap. stable_from cfg ops \<le> unat snap \<longrightarrow>
       scan_gives e snap (edges_after (take (unat snap) (writes ops))))"
proof -
  obtain e0 e where r: "engine_create cfg n disk = (e0, Inr ())" "run_ops ops e0 = (e, Inr ())"
    and t: "tracks cfg (Suc (unat n)) ops e"
    by (rule created_run [OF assms])
  then show ?thesis using scan_view [of e] unfolding tracks_def by metis
qed

theorem engine_scan_history_witness:
  "\<exists>e0 e. engine_create (config_new ''db'') 1 (\<lambda>_. None, None) = (e0, Inr ()) \<and>
    run_ops [Put 1 2 3, Put 1 5 3, Remove 1 2 3, Flush] e0 = (e, Inr ()) \<and> scan_gives e 3 {(1, 3, 5)}"
proof -
  let ?ops = "[Put 1 2 3, Put 1 5 3, Remove 1 2 3, Flush]" and ?cfg = "config_new ''db''"
  obtain e0 e where r: "engine_create ?cfg 1 (\<lambda>_. None, None) = (e0, Inr ())" "run_ops ?ops e0 = (e, Inr ())"
    and l: "\<forall>snap. stable_from ?cfg ?ops \<le> unat snap \<longrightarrow>
       scan_gives e snap (edges_after (take (unat snap) (writes ?ops)))"
    using engine_scan_history [of ?ops 1 ?cfg "(\<lambda>_. None, None)"] by auto
  have s: "stable_from ?cfg ?ops = 0" by (simp add: stable_from_def writes_def config_new_def)
  have "edges_after (take 3 (writes ?ops)) = {(1, 3, 5)}"
    by (auto simp: edges_after_def writes_def take_Cons')
  then show ?thesis using r l [rule_format, of 3] s by simp
qed

text \<open>C4. The invariant (graphs well formed, files and ids where the version says, a log that
  replays to the version, a coherent cache and index, no record ahead of the clock) holds in the
  created engine and after every run.\<close>

theorem engine_invariant:
  assumes "length ops < 2 ^ 30" "unat n < 2 ^ 62"
  shows "\<exists>e0 e. engine_create cfg n disk = (e0, Inr ()) \<and> engine_inv e0 \<and>
    run_ops ops e0 = (e, Inr ()) \<and> engine_inv e"
proof -
  obtain e0 e1 where "engine_create cfg n disk = (e0, Inr ())" "run_ops [] e0 = (e1, Inr ())"
    "tracks cfg (Suc (unat n)) [] e1"
    by (rule created_run [of "[]" n]) (use assms in simp_all)
  then have e0: "engine_create cfg n disk = (e0, Inr ())" "engine_inv e0" by (simp_all add: sreturn_def tracks_def)
  obtain e2 e where "engine_create cfg n disk = (e2, Inr ())" "run_ops ops e2 = (e, Inr ())"
    "tracks cfg (Suc (unat n)) ops e"
    by (rule created_run [OF assms])
  then show ?thesis using e0 by (auto simp: tracks_def)
qed

theorem engine_invariant_witness:
  "\<exists>e0 e. engine_create (config_new ''db'') 1 (\<lambda>_. None, None) = (e0, Inr ()) \<and> engine_inv e0 \<and>
    run_ops [Put 1 2 3, Background 0, Flush, Compact] e0 = (e, Inr ()) \<and> engine_inv e"
  using engine_invariant [of "[Put 1 2 3, Background 0, Flush, Compact]" 1 "config_new ''db''" "(\<lambda>_. None, None)"]
  by simp

text \<open>C2. Everything written before a flush survives: opening the store again after it shows the
  same edges as before, at any snapshot not before the flush.\<close>

theorem flush_then_open:
  assumes "engine_inv e" "small e" "unat n + 1 < 2 ^ 64"
  shows "\<exists>e1 e2. flush_active e = (e1, Inr ()) \<and>
    engine_open (en_config e1) n (en_fs e1, en_manifest e1) = (e2, Inr ()) \<and> engine_inv e2 \<and>
    (\<forall>snap. current_snapshot e \<le> snap \<longrightarrow> scan_gives e snap (view e snap) \<and> scan_gives e2 snap (view e snap))"
proof -
  obtain e1 where e1: "flush_active e = (e1, Inr ())" "same_now e e1" "mem_records e1 = {}"
    "\<not> cfg_auto_compaction (en_config e) \<longrightarrow> records e1 = records e"
    by (rule flush_active_run [OF assms(1,2)])
  have inv1: "engine_inv e1" using e1(2) by (simp add: same_now_def)
  obtain e2 where e2: "engine_open (en_config e1) n (en_fs e1, en_manifest e1) = (e2, Inr ())" "engine_inv e2"
    "records e2 = disk_records e1" "mem_records e2 = {}" "en_config e2 = en_config e1"
    "spent e2 \<le> max 1 (unat (en_next_file_id e1))" "en_next_graph e2 = n + 1"
    by (rule engine_open_run [OF inv1 assms(3)])
  have "records e2 = records e1" using e2(3) e1(3) by (simp add: records_def)
  then have "view e2 snap = view e snap" if "en_ts e \<le> snap" for snap
    using view_same [OF e1(2) that] by (simp add: view_def)
  then show ?thesis
    using e1(1) e2(1,2) scan_view [OF assms(1)] scan_view [OF e2(2)] unfolding current_snapshot_def by metis
qed

theorem flush_then_open_witness:
  "\<exists>e e1 e2. run_ops [Put 1 2 3, Put 4 5 6] (fst (engine_create (config_new ''db'') 1 (\<lambda>_. None, None))) = (e, Inr ()) \<and>
    flush_active e = (e1, Inr ()) \<and> engine_open (en_config e1) 9 (en_fs e1, en_manifest e1) = (e2, Inr ()) \<and>
    scan_gives e2 2 {(1, 3, 2), (4, 6, 5)}"
proof -
  let ?ops = "[Put 1 2 3, Put 4 5 6]"
  obtain e0 e where r: "engine_create (config_new ''db'') 1 (\<lambda>_. None, None) = (e0, Inr ())"
    "run_ops ?ops e0 = (e, Inr ())" and t: "tracks (config_new ''db'') (Suc (unat 1)) ?ops e"
    by (rule created_run [of ?ops 1]) simp_all
  have small: "small e" by (rule tracks_small [OF t]) simp_all
  have w: "writes ?ops = ?ops" by (simp add: writes_def)
  have "stable_from (config_new ''db'') ?ops = 0" by (simp add: stable_from_def writes_def config_new_def)
  moreover have "edges_after ?ops = {(1, 3, 2), (4, 6, 5)}" by (auto simp: edges_after_def)
  ultimately have v: "engine_inv e" "unat (en_ts e) = 2" "view e 2 = {(1, 3, 2), (4, 6, 5)}"
    using t by (simp_all add: tracks_def w)
  then have "current_snapshot e \<le> 2" by (simp add: current_snapshot_def word_le_nat_alt)
  then show ?thesis using flush_then_open [OF v(1) small, of 9] r v(3) by auto
qed

text \<open>C3. A compaction of level 0, of a partition or of a range answers every lookup at the present
  or a later snapshot as before it.\<close>

theorem compaction_transparent:
  assumes "engine_inv e" "small e" "current_snapshot e \<le> snap"
  shows "lookup_gives e src edge_type snap (view e snap) \<and>
    (\<exists>e' r. compact_l0_to_l1 e = (e', Inr r) \<and> engine_inv e' \<and>
      lookup_gives e' src edge_type snap (view e snap)) \<and>
    (\<exists>e' r. compact_l0_target_to_l1 target e = (e', Inr r) \<and> engine_inv e' \<and>
      lookup_gives e' src edge_type snap (view e snap))"
proof -
  have ts: "en_ts e \<le> snap" using assms(3) by (simp add: current_snapshot_def)
  have after: "engine_inv e' \<and> lookup_gives e' src edge_type snap (view e snap)" if "same_now e e'" for e'
    using that view_same [OF that ts] lookup_view [of e' src edge_type snap] by (simp add: same_now_def)
  obtain e1 r1 where c1: "compact_l0_to_l1_inner True e = (e1, Inr r1)" "same_now e e1"
    by (rule compact_full_op [OF assms(1,2)])
  obtain e2 r2 where c2: "compact_l0_target_to_l1 target e = (e2, Inr r2)" "same_now e e2"
    by (rule compact_target_op [OF assms(1,2)])
  show ?thesis
    using c1(1) after [OF c1(2)] c2(1) after [OF c2(2)] lookup_view [OF assms(1)]
    unfolding compact_l0_to_l1_def by blast
qed

theorem compaction_transparent_witness:
  "\<exists>e e' r. run_ops [Put 1 2 3, Flush, Remove 1 2 3, Put 1 7 3, Flush] (fst (engine_create (config_new ''db'') 1 (\<lambda>_. None, None))) = (e, Inr ()) \<and>
    compact_l0_to_l1 e = (e', Inr r) \<and> lookup_gives e' 1 None 3 {(1, 3, 7)}"
proof -
  let ?ops = "[Put 1 2 3, Flush, Remove 1 2 3, Put 1 7 3, Flush]"
  obtain e0 e where r: "engine_create (config_new ''db'') 1 (\<lambda>_. None, None) = (e0, Inr ())"
    "run_ops ?ops e0 = (e, Inr ())" and t: "tracks (config_new ''db'') (Suc (unat 1)) ?ops e"
    by (rule created_run [of ?ops 1]) simp_all
  have small: "small e" by (rule tracks_small [OF t]) simp_all
  have w: "writes ?ops = [Put 1 2 3, Remove 1 2 3, Put 1 7 3]" by (simp add: writes_def)
  have "stable_from (config_new ''db'') ?ops = 0" by (simp add: stable_from_def writes_def config_new_def)
  moreover have "edges_after [Put 1 2 3, Remove 1 2 3, Put 1 7 3] = {(1, 3, 7)}" by (auto simp: edges_after_def)
  ultimately have v: "engine_inv e" "unat (en_ts e) = 3" "view e 3 = {(1, 3, 7)}"
    using t by (simp_all add: tracks_def w)
  then have "current_snapshot e \<le> 3" by (simp add: current_snapshot_def word_le_nat_alt)
  from compaction_transparent [OF v(1) small this, of 1 None
      "\<lparr>t_src_label = 0, t_edge_type = None, t_min_src = None, t_max_src = None\<rparr>"]
  obtain e' r' where "compact_l0_to_l1 e = (e', Inr r')" "lookup_gives e' 1 None 3 {(1, 3, 7)}"
    unfolding v(3) by blast
  moreover have "run_ops ?ops (fst (engine_create (config_new ''db'') 1 (\<lambda>_. None, None))) = (e, Inr ())"
    using r by simp
  ultimately show ?thesis by blast
qed

end
