(* ===== verification/Delta_View.thy ===== *)
theory Delta_View
  imports Base_Built Engine_Spec
begin

section \<open>A base graph with a delta\<close>

text \<open>
  \<^verbatim>\<open>src/delta/mod.rs\<close> and \<^verbatim>\<open>src/dynamic_view/mod.rs\<close>: an engine under the store's
  \<^verbatim>\<open>delta\<close> directory, and the view that lists the neighbours of a vertex in the base graph and in the
  delta. Whether a directory exists is asked of the operating system, a parameter.
\<close>

subsection \<open>The delta\<close>

record delta_graph =
  dg_dir :: string
  dg_engine :: engine

definition delta_create ::
  "string \<Rightarrow> io_backend_kind \<Rightarrow> nat \<Rightarrow> u64 \<Rightarrow> file_system \<times> manifest_record list option \<Rightarrow> engine \<times> delta_graph res"
where
  "delta_create store_dir backend memgraph_bytes n disk =
     (let dir = join_path store_dir ''delta'';
          (e, r) = engine_create (with_memgraph_capacity memgraph_bytes (with_io_backend backend (config_new dir))) n disk
      in (e, rbind r (\<lambda>_. Inr \<lparr>dg_dir = dir, dg_engine = e\<rparr>)))"

definition delta_open ::
  "string \<Rightarrow> io_backend_kind \<Rightarrow> u64 \<Rightarrow> file_system \<times> manifest_record list option \<Rightarrow> engine \<times> delta_graph res"
where
  "delta_open store_dir backend n disk =
     (let dir = join_path store_dir ''delta'';
          (e, r) = engine_open (with_io_backend backend (config_new dir)) n disk
      in (e, rbind r (\<lambda>_. Inr \<lparr>dg_dir = dir, dg_engine = e\<rparr>)))"

definition on_engine :: "(engine, 'a) st \<Rightarrow> (delta_graph, 'a) st" where
  "on_engine m d = (let (e, r) = m (dg_engine d) in (d\<lparr>dg_engine := e\<rparr>, r))"

definition delta_current_snapshot :: "delta_graph \<Rightarrow> snapshot_id" where
  "delta_current_snapshot d = current_snapshot (dg_engine d)"

definition delta_insert_edge :: "vertex_id \<Rightarrow> vertex_id \<Rightarrow> edge_type \<Rightarrow> (delta_graph, snapshot_id) st" where
  "delta_insert_edge src dst edge_type = on_engine (insert_edge src dst edge_type)"

definition delta_delete_edge :: "vertex_id \<Rightarrow> vertex_id \<Rightarrow> edge_type \<Rightarrow> (delta_graph, snapshot_id) st" where
  "delta_delete_edge src dst edge_type = on_engine (delete_edge src dst edge_type)"

definition delta_get_neighbors ::
  "vertex_id \<Rightarrow> edge_type option \<Rightarrow> snapshot_id \<Rightarrow> (delta_graph, edge_record list) st"
where
  "delta_get_neighbors src edge_type snapshot =
     on_engine (case edge_type of
       Some edge_type \<Rightarrow> get_neighbors_typed src edge_type snapshot
     | None \<Rightarrow> engine_get_neighbors src snapshot)"

definition delta_flush :: "(delta_graph, unit) st" where
  "delta_flush = on_engine flush_active"

subsection \<open>The view\<close>

record dynamic_view =
  dv_store_dir :: string
  dv_base :: "base_graph option"
  dv_delta :: "delta_graph option"

definition dynamic_view_open ::
  "(string \<Rightarrow> bool) \<Rightarrow> (bytes \<Rightarrow> base_graph_catalog res) \<Rightarrow> string \<Rightarrow> io_config \<Rightarrow> io_backend_kind \<Rightarrow> u64
    \<Rightarrow> file_system \<times> manifest_record list option \<Rightarrow> dynamic_view res"
where
  "dynamic_view_open dir_exists parse store_dir base_io backend n disk =
     (let base_dir = join_path store_dir ''base_graph''
      in rbind (case fst disk (join_path base_dir ''catalog.json'') of
           Some _ \<Rightarrow> rbind (base_open parse base_dir base_io (fst disk)) (\<lambda>g. Inr (Some g))
         | None \<Rightarrow> Inr None) (\<lambda>base.
         rbind (if dir_exists (join_path store_dir ''delta'')
           then rbind (snd (delta_open store_dir backend n disk)) (\<lambda>d. Inr (Some d)) else Inr None) (\<lambda>delta.
         Inr \<lparr>dv_store_dir = store_dir, dv_base = base, dv_delta = delta\<rparr>)))"

definition view_read_context :: "dynamic_view \<Rightarrow> nat \<Rightarrow> read_context option" where
  "view_read_context v worker_id = map_option (\<lambda>base. new_read_context base worker_id) (dv_base v)"

definition scan_base ::
  "dynamic_view \<Rightarrow> string option \<Rightarrow> u32 option \<Rightarrow> (u64 \<Rightarrow> 's \<Rightarrow> 's res) \<Rightarrow> file_system \<Rightarrow> read_context option \<Rightarrow> 's
    \<Rightarrow> (read_context option \<times> 's) res"
where
  "scan_base v base_csr base_src f fs ctx s =
     (case (dv_base v, base_csr, base_src, ctx) of
        (Some base, Some csr, Some src, Some read_ctx) \<Rightarrow>
          rbind (scan_csr base csr src (rfold (\<lambda>dst. f (ucast dst))) fs read_ctx s) (\<lambda>(read_ctx, s). Inr (Some read_ctx, s))
      | _ \<Rightarrow> Inr (ctx, s))"

definition scan_neighbors ::
  "string option \<Rightarrow> u32 option \<Rightarrow> vertex_id \<Rightarrow> edge_type option \<Rightarrow> snapshot_id \<Rightarrow> (u64 \<Rightarrow> 's \<Rightarrow> 's res) \<Rightarrow> file_system
    \<Rightarrow> read_context option \<Rightarrow> 's \<Rightarrow> (dynamic_view, read_context option \<times> 's) st"
where
  "scan_neighbors base_csr base_src delta_src delta_edge_type snapshot f fs ctx s v =
     (case scan_base v base_csr base_src f fs ctx s of
        Inl e \<Rightarrow> (v, Inl e)
      | Inr (ctx, s) \<Rightarrow>
          (case dv_delta v of
             None \<Rightarrow> (v, Inr (ctx, s))
           | Some delta \<Rightarrow>
               let (delta, r) = delta_get_neighbors delta_src delta_edge_type snapshot delta
               in (v\<lparr>dv_delta := Some delta\<rparr>,
                   rbind r (\<lambda>edges. rbind (rfold (\<lambda>edge. f (e_dst edge)) edges s) (\<lambda>s. Inr (ctx, s))))))"

definition view_neighbors_vec ::
  "string option \<Rightarrow> u32 option \<Rightarrow> vertex_id \<Rightarrow> edge_type option \<Rightarrow> snapshot_id \<Rightarrow> file_system \<Rightarrow> (dynamic_view, u64 list) st"
where
  "view_neighbors_vec base_csr base_src delta_src delta_edge_type snapshot fs v =
     sbind (scan_neighbors base_csr base_src delta_src delta_edge_type snapshot (\<lambda>dst out. Inr (out @ [dst])) fs
       (view_read_context v 0) []) (\<lambda>(ctx, out). sreturn (remdups_adj (sort out))) v"

definition merge_delta_records :: "edge_record list \<Rightarrow> vertex_id list" where
  "merge_delta_records rs = map e_dst rs"

subsection \<open>What the view lists\<close>

lemma rfold_push: "rfold (\<lambda>x out. Inr (out @ [h x])) xs out = Inr (out @ map h xs)"
  by (induction xs arbitrary: out) auto

lemma scan_loop_push:
  "scan_loop (rfold (\<lambda>x out. Inr (out @ [h x]))) bs k pos stop ctx (map h out) =
   rbind (scan_loop (\<lambda>chunk out. Inr (out @ chunk)) bs k pos stop ctx out) (\<lambda>(ctx, out). Inr (ctx, map h out))"
proof (induction "\<lambda>chunk out. Inr (out @ chunk) :: u32 list res" bs k pos stop ctx out rule: scan_loop.induct)
  case (1 bs k pos stop ctx out)
  show ?case
  proof (cases "pos < stop \<and> 0 < k")
    case True
    show ?thesis
    proof (cases "read_exact (pos * 4) (min k (stop - pos) * 4) bs")
      case (Inl e)
      then show ?thesis using True by (simp add: scan_loop.simps [of _ _ _ pos] Let_def)
    next
      case (Inr raw)
      then show ?thesis using True 1 [OF True refl Inr refl refl]
        by (simp add: scan_loop.simps [of _ _ _ pos] Let_def rfold_push)
    qed
  next
    case False
    then show ?thesis by (simp add: scan_loop.simps [of _ _ _ pos] del: de_Morgan_conj)
  qed
qed

lemma scan_csr_push:
  "scan_csr g name src (rfold (\<lambda>x out. Inr (out @ [h x]))) fs ctx [] =
   rbind (scan_csr g name src (\<lambda>chunk out. Inr (out @ chunk)) fs ctx []) (\<lambda>(ctx, out). Inr (ctx, map h out))"
  using scan_loop_push [of h _ _ _ _ _ "[]"]
  by (auto simp: scan_csr_def scan_chunks_def split: option.splits)

lemma distinct_remdups_adj_sorted: "sorted (xs :: u64 list) \<Longrightarrow> distinct (remdups_adj xs)"
  by (induction xs rule: remdups_adj.induct) (auto dest: order.antisym)

lemma remdups_adj_sort: "remdups_adj (sort xs) = sorted_list_of_set (set xs)"
  for xs :: "u64 list"
  by (rule sorted_distinct_set_unique) (simp_all add: sorted_remdups_adj distinct_remdups_adj_sorted)

text \<open>C32. The view over a base graph and a delta lists, in increasing order and each once, the
  destinations of the base row and those of the edges of the delta at the snapshot. The delta answers
  for its own edges only: deleting an edge there hides nothing of the base graph.\<close>

theorem view_lists_union:
  assumes "dv_base v = Some g" "graph_row g csr src fs (new_read_context g 0) = Inr row"
    and "dv_delta v = Some d" "engine_inv (dg_engine d)"
  shows "\<exists>v'. view_neighbors_vec (Some csr) (Some src) delta_src edge_type snapshot fs v =
    (v', Inr (sorted_list_of_set (ucast ` set row \<union>
       {dst. \<exists>t. (delta_src, t, dst) \<in> view (dg_engine d) snapshot \<and> (edge_type = None \<or> edge_type = Some (of_int t))})))"
proof -
  have lookup: "(case edge_type of Some t \<Rightarrow> get_neighbors_typed delta_src t snapshot | None \<Rightarrow> engine_get_neighbors delta_src snapshot) =
      get_neighbors_typed_internal delta_src edge_type snapshot"
    by (simp add: get_neighbors_typed_def engine_get_neighbors_def split: option.splits)
  obtain e' out where out: "get_neighbors_typed_internal delta_src edge_type snapshot (dg_engine d) = (e', Inr out)"
    "edge_key ` set out = {k \<in> view (dg_engine d) snapshot. asks delta_src edge_type k}"
    using lookup_view [OF assms(4)] unfolding lookup_gives_def by blast
  have "e_dst ` set out = (\<lambda>k. snd (snd k)) ` edge_key ` set out"
    by (simp add: edge_key_def image_image)
  then have dsts: "e_dst ` set out =
      {dst. \<exists>t. (delta_src, t, dst) \<in> view (dg_engine d) snapshot \<and> (edge_type = None \<or> edge_type = Some (of_int t))}"
    unfolding out(2) by (force simp: asks_def)
  obtain ctx' where "scan_csr g csr src (\<lambda>chunk out. Inr (out @ chunk)) fs (new_read_context g 0) [] = Inr (ctx', row)"
    using assms(2) by (auto simp: graph_row_def rbind_Inr_iff)
  then have base: "scan_base v (Some csr) (Some src) (\<lambda>dst out. Inr (out @ [dst])) fs (view_read_context v 0) [] =
      Inr (Some ctx', map ucast row)"
    using scan_csr_push [of g csr src "ucast :: u32 \<Rightarrow> u64" fs "new_read_context g 0"]
    by (simp add: scan_base_def view_read_context_def assms(1))
  show ?thesis
    by (simp add: view_neighbors_vec_def scan_neighbors_def base assms(3) delta_get_neighbors_def lookup on_engine_def out(1)
        rfold_push sbind_def sreturn_def remdups_adj_sort dsts)
qed

lemma view_lists_union_witness:
  "\<exists>v v' fs. dv_base v \<noteq> None \<and> dv_delta v \<noteq> None \<and>
     view_neighbors_vec (Some ''LIKES/OUT'') (Some 1) 9 (Some 7) 3 fs v = (v', Inr [2, 3, 5])"
proof -
  let ?ops = "[Put 9 3 7, Put 9 2 7, Remove 9 5 7]" and ?es = "[(1, 5), (1, 2)] :: (u32 \<times> u32) list"
  let ?entry = "entry_written ''LIKES/OUT'' ''likes'' [] [] 2 2"
  obtain e0 e where "run_ops ?ops e0 = (e, Inr ())" and t: "tracks (config_new ''db'') (Suc (unat 1)) ?ops e"
    by (rule created_run [of ?ops 1]) simp_all
  have w: "writes ?ops = ?ops" by (simp add: writes_def)
  have "stable_from (config_new ''db'') ?ops = 0" by (simp add: stable_from_def writes_def config_new_def)
  moreover have "edges_after ?ops = {(9, 7, 3), (9, 7, 2)}" by (auto simp: edges_after_def)
  ultimately have e: "engine_inv e" "view e 3 = {(9, 7, 3), (9, 7, 2)}"
    using t by (simp_all add: tracks_def w)
  define fs where "fs = fst (write_csr (\<lambda>_ _ _. []) (join_path ''b'' ''likes'') 2 ?es DstId (\<lambda>_. None))"
  have files: "fs (join_path (join_path ''b'' (ce_path ?entry)) ''offsets.bin'') = Some (concat (map u64_le (add_up (count_sources 2 (sort ?es)))))"
    "fs (join_path (join_path ''b'' (ce_path ?entry)) ''neighbors.bin'') = Some (concat (map u32_le (map snd (sort ?es))))"
    by (simp_all only: fs_def write_csr_files) (simp_all add: join_path_def entry_written_def)
  have len: "length ?es < 2 ^ 64" by simp
  obtain c where c: "\<forall>src ctx. \<exists>ctx'. csr_neighbors_vec c src fs ctx =
      Inr (ctx', if unat src < 2 then sort (map snd (filter (\<lambda>e. fst e = src) ?es)) else [])"
    using csr_written [OF len files] by blast
  define g where "g = \<lparr>bg_base_dir = ''b'', bg_catalog = catalog_new [], bg_io_config = io_config_default, bg_csr = [(''LIKES/OUT'', c)],
      bg_single_u32 = [], bg_comment_parent_kind = []\<rparr>"
  obtain ctx' where "csr_neighbors_vec c 1 fs (new_read_context g 0) = Inr (ctx', [2, 5])"
    using c [rule_format, of 1 "new_read_context g 0"] by auto
  then have row: "graph_row g ''LIKES/OUT'' 1 fs (new_read_context g 0) = Inr [2, 5]"
    by (simp add: graph_row_def scan_csr_def g_def bt_get_def csr_neighbors_vec_def)
  define v where "v = \<lparr>dv_store_dir = [], dv_base = Some g, dv_delta = Some \<lparr>dg_dir = [], dg_engine = e\<rparr>\<rparr>"
  have v: "dv_base v = Some g" "dv_delta v = Some \<lparr>dg_dir = [], dg_engine = e\<rparr>" by (simp_all add: v_def)
  obtain v' where v': "view_neighbors_vec (Some ''LIKES/OUT'') (Some 1) 9 (Some 7) 3 fs v =
    (v', Inr (sorted_list_of_set (ucast ` set [2, 5 :: u32] \<union>
       {dst. \<exists>t. (9, t, dst) \<in> view e 3 \<and> (Some (7 :: edge_type) = None \<or> Some (7 :: edge_type) = Some (of_int t))})))"
    using view_lists_union [OF v(1) row v(2), of 9 "Some 7" 3] e(1) by auto
  have "(\<exists>t. (9 :: vertex_id, t, dst) \<in> {(9, 7, 3), (9, 7, 2)} \<and> P t) \<longleftrightarrow> P 7 \<and> dst \<in> {2, 3}" for dst :: u64 and P :: "int \<Rightarrow> bool"
    by auto
  then have "{dst. \<exists>t. (9, t, dst) \<in> view e 3 \<and> (Some (7 :: edge_type) = None \<or> Some (7 :: edge_type) = Some (of_int t))} = {2, 3}"
    unfolding e(2) by (simp only:) auto
  then have "ucast ` set [2, 5 :: u32] \<union>
      {dst. \<exists>t. (9, t, dst) \<in> view e 3 \<and> (Some (7 :: edge_type) = None \<or> Some (7 :: edge_type) = Some (of_int t))} = {2, 3, 5 :: u64}"
    by (simp only:) auto
  then have "view_neighbors_vec (Some ''LIKES/OUT'') (Some 1) 9 (Some 7) 3 fs v = (v', Inr [2, 3, 5])" using v' by simp
  then show ?thesis using v by auto
qed

end
