(* ===== verification/Base_Roots.thy ===== *)
theory Base_Roots
  imports Base_Builder
begin

section \<open>Root posts of the comments\<close>

text \<open>
  \<^verbatim>\<open>resolve_comment_root\<close> and the loop over it against their specification: the root of a comment
  is the post at the end of its chain of parents. The recursion has no bound, so the loop ends exactly when
  every chain does.
\<close>

inductive root_of :: "u8 list \<Rightarrow> u32 list \<Rightarrow> u32 \<Rightarrow> u32 \<Rightarrow> bool" for kinds ids where
  reply_to_post: "kinds ! unat c = 0 \<Longrightarrow> root_of kinds ids c (ids ! unat c)"
| reply_to_comment: "kinds ! unat c = 1 \<Longrightarrow> root_of kinds ids (ids ! unat c) r \<Longrightarrow> root_of kinds ids c r"
| no_parent: "kinds ! unat c \<noteq> 0 \<Longrightarrow> kinds ! unat c \<noteq> 1 \<Longrightarrow> root_of kinds ids c (- 1)"

inductive_cases root_ofE: "root_of kinds ids c r"

definition well_linked :: "u8 list \<Rightarrow> u32 list \<Rightarrow> bool" where
  "well_linked kinds ids \<longleftrightarrow> length kinds = length ids \<and>
     list_all (\<lambda>(k, i). k = 1 \<longrightarrow> unat i < length ids) (zip kinds ids)"

definition memo_ok :: "u8 list \<Rightarrow> u32 list \<Rightarrow> u32 list \<Rightarrow> bool" where
  "memo_ok kinds ids memo \<longleftrightarrow> length memo = length ids \<and>
     (\<forall>c. unat c < length ids \<longrightarrow> memo ! unat c \<noteq> - 1 \<longrightarrow> root_of kinds ids c (memo ! unat c))"

lemma well_linkedD: "well_linked kinds ids \<Longrightarrow> i < length ids \<Longrightarrow> kinds ! i = 1 \<Longrightarrow> unat (ids ! i) < length ids"
  by (auto simp: well_linked_def list_all_length)

lemma root_of_unique: "root_of kinds ids c r \<Longrightarrow> root_of kinds ids c r' \<Longrightarrow> r = r'"
proof (induction arbitrary: r' rule: root_of.induct)
  case (reply_to_comment c r)
  from reply_to_comment.prems reply_to_comment.hyps show ?case
    by (auto elim!: root_ofE [of _ _ c] intro: reply_to_comment.IH)
qed (auto elim: root_ofE)

text \<open>What a call leaves in the memo, whether or not the chain was in it.\<close>

definition memo_step :: "u8 list \<Rightarrow> u32 list \<Rightarrow> u32 list \<Rightarrow> u32 list \<Rightarrow> bool" where
  "memo_step kinds ids memo memo' \<longleftrightarrow> memo_ok kinds ids memo' \<and>
     (\<forall>c. unat c < length ids \<longrightarrow> memo' ! unat c = memo ! unat c \<or> root_of kinds ids c (memo' ! unat c))"

lemma memo_step_update:
  assumes "memo_step kinds ids memo memo'" "unat c < length ids" "root_of kinds ids c r"
  shows "memo_step kinds ids memo (memo'[unat c := r])"
  using assms by (auto simp: memo_step_def memo_ok_def nth_list_update word_unat_eq_iff [symmetric])

lemma memo_step_refl: "memo_ok kinds ids memo \<Longrightarrow> memo_step kinds ids memo memo"
  by (simp add: memo_step_def)

lemma resolve_returns:
  assumes "root_of kinds ids c r" "well_linked kinds ids" "unat c < length ids" "memo_ok kinds ids memo"
  shows "\<exists>memo'. resolve_comment_root kinds ids c memo = Some (Inr (r, memo')) \<and> memo_step kinds ids memo memo' \<and>
    (memo ! unat c = - 1 \<longrightarrow> memo' ! unat c = r)"
  using assms
proof (induction rule: root_of.induct)
  case (reply_to_comment c r)
  have len: "length memo = length ids" "length kinds = length ids"
    using reply_to_comment.prems by (auto simp: memo_ok_def well_linked_def)
  show ?case
  proof (cases "memo ! unat c = - 1")
    case True
    obtain memo' where memo': "resolve_comment_root kinds ids (ids ! unat c) memo = Some (Inr (r, memo'))"
      "memo_step kinds ids memo memo'"
      using reply_to_comment.IH reply_to_comment.prems reply_to_comment.hyps(1)
        well_linkedD [of kinds ids "unat c"] by blast
    have "root_of kinds ids c r" using reply_to_comment.hyps by (rule root_of.reply_to_comment)
    with memo' have "memo_step kinds ids memo (memo'[unat c := r])"
      using reply_to_comment.prems by (intro memo_step_update)
    moreover have "resolve_comment_root kinds ids c memo = Some (Inr (r, memo'[unat c := r]))"
      using memo' len reply_to_comment True by (subst resolve_comment_root.simps) (simp add: Let_def)
    moreover have "length memo' = length ids" using memo'(2) by (simp add: memo_step_def memo_ok_def)
    ultimately show ?thesis using reply_to_comment.prems by auto
  next
    case False
    then have "root_of kinds ids c (memo ! unat c)" using reply_to_comment.prems by (simp add: memo_ok_def)
    then have "memo ! unat c = r"
      using root_of_unique root_of.reply_to_comment [OF reply_to_comment.hyps] by blast
    then show ?thesis using False len reply_to_comment.prems
      by (subst resolve_comment_root.simps) (simp add: Let_def memo_step_refl)
  qed
next
  case (reply_to_post c)
  have len: "length memo = length ids" "length kinds = length ids"
    using reply_to_post.prems by (auto simp: memo_ok_def well_linked_def)
  note root = root_of.reply_to_post [OF reply_to_post.hyps, of ids]
  show ?case
  proof (cases "memo ! unat c = - 1")
    case True
    have "memo_step kinds ids memo (memo[unat c := ids ! unat c])"
      using reply_to_post.prems root by (intro memo_step_update memo_step_refl)
    then show ?thesis using True len reply_to_post
      by (subst resolve_comment_root.simps) (simp add: Let_def)
  next
    case False
    then have "root_of kinds ids c (memo ! unat c)" using reply_to_post.prems by (simp add: memo_ok_def)
    then have "memo ! unat c = ids ! unat c" using root root_of_unique by blast
    then show ?thesis using False len reply_to_post.prems
      by (subst resolve_comment_root.simps) (simp add: Let_def memo_step_refl)
  qed
next
  case (no_parent c)
  have len: "length memo = length ids" "length kinds = length ids"
    using no_parent.prems by (auto simp: memo_ok_def well_linked_def)
  note root = root_of.no_parent [OF no_parent.hyps, of ids]
  show ?case
  proof (cases "memo ! unat c = - 1")
    case True
    have "memo_step kinds ids memo (memo[unat c := - 1])"
      using no_parent.prems root by (intro memo_step_update memo_step_refl)
    then show ?thesis using True len no_parent
      by (subst resolve_comment_root.simps) (simp add: Let_def)
  next
    case False
    then have "root_of kinds ids c (memo ! unat c)" using no_parent.prems by (simp add: memo_ok_def)
    then have "memo ! unat c = - 1" using root root_of_unique by blast
    with False show ?thesis by simp
  qed
qed

lemma resolve_correct:
  assumes ret: "resolve_comment_root kinds ids c memo = Some y"
    and "well_linked kinds ids" "unat c < length ids" "memo_ok kinds ids memo"
  shows "\<exists>r memo'. y = Inr (r, memo') \<and> root_of kinds ids c r"
proof -
  have "well_linked kinds ids \<longrightarrow> unat c < length ids \<longrightarrow> memo_ok kinds ids memo \<longrightarrow>
      (\<exists>r memo'. y = Inr (r, memo') \<and> root_of kinds ids c r)"
  proof (rule resolve_comment_root.raw_induct [where P = "\<lambda>kinds ids c memo y. well_linked kinds ids \<longrightarrow> unat c < length ids \<longrightarrow>
      memo_ok kinds ids memo \<longrightarrow> (\<exists>r memo'. y = Inr (r, memo') \<and> root_of kinds ids c r)", OF _ ret])
    fix f and kinds :: "u8 list" and ids and c :: u32 and memo and y
    assume IH: "\<And>kinds ids c memo y. f kinds ids c memo = Some y \<Longrightarrow> well_linked kinds ids \<longrightarrow> unat c < length ids \<longrightarrow>
        memo_ok kinds ids memo \<longrightarrow> (\<exists>r memo'. y = Inr (r, memo') \<and> root_of kinds ids c r)"
      and eq: "(let i = unat c
      in if length memo \<le> i then Some (Inl Slice_out_of_range)
         else if memo ! i \<noteq> - 1 then Some (Inr (memo ! i, memo))
         else if length kinds \<le> i then Some (Inl Slice_out_of_range)
         else if kinds ! i = 0 then
           (if length ids \<le> i then Some (Inl Slice_out_of_range) else Some (Inr (ids ! i, memo[i := ids ! i])))
         else if kinds ! i = 1 then
           (if length ids \<le> i then Some (Inl Slice_out_of_range)
            else Option.bind (f kinds ids (ids ! i) memo) (\<lambda>r. case r of
              Inl e \<Rightarrow> Some (Inl e)
            | Inr (root, memo) \<Rightarrow> Some (Inr (root, memo[i := root]))))
         else Some (Inr (- 1, memo[i := - 1]))) = Some y"
    show "well_linked kinds ids \<longrightarrow> unat c < length ids \<longrightarrow> memo_ok kinds ids memo \<longrightarrow>
        (\<exists>r memo'. (y :: (u32 \<times> u32 list) res) = Inr (r, memo') \<and> root_of kinds ids c r)"
    proof (intro impI)
      assume wl: "well_linked kinds ids" and c: "unat c < length ids" and ok: "memo_ok kinds ids memo"
      have len: "length memo = length ids" "length kinds = length ids"
        using wl ok by (auto simp: memo_ok_def well_linked_def)
      show "\<exists>r memo'. y = Inr (r, memo') \<and> root_of kinds ids c r"
      proof (cases "memo ! unat c \<noteq> - 1")
        case True
        then show ?thesis using eq c len ok by (auto simp: Let_def memo_ok_def)
      next
        case False
        consider "kinds ! unat c = 0" | "kinds ! unat c = 1" | "kinds ! unat c \<noteq> 0" "kinds ! unat c \<noteq> 1" by blast
        then show ?thesis
        proof cases
          case 2
          obtain z where z: "f kinds ids (ids ! unat c) memo = Some z"
            using eq c len False 2 by (auto simp: Let_def bind_eq_Some_conv)
          then obtain r memo' where "z = Inr (r, memo')" "root_of kinds ids (ids ! unat c) r"
            using IH [OF z] wl ok well_linkedD [OF wl c 2] by blast
          then show ?thesis using eq c len False 2 z by (auto simp: Let_def intro: root_of.reply_to_comment)
        qed (use eq c len False in \<open>auto simp: Let_def intro: root_of.intros\<close>)
      qed
    qed
  qed
  then show ?thesis using assms by blast
qed

lemma resolve_iff:
  assumes "well_linked kinds ids" "unat c < length ids" "memo_ok kinds ids memo"
  shows "(\<exists>y. resolve_comment_root kinds ids c memo = Some y) \<longleftrightarrow> (\<exists>r. root_of kinds ids c r)"
  using resolve_returns [OF _ assms] resolve_correct [OF _ assms] by blast

subsection \<open>The loop\<close>

lemma resolve_roots_ok:
  assumes wl: "well_linked kinds ids" and n: "length ids \<le> 2 ^ 32"
    and "set is \<subseteq> {..<length ids}" "memo_ok kinds ids memo"
    and "\<forall>i \<in> set is. \<exists>r. root_of kinds ids (of_nat i) r"
  shows "\<exists>memo'. resolve_roots kinds ids is memo = Some (Inr memo') \<and> memo_step kinds ids memo memo' \<and>
    (\<forall>i \<in> set is. root_of kinds ids (of_nat i) (memo' ! i))"
  using assms(3-)
proof (induction "is" arbitrary: memo)
  case (Cons i "is")
  have i: "unat (of_nat i :: u32) = i" "i < length ids" using Cons.prems(1) n by (auto simp: unat_of_nat)
  obtain r where r: "root_of kinds ids (of_nat i) r" using Cons.prems(3) by auto
  obtain memo1 where memo1: "resolve_comment_root kinds ids (of_nat i) memo = Some (Inr (r, memo1))"
    "memo_step kinds ids memo memo1" "memo ! i = - 1 \<longrightarrow> memo1 ! i = r"
    using resolve_returns [OF r wl _ Cons.prems(2)] i by auto
  have here: "root_of kinds ids (of_nat i) (memo1 ! i)"
  proof (cases "memo ! i = - 1")
    case True
    with memo1(3) r show ?thesis by simp
  next
    case False
    then have "root_of kinds ids (of_nat i) (memo ! i)"
      using Cons.prems(2) i unfolding memo_ok_def by metis
    then show ?thesis using memo1(2) i unfolding memo_step_def by metis
  qed
  obtain memo2 where memo2: "resolve_roots kinds ids is memo1 = Some (Inr memo2)" "memo_step kinds ids memo1 memo2"
    "\<forall>i \<in> set is. root_of kinds ids (of_nat i) (memo2 ! i)"
    using Cons.IH [of memo1] Cons.prems memo1(2) by (auto simp: memo_step_def)
  have "root_of kinds ids (of_nat i) (memo2 ! i)" using memo2(2) here i unfolding memo_step_def by metis
  moreover have "memo_step kinds ids memo memo2"
    using memo1(2) memo2(2) unfolding memo_step_def by metis
  ultimately show ?case using memo1(1) memo2 by auto
qed (simp add: memo_step_refl)

lemma resolve_roots_only_if:
  assumes wl: "well_linked kinds ids" and n: "length ids \<le> 2 ^ 32"
    and "set is \<subseteq> {..<length ids}" "memo_ok kinds ids memo" "resolve_roots kinds ids is memo = Some y"
  shows "\<forall>i \<in> set is. \<exists>r. root_of kinds ids (of_nat i) r"
  using assms(3-)
proof (induction "is" arbitrary: memo)
  case (Cons i "is")
  have i: "unat (of_nat i :: u32) < length ids" using Cons.prems(1) n by (auto simp: unat_of_nat)
  obtain z where z: "resolve_comment_root kinds ids (of_nat i) memo = Some z"
    using Cons.prems(3) by (auto simp: bind_eq_Some_conv)
  obtain r where r: "root_of kinds ids (of_nat i) r"
    using resolve_correct [OF z wl i Cons.prems(2)] by blast
  obtain memo1 where "resolve_comment_root kinds ids (of_nat i) memo = Some (Inr (r, memo1))" "memo_step kinds ids memo memo1"
    using resolve_returns [OF r wl i Cons.prems(2)] by blast
  then have "\<forall>i \<in> set is. \<exists>r. root_of kinds ids (of_nat i) r"
    using Cons.prems by (intro Cons.IH [of memo1]) (auto simp: memo_step_def)
  with r show ?case by auto
qed simp

lemma memo_ok_empty: "memo_ok kinds ids (replicate (length ids) (- 1))"
  by (simp add: memo_ok_def)

text \<open>C30. The root posts of the comments. On columns whose comment parents are comments, the loop that
  fills \<^verbatim>\<open>comment_root_post\<close> returns a column exactly when that column holds the root of every comment,
  \<^verbatim>\<open>u32::MAX\<close> where a chain ends without a post. In particular it does not return, the recursion
  having no bound, as soon as one chain of parents is cyclic.\<close>

theorem comment_roots_correct:
  assumes "well_linked kinds ids" "length ids \<le> 2 ^ 32"
  shows "resolve_roots kinds ids [0..<length ids] (replicate (length ids) (- 1)) = Some (Inr memo) \<longleftrightarrow>
    length memo = length ids \<and> (\<forall>i < length ids. root_of kinds ids (of_nat i) (memo ! i))"
proof
  assume ret: "resolve_roots kinds ids [0..<length ids] (replicate (length ids) (- 1)) = Some (Inr memo)"
  have sub: "set [0..<length ids] \<subseteq> {..<length ids}" by auto
  from resolve_roots_ok [OF assms sub memo_ok_empty resolve_roots_only_if [OF assms sub memo_ok_empty ret]] ret
  show "length memo = length ids \<and> (\<forall>i < length ids. root_of kinds ids (of_nat i) (memo ! i))"
    by (auto simp: memo_step_def memo_ok_def)
next
  assume memo: "length memo = length ids \<and> (\<forall>i < length ids. root_of kinds ids (of_nat i) (memo ! i))"
  have sub: "set [0..<length ids] \<subseteq> {..<length ids}" by auto
  obtain memo' where memo': "resolve_roots kinds ids [0..<length ids] (replicate (length ids) (- 1)) = Some (Inr memo')"
    "length memo' = length ids" "\<forall>i < length ids. root_of kinds ids (of_nat i) (memo' ! i)"
    using resolve_roots_ok [OF assms sub memo_ok_empty] memo
    by (fastforce simp: memo_step_def memo_ok_def)
  have "memo' = memo"
  proof (rule nth_equalityI)
    fix i assume "i < length memo'"
    then show "memo' ! i = memo ! i" using memo memo'(2,3) by (intro root_of_unique [of kinds ids "of_nat i"]) auto
  qed (use memo memo' in simp)
  with memo'(1) show "resolve_roots kinds ids [0..<length ids] (replicate (length ids) (- 1)) = Some (Inr memo)" by simp
qed

lemma comment_roots_correct_witness:
  "root_of [1, 1, 0] [1, 2, 7] (of_nat 0) (7 :: u32) \<and>
   \<not> (\<exists>memo. resolve_roots [1, 1] [1, 0] [0..<length [1, 0 :: u32]] (replicate (length [1, 0 :: u32]) (- 1)) = Some (Inr memo))"
proof
  have up: "length [1, 2, 7 :: u32] = 3" "[0..<3] = [0, 1, 2 :: nat]" "replicate 3 (- 1 :: u32) = [- 1, - 1, - 1]"
    by (simp_all add: upt_rec numeral_3_eq_3)
  have run: "resolve_roots [1, 1, 0] [1, 2, 7] [0, 1, 2] [- 1, - 1, - 1 :: u32] = Some (Inr [7, 7, 7])"
    by (simp add: resolve_comment_root.simps)
  have "resolve_roots [1, 1, 0] [1, 2, 7] [0..<length [1, 2, 7 :: u32]] (replicate (length [1, 2, 7 :: u32]) (- 1)) =
      Some (Inr [7, 7, 7])" unfolding up by (rule run)
  then show "root_of [1, 1, 0] [1, 2, 7] (of_nat 0) (7 :: u32)"
    using comment_roots_correct [of "[1, 1, 0]" "[1, 2, 7]" "[7, 7, 7]"] by (auto simp: well_linked_def)
  have no: "\<not> root_of [1, 1] [1, 0] c r" if "unat c < 2" for c r :: u32
  proof
    assume "root_of [1, 1] [1, 0] c r"
    then show False using that
      by (induction rule: root_of.induct) (auto simp: less_2_cases_iff split: if_splits)
  qed
  show "\<not> (\<exists>memo. resolve_roots [1, 1] [1, 0] [0..<length [1, 0 :: u32]] (replicate (length [1, 0 :: u32]) (- 1)) = Some (Inr memo))"
    using comment_roots_correct [of "[1, 1]" "[1, 0]"] no [of 0] by (auto simp: well_linked_def)
qed

end
