(* ===== verification/Snb_Graph.thy ===== *)
theory Snb_Graph
  imports Csr_Writer Std_Maps
begin

section \<open>The social network graph\<close>

text \<open>
  \<^verbatim>\<open>src/snb/props.rs\<close>: vertices with their properties, edge properties, and an adjacency index
  built from the edges of the store and kept in a cache file. \<^verbatim>\<open>i64\<close> values are integers; the
  places where the code can leave that range say so.
\<close>

subsection \<open>Vertices and edge properties\<close>

record person_props =
  pe_id :: int
  pe_first_name :: string
  pe_last_name :: string
  pe_gender :: string
  pe_birthday :: int
  pe_creation_date :: int
  pe_location_ip :: string
  pe_browser_used :: string
  pe_place :: int
  pe_language :: string
  pe_email :: string

record place_props =
  pl_id :: int
  pl_name :: string
  pl_type :: string
  pl_is_part_of :: "int option"

record org_props =
  og_id :: int
  og_type :: string
  og_name :: string
  og_place :: int

record post_props =
  po_id :: int
  po_image_file :: string
  po_creation_date :: int
  po_location_ip :: string
  po_browser_used :: string
  po_language :: string
  po_content :: string
  po_length :: int
  po_creator :: int
  po_forum_id :: int
  po_place :: int

definition content_or_image :: "post_props \<Rightarrow> string" where
  "content_or_image p = (if po_content p = [] then po_image_file p else po_content p)"

record comment_props =
  co_id :: int
  co_creation_date :: int
  co_location_ip :: string
  co_browser_used :: string
  co_content :: string
  co_length :: int
  co_creator :: int
  co_place :: int
  co_reply_of_post :: "int option"
  co_reply_of_comment :: "int option"

record forum_props =
  fo_id :: int
  fo_title :: string
  fo_creation_date :: int
  fo_moderator :: int

record tag_props =
  ta_id :: int
  ta_name :: string
  ta_has_type :: int

record tag_class_props =
  tc_id :: int
  tc_name :: string
  tc_is_subclass_of :: "int option"

datatype vertex_data =
    V_person person_props
  | V_place place_props
  | V_organisation org_props
  | V_post post_props
  | V_comment comment_props
  | V_forum forum_props
  | V_tag tag_props
  | V_tag_class tag_class_props

fun data_label :: "vertex_data \<Rightarrow> vertex_label" where
  "data_label (V_person p) = Person"
| "data_label (V_place p) = Place"
| "data_label (V_organisation p) = Organisation"
| "data_label (V_post p) = Post"
| "data_label (V_comment p) = Comment"
| "data_label (V_forum p) = Forum"
| "data_label (V_tag p) = Tag"
| "data_label (V_tag_class p) = TagClass"

fun data_external_id :: "vertex_data \<Rightarrow> int" where
  "data_external_id (V_person p) = pe_id p"
| "data_external_id (V_place p) = pl_id p"
| "data_external_id (V_organisation p) = og_id p"
| "data_external_id (V_post p) = po_id p"
| "data_external_id (V_comment p) = co_id p"
| "data_external_id (V_forum p) = fo_id p"
| "data_external_id (V_tag p) = ta_id p"
| "data_external_id (V_tag_class p) = tc_id p"

record vertex_row =
  vr_vid :: vertex_id
  vr_data :: vertex_data

datatype edge_prop = P_empty | P_i32 i32 | P_i64 int

fun prop_as_i32 :: "edge_prop \<Rightarrow> int" where
  "prop_as_i32 (P_i32 v) = sint v"
| "prop_as_i32 (P_i64 v) = sint (of_int v :: i32)"
| "prop_as_i32 P_empty = 0"

fun prop_as_i64 :: "edge_prop \<Rightarrow> int" where
  "prop_as_i64 (P_i32 v) = sint v"
| "prop_as_i64 (P_i64 v) = v"
| "prop_as_i64 P_empty = 0"

record edge_prop_row =
  er_src :: vertex_id
  er_dst :: vertex_id
  er_type :: edge_type
  er_prop :: edge_prop

type_synonym adjacency = "(vertex_id \<times> edge_type, vertex_id list) hash_map"
type_synonym edge_props = "(vertex_id \<times> edge_type \<times> vertex_id, edge_prop) hash_map"

text \<open>Loading a file of one row per line; \<^verbatim>\<open>parse\<close> is \<^verbatim>\<open>serde_json\<close>'s reading of a line. Blank
  lines are skipped.\<close>

definition blank_line :: "string \<Rightarrow> bool" where
  "blank_line l = (\<forall>c \<in> set l. c \<in> {CHR '' '', CHR 0x09, CHR 0x0A, CHR 0x0B, CHR 0x0C, CHR 0x0D})"

definition load_vertices ::
  "(string \<Rightarrow> vertex_row res) \<Rightarrow> string list option \<Rightarrow> (vertex_id, vertex_data) hash_map res"
where
  "load_vertices parse text =
     (case text of
        None \<Rightarrow> Inl Not_found
      | Some ls \<Rightarrow>
          rfold (\<lambda>l out. rbind (parse l) (\<lambda>row. Inr (hm_insert (vr_vid row) (vr_data row) out)))
            (filter (\<lambda>l. \<not> blank_line l) ls) [])"

definition load_edge_props ::
  "(string \<Rightarrow> edge_prop_row res) \<Rightarrow> string list option \<Rightarrow> edge_props res"
where
  "load_edge_props parse text =
     (case text of
        None \<Rightarrow> Inr []
      | Some ls \<Rightarrow>
          rfold (\<lambda>l out. rbind (parse l)
              (\<lambda>row. Inr (hm_insert (er_src row, er_type row, er_dst row) (er_prop row) out)))
            (filter (\<lambda>l. \<not> blank_line l) ls) [])"

subsection \<open>Building the adjacency\<close>

record adjacency_stats =
  as_groups :: nat
  as_directed_edges :: nat
  as_visible_edges :: nat
  as_duplicate_edges_removed :: nat

record adjacency_builder =
  ab_grouped :: "(vertex_id \<times> edge_type, (vertex_id \<times> timestamp) list) hash_map"
  ab_directed_edges :: nat

definition ab_default :: adjacency_builder where
  "ab_default = \<lparr>ab_grouped = [], ab_directed_edges = 0\<rparr>"

definition group_of :: "('k, 'v list) hash_map \<Rightarrow> 'k \<Rightarrow> 'v list" where
  "group_of m k = (case hm_get m k of Some vs \<Rightarrow> vs | None \<Rightarrow> [])"

definition ab_record_edge ::
  "vertex_id \<Rightarrow> edge_type \<Rightarrow> vertex_id \<Rightarrow> timestamp \<Rightarrow> adjacency_builder \<Rightarrow> adjacency_builder"
where
  "ab_record_edge src ty dst ts b =
     b\<lparr>ab_grouped := hm_insert (src, ty) (group_of (ab_grouped b) (src, ty) @ [(dst, ts)]) (ab_grouped b),
       ab_directed_edges := ab_directed_edges b + 1\<rparr>"

definition saturating_sub :: "u64 \<Rightarrow> u64 \<Rightarrow> u64" where
  "saturating_sub a b = (if b \<le> a then a - b else 0)"

definition ab_from_adjacency :: "adjacency \<Rightarrow> timestamp \<Rightarrow> adjacency_builder" where
  "ab_from_adjacency adj max_ts =
     fold (\<lambda>((src, ty), dsts) b.
         fold (\<lambda>(i, dst). ab_record_edge src ty dst (saturating_sub max_ts (of_nat i))) (enumerate 0 dsts) b)
       adj ab_default"

fun dedup_by :: "('a \<Rightarrow> 'k) \<Rightarrow> 'a list \<Rightarrow> 'a list" where
  "dedup_by key (x # y # zs) = (if key x = key y then dedup_by key (x # zs) else x # dedup_by key (y # zs))"
| "dedup_by key xs = xs"

definition newest_per_dst :: "(vertex_id \<times> timestamp) list \<Rightarrow> (vertex_id \<times> timestamp) list" where
  "newest_per_dst dsts = dedup_by fst (sort_key (\<lambda>(d, t). (d, Reverse t)) dsts)"

definition order_group :: "(vertex_id \<times> timestamp) list \<Rightarrow> (vertex_id \<times> timestamp) list" where
  "order_group dsts = sort_key (\<lambda>(d, t). (Reverse t, d)) (newest_per_dst dsts)"

definition ab_build :: "adjacency_builder \<Rightarrow> adjacency \<times> adjacency_stats" where
  "ab_build b =
     (let (adj, visible, removed) =
        fold (\<lambda>(key, dsts) (adj, visible, removed).
            let kept = order_group dsts
            in (hm_insert key (map fst kept) adj, visible + length kept, removed + (length dsts - length kept)))
          (ab_grouped b) ([], 0, 0)
      in (adj, \<lparr>as_groups = length adj, as_directed_edges = ab_directed_edges b,
                as_visible_edges = visible, as_duplicate_edges_removed = removed\<rparr>))"

definition build_adjacency_from_edges :: "edge_record list \<Rightarrow> adjacency" where
  "build_adjacency_from_edges edges =
     fst (ab_build (fold (\<lambda>e. ab_record_edge (e_src e) (e_type e) (e_dst e) (e_ts e)) edges ab_default))"

subsection \<open>The cache file\<close>

definition ADJ_MAGIC :: bytes where
  "ADJ_MAGIC = [76, 83, 77, 65, 68, 74, 48, 49]"

definition ADJ_HEADER_LEN :: nat where "ADJ_HEADER_LEN = 32"
definition ADJ_GROUP_LEN :: nat where "ADJ_GROUP_LEN = 32"

record adjacency_write_stats =
  aw_group_count :: nat
  aw_edge_count :: nat
  aw_encoded_group_bytes :: nat
  aw_encoded_dst_bytes :: nat

definition adj_header :: "nat \<Rightarrow> nat \<Rightarrow> bytes" where
  "adj_header groups edges =
     ADJ_MAGIC @ u32_le 1 @ u32_le (of_nat ADJ_HEADER_LEN) @ u64_le (of_nat groups) @ u64_le (of_nat edges)"

definition adj_group :: "vertex_id \<times> edge_type \<times> u64 \<times> u64 \<Rightarrow> bytes" where
  "adj_group g = (case g of (src, ty, first, n) \<Rightarrow>
     u64_le src @ u32_le ty @ u32_le 0 @ u64_le first @ u64_le n)"

fun adj_groups :: "u64 \<Rightarrow> ((vertex_id \<times> edge_type) \<times> vertex_id list) list \<Rightarrow> (vertex_id \<times> edge_type \<times> u64 \<times> u64) list" where
  "adj_groups first [] = []"
| "adj_groups first (((src, ty), dsts) # gs) =
     (src, ty, first, of_nat (length dsts)) # adj_groups (first + of_nat (length dsts)) gs"

definition sorted_groups :: "adjacency \<Rightarrow> ((vertex_id \<times> edge_type) \<times> vertex_id list) list" where
  "sorted_groups adj = sort_key (\<lambda>((src, ty), _). (src, sint ty)) adj"

definition adjacency_image :: "adjacency \<Rightarrow> bytes" where
  "adjacency_image adj =
     (let groups = sorted_groups adj; total = sum_list (map (\<lambda>(_, dsts). length dsts) groups)
      in adj_header (length groups) total @
         concat (map adj_group (adj_groups 0 groups)) @
         concat (map (\<lambda>(_, dsts). concat (map u64_le dsts)) groups))"

definition write_adjacency_cache_atomic :: "string \<Rightarrow> adjacency \<Rightarrow> (file_system, adjacency_write_stats) st" where
  "write_adjacency_cache_atomic path adj =
     sbind (supdate (\<lambda>fs. fs(tmp_path path \<mapsto> adjacency_image adj))) (\<lambda>_.
     sbind (rename_blocking (tmp_path path) path) (\<lambda>_.
     sreturn \<lparr>aw_group_count = length adj,
              aw_edge_count = sum_list (map (\<lambda>(_, dsts). length dsts) adj),
              aw_encoded_group_bytes = length adj * ADJ_GROUP_LEN,
              aw_encoded_dst_bytes = sum_list (map (\<lambda>(_, dsts). length dsts) adj) * 8\<rparr>))"

definition adj_group_fields :: "bytes \<Rightarrow> vertex_id \<times> edge_type \<times> u64 \<times> u64" where
  "adj_group_fields c =
     (of_le64 (sub_list 0 8 c), of_le32 (sub_list 8 4 c), of_le64 (sub_list 16 8 c), of_le64 (sub_list 24 8 c))"

definition load_adjacency_cache :: "string \<Rightarrow> file_system \<Rightarrow> adjacency res" where
  "load_adjacency_cache path fs =
     (case fs path of
        None \<Rightarrow> Inl Not_found
      | Some f \<Rightarrow>
          rbind (read_exact 0 ADJ_HEADER_LEN f) (\<lambda>header.
          if sub_list 0 8 header \<noteq> ADJ_MAGIC then Inl (Unsupported ''adjacency cache magic'')
          else if of_le32 (sub_list 8 4 header) \<noteq> 1 then Inl (Unsupported_version (of_le32 (sub_list 8 4 header)))
          else
            let group_count = unat (of_le64 (sub_list 16 8 header));
                edge_count = unat (of_le64 (sub_list 24 8 header))
            in rbind (read_exact ADJ_HEADER_LEN (group_count * ADJ_GROUP_LEN) f) (\<lambda>group_bytes.
               rbind (read_exact (ADJ_HEADER_LEN + group_count * ADJ_GROUP_LEN) (edge_count * 8) f) (\<lambda>dsts.
               rfold (\<lambda>chunk out.
                   case adj_group_fields chunk of (src, ty, first, n) \<Rightarrow>
                     let start = unat first * 8
                     in rbind (slice start (start + unat n * 8) dsts)
                          (\<lambda>bs. Inr (hm_insert (src, ty) (map of_le64 (chunks_exact 8 bs)) out)))
                 (chunks_exact ADJ_GROUP_LEN group_bytes) []))))"

subsection \<open>The graph\<close>

record snb_graph =
  sg_snapshot :: snapshot_id
  sg_vertices :: "(vertex_id, vertex_data) hash_map"
  sg_edge_props :: edge_props
  sg_adjacency :: adjacency

definition sg_vertex :: "snb_graph \<Rightarrow> vertex_id \<Rightarrow> vertex_data option" where
  "sg_vertex g vid = hm_get (sg_vertices g) vid"

definition insert_vertex :: "vertex_data \<Rightarrow> snb_graph \<Rightarrow> snb_graph" where
  "insert_vertex d g =
     g\<lparr>sg_vertices := hm_insert (encode_vid (data_label d) (data_external_id d)) d (sg_vertices g)\<rparr>"

definition insert_edge_by_type ::
  "vertex_id \<Rightarrow> vertex_id \<Rightarrow> edge_type \<Rightarrow> edge_prop \<Rightarrow> snb_graph \<Rightarrow> snb_graph"
where
  "insert_edge_by_type src dst ty prop g =
     (let dsts = group_of (sg_adjacency g) (src, ty);
          g = g\<lparr>sg_adjacency := hm_insert (src, ty) (if dst \<in> set dsts then dsts else dsts @ [dst]) (sg_adjacency g)\<rparr>
      in if prop = P_empty then g
         else g\<lparr>sg_edge_props := hm_insert (src, ty, dst) prop (sg_edge_props g)\<rparr>)"

definition insert_edge_cached ::
  "vertex_id \<Rightarrow> vertex_id \<Rightarrow> edge_label \<Rightarrow> edge_prop \<Rightarrow> bool \<Rightarrow> snb_graph \<Rightarrow> snb_graph"
where
  "insert_edge_cached src dst label prop include_reverse g =
     (let ty = edge_label_i32 label;
          g = insert_edge_by_type src dst ty prop g
      in if include_reverse then insert_edge_by_type dst src (- ty) prop g else g)"

definition sg_person :: "snb_graph \<Rightarrow> vertex_id \<Rightarrow> person_props option" where
  "sg_person g vid = (case sg_vertex g vid of Some (V_person p) \<Rightarrow> Some p | _ \<Rightarrow> None)"

definition sg_place :: "snb_graph \<Rightarrow> vertex_id \<Rightarrow> place_props option" where
  "sg_place g vid = (case sg_vertex g vid of Some (V_place p) \<Rightarrow> Some p | _ \<Rightarrow> None)"

definition sg_organisation :: "snb_graph \<Rightarrow> vertex_id \<Rightarrow> org_props option" where
  "sg_organisation g vid = (case sg_vertex g vid of Some (V_organisation p) \<Rightarrow> Some p | _ \<Rightarrow> None)"

definition sg_post :: "snb_graph \<Rightarrow> vertex_id \<Rightarrow> post_props option" where
  "sg_post g vid = (case sg_vertex g vid of Some (V_post p) \<Rightarrow> Some p | _ \<Rightarrow> None)"

definition sg_comment :: "snb_graph \<Rightarrow> vertex_id \<Rightarrow> comment_props option" where
  "sg_comment g vid = (case sg_vertex g vid of Some (V_comment p) \<Rightarrow> Some p | _ \<Rightarrow> None)"

definition sg_forum :: "snb_graph \<Rightarrow> vertex_id \<Rightarrow> forum_props option" where
  "sg_forum g vid = (case sg_vertex g vid of Some (V_forum p) \<Rightarrow> Some p | _ \<Rightarrow> None)"

definition sg_tag :: "snb_graph \<Rightarrow> vertex_id \<Rightarrow> tag_props option" where
  "sg_tag g vid = (case sg_vertex g vid of Some (V_tag p) \<Rightarrow> Some p | _ \<Rightarrow> None)"

definition sg_tag_class :: "snb_graph \<Rightarrow> vertex_id \<Rightarrow> tag_class_props option" where
  "sg_tag_class g vid = (case sg_vertex g vid of Some (V_tag_class p) \<Rightarrow> Some p | _ \<Rightarrow> None)"

definition sg_vertex_label :: "snb_graph \<Rightarrow> vertex_id \<Rightarrow> vertex_label option" where
  "sg_vertex_label g vid = map_option data_label (sg_vertex g vid)"

definition vertices_by_label :: "snb_graph \<Rightarrow> vertex_label \<Rightarrow> vertex_id list" where
  "vertices_by_label g label = map fst (filter (\<lambda>(vid, d). data_label d = label) (sg_vertices g))"

definition place_name :: "snb_graph \<Rightarrow> vertex_id \<Rightarrow> string" where
  "place_name g vid = (case sg_place g vid of Some p \<Rightarrow> pl_name p | None \<Rightarrow> [])"

definition out_neighbors :: "snb_graph \<Rightarrow> vertex_id \<Rightarrow> edge_label \<Rightarrow> vertex_id list" where
  "out_neighbors g vid label = group_of (sg_adjacency g) (vid, edge_label_i32 label)"

definition in_neighbors :: "snb_graph \<Rightarrow> vertex_id \<Rightarrow> edge_label \<Rightarrow> vertex_id list" where
  "in_neighbors g vid label = group_of (sg_adjacency g) (vid, - edge_label_i32 label)"

definition edge_prop_by_type :: "snb_graph \<Rightarrow> vertex_id \<Rightarrow> edge_type \<Rightarrow> vertex_id \<Rightarrow> edge_prop" where
  "edge_prop_by_type g src ty dst =
     (case hm_get (sg_edge_props g) (src, ty, dst) of Some p \<Rightarrow> p | None \<Rightarrow> P_empty)"

definition out_edges_with_prop :: "snb_graph \<Rightarrow> vertex_id \<Rightarrow> edge_label \<Rightarrow> (vertex_id \<times> edge_prop) list" where
  "out_edges_with_prop g vid label =
     map (\<lambda>dst. (dst, edge_prop_by_type g vid (edge_label_i32 label) dst)) (out_neighbors g vid label)"

definition in_edges_with_prop :: "snb_graph \<Rightarrow> vertex_id \<Rightarrow> edge_label \<Rightarrow> (vertex_id \<times> edge_prop) list" where
  "in_edges_with_prop g vid label =
     map (\<lambda>src. (src, edge_prop_by_type g vid (- edge_label_i32 label) src)) (in_neighbors g vid label)"

subsection \<open>The adjacency lists the newest edges first, each once\<close>

lemma group_of_insert:
  "hm_inv m \<Longrightarrow> group_of (hm_insert k vs m) k' = (if k' = k then vs else group_of m k')"
  by (simp add: group_of_def hm.get_ins)

lemma record_edges:
  assumes "hm_inv (ab_grouped b)"
  shows "hm_inv (ab_grouped (fold (\<lambda>e. ab_record_edge (e_src e) (e_type e) (e_dst e) (e_ts e)) es b))"
    and "group_of (ab_grouped (fold (\<lambda>e. ab_record_edge (e_src e) (e_type e) (e_dst e) (e_ts e)) es b)) (src, ty) =
      group_of (ab_grouped b) (src, ty) @
      map (\<lambda>e. (e_dst e, e_ts e)) (filter (\<lambda>e. e_src e = src \<and> e_type e = ty) es)"
proof -
  have "hm_inv (ab_grouped (fold (\<lambda>e. ab_record_edge (e_src e) (e_type e) (e_dst e) (e_ts e)) es b)) \<and>
    group_of (ab_grouped (fold (\<lambda>e. ab_record_edge (e_src e) (e_type e) (e_dst e) (e_ts e)) es b)) (src, ty) =
      group_of (ab_grouped b) (src, ty) @
      map (\<lambda>e. (e_dst e, e_ts e)) (filter (\<lambda>e. e_src e = src \<and> e_type e = ty) es)"
    using assms
  proof (induction es arbitrary: b)
    case (Cons e es)
    let ?b = "ab_record_edge (e_src e) (e_type e) (e_dst e) (e_ts e) b"
    have "hm_inv (ab_grouped ?b)" using Cons.prems by (simp add: ab_record_edge_def hm.inv_ins)
    from Cons.IH [OF this] show ?case
      using Cons.prems by (auto simp: ab_record_edge_def group_of_insert)
  qed simp
  then show "hm_inv (ab_grouped (fold (\<lambda>e. ab_record_edge (e_src e) (e_type e) (e_dst e) (e_ts e)) es b))"
    and "group_of (ab_grouped (fold (\<lambda>e. ab_record_edge (e_src e) (e_type e) (e_dst e) (e_ts e)) es b)) (src, ty) =
      group_of (ab_grouped b) (src, ty) @
      map (\<lambda>e. (e_dst e, e_ts e)) (filter (\<lambda>e. e_src e = src \<and> e_type e = ty) es)" by auto
qed

lemma build_fold:
  assumes "distinct (map fst gs)" "hm_inv adj" "\<forall>k \<in> fst ` set gs. hm_get adj k = None"
  shows "hm_inv (fst (fold (\<lambda>(key, dsts) (adj, visible, removed).
            let kept = order_group dsts
            in (hm_insert key (map fst kept) adj, visible + length kept, removed + (length dsts - length kept)))
          gs (adj, v, r))) \<and>
    hm_get (fst (fold (\<lambda>(key, dsts) (adj, visible, removed).
            let kept = order_group dsts
            in (hm_insert key (map fst kept) adj, visible + length kept, removed + (length dsts - length kept)))
          gs (adj, v, r))) k =
      (case map_of gs k of Some dsts \<Rightarrow> Some (map fst (order_group dsts)) | None \<Rightarrow> hm_get adj k)"
  using assms
proof (induction gs arbitrary: adj v r)
  case (Cons g gs)
  obtain key dsts where g: "g = (key, dsts)" by (cases g)
  let ?adj = "hm_insert key (map fst (order_group dsts)) adj"
  have "hm_inv ?adj" "\<forall>k \<in> fst ` set gs. hm_get ?adj k = None"
    using Cons.prems g by (auto simp: hm.inv_ins hm.get_ins)
  moreover have "map_of gs key = None" using Cons.prems(1) g by (simp add: map_of_eq_None_iff)
  ultimately show ?case
    using Cons.IH [of ?adj "v + length (order_group dsts)" "r + (length dsts - length (order_group dsts))"]
      Cons.prems g
    by (auto simp: Let_def hm.get_ins split: option.splits)
qed simp

lemma ab_build_get:
  assumes "hm_inv (ab_grouped b)"
  shows "hm_inv (fst (ab_build b))"
    and "hm_get (fst (ab_build b)) k = map_option (\<lambda>dsts. map fst (order_group dsts)) (hm_get (ab_grouped b) k)"
  using build_fold [of "ab_grouped b" "[]" 0 0 k] assms hm.inv_empty hm.get_empty
  by (auto simp: ab_build_def hm_inv_def hm_get_def split: prod.splits option.splits)

lemma dedup_by_sorted:
  fixes xs :: "(vertex_id \<times> timestamp) list"
  assumes "sorted (map (\<lambda>(d, t). (d, Reverse t)) xs)"
  shows "set (dedup_by fst xs) = {(d, t). (d, t) \<in> set xs \<and> (\<forall>t'. (d, t') \<in> set xs \<longrightarrow> t' \<le> t)}"
    and "sorted_wrt (<) (map fst (dedup_by fst xs))"
proof -
  have "set (dedup_by fst xs) = {(d, t). (d, t) \<in> set xs \<and> (\<forall>t'. (d, t') \<in> set xs \<longrightarrow> t' \<le> t)} \<and>
    sorted_wrt (<) (map fst (dedup_by fst xs))"
    using assms
  proof (induction "fst :: vertex_id \<times> timestamp \<Rightarrow> vertex_id" xs rule: dedup_by.induct)
    case (1 x y zs)
    obtain d t where x: "x = (d, t)" by (cases x)
    obtain d' t' where y: "y = (d', t')" by (cases y)
    show ?case
    proof (cases "d = d'")
      case True
      have le: "t' \<le> t" using 1(3) x y True by simp
      have "sorted (map (\<lambda>(d, t). (d, Reverse t)) (x # zs))" using 1(3) by auto
      with 1(1) x y True have IH: "set (dedup_by fst (x # zs)) =
          {(d, t). (d, t) \<in> set (x # zs) \<and> (\<forall>t'. (d, t') \<in> set (x # zs) \<longrightarrow> t' \<le> t)}"
        "sorted_wrt (<) (map fst (dedup_by fst (x # zs)))" by simp_all
      have "{(d, t). (d, t) \<in> set (x # zs) \<and> (\<forall>t'. (d, t') \<in> set (x # zs) \<longrightarrow> t' \<le> t)} =
          {(d, t). (d, t) \<in> set (x # y # zs) \<and> (\<forall>t'. (d, t') \<in> set (x # y # zs) \<longrightarrow> t' \<le> t)}"
        using le x y True by (auto intro: antisym)
      then show ?thesis using IH x y True by simp
    next
      case False
      have all: "\<forall>(d'', t'') \<in> set (y # zs). d < d''"
        using 1(3) x y False by (auto simp: less_eq_prod_def)
      have IH: "set (dedup_by fst (y # zs)) =
          {(d, t). (d, t) \<in> set (y # zs) \<and> (\<forall>t'. (d, t') \<in> set (y # zs) \<longrightarrow> t' \<le> t)}"
        "sorted_wrt (<) (map fst (dedup_by fst (y # zs)))"
        using 1(2,3) x y False by simp_all
      have "set (dedup_by fst (x # y # zs)) = insert x (set (dedup_by fst (y # zs)))" using x y False by simp
      also have "\<dots> = {(d, t). (d, t) \<in> set (x # y # zs) \<and> (\<forall>t'. (d, t') \<in> set (x # y # zs) \<longrightarrow> t' \<le> t)}"
        unfolding IH(1) using all x by fastforce
      finally have "set (dedup_by fst (x # y # zs)) =
          {(d, t). (d, t) \<in> set (x # y # zs) \<and> (\<forall>t'. (d, t') \<in> set (x # y # zs) \<longrightarrow> t' \<le> t)}" .
      moreover have "\<forall>e \<in> set (dedup_by fst (y # zs)). d < fst e" unfolding IH(1) using all by auto
      ultimately show ?thesis using IH(2) x y False by simp
    qed
  qed auto
  then show "set (dedup_by fst xs) = {(d, t). (d, t) \<in> set xs \<and> (\<forall>t'. (d, t') \<in> set xs \<longrightarrow> t' \<le> t)}"
    and "sorted_wrt (<) (map fst (dedup_by fst xs))" by auto
qed

lemma order_group_spec:
  "set (order_group dsts) = {(d, t). (d, t) \<in> set dsts \<and> (\<forall>t'. (d, t') \<in> set dsts \<longrightarrow> t' \<le> t)}"
  "distinct (map fst (order_group dsts))"
  "sorted_wrt (\<lambda>a b. snd b \<le> snd a) (order_group dsts)"
proof -
  let ?s = "sort_key (\<lambda>(d, t). (d, Reverse t)) dsts"
  have "sorted (map (\<lambda>(d, t). (d, Reverse t)) ?s)" by simp
  note d = dedup_by_sorted [OF this]
  show "set (order_group dsts) = {(d, t). (d, t) \<in> set dsts \<and> (\<forall>t'. (d, t') \<in> set dsts \<longrightarrow> t' \<le> t)}"
    by (simp add: order_group_def newest_per_dst_def d(1))
  have "distinct (map fst (newest_per_dst dsts))"
    using d(2) by (simp add: newest_per_dst_def strict_sorted_iff)
  moreover have "mset (map fst (order_group dsts)) = mset (map fst (newest_per_dst dsts))"
    by (simp add: order_group_def)
  ultimately show "distinct (map fst (order_group dsts))" using mset_eq_imp_distinct_iff by blast
  have "sorted (map (\<lambda>(d, t). (Reverse t, d)) (order_group dsts))" by (simp add: order_group_def)
  then show "sorted_wrt (\<lambda>a b. snd b \<le> snd a) (order_group dsts)"
    unfolding sorted_map by (rule sorted_wrt_mono_rel [rotated]) (auto simp: less_eq_prod_def less_imp_le)
qed

end
