(* ===== verification/Snb_Lookup.thy ===== *)
theory Snb_Lookup
  imports Snb_Graph "HOL-Library.Monad_Syntax" "HOL-Library.List_Lexorder" "HOL-Library.Char_ord"
    "HOL-Library.Signed_Division"
begin

section \<open>The helpers of the queries\<close>

text \<open>
  The second half of \<^verbatim>\<open>src/snb/queries.rs\<close>: what the queries ask of the graph. A
  \<^verbatim>\<open>HashSet\<close> is a list without duplicates in insertion order; a loop that pushes rows is the
  list of the rows pushed. \<^verbatim>\<open>i64\<close> values are integers; where the code does arithmetic on them
  the model says what happens at the ends of the range (\<open>wrap64\<close>, \<open>sat64\<close>).
\<close>

subsection \<open>Integers and sets\<close>

definition wrap64 :: "int \<Rightarrow> int" where
  "wrap64 i = sint (of_int i :: u64)"

definition sat64 :: "int \<Rightarrow> int" where
  "sat64 i = max (- (2 ^ 63)) (min (2 ^ 63 - 1) i)"

type_synonym 'a hash_set = "'a list"

definition hs_insert :: "'a \<Rightarrow> 'a hash_set \<Rightarrow> 'a hash_set" where
  "hs_insert x s = (if x \<in> set s then s else s @ [x])"

definition hs_of_list :: "'a list \<Rightarrow> 'a hash_set" where
  "hs_of_list xs = fold hs_insert xs []"

definition first :: "'a list \<Rightarrow> 'a option" where
  "first xs = (case xs of [] \<Rightarrow> None | x # _ \<Rightarrow> Some x)"

definition unwrap_or :: "'a \<Rightarrow> 'a option \<Rightarrow> 'a" where
  "unwrap_or d x = (case x of None \<Rightarrow> d | Some y \<Rightarrow> y)"

lemma set_hs_insert [simp]: "set (hs_insert x s) = insert x (set s)"
  by (auto simp: hs_insert_def)

lemma distinct_hs_insert [simp]: "distinct (hs_insert x s) = distinct s"
  by (simp add: hs_insert_def)

lemma fold_hs_insert:
  "set (fold hs_insert xs s) = set xs \<union> set s" "distinct s \<Longrightarrow> distinct (fold hs_insert xs s)"
  by (induction xs arbitrary: s) auto

lemma set_hs_of_list [simp]: "set (hs_of_list xs) = set xs" "distinct (hs_of_list xs)"
  by (simp_all add: hs_of_list_def fold_hs_insert)

text \<open>A search that marks a vertex at every step ends: there are finitely many vertex ids.\<close>

lemma unmarked_pos: "x \<notin> set s \<Longrightarrow> 0 < card (UNIV - set s)" for x :: vertex_id
  by (auto simp: card_gt_0_iff)

lemma unmarked_less: "x \<notin> set s \<Longrightarrow> card (UNIV - set (hs_insert x s)) < card (UNIV - set s)" for x :: vertex_id
  using unmarked_pos [of x s] by (intro psubset_card_mono) auto

subsection \<open>Neighbours\<close>

definition knows_neighbors :: "snb_graph \<Rightarrow> vertex_id \<Rightarrow> vertex_id list" where
  "knows_neighbors g vid = out_neighbors g vid Knows"

definition knows_bfs_2hop :: "snb_graph \<Rightarrow> vertex_id \<Rightarrow> vertex_id hash_set" where
  "knows_bfs_2hop g start =
     (let frontier = knows_neighbors g start;
          visited = fold (\<lambda>vid s. if vid \<noteq> start then hs_insert vid s else s) frontier []
      in fold (\<lambda>vid s. fold (\<lambda>nbr s. if nbr \<noteq> start then hs_insert nbr s else s) (knows_neighbors g vid) s)
           frontier visited)"

definition knows_fof :: "snb_graph \<Rightarrow> vertex_id \<Rightarrow> vertex_id hash_set" where
  "knows_fof g start =
     (let hop1 = knows_neighbors g start; direct = hs_of_list hop1
      in fold (\<lambda>friend out. fold (\<lambda>nbr out. if nbr \<noteq> start \<and> nbr \<notin> set direct then hs_insert nbr out else out)
             (knows_neighbors g friend) out) hop1 [])"

definition has_tag_neighbors :: "snb_graph \<Rightarrow> vertex_id \<Rightarrow> vertex_id list" where
  "has_tag_neighbors g vid = out_neighbors g vid HasTag"

definition in_posts_creators :: "snb_graph \<Rightarrow> vertex_id \<Rightarrow> vertex_id list" where
  "in_posts_creators g person =
     filter (\<lambda>vid. sg_vertex_label g vid = Some Post) (in_neighbors g person HasCreator)"

definition in_messages_creators :: "snb_graph \<Rightarrow> vertex_id \<Rightarrow> vertex_id list" where
  "in_messages_creators g person =
     filter (\<lambda>vid. sg_vertex_label g vid \<in> {Some Post, Some Comment}) (in_neighbors g person HasCreator)"

definition message_creator_vid :: "snb_graph \<Rightarrow> vertex_id \<Rightarrow> vertex_id option" where
  "message_creator_vid g msg = first (out_neighbors g msg HasCreator)"

definition message_vid :: "snb_graph \<Rightarrow> int \<Rightarrow> vertex_id option" where
  "message_vid g message_id =
     (if sg_post g (encode_vid Post message_id) \<noteq> None then Some (encode_vid Post message_id)
      else if sg_comment g (encode_vid Comment message_id) \<noteq> None then Some (encode_vid Comment message_id)
      else None)"

definition message_summary :: "snb_graph \<Rightarrow> vertex_id \<Rightarrow> (int \<times> int \<times> string) option" where
  "message_summary g msg =
     (case sg_comment g msg of
        Some c \<Rightarrow> Some (co_id c, co_creation_date c, co_content c)
      | None \<Rightarrow> do { p \<leftarrow> sg_post g msg; Some (po_id p, po_creation_date p, content_or_image p) })"

function root_post_loop :: "snb_graph \<Rightarrow> vertex_id \<Rightarrow> vertex_id hash_set \<Rightarrow> vertex_id option" where
  "root_post_loop g current seen =
     (if current \<in> set seen then None
      else case first (out_neighbors g current ReplyOfPost) of
        Some post \<Rightarrow> Some post
      | None \<Rightarrow> (case first (out_neighbors g current ReplyOfComment) of
          None \<Rightarrow> None
        | Some parent \<Rightarrow> root_post_loop g parent (hs_insert current seen)))"
  by pat_completeness auto
termination
  by (relation "measure (\<lambda>(g, current, seen). card (UNIV - set seen))")
    (simp_all add: unmarked_less del: set_hs_insert)

declare root_post_loop.simps [simp del]

definition root_post_vid :: "snb_graph \<Rightarrow> vertex_id \<Rightarrow> vertex_id option" where
  "root_post_vid g msg = (if sg_post g msg \<noteq> None then Some msg else root_post_loop g msg [])"

definition message_content :: "snb_graph \<Rightarrow> vertex_id \<Rightarrow> string" where
  "message_content g msg = unwrap_or [] (map_option (\<lambda>(_, _, content). content) (message_summary g msg))"

definition person_city_name :: "snb_graph \<Rightarrow> vertex_id \<Rightarrow> string" where
  "person_city_name g person =
     unwrap_or [] (map_option (place_name g) (first (out_neighbors g person IsLocatedIn)))"

text \<open>\<^verbatim>\<open>split(';')\<close>: the pieces between the separators, the empty ones included.\<close>

fun split_on :: "char \<Rightarrow> string \<Rightarrow> string \<Rightarrow> string list" where
  "split_on sep acc [] = [acc]"
| "split_on sep acc (c # cs) = (if c = sep then acc # split_on sep [] cs else split_on sep (acc @ [c]) cs)"

definition split_list :: "string \<Rightarrow> string list" where
  "split_list s = (if s = [] then [] else split_on (CHR '';'') [] s)"

record org_json =
  oj_organization_name :: string
  oj_year :: int
  oj_place_name :: string

definition org_entries :: "snb_graph \<Rightarrow> vertex_id \<Rightarrow> edge_label \<Rightarrow> org_json list" where
  "org_entries g person label =
     (let rows = map (\<lambda>org. \<lparr>
            oj_organization_name = unwrap_or [] (map_option og_name (sg_organisation g org)),
            oj_year = prop_as_i32 (edge_prop_by_type g person (edge_label_i32 label) org),
            oj_place_name = unwrap_or [] (map_option (place_name g) (first (out_neighbors g org IsLocatedIn)))\<rparr>)
          (out_neighbors g person label)
      in if rows = [] then [\<lparr>oj_organization_name = [], oj_year = 0, oj_place_name = []\<rparr>] else rows)"

subsection \<open>Looking vertices up by name\<close>

definition find_country_vid :: "snb_graph \<Rightarrow> string \<Rightarrow> vertex_id option" where
  "find_country_vid g name =
     find (\<lambda>vid. unwrap_or False (map_option (\<lambda>p. pl_name p = name \<and> pl_type p = ''country'') (sg_place g vid)))
       (vertices_by_label g Place)"

definition find_tag_vid :: "snb_graph \<Rightarrow> string \<Rightarrow> vertex_id option" where
  "find_tag_vid g name =
     find (\<lambda>vid. unwrap_or False (map_option (\<lambda>t. ta_name t = name) (sg_tag g vid))) (vertices_by_label g Tag)"

definition find_tag_class_vid :: "snb_graph \<Rightarrow> string \<Rightarrow> vertex_id option" where
  "find_tag_class_vid g name =
     find (\<lambda>vid. unwrap_or False (map_option (\<lambda>t. tc_name t = name) (sg_tag_class g vid)))
       (vertices_by_label g TagClass)"

definition collect_xy_persons :: "snb_graph \<Rightarrow> vertex_id option \<Rightarrow> vertex_id option \<Rightarrow> vertex_id hash_set" where
  "collect_xy_persons g x y =
     hs_of_list
       (do { country \<leftarrow> (case x of None \<Rightarrow> [] | Some c \<Rightarrow> [c]) @ (case y of None \<Rightarrow> [] | Some c \<Rightarrow> [c]);
             city \<leftarrow> in_neighbors g country IsPartOf;
             filter (\<lambda>p. sg_vertex_label g p = Some Person) (in_neighbors g city IsLocatedIn) })"

definition bfs_non_xy_friends ::
  "snb_graph \<Rightarrow> vertex_id \<Rightarrow> vertex_id hash_set \<Rightarrow> vertex_id hash_set \<times> (vertex_id, int \<times> int) hash_map"
where
  "bfs_non_xy_friends g start xy =
     (let frontier = knows_neighbors g start;
          (visited, non_xy, counts) =
            fold (\<lambda>vid (visited, non_xy, counts).
                if vid \<notin> set xy
                then (hs_insert vid visited, hs_insert vid non_xy, hm_insert vid (0, 0) counts)
                else (hs_insert vid visited, non_xy, counts))
              frontier ([start], [], []);
          (visited, non_xy, counts) =
            fold (\<lambda>vid. fold (\<lambda>nbr (visited, non_xy, counts).
                if nbr \<notin> set visited \<and> nbr \<notin> set xy
                then (hs_insert nbr visited, hs_insert nbr non_xy, hm_insert nbr (0, 0) counts)
                else (hs_insert nbr visited, non_xy, counts)) (knows_neighbors g vid))
              frontier (visited, non_xy, counts)
      in (non_xy, counts))"

definition place_incoming_messages ::
  "snb_graph \<Rightarrow> vertex_id \<Rightarrow> int \<Rightarrow> int \<Rightarrow> (vertex_id \<times> nat \<times> int \<times> vertex_id) list"
where
  "place_incoming_messages g place start_date end_date =
     List.map_filter (\<lambda>msg.
         case sg_vertex_label g msg of
           Some Post \<Rightarrow> do {
             post \<leftarrow> sg_post g msg;
             if start_date \<le> po_creation_date post \<and> po_creation_date post < end_date
             then do { creator \<leftarrow> message_creator_vid g msg; Some (msg, 1, po_creation_date post, creator) }
             else None }
         | Some Comment \<Rightarrow> do {
             comment \<leftarrow> sg_comment g msg;
             if start_date \<le> co_creation_date comment \<and> co_creation_date comment < end_date
             then do { creator \<leftarrow> message_creator_vid g msg; Some (msg, 2, co_creation_date comment, creator) }
             else None }
         | _ \<Rightarrow> None)
       (in_neighbors g place IsLocatedIn)"

type_synonym best_likes = "(vertex_id, int \<times> int \<times> int \<times> vertex_id) hash_map"

definition keep_best_like ::
  "vertex_id \<Rightarrow> int \<Rightarrow> int \<Rightarrow> int \<Rightarrow> vertex_id \<Rightarrow> best_likes \<Rightarrow> best_likes"
where
  "keep_best_like liker like_time msg_id msg_creation_date msg best =
     (if unwrap_or True (map_option (\<lambda>(old, _, _, _). old < like_time) (hm_get best liker))
      then hm_insert liker (like_time, msg_id, msg_creation_date, msg) best else best)"

function tag_class_loop :: "snb_graph \<Rightarrow> vertex_id list \<Rightarrow> vertex_id hash_set \<Rightarrow> vertex_id hash_set" where
  "tag_class_loop g [] out = out"
| "tag_class_loop g (tc # queue) out =
     (if tc \<in> set out then tag_class_loop g queue out
      else tag_class_loop g (queue @ in_neighbors g tc IsSubclassOf) (hs_insert tc out))"
  by pat_completeness auto
termination
  by (relation "measures [\<lambda>(g, queue, out). card (UNIV - set out), \<lambda>(g, queue, out). length queue]")
    (simp_all add: unmarked_less del: set_hs_insert)

definition tag_class_ancestors_like_dgs :: "snb_graph \<Rightarrow> vertex_id \<Rightarrow> vertex_id hash_set" where
  "tag_class_ancestors_like_dgs g root = tag_class_loop g [root] []"

end
