(* ===== verification/Snb_Calendar.thy ===== *)
theory Snb_Calendar
  imports Snb_Lookup
begin

section \<open>The calendar of the birthday query\<close>

text \<open>
  \<^verbatim>\<open>civil_from_days\<close> of \<^verbatim>\<open>src/snb/queries.rs\<close>: the Gregorian date of a day counted from
  1970-01-01. \<^verbatim>\<open>/\<close> on \<^verbatim>\<open>i64\<close> truncates towards zero (\<open>sdiv\<close>), \<^verbatim>\<open>div_euclid\<close> by a
  positive number rounds down (\<open>div\<close>).
\<close>

definition DAY_MS :: int where "DAY_MS = 86400000"

definition civil_from_days :: "int \<Rightarrow> i32 \<times> u32 \<times> u32" where
  "civil_from_days days_since_epoch =
     (let z = days_since_epoch + 719468;
          era = (if z \<ge> 0 then z else z - 146096) sdiv 146097;
          doe = z - era * 146097;
          yoe = (doe - doe sdiv 1460 + doe sdiv 36524 - doe sdiv 146096) sdiv 365;
          y = yoe + era * 400;
          doy = doe - (365 * yoe + yoe sdiv 4 - yoe sdiv 100);
          mp = (5 * doy + 2) sdiv 153;
          day = doy - (153 * mp + 2) sdiv 5 + 1;
          month = mp + (if mp < 10 then 3 else -9);
          year = y + (if month \<le> 2 then 1 else 0)
      in (of_int year, of_int month, of_int day))"

definition civil_from_unix_ms :: "int \<Rightarrow> i32 \<times> u32 \<times> u32" where
  "civil_from_unix_ms ts_ms = civil_from_days (ts_ms div DAY_MS)"

definition birthday_in_month_day_range :: "int \<Rightarrow> u32 \<Rightarrow> bool" where
  "birthday_in_month_day_range ts_ms month =
     (case civil_from_unix_ms ts_ms of (_, m, d) \<Rightarrow>
        let next_m = (if month = 12 then 1 else month + 1)
        in (m = month \<and> 21 \<le> d) \<or> (m = next_m \<and> d < 22))"

subsection \<open>The Gregorian calendar\<close>

text \<open>The calendar by its rules: leap years, the days of a month, and a date one day later.\<close>

definition leap :: "int \<Rightarrow> bool" where
  "leap y \<longleftrightarrow> y mod 4 = 0 \<and> (y mod 100 \<noteq> 0 \<or> y mod 400 = 0)"

definition month_days :: "int \<Rightarrow> int \<Rightarrow> int" where
  "month_days y m = (if m = 2 then (if leap y then 29 else 28) else if m \<in> {4, 6, 9, 11} then 30 else 31)"

definition next_day :: "int \<times> int \<times> int \<Rightarrow> int \<times> int \<times> int" where
  "next_day ymd = (case ymd of (y, m, d) \<Rightarrow>
     if d < month_days y m then (y, m, d + 1)
     else if m < 12 then (y, m + 1, 1) else (y + 1, 1, 1))"

definition date_of :: "i32 \<times> u32 \<times> u32 \<Rightarrow> int \<times> int \<times> int" where
  "date_of ymd = (case ymd of (y, m, d) \<Rightarrow> (sint y, uint m, uint d))"

lemma sdiv_pos: "0 \<le> a \<Longrightarrow> 0 < b \<Longrightarrow> a sdiv b = a div b" for a b :: int
  by (cases "a = 0") (simp_all add: signed_divide_int_def)

lemma sdiv_neg: "a < 0 \<Longrightarrow> 0 < b \<Longrightarrow> a sdiv b = - (- a div b)" for a b :: int
  by (simp add: signed_divide_int_def)

subsection \<open>The year of an era\<close>

text \<open>Day \<open>year_start k\<close> of an era of 400 years is the first of March of its year \<open>k\<close>.\<close>

definition year_start :: "int \<Rightarrow> int" where
  "year_start k = 365 * k + k div 4 - k div 100 + k div 400"

definition year_of_era :: "int \<Rightarrow> int" where
  "year_of_era doe = (doe - doe div 1460 + doe div 36524 - doe div 146096) div 365"

definition year_ends_ok :: "int \<Rightarrow> bool" where
  "year_ends_ok k \<longleftrightarrow> year_of_era (year_start k) = k \<and> year_of_era (year_start (k + 1) - 1) = k"

lemma year_ends_0: "list_all year_ends_ok [0..99]"
  by code_simp

lemma year_ends_100: "list_all year_ends_ok [100..199]"
  by code_simp

lemma year_ends_200: "list_all year_ends_ok [200..299]"
  by code_simp

lemma year_ends_300: "list_all year_ends_ok [300..399]"
  by code_simp

lemmas year_ends = year_ends_0 year_ends_100 year_ends_200 year_ends_300

lemma year_ends_all: "0 \<le> k \<Longrightarrow> k < 400 \<Longrightarrow> year_ends_ok k"
proof -
  assume k: "0 \<le> k" "k < 400"
  then have "k \<in> {0..99} \<or> k \<in> {100..199} \<or> k \<in> {200..299} \<or> k \<in> {300..399}" by simp linarith
  with year_ends show ?thesis unfolding list_all_iff set_upto by blast
qed

lemma year_of_era_step:
  assumes "0 \<le> x" "x < 146096" shows "year_of_era x \<le> year_of_era (x + 1)"
proof -
  have "(x + 1) div 1460 \<le> (x + 1460) div 1460" by (rule zdiv_mono1) simp_all
  then have a: "(x + 1) div 1460 \<le> x div 1460 + 1" "x div 36524 \<le> (x + 1) div 36524"
    by (simp_all add: zdiv_mono1)
  have "(x + 1) - (x + 1) div 1460 + (x + 1) div 36524 - (x + 1) div 146096 \<ge>
      x - x div 1460 + x div 36524 - x div 146096"
  proof (cases "x = 146095")
    case False
    then have "(x + 1) div 146096 = 0" "x div 146096 = 0" using assms by simp_all
    with a show ?thesis by linarith
  qed simp
  then show ?thesis unfolding year_of_era_def by (rule zdiv_mono1) simp
qed

lemma year_of_era_mono:
  assumes "0 \<le> x" "x \<le> y" "y \<le> 146096" shows "year_of_era x \<le> year_of_era y"
proof -
  have "x + int n \<le> 146096 \<Longrightarrow> year_of_era x \<le> year_of_era (x + int n)" for n
  proof (induction n)
    case (Suc n)
    then have "year_of_era (x + int n) \<le> year_of_era (x + int n + 1)"
      using assms(1) by (intro year_of_era_step) simp_all
    with Suc show ?case by (simp add: ac_simps)
  qed simp
  from this [of "nat (y - x)"] assms show ?thesis by simp
qed

lemma year_start_mono: "k \<le> k' \<Longrightarrow> year_start k \<le> year_start k'"
proof (cases "k = k'")
  case False
  assume "k \<le> k'"
  with False have "k + 1 \<le> k'" "k div 4 \<le> k' div 4" "k div 400 \<le> k' div 400"
    by (simp_all add: zdiv_mono1)
  moreover have "100 * (k' div 100) \<le> k'" "k < 100 * (k div 100) + 100" by presburger+
  ultimately show ?thesis unfolding year_start_def by linarith
qed simp

lemma year_of_era_eq:
  assumes "0 \<le> k" "k < 400" "year_start k \<le> x" "x < year_start (k + 1)"
  shows "year_of_era x = k"
proof (rule antisym)
  have ends: "year_of_era (year_start k) = k" "year_of_era (year_start (k + 1) - 1) = k"
    using year_ends_all [OF assms(1,2)] by (simp_all add: year_ends_ok_def)
  have bounds: "0 \<le> year_start k" "year_start (k + 1) \<le> 146097"
    using year_start_mono [of 0 k] year_start_mono [of "k + 1" 400] assms(1,2) by (simp_all add: year_start_def)
  show "k \<le> year_of_era x"
    using year_of_era_mono [of "year_start k" x] ends(1) bounds assms by linarith
  show "year_of_era x \<le> k"
    using year_of_era_mono [of x "year_start (k + 1) - 1"] ends(2) bounds assms by linarith
qed

lemma year_ex:
  assumes "0 \<le> x" "x < 146097"
  obtains k where "0 \<le> k" "k < 400" "year_start k \<le> x" "x < year_start (k + 1)"
proof -
  have "\<exists>k. 0 \<le> k \<and> k < int n \<and> year_start k \<le> x \<and> x < year_start (k + 1)"
    if "x < year_start (int n)" for n
    using that
  proof (induction n)
    case 0
    with assms show ?case by (simp add: year_start_def)
  next
    case (Suc n)
    show ?case
    proof (cases "x < year_start (int n)")
      case True
      from Suc.IH [OF this] obtain k where "0 \<le> k" "k < int n" "year_start k \<le> x" "x < year_start (k + 1)"
        by blast
      then show ?thesis by (intro exI [of _ k]) simp
    next
      case False
      with Suc.prems show ?thesis by (intro exI [of _ "int n"]) (simp add: algebra_simps)
    qed
  qed
  from this [of 400] assms(2) have "\<exists>k. 0 \<le> k \<and> k < 400 \<and> year_start k \<le> x \<and> x < year_start (k + 1)"
    by (simp add: year_start_def)
  with that show ?thesis by blast
qed

subsection \<open>The day of a year\<close>

definition month_day :: "int \<Rightarrow> int \<times> int" where
  "month_day doy =
     (let mp = (5 * doy + 2) div 153
      in (mp + (if mp < 10 then 3 else -9), doy - (153 * mp + 2) div 5 + 1))"

text \<open>Inside a year that starts in March every month but the last, February, ends with its own number of
  days, and December is followed by January.\<close>

definition month_day_ok :: "int \<Rightarrow> bool" where
  "month_day_ok doy \<longleftrightarrow>
     (case month_day doy of (m, d) \<Rightarrow>
        1 \<le> m \<and> m \<le> 12 \<and> 1 \<le> d \<and> d \<le> 31 \<and>
        (if m = 2 then d = doy - 336
         else month_day (doy + 1) =
           (if d < (if m \<in> {4, 6, 9, 11} then 30 else 31) then (m, d + 1) else (if m = 12 then 1 else m + 1, 1))))"

lemma month_days_0: "list_all (\<lambda>d. month_day_ok d \<and> fst (month_day d) \<noteq> 2) [0..168]"
  by code_simp

lemma month_days_169: "list_all (\<lambda>d. month_day_ok d \<and> fst (month_day d) \<noteq> 2) [169..336]"
  by code_simp

lemma month_days_337: "list_all (\<lambda>d. month_day d = (2, d - 336)) [337..365]"
  by code_simp

lemma month_day_facts:
  assumes "0 \<le> doy" "doy \<le> 365"
  shows "month_day_ok doy \<and> fst (month_day doy) \<noteq> 2 \<or> 337 \<le> doy \<and> month_day doy = (2, doy - 336)"
proof -
  have "doy \<in> {0..168} \<or> doy \<in> {169..336} \<or> doy \<in> {337..365}" using assms by simp linarith
  with month_days_0 month_days_169 month_days_337 show ?thesis
    unfolding list_all_iff set_upto by fastforce
qed

subsection \<open>Counting days\<close>

definition civil_of :: "int \<Rightarrow> int \<Rightarrow> int \<Rightarrow> int \<times> int \<times> int" where
  "civil_of era k doy =
     (case month_day doy of (m, d) \<Rightarrow> (k + era * 400 + (if m \<le> 2 then 1 else 0), m, d))"

lemma div_next:
  fixes k n :: int
  assumes "1 < n"
  shows "(k + 1) div n - k div n = (if (k + 1) mod n = 0 then 1 else 0)"
proof -
  let ?q = "k div n" and ?r = "k mod n"
  have k: "k + 1 = n * ?q + (?r + 1)" and r: "0 \<le> ?r" "?r < n" using assms by simp_all
  show ?thesis
  proof (cases "?r + 1 = n")
    case True
    then have "k + 1 = n * (?q + 1)" using k by (simp add: algebra_simps)
    then have "(k + 1) div n = ?q + 1" "(k + 1) mod n = 0" using assms by simp_all
    then show ?thesis by simp
  next
    case False
    then have "(k + 1) div n = ?q" "(k + 1) mod n = ?r + 1"
      using int_div_pos_eq [OF k] int_mod_pos_eq [OF k] r by simp_all
    then show ?thesis using r by simp
  qed
qed

lemma year_length:
  assumes "0 \<le> k" "k < 400"
  shows "year_start (k + 1) - year_start k = (if leap (k + 1 + era * 400) then 366 else 365)"
proof -
  have 4: "(k + 1) div 4 - k div 4 = (if (k + 1) mod 4 = 0 then 1 else 0)"
    and 100: "(k + 1) div 100 - k div 100 = (if (k + 1) mod 100 = 0 then 1 else 0)"
    and 400: "(k + 1) div 400 - k div 400 = (if (k + 1) mod 400 = 0 then 1 else 0)"
    by (rule div_next; simp)+
  have "(k + 1 + era * 400) mod 4 = (k + 1) mod 4" "(k + 1 + era * 400) mod 100 = (k + 1) mod 100"
    "(k + 1 + era * 400) mod 400 = (k + 1) mod 400"
    using mod_mult_self1 [of "k + 1" "era * 100" 4] mod_mult_self1 [of "k + 1" "era * 4" 100]
      mod_mult_self1 [of "k + 1" era 400] by (simp_all add: mult.commute)
  then have leap: "leap (k + 1 + era * 400) \<longleftrightarrow>
      (k + 1) mod 4 = 0 \<and> ((k + 1) mod 100 \<noteq> 0 \<or> (k + 1) mod 400 = 0)"
    by (simp only: leap_def)
  have "(100 :: int) dvd 400" "(4 :: int) dvd 100" by simp_all
  then have imp: "(k + 1) mod 400 = 0 \<longrightarrow> (k + 1) mod 100 = 0" "(k + 1) mod 100 = 0 \<longrightarrow> (k + 1) mod 4 = 0"
    unfolding mod_eq_0_iff_dvd by (blast intro: dvd_trans)+
  have len: "year_start (k + 1) - year_start k = 365 + (if (k + 1) mod 4 = 0 then 1 else 0)
      - (if (k + 1) mod 100 = 0 then 1 else 0) + (if (k + 1) mod 400 = 0 then 1 else 0)"
  proof -
    obtain a4 b4 a100 b100 a400 b400 where ab: "(k + 1) div 4 = a4" "k div 4 = b4"
      "(k + 1) div 100 = a100" "k div 100 = b100" "(k + 1) div 400 = a400" "k div 400 = b400" by blast
    show ?thesis using 4 100 400 unfolding year_start_def ab by simp
  qed
  obtain p4 p100 p400 where p: "((k + 1) mod 4 = 0) = p4" "((k + 1) mod 100 = 0) = p100"
    "((k + 1) mod 400 = 0) = p400" by blast
  show ?thesis using imp unfolding len leap p by (cases p4; cases p100; cases p400) simp_all
qed

lemma civil_of_step:
  assumes "0 \<le> k" "k < 400" "0 \<le> doy" "doy + 1 < year_start (k + 1) - year_start k"
  shows "civil_of era k (doy + 1) = next_day (civil_of era k doy)"
proof -
  have doy: "doy \<le> 364" using assms year_length [OF assms(1,2), of era] by (auto split: if_splits)
  obtain m d where md: "month_day doy = (m, d)" by force
  consider "month_day_ok doy" "m \<noteq> 2" | "337 \<le> doy" "m = 2" "d = doy - 336"
    using month_day_facts [of doy] assms(3) doy md by auto
  then show ?thesis
  proof cases
    case 1
    then show ?thesis using md
      by (auto simp: civil_of_def next_day_def month_day_ok_def month_days_def split: if_splits)
  next
    case 2
    then have "month_day (doy + 1) = (2, d + 1)"
      using month_days_337 doy unfolding list_all_iff set_upto by auto
    moreover have "d < month_days (k + 1 + era * 400) 2"
      using assms(4) year_length [OF assms(1,2), of era] 2 by (simp add: month_days_def split: if_splits)
    ultimately show ?thesis using md 2 by (simp add: civil_of_def next_day_def algebra_simps)
  qed
qed

lemma civil_of_new_year:
  assumes "0 \<le> k" "k < 400" "doy + 1 = year_start (k + 1) - year_start k"
  shows "next_day (civil_of era k doy) = (k + 1 + era * 400, 3, 1)"
proof -
  have doy: "doy = (if leap (k + 1 + era * 400) then 365 else 364)"
    using assms(3) year_length [OF assms(1,2), of era] by (auto split: if_splits)
  then have "month_day doy = (2, doy - 336)"
    using month_days_337 unfolding list_all_iff set_upto by auto
  then show ?thesis using doy by (auto simp: civil_of_def next_day_def month_days_def algebra_simps)
qed

subsection \<open>The code counts days\<close>

lemma civil_from_days_eq:
  assumes "days + 719468 = era * 146097 + year_start k + doy"
    "0 \<le> k" "k < 400" "0 \<le> doy" "doy < year_start (k + 1) - year_start k"
    "- 5000000 < era" "era < 5000000"
  shows "date_of (civil_from_days days) = civil_of era k doy"
proof -
  let ?z = "days + 719468" and ?doe = "year_start k + doy"
  have start: "0 \<le> year_start k" "year_start (k + 1) \<le> 146097"
    using year_start_mono [of 0 k] year_start_mono [of "k + 1" 400] assms(2,3) by (simp_all add: year_start_def)
  then have doe: "0 \<le> ?doe" "?doe < 146097" using assms(4,5) by linarith+
  have div: "?z div 146097 = era" using assms(1) doe by (intro int_div_pos_eq [where r = ?doe]) simp_all
  have era: "(if ?z \<ge> 0 then ?z else ?z - 146096) sdiv 146097 = era"
  proof (cases "0 \<le> ?z")
    case True
    then show ?thesis using div by (simp add: sdiv_pos)
  next
    case False
    have "(146096 - ?z) div 146097 = - era"
      using assms(1) doe by (intro int_div_pos_eq [where r = "146096 - ?doe"]) simp_all
    then show ?thesis using False by (simp add: sdiv_neg)
  qed
  have yoe: "(?doe - ?doe sdiv 1460 + ?doe sdiv 36524 - ?doe sdiv 146096) sdiv 365 = k"
  proof -
    have "year_of_era ?doe = k" using assms(2-5) by (intro year_of_era_eq) simp_all
    moreover have "0 \<le> ?doe - ?doe div 1460 + ?doe div 36524 - ?doe div 146096"
    proof -
      have "?doe div 146096 \<le> ?doe div 36524" "?doe div 1460 \<le> ?doe div 1"
        using doe(1) by (intro zdiv_mono2; simp)+
      moreover have "0 \<le> x - a + b - c" if "c \<le> b" "a \<le> x" for a b c x :: int using that by simp
      ultimately show ?thesis by simp
    qed
    ultimately show ?thesis using doe(1) by (simp only: sdiv_pos year_of_era_def)
  qed
  have doy: "?doe - (365 * k + k sdiv 4 - k sdiv 100) = doy"
    using assms(2,3) by (simp add: sdiv_pos year_start_def)
  have doy_le: "doy \<le> 365" using assms(5) year_length [OF assms(2,3), of era] by (auto split: if_splits)
  have mp: "(5 * doy + 2) sdiv 153 = (5 * doy + 2) div 153"
    "(153 * ((5 * doy + 2) div 153) + 2) sdiv 5 = (153 * ((5 * doy + 2) div 153) + 2) div 5"
    using assms(4) by (simp_all add: sdiv_pos)
  obtain m d where md: "month_day doy = (m, d)" by force
  have range: "1 \<le> m" "m \<le> 12" "1 \<le> d" "d \<le> 31"
    using month_day_facts [OF assms(4) doy_le] md doy_le by (auto simp: month_day_ok_def)
  have doe_z: "?z - era * 146097 = ?doe" using assms(1) by simp
  obtain y where y: "k + era * 400 + (if m \<le> 2 then 1 else 0) = y" by blast
  have "civil_from_days days = (of_int y, of_int m, of_int d)"
    using md y unfolding civil_from_days_def Let_def era doe_z yoe doy mp month_day_def by auto
  moreover have "- (2 ^ 31) \<le> y" "y < 2 ^ 31" using y assms(2,3,6,7) by (auto split: if_splits)
  then have "sint (of_int y :: i32) = y"
    using sint_sbintrunc' [where 'a = 32, of y] by (simp add: signed_take_bit_int_eq_self)
  ultimately show ?thesis
    using range md y
    by (simp add: date_of_def civil_of_def uint_word_of_int_eq take_bit_int_eq_self)
qed

lemma days_ex:
  obtains era k doy where "days + 719468 = era * 146097 + year_start k + doy" "0 \<le> k" "k < 400" "0 \<le> doy"
    "doy < year_start (k + 1) - year_start k" "era = (days + 719468) div 146097"
proof -
  let ?z = "days + 719468"
  obtain k where "0 \<le> k" "k < 400" "year_start k \<le> ?z mod 146097" "?z mod 146097 < year_start (k + 1)"
    using year_ex [of "?z mod 146097"] by auto
  then show ?thesis
    using that [of "?z div 146097" k "?z mod 146097 - year_start k"] by (simp add: algebra_simps)
qed

text \<open>C25. The date computed from a number of days is the date of the Gregorian calendar: day 0 is
  1970-01-01, and the date of the next day is the next date, month lengths and leap years
  included. The bound covers every \<^verbatim>\<open>i64\<close> timestamp in milliseconds.\<close>

theorem civil_calendar:
  assumes "- 700000000000 < days" "days < 700000000000"
  shows "date_of (civil_from_days 0) = (1970, 1, 1) \<and>
    date_of (civil_from_days (days + 1)) = next_day (date_of (civil_from_days days))"
proof
  show "date_of (civil_from_days 0) = (1970, 1, 1)" by code_simp
  obtain era k doy where e: "days + 719468 = era * 146097 + year_start k + doy" "0 \<le> k" "k < 400" "0 \<le> doy"
    "doy < year_start (k + 1) - year_start k" "era = (days + 719468) div 146097"
    by (rule days_ex)
  have "-4999990 < era" "era < 4999990"
  proof -
    have "-700000000000 div 146097 \<le> era" "era \<le> 700000719468 div 146097"
      unfolding e(6) using assms by (intro zdiv_mono1; simp)+
    then show "-4999990 < era" "era < 4999990" by simp_all
  qed
  note bounds = this
  have now: "date_of (civil_from_days days) = civil_of era k doy"
    by (rule civil_from_days_eq [OF e(1-5)]) (use bounds in simp_all)
  show "date_of (civil_from_days (days + 1)) = next_day (date_of (civil_from_days days))"
  proof (cases "doy + 1 < year_start (k + 1) - year_start k")
    case True
    have "date_of (civil_from_days (days + 1)) = civil_of era k (doy + 1)"
      by (rule civil_from_days_eq) (use e bounds True in simp_all)
    then show ?thesis using now civil_of_step [OF e(2,3,4) True] by simp
  next
    case False
    then have last: "doy + 1 = year_start (k + 1) - year_start k" using e(5) by simp
    have sum: "days + 1 + 719468 = era * 146097 + year_start (k + 1)" using e(1) last by linarith
    have ends: "year_start 400 = 146097" "year_start 0 = 0" by (simp_all add: year_start_def)
    let ?era = "if k = 399 then era + 1 else era" and ?k = "if k = 399 then 0 else k + 1"
    have "date_of (civil_from_days (days + 1)) = civil_of ?era ?k 0"
    proof (rule civil_from_days_eq)
      show "days + 1 + 719468 = ?era * 146097 + year_start ?k + 0"
        using sum ends by (simp add: algebra_simps)
      show "0 < year_start (?k + 1) - year_start ?k"
        using year_length [of ?k 0] e(2,3) by (auto split: if_splits)
    qed (use e(2,3) bounds in \<open>auto split: if_splits\<close>)
    moreover have "civil_of ?era ?k 0 = (k + 1 + era * 400, 3, 1)"
      by (simp add: civil_of_def month_day_def)
    ultimately show ?thesis using now civil_of_new_year [OF e(2,3) last] by simp
  qed
qed

theorem civil_calendar_witness:
  "date_of (civil_from_days (19781 + 1)) = next_day (date_of (civil_from_days 19781))"
  using civil_calendar [of 19781] by simp

end
