(* ===== verification/Snb_Complex.thy ===== *)
theory Snb_Complex
  imports Snb_Calendar
begin

section \<open>The complex reads\<close>

text \<open>
  \<^verbatim>\<open>ic1\<close> to \<^verbatim>\<open>ic12\<close> of \<^verbatim>\<open>src/snb/queries.rs\<close> with the rows they return.
  Every query ends by sorting its rows and keeping the first \<^verbatim>\<open>limit\<close> of them. Where
  the code unwraps a vertex it has looked up before, the model takes \<open>the\<close> of the same lookup.
\<close>

subsection \<open>Rows\<close>

record ic1_row =
  ic1_friend_id :: int
  ic1_friend_last_name :: string
  ic1_distance_from_person :: int
  ic1_friend_birthday :: int
  ic1_friend_creation_date :: int
  ic1_friend_gender :: string
  ic1_friend_browser_used :: string
  ic1_friend_location_ip :: string
  ic1_friend_emails :: "string list"
  ic1_friend_languages :: "string list"
  ic1_friend_city_name :: string
  ic1_friend_universities :: "org_json list"
  ic1_friend_companies :: "org_json list"

record message_row =
  mr_person_id :: int
  mr_person_first_name :: string
  mr_person_last_name :: string
  mr_message_id :: int
  mr_message_content :: string
  mr_message_creation_date :: int

record ic3_row =
  ic3_person_id :: int
  ic3_person_first_name :: string
  ic3_person_last_name :: string
  ic3_x_count :: int
  ic3_y_count :: int
  ic3_count :: int

record ic4_row =
  ic4_tag_name :: string
  ic4_post_count :: int

record ic5_row =
  ic5_forum_title :: string
  ic5_post_count :: int

record ic6_row =
  ic6_tag_name :: string
  ic6_post_count :: int

record ic7_row =
  ic7_person_id :: int
  ic7_person_first_name :: string
  ic7_person_last_name :: string
  ic7_like_creation_date :: int
  ic7_message_id :: int
  ic7_message_content :: string
  ic7_minutes_latency :: int
  ic7_is_new :: bool

record ic8_row =
  ic8_person_id :: int
  ic8_person_first_name :: string
  ic8_person_last_name :: string
  ic8_comment_creation_date :: int
  ic8_comment_id :: int
  ic8_comment_content :: string

record ic10_row =
  ic10_person_id :: int
  ic10_person_first_name :: string
  ic10_person_last_name :: string
  ic10_common_interest_score :: int
  ic10_person_gender :: string
  ic10_person_city_name :: string

record ic11_row =
  ic11_person_id :: int
  ic11_person_first_name :: string
  ic11_person_last_name :: string
  ic11_organization_name :: string
  ic11_organization_work_from_year :: int

record ic12_row =
  ic12_person_id :: int
  ic12_person_first_name :: string
  ic12_person_last_name :: string
  ic12_tag_names :: "string list"
  ic12_reply_count :: int

subsection \<open>Friends by first name\<close>

definition ic1_expand ::
  "snb_graph \<Rightarrow> vertex_id list \<Rightarrow> vertex_id hash_set \<Rightarrow> vertex_id hash_set \<times> vertex_id list"
where
  "ic1_expand g frontier visited =
     fold (\<lambda>vid. fold (\<lambda>nbr (visited, next).
         if nbr \<in> set visited then (visited, next) else (hs_insert nbr visited, next @ [nbr]))
         (knows_neighbors g vid))
       frontier (visited, [])"

definition ic1_matches :: "snb_graph \<Rightarrow> string \<Rightarrow> int \<Rightarrow> vertex_id list \<Rightarrow> (int \<times> string \<times> int \<times> vertex_id) list" where
  "ic1_matches g first_name distance next =
     List.map_filter (\<lambda>vid. do {
         person \<leftarrow> sg_person g vid;
         if pe_first_name person = first_name
         then Some (distance, pe_last_name person, pe_id person, vid) else None }) next"

fun ic1_levels ::
  "snb_graph \<Rightarrow> string \<Rightarrow> nat \<Rightarrow> int list \<Rightarrow> vertex_id list \<Rightarrow> vertex_id hash_set \<Rightarrow>
   (int \<times> string \<times> int \<times> vertex_id) list \<Rightarrow> (int \<times> string \<times> int \<times> vertex_id) list"
where
  "ic1_levels g first_name limit [] frontier visited candidates = candidates"
| "ic1_levels g first_name limit (distance # distances) frontier visited candidates =
     (case ic1_expand g frontier visited of (visited, next) \<Rightarrow>
        let candidates = candidates @ ic1_matches g first_name distance next
        in if limit \<le> length candidates \<or> next = [] then candidates
           else ic1_levels g first_name limit distances next visited candidates)"

definition ic1_row_of :: "snb_graph \<Rightarrow> int \<times> string \<times> int \<times> vertex_id \<Rightarrow> ic1_row" where
  "ic1_row_of g c = (case c of (distance, _, _, vid) \<Rightarrow>
     let person = the (sg_person g vid)
     in \<lparr>ic1_friend_id = pe_id person, ic1_friend_last_name = pe_last_name person,
         ic1_distance_from_person = distance, ic1_friend_birthday = pe_birthday person,
         ic1_friend_creation_date = pe_creation_date person, ic1_friend_gender = pe_gender person,
         ic1_friend_browser_used = pe_browser_used person, ic1_friend_location_ip = pe_location_ip person,
         ic1_friend_emails = split_list (pe_email person), ic1_friend_languages = split_list (pe_language person),
         ic1_friend_city_name = person_city_name g vid,
         ic1_friend_universities = org_entries g vid StudyAt,
         ic1_friend_companies = org_entries g vid WorkAt\<rparr>)"

definition ic1_candidates :: "snb_graph \<Rightarrow> int \<Rightarrow> string \<Rightarrow> nat \<Rightarrow> (int \<times> string \<times> int \<times> vertex_id) list" where
  "ic1_candidates g person_id first_name limit =
     (let start = encode_vid Person person_id
      in if sg_person g start = None then []
         else take limit
           (sort_key (\<lambda>(distance, last_name, friend_id, _). (distance, last_name, friend_id))
             (ic1_levels g first_name limit [1, 2, 3] [start] [start] [])))"

definition ic1 :: "snb_graph \<Rightarrow> int \<Rightarrow> string \<Rightarrow> nat \<Rightarrow> ic1_row list" where
  "ic1 g person_id first_name limit = map (ic1_row_of g) (ic1_candidates g person_id first_name limit)"

subsection \<open>Recent messages of friends\<close>

definition message_row_of :: "snb_graph \<Rightarrow> int \<Rightarrow> int \<Rightarrow> vertex_id \<Rightarrow> vertex_id \<Rightarrow> message_row option" where
  "message_row_of g creation_date msg_id msg friend = do {
     person \<leftarrow> sg_person g friend;
     Some \<lparr>mr_person_id = pe_id person, mr_person_first_name = pe_first_name person,
       mr_person_last_name = pe_last_name person, mr_message_id = msg_id,
       mr_message_content = message_content g msg, mr_message_creation_date = creation_date\<rparr> }"

definition ic2_found :: "snb_graph \<Rightarrow> vertex_id \<Rightarrow> int \<Rightarrow> (int \<times> int \<times> vertex_id \<times> vertex_id) list" where
  "ic2_found g start max_date =
     concat (map (\<lambda>friend. List.map_filter (\<lambda>msg. do {
         (msg_id, creation_date, _) \<leftarrow> message_summary g msg;
         if creation_date \<le> max_date then Some (creation_date, msg_id, msg, friend) else None })
       (in_messages_creators g friend)) (hs_of_list (knows_neighbors g start)))"

definition ic2 :: "snb_graph \<Rightarrow> int \<Rightarrow> int \<Rightarrow> nat \<Rightarrow> message_row list" where
  "ic2 g person_id max_date limit =
     (let start = encode_vid Person person_id
      in if sg_person g start = None then []
         else List.map_filter (\<lambda>(creation_date, msg_id, msg, friend). message_row_of g creation_date msg_id msg friend)
           (take limit (sort_key (\<lambda>(creation_date, msg_id, _). (Reverse creation_date, msg_id))
             (ic2_found g start max_date))))"

definition ic9_found ::
  "snb_graph \<Rightarrow> vertex_id \<Rightarrow> int \<Rightarrow> (int \<times> int \<times> vertex_id) list \<times> (vertex_id, vertex_id) hash_map"
where
  "ic9_found g start max_date =
     fold (\<lambda>friend. fold (\<lambda>msg (rows, friend_of_msg).
         case message_summary g msg of
           None \<Rightarrow> (rows, friend_of_msg)
         | Some (msg_id, creation_date, _) \<Rightarrow>
             if creation_date < max_date
             then (rows @ [(creation_date, msg_id, msg)], hm_insert msg friend friend_of_msg)
             else (rows, friend_of_msg))
         (in_messages_creators g friend))
       (knows_bfs_2hop g start) ([], [])"

definition ic9 :: "snb_graph \<Rightarrow> int \<Rightarrow> int \<Rightarrow> nat \<Rightarrow> message_row list" where
  "ic9 g person_id max_date limit =
     (let start = encode_vid Person person_id
      in if sg_person g start = None then []
         else case ic9_found g start max_date of (rows, friend_of_msg) \<Rightarrow>
           List.map_filter (\<lambda>(creation_date, msg_id, msg).
               message_row_of g creation_date msg_id msg (the (hm_get friend_of_msg msg)))
             (take limit (sort_key (\<lambda>(creation_date, msg_id, _). (Reverse creation_date, msg_id)) rows)))"

subsection \<open>Friends who travelled\<close>

definition end_of_window :: "int \<Rightarrow> int \<Rightarrow> int" where
  "end_of_window start_date duration_days = sat64 (start_date + sat64 (duration_days * DAY_MS))"

definition ic3_count_x :: "vertex_id hash_set \<Rightarrow> vertex_id \<times> nat \<times> int \<times> vertex_id \<Rightarrow>
    (vertex_id, int \<times> int) hash_map \<Rightarrow> (vertex_id, int \<times> int) hash_map" where
  "ic3_count_x persons m counts = (case m of (_, _, _, creator) \<Rightarrow>
     if creator \<in> set persons
     then case unwrap_or (0, 0) (hm_get counts creator) of (x, y) \<Rightarrow> hm_insert creator (x + 1, y) counts
     else counts)"

definition ic3_count_y :: "vertex_id hash_set \<Rightarrow> vertex_id \<times> nat \<times> int \<times> vertex_id \<Rightarrow>
    (vertex_id, int \<times> int) hash_map \<Rightarrow> (vertex_id, int \<times> int) hash_map" where
  "ic3_count_y persons m counts = (case m of (_, _, _, creator) \<Rightarrow>
     if creator \<in> set persons
     then case unwrap_or (0, 0) (hm_get counts creator) of (x, y) \<Rightarrow> hm_insert creator (x, y + 1) counts
     else counts)"

definition ic3 :: "snb_graph \<Rightarrow> int \<Rightarrow> string \<Rightarrow> string \<Rightarrow> int \<Rightarrow> int \<Rightarrow> nat \<Rightarrow> ic3_row list" where
  "ic3 g person_id country_x_name country_y_name start_date duration_days limit =
     (let start = encode_vid Person person_id;
          end_date = end_of_window start_date duration_days;
          country_x = find_country_vid g country_x_name;
          country_y = find_country_vid g country_y_name;
          xy_persons = collect_xy_persons g country_x country_y;
          (non_xy, counts) = bfs_non_xy_friends g start xy_persons;
          counts = (case country_x of None \<Rightarrow> counts
            | Some c \<Rightarrow> fold (ic3_count_x non_xy) (place_incoming_messages g c start_date end_date) counts);
          counts = (case country_y of None \<Rightarrow> counts
            | Some c \<Rightarrow> fold (ic3_count_y non_xy) (place_incoming_messages g c start_date end_date) counts);
          rows = List.map_filter (\<lambda>(vid, x, y).
              if 0 < x \<and> 0 < y then do { p \<leftarrow> sg_person g vid; Some (x + y, pe_id p, vid, x, y) } else None) counts
      in if sg_person g start = None \<or> non_xy = [] then []
         else map (\<lambda>(n, _, vid, x, y).
              let p = the (sg_person g vid)
              in \<lparr>ic3_person_id = pe_id p, ic3_person_first_name = pe_first_name p,
                  ic3_person_last_name = pe_last_name p, ic3_x_count = x, ic3_y_count = y, ic3_count = n\<rparr>)
            (take limit (sort_key (\<lambda>(n, pid, _). (Reverse n, pid)) rows)))"

subsection \<open>Tags of new posts\<close>

record tag_agg =
  ta_in_window_count :: int
  ta_existed_before :: bool

definition tag_agg_default :: tag_agg where
  "tag_agg_default = \<lparr>ta_in_window_count = 0, ta_existed_before = False\<rparr>"

definition ic4_post :: "int \<Rightarrow> int \<Rightarrow> post_props \<Rightarrow> vertex_id \<Rightarrow> (vertex_id, tag_agg) hash_map \<Rightarrow> (vertex_id, tag_agg) hash_map" where
  "ic4_post start_date end_date post tag by_tag =
     (let entry = unwrap_or tag_agg_default (hm_get by_tag tag)
      in hm_insert tag
          (if po_creation_date post < start_date then entry\<lparr>ta_existed_before := True\<rparr>
           else entry\<lparr>ta_in_window_count := ta_in_window_count entry + 1\<rparr>) by_tag)"

definition ic4_by_tag :: "snb_graph \<Rightarrow> vertex_id \<Rightarrow> int \<Rightarrow> int \<Rightarrow> (vertex_id, tag_agg) hash_map" where
  "ic4_by_tag g start start_date end_date =
     fold (\<lambda>friend. fold (\<lambda>post_vid by_tag.
         case sg_post g post_vid of
           None \<Rightarrow> by_tag
         | Some post \<Rightarrow>
             if po_creation_date post < start_date \<or> po_creation_date post < end_date
             then fold (ic4_post start_date end_date post) (has_tag_neighbors g post_vid) by_tag
             else by_tag)
         (in_posts_creators g friend))
       (hs_of_list (knows_neighbors g start)) []"

definition ic4 :: "snb_graph \<Rightarrow> int \<Rightarrow> int \<Rightarrow> int \<Rightarrow> nat \<Rightarrow> ic4_row list" where
  "ic4 g person_id start_date duration_days limit =
     (let start = encode_vid Person person_id;
          by_tag = ic4_by_tag g start start_date (end_of_window start_date duration_days);
          rows = List.map_filter (\<lambda>(tag_vid, agg).
              if ta_existed_before agg then None
              else do { tag \<leftarrow> sg_tag g tag_vid; Some (ta_in_window_count agg, ta_name tag, tag_vid) }) by_tag
      in if sg_person g start = None then []
         else map (\<lambda>(n, name, _). \<lparr>ic4_tag_name = name, ic4_post_count = n\<rparr>)
           (take limit (sort_key (\<lambda>(n, name, _). (Reverse n, name)) rows)))"

subsection \<open>Forums and tags of friends of friends\<close>

definition ic5_member :: "snb_graph \<Rightarrow> int \<Rightarrow> vertex_id \<Rightarrow> (vertex_id, int) hash_map \<Rightarrow> (vertex_id, int) hash_map" where
  "ic5_member g min_date friend forum_posts =
     (let (qual_forums, forum_posts) =
            fold (\<lambda>(forum, edge) (qual, posts).
                if min_date \<le> prop_as_i64 edge
                then (hs_insert forum qual, hm_insert forum (unwrap_or 0 (hm_get posts forum)) posts)
                else (qual, posts))
              (in_edges_with_prop g friend HasMember) ([], forum_posts)
      in if qual_forums = [] then forum_posts
         else fold (\<lambda>post. fold (\<lambda>forum posts.
                if forum \<in> set qual_forums then hm_insert forum (the (hm_get posts forum) + 1) posts else posts)
                (in_neighbors g post ContainerOf))
              (in_posts_creators g friend) forum_posts)"

definition ic5 :: "snb_graph \<Rightarrow> int \<Rightarrow> int \<Rightarrow> nat \<Rightarrow> ic5_row list" where
  "ic5 g person_id min_date limit =
     (let start = encode_vid Person person_id;
          forum_posts = fold (ic5_member g min_date) (knows_bfs_2hop g start) [];
          rows = map (\<lambda>(forum, n). (n, unwrap_or 0 (map_option fo_id (sg_forum g forum)), forum)) forum_posts
      in if sg_person g start = None then []
         else map (\<lambda>(n, _, forum). \<lparr>ic5_forum_title = unwrap_or [] (map_option fo_title (sg_forum g forum)),
                ic5_post_count = n\<rparr>)
           (take limit (sort_key (\<lambda>(n, forum_id, _). (Reverse n, forum_id)) rows)))"

definition ic6_counts :: "snb_graph \<Rightarrow> vertex_id hash_set \<Rightarrow> vertex_id \<Rightarrow> (vertex_id, int) hash_map" where
  "ic6_counts g friends tag =
     fold (\<lambda>msg counts.
         case (if sg_vertex_label g msg = Some Post then message_creator_vid g msg else None) of
           None \<Rightarrow> counts
         | Some creator \<Rightarrow>
             if creator \<in> set friends
             then fold (\<lambda>other counts.
                 if other \<noteq> tag then hm_insert other (unwrap_or 0 (hm_get counts other) + 1) counts else counts)
               (has_tag_neighbors g msg) counts
             else counts)
       (in_neighbors g tag HasTag) []"

definition ic6 :: "snb_graph \<Rightarrow> int \<Rightarrow> string \<Rightarrow> nat \<Rightarrow> ic6_row list" where
  "ic6 g person_id tag_name limit =
     (let start = encode_vid Person person_id
      in if sg_person g start = None then []
         else case find_tag_vid g tag_name of
           None \<Rightarrow> []
         | Some tag_vid \<Rightarrow>
             let rows = List.map_filter (\<lambda>(tag_vid, n). do { tag \<leftarrow> sg_tag g tag_vid; Some (n, ta_name tag, tag_vid) })
                   (ic6_counts g (knows_bfs_2hop g start) tag_vid)
             in map (\<lambda>(n, name, _). \<lparr>ic6_tag_name = name, ic6_post_count = n\<rparr>)
                  (take limit (sort_key (\<lambda>(n, name, _). (Reverse n, name)) rows)))"

subsection \<open>Recent likers and replies\<close>

definition ic7_best :: "snb_graph \<Rightarrow> vertex_id \<Rightarrow> best_likes" where
  "ic7_best g person_vid =
     fold (\<lambda>msg best.
         case message_summary g msg of
           None \<Rightarrow> best
         | Some (msg_id, msg_creation_date, _) \<Rightarrow>
             fold (\<lambda>(liker, edge). keep_best_like liker (prop_as_i64 edge) msg_id msg_creation_date msg)
               (in_edges_with_prop g msg LikesComment)
               (fold (\<lambda>(liker, edge). keep_best_like liker (prop_as_i64 edge) msg_id msg_creation_date msg)
                 (in_edges_with_prop g msg LikesPost) best))
       (in_messages_creators g person_vid) []"

definition ic7 :: "snb_graph \<Rightarrow> int \<Rightarrow> nat \<Rightarrow> ic7_row list" where
  "ic7 g person_id limit =
     (let person_vid = encode_vid Person person_id;
          knows_set = hs_of_list (knows_neighbors g person_vid);
          liker_best = ic7_best g person_vid;
          rows = List.map_filter (\<lambda>(liker, like_time, _). do { p \<leftarrow> sg_person g liker; Some (like_time, pe_id p, liker) })
            liker_best
      in if sg_person g person_vid = None then []
         else map (\<lambda>(_, _, liker).
             case the (hm_get liker_best liker) of (like_time, msg_id, msg_creation_date, msg) \<Rightarrow>
               let p = the (sg_person g liker)
               in \<lparr>ic7_person_id = pe_id p, ic7_person_first_name = pe_first_name p,
                   ic7_person_last_name = pe_last_name p, ic7_like_creation_date = like_time,
                   ic7_message_id = msg_id, ic7_message_content = message_content g msg,
                   ic7_minutes_latency = wrap64 (like_time - msg_creation_date) sdiv 60000,
                   ic7_is_new = (liker \<notin> set knows_set)\<rparr>)
           (take limit (sort_key (\<lambda>(like_time, pid, _). (Reverse like_time, pid)) rows)))"

definition ic8 :: "snb_graph \<Rightarrow> int \<Rightarrow> nat \<Rightarrow> ic8_row list" where
  "ic8 g person_id limit =
     (let person_vid = encode_vid Person person_id;
          rows = concat (map (\<lambda>msg. List.map_filter (\<lambda>reply. do {
                comment \<leftarrow> sg_comment g reply;
                Some (co_creation_date comment, co_id comment, reply) })
              (in_neighbors g msg ReplyOfPost @ in_neighbors g msg ReplyOfComment))
            (in_neighbors g person_vid HasCreator))
      in if sg_person g person_vid = None then []
         else List.map_filter (\<lambda>(creation_date, comment_id, reply). do {
                comment \<leftarrow> sg_comment g reply;
                creator \<leftarrow> message_creator_vid g reply;
                person \<leftarrow> sg_person g creator;
                Some \<lparr>ic8_person_id = pe_id person, ic8_person_first_name = pe_first_name person,
                  ic8_person_last_name = pe_last_name person, ic8_comment_creation_date = creation_date,
                  ic8_comment_id = comment_id, ic8_comment_content = co_content comment\<rparr> })
              (take limit (sort_key (\<lambda>(creation_date, comment_id, _). (Reverse creation_date, comment_id)) rows)))"

subsection \<open>Friends to recommend\<close>

definition ic10_score :: "snb_graph \<Rightarrow> vertex_id hash_set \<Rightarrow> vertex_id \<Rightarrow> int" where
  "ic10_score g person_tags fof =
     (let posts = in_posts_creators g fof;
          total = int (length posts);
          common = int (length (filter (\<lambda>post. list_ex (\<lambda>t. t \<in> set person_tags) (has_tag_neighbors g post)) posts))
      in 2 * common - total)"

definition ic10 :: "snb_graph \<Rightarrow> int \<Rightarrow> u32 \<Rightarrow> nat \<Rightarrow> ic10_row list" where
  "ic10 g person_id month limit =
     (let start = encode_vid Person person_id;
          person_tags = hs_of_list (out_neighbors g start HasInterest);
          rows = List.map_filter (\<lambda>fof. do {
                person \<leftarrow> sg_person g fof;
                if birthday_in_month_day_range (pe_birthday person) month
                then Some (ic10_score g person_tags fof, pe_id person, fof) else None })
            (knows_fof g start)
      in if sg_person g start = None \<or> person_tags = [] then []
         else map (\<lambda>(score, _, vid).
             let person = the (sg_person g vid)
             in \<lparr>ic10_person_id = pe_id person, ic10_person_first_name = pe_first_name person,
                 ic10_person_last_name = pe_last_name person, ic10_common_interest_score = score,
                 ic10_person_gender = pe_gender person, ic10_person_city_name = person_city_name g vid\<rparr>)
           (take limit (sort_key (\<lambda>(score, pid, _). (Reverse score, pid)) rows)))"

definition ic11 :: "snb_graph \<Rightarrow> int \<Rightarrow> string \<Rightarrow> int \<Rightarrow> nat \<Rightarrow> ic11_row list" where
  "ic11 g person_id country_name work_from_year limit =
     (let start = encode_vid Person person_id;
          rows = concat (map (\<lambda>friend.
              case sg_person g friend of
                None \<Rightarrow> []
              | Some person \<Rightarrow>
                  List.map_filter (\<lambda>(org, edge).
                      if work_from_year \<le> prop_as_i32 edge then None
                      else if \<not> list_ex (\<lambda>place. place_name g place = country_name) (out_neighbors g org IsLocatedIn)
                        then None
                      else Some (prop_as_i32 edge, pe_id person,
                          unwrap_or [] (map_option og_name (sg_organisation g org)), friend))
                    (out_edges_with_prop g friend WorkAt))
            (knows_bfs_2hop g start))
      in if sg_person g start = None then []
         else map (\<lambda>(work_from, _, org_name, friend).
             let person = the (sg_person g friend)
             in \<lparr>ic11_person_id = pe_id person, ic11_person_first_name = pe_first_name person,
                 ic11_person_last_name = pe_last_name person, ic11_organization_name = org_name,
                 ic11_organization_work_from_year = work_from\<rparr>)
           (take limit (sort_key (\<lambda>(work_from, pid, org_name, _). (work_from, pid, Reverse org_name)) rows)))"

subsection \<open>Expert friends\<close>

definition ic12_tag_set :: "snb_graph \<Rightarrow> vertex_id hash_set \<Rightarrow> vertex_id hash_set" where
  "ic12_tag_set g ancestors =
     hs_of_list (filter (\<lambda>tag. list_ex (\<lambda>tc. tc \<in> set ancestors) (out_neighbors g tag HasType))
       (vertices_by_label g Tag))"

definition ic12_friend :: "snb_graph \<Rightarrow> vertex_id hash_set \<Rightarrow> vertex_id \<Rightarrow> int \<times> string list" where
  "ic12_friend g tag_set friend =
     (let replies = filter (\<lambda>post. list_ex (\<lambda>t. t \<in> set tag_set) (has_tag_neighbors g post))
            (List.map_filter (\<lambda>msg. do { _ \<leftarrow> sg_comment g msg; first (out_neighbors g msg ReplyOfPost) })
              (in_messages_creators g friend));
          names = concat (map (\<lambda>post. List.map_filter (\<lambda>t. map_option ta_name (sg_tag g t))
              (filter (\<lambda>t. t \<in> set tag_set) (has_tag_neighbors g post))) replies)
      in (int (length replies), rev (sort (remdups names))))"

definition ic12 :: "snb_graph \<Rightarrow> int \<Rightarrow> string \<Rightarrow> nat \<Rightarrow> ic12_row list" where
  "ic12 g person_id tag_class_name limit =
     (let start = encode_vid Person person_id
      in if sg_person g start = None then []
         else case find_tag_class_vid g tag_class_name of
           None \<Rightarrow> []
         | Some root_tc \<Rightarrow>
             let tag_set = ic12_tag_set g (tag_class_ancestors_like_dgs g root_tc);
                 rows = List.map_filter (\<lambda>friend. do {
                     person \<leftarrow> sg_person g friend;
                     let (n, names) = ic12_friend g tag_set friend
                     in if 0 < n then Some (n, pe_id person, friend, names) else None })
                   (knows_neighbors g start)
             in if tag_set = [] then []
                else map (\<lambda>(n, _, friend, names).
                    let person = the (sg_person g friend)
                    in \<lparr>ic12_person_id = pe_id person, ic12_person_first_name = pe_first_name person,
                        ic12_person_last_name = pe_last_name person, ic12_tag_names = names,
                        ic12_reply_count = n\<rparr>)
                  (take limit (sort_key (\<lambda>(n, pid, _). (Reverse n, pid)) rows)))"

end
