(* ===== verification/Snb_Short.thy ===== *)
theory Snb_Short
  imports Snb_Lookup
begin

section \<open>The short reads\<close>

text \<open>
  \<^verbatim>\<open>is1\<close> to \<^verbatim>\<open>is7\<close> of \<^verbatim>\<open>src/snb/queries.rs\<close> with the rows they return. A
  \<^verbatim>\<open>sort_by\<close> is stable, so it is \<open>sort_key\<close> with the fields compared, \<open>Reverse\<close> where the
  arguments of \<^verbatim>\<open>cmp\<close> are swapped.
\<close>

record is1_row =
  is1_first_name :: string
  is1_last_name :: string
  is1_birthday :: int
  is1_location_ip :: string
  is1_browser_used :: string
  is1_city_id :: int
  is1_gender :: string
  is1_creation_date :: int

record is2_row =
  is2_message_id :: int
  is2_message_content :: string
  is2_message_creation_date :: int
  is2_original_post_id :: int
  is2_original_post_author_id :: int
  is2_original_post_author_first_name :: string
  is2_original_post_author_last_name :: string

record is3_row =
  is3_person_id :: int
  is3_first_name :: string
  is3_last_name :: string
  is3_friendship_creation_date :: int

record is4_row =
  is4_message_creation_date :: int
  is4_message_content :: string

record is5_row =
  is5_person_id :: int
  is5_first_name :: string
  is5_last_name :: string

record is6_row =
  is6_forum_id :: int
  is6_forum_title :: string
  is6_moderator_id :: int
  is6_moderator_first_name :: string
  is6_moderator_last_name :: string

record is7_row =
  is7_comment_id :: int
  is7_comment_content :: string
  is7_comment_creation_date :: int
  is7_reply_author_id :: int
  is7_reply_author_first_name :: string
  is7_reply_author_last_name :: string
  is7_knows :: bool

definition is1 :: "snb_graph \<Rightarrow> int \<Rightarrow> is1_row option" where
  "is1 g person_id = do {
     person \<leftarrow> sg_person g (encode_vid Person person_id);
     Some \<lparr>is1_first_name = pe_first_name person, is1_last_name = pe_last_name person,
       is1_birthday = pe_birthday person, is1_location_ip = pe_location_ip person,
       is1_browser_used = pe_browser_used person, is1_city_id = pe_place person,
       is1_gender = pe_gender person, is1_creation_date = pe_creation_date person\<rparr> }"

definition is2_row_of :: "snb_graph \<Rightarrow> vertex_id \<Rightarrow> is2_row option" where
  "is2_row_of g msg = do {
     (message_id, creation_date, content) \<leftarrow> message_summary g msg;
     post_vid \<leftarrow> root_post_vid g msg;
     post \<leftarrow> sg_post g post_vid;
     author_vid \<leftarrow> message_creator_vid g post_vid;
     author \<leftarrow> sg_person g author_vid;
     Some \<lparr>is2_message_id = message_id, is2_message_content = content,
       is2_message_creation_date = creation_date, is2_original_post_id = po_id post,
       is2_original_post_author_id = pe_id author,
       is2_original_post_author_first_name = pe_first_name author,
       is2_original_post_author_last_name = pe_last_name author\<rparr> }"

definition is2 :: "snb_graph \<Rightarrow> int \<Rightarrow> nat \<Rightarrow> is2_row list" where
  "is2 g person_id limit =
     (let person_vid = encode_vid Person person_id
      in if sg_person g person_vid = None then []
         else take limit
           (sort_key (\<lambda>r. (Reverse (is2_message_creation_date r), is2_message_id r))
             (List.map_filter (is2_row_of g) (in_messages_creators g person_vid))))"

definition is3 :: "snb_graph \<Rightarrow> int \<Rightarrow> is3_row list" where
  "is3 g person_id =
     (let person_vid = encode_vid Person person_id
      in if sg_person g person_vid = None then []
         else sort_key (\<lambda>r. (Reverse (is3_friendship_creation_date r), is3_person_id r))
           (List.map_filter (\<lambda>(friend_vid, edge). do {
                friend \<leftarrow> sg_person g friend_vid;
                Some \<lparr>is3_person_id = pe_id friend, is3_first_name = pe_first_name friend,
                  is3_last_name = pe_last_name friend, is3_friendship_creation_date = prop_as_i64 edge\<rparr> })
             (out_edges_with_prop g person_vid Knows)))"

definition is4 :: "snb_graph \<Rightarrow> int \<Rightarrow> is4_row option" where
  "is4 g message_id = do {
     msg \<leftarrow> message_vid g message_id;
     (_, creation_date, content) \<leftarrow> message_summary g msg;
     Some \<lparr>is4_message_creation_date = creation_date, is4_message_content = content\<rparr> }"

definition is5 :: "snb_graph \<Rightarrow> int \<Rightarrow> is5_row option" where
  "is5 g message_id = do {
     msg \<leftarrow> message_vid g message_id;
     creator \<leftarrow> message_creator_vid g msg;
     person \<leftarrow> sg_person g creator;
     Some \<lparr>is5_person_id = pe_id person, is5_first_name = pe_first_name person,
       is5_last_name = pe_last_name person\<rparr> }"

definition is6 :: "snb_graph \<Rightarrow> int \<Rightarrow> is6_row option" where
  "is6 g message_id = do {
     msg \<leftarrow> message_vid g message_id;
     post \<leftarrow> root_post_vid g msg;
     forum_vid \<leftarrow> first (in_neighbors g post ContainerOf);
     forum \<leftarrow> sg_forum g forum_vid;
     moderator_vid \<leftarrow> first (out_neighbors g forum_vid HasModerator);
     moderator \<leftarrow> sg_person g moderator_vid;
     Some \<lparr>is6_forum_id = fo_id forum, is6_forum_title = fo_title forum, is6_moderator_id = pe_id moderator,
       is6_moderator_first_name = pe_first_name moderator, is6_moderator_last_name = pe_last_name moderator\<rparr> }"

definition collect_is7_reply :: "snb_graph \<Rightarrow> vertex_id hash_set \<Rightarrow> vertex_id \<Rightarrow> is7_row option" where
  "collect_is7_reply g original_author_friends reply = do {
     comment \<leftarrow> sg_comment g reply;
     author_vid \<leftarrow> message_creator_vid g reply;
     author \<leftarrow> sg_person g author_vid;
     Some \<lparr>is7_comment_id = co_id comment, is7_comment_content = co_content comment,
       is7_comment_creation_date = co_creation_date comment, is7_reply_author_id = pe_id author,
       is7_reply_author_first_name = pe_first_name author, is7_reply_author_last_name = pe_last_name author,
       is7_knows = (author_vid \<in> set original_author_friends)\<rparr> }"

definition is7 :: "snb_graph \<Rightarrow> int \<Rightarrow> is7_row list" where
  "is7 g message_id =
     (case do { msg \<leftarrow> message_vid g message_id; author \<leftarrow> message_creator_vid g msg; Some (msg, author) } of
        None \<Rightarrow> []
      | Some (msg, original_author) \<Rightarrow>
          let direct_friends = hs_of_list (knows_neighbors g original_author)
          in sort_key (\<lambda>r. (Reverse (is7_comment_creation_date r), is7_reply_author_id r))
               (List.map_filter (collect_is7_reply g direct_friends)
                 (in_neighbors g msg ReplyOfPost @ in_neighbors g msg ReplyOfComment)))"

subsection \<open>The root post of a reply\<close>

text \<open>The chain of replies as a relation: a message steps to the comment it replies to, and ends at the
  post it replies to.\<close>

inductive reply_chain :: "snb_graph \<Rightarrow> vertex_id \<Rightarrow> vertex_id \<Rightarrow> bool" for g where
  ends: "first (out_neighbors g msg ReplyOfPost) = Some post \<Longrightarrow> reply_chain g msg post"
| steps: "first (out_neighbors g msg ReplyOfPost) = None \<Longrightarrow>
    first (out_neighbors g msg ReplyOfComment) = Some parent \<Longrightarrow>
    reply_chain g parent post \<Longrightarrow> reply_chain g msg post"

inductive_cases reply_chainE: "reply_chain g msg post"

definition parent_of :: "snb_graph \<Rightarrow> vertex_id \<Rightarrow> vertex_id option" where
  "parent_of g msg =
     (case first (out_neighbors g msg ReplyOfPost) of Some _ \<Rightarrow> None
      | None \<Rightarrow> first (out_neighbors g msg ReplyOfComment))"

lemma root_post_loop_sound: "root_post_loop g msg seen = Some post \<Longrightarrow> reply_chain g msg post"
proof (induction g msg seen rule: root_post_loop.induct)
  case (1 g msg seen)
  from "1.prems" show ?case
    by (subst (asm) root_post_loop.simps)
      (auto split: if_splits option.splits intro: reply_chain.intros "1.IH")
qed

text \<open>A chain that ends at a post never comes back to a message: the loop sees no message twice.\<close>

lemma reply_chain_det: "reply_chain g msg post \<Longrightarrow> reply_chain g msg post' \<Longrightarrow> post = post'"
proof (induction rule: reply_chain.induct)
  case (ends msg post)
  then show ?case by (auto elim: reply_chainE)
next
  case (steps msg parent post)
  then show ?case by (auto elim: reply_chain.cases)
qed

lemma root_post_loop_complete:
  assumes "reply_chain g msg post" "\<forall>s \<in> set seen. (s, msg) \<in> {(a, b). parent_of g a = Some b}\<^sup>+"
  shows "root_post_loop g msg seen = Some post"
proof -
  let ?R = "{(a, b). parent_of g a = Some b}"
  have acyclic: "(m, m) \<notin> ?R\<^sup>+" if "reply_chain g m p" for m p
    using that
  proof (induction rule: reply_chain.induct)
    case (ends msg post)
    then have "parent_of g msg = None" by (simp add: parent_of_def)
    then show ?case by (auto dest!: tranclD)
  next
    case (steps msg parent post)
    have up: "parent_of g msg = Some parent" using steps.hyps by (simp add: parent_of_def)
    show ?case
    proof
      assume "(msg, msg) \<in> ?R\<^sup>+"
      then obtain b where "(msg, b) \<in> ?R" "(b, msg) \<in> ?R\<^sup>*" by (auto dest: tranclD)
      moreover from this(1) up have "b = parent" by simp
      ultimately have "(parent, msg) \<in> ?R\<^sup>*" by blast
      then have "(parent, parent) \<in> ?R\<^sup>+" using up by (meson rtrancl_into_trancl1 case_prodI mem_Collect_eq)
      then show False using steps.IH by blast
    qed
  qed
  from assms show ?thesis
  proof (induction arbitrary: seen rule: reply_chain.induct)
    case (ends msg post)
    then have "msg \<notin> set seen" using acyclic reply_chain.ends by blast
    with ends show ?case by (simp add: root_post_loop.simps)
  next
    case (steps msg parent post)
    have "msg \<notin> set seen" using steps acyclic reply_chain.steps by blast
    moreover have "parent_of g msg = Some parent" using steps.hyps by (simp add: parent_of_def)
    then have "\<forall>s \<in> set (hs_insert msg seen). (s, parent) \<in> ?R\<^sup>+"
      using steps.prems by (auto intro: trancl_into_trancl)
    ultimately show ?case using steps by (simp add: root_post_loop.simps [of g msg seen])
  qed
qed

text \<open>C22. The root post of a message is found exactly when its chain of replies ends at a post: the search
  always returns, on a chain that comes back to itself too, and then finds nothing.\<close>

theorem root_post_correct:
  "root_post_vid g msg = Some post \<longleftrightarrow>
     (if sg_post g msg \<noteq> None then post = msg else reply_chain g msg post)"
  using root_post_loop_sound [of g msg "[]" post] root_post_loop_complete [of g msg post "[]"]
  by (auto simp: root_post_vid_def)

end
