(* ===== verification/Snb_Paths.thy ===== *)
theory Snb_Paths
  imports Snb_Lookup
begin

section \<open>Shortest paths\<close>

text \<open>
  \<^verbatim>\<open>ic13\<close> and \<^verbatim>\<open>ic14\<close> of \<^verbatim>\<open>src/snb/queries.rs\<close>: the distance of two persons in the
  friendship graph, and all shortest paths between them with their weights. A weight is a
  multiple of one half, which an \<^verbatim>\<open>f64\<close> holds exactly; the model counts halves.
\<close>

subsection \<open>The distance of two persons\<close>

text \<open>The \<^verbatim>\<open>for\<close> loop over the neighbours of one vertex: \<open>Inl\<close> is the early return.\<close>

fun ic13_neighbors ::
  "vertex_id \<Rightarrow> int \<Rightarrow> vertex_id list \<Rightarrow> vertex_id hash_set \<Rightarrow> (vertex_id \<times> int) list \<Rightarrow>
   int + (vertex_id hash_set \<times> (vertex_id \<times> int) list)"
where
  "ic13_neighbors goal depth [] seen queue = Inr (seen, queue)"
| "ic13_neighbors goal depth (nbr # nbrs) seen queue =
     (if nbr \<in> set seen then ic13_neighbors goal depth nbrs seen queue
      else if nbr = goal then Inl (depth + 1)
      else ic13_neighbors goal depth nbrs (hs_insert nbr seen) (queue @ [(nbr, depth + 1)]))"

lemma ic13_neighbors_measure:
  "ic13_neighbors goal depth nbrs seen queue = Inr (seen', queue') \<Longrightarrow>
   2 * card (UNIV - set seen') + length queue' \<le> 2 * card (UNIV - set seen) + length queue"
proof (induction goal depth nbrs seen queue rule: ic13_neighbors.induct)
  case (2 goal depth nbr nbrs seen queue)
  then show ?case using unmarked_less [of nbr seen] by (fastforce split: if_splits)
qed simp

function ic13_loop :: "snb_graph \<Rightarrow> vertex_id \<Rightarrow> vertex_id hash_set \<Rightarrow> (vertex_id \<times> int) list \<Rightarrow> int" where
  "ic13_loop g goal seen [] = -1"
| "ic13_loop g goal seen ((vid, depth) # queue) =
     (case ic13_neighbors goal depth (knows_neighbors g vid) seen queue of
        Inl n \<Rightarrow> n
      | Inr (seen, queue) \<Rightarrow> ic13_loop g goal seen queue)"
  by pat_completeness auto
termination
  by (relation "measure (\<lambda>(g, goal, seen, queue). 2 * card (UNIV - set seen) + length queue)")
    (auto dest: ic13_neighbors_measure)

definition ic13 :: "snb_graph \<Rightarrow> int \<Rightarrow> int \<Rightarrow> int" where
  "ic13 g person1_id person2_id =
     (if person1_id = person2_id then 0
      else let start = encode_vid Person person1_id; goal = encode_vid Person person2_id
        in if sg_person g start = None \<or> sg_person g goal = None then -1
           else ic13_loop g goal [start] [(start, 0)])"

subsection \<open>Weights\<close>

record ic14_cache =
  ic_comment_creator :: "(vertex_id, vertex_id) hash_map"
  ic_knows_weight :: "(vertex_id \<times> vertex_id, int) hash_map"

definition ic14_cache_new :: ic14_cache where
  "ic14_cache_new = \<lparr>ic_comment_creator = [], ic_knows_weight = []\<rparr>"

definition comment_creator :: "snb_graph \<Rightarrow> vertex_id \<Rightarrow> ic14_cache \<Rightarrow> vertex_id option \<times> ic14_cache" where
  "comment_creator g msg c =
     (case hm_get (ic_comment_creator c) msg of
        Some creator \<Rightarrow> (Some creator, c)
      | None \<Rightarrow> (case message_creator_vid g msg of
          None \<Rightarrow> (None, c)
        | Some creator \<Rightarrow> (Some creator, c\<lparr>ic_comment_creator := hm_insert msg creator (ic_comment_creator c)\<rparr>)))"

text \<open>The loops of \<^verbatim>\<open>reply_weight\<close>, in halves: a reply to a post counts two, to a comment one.\<close>

definition add_replies ::
  "snb_graph \<Rightarrow> vertex_id \<Rightarrow> int \<Rightarrow> vertex_id list \<Rightarrow> int \<times> ic14_cache \<Rightarrow> int \<times> ic14_cache"
where
  "add_replies g target halves =
     fold (\<lambda>m (weight, c). case comment_creator g m c of
       (creator, c) \<Rightarrow> (if creator = Some target then weight + halves else weight, c))"

definition reply_weight :: "snb_graph \<Rightarrow> vertex_id \<Rightarrow> vertex_id \<Rightarrow> ic14_cache \<Rightarrow> int \<times> ic14_cache" where
  "reply_weight g author target c =
     fold (\<lambda>msg (weight, c). case comment_creator g msg c of
         (creator, c) \<Rightarrow>
           if creator \<noteq> Some author then (weight, c)
           else add_replies g target 1 (out_neighbors g msg ReplyOfComment)
             (add_replies g target 2 (out_neighbors g msg ReplyOfPost) (weight, c)))
       (in_neighbors g author HasCreator) (0, c)"

definition knows_weight :: "snb_graph \<Rightarrow> vertex_id \<Rightarrow> vertex_id \<Rightarrow> ic14_cache \<Rightarrow> int \<times> ic14_cache" where
  "knows_weight g a b c =
     (let key = (if a \<le> b then (a, b) else (b, a))
      in case hm_get (ic_knows_weight c) key of
           Some weight \<Rightarrow> (weight, c)
         | None \<Rightarrow>
             (case reply_weight g a b c of (wa, c) \<Rightarrow>
              case reply_weight g b a c of (wb, c) \<Rightarrow>
                (wa + wb, c\<lparr>ic_knows_weight := hm_insert key (wa + wb) (ic_knows_weight c)\<rparr>)))"

subsection \<open>All shortest paths\<close>

record parent_dag =
  dag_vids :: "vertex_id list"
  dag_depths :: "nat list"
  dag_parents :: "nat list list"
  dag_index :: "(vertex_id, nat) hash_map"
  dag_next :: "nat list"
  dag_goal :: "(nat \<times> nat) option"

definition dag_start :: "vertex_id \<Rightarrow> parent_dag" where
  "dag_start start =
     \<lparr>dag_vids = [start], dag_depths = [0], dag_parents = [[]], dag_index = hm_insert start 0 [],
      dag_next = [], dag_goal = None\<rparr>"

definition dag_visit :: "vertex_id \<Rightarrow> nat \<Rightarrow> nat \<Rightarrow> vertex_id \<Rightarrow> parent_dag \<Rightarrow> parent_dag" where
  "dag_visit goal next_depth idx nbr d =
     (case hm_get (dag_index d) nbr of
        Some nidx \<Rightarrow>
          if dag_depths d ! nidx = next_depth
          then d\<lparr>dag_parents := (dag_parents d)[nidx := dag_parents d ! nidx @ [idx]]\<rparr> else d
      | None \<Rightarrow>
          let nidx = length (dag_vids d)
          in d\<lparr>dag_vids := dag_vids d @ [nbr], dag_depths := dag_depths d @ [next_depth],
               dag_parents := dag_parents d @ [[idx]], dag_index := hm_insert nbr nidx (dag_index d),
               dag_next := dag_next d @ [nidx],
               dag_goal := (if nbr = goal then Some (nidx, next_depth) else dag_goal d)\<rparr>)"

definition dag_level :: "snb_graph \<Rightarrow> vertex_id \<Rightarrow> nat list \<Rightarrow> parent_dag \<Rightarrow> parent_dag" where
  "dag_level g goal frontier d =
     (let next_depth = dag_depths d ! hd frontier + 1
      in fold (\<lambda>idx d. fold (dag_visit goal next_depth idx) (knows_neighbors g (dag_vids d ! idx)) d)
           frontier (d\<lparr>dag_next := []\<rparr>))"

partial_function (option) dag_loop :: "snb_graph \<Rightarrow> vertex_id \<Rightarrow> nat list \<Rightarrow> parent_dag \<Rightarrow> parent_dag option" where
  "dag_loop g goal frontier d =
     (if frontier = [] \<or> dag_goal d \<noteq> None then Some d
      else let d = dag_level g goal frontier d in dag_loop g goal (dag_next d) d)"

declare dag_loop.simps [code]

text \<open>\<^verbatim>\<open>shortest_path_parent_dag\<close>: the outer \<open>None\<close> would be a search that does not end, which
  \<open>dag_loop_ends\<close> excludes; the inner one is the \<^verbatim>\<open>?\<close> on a goal not reached.\<close>

definition shortest_path_parent_dag ::
  "vertex_id \<Rightarrow> vertex_id \<Rightarrow> snb_graph \<Rightarrow> (vertex_id list \<times> nat list list \<times> nat \<times> nat) option option"
where
  "shortest_path_parent_dag start goal g =
     map_option (\<lambda>d. map_option (\<lambda>(goal_idx, goal_depth). (dag_vids d, dag_parents d, goal_idx, goal_depth))
       (dag_goal d)) (dag_loop g goal [0] (dag_start start))"

fun path_weight :: "snb_graph \<Rightarrow> vertex_id list \<Rightarrow> ic14_cache \<Rightarrow> int \<times> ic14_cache" where
  "path_weight g (a # b # path) c =
     (case knows_weight g a b c of (w, c) \<Rightarrow> case path_weight g (b # path) c of (w', c) \<Rightarrow> (w + w', c))"
| "path_weight g path c = (0, c)"

text \<open>\<^verbatim>\<open>enumerate_paths\<close>: \<open>rev_path\<close> is \<^verbatim>\<open>current_rev\<close>, the vertex ids from the goal down to the
  current one.\<close>

fun enumerate_paths ::
  "snb_graph \<Rightarrow> vertex_id list \<Rightarrow> nat list list \<Rightarrow> nat \<Rightarrow> nat \<Rightarrow> vertex_id list \<Rightarrow>
   (vertex_id list \<times> int) list \<times> ic14_cache \<Rightarrow> (vertex_id list \<times> int) list \<times> ic14_cache"
where
  "enumerate_paths g vids parents 0 cur rev_path out =
     (let path = rev (rev_path @ [vids ! cur])
      in case path_weight g path (snd out) of (w, c) \<Rightarrow> (fst out @ [(path, w)], c))"
| "enumerate_paths g vids parents (Suc depth) cur rev_path out =
     fold (\<lambda>parent. enumerate_paths g vids parents depth parent (rev_path @ [vids ! cur])) (parents ! cur) out"

definition all_shortest_paths ::
  "vertex_id \<Rightarrow> vertex_id \<Rightarrow> snb_graph \<Rightarrow> ic14_cache \<Rightarrow> (vertex_id list \<times> int) list option"
where
  "all_shortest_paths start goal g c =
     (if start = goal then Some [([start], 0)]
      else map_option (\<lambda>dag. case dag of
          None \<Rightarrow> []
        | Some (vids, parents, goal_idx, goal_depth) \<Rightarrow>
            fst (enumerate_paths g vids parents goal_depth goal_idx [] ([], c)))
        (shortest_path_parent_dag start goal g))"

subsection \<open>The order of the paths\<close>

type_synonym heap_item = "vertex_id list \<times> int \<times> vertex_id"

definition item_greater :: "heap_item \<Rightarrow> heap_item \<Rightarrow> bool" where
  "item_greater a b = (case (a, b) of ((_, wa, sa), (_, wb, sb)) \<Rightarrow> wa < wb \<or> wa = wb \<and> sb < sa)"

function sift_up :: "heap_item list \<Rightarrow> nat \<Rightarrow> heap_item list" where
  "sift_up heap i =
     (if i = 0 then heap
      else let parent = (i - 1) div 2
        in if item_greater (heap ! i) (heap ! parent)
           then sift_up (heap[i := heap ! parent, parent := heap ! i]) parent else heap)"
  by pat_completeness auto
termination
  by (relation "measure snd") auto

declare sift_up.simps [simp del]

definition ic14_topk_order :: "(vertex_id list \<times> int) list \<Rightarrow> (vertex_id list \<times> int) list" where
  "ic14_topk_order paths =
     map (\<lambda>(path, weight, _). (path, weight))
       (sort_key (\<lambda>(_, weight, start). (Reverse weight, start))
         (fold (\<lambda>(path, weight) heap. sift_up (heap @ [(path, weight, unwrap_or 0 (first path))]) (length heap))
           paths []))"

definition person_path_ids :: "snb_graph \<Rightarrow> vertex_id list \<Rightarrow> int list" where
  "person_path_ids g path = List.map_filter (\<lambda>vid. map_option pe_id (sg_person g vid)) path"

record ic14_row =
  ic14_person_ids_in_path :: "int list"
  ic14_path_weight :: int

definition ic14 :: "snb_graph \<Rightarrow> int \<Rightarrow> int \<Rightarrow> ic14_row list option" where
  "ic14 g person1_id person2_id =
     (let start = encode_vid Person person1_id; goal = encode_vid Person person2_id
      in if sg_person g start = None \<or> sg_person g goal = None then Some []
         else map_option (\<lambda>paths. map (\<lambda>(path, weight).
                \<lparr>ic14_person_ids_in_path = person_path_ids g path, ic14_path_weight = weight\<rparr>)
              (ic14_topk_order paths))
            (all_shortest_paths start goal g ic14_cache_new))"

end
