(* ===== verification/Snb_Api.thy ===== *)
theory Snb_Api
  imports Snb_Complex Snb_Short Snb_Paths
begin

section \<open>The query interface\<close>

text \<open>
  How a query arrives and leaves in \<^verbatim>\<open>src/snb/queries.rs\<close>. A JSON value belongs to
  \<^verbatim>\<open>serde_json\<close>, so the functions take its operations as a parameter: the accessors
  \<^verbatim>\<open>get\<close>, \<^verbatim>\<open>as_i64\<close>, \<^verbatim>\<open>as_u64\<close>, \<^verbatim>\<open>as_str\<close>, \<^verbatim>\<open>as_array\<close> and the
  constructors of the \<^verbatim>\<open>json!\<close> macro. A row is serialised field by field under the names
  the derived \<^verbatim>\<open>Serialize\<close> gives.
\<close>

record 'j json_ops =
  j_get :: "'j \<Rightarrow> string \<Rightarrow> 'j option"
  j_as_i64 :: "'j \<Rightarrow> int option"
  j_as_u64 :: "'j \<Rightarrow> nat option"
  j_as_str :: "'j \<Rightarrow> string option"
  j_as_array :: "'j \<Rightarrow> 'j list option"
  j_null :: 'j
  j_bool :: "bool \<Rightarrow> 'j"
  j_int :: "int \<Rightarrow> 'j"
  j_half :: "int \<Rightarrow> 'j"
  j_str :: "string \<Rightarrow> 'j"
  j_array :: "'j list \<Rightarrow> 'j"
  j_object :: "(string \<times> 'j) list \<Rightarrow> 'j"

subsection \<open>Parameters\<close>

definition req_i64 :: "'j json_ops \<Rightarrow> 'j \<Rightarrow> string \<Rightarrow> int" where
  "req_i64 J params key = unwrap_or 0 (do { v \<leftarrow> j_get J params key; j_as_i64 J v })"

definition optional_positive_i64 :: "'j json_ops \<Rightarrow> 'j \<Rightarrow> string \<Rightarrow> int option" where
  "optional_positive_i64 J params key =
     (let value = req_i64 J params key in if 0 \<le> value then Some value else None)"

fun req_i64_any :: "'j json_ops \<Rightarrow> 'j \<Rightarrow> string list \<Rightarrow> int" where
  "req_i64_any J params [] = 0"
| "req_i64_any J params (key # keys) =
     (case do { v \<leftarrow> j_get J params key; j_as_i64 J v } of
        Some i \<Rightarrow> i
      | None \<Rightarrow> req_i64_any J params keys)"

definition req_str :: "'j json_ops \<Rightarrow> 'j \<Rightarrow> string \<Rightarrow> string" where
  "req_str J params key = unwrap_or [] (do { v \<leftarrow> j_get J params key; j_as_str J v })"

definition req_object_array :: "'j json_ops \<Rightarrow> 'j \<Rightarrow> string \<Rightarrow> 'j list" where
  "req_object_array J params key = unwrap_or [] (do { v \<leftarrow> j_get J params key; j_as_array J v })"

definition req_i64_array :: "'j json_ops \<Rightarrow> 'j \<Rightarrow> string \<Rightarrow> int list" where
  "req_i64_array J params key = List.map_filter (j_as_i64 J) (req_object_array J params key)"

definition has_key :: "'j json_ops \<Rightarrow> 'j \<Rightarrow> string \<Rightarrow> bool" where
  "has_key J params key \<longleftrightarrow> j_get J params key \<noteq> None"

definition as_u32 :: "int \<Rightarrow> u32" where
  "as_u32 i = of_int i"

definition as_i32 :: "int \<Rightarrow> int" where
  "as_i32 i = sint (of_int i :: i32)"

subsection \<open>Rows\<close>

definition j_opt :: "'j json_ops \<Rightarrow> ('a \<Rightarrow> 'j) \<Rightarrow> 'a option \<Rightarrow> 'j" where
  "j_opt J f r = (case r of None \<Rightarrow> j_null J | Some x \<Rightarrow> f x)"

definition j_rows :: "'j json_ops \<Rightarrow> ('a \<Rightarrow> 'j) \<Rightarrow> 'a list \<Rightarrow> 'j" where
  "j_rows J f rows = j_array J (map f rows)"

definition org_value :: "'j json_ops \<Rightarrow> org_json \<Rightarrow> 'j" where
  "org_value J r = j_object J [(''organizationName'', j_str J (oj_organization_name r)),
     (''year'', j_int J (oj_year r)), (''placeName'', j_str J (oj_place_name r))]"

definition org_tuples :: "'j json_ops \<Rightarrow> org_json list \<Rightarrow> 'j list" where
  "org_tuples J rows =
     map (\<lambda>r. j_array J [j_str J (oj_organization_name r), j_int J (oj_year r), j_str J (oj_place_name r)]) rows"

definition ic1_value :: "'j json_ops \<Rightarrow> ic1_row \<Rightarrow> 'j" where
  "ic1_value J r = j_object J [
     (''friendId'', j_int J (ic1_friend_id r)),
     (''friendLastName'', j_str J (ic1_friend_last_name r)),
     (''distanceFromPerson'', j_int J (ic1_distance_from_person r)),
     (''friendBirthday'', j_int J (ic1_friend_birthday r)),
     (''friendCreationDate'', j_int J (ic1_friend_creation_date r)),
     (''friendGender'', j_str J (ic1_friend_gender r)),
     (''friendBrowserUsed'', j_str J (ic1_friend_browser_used r)),
     (''friendLocationIp'', j_str J (ic1_friend_location_ip r)),
     (''friendEmails'', j_array J (map (j_str J) (ic1_friend_emails r))),
     (''friendLanguages'', j_array J (map (j_str J) (ic1_friend_languages r))),
     (''friendCityName'', j_str J (ic1_friend_city_name r)),
     (''friendUniversities'', j_array J (map (org_value J) (ic1_friend_universities r))),
     (''friendCompanies'', j_array J (map (org_value J) (ic1_friend_companies r)))]"

definition message_value :: "'j json_ops \<Rightarrow> message_row \<Rightarrow> 'j" where
  "message_value J r = j_object J [
     (''personId'', j_int J (mr_person_id r)),
     (''personFirstName'', j_str J (mr_person_first_name r)),
     (''personLastName'', j_str J (mr_person_last_name r)),
     (''messageId'', j_int J (mr_message_id r)), (''messageContent'', j_str J (mr_message_content r)),
     (''messageCreationDate'', j_int J (mr_message_creation_date r))]"

definition ic3_value :: "'j json_ops \<Rightarrow> ic3_row \<Rightarrow> 'j" where
  "ic3_value J r = j_object J [
     (''personId'', j_int J (ic3_person_id r)),
     (''personFirstName'', j_str J (ic3_person_first_name r)),
     (''personLastName'', j_str J (ic3_person_last_name r)), (''xCount'', j_int J (ic3_x_count r)),
     (''yCount'', j_int J (ic3_y_count r)), (''count'', j_int J (ic3_count r))]"

definition ic4_value :: "'j json_ops \<Rightarrow> ic4_row \<Rightarrow> 'j" where
  "ic4_value J r = j_object J [
     (''tagName'', j_str J (ic4_tag_name r)), (''postCount'', j_int J (ic4_post_count r))]"

definition ic5_value :: "'j json_ops \<Rightarrow> ic5_row \<Rightarrow> 'j" where
  "ic5_value J r = j_object J [
     (''forumTitle'', j_str J (ic5_forum_title r)), (''postCount'', j_int J (ic5_post_count r))]"

definition ic6_value :: "'j json_ops \<Rightarrow> ic6_row \<Rightarrow> 'j" where
  "ic6_value J r = j_object J [
     (''tagName'', j_str J (ic6_tag_name r)), (''postCount'', j_int J (ic6_post_count r))]"

definition ic7_value :: "'j json_ops \<Rightarrow> ic7_row \<Rightarrow> 'j" where
  "ic7_value J r = j_object J [
     (''personId'', j_int J (ic7_person_id r)),
     (''personFirstName'', j_str J (ic7_person_first_name r)),
     (''personLastName'', j_str J (ic7_person_last_name r)),
     (''likeCreationDate'', j_int J (ic7_like_creation_date r)),
     (''messageId'', j_int J (ic7_message_id r)),
     (''messageContent'', j_str J (ic7_message_content r)),
     (''minutesLatency'', j_int J (ic7_minutes_latency r)), (''isNew'', j_bool J (ic7_is_new r))]"

definition ic8_value :: "'j json_ops \<Rightarrow> ic8_row \<Rightarrow> 'j" where
  "ic8_value J r = j_object J [
     (''personId'', j_int J (ic8_person_id r)),
     (''personFirstName'', j_str J (ic8_person_first_name r)),
     (''personLastName'', j_str J (ic8_person_last_name r)),
     (''commentCreationDate'', j_int J (ic8_comment_creation_date r)),
     (''commentId'', j_int J (ic8_comment_id r)), (''commentContent'', j_str J (ic8_comment_content r))]"

definition ic10_value :: "'j json_ops \<Rightarrow> ic10_row \<Rightarrow> 'j" where
  "ic10_value J r = j_object J [
     (''personId'', j_int J (ic10_person_id r)),
     (''personFirstName'', j_str J (ic10_person_first_name r)),
     (''personLastName'', j_str J (ic10_person_last_name r)),
     (''commonInterestScore'', j_int J (ic10_common_interest_score r)),
     (''personGender'', j_str J (ic10_person_gender r)),
     (''personCityName'', j_str J (ic10_person_city_name r))]"

definition ic11_value :: "'j json_ops \<Rightarrow> ic11_row \<Rightarrow> 'j" where
  "ic11_value J r = j_object J [
     (''personId'', j_int J (ic11_person_id r)),
     (''personFirstName'', j_str J (ic11_person_first_name r)),
     (''personLastName'', j_str J (ic11_person_last_name r)),
     (''organizationName'', j_str J (ic11_organization_name r)),
     (''organizationWorkFromYear'', j_int J (ic11_organization_work_from_year r))]"

definition ic12_value :: "'j json_ops \<Rightarrow> ic12_row \<Rightarrow> 'j" where
  "ic12_value J r = j_object J [
     (''personId'', j_int J (ic12_person_id r)),
     (''personFirstName'', j_str J (ic12_person_first_name r)),
     (''personLastName'', j_str J (ic12_person_last_name r)),
     (''tagNames'', j_array J (map (j_str J) (ic12_tag_names r))),
     (''replyCount'', j_int J (ic12_reply_count r))]"

definition ic14_value :: "'j json_ops \<Rightarrow> ic14_row \<Rightarrow> 'j" where
  "ic14_value J r = j_object J [
     (''personIdsInPath'', j_array J (map (j_int J) (ic14_person_ids_in_path r))),
     (''pathWeight'', j_half J (ic14_path_weight r))]"

definition is1_value :: "'j json_ops \<Rightarrow> is1_row \<Rightarrow> 'j" where
  "is1_value J r = j_object J [
     (''firstName'', j_str J (is1_first_name r)), (''lastName'', j_str J (is1_last_name r)),
     (''birthday'', j_int J (is1_birthday r)), (''locationIp'', j_str J (is1_location_ip r)),
     (''browserUsed'', j_str J (is1_browser_used r)), (''cityId'', j_int J (is1_city_id r)),
     (''gender'', j_str J (is1_gender r)), (''creationDate'', j_int J (is1_creation_date r))]"

definition is2_value :: "'j json_ops \<Rightarrow> is2_row \<Rightarrow> 'j" where
  "is2_value J r = j_object J [
     (''messageId'', j_int J (is2_message_id r)),
     (''messageContent'', j_str J (is2_message_content r)),
     (''messageCreationDate'', j_int J (is2_message_creation_date r)),
     (''originalPostId'', j_int J (is2_original_post_id r)),
     (''originalPostAuthorId'', j_int J (is2_original_post_author_id r)),
     (''originalPostAuthorFirstName'', j_str J (is2_original_post_author_first_name r)),
     (''originalPostAuthorLastName'', j_str J (is2_original_post_author_last_name r))]"

definition is3_value :: "'j json_ops \<Rightarrow> is3_row \<Rightarrow> 'j" where
  "is3_value J r = j_object J [
     (''personId'', j_int J (is3_person_id r)), (''firstName'', j_str J (is3_first_name r)),
     (''lastName'', j_str J (is3_last_name r)),
     (''friendshipCreationDate'', j_int J (is3_friendship_creation_date r))]"

definition is4_value :: "'j json_ops \<Rightarrow> is4_row \<Rightarrow> 'j" where
  "is4_value J r = j_object J [
     (''messageCreationDate'', j_int J (is4_message_creation_date r)),
     (''messageContent'', j_str J (is4_message_content r))]"

definition is5_value :: "'j json_ops \<Rightarrow> is5_row \<Rightarrow> 'j" where
  "is5_value J r = j_object J [
     (''personId'', j_int J (is5_person_id r)), (''firstName'', j_str J (is5_first_name r)),
     (''lastName'', j_str J (is5_last_name r))]"

definition is6_value :: "'j json_ops \<Rightarrow> is6_row \<Rightarrow> 'j" where
  "is6_value J r = j_object J [
     (''forumId'', j_int J (is6_forum_id r)), (''forumTitle'', j_str J (is6_forum_title r)),
     (''moderatorId'', j_int J (is6_moderator_id r)),
     (''moderatorFirstName'', j_str J (is6_moderator_first_name r)),
     (''moderatorLastName'', j_str J (is6_moderator_last_name r))]"

definition is7_value :: "'j json_ops \<Rightarrow> is7_row \<Rightarrow> 'j" where
  "is7_value J r = j_object J [
     (''commentId'', j_int J (is7_comment_id r)),
     (''commentContent'', j_str J (is7_comment_content r)),
     (''commentCreationDate'', j_int J (is7_comment_creation_date r)),
     (''replyAuthorId'', j_int J (is7_reply_author_id r)),
     (''replyAuthorFirstName'', j_str J (is7_reply_author_first_name r)),
     (''replyAuthorLastName'', j_str J (is7_reply_author_last_name r)),
     (''isReplyAuthorKnowsOriginalMessageAuthor'', j_bool J (is7_knows r))]"

subsection \<open>The rows of the HTTP interface\<close>

text \<open>\<^verbatim>\<open>join(";")\<close>.\<close>

fun join :: "string \<Rightarrow> string list \<Rightarrow> string" where
  "join sep [] = []"
| "join sep [s] = s"
| "join sep (s # t # ss) = s @ sep @ join sep (t # ss)"

definition ic1_http :: "'j json_ops \<Rightarrow> ic1_row \<Rightarrow> 'j" where
  "ic1_http J r = j_object J [
     (''personId'', j_int J (ic1_friend_id r)), (''lastName'', j_str J (ic1_friend_last_name r)),
     (''distance'', j_int J (ic1_distance_from_person r)),
     (''birthday'', j_int J (ic1_friend_birthday r)),
     (''creationDate'', j_int J (ic1_friend_creation_date r)),
     (''gender'', j_str J (ic1_friend_gender r)),
     (''browserUsed'', j_str J (ic1_friend_browser_used r)),
     (''locationIp'', j_str J (ic1_friend_location_ip r)),
     (''email'', j_str J (join '';'' (ic1_friend_emails r))),
     (''language'', j_str J (join '';'' (ic1_friend_languages r))),
     (''cityName'', j_str J (ic1_friend_city_name r)),
     (''universities'', j_array J (org_tuples J (ic1_friend_universities r))),
     (''companies'', j_array J (org_tuples J (ic1_friend_companies r)))]"

definition message_http :: "'j json_ops \<Rightarrow> message_row \<Rightarrow> 'j" where
  "message_http J r = j_object J [
     (''friendId'', j_int J (mr_person_id r)), (''firstName'', j_str J (mr_person_first_name r)),
     (''lastName'', j_str J (mr_person_last_name r)), (''messageId'', j_int J (mr_message_id r)),
     (''content'', j_str J (mr_message_content r)),
     (''creationDate'', j_int J (mr_message_creation_date r))]"

definition ic3_http :: "'j json_ops \<Rightarrow> ic3_row \<Rightarrow> 'j" where
  "ic3_http J r = j_object J [
     (''personId'', j_int J (ic3_person_id r)), (''firstName'', j_str J (ic3_person_first_name r)),
     (''lastName'', j_str J (ic3_person_last_name r)), (''xCount'', j_int J (ic3_x_count r)),
     (''yCount'', j_int J (ic3_y_count r)), (''count'', j_int J (ic3_count r))]"

definition ic7_http :: "'j json_ops \<Rightarrow> ic7_row \<Rightarrow> 'j" where
  "ic7_http J r = j_object J [
     (''personId'', j_int J (ic7_person_id r)), (''firstName'', j_str J (ic7_person_first_name r)),
     (''lastName'', j_str J (ic7_person_last_name r)),
     (''likeTime'', j_int J (ic7_like_creation_date r)), (''messageId'', j_int J (ic7_message_id r)),
     (''messageContent'', j_str J (ic7_message_content r)),
     (''minutesLatency'', j_int J (ic7_minutes_latency r)), (''isNew'', j_bool J (ic7_is_new r))]"

definition ic8_http :: "'j json_ops \<Rightarrow> ic8_row \<Rightarrow> 'j" where
  "ic8_http J r = j_object J [
     (''personId'', j_int J (ic8_person_id r)), (''firstName'', j_str J (ic8_person_first_name r)),
     (''lastName'', j_str J (ic8_person_last_name r)),
     (''commentCreationDate'', j_int J (ic8_comment_creation_date r)),
     (''commentId'', j_int J (ic8_comment_id r)), (''commentContent'', j_str J (ic8_comment_content r))]"

definition ic10_http :: "'j json_ops \<Rightarrow> ic10_row \<Rightarrow> 'j" where
  "ic10_http J r = j_object J [
     (''personId'', j_int J (ic10_person_id r)), (''firstName'', j_str J (ic10_person_first_name r)),
     (''lastName'', j_str J (ic10_person_last_name r)),
     (''score'', j_int J (ic10_common_interest_score r)),
     (''gender'', j_str J (ic10_person_gender r)), (''cityName'', j_str J (ic10_person_city_name r))]"

definition ic11_http :: "'j json_ops \<Rightarrow> ic11_row \<Rightarrow> 'j" where
  "ic11_http J r = j_object J [
     (''personId'', j_int J (ic11_person_id r)), (''firstName'', j_str J (ic11_person_first_name r)),
     (''lastName'', j_str J (ic11_person_last_name r)),
     (''organizationName'', j_str J (ic11_organization_name r)),
     (''workFromYear'', j_int J (ic11_organization_work_from_year r))]"

definition ic12_http :: "'j json_ops \<Rightarrow> ic12_row \<Rightarrow> 'j" where
  "ic12_http J r = j_object J [
     (''personId'', j_int J (ic12_person_id r)), (''firstName'', j_str J (ic12_person_first_name r)),
     (''lastName'', j_str J (ic12_person_last_name r)),
     (''tagNames'', j_array J (map (j_str J) (ic12_tag_names r))),
     (''count'', j_int J (ic12_reply_count r))]"

definition is2_http :: "'j json_ops \<Rightarrow> is2_row \<Rightarrow> 'j" where
  "is2_http J r = j_object J [
     (''messageId'', j_int J (is2_message_id r)), (''content'', j_str J (is2_message_content r)),
     (''creationDate'', j_int J (is2_message_creation_date r)),
     (''originalPostId'', j_int J (is2_original_post_id r)),
     (''originalPostAuthorId'', j_int J (is2_original_post_author_id r)),
     (''firstName'', j_str J (is2_original_post_author_first_name r)),
     (''lastName'', j_str J (is2_original_post_author_last_name r))]"

definition is4_http :: "'j json_ops \<Rightarrow> is4_row \<Rightarrow> 'j" where
  "is4_http J r = j_object J [
     (''content'', j_str J (is4_message_content r)),
     (''creationDate'', j_int J (is4_message_creation_date r))]"

definition is6_http :: "'j json_ops \<Rightarrow> is6_row \<Rightarrow> 'j" where
  "is6_http J r = j_object J [
     (''forumId'', j_int J (is6_forum_id r)), (''forumTitle'', j_str J (is6_forum_title r)),
     (''moderatorPersonId'', j_int J (is6_moderator_id r)),
     (''moderatorFirstName'', j_str J (is6_moderator_first_name r)),
     (''moderatorLastName'', j_str J (is6_moderator_last_name r))]"

definition is7_http :: "'j json_ops \<Rightarrow> is7_row \<Rightarrow> 'j" where
  "is7_http J r = j_object J [
     (''commentId'', j_int J (is7_comment_id r)), (''content'', j_str J (is7_comment_content r)),
     (''creationDate'', j_int J (is7_comment_creation_date r)),
     (''replyAuthorId'', j_int J (is7_reply_author_id r)),
     (''firstName'', j_str J (is7_reply_author_first_name r)),
     (''lastName'', j_str J (is7_reply_author_last_name r)), (''isKnown'', j_bool J (is7_knows r))]"

subsection \<open>Dispatch\<close>

definition to_ascii_lowercase :: "string \<Rightarrow> string" where
  "to_ascii_lowercase = map (\<lambda>c. if CHR ''A'' \<le> c \<and> c \<le> CHR ''Z'' then char_of (of_char c + 32 :: nat) else c)"

definition query_limit :: "'j json_ops \<Rightarrow> 'j \<Rightarrow> nat" where
  "query_limit J params = unwrap_or 20 (do { v \<leftarrow> j_get J params ''limit''; j_as_u64 J v })"

text \<open>The chain of conditions of \<^verbatim>\<open>dispatch_query\<close>, split after the short reads. The outer
  option is that of \<open>ic14\<close>.\<close>

definition dispatch_complex :: "'j json_ops \<Rightarrow> snb_graph \<Rightarrow> 'j \<Rightarrow> (string \<times> 'j) option option" where
  "dispatch_complex J g params =
     (let has = has_key J params; int_of = req_i64 J params; str_of = req_str J params; limit = query_limit J params
      in if has ''personIdQ1'' then
           Some (Some (''IC1'', j_rows J (ic1_value J) (ic1 g (int_of ''personIdQ1'') (str_of ''firstName'') limit)))
         else if has ''personIdQ2'' then
           Some (Some (''IC2'', j_rows J (message_value J) (ic2 g (int_of ''personIdQ2'') (int_of ''maxDate'') limit)))
         else if has ''personIdQ3'' then
           Some (Some (''IC3'', j_rows J (ic3_value J)
             (ic3 g (int_of ''personIdQ3'') (str_of ''countryXName'') (str_of ''countryYName'')
               (int_of ''startDate'') (int_of ''durationDays'') limit)))
         else if has ''personIdQ4'' then
           Some (Some (''IC4'', j_rows J (ic4_value J)
             (ic4 g (int_of ''personIdQ4'') (int_of ''startDate'') (int_of ''durationDays'') limit)))
         else if has ''personIdQ5'' then
           Some (Some (''IC5'', j_rows J (ic5_value J) (ic5 g (int_of ''personIdQ5'') (int_of ''minDate'') limit)))
         else if has ''personIdQ6'' then
           Some (Some (''IC6'', j_rows J (ic6_value J) (ic6 g (int_of ''personIdQ6'') (str_of ''tagName'') limit)))
         else if has ''personIdQ7'' then
           Some (Some (''IC7'', j_rows J (ic7_value J) (ic7 g (int_of ''personIdQ7'') limit)))
         else if has ''personIdQ8'' then
           Some (Some (''IC8'', j_rows J (ic8_value J) (ic8 g (int_of ''personIdQ8'') limit)))
         else if has ''personIdQ9'' then
           Some (Some (''IC9'', j_rows J (message_value J) (ic9 g (int_of ''personIdQ9'') (int_of ''maxDate'') limit)))
         else if has ''personIdQ10'' then
           Some (Some (''IC10'', j_rows J (ic10_value J)
             (ic10 g (int_of ''personIdQ10'') (as_u32 (int_of ''month'')) limit)))
         else if has ''personIdQ11'' then
           Some (Some (''IC11'', j_rows J (ic11_value J)
             (ic11 g (int_of ''personIdQ11'') (str_of ''countryName'') (as_i32 (int_of ''workFromYear'')) limit)))
         else if has ''personIdQ12'' then
           Some (Some (''IC12'', j_rows J (ic12_value J)
             (ic12 g (int_of ''personIdQ12'') (str_of ''tagClassName'') limit)))
         else if has ''person1IdQ13StartNode'' then
           Some (Some (''IC13'', j_object J [(''shortestPathLength'',
             j_int J (ic13 g (int_of ''person1IdQ13StartNode'') (int_of ''person2IdQ13EndNode'')))]))
         else if has ''person1IdQ14StartNode'' then
           map_option (\<lambda>rows. Some (''IC14'', j_rows J (ic14_value J) rows))
             (ic14 g (int_of ''person1IdQ14StartNode'') (int_of ''person2IdQ14EndNode''))
         else Some None)"

definition dispatch_query :: "'j json_ops \<Rightarrow> snb_graph \<Rightarrow> 'j \<Rightarrow> string option \<Rightarrow> (string \<times> 'j) option option" where
  "dispatch_query J g params query_hint =
     (let hint = to_ascii_lowercase (unwrap_or [] query_hint); any = req_i64_any J params; has = has_key J params
      in if hint = ''is1'' \<or> has ''personIdSQ1'' then
           Some (Some (''IS1'', j_opt J (is1_value J) (is1 g (any [''personIdSQ1'', ''personIdQ1'', ''personId'']))))
         else if hint = ''is2'' \<or> has ''personIdSQ2'' then
           Some (Some (''IS2'', j_rows J (is2_value J)
             (is2 g (any [''personIdSQ2'', ''personIdQ2'', ''personId'']) (min (query_limit J params) 10))))
         else if hint = ''is3'' \<or> has ''personIdSQ3'' then
           Some (Some (''IS3'', j_rows J (is3_value J) (is3 g (any [''personIdSQ3'', ''personIdQ3'', ''personId'']))))
         else if hint = ''is4'' \<or> has ''messageIdContent'' then
           Some (Some (''IS4'', j_opt J (is4_value J)
             (is4 g (any [''messageIdContent'', ''messageIdQ4'', ''messageId'']))))
         else if hint = ''is5'' \<or> has ''messageIdCreator'' then
           Some (Some (''IS5'', j_opt J (is5_value J)
             (is5 g (any [''messageIdCreator'', ''messageIdQ5'', ''messageId'']))))
         else if hint = ''is6'' \<or> has ''messageForumId'' then
           Some (Some (''IS6'', j_opt J (is6_value J)
             (is6 g (any [''messageForumId'', ''messageIdQ6'', ''messageId'']))))
         else if hint = ''is7'' \<or> has ''messageRepliesId'' then
           Some (Some (''IS7'', j_rows J (is7_value J)
             (is7 g (any [''messageRepliesId'', ''messageIdQ7'', ''messageId'']))))
         else dispatch_complex J g params)"

subsection \<open>The HTTP queries\<close>

text \<open>\<^verbatim>\<open>run_dgs_http_query\<close>: the endpoint decides, the limits are fixed. \<open>Inl\<close> is the
  \<^verbatim>\<open>bail!\<close> on an unknown endpoint.\<close>

definition run_http_complex_8_to_14 :: "'j json_ops \<Rightarrow> snb_graph \<Rightarrow> string \<Rightarrow> 'j \<Rightarrow> 'j res option" where
  "run_http_complex_8_to_14 J g endpoint params =
     (let int_of = req_i64 J params; str_of = req_str J params
      in if endpoint = ''/query/interactive_complex_read_8'' then
           Some (Inr (j_rows J (ic8_http J) (ic8 g (int_of ''personIdQ8'') 20)))
         else if endpoint = ''/query/interactive_complex_read_9'' then
           Some (Inr (j_rows J (message_http J) (ic9 g (int_of ''personIdQ9'') (int_of ''maxDate'') 20)))
         else if endpoint = ''/query/interactive_complex_read_10'' then
           Some (Inr (j_rows J (ic10_http J) (ic10 g (int_of ''personIdQ10'') (as_u32 (int_of ''month'')) 10)))
         else if endpoint = ''/query/interactive_complex_read_11'' then
           Some (Inr (j_rows J (ic11_http J)
             (ic11 g (int_of ''personIdQ11'') (str_of ''countryName'') (as_i32 (int_of ''workFromYear'')) 10)))
         else if endpoint = ''/query/interactive_complex_read_12'' then
           Some (Inr (j_rows J (ic12_http J) (ic12 g (int_of ''personIdQ12'') (str_of ''tagClassName'') 20)))
         else if endpoint = ''/query/interactive_complex_read_13'' then
           Some (Inr (j_object J [(''shortestPathLength'',
             j_int J (ic13 g (int_of ''person1IdQ13StartNode'') (int_of ''person2IdQ13EndNode'')))]))
         else if endpoint = ''/query/interactive_complex_read_14'' then
           map_option (\<lambda>rows. Inr (j_rows J (ic14_value J) rows))
             (ic14 g (int_of ''person1IdQ14StartNode'') (int_of ''person2IdQ14EndNode''))
         else Some (Inl (Unsupported endpoint)))"

definition run_http_complex :: "'j json_ops \<Rightarrow> snb_graph \<Rightarrow> string \<Rightarrow> 'j \<Rightarrow> 'j res option" where
  "run_http_complex J g endpoint params =
     (let int_of = req_i64 J params; str_of = req_str J params
      in if endpoint = ''/query/interactive_complex_read_1'' then
           Some (Inr (j_rows J (ic1_http J) (ic1 g (int_of ''personIdQ1'') (str_of ''firstName'') 20)))
         else if endpoint = ''/query/interactive_complex_read_2'' then
           Some (Inr (j_rows J (message_http J) (ic2 g (int_of ''personIdQ2'') (int_of ''maxDate'') 20)))
         else if endpoint = ''/query/interactive_complex_read_3'' then
           Some (Inr (j_rows J (ic3_http J) (ic3 g (int_of ''personIdQ3'') (str_of ''countryXName'')
             (str_of ''countryYName'') (int_of ''startDate'') (int_of ''durationDays'') 20)))
         else if endpoint = ''/query/interactive_complex_read_4'' then
           Some (Inr (j_rows J (ic4_value J)
             (ic4 g (int_of ''personIdQ4'') (int_of ''startDate'') (int_of ''durationDays'') 10)))
         else if endpoint = ''/query/interactive_complex_read_5'' then
           Some (Inr (j_rows J (ic5_value J) (ic5 g (int_of ''personIdQ5'') (int_of ''minDate'') 20)))
         else if endpoint = ''/query/interactive_complex_read_6'' then
           Some (Inr (j_rows J (ic6_value J) (ic6 g (int_of ''personIdQ6'') (str_of ''tagName'') 10)))
         else if endpoint = ''/query/interactive_complex_read_7'' then
           Some (Inr (j_rows J (ic7_http J) (ic7 g (int_of ''personIdQ7'') 20)))
         else run_http_complex_8_to_14 J g endpoint params)"

definition run_dgs_http_query :: "'j json_ops \<Rightarrow> snb_graph \<Rightarrow> string \<Rightarrow> 'j \<Rightarrow> 'j res option" where
  "run_dgs_http_query J g endpoint params =
     (let any = req_i64_any J params
      in if endpoint = ''/query/interactive_short_read_1'' then
           Some (Inr (j_opt J (is1_value J) (is1 g (any [''personIdSQ1'', ''personIdQ1'', ''personId'']))))
         else if endpoint = ''/query/interactive_short_read_2'' then
           Some (Inr (j_rows J (is2_http J) (is2 g (any [''personIdSQ2'', ''personIdQ2'', ''personId'']) 10)))
         else if endpoint = ''/query/interactive_short_read_3'' then
           Some (Inr (j_rows J (is3_value J) (is3 g (any [''personIdSQ3'', ''personIdQ3'', ''personId'']))))
         else if endpoint = ''/query/interactive_short_read_4'' then
           Some (Inr (j_opt J (is4_http J) (is4 g (any [''messageIdContent'', ''messageIdQ4'', ''messageId'']))))
         else if endpoint = ''/query/interactive_short_read_5'' then
           Some (Inr (j_opt J (is5_value J) (is5 g (any [''messageIdCreator'', ''messageIdQ5'', ''messageId'']))))
         else if endpoint = ''/query/interactive_short_read_6'' then
           Some (Inr (j_opt J (is6_http J) (is6 g (any [''messageForumId'', ''messageIdQ6'', ''messageId'']))))
         else if endpoint = ''/query/interactive_short_read_7'' then
           Some (Inr (j_rows J (is7_http J) (is7 g (any [''messageRepliesId'', ''messageIdQ7'', ''messageId'']))))
         else run_http_complex J g endpoint params)"

end
