(* ===== verification/Snb_Adjacency.thy ===== *)
theory Snb_Adjacency
  imports Snb_Graph
begin

section \<open>What the adjacency index answers\<close>

text \<open>
  The properties of the index of \<^verbatim>\<open>src/snb/props.rs\<close>: what a rebuild computes from the edges of
  the store, that the cache file reads back, that vertex ids decode, and that an update which
  also inserts the reverse edge keeps the two directions in step.
\<close>

subsection \<open>Vertex ids\<close>

text \<open>A vertex id carries its label and its external id: both are read back from the encoding
  whenever the external id is in the 56 bits the encoding keeps, so that two different vertices
  never share an id.\<close>

lemma vid_roundtrip:
  assumes "0 \<le> ext" "ext < 2 ^ 56"
  shows "external_id (encode_vid label ext) = ext \<and>
    source_label_from_vertex_id (encode_vid label ext) = ucast (vertex_label_u64 label) \<and>
    (\<forall>label' ext'. encode_vid label' ext' = encode_vid label ext \<and> 0 \<le> ext' \<and> ext' < 2 ^ 56 \<longrightarrow>
       label' = label \<and> ext' = ext)"
proof -
  have ext: "external_id (encode_vid l x) = x" if "0 \<le> x" "x < 2 ^ 56" for l x
  proof -
    have "uint (take_bit 56 (of_int x :: u64)) = x" using that
      by (simp add: unsigned_take_bit_eq uint_word_of_int_eq take_bit_int_eq_self)
    then have "take_bit 56 (of_int x :: u64) = of_int x" "uint (of_int x :: u64) = x"
      by (metis word_of_int_uint, metis word_of_int_uint)
    then show ?thesis using that
      by (simp add: external_id_def encode_vid_low sint_uint signed_take_bit_int_eq_self)
  qed
  have lab: "vertex_label_u64 l' = vertex_label_u64 l \<longleftrightarrow> l' = l" for l l' by (cases l; cases l') simp_all
  have "encode_vid label' ext' = encode_vid label ext \<Longrightarrow> label' = label" for label' ext'
    using encode_vid_high lab by metis
  moreover have "source_label_from_vertex_id (encode_vid label ext) = ucast (vertex_label_u64 label)"
    by (cases label) (simp_all add: source_label_from_vertex_id_def VERTEX_LABEL_SHIFT_def encode_vid_high)
  ultimately show ?thesis using ext assms by metis
qed

lemma vid_roundtrip_example:
  "external_id (encode_vid Forum 12345) = 12345 \<and>
   source_label_from_vertex_id (encode_vid Forum 12345) = 4"
  using vid_roundtrip [of 12345 Forum] by simp

subsection \<open>The index of a list of edges\<close>

definition recorded :: "edge_record list \<Rightarrow> vertex_id \<Rightarrow> edge_type \<Rightarrow> edge_record set" where
  "recorded edges src ty = {e \<in> set edges. e_src e = src \<and> e_type e = ty}"

definition newest_ts :: "edge_record list \<Rightarrow> vertex_id \<Rightarrow> edge_type \<Rightarrow> vertex_id \<Rightarrow> timestamp" where
  "newest_ts edges src ty dst = Max (e_ts ` {e \<in> recorded edges src ty. e_dst e = dst})"

lemma ab_default_inv: "hm_inv (ab_grouped ab_default)"
  using hm.inv_empty by (simp add: ab_default_def)

lemma group_of_build:
  assumes "hm_inv (ab_grouped b)"
  shows "group_of (fst (ab_build b)) k = map fst (order_group (group_of (ab_grouped b) k))"
  by (simp add: group_of_def ab_build_get(2) [OF assms] order_group_def newest_per_dst_def
      split: option.splits)

lemma group_of_edges:
  "group_of (build_adjacency_from_edges edges) (src, ty) =
   map fst (order_group (map (\<lambda>e. (e_dst e, e_ts e)) (filter (\<lambda>e. e_src e = src \<and> e_type e = ty) edges)))"
  using record_edges(1) [OF ab_default_inv, of edges] record_edges(2) [OF ab_default_inv, of edges src ty]
  by (simp add: build_adjacency_from_edges_def group_of_build)
    (simp add: ab_default_def group_of_def hm.get_empty)

text \<open>C13. The index rebuilt from a list of edges holds, for a source and an edge type, every
  destination recorded under them, once each, the most recently written first.\<close>

theorem adjacency_from_edges:
  "distinct (group_of (build_adjacency_from_edges edges) (src, ty)) \<and>
   set (group_of (build_adjacency_from_edges edges) (src, ty)) = e_dst ` recorded edges src ty \<and>
   sorted_wrt (\<lambda>d d'. newest_ts edges src ty d' \<le> newest_ts edges src ty d)
     (group_of (build_adjacency_from_edges edges) (src, ty))"
proof -
  let ?ds = "map (\<lambda>e. (e_dst e, e_ts e)) (filter (\<lambda>e. e_src e = src \<and> e_type e = ty) edges)"
  have ds: "(d, t) \<in> set ?ds \<longleftrightarrow> (\<exists>e \<in> recorded edges src ty. e_dst e = d \<and> e_ts e = t)" for d t
    by (auto simp: recorded_def)
  have fin: "finite (recorded edges src ty)" by (simp add: recorded_def)
  have newest: "t = newest_ts edges src ty d" if "(d, t) \<in> set (order_group ?ds)" for d t
  proof -
    from that have mem: "(d, t) \<in> set ?ds" and max: "\<forall>t'. (d, t') \<in> set ?ds \<longrightarrow> t' \<le> t"
      unfolding order_group_spec(1) by auto
    let ?T = "e_ts ` {e \<in> recorded edges src ty. e_dst e = d}"
    have "finite ?T" using fin by auto
    moreover have "\<And>y. y \<in> ?T \<Longrightarrow> y \<le> t" using max unfolding ds by blast
    moreover have "t \<in> ?T" using mem unfolding ds by blast
    ultimately show ?thesis unfolding newest_ts_def by (rule Max_eqI [symmetric])
  qed
  have all: "d \<in> fst ` set (order_group ?ds)" if "e \<in> recorded edges src ty" "e_dst e = d" for d e
  proof -
    let ?T = "e_ts ` {e \<in> recorded edges src ty. e_dst e = d}"
    have "finite ?T" "?T \<noteq> {}" using fin that by auto
    then obtain t where t: "t \<in> ?T" "\<forall>y \<in> ?T. y \<le> t" by (meson Max_in Max_ge)
    then have "(d, t) \<in> set ?ds" "\<forall>t'. (d, t') \<in> set ?ds \<longrightarrow> t' \<le> t"
      unfolding ds by blast+
    then have "(d, t) \<in> set (order_group ?ds)" unfolding order_group_spec(1) by simp
    then show ?thesis by force
  qed
  have "sorted_wrt (\<lambda>a b. newest_ts edges src ty (fst b) \<le> newest_ts edges src ty (fst a)) (order_group ?ds)"
    by (rule sorted_wrt_mono_rel [OF _ order_group_spec(3)]) (use newest in force)
  moreover have "fst ` set (order_group ?ds) = e_dst ` recorded edges src ty"
  proof
    show "fst ` set (order_group ?ds) \<subseteq> e_dst ` recorded edges src ty"
      by (auto simp: order_group_spec(1) recorded_def)
  qed (use all in blast)
  ultimately show ?thesis
    unfolding group_of_edges using order_group_spec(2) by (simp add: sorted_wrt_map)
qed

subsection \<open>The cache file\<close>

interpretation group_codec: fixed_codec adj_group adj_group_fields ADJ_GROUP_LEN
  by unfold_locales
    (simp_all add: ADJ_GROUP_LEN_def adj_group_def adj_group_fields_def split_beta
      sub_list_append1 sub_list_append2)

lemma length_adj_groups: "length (adj_groups first gs) = length gs"
  by (induction first gs rule: adj_groups.induct) simp_all

lemma rfold_map: "rfold f (map g xs) s = rfold (\<lambda>x. f (g x)) xs s"
proof (induction xs arbitrary: s)
  case (Cons x xs)
  then show ?case by (cases "f (g x) s") simp_all
qed simp

definition edge_total :: "('k \<times> 'v list) list \<Rightarrow> nat" where
  "edge_total gs = sum_list (map (\<lambda>(_, dsts). length dsts) gs)"

lemma length_dst_bytes: "length (concat (map (\<lambda>(_, dsts). concat (map u64_le dsts)) gs)) = 8 * edge_total gs"
  by (induction gs) (auto simp: edge_total_def u64_codec.length_concat_enc)

lemma load_groups:
  fixes before :: bytes
  assumes "edge_total gs + unat first < 2 ^ 64" "length before = 8 * unat first"
  shows "rfold (\<lambda>g out. case g of (src, ty, first, n) \<Rightarrow>
        let start = unat first * 8
        in rbind (slice start (start + unat n * 8)
             (before @ concat (map (\<lambda>(_, dsts). concat (map u64_le dsts)) gs)))
             (\<lambda>bs. Inr (hm_insert (src, ty) (map of_le64 (chunks_exact 8 bs)) out)))
      (adj_groups first gs) out =
    Inr (fold (\<lambda>(k, dsts). hm_insert k dsts) gs out)"
  using assms
proof (induction first gs arbitrary: before out rule: adj_groups.induct)
  case (2 first src ty dsts gs)
  let ?bytes = "concat (map u64_le dsts)"
  have n: "unat (of_nat (length dsts) :: u64) = length dsts"
    using 2(2) by (intro unat_of_nat_u64) (simp add: edge_total_def)
  have nx: "unat (first + of_nat (length dsts)) = unat first + length dsts"
    using 2(2) n by (subst unat_plus_simple [THEN iffD1]) (auto simp: edge_total_def no_olen_add_nat)
  have "slice (unat first * 8) (unat first * 8 + length dsts * 8)
      (before @ ?bytes @ concat (map (\<lambda>(_, dsts). concat (map u64_le dsts)) gs)) = Inr ?bytes"
    using 2(3) by (simp add: slice_def sub_list_append2 sub_list_0_append u64_codec.length_concat_enc)
  then show ?case
    using 2(1) [of "before @ ?bytes"] 2(2,3) n nx
    by (simp add: Let_def u64_codec.decode_array u64_codec.length_concat_enc edge_total_def)
qed simp

lemma fold_insert_get:
  assumes "distinct (map fst gs)"
  shows "hm_get (fold (\<lambda>(k, dsts). hm_insert k dsts) gs []) k = map_of gs k"
  using hm.get_ins_all [OF hm.inv_empty assms, of k]
  by (simp add: hm.ins_all_def hm.get_empty split: option.splits)

lemma sorted_groups_mset: "mset (sorted_groups adj) = mset adj"
  by (simp add: sorted_groups_def)

lemma edge_total_mset: "mset gs = mset gs' \<Longrightarrow> edge_total gs = edge_total gs'"
proof -
  assume eq: "mset gs = mset gs'"
  have "mset (map (\<lambda>(_, dsts). length dsts) gs) = mset (map (\<lambda>(_, dsts). length dsts) gs')"
    by (simp only: mset_map eq)
  then show ?thesis unfolding edge_total_def by (metis sum_mset_sum_list)
qed

lemma map_of_sorted_groups:
  assumes "hm_inv adj"
  shows "distinct (map fst (sorted_groups adj))" "map_of (sorted_groups adj) k = hm_get adj k"
proof -
  have "mset (map fst (sorted_groups adj)) = mset (map fst adj)"
    by (simp only: mset_map sorted_groups_mset)
  then show d: "distinct (map fst (sorted_groups adj))"
    using assms mset_eq_imp_distinct_iff unfolding hm_inv_def by blast
  have eq: "set (sorted_groups adj) = set adj" using sorted_groups_mset by (rule mset_eq_setD)
  have "map_of (sorted_groups adj) k = Some v \<longleftrightarrow> map_of adj k = Some v" for v
    using map_of_Some_entries [OF d] map_of_Some_entries [OF assms [unfolded hm_inv_def]] eq by metis
  then show "map_of (sorted_groups adj) k = hm_get adj k"
    unfolding hm_get_def by (metis not_Some_eq)
qed

lemma cache_reads_back:
  assumes "hm_inv adj" "length adj < 2 ^ 64" "sum_list (map (\<lambda>(_, dsts). length dsts) adj) < 2 ^ 64"
  shows "\<exists>fs' stats adj'. write_adjacency_cache_atomic path adj fs = (fs', Inr stats) \<and>
    load_adjacency_cache path fs' = Inr adj' \<and> (\<forall>k. hm_get adj' k = hm_get adj k)"
proof -
  let ?gs = "sorted_groups adj"
  let ?groups = "concat (map adj_group (adj_groups 0 ?gs))"
  let ?dsts = "concat (map (\<lambda>(_, dsts). concat (map u64_le dsts)) ?gs)"
  let ?header = "adj_header (length ?gs) (edge_total ?gs)"
  have total: "edge_total ?gs = sum_list (map (\<lambda>(_, dsts). length dsts) adj)"
    using edge_total_mset [OF sorted_groups_mset] by (simp add: edge_total_def)
  have len: "length ?gs = length adj" by (simp add: sorted_groups_def)
  have img: "adjacency_image adj = ?header @ ?groups @ ?dsts"
    by (simp add: adjacency_image_def Let_def edge_total_def)
  have counts: "unat (of_nat (length ?gs) :: u64) = length ?gs"
    "unat (of_nat (edge_total ?gs) :: u64) = edge_total ?gs"
    using assms(2,3) unfolding total len by (simp_all add: unat_of_nat_u64)
  have lh: "length ?header = 32" by (simp add: adj_header_def ADJ_MAGIC_def)
  have lg: "length ?groups = length ?gs * 32"
    using group_codec.length_concat_enc by (simp add: length_adj_groups ADJ_GROUP_LEN_def)
  have ld: "length ?dsts = edge_total ?gs * 8" by (simp add: length_dst_bytes)
  have magic: "length ADJ_MAGIC = 8" by (simp add: ADJ_MAGIC_def)
  have fields: "sub_list 0 8 ?header = ADJ_MAGIC" "of_le32 (sub_list 8 4 ?header) = 1"
    "of_le64 (sub_list 16 8 ?header) = of_nat (length ?gs)"
    "of_le64 (sub_list 24 8 ?header) = of_nat (edge_total ?gs)"
    by (simp_all add: adj_header_def magic sub_list_append1 sub_list_append2)
  have parts: "read_exact 0 32 (adjacency_image adj) = Inr ?header"
    "read_exact 32 (length ?gs * 32) (adjacency_image adj) = Inr ?groups"
    "read_exact (32 + length ?gs * 32) (edge_total ?gs * 8) (adjacency_image adj) = Inr ?dsts"
    using lh lg ld unfolding img
    by (simp_all add: read_exact_def sub_list_append1 sub_list_append2 sub_list_0_append)
  let ?G = "\<lambda>g out. case g of (src, ty, first, n) \<Rightarrow>
        let start = unat first * 8
        in rbind (slice start (start + unat n * 8) ?dsts)
             (\<lambda>bs. Inr (hm_insert (src, ty) (map of_le64 (chunks_exact 8 bs)) out))"
  have loop: "rfold (\<lambda>chunk. ?G (adj_group_fields chunk)) (chunks_exact ADJ_GROUP_LEN ?groups) [] =
      Inr (fold (\<lambda>(k, dsts). hm_insert k dsts) ?gs [])"
    using load_groups [of ?gs 0 "[]" "[]"] assms(3) total
      rfold_map [where f = ?G and g = adj_group_fields and xs = "chunks_exact ADJ_GROUP_LEN ?groups"]
    unfolding group_codec.decode_array by simp
  have load: "load_adjacency_cache path fs' = Inr (fold (\<lambda>(k, dsts). hm_insert k dsts) ?gs [])"
    if "fs' path = Some (adjacency_image adj)" for fs'
    using that parts loop
    by (simp only: load_adjacency_cache_def ADJ_HEADER_LEN_def fields counts option.case rbind.simps
        Let_def if_False if_True simp_thms ADJ_GROUP_LEN_def)
  have "\<forall>k. hm_get (fold (\<lambda>(k, dsts). hm_insert k dsts) ?gs []) k = hm_get adj k"
    using fold_insert_get map_of_sorted_groups [OF assms(1)] by metis
  then show ?thesis using load
    by (simp add: write_adjacency_cache_atomic_def st_simps sbind_def rename_blocking_def)
qed

text \<open>C14. The cache file reads back: loading a file just written gives an index with the same
  groups, in the same order, whatever the order in which the hash map gave them to the writer, and no
  other file is touched but the temporary one, which is gone.\<close>

theorem adjacency_cache_roundtrip:
  assumes "hm_inv adj" "length adj < 2 ^ 64" "sum_list (map (\<lambda>(_, dsts). length dsts) adj) < 2 ^ 64"
  shows "\<exists>fs' stats adj'. write_adjacency_cache_atomic path adj fs = (fs', Inr stats) \<and>
    load_adjacency_cache path fs' = Inr adj' \<and> (\<forall>k. hm_get adj' k = hm_get adj k) \<and>
    (\<forall>p. p \<noteq> path \<longrightarrow> fs' p = (if p = tmp_path path then None else fs p))"
proof -
  obtain fs' stats adj' where w: "write_adjacency_cache_atomic path adj fs = (fs', Inr stats)"
    "load_adjacency_cache path fs' = Inr adj'" "\<forall>k. hm_get adj' k = hm_get adj k"
    using cache_reads_back [OF assms] by blast
  have "tmp_path path \<noteq> path" by (simp add: tmp_path_def)
  then have "fs' = fs(path := Some (adjacency_image adj), tmp_path path := None)"
    using w(1) by (auto simp: write_adjacency_cache_atomic_def st_simps sbind_def rename_blocking_def)
  then show ?thesis using w by auto
qed

theorem adjacency_cache_roundtrip_witness:
  "\<exists>fs' stats adj'. write_adjacency_cache_atomic ''a.bin'' [((7, 1), [9, 8]), ((3, 2), [7])] Map.empty =
      (fs', Inr stats) \<and> load_adjacency_cache ''a.bin'' fs' = Inr adj' \<and>
    (\<forall>k. hm_get adj' k = hm_get [((7, 1), [9, 8]), ((3, 2), [7])] k) \<and>
    (\<forall>p. p \<noteq> ''a.bin'' \<longrightarrow> fs' p = (if p = tmp_path ''a.bin'' then None else None))"
  using adjacency_cache_roundtrip [of "[((7, 1), [9, 8]), ((3, 2), [7])]" "''a.bin''" Map.empty]
  by (simp add: hm_inv_def)

subsection \<open>Updates keep both directions\<close>

definition mirrored :: "snb_graph \<Rightarrow> bool" where
  "mirrored g \<longleftrightarrow> hm_inv (sg_adjacency g) \<and> hm_inv (sg_edge_props g) \<and>
     (\<forall>k. distinct (group_of (sg_adjacency g) k)) \<and>
     (\<forall>src dst label. dst \<in> set (out_neighbors g src label) \<longleftrightarrow> src \<in> set (in_neighbors g dst label))"

lemma insert_edge_by_type_spec:
  assumes "hm_inv (sg_adjacency g)" "hm_inv (sg_edge_props g)"
  shows "hm_inv (sg_adjacency (insert_edge_by_type src dst ty p g))"
    "hm_inv (sg_edge_props (insert_edge_by_type src dst ty p g))"
    "group_of (sg_adjacency (insert_edge_by_type src dst ty p g)) k =
      (if k = (src, ty) \<and> dst \<notin> set (group_of (sg_adjacency g) k)
       then group_of (sg_adjacency g) k @ [dst] else group_of (sg_adjacency g) k)"
    "p \<noteq> P_empty \<or> (src, ty, dst) \<noteq> (s, t, d) \<Longrightarrow>
     edge_prop_by_type (insert_edge_by_type src dst ty p g) s t d =
       (if (s, t, d) = (src, ty, dst) then p else edge_prop_by_type g s t d)"
  using assms
  by (auto simp: insert_edge_by_type_def Let_def hm.inv_ins group_of_insert edge_prop_by_type_def hm.get_ins)

lemma edge_label_neg_neq: "- edge_label_i32 a \<noteq> edge_label_i32 b"
  using edge_label_i32_pos_neg by metis

lemma neighbors_insert_edge_cached:
  assumes "hm_inv (sg_adjacency g)" "hm_inv (sg_edge_props g)"
  shows "out_neighbors (insert_edge_cached src dst label p True g) v l =
      (if v = src \<and> l = label \<and> dst \<notin> set (out_neighbors g v l)
       then out_neighbors g v l @ [dst] else out_neighbors g v l)"
    "in_neighbors (insert_edge_cached src dst label p True g) v l =
      (if v = dst \<and> l = label \<and> src \<notin> set (in_neighbors g v l)
       then in_neighbors g v l @ [src] else in_neighbors g v l)"
  using assms edge_label_i32_pos_neg [of l label] edge_label_neg_neq [of l label]
  by (auto simp: out_neighbors_def in_neighbors_def insert_edge_cached_def Let_def insert_edge_by_type_spec
      edge_label_i32_inj)

text \<open>An update that also inserts the reverse edge keeps the two directions of the index in
  step: afterwards a vertex is an in-neighbour of another exactly when the other is its
  out-neighbour, no list holds a vertex twice, the new edge is in the lists of both ends with its
  property, and every other list is what it was.\<close>

lemma insert_edge_keeps_mirror:
  assumes "mirrored g" "prop \<noteq> P_empty"
  shows "mirrored (insert_edge_cached src dst label prop True g) \<and>
    (dst, prop) \<in> set (out_edges_with_prop (insert_edge_cached src dst label prop True g) src label) \<and>
    (src, prop) \<in> set (in_edges_with_prop (insert_edge_cached src dst label prop True g) dst label) \<and>
    (\<forall>v l. v \<noteq> src \<or> l \<noteq> label \<longrightarrow>
       out_neighbors (insert_edge_cached src dst label prop True g) v l = out_neighbors g v l)"
proof -
  let ?ty = "edge_label_i32 label" and ?g = "insert_edge_cached src dst label prop True g"
  let ?h = "insert_edge_by_type src dst ?ty prop g"
  have inv: "hm_inv (sg_adjacency g)" "hm_inv (sg_edge_props g)"
    and dis: "\<And>k. distinct (group_of (sg_adjacency g) k)"
    and mir: "\<And>s d l. d \<in> set (out_neighbors g s l) \<longleftrightarrow> s \<in> set (in_neighbors g d l)"
    using assms(1) by (auto simp: mirrored_def)
  note h = insert_edge_by_type_spec [OF inv, where src = src and dst = dst and ty = "?ty" and p = "prop"]
  have g1: "?g = insert_edge_by_type dst src (- ?ty) prop ?h"
    by (simp add: insert_edge_cached_def Let_def)
  note g2 = insert_edge_by_type_spec [OF h(1,2), where src = dst and dst = src and ty = "- ?ty" and p = "prop", folded g1]
  have double: "2 * ?ty \<noteq> 0" by (cases label) simp_all
  note nb = neighbors_insert_edge_cached [OF inv, where src = src and dst = dst and label = label and p = "prop"]
  have "distinct (group_of (sg_adjacency ?g) k)" for k
    using dis [of k] double by (auto simp: g2(3) h(3))
  moreover have "d \<in> set (out_neighbors ?g s l) \<longleftrightarrow> s \<in> set (in_neighbors ?g d l)" for s d l
    using mir [of d s l] mir [of dst src l] by (auto simp: nb)
  ultimately have "mirrored ?g" using g2(1,2) by (simp add: mirrored_def)
  moreover have "edge_prop_by_type ?g src ?ty dst = prop" "edge_prop_by_type ?g dst (- ?ty) src = prop"
    using g2(4) h(4) assms(2) edge_label_i32_pos_neg [of label label] by auto
  ultimately show ?thesis
    by (auto simp: out_edges_with_prop_def in_edges_with_prop_def nb)
qed

lemma insert_edge_keeps_mirror_example:
  "mirrored (insert_edge_cached 4 9 Knows (P_i64 77) True
     \<lparr>sg_snapshot = 1, sg_vertices = [], sg_edge_props = [], sg_adjacency = [((4, 1), [5]), ((5, -1), [4])]\<rparr>)"
proof -
  let ?g = "\<lparr>sg_snapshot = 1, sg_vertices = [], sg_edge_props = [], sg_adjacency = [((4, 1), [5]), ((5, -1), [4])]\<rparr>"
  have one: "edge_label_i32 l = 1 \<longleftrightarrow> l = Knows" "- edge_label_i32 l \<noteq> 1" "edge_label_i32 l \<noteq> -1"
    "- edge_label_i32 l = - 1 \<longleftrightarrow> l = Knows" for l
    by (cases l; simp)+
  have "mirrored ?g"
    by (auto simp: mirrored_def hm_inv_def group_of_def hm_get_def out_neighbors_def in_neighbors_def one)
  from insert_edge_keeps_mirror [OF this, of "P_i64 77" 4 9 Knows] show ?thesis by simp
qed

end
