(* ===== verification/Snb_Updates.thy ===== *)
theory Snb_Updates
  imports Snb_Api Snb_Adjacency
begin

section \<open>The updates\<close>

text \<open>
  \<^verbatim>\<open>run_dgs_http_update\<close> of \<^verbatim>\<open>src/snb/queries.rs\<close>: the eight updates of the
  benchmark, applied to the graph in memory. Every handler inserts its vertex, if it has one, and
  then its edges in the order of the code.
\<close>

definition insert_update_edge ::
  "vertex_id \<Rightarrow> vertex_id \<Rightarrow> edge_label \<Rightarrow> edge_prop \<Rightarrow> bool \<Rightarrow> snb_graph \<Rightarrow> snb_graph"
where
  "insert_update_edge src dst label p bidirectional_positive g =
     (let g = insert_edge_cached src dst label p True g
      in if bidirectional_positive then insert_edge_cached dst src label p False g else g)"

text \<open>The loops over a list of ids.\<close>

definition insert_tag_edges :: "vertex_id \<Rightarrow> edge_label \<Rightarrow> int list \<Rightarrow> snb_graph \<Rightarrow> snb_graph" where
  "insert_tag_edges vid label = fold (\<lambda>tag. insert_edge_cached vid (encode_vid Tag tag) label P_empty True)"

definition insert_org_edges :: "'j json_ops \<Rightarrow> vertex_id \<Rightarrow> edge_label \<Rightarrow> string \<Rightarrow> 'j list \<Rightarrow> snb_graph \<Rightarrow> snb_graph" where
  "insert_org_edges J vid label year_key =
     fold (\<lambda>org. insert_edge_cached vid (encode_vid Organisation (req_i64 J org ''organizationId'')) label
       (P_i32 (of_int (req_i64 J org year_key))) True)"

definition update_person :: "'j json_ops \<Rightarrow> 'j \<Rightarrow> snb_graph \<Rightarrow> snb_graph" where
  "update_person J params g =
     (let int_of = req_i64 J params; str_of = req_str J params;
          person_id = int_of ''personId''; person_vid = encode_vid Person person_id;
          g = insert_vertex (V_person
            \<lparr>pe_id = person_id, pe_first_name = str_of ''firstName'', pe_last_name = str_of ''lastName'',
             pe_gender = str_of ''gender'', pe_birthday = int_of ''birthday'',
             pe_creation_date = int_of ''creationDate'', pe_location_ip = str_of ''locationIp'',
             pe_browser_used = str_of ''browserUsed'', pe_place = int_of ''cityId'',
             pe_language = str_of ''language'', pe_email = str_of ''email''\<rparr>) g;
          g = insert_edge_cached person_vid (encode_vid Place (int_of ''cityId'')) IsLocatedIn P_empty True g;
          g = insert_tag_edges person_vid HasInterest (req_i64_array J params ''tagIds'') g;
          g = insert_org_edges J person_vid StudyAt ''classYear'' (req_object_array J params ''studyAt'') g
      in insert_org_edges J person_vid WorkAt ''workFromYear'' (req_object_array J params ''workAt'') g)"

definition update_forum :: "'j json_ops \<Rightarrow> 'j \<Rightarrow> snb_graph \<Rightarrow> snb_graph" where
  "update_forum J params g =
     (let int_of = req_i64 J params; str_of = req_str J params;
          forum_id = int_of ''forumId''; forum_vid = encode_vid Forum forum_id;
          g = insert_vertex (V_forum
            \<lparr>fo_id = forum_id, fo_title = str_of ''forumTitle'', fo_creation_date = int_of ''creationDate'',
             fo_moderator = int_of ''moderatorPersonId''\<rparr>) g;
          g = insert_edge_cached forum_vid (encode_vid Person (int_of ''moderatorPersonId'')) HasModerator P_empty True g
      in insert_tag_edges forum_vid HasTag (req_i64_array J params ''tagIds'') g)"

definition update_post :: "'j json_ops \<Rightarrow> 'j \<Rightarrow> snb_graph \<Rightarrow> snb_graph" where
  "update_post J params g =
     (let int_of = req_i64 J params; str_of = req_str J params;
          post_id = int_of ''postId''; post_vid = encode_vid Post post_id;
          g = insert_vertex (V_post
            \<lparr>po_id = post_id, po_image_file = str_of ''imageFile'', po_creation_date = int_of ''creationDate'',
             po_location_ip = str_of ''locationIp'', po_browser_used = str_of ''browserUsed'',
             po_language = str_of ''language'', po_content = str_of ''content'', po_length = int_of ''length'',
             po_creator = int_of ''authorPersonId'', po_forum_id = int_of ''forumId'',
             po_place = int_of ''countryId''\<rparr>) g;
          g = insert_edge_cached post_vid (encode_vid Person (int_of ''authorPersonId'')) HasCreator P_empty True g;
          g = insert_edge_cached (encode_vid Forum (int_of ''forumId'')) post_vid ContainerOf P_empty True g;
          g = insert_edge_cached post_vid (encode_vid Place (int_of ''countryId'')) IsLocatedIn P_empty True g
      in insert_tag_edges post_vid HasTag (req_i64_array J params ''tagIds'') g)"

definition update_comment :: "'j json_ops \<Rightarrow> 'j \<Rightarrow> snb_graph \<Rightarrow> snb_graph" where
  "update_comment J params g =
     (let int_of = req_i64 J params; str_of = req_str J params;
          comment_id = int_of ''commentId''; comment_vid = encode_vid Comment comment_id;
          reply_to_post = optional_positive_i64 J params ''replyToPostId'';
          reply_to_comment = optional_positive_i64 J params ''replyToCommentId'';
          g = insert_vertex (V_comment
            \<lparr>co_id = comment_id, co_creation_date = int_of ''creationDate'', co_location_ip = str_of ''locationIp'',
             co_browser_used = str_of ''browserUsed'', co_content = str_of ''content'', co_length = int_of ''length'',
             co_creator = int_of ''authorPersonId'', co_place = int_of ''countryId'',
             co_reply_of_post = reply_to_post, co_reply_of_comment = reply_to_comment\<rparr>) g;
          g = insert_edge_cached comment_vid (encode_vid Person (int_of ''authorPersonId'')) HasCreator P_empty True g;
          g = insert_edge_cached comment_vid (encode_vid Place (int_of ''countryId'')) IsLocatedIn P_empty True g;
          g = (case reply_to_post of None \<Rightarrow> g
            | Some post \<Rightarrow> insert_edge_cached comment_vid (encode_vid Post post) ReplyOfPost P_empty True g);
          g = (case reply_to_comment of None \<Rightarrow> g
            | Some parent \<Rightarrow> insert_edge_cached comment_vid (encode_vid Comment parent) ReplyOfComment P_empty True g)
      in insert_tag_edges comment_vid HasTag (req_i64_array J params ''tagIds'') g)"

definition update_like :: "'j json_ops \<Rightarrow> 'j \<Rightarrow> vertex_label \<Rightarrow> string \<Rightarrow> edge_label \<Rightarrow> snb_graph \<Rightarrow> snb_graph" where
  "update_like J params target key label =
     insert_update_edge (encode_vid Person (req_i64 J params ''personId'')) (encode_vid target (req_i64 J params key))
       label (P_i64 (req_i64 J params ''creationDate'')) False"

definition update_member :: "'j json_ops \<Rightarrow> 'j \<Rightarrow> snb_graph \<Rightarrow> snb_graph" where
  "update_member J params =
     insert_update_edge (encode_vid Forum (req_i64 J params ''forumId''))
       (encode_vid Person (req_i64 J params ''personId'')) HasMember (P_i64 (req_i64 J params ''joinDate'')) False"

definition update_knows :: "'j json_ops \<Rightarrow> 'j \<Rightarrow> snb_graph \<Rightarrow> snb_graph" where
  "update_knows J params =
     insert_update_edge (encode_vid Person (req_i64 J params ''person1Id''))
       (encode_vid Person (req_i64 J params ''person2Id'')) Knows (P_i64 (req_i64 J params ''creationDate'')) True"

definition run_dgs_http_update :: "'j json_ops \<Rightarrow> string \<Rightarrow> 'j \<Rightarrow> (snb_graph, 'j) st" where
  "run_dgs_http_update J endpoint params g =
     (let done = (\<lambda>g. (g, Inr (j_object J [])))
      in if endpoint = ''/query/interactive_update_1'' then done (update_person J params g)
         else if endpoint = ''/query/interactive_update_2'' then done (update_like J params Post ''postId'' LikesPost g)
         else if endpoint = ''/query/interactive_update_3'' then
           done (update_like J params Comment ''commentId'' LikesComment g)
         else if endpoint = ''/query/interactive_update_4'' then done (update_forum J params g)
         else if endpoint = ''/query/interactive_update_5'' then done (update_member J params g)
         else if endpoint = ''/query/interactive_update_6'' then done (update_post J params g)
         else if endpoint = ''/query/interactive_update_7'' then done (update_comment J params g)
         else if endpoint = ''/query/interactive_update_8'' then done (update_knows J params g)
         else (g, Inl (Unsupported endpoint)))"

definition update_endpoint_for_params :: "'j json_ops \<Rightarrow> 'j \<Rightarrow> string option" where
  "update_endpoint_for_params J params =
     (let has = has_key J params
      in if has ''firstName'' \<and> has ''lastName'' \<and> has ''birthday'' then Some ''/query/interactive_update_1''
         else if has ''postId'' \<and> has ''personId'' then Some ''/query/interactive_update_2''
         else if has ''commentId'' \<and> has ''personId'' \<and> has ''creationDate'' then Some ''/query/interactive_update_3''
         else if has ''forumTitle'' then Some ''/query/interactive_update_4''
         else if has ''forumId'' \<and> has ''personId'' \<and> has ''joinDate'' then Some ''/query/interactive_update_5''
         else if has ''postId'' \<and> has ''authorPersonId'' then Some ''/query/interactive_update_6''
         else if has ''commentId'' \<and> has ''authorPersonId'' then Some ''/query/interactive_update_7''
         else if has ''person1Id'' \<and> has ''person2Id'' then Some ''/query/interactive_update_8''
         else None)"

subsection \<open>Updates are read back\<close>

lemma vertices_insert_edge [simp]: "sg_vertices (insert_edge_cached src dst l p r g) = sg_vertices g"
  by (simp add: insert_edge_cached_def insert_edge_by_type_def Let_def)

lemma vertices_insert_tags [simp]: "sg_vertices (insert_tag_edges v l tags g) = sg_vertices g"
  unfolding insert_tag_edges_def by (induction tags arbitrary: g) simp_all

lemma vertices_insert_orgs [simp]: "sg_vertices (insert_org_edges J v l k orgs g) = sg_vertices g"
  unfolding insert_org_edges_def by (induction orgs arbitrary: g) simp_all

lemma get_insert_vertex:
  "hm_inv (sg_vertices g) \<Longrightarrow>
   hm_get (sg_vertices (insert_vertex d g)) v =
     (if v = encode_vid (data_label d) (data_external_id d) then Some d else hm_get (sg_vertices g) v)"
  by (simp add: insert_vertex_def hm.get_ins)

text \<open>A person added by an update is what the profile query then returns, field by field.\<close>

lemma update_person_read:
  assumes "hm_inv (sg_vertices g)"
  shows "is1 (update_person J params g) (req_i64 J params ''personId'') = Some
    \<lparr>is1_first_name = req_str J params ''firstName'', is1_last_name = req_str J params ''lastName'',
     is1_birthday = req_i64 J params ''birthday'', is1_location_ip = req_str J params ''locationIp'',
     is1_browser_used = req_str J params ''browserUsed'', is1_city_id = req_i64 J params ''cityId'',
     is1_gender = req_str J params ''gender'', is1_creation_date = req_i64 J params ''creationDate''\<rparr>"
  using assms by (simp add: is1_def update_person_def Let_def sg_person_def sg_vertex_def get_insert_vertex)

definition example_json :: "int json_ops" where
  "example_json = \<lparr>j_get = (\<lambda>v key. if key = ''personId'' \<or> key = ''postId'' then Some v else None),
     j_as_i64 = Some, j_as_u64 = (\<lambda>v. Some (nat v)), j_as_str = (\<lambda>v. None), j_as_array = (\<lambda>v. None), j_null = 0,
     j_bool = (\<lambda>b. if b then 1 else 0), j_int = (\<lambda>v. v), j_half = (\<lambda>v. v), j_str = (\<lambda>v. 0), j_array = (\<lambda>v. 0),
     j_object = (\<lambda>v. 0)\<rparr>"

lemma update_person_read_example:
  "is1 (update_person example_json 5 \<lparr>sg_snapshot = 0, sg_vertices = [], sg_edge_props = [], sg_adjacency = []\<rparr>) 5 \<noteq> None"
  using update_person_read [of "\<lparr>sg_snapshot = 0, sg_vertices = [], sg_edge_props = [], sg_adjacency = []\<rparr>"
      example_json 5]
  by (simp add: hm_inv_def req_i64_def example_json_def unwrap_or_def)

subsection \<open>Friendship is mutual\<close>

lemma hm_inv_insert_edge:
  assumes "hm_inv (sg_adjacency g)" "hm_inv (sg_edge_props g)"
  shows "hm_inv (sg_adjacency (insert_edge_cached src dst l p r g))"
    "hm_inv (sg_edge_props (insert_edge_cached src dst l p r g))"
  using assms by (auto simp: insert_edge_cached_def Let_def insert_edge_by_type_spec)

lemma out_neighbors_insert_edge:
  assumes "hm_inv (sg_adjacency g)" "hm_inv (sg_edge_props g)"
  shows "set (out_neighbors (insert_edge_cached src dst label p r g) v l) =
      (if v = src \<and> l = label then insert dst (set (out_neighbors g v l)) else set (out_neighbors g v l))"
  using assms edge_label_i32_pos_neg [of l label]
  by (auto simp: out_neighbors_def insert_edge_cached_def Let_def insert_edge_by_type_spec edge_label_i32_inj)

text \<open>C26. The update that adds a friendship makes each person a friend of the other, with the date of the
  update on both edges, keeps every other friendship, and so keeps friendship mutual.\<close>

theorem update_knows_mutual:
  assumes "hm_inv (sg_adjacency g)" "hm_inv (sg_edge_props g)"
    "\<forall>a b. b \<in> set (knows_neighbors g a) \<longleftrightarrow> a \<in> set (knows_neighbors g b)"
  shows "(\<forall>a b. b \<in> set (knows_neighbors (update_knows J params g) a) \<longleftrightarrow>
      b \<in> set (knows_neighbors g a) \<or>
      {a, b} = {encode_vid Person (req_i64 J params ''person1Id''), encode_vid Person (req_i64 J params ''person2Id'')}) \<and>
    (\<forall>a b. b \<in> set (knows_neighbors (update_knows J params g) a) \<longleftrightarrow>
      a \<in> set (knows_neighbors (update_knows J params g) b)) \<and>
    edge_prop_by_type (update_knows J params g) (encode_vid Person (req_i64 J params ''person1Id'')) 1
      (encode_vid Person (req_i64 J params ''person2Id'')) = P_i64 (req_i64 J params ''creationDate'') \<and>
    edge_prop_by_type (update_knows J params g) (encode_vid Person (req_i64 J params ''person2Id'')) 1
      (encode_vid Person (req_i64 J params ''person1Id'')) = P_i64 (req_i64 J params ''creationDate'')"
proof -
  let ?a = "encode_vid Person (req_i64 J params ''person1Id'')"
    and ?b = "encode_vid Person (req_i64 J params ''person2Id'')" and ?p = "P_i64 (req_i64 J params ''creationDate'')"
  let ?g = "insert_edge_cached ?a ?b Knows ?p True g" and ?u = "update_knows J params g"
  have u: "?u = insert_edge_cached ?b ?a Knows ?p False ?g"
    by (simp add: update_knows_def insert_update_edge_def Let_def)
  note inv = hm_inv_insert_edge [OF assms(1,2), of ?a ?b Knows ?p True]
  have "set (knows_neighbors ?u v) = (if v = ?b then {?a} else {}) \<union> (if v = ?a then {?b} else {}) \<union>
      set (knows_neighbors g v)" for v
    unfolding u knows_neighbors_def out_neighbors_insert_edge [OF inv] out_neighbors_insert_edge [OF assms(1,2)]
    by auto
  moreover have "edge_prop_by_type ?u ?a 1 ?b = ?p" "edge_prop_by_type ?u ?b 1 ?a = ?p"
    unfolding u using inv assms(1,2)
    by (auto simp: insert_edge_cached_def Let_def insert_edge_by_type_spec)
  ultimately show ?thesis using assms(3) by (auto simp: doubleton_eq_iff)
qed

theorem update_knows_mutual_witness:
  "\<forall>a b. b \<in> set (knows_neighbors (update_knows example_json 5
       \<lparr>sg_snapshot = 0, sg_vertices = [], sg_edge_props = [], sg_adjacency = [((4, 1), [6]), ((6, 1), [4])]\<rparr>) a) \<longleftrightarrow>
   a \<in> set (knows_neighbors (update_knows example_json 5
       \<lparr>sg_snapshot = 0, sg_vertices = [], sg_edge_props = [], sg_adjacency = [((4, 1), [6]), ((6, 1), [4])]\<rparr>) b)"
  by (rule update_knows_mutual [THEN conjunct2, THEN conjunct1])
    (auto simp: hm_inv_def knows_neighbors_def out_neighbors_def group_of_def hm_get_def split: if_splits)

end
