(* ===== verification/Snb_Distance.thy ===== *)
theory Snb_Distance
  imports Snb_Paths
begin

section \<open>The distance search is right\<close>

text \<open>
  Distances in the friendship graph, and the proof that the breadth-first search of
  \<^verbatim>\<open>ic13\<close> computes them.
\<close>

definition knows_rel :: "snb_graph \<Rightarrow> (vertex_id \<times> vertex_id) set" where
  "knows_rel g = {(a, b). b \<in> set (knows_neighbors g a)}"

definition at_distance :: "snb_graph \<Rightarrow> vertex_id \<Rightarrow> vertex_id \<Rightarrow> nat \<Rightarrow> bool" where
  "at_distance g s v n \<longleftrightarrow> (s, v) \<in> knows_rel g ^^ n \<and> (\<forall>m < n. (s, v) \<notin> knows_rel g ^^ m)"

subsection \<open>Distances\<close>

lemma at_distance_unique: "at_distance g s v n \<Longrightarrow> at_distance g s v m \<Longrightarrow> n = m"
  unfolding at_distance_def by (meson linorder_neqE_nat)

lemma at_distance_self: "at_distance g s v 0 \<longleftrightarrow> v = s"
  by (auto simp: at_distance_def)

lemma at_distance_ex: "(s, v) \<in> knows_rel g ^^ n \<Longrightarrow> \<exists>m \<le> n. at_distance g s v m"
proof -
  assume n: "(s, v) \<in> knows_rel g ^^ n"
  let ?m = "LEAST m. (s, v) \<in> knows_rel g ^^ m"
  have "(s, v) \<in> knows_rel g ^^ ?m" "?m \<le> n" using n by (rule LeastI, rule Least_le)
  moreover have "\<forall>m < ?m. (s, v) \<notin> knows_rel g ^^ m" by (blast dest: not_less_Least)
  ultimately show ?thesis unfolding at_distance_def by blast
qed

lemma at_distance_step:
  assumes "at_distance g s v n" "w \<in> set (knows_neighbors g v)"
  shows "\<exists>m \<le> Suc n. at_distance g s w m"
proof (rule at_distance_ex)
  show "(s, w) \<in> knows_rel g ^^ Suc n"
    using assms by (auto simp: at_distance_def knows_rel_def)
qed

lemma at_distance_pred:
  assumes "at_distance g s v (Suc n)"
  obtains u where "at_distance g s u n" "v \<in> set (knows_neighbors g u)"
proof -
  obtain u where u: "(s, u) \<in> knows_rel g ^^ n" "(u, v) \<in> knows_rel g"
    using assms by (auto simp: at_distance_def)
  have "(s, u) \<notin> knows_rel g ^^ m" if "m < n" for m
  proof
    assume "(s, u) \<in> knows_rel g ^^ m"
    then have "(s, v) \<in> knows_rel g ^^ Suc m" using u(2) by auto
    then show False using assms that unfolding at_distance_def by (meson Suc_mono)
  qed
  with u that show ?thesis by (auto simp: at_distance_def knows_rel_def)
qed

text \<open>Distances have no gaps: with no vertex at distance \<open>n\<close> there is none further away.\<close>

lemma at_distance_down: "at_distance g s v n \<Longrightarrow> m \<le> n \<Longrightarrow> \<exists>u. at_distance g s u m"
proof (induction n arbitrary: v)
  case (Suc n)
  then show ?case by (metis at_distance_pred le_Suc_eq)
qed auto

lemma closed_unreachable:
  assumes "s \<in> S" "\<And>u. u \<in> S \<Longrightarrow> set (knows_neighbors g u) \<subseteq> S" "(s, v) \<in> (knows_rel g)\<^sup>*"
  shows "v \<in> S"
  using assms(3)
proof (induction rule: rtrancl_induct)
  case (step y z)
  then show ?case using assms(2) [of y] by (auto simp: knows_rel_def)
qed (rule assms(1))

subsection \<open>The loop\<close>

lemma ic13_neighbors_Inl:
  "ic13_neighbors goal depth nbrs seen queue = Inl r \<Longrightarrow> r = depth + 1 \<and> goal \<in> set nbrs \<and> goal \<notin> set seen"
  by (induction goal depth nbrs seen queue rule: ic13_neighbors.induct) (auto split: if_splits)

lemma ic13_neighbors_Inr:
  "ic13_neighbors goal depth nbrs seen queue = Inr (seen', queue') \<Longrightarrow>
   \<exists>new. queue' = queue @ map (\<lambda>v. (v, depth + 1)) new \<and> set new = set nbrs - set seen \<and>
     set seen' = set seen \<union> set nbrs \<and> (goal \<in> set nbrs \<longrightarrow> goal \<in> set seen)"
proof (induction goal depth nbrs seen queue rule: ic13_neighbors.induct)
  case (2 goal depth nbr nbrs seen queue)
  consider "nbr \<in> set seen" | "nbr \<notin> set seen" "nbr \<noteq> goal" using 2(3) by (auto split: if_splits)
  then show ?case
  proof cases
    case 1
    then show ?thesis using 2 by auto
  next
    case 2
    with "2.prems" "2.IH"(2) obtain new where new:
      "queue' = (queue @ [(nbr, depth + 1)]) @ map (\<lambda>v. (v, depth + 1)) new"
      "set new = set nbrs - set (hs_insert nbr seen)" "set seen' = set (hs_insert nbr seen) \<union> set nbrs"
      "goal \<in> set nbrs \<longrightarrow> goal \<in> set (hs_insert nbr seen)" by auto
    show ?thesis by (intro exI [of _ "nbr # new"]) (use new 2 in auto)
  qed
qed auto

definition search_inv :: "snb_graph \<Rightarrow> vertex_id \<Rightarrow> vertex_id \<Rightarrow> vertex_id hash_set \<Rightarrow> (vertex_id \<times> int) list \<Rightarrow> bool" where
  "search_inv g s goal seen queue \<longleftrightarrow>
     s \<in> set seen \<and> goal \<notin> set seen \<and>
     (\<forall>(v, d) \<in> set queue. v \<in> set seen \<and> 0 \<le> d \<and> at_distance g s v (nat d)) \<and>
     sorted (map snd queue) \<and> (\<forall>(v, d) \<in> set queue. d \<le> snd (hd queue) + 1) \<and>
     (\<forall>v \<in> set seen. v \<in> fst ` set queue \<or> set (knows_neighbors g v) \<subseteq> set seen) \<and>
     (queue \<noteq> [] \<longrightarrow> (\<forall>v n. at_distance g s v n \<and> int n \<le> snd (hd queue) \<longrightarrow> v \<in> set seen))"

lemma search_inv_init: "s \<noteq> goal \<Longrightarrow> search_inv g s goal [s] [(s, 0)]"
  by (auto simp: search_inv_def at_distance_self)

lemma search_inv_step:
  assumes inv: "search_inv g s goal seen ((vid, depth) # queue)"
    and step: "ic13_neighbors goal depth (knows_neighbors g vid) seen queue = Inr (seen', queue')"
  shows "search_inv g s goal seen' queue'"
proof -
  obtain new where new: "queue' = queue @ map (\<lambda>v. (v, depth + 1)) new"
    "set new = set (knows_neighbors g vid) - set seen"
    "set seen' = set seen \<union> set (knows_neighbors g vid)"
    "goal \<in> set (knows_neighbors g vid) \<longrightarrow> goal \<in> set seen"
    using ic13_neighbors_Inr [OF step] by blast
  have vid: "at_distance g s vid (nat depth)" "0 \<le> depth" "s \<in> set seen" "goal \<notin> set seen"
    and old: "\<forall>(v, d) \<in> set queue. v \<in> set seen \<and> 0 \<le> d \<and> at_distance g s v (nat d) \<and> depth \<le> d \<and> d \<le> depth + 1"
    and srt: "sorted (map snd queue)"
    and closed1: "\<forall>v \<in> set seen. v = vid \<or> v \<in> fst ` set queue \<or> set (knows_neighbors g v) \<subseteq> set seen"
    and near: "\<And>v n. at_distance g s v n \<Longrightarrow> int n \<le> depth \<Longrightarrow> v \<in> set seen"
    using inv by (auto simp: search_inv_def)
  have far: "at_distance g s v (nat (depth + 1))" if v: "v \<in> set (knows_neighbors g vid)" "v \<notin> set seen" for v
  proof -
    obtain m where m: "m \<le> Suc (nat depth)" "at_distance g s v m"
      using at_distance_step [OF vid(1) v(1)] by blast
    moreover have "\<not> int m \<le> depth" using near m(2) v(2) by blast
    ultimately have "m = nat (depth + 1)" using vid(2) by linarith
    with m show ?thesis by simp
  qed
  have elems: "\<forall>(v, d) \<in> set queue'. v \<in> set seen' \<and> 0 \<le> d \<and> at_distance g s v (nat d) \<and> depth \<le> d \<and> d \<le> depth + 1"
    using old far vid(2) new by fastforce
  have srt': "sorted (map snd queue')"
    using srt old new(1) by (auto simp: sorted_append comp_def map_replicate_const)
  have closed2: "\<forall>v \<in> set seen'. v \<in> fst ` set queue' \<or> set (knows_neighbors g v) \<subseteq> set seen'"
    using closed1 new by (auto simp: image_Un image_image)
  have hd1: "depth \<le> snd (hd queue')" if "queue' \<noteq> []" using elems hd_in_set [OF that] by fastforce
  have hd: "\<forall>(v, d) \<in> set queue'. d \<le> snd (hd queue') + 1" if "queue' \<noteq> []"
    using elems hd1 [OF that] by fastforce
  have near': "v \<in> set seen'" if ne: "queue' \<noteq> []" and v: "at_distance g s v n" "int n \<le> snd (hd queue')" for v n
  proof (cases "int n \<le> depth")
    case True
    with near v new show ?thesis by auto
  next
    case False
    have "snd (hd queue') \<le> depth + 1" using elems hd_in_set [OF ne] by fastforce
    with False v(2) have n: "snd (hd queue') = depth + 1" "n = Suc (nat depth)" using vid(2) by linarith+
    obtain u where u: "at_distance g s u (nat depth)" "v \<in> set (knows_neighbors g u)"
      using at_distance_pred v(1) n(2) by blast
    have "u \<in> set seen" using near u(1) vid(2) by simp
    moreover have "u \<notin> fst ` set queue'"
    proof
      assume "u \<in> fst ` set queue'"
      then obtain d where d: "(u, d) \<in> set queue'" by auto
      have "snd (hd queue') \<le> d" using srt' d ne by (cases queue') auto
      moreover have "nat d = nat depth" using elems d u(1) at_distance_unique by fastforce
      ultimately show False using n(1) vid(2) by linarith
    qed
    ultimately show ?thesis using closed2 new u(2) by auto
  qed
  show ?thesis
    unfolding search_inv_def
  proof (intro conjI)
    show "s \<in> set seen'" "goal \<notin> set seen'" using vid new by auto
    show "\<forall>(v, d) \<in> set queue'. v \<in> set seen' \<and> 0 \<le> d \<and> at_distance g s v (nat d)"
      using elems by fastforce
    show "\<forall>(v, d) \<in> set queue'. d \<le> snd (hd queue') + 1" using hd by (cases "queue' = []") auto
  qed (use srt' closed2 near' in blast)+
qed

lemma search_correct:
  assumes "search_inv g s goal seen queue"
  shows "(ic13_loop g goal seen queue = -1 \<and> (s, goal) \<notin> (knows_rel g)\<^sup>*) \<or>
    (\<exists>n. ic13_loop g goal seen queue = int n \<and> at_distance g s goal n)"
  using assms
proof (induction g goal seen queue rule: ic13_loop.induct)
  case (1 g goal seen)
  then have "goal \<notin> set seen" "s \<in> set seen" "\<And>u. u \<in> set seen \<Longrightarrow> set (knows_neighbors g u) \<subseteq> set seen"
    by (auto simp: search_inv_def)
  then show ?case using closed_unreachable [of s "set seen" g goal] by auto
next
  case (2 g goal seen vid depth queue)
  show ?case
  proof (cases "ic13_neighbors goal depth (knows_neighbors g vid) seen queue")
    case (Inl r)
    have r: "r = depth + 1" "goal \<in> set (knows_neighbors g vid)" "goal \<notin> set seen"
      using ic13_neighbors_Inl [OF Inl] by auto
    have vid: "at_distance g s vid (nat depth)" "0 \<le> depth"
      and near: "\<And>v n. at_distance g s v n \<Longrightarrow> int n \<le> depth \<Longrightarrow> v \<in> set seen"
      using 2(2) by (auto simp: search_inv_def)
    obtain m where m: "m \<le> Suc (nat depth)" "at_distance g s goal m"
      using at_distance_step [OF vid(1) r(2)] by blast
    moreover have "\<not> int m \<le> depth" using near m(2) r(3) by blast
    ultimately have "r = int m" using r(1) vid(2) by linarith
    with Inl m show ?thesis by auto
  next
    case (Inr b)
    obtain seen' queue' where b: "b = (seen', queue')" by (cases b)
    from search_inv_step [OF 2(2)] Inr b have "search_inv g s goal seen' queue'" by simp
    with 2(1) [OF Inr b [symmetric]] Inr b show ?thesis by simp
  qed
qed

text \<open>C11. The distance query returns the length of a shortest chain of friendships between the two
  persons, and -1 exactly when there is no such chain.\<close>

theorem ic13_shortest:
  assumes "person1_id \<noteq> person2_id" "encode_vid Person person1_id \<noteq> encode_vid Person person2_id"
    "sg_person g (encode_vid Person person1_id) \<noteq> None" "sg_person g (encode_vid Person person2_id) \<noteq> None"
  shows "(ic13 g person1_id person2_id = -1 \<longleftrightarrow>
      (encode_vid Person person1_id, encode_vid Person person2_id) \<notin> (knows_rel g)\<^sup>*) \<and>
    (\<forall>n. ic13 g person1_id person2_id = int n \<longleftrightarrow>
      at_distance g (encode_vid Person person1_id) (encode_vid Person person2_id) n)"
proof -
  let ?s = "encode_vid Person person1_id" and ?t = "encode_vid Person person2_id"
  have loop: "ic13 g person1_id person2_id = ic13_loop g ?t [?s] [(?s, 0)]"
    using assms by (auto simp: ic13_def Let_def simp del: ic13_loop.simps)
  have reach: "(?s, ?t) \<in> (knows_rel g)\<^sup>*" if "at_distance g ?s ?t n" for n
    using that by (auto simp: at_distance_def rtrancl_power)
  from search_correct [OF search_inv_init [OF assms(2), of g]] show ?thesis
  proof
    assume no: "ic13_loop g ?t [?s] [(?s, 0)] = -1 \<and> (?s, ?t) \<notin> (knows_rel g)\<^sup>*"
    with reach show ?thesis unfolding loop by auto
  next
    assume "\<exists>n. ic13_loop g ?t [?s] [(?s, 0)] = int n \<and> at_distance g ?s ?t n"
    then obtain n where n: "ic13_loop g ?t [?s] [(?s, 0)] = int n" "at_distance g ?s ?t n" by blast
    then show ?thesis unfolding loop using reach at_distance_unique by auto
  qed
qed

theorem ic13_shortest_witness:
  "\<exists>g. ic13 g 1 3 = 2 \<and> at_distance g (encode_vid Person 1) (encode_vid Person 3) 2"
proof -
  have v: "encode_vid Person 1 = 72057594037927937" "encode_vid Person 3 = 72057594037927939"
    by code_simp+
  define person :: "int \<Rightarrow> person_props" where "person i =
    \<lparr>pe_id = i, pe_first_name = [], pe_last_name = [], pe_gender = [], pe_birthday = 0, pe_creation_date = 0,
     pe_location_ip = [], pe_browser_used = [], pe_place = 0, pe_language = [], pe_email = []\<rparr>" for i
  define g where "g = \<lparr>sg_snapshot = 0,
      sg_vertices = [(72057594037927937, V_person (person 1)), (72057594037927939, V_person (person 3))],
      sg_edge_props = [], sg_adjacency = [((72057594037927937, 1), [2]), ((2, 1), [72057594037927939])]\<rparr>"
  note eval = g_def v sg_person_def sg_vertex_def hm_get_def knows_neighbors_def out_neighbors_def group_of_def
  have two: "ic13 g 1 3 = 2" by (simp add: ic13_def eval hs_insert_def)
  have "(1 :: int) \<noteq> 3" "encode_vid Person 1 \<noteq> encode_vid Person 3"
    "sg_person g (encode_vid Person 1) \<noteq> None" "sg_person g (encode_vid Person 3) \<noteq> None"
    by (simp_all add: eval)
  from ic13_shortest [OF this, THEN conjunct2]
  have "ic13 g 1 3 = int 2 \<longleftrightarrow> at_distance g (encode_vid Person 1) (encode_vid Person 3) 2" by (rule spec)
  with two show ?thesis by auto
qed

end
