(* ===== verification/Snb_Reads.thy ===== *)
theory Snb_Reads
  imports Snb_Complex Snb_Distance
begin

section \<open>What the reads return\<close>

text \<open>
  Properties of the queries of \<^verbatim>\<open>src/snb/queries.rs\<close>: a truncated sort returns the
  first rows, the friend search by name finds the nearest friends, and the worklist over tag
  classes computes reachability.
\<close>

subsection \<open>The first rows of a sort\<close>

lemma take_sort_top:
  assumes "x \<in> set xs"
  shows "x \<in> set (take n (sort_key f xs)) \<or>
    length (take n (sort_key f xs)) = n \<and> (\<forall>y \<in> set (take n (sort_key f xs)). f y \<le> f x)"
proof (cases "x \<in> set (take n (sort_key f xs))")
  case False
  let ?ys = "sort_key f xs"
  have "x \<in> set (take n ?ys @ drop n ?ys)" using assms by simp
  with False have x: "x \<in> set (drop n ?ys)" unfolding set_append by blast
  then have "n < length ?ys" by (cases "n < length ?ys") auto
  moreover have "sorted (map f (take n ?ys) @ map f (drop n ?ys))"
    by (simp flip: map_append)
  then have "\<forall>y \<in> set (take n ?ys). f y \<le> f x" using x by (auto simp: sorted_append)
  ultimately show ?thesis by simp
qed simp

lemma take_sort_sorted: "sorted (map f (take n (sort_key f xs)))"
  by (simp flip: take_map)

lemma set_map_filter: "set (List.map_filter f xs) = {y. \<exists>x \<in> set xs. f x = Some y}"
  by (force simp: List.map_filter_def image_iff)

subsection \<open>Messages of friends\<close>

lemma ic2_found_set:
  "(date, i, msg, friend) \<in> set (ic2_found g start max_date) \<longleftrightarrow>
     friend \<in> set (knows_neighbors g start) \<and> msg \<in> set (in_messages_creators g friend) \<and>
     (\<exists>content. message_summary g msg = Some (i, date, content)) \<and> date \<le> max_date"
  by (auto simp: ic2_found_def set_map_filter bind_eq_Some_conv split: if_splits) force

text \<open>The messages of friends: the rows are the newest messages, up to the date asked for, of the
  friends of the person. They come newest first, messages of the same instant by id, there are
  at most as many as asked for, and a message of a friend is left out only when that many rows
  come before it.\<close>

lemma ic2_newest:
  assumes "sg_person g (encode_vid Person person_id) \<noteq> None"
    "\<forall>f \<in> set (knows_neighbors g (encode_vid Person person_id)). sg_person g f \<noteq> None"
  shows "sorted (map (\<lambda>r. (Reverse (mr_message_creation_date r), mr_message_id r)) (ic2 g person_id max_date limit)) \<and>
    length (ic2 g person_id max_date limit) \<le> limit \<and>
    (\<forall>r \<in> set (ic2 g person_id max_date limit). \<exists>msg friend.
       (mr_message_creation_date r, mr_message_id r, msg, friend) \<in>
         set (ic2_found g (encode_vid Person person_id) max_date) \<and>
       message_row_of g (mr_message_creation_date r) (mr_message_id r) msg friend = Some r) \<and>
    (\<forall>date i msg friend. (date, i, msg, friend) \<in> set (ic2_found g (encode_vid Person person_id) max_date) \<longrightarrow>
       message_row_of g date i msg friend \<in> Some ` set (ic2 g person_id max_date limit) \<or>
       length (ic2 g person_id max_date limit) = limit \<and>
       (\<forall>r \<in> set (ic2 g person_id max_date limit).
          (Reverse (mr_message_creation_date r), mr_message_id r) \<le> (Reverse date, i)))"
proof -
  let ?start = "encode_vid Person person_id"
  let ?F = "ic2_found g ?start max_date" and ?key = "\<lambda>(date, i, _). (Reverse date, i)"
  let ?T = "take limit (sort_key ?key ?F)"
  let ?row = "\<lambda>(date, i, msg, friend). message_row_of g date i msg friend"
  let ?R = "ic2 g person_id max_date limit"
  have R: "?R = List.map_filter ?row ?T" using assms(1) by (auto simp: ic2_def Let_def)
  have sub: "x \<in> set ?F" if "x \<in> set ?T" for x using that set_take_subset by fastforce
  have row: "\<exists>r. ?row x = Some r \<and> mr_message_creation_date r = fst x \<and> mr_message_id r = fst (snd x)"
    if x: "x \<in> set ?F" for x
  proof -
    obtain date i msg friend where x': "x = (date, i, msg, friend)" by (cases x)
    with x have "friend \<in> set (knows_neighbors g ?start)" using ic2_found_set by blast
    with assms(2) show ?thesis by (auto simp: x' message_row_of_def)
  qed
  have R_map: "?R = map (\<lambda>x. the (?row x)) ?T"
  proof -
    have "\<forall>x \<in> set ?T. ?row x \<noteq> None" using row sub by fastforce
    then show ?thesis unfolding R List.map_filter_def by (simp add: comp_def)
  qed
  have len: "length ?R = length ?T" by (simp add: R_map)
  have keys: "map (\<lambda>r. (Reverse (mr_message_creation_date r), mr_message_id r)) ?R = map ?key ?T"
    unfolding R_map map_map using row sub by (fastforce intro: map_cong)
  have "(date, i, msg, friend) \<in> set ?F \<Longrightarrow> message_row_of g date i msg friend \<in> Some ` set ?R \<or>
       length ?R = limit \<and>
       (\<forall>r \<in> set ?R. (Reverse (mr_message_creation_date r), mr_message_id r) \<le> (Reverse date, i))" for date i msg friend
  proof -
    assume x: "(date, i, msg, friend) \<in> set ?F"
    from take_sort_top [OF this, of limit ?key] show ?thesis
    proof
      assume "(date, i, msg, friend) \<in> set ?T"
      moreover have "?row (date, i, msg, friend) = Some (the (?row (date, i, msg, friend)))"
        using row [OF x] by auto
      ultimately show ?thesis unfolding R_map by force
    next
      assume top: "length ?T = limit \<and> (\<forall>y \<in> set ?T. ?key y \<le> ?key (date, i, msg, friend))"
      then have "\<forall>k \<in> set (map ?key ?T). k \<le> (Reverse date, i)" by auto
      then have "\<forall>r \<in> set ?R. (Reverse (mr_message_creation_date r), mr_message_id r) \<le> (Reverse date, i)"
        unfolding keys [symmetric] by simp
      with top len show ?thesis by simp
    qed
  qed
  moreover have "\<exists>msg friend. (mr_message_creation_date r, mr_message_id r, msg, friend) \<in> set ?F \<and>
       message_row_of g (mr_message_creation_date r) (mr_message_id r) msg friend = Some r" if r: "r \<in> set ?R" for r
  proof -
    obtain date i msg friend where x: "(date, i, msg, friend) \<in> set ?T" "message_row_of g date i msg friend = Some r"
      using r unfolding R set_map_filter by auto
    then show ?thesis using row [OF sub [OF x(1)]] sub [OF x(1)] by auto
  qed
  moreover have "sorted (map ?key ?T)" by (rule take_sort_sorted)
  ultimately show ?thesis using len unfolding keys by simp
qed

subsection \<open>Friends by first name\<close>

lemma ic1_expand_neighbors:
  "fold (\<lambda>nbr (visited, next). if nbr \<in> set visited then (visited, next) else (hs_insert nbr visited, next @ [nbr]))
     nbrs (visited, next) = (visited', next') \<Longrightarrow>
   set visited' = set visited \<union> set nbrs \<and> set next' = set next \<union> (set nbrs - set visited)"
  by (induction nbrs arbitrary: visited "next") (auto split: if_splits)

lemma ic1_expand_set:
  assumes "ic1_expand g frontier visited = (visited', next')"
  shows "set visited' = set visited \<union> (\<Union>v \<in> set frontier. set (knows_neighbors g v))"
    "set next' = (\<Union>v \<in> set frontier. set (knows_neighbors g v)) - set visited"
proof -
  let ?f = "\<lambda>vid. fold (\<lambda>nbr (visited, next).
      if nbr \<in> set visited then (visited, next) else (hs_insert nbr visited, next @ [nbr])) (knows_neighbors g vid)"
  have "fold ?f frontier (visited, next) = (visited', next') \<Longrightarrow> set visited \<inter> N \<subseteq> set next \<Longrightarrow> set next \<subseteq> set visited \<Longrightarrow>
      set visited' = set visited \<union> (\<Union>v \<in> set frontier. set (knows_neighbors g v)) \<and>
      set next' = set next \<union> ((\<Union>v \<in> set frontier. set (knows_neighbors g v)) - set visited)" for frontier visited "next" N
  proof (induction frontier arbitrary: visited "next")
    case (Cons v frontier)
    obtain vs ns where 1: "?f v (visited, next) = (vs, ns)" by force
    note one = ic1_expand_neighbors [OF 1]
    have "fold ?f frontier (vs, ns) = (visited', next')" using Cons.prems(1) 1 by simp
    from Cons.IH [OF this] one Cons.prems(2,3) show ?case by auto
  qed simp
  from this [of frontier visited "[]" "{}"] assms
  show "set visited' = set visited \<union> (\<Union>v \<in> set frontier. set (knows_neighbors g v))"
    "set next' = (\<Union>v \<in> set frontier. set (knows_neighbors g v)) - set visited"
    by (auto simp: ic1_expand_def)
qed

definition named_friend :: "snb_graph \<Rightarrow> vertex_id \<Rightarrow> string \<Rightarrow> int \<times> string \<times> int \<times> vertex_id \<Rightarrow> bool" where
  "named_friend g start name c \<longleftrightarrow> (case c of (d, last_name, i, v) \<Rightarrow>
     \<exists>p. 1 \<le> d \<and> d \<le> 3 \<and> at_distance g start v (nat d) \<and> sg_person g v = Some p \<and> pe_first_name p = name \<and>
       last_name = pe_last_name p \<and> i = pe_id p)"

definition friend_key :: "int \<times> string \<times> int \<times> vertex_id \<Rightarrow> int \<times> string \<times> int" where
  "friend_key c = (case c of (d, last_name, i, _) \<Rightarrow> (d, last_name, i))"

lemma ic1_expand_layer:
  assumes "ic1_expand g frontier visited = (visited', next')"
    "set visited = {v. \<exists>n \<le> d. at_distance g s v n}" "set frontier = {v. at_distance g s v d}"
  shows "set visited' = {v. \<exists>n \<le> Suc d. at_distance g s v n}" "set next' = {v. at_distance g s v (Suc d)}"
proof -
  let ?N = "\<Union>v \<in> set frontier. set (knows_neighbors g v)"
  have up: "\<exists>n \<le> Suc d. at_distance g s w n" if "w \<in> ?N" for w
    using that at_distance_step assms(3) by fastforce
  have down: "w \<in> ?N" if "at_distance g s w (Suc d)" for w
    using at_distance_pred [OF that] assms(3) by blast
  have "v \<in> set next' \<longleftrightarrow> at_distance g s v (Suc d)" for v
    unfolding ic1_expand_set(2) [OF assms(1)] assms(2)
  proof
    assume v: "v \<in> ?N - {v. \<exists>n \<le> d. at_distance g s v n}"
    then obtain n where "n \<le> Suc d" "at_distance g s v n" using up by blast
    with v show "at_distance g s v (Suc d)" by (cases "n = Suc d") auto
  next
    assume v: "at_distance g s v (Suc d)"
    moreover have "\<not> at_distance g s v n" if "n \<le> d" for n using at_distance_unique [OF v] that by fastforce
    ultimately show "v \<in> ?N - {v. \<exists>n \<le> d. at_distance g s v n}" using down by blast
  qed
  then show "set next' = {v. at_distance g s v (Suc d)}" by blast
  show "set visited' = {v. \<exists>n \<le> Suc d. at_distance g s v n}"
    unfolding ic1_expand_set(1) [OF assms(1)] assms(2) using up down by (auto simp: le_Suc_eq)
qed

lemma ic1_matches_set:
  assumes "set layer = {v. at_distance g s v (Suc d)}" "Suc d \<le> 3"
  shows "set (ic1_matches g name (int (Suc d)) layer) = {c. named_friend g s name c \<and> fst c = int (Suc d)}"
proof (rule set_eqI)
  fix c :: "int \<times> string \<times> int \<times> vertex_id"
  obtain d' last_name i v where c: "c = (d', last_name, i, v)" by (cases c)
  have "c \<in> set (ic1_matches g name (int (Suc d)) layer) \<longleftrightarrow>
      (\<exists>p. v \<in> set layer \<and> sg_person g v = Some p \<and> pe_first_name p = name \<and>
         d' = int (Suc d) \<and> last_name = pe_last_name p \<and> i = pe_id p)"
    unfolding c ic1_matches_def set_map_filter by (auto simp: bind_eq_Some_conv split: if_splits)
  also have "\<dots> \<longleftrightarrow> named_friend g s name c \<and> fst c = int (Suc d)"
    using assms by (auto simp: c named_friend_def nat_add_distrib)
  finally show "c \<in> set (ic1_matches g name (int (Suc d)) layer) \<longleftrightarrow>
      c \<in> {c. named_friend g s name c \<and> fst c = int (Suc d)}" by simp
qed

lemma ic1_levels_set:
  assumes "set visited = {v. \<exists>n \<le> d. at_distance g s v n}" "set frontier = {v. at_distance g s v d}"
    "set cands = {c. named_friend g s name c \<and> fst c \<le> int d}" "d \<le> 3"
  shows "\<exists>D \<le> 3. set (ic1_levels g name limit (map int [Suc d..<4]) frontier visited cands) =
      {c. named_friend g s name c \<and> fst c \<le> int D} \<and>
    (D = 3 \<or> limit \<le> length (ic1_levels g name limit (map int [Suc d..<4]) frontier visited cands) \<or>
      (\<forall>v. \<not> at_distance g s v D))"
  using assms
proof (induction "3 - d" arbitrary: d frontier visited cands)
  case 0
  then show ?case by (intro exI [of _ 3]) simp
next
  case (Suc m)
  then have d: "Suc d \<le> 3" "[Suc d..<4] = Suc d # [Suc (Suc d)..<4]" by (auto simp: upt_conv_Cons)
  obtain vs ns where e: "ic1_expand g frontier visited = (vs, ns)" by force
  note layer = ic1_expand_layer [OF e Suc.prems(1,2)]
  let ?cands = "cands @ ic1_matches g name (int (Suc d)) ns"
  have cands: "set ?cands = {c. named_friend g s name c \<and> fst c \<le> int (Suc d)}"
    unfolding set_append ic1_matches_set [OF layer(2) d(1)] Suc.prems(3) by auto
  show ?case
  proof (cases "limit \<le> length ?cands \<or> ns = []")
    case True
    then have "ic1_levels g name limit (map int [Suc d..<4]) frontier visited cands = ?cands"
      unfolding d(2) by (simp add: e Let_def)
    moreover have "ns = [] \<Longrightarrow> \<forall>v. \<not> at_distance g s v (Suc d)" using layer(2) by auto
    ultimately show ?thesis using cands True d(1) by (intro exI [of _ "Suc d"]) auto
  next
    case False
    then have "ic1_levels g name limit (map int [Suc d..<4]) frontier visited cands =
        ic1_levels g name limit (map int [Suc (Suc d)..<4]) ns vs ?cands"
      unfolding d(2) by (simp add: e Let_def)
    moreover have "m = 3 - Suc d" using Suc.hyps(2) by simp
    ultimately show ?thesis using Suc.hyps(1) [OF _ layer cands d(1)] by simp
  qed
qed

text \<open>C23. The friends with a first name: every row is a person of that name at the distance it shows, one
  to three steps away. The rows come nearest first, then by last name and id, there are at most as
  many as asked for, and such a person is left out only when that many rows come before.\<close>

theorem ic1_nearest:
  assumes "sg_person g (encode_vid Person person_id) \<noteq> None"
  shows "ic1 g person_id name limit = map (ic1_row_of g) (ic1_candidates g person_id name limit) \<and>
    (\<forall>c \<in> set (ic1_candidates g person_id name limit). named_friend g (encode_vid Person person_id) name c) \<and>
    sorted (map friend_key (ic1_candidates g person_id name limit)) \<and>
    length (ic1_candidates g person_id name limit) \<le> limit \<and>
    (\<forall>c. named_friend g (encode_vid Person person_id) name c \<longrightarrow>
       c \<in> set (ic1_candidates g person_id name limit) \<or>
       length (ic1_candidates g person_id name limit) = limit \<and>
       (\<forall>y \<in> set (ic1_candidates g person_id name limit). friend_key y \<le> friend_key c))"
proof -
  let ?s = "encode_vid Person person_id"
  let ?L = "ic1_levels g name limit [1, 2, 3] [?s] [?s] []"
  have key: "(\<lambda>(d, last_name, i, _). (d, last_name, i)) = friend_key" by (simp add: fun_eq_iff friend_key_def)
  have C: "ic1_candidates g person_id name limit = take limit (sort_key friend_key ?L)"
    using assms by (auto simp: ic1_candidates_def Let_def key)
  have "map int [Suc 0..<4] = [1, 2, 3]" by (simp add: upt_conv_Cons)
  moreover have "set [?s] = {v. \<exists>n \<le> 0. at_distance g ?s v n}" "set [?s] = {v. at_distance g ?s v 0}"
    "set [] = {c. named_friend g ?s name c \<and> fst c \<le> int 0}"
    by (auto simp: at_distance_self named_friend_def)
  ultimately obtain D where D: "D \<le> 3" "set ?L = {c. named_friend g ?s name c \<and> fst c \<le> int D}"
    "D = 3 \<or> limit \<le> length ?L \<or> (\<forall>v. \<not> at_distance g ?s v D)"
    using ic1_levels_set [of "[?s]" 0 g ?s "[?s]" "[]" name limit] by auto
  have named: "named_friend g ?s name y \<and> fst y \<le> int D" if "y \<in> set (take limit (sort_key friend_key ?L))" for y
    using that D(2) set_take_subset by fastforce
  have "c \<in> set (take limit (sort_key friend_key ?L)) \<or> length (take limit (sort_key friend_key ?L)) = limit \<and>
       (\<forall>y \<in> set (take limit (sort_key friend_key ?L)). friend_key y \<le> friend_key c)"
    if c: "named_friend g ?s name c" for c
  proof (cases "fst c \<le> int D")
    case True
    then have "c \<in> set ?L" using D(2) c by simp
    from take_sort_top [OF this] show ?thesis .
  next
    case False
    obtain d last_name i v where c': "c = (d, last_name, i, v)" by (cases c)
    have d: "1 \<le> d" "d \<le> 3" "at_distance g ?s v (nat d)" using c by (auto simp: c' named_friend_def)
    have "D \<le> nat d" using False c' by simp
    then have "\<exists>u. at_distance g ?s u D" using at_distance_down d(3) by blast
    then have "limit \<le> length ?L" using D(1,3) False d(2) c' by auto
    moreover have "friend_key y \<le> friend_key c" if "y \<in> set (take limit (sort_key friend_key ?L))" for y
      using named [OF that] False c' by (cases y) (auto simp: friend_key_def less_eq_prod_def)
    ultimately show ?thesis by simp
  qed
  then show ?thesis unfolding C
    using named by (auto simp: ic1_def C take_sort_sorted)
qed

theorem ic1_nearest_witness:
  "length (ic1_candidates \<lparr>sg_snapshot = 0,
      sg_vertices = [(72057594037927937, V_person
        \<lparr>pe_id = 1, pe_first_name = ''A'', pe_last_name = [], pe_gender = [], pe_birthday = 0, pe_creation_date = 0,
         pe_location_ip = [], pe_browser_used = [], pe_place = 0, pe_language = [], pe_email = []\<rparr>)],
      sg_edge_props = [], sg_adjacency = []\<rparr> 1 ''A'' 3) \<le> 3"
proof -
  have "encode_vid Person 1 = 72057594037927937" by code_simp
  then show ?thesis
    by (intro ic1_nearest [THEN conjunct2, THEN conjunct2, THEN conjunct2, THEN conjunct1])
      (simp add: sg_person_def sg_vertex_def hm_get_def)
qed

lemma ic2_newest_example:
  "length (ic2 \<lparr>sg_snapshot = 0,
      sg_vertices = [(72057594037927937, V_person
        \<lparr>pe_id = 1, pe_first_name = ''A'', pe_last_name = [], pe_gender = [], pe_birthday = 0, pe_creation_date = 0,
         pe_location_ip = [], pe_browser_used = [], pe_place = 0, pe_language = [], pe_email = []\<rparr>)],
      sg_edge_props = [], sg_adjacency = [((72057594037927937, 1), [72057594037927937])]\<rparr> 1 99 2) \<le> 2"
proof -
  have "encode_vid Person 1 = 72057594037927937" by code_simp
  then show ?thesis
    by (intro ic2_newest [THEN conjunct2, THEN conjunct1])
      (simp_all add: sg_person_def sg_vertex_def hm_get_def knows_neighbors_def out_neighbors_def group_of_def)
qed

subsection \<open>Tag classes\<close>

definition subclass_rel :: "snb_graph \<Rightarrow> (vertex_id \<times> vertex_id) set" where
  "subclass_rel g = {(a, b). b \<in> set (in_neighbors g a IsSubclassOf)}"

lemma tag_class_loop_closed:
  "\<forall>x \<in> set out. set (in_neighbors g x IsSubclassOf) \<subseteq> set out \<union> set queue \<Longrightarrow>
   set out \<union> set queue \<subseteq> set (tag_class_loop g queue out) \<and>
   (\<forall>x \<in> set (tag_class_loop g queue out).
      set (in_neighbors g x IsSubclassOf) \<subseteq> set (tag_class_loop g queue out))"
proof (induction g queue out rule: tag_class_loop.induct)
  case (2 g tc queue out)
  show ?case
  proof (cases "tc \<in> set out")
    case True
    with 2 show ?thesis by auto
  next
    case False
    have "\<forall>x \<in> set (hs_insert tc out).
        set (in_neighbors g x IsSubclassOf) \<subseteq> set (hs_insert tc out) \<union> set (queue @ in_neighbors g tc IsSubclassOf)"
      using 2(3) by auto
    from "2.IH"(2) [OF False this] False show ?thesis by auto
  qed
qed auto

lemma tag_class_loop_reach:
  "set (tag_class_loop g queue out) \<subseteq> set out \<union> {tc. \<exists>q \<in> set queue. (q, tc) \<in> (subclass_rel g)\<^sup>*}"
proof (induction g queue out rule: tag_class_loop.induct)
  case (2 g tc queue out)
  show ?case
  proof (cases "tc \<in> set out")
    case True
    with 2 show ?thesis by auto
  next
    case False
    have "(tc, x) \<in> (subclass_rel g)\<^sup>*" if "q \<in> set (in_neighbors g tc IsSubclassOf)" "(q, x) \<in> (subclass_rel g)\<^sup>*" for q x
      using that by (auto simp: subclass_rel_def intro: converse_rtrancl_into_rtrancl)
    with "2.IH"(2) [OF False] False show ?thesis by auto
  qed
qed simp

text \<open>C24. The tag classes collected below a class are exactly those reached from it by subclass edges,
  and the collection ends on cyclic hierarchies too.\<close>

theorem tag_classes_reachable:
  "set (tag_class_ancestors_like_dgs g root) = {tc. (root, tc) \<in> (subclass_rel g)\<^sup>*}"
proof
  show "set (tag_class_ancestors_like_dgs g root) \<subseteq> {tc. (root, tc) \<in> (subclass_rel g)\<^sup>*}"
    using tag_class_loop_reach [of g "[root]" "[]"] by (auto simp: tag_class_ancestors_like_dgs_def simp del: tag_class_loop.simps)
next
  let ?S = "set (tag_class_ancestors_like_dgs g root)"
  have S: "root \<in> ?S" "\<And>x. x \<in> ?S \<Longrightarrow> set (in_neighbors g x IsSubclassOf) \<subseteq> ?S"
    using tag_class_loop_closed [of "[]" g "[root]"] unfolding tag_class_ancestors_like_dgs_def by simp_all
  have "tc \<in> ?S" if "(root, tc) \<in> (subclass_rel g)\<^sup>*" for tc
    using that
  proof (induction rule: rtrancl_induct)
    case (step y z)
    with S(2) [OF step.IH] show ?case by (auto simp: subclass_rel_def)
  qed (rule S(1))
  then show "{tc. (root, tc) \<in> (subclass_rel g)\<^sup>*} \<subseteq> ?S" by blast
qed

end
