(* ===== verification/Snb_All_Paths.thy ===== *)
theory Snb_All_Paths
  imports Snb_Distance
begin

section \<open>All shortest paths are found\<close>

text \<open>
  The correctness of \<^verbatim>\<open>all_shortest_paths\<close>: the layered search ends, its parent lists hold
  every edge between neighbouring layers, the paths read off them are exactly the shortest
  paths, and the weights are those of the definition whatever the two caches hold.
\<close>

subsection \<open>Weights do not depend on the caches\<close>

definition replies_to :: "snb_graph \<Rightarrow> vertex_id \<Rightarrow> vertex_id list \<Rightarrow> int" where
  "replies_to g target ms = int (length (filter (\<lambda>m. message_creator_vid g m = Some target) ms))"

definition reply_halves :: "snb_graph \<Rightarrow> vertex_id \<Rightarrow> vertex_id \<Rightarrow> int" where
  "reply_halves g author target =
     (\<Sum>msg \<leftarrow> filter (\<lambda>msg. message_creator_vid g msg = Some author) (in_neighbors g author HasCreator).
        2 * replies_to g target (out_neighbors g msg ReplyOfPost) +
        replies_to g target (out_neighbors g msg ReplyOfComment))"

definition friend_weight :: "snb_graph \<Rightarrow> vertex_id \<Rightarrow> vertex_id \<Rightarrow> int" where
  "friend_weight g a b = reply_halves g a b + reply_halves g b a"

fun path_halves :: "snb_graph \<Rightarrow> vertex_id list \<Rightarrow> int" where
  "path_halves g (a # b # path) = friend_weight g a b + path_halves g (b # path)"
| "path_halves g path = 0"

definition weights_ok :: "snb_graph \<Rightarrow> ic14_cache \<Rightarrow> bool" where
  "weights_ok g c \<longleftrightarrow> hm_inv (ic_comment_creator c) \<and> hm_inv (ic_knows_weight c) \<and>
     (\<forall>m x. hm_get (ic_comment_creator c) m = Some x \<longrightarrow> message_creator_vid g m = Some x) \<and>
     (\<forall>a b w. hm_get (ic_knows_weight c) (a, b) = Some w \<longrightarrow> w = friend_weight g a b)"

lemma weights_ok_new: "weights_ok g ic14_cache_new"
  by (simp add: weights_ok_def ic14_cache_new_def hm.inv_empty hm.get_empty)

lemma comment_creator_ok:
  assumes "weights_ok g c" "comment_creator g m c = (r, c')"
  shows "r = message_creator_vid g m" "weights_ok g c'"
proof -
  have "r = message_creator_vid g m \<and> weights_ok g c'"
  proof (cases "hm_get (ic_comment_creator c) m")
    case None
    then show ?thesis using assms
      by (auto simp: comment_creator_def weights_ok_def hm.inv_ins hm.get_ins split: option.splits if_splits)
  next
    case (Some x)
    then have "message_creator_vid g m = Some x" using assms(1) by (simp add: weights_ok_def)
    then show ?thesis using assms Some by (auto simp: comment_creator_def)
  qed
  then show "r = message_creator_vid g m" "weights_ok g c'" by auto
qed

lemma add_replies_ok:
  assumes "weights_ok g c" "add_replies g target k ms (w, c) = (w', c')"
  shows "w' = w + k * replies_to g target ms \<and> weights_ok g c'"
  using assms
proof (induction ms arbitrary: w c)
  case (Cons m ms)
  obtain r c1 where r: "comment_creator g m c = (r, c1)" by force
  note ok = comment_creator_ok [OF Cons.prems(1) r]
  have "add_replies g target k ms (if r = Some target then w + k else w, c1) = (w', c')"
    using Cons.prems(2) r by (simp add: add_replies_def)
  from Cons.IH [OF ok(2) this] ok(1) show ?case by (auto simp: replies_to_def algebra_simps)
qed (simp add: add_replies_def replies_to_def)

lemma reply_weight_ok:
  assumes "weights_ok g c" "reply_weight g author target c = (w, c')"
  shows "w = reply_halves g author target" "weights_ok g c'"
proof -
  let ?f = "\<lambda>msg (weight, c). case comment_creator g msg c of
         (creator, c) \<Rightarrow>
           if creator \<noteq> Some author then (weight, c)
           else add_replies g target 1 (out_neighbors g msg ReplyOfComment)
             (add_replies g target 2 (out_neighbors g msg ReplyOfPost) (weight, c))"
  let ?one = "\<lambda>msg. 2 * replies_to g target (out_neighbors g msg ReplyOfPost) +
        replies_to g target (out_neighbors g msg ReplyOfComment)"
  have "fold ?f msgs (w0, c) = (w, c') \<Longrightarrow> weights_ok g c \<Longrightarrow>
      w = w0 + (\<Sum>msg \<leftarrow> filter (\<lambda>msg. message_creator_vid g msg = Some author) msgs. ?one msg) \<and> weights_ok g c'"
    for msgs w0 c
  proof (induction msgs arbitrary: w0 c)
    case (Cons m ms)
    obtain r c1 where r: "comment_creator g m c = (r, c1)" by force
    note ok = comment_creator_ok [OF Cons.prems(2) r]
    show ?case
    proof (cases "r = Some author")
      case True
      obtain w2 c2 where 2: "add_replies g target 2 (out_neighbors g m ReplyOfPost) (w0, c1) = (w2, c2)" by force
      obtain w3 c3 where 3: "add_replies g target 1 (out_neighbors g m ReplyOfComment) (w2, c2) = (w3, c3)" by force
      have "fold ?f ms (w3, c3) = (w, c')" using Cons.prems(1) r True 2 3 by simp
      then show ?thesis
        using Cons.IH [of w3 c3] add_replies_ok [OF ok(2) 2] add_replies_ok [OF _ 3] True ok(1) by auto
    next
      case False
      then have "fold ?f ms (w0, c1) = (w, c')" using Cons.prems(1) r by simp
      then show ?thesis using Cons.IH [of w0 c1] ok False by auto
    qed
  qed simp
  from this [of "in_neighbors g author HasCreator" 0 c] assms
  show "w = reply_halves g author target" "weights_ok g c'"
    unfolding reply_weight_def reply_halves_def by auto
qed

lemma friend_weight_sym: "friend_weight g a b = friend_weight g b a"
  by (simp add: friend_weight_def)

lemma knows_weight_ok:
  assumes "weights_ok g c" "knows_weight g a b c = (w, c')"
  shows "w = friend_weight g a b" "weights_ok g c'"
proof -
  obtain x y where key: "(if a \<le> b then (a, b) else (b, a)) = (x, y)" by force
  have xy: "friend_weight g x y = friend_weight g a b" using key friend_weight_sym by (auto split: if_splits)
  obtain wa c1 where a: "reply_weight g a b c = (wa, c1)" by force
  obtain wb c2 where b: "reply_weight g b a c1 = (wb, c2)" by force
  note oka = reply_weight_ok [OF assms(1) a] and okb = reply_weight_ok [OF reply_weight_ok(2) [OF assms(1) a] b]
  show "w = friend_weight g a b" "weights_ok g c'"
    using assms xy oka okb a b unfolding knows_weight_def Let_def key
    by (auto simp: weights_ok_def hm.inv_ins hm.get_ins friend_weight_def split: option.splits if_splits)
qed

lemma path_weight_ok:
  "weights_ok g c \<Longrightarrow> path_weight g p c = (w, c') \<Longrightarrow> w = path_halves g p \<and> weights_ok g c'"
proof (induction g p c arbitrary: w c' rule: path_weight.induct)
  case (1 g a b path c)
  obtain w1 c1 where 1: "knows_weight g a b c = (w1, c1)" by force
  obtain w2 c2 where 2: "path_weight g (b # path) c1 = (w2, c2)" by force
  note ok = knows_weight_ok [OF "1.prems"(1) 1]
  from "1.IH" [OF 1 [symmetric] ok(2) 2] ok 1 2 "1.prems"(2) show ?case by simp
qed auto

subsection \<open>One layer of the search\<close>

abbreviation dag_edge :: "snb_graph \<Rightarrow> parent_dag \<Rightarrow> nat \<Rightarrow> vertex_id \<Rightarrow> bool" where
  "dag_edge g d j v \<equiv> v \<in> set (knows_neighbors g (dag_vids d ! j))"

definition dag_shape :: "snb_graph \<Rightarrow> vertex_id \<Rightarrow> vertex_id \<Rightarrow> nat \<Rightarrow> parent_dag \<Rightarrow> bool" where
  "dag_shape g s goal k d \<longleftrightarrow>
     length (dag_depths d) = length (dag_vids d) \<and> length (dag_parents d) = length (dag_vids d) \<and>
     distinct (dag_vids d) \<and> hm_inv (dag_index d) \<and>
     (\<forall>v i. hm_get (dag_index d) v = Some i \<longleftrightarrow> i < length (dag_vids d) \<and> dag_vids d ! i = v) \<and>
     (\<forall>i < length (dag_vids d). at_distance g s (dag_vids d ! i) (dag_depths d ! i) \<and> dag_depths d ! i \<le> k) \<and>
     (case dag_goal d of None \<Rightarrow> goal \<notin> set (dag_vids d)
      | Some (i, n) \<Rightarrow> i < length (dag_vids d) \<and> dag_vids d ! i = goal \<and> dag_depths d ! i = n)"

definition dag_complete :: "snb_graph \<Rightarrow> vertex_id \<Rightarrow> nat \<Rightarrow> parent_dag \<Rightarrow> bool" where
  "dag_complete g s k d \<longleftrightarrow>
     (\<forall>v n. at_distance g s v n \<and> n \<le> k \<longrightarrow> v \<in> set (dag_vids d)) \<and>
     (\<forall>i < length (dag_vids d). dag_depths d ! i \<le> k \<longrightarrow> distinct (dag_parents d ! i) \<and>
        set (dag_parents d ! i) =
          {j. j < length (dag_vids d) \<and> Suc (dag_depths d ! j) = dag_depths d ! i \<and> dag_edge g d j (dag_vids d ! i)})"

lemma dag_completeD: "dag_complete g s k d \<Longrightarrow> at_distance g s v n \<Longrightarrow> n \<le> k \<Longrightarrow> v \<in> set (dag_vids d)"
  unfolding dag_complete_def by blast

text \<open>Inside a layer: \<open>E\<close> holds the edges out of layer \<open>k\<close> visited so far, \<open>d0\<close> is the search as it was
  before the layer.\<close>

definition layer_inv ::
  "snb_graph \<Rightarrow> vertex_id \<Rightarrow> vertex_id \<Rightarrow> nat \<Rightarrow> parent_dag \<Rightarrow> (nat \<times> vertex_id) set \<Rightarrow> parent_dag \<Rightarrow> bool"
where
  "layer_inv g s goal k d0 E d \<longleftrightarrow>
     dag_shape g s goal (Suc k) d \<and> dag_complete g s k d \<and>
     (\<exists>ws. dag_vids d = dag_vids d0 @ ws \<and> dag_depths d = dag_depths d0 @ replicate (length ws) (Suc k)) \<and>
     (\<forall>i < length (dag_vids d). dag_depths d ! i = Suc k \<longrightarrow>
        distinct (dag_parents d ! i) \<and> set (dag_parents d ! i) = {j. (j, dag_vids d ! i) \<in> E}) \<and>
     snd ` E \<subseteq> set (dag_vids d) \<and>
     distinct (dag_next d) \<and> set (dag_next d) = {i. i < length (dag_vids d) \<and> dag_depths d ! i = Suc k}"

lemma layer_invD:
  assumes "layer_inv g s goal k d0 E d"
  shows "dag_shape g s goal (Suc k) d" "dag_complete g s k d"
    "i < length (dag_vids d) \<Longrightarrow> dag_depths d ! i = Suc k \<Longrightarrow>
      distinct (dag_parents d ! i) \<and> set (dag_parents d ! i) = {j. (j, dag_vids d ! i) \<in> E}"
    "snd ` E \<subseteq> set (dag_vids d)" "distinct (dag_next d)"
    "set (dag_next d) = {i. i < length (dag_vids d) \<and> dag_depths d ! i = Suc k}"
  using assms by (simp_all add: layer_inv_def)

lemma visit_old:
  assumes inv: "layer_inv g s goal k d0 E d"
    and idx: "idx < length (dag_vids d)" "dag_depths d ! idx = k" "dag_edge g d idx nbr" "(idx, nbr) \<notin> E"
    and n: "hm_get (dag_index d) nbr = Some n"
  shows "layer_inv g s goal k d0 (insert (idx, nbr) E) (dag_visit goal (Suc k) idx nbr d)"
proof -
  have nbr: "n < length (dag_vids d)" "dag_vids d ! n = nbr" "distinct (dag_vids d)"
    "length (dag_parents d) = length (dag_vids d)"
    using inv n by (auto simp: layer_inv_def dag_shape_def)
  have other: "dag_vids d ! i \<noteq> nbr" if "i < length (dag_vids d)" "i \<noteq> n" for i
    using nbr that nth_eq_iff_index_eq by blast
  have late: "\<forall>i < length (dag_vids d). dag_depths d ! i = Suc k \<longrightarrow>
        distinct (dag_parents d ! i) \<and> set (dag_parents d ! i) = {j. (j, dag_vids d ! i) \<in> E}"
    using inv by (simp add: layer_inv_def)
  show ?thesis
  proof (cases "dag_depths d ! n = Suc k")
    case True
    let ?d = "d\<lparr>dag_parents := (dag_parents d)[n := dag_parents d ! n @ [idx]]\<rparr>"
    have d: "dag_visit goal (Suc k) idx nbr d = ?d" using n True by (simp add: dag_visit_def)
    have "\<forall>i < length (dag_vids d). dag_depths d ! i = Suc k \<longrightarrow> distinct (dag_parents ?d ! i) \<and>
        set (dag_parents ?d ! i) = {j. (j, dag_vids d ! i) \<in> insert (idx, nbr) E}"
      using late nbr other idx(4) True by (auto simp: nth_list_update)
    moreover have same: "dag_parents ?d ! i = dag_parents d ! i" if "dag_depths d ! i \<le> k" for i
      using that True by (cases "i = n") simp_all
    moreover have "dag_shape g s goal (Suc k) ?d"
      using inv by (simp add: layer_inv_def dag_shape_def split: option.splits prod.splits)
    moreover have "dag_complete g s k ?d"
      using inv same by (simp add: layer_inv_def dag_complete_def)
    moreover have "nbr \<in> set (dag_vids d)" using nbr by auto
    ultimately show ?thesis
      using inv unfolding d layer_inv_def by simp
  next
    case False
    have "\<forall>i < length (dag_vids d). dag_depths d ! i = Suc k \<longrightarrow>
        distinct (dag_parents d ! i) \<and> set (dag_parents d ! i) = {j. (j, dag_vids d ! i) \<in> insert (idx, nbr) E}"
      using late other False by auto
    moreover have "nbr \<in> set (dag_vids d)" using nbr by auto
    moreover have "dag_visit goal (Suc k) idx nbr d = d" using n False by (simp add: dag_visit_def)
    ultimately show ?thesis using inv unfolding layer_inv_def by simp
  qed
qed

lemma visit_new:
  assumes inv: "layer_inv g s goal k d0 E d"
    and idx: "idx < length (dag_vids d)" "dag_depths d ! idx = k" "dag_edge g d idx nbr"
    and n: "hm_get (dag_index d) nbr = None"
  shows "layer_inv g s goal k d0 (insert (idx, nbr) E) (dag_visit goal (Suc k) idx nbr d)"
proof -
  let ?L = "length (dag_vids d)"
  let ?d = "d\<lparr>dag_vids := dag_vids d @ [nbr], dag_depths := dag_depths d @ [Suc k],
       dag_parents := dag_parents d @ [[idx]], dag_index := hm_insert nbr ?L (dag_index d),
       dag_next := dag_next d @ [?L], dag_goal := (if nbr = goal then Some (?L, Suc k) else dag_goal d)\<rparr>"
  have d: "dag_visit goal (Suc k) idx nbr d = ?d" using n by (simp add: dag_visit_def Let_def)
  have shape: "dag_shape g s goal (Suc k) d" and compl: "dag_complete g s k d"
    and E: "snd ` E \<subseteq> set (dag_vids d)"
    using inv by (auto simp: layer_inv_def)
  have lens: "length (dag_depths d) = ?L" "length (dag_parents d) = ?L"
    and keys: "\<And>v i. hm_get (dag_index d) v = Some i \<longleftrightarrow> i < ?L \<and> dag_vids d ! i = v"
    and dist: "\<And>i. i < ?L \<Longrightarrow> at_distance g s (dag_vids d ! i) (dag_depths d ! i) \<and> dag_depths d ! i \<le> Suc k"
    using shape by (auto simp: dag_shape_def)
  have fresh: "nbr \<notin> set (dag_vids d)" using n keys by (metis in_set_conv_nth option.distinct(1))
  have far: "at_distance g s nbr (Suc k)"
  proof -
    have "at_distance g s (dag_vids d ! idx) k" using dist [OF idx(1)] idx(2) by simp
    from at_distance_step [OF this idx(3)] obtain m where m: "m \<le> Suc k" "at_distance g s nbr m" by blast
    moreover have "\<not> m \<le> k" using m(2) fresh compl by (auto simp: dag_complete_def)
    ultimately show ?thesis by (simp add: le_Suc_eq)
  qed
  have "dag_shape g s goal (Suc k) ?d"
    unfolding dag_shape_def
  proof (intro conjI)
    show "\<forall>v i. hm_get (dag_index ?d) v = Some i \<longleftrightarrow> i < length (dag_vids ?d) \<and> dag_vids ?d ! i = v"
      using shape keys fresh by (auto simp: dag_shape_def hm.get_ins nth_append less_Suc_eq)
    show "\<forall>i < length (dag_vids ?d).
        at_distance g s (dag_vids ?d ! i) (dag_depths ?d ! i) \<and> dag_depths ?d ! i \<le> Suc k"
      using dist far lens by (auto simp: nth_append less_Suc_eq)
    show "case dag_goal ?d of None \<Rightarrow> goal \<notin> set (dag_vids ?d)
      | Some (i, n) \<Rightarrow> i < length (dag_vids ?d) \<and> dag_vids ?d ! i = goal \<and> dag_depths ?d ! i = n"
      using shape lens by (auto simp: dag_shape_def nth_append split: option.splits)
  qed (use shape fresh in \<open>auto simp: dag_shape_def hm.inv_ins\<close>)
  moreover have "dag_complete g s k ?d"
    unfolding dag_complete_def
  proof (intro conjI)
    show "\<forall>v n. at_distance g s v n \<and> n \<le> k \<longrightarrow> v \<in> set (dag_vids ?d)"
      using compl by (auto simp: dag_complete_def)
    have sub: "{j. j < Suc ?L \<and> Suc ((dag_depths d @ [Suc k]) ! j) = m \<and>
          v \<in> set (knows_neighbors g ((dag_vids d @ [nbr]) ! j))} =
        {j. j < ?L \<and> Suc (dag_depths d ! j) = m \<and> dag_edge g d j v}" if "m \<le> k" for m v
      using that lens by (auto simp: nth_append less_Suc_eq)
    show "\<forall>i < length (dag_vids ?d). dag_depths ?d ! i \<le> k \<longrightarrow> distinct (dag_parents ?d ! i) \<and>
        set (dag_parents ?d ! i) = {j. j < length (dag_vids ?d) \<and>
          Suc (dag_depths ?d ! j) = dag_depths ?d ! i \<and> dag_edge g ?d j (dag_vids ?d ! i)}"
    proof (intro allI impI)
      fix i
      assume i: "i < length (dag_vids ?d)" "dag_depths ?d ! i \<le> k"
      then have "i < ?L" using lens by (auto simp: nth_append less_Suc_eq)
      then show "distinct (dag_parents ?d ! i) \<and>
        set (dag_parents ?d ! i) = {j. j < length (dag_vids ?d) \<and>
          Suc (dag_depths ?d ! j) = dag_depths ?d ! i \<and> dag_edge g ?d j (dag_vids ?d ! i)}"
        using compl i lens sub [of "dag_depths d ! i" "dag_vids d ! i"]
        by (simp add: dag_complete_def nth_append)
    qed
  qed
  moreover have "\<exists>ws. dag_vids ?d = dag_vids d0 @ ws \<and> dag_depths ?d = dag_depths d0 @ replicate (length ws) (Suc k)"
  proof -
    obtain ws where "dag_vids d = dag_vids d0 @ ws" "dag_depths d = dag_depths d0 @ replicate (length ws) (Suc k)"
      using inv by (auto simp: layer_inv_def)
    then show ?thesis by (intro exI [of _ "ws @ [nbr]"]) (simp add: replicate_append_same)
  qed
  moreover have "\<forall>i < length (dag_vids ?d). dag_depths ?d ! i = Suc k \<longrightarrow>
      distinct (dag_parents ?d ! i) \<and> set (dag_parents ?d ! i) = {j. (j, dag_vids ?d ! i) \<in> insert (idx, nbr) E}"
  proof -
    have "\<forall>i < ?L. dag_depths d ! i = Suc k \<longrightarrow>
        distinct (dag_parents d ! i) \<and> set (dag_parents d ! i) = {j. (j, dag_vids d ! i) \<in> E}"
      using inv by (simp add: layer_inv_def)
    moreover have "dag_vids d ! i \<noteq> nbr" if "i < ?L" for i using that fresh nth_mem by metis
    moreover have "{j. (j, nbr) \<in> insert (idx, nbr) E} = {idx}" using E fresh by force
    ultimately show ?thesis using lens by (auto simp: nth_append less_Suc_eq)
  qed
  moreover have "snd ` insert (idx, nbr) E \<subseteq> set (dag_vids ?d)" using E by auto
  moreover have "distinct (dag_next ?d) \<and> set (dag_next ?d) =
      {i. i < length (dag_vids ?d) \<and> dag_depths ?d ! i = Suc k}"
    using inv lens by (auto simp: layer_inv_def nth_append less_Suc_eq)
  ultimately show ?thesis unfolding d layer_inv_def by blast
qed

lemma visit_layer:
  assumes "layer_inv g s goal k d0 E d" "idx < length (dag_vids d)" "dag_depths d ! idx = k" "dag_edge g d idx nbr"
    "(idx, nbr) \<notin> E"
  shows "layer_inv g s goal k d0 (insert (idx, nbr) E) (dag_visit goal (Suc k) idx nbr d)"
  using assms visit_old visit_new by (cases "hm_get (dag_index d) nbr") blast+

text \<open>The entries of the layer are those of \<open>d0\<close> all along.\<close>

lemma layer_old:
  assumes "layer_inv g s goal k d0 E d" "length (dag_depths d0) = length (dag_vids d0)" "j < length (dag_vids d0)"
  shows "j < length (dag_vids d)" "dag_vids d ! j = dag_vids d0 ! j" "dag_depths d ! j = dag_depths d0 ! j"
  using assms by (auto simp: layer_inv_def nth_append)

lemma visit_neighbors:
  assumes "layer_inv g s goal k d0 E d" "length (dag_depths d0) = length (dag_vids d0)"
    "idx < length (dag_vids d0)" "dag_depths d0 ! idx = k"
    "distinct nbrs" "set nbrs \<subseteq> set (knows_neighbors g (dag_vids d0 ! idx))" "\<forall>n \<in> set nbrs. (idx, n) \<notin> E"
  shows "layer_inv g s goal k d0 (E \<union> Pair idx ` set nbrs) (fold (dag_visit goal (Suc k) idx) nbrs d)"
  using assms
proof (induction nbrs arbitrary: d E)
  case (Cons n nbrs)
  note old = layer_old [OF Cons.prems(1-3)]
  have "layer_inv g s goal k d0 (insert (idx, n) E) (dag_visit goal (Suc k) idx n d)"
    using Cons.prems old by (intro visit_layer) auto
  from Cons.IH [OF this Cons.prems(2-4)] Cons.prems(5-7) show ?case by (auto simp: insert_commute)
qed simp

lemma visit_frontier:
  assumes "layer_inv g s goal k d0 E d" "length (dag_depths d0) = length (dag_vids d0)"
    "\<forall>idx \<in> set frontier. idx < length (dag_vids d0) \<and> dag_depths d0 ! idx = k" "distinct frontier"
    "\<forall>idx \<in> set frontier. idx \<notin> fst ` E" "\<forall>v. distinct (knows_neighbors g v)"
  shows "layer_inv g s goal k d0 (E \<union> {(j, v). j \<in> set frontier \<and> v \<in> set (knows_neighbors g (dag_vids d0 ! j))})
    (fold (\<lambda>idx d. fold (dag_visit goal (Suc k) idx) (knows_neighbors g (dag_vids d ! idx)) d) frontier d)"
  using assms
proof (induction frontier arbitrary: d E)
  case (Cons idx frontier)
  let ?E = "E \<union> Pair idx ` set (knows_neighbors g (dag_vids d0 ! idx))"
  have idx: "idx < length (dag_vids d0)" "dag_depths d0 ! idx = k" "idx \<notin> fst ` E" using Cons.prems by auto
  have "layer_inv g s goal k d0 ?E
      (fold (dag_visit goal (Suc k) idx) (knows_neighbors g (dag_vids d0 ! idx)) d)"
    by (rule visit_neighbors [OF Cons.prems(1,2) idx(1,2)]) (use Cons.prems(6) idx(3) in \<open>auto simp: image_iff\<close>)
  moreover have "dag_vids d ! idx = dag_vids d0 ! idx" using layer_old(2) [OF Cons.prems(1,2) idx(1)] .
  moreover have "\<forall>j \<in> set frontier. j \<notin> fst ` ?E" using Cons.prems(4,5) by auto
  ultimately have "layer_inv g s goal k d0
      (?E \<union> {(j, v). j \<in> set frontier \<and> v \<in> set (knows_neighbors g (dag_vids d0 ! j))})
      (fold (\<lambda>idx d. fold (dag_visit goal (Suc k) idx) (knows_neighbors g (dag_vids d ! idx)) d) (idx # frontier) d)"
    using Cons.IH [of ?E] Cons.prems(2-4,6) by simp
  moreover have "?E \<union> {(j, v). j \<in> set frontier \<and> v \<in> set (knows_neighbors g (dag_vids d0 ! j))} =
      E \<union> {(j, v). j \<in> set (idx # frontier) \<and> v \<in> set (knows_neighbors g (dag_vids d0 ! j))}" by auto
  ultimately show ?case by simp
qed simp

text \<open>Between layers: everything up to distance \<open>k\<close> is known and nothing else, the frontier is
  layer \<open>k\<close>.\<close>

definition dag_inv :: "snb_graph \<Rightarrow> vertex_id \<Rightarrow> vertex_id \<Rightarrow> nat \<Rightarrow> nat list \<Rightarrow> parent_dag \<Rightarrow> bool" where
  "dag_inv g s goal k frontier d \<longleftrightarrow> dag_shape g s goal k d \<and> dag_complete g s k d \<and>
     distinct frontier \<and> set frontier = {i. i < length (dag_vids d) \<and> dag_depths d ! i = k}"

lemma dag_inv_start: "s \<noteq> goal \<Longrightarrow> dag_inv g s goal 0 [0] (dag_start s)"
  by (auto simp: dag_inv_def dag_shape_def dag_complete_def dag_start_def hm.inv_ins hm.inv_empty hm.get_ins
      hm.get_empty at_distance_self)

lemma dag_level_inv:
  assumes inv: "dag_inv g s goal k frontier d" and dis: "\<forall>v. distinct (knows_neighbors g v)"
    and ne: "frontier \<noteq> []"
  shows "dag_inv g s goal (Suc k) (dag_next (dag_level g goal frontier d)) (dag_level g goal frontier d)"
    and "\<exists>ws. dag_vids (dag_level g goal frontier d) = dag_vids d @ ws \<and>
      (dag_next (dag_level g goal frontier d) \<noteq> [] \<longrightarrow> ws \<noteq> [])"
proof -
  let ?d = "d\<lparr>dag_next := []\<rparr>" and ?r = "dag_level g goal frontier d"
  let ?E = "{(j, v). j \<in> set frontier \<and> v \<in> set (knows_neighbors g (dag_vids d ! j))}"
  have fr: "distinct frontier" "\<And>j. j \<in> set frontier \<longleftrightarrow> j < length (dag_vids d) \<and> dag_depths d ! j = k"
    and lens: "length (dag_depths d) = length (dag_vids d)"
    and upto: "\<And>i. i < length (dag_vids d) \<Longrightarrow> dag_depths d ! i \<le> k"
    using inv by (auto simp: dag_inv_def dag_shape_def)
  have "layer_inv g s goal k ?d {} ?d"
    using inv upto unfolding layer_inv_def dag_inv_def dag_shape_def dag_complete_def
    by (fastforce split: option.splits)
  then have "layer_inv g s goal k ?d
      ({} \<union> {(j, v). j \<in> set frontier \<and> v \<in> set (knows_neighbors g (dag_vids ?d ! j))})
      (fold (\<lambda>idx d. fold (dag_visit goal (Suc k) idx) (knows_neighbors g (dag_vids d ! idx)) d) frontier ?d)"
    by (rule visit_frontier) (use fr lens dis in simp_all)
  then have "layer_inv g s goal k ?d ?E
      (fold (\<lambda>idx d. fold (dag_visit goal (Suc k) idx) (knows_neighbors g (dag_vids d ! idx)) d) frontier ?d)"
    by simp
  moreover have "dag_depths d ! hd frontier = k" using fr ne hd_in_set by blast
  ultimately have layer: "layer_inv g s goal k ?d ?E ?r"
    by (simp add: dag_level_def Let_def)
  obtain ws where ws: "dag_vids ?r = dag_vids d @ ws" "dag_depths ?r = dag_depths d @ replicate (length ws) (Suc k)"
    using layer by (auto simp: layer_inv_def)
  note late = layer_invD(3) [OF layer] and seen = layer_invD(4) [OF layer]
    and nxt = layer_invD(5,6) [OF layer] and shape = layer_invD(1) [OF layer] and compl = layer_invD(2) [OF layer]
  have edges: "(j, v) \<in> ?E \<longleftrightarrow>
      j < length (dag_vids ?r) \<and> dag_depths ?r ! j = k \<and> dag_edge g ?r j v" for j v
  proof (cases "j < length (dag_vids d)")
    case True
    then show ?thesis using fr(2) [of j] lens by (simp add: ws nth_append)
  next
    case False
    then have "dag_depths ?r ! j = Suc k" if "j < length (dag_vids ?r)" using that lens by (simp add: ws nth_append)
    then have "\<not> (j < length (dag_vids ?r) \<and> dag_depths ?r ! j = k)" by (metis n_not_Suc_n)
    moreover have "j \<notin> set frontier" using fr(2) [of j] False by blast
    ultimately show ?thesis by blast
  qed
  have "v \<in> set (dag_vids ?r)" if v: "at_distance g s v n" "n \<le> Suc k" for v n
  proof (cases "n = Suc k")
    case True
    with v(1) obtain u where u: "at_distance g s u k" "v \<in> set (knows_neighbors g u)"
      using at_distance_pred by blast
    then have "u \<in> set (dag_vids ?r)" using compl by (auto simp: dag_complete_def)
    then obtain j where j: "j < length (dag_vids ?r)" "dag_vids ?r ! j = u" by (auto simp: in_set_conv_nth)
    then have "dag_depths ?r ! j = k" using shape u(1) at_distance_unique by (auto simp: dag_shape_def)
    then have "(j, v) \<in> ?E" using j u(2) edges by blast
    then show ?thesis using seen by force
  qed (use v dag_completeD [OF compl v(1)] in simp)
  moreover have "distinct (dag_parents ?r ! i) \<and> set (dag_parents ?r ! i) =
      {j. j < length (dag_vids ?r) \<and> Suc (dag_depths ?r ! j) = dag_depths ?r ! i \<and> dag_edge g ?r j (dag_vids ?r ! i)}"
    if i: "i < length (dag_vids ?r)" "dag_depths ?r ! i \<le> Suc k" for i
  proof (cases "dag_depths ?r ! i = Suc k")
    case True
    then show ?thesis using late [OF i(1) True] unfolding edges by auto
  qed (use i compl in \<open>auto simp: dag_complete_def\<close>)
  ultimately have "dag_complete g s (Suc k) ?r" by (auto simp: dag_complete_def)
  then show "dag_inv g s goal (Suc k) (dag_next ?r) ?r" using shape nxt by (simp add: dag_inv_def)
  show "\<exists>ws. dag_vids ?r = dag_vids d @ ws \<and> (dag_next ?r \<noteq> [] \<longrightarrow> ws \<noteq> [])"
  proof (intro exI [of _ ws] conjI impI notI)
    assume "dag_next ?r \<noteq> []" "ws = []"
    then obtain i where "i < length (dag_vids d)" "dag_depths d ! i = Suc k"
      using nxt(2) ws by (cases "dag_next ?r") auto
    then show False using upto by fastforce
  qed (rule ws(1))
qed

subsection \<open>The whole search\<close>

lemma dag_loop_ends:
  assumes "dag_inv g s goal k frontier d" "\<forall>v. distinct (knows_neighbors g v)"
  shows "\<exists>d' k'. dag_loop g goal frontier d = Some d' \<and>
    (\<exists>frontier'. dag_inv g s goal k' frontier' d' \<and> (frontier' = [] \<or> dag_goal d' \<noteq> None))"
  using assms
proof (induction "card (UNIV - set (dag_vids d))" arbitrary: k frontier d rule: less_induct)
  case less
  let ?d = "dag_level g goal frontier d"
  show ?case
  proof (cases "frontier = [] \<or> dag_goal d \<noteq> None")
    case True
    with less.prems show ?thesis by (subst dag_loop.simps) auto
  next
    case False
    then have step: "dag_loop g goal frontier d = dag_loop g goal (dag_next ?d) ?d"
      by (subst dag_loop.simps) (simp add: Let_def)
    from False have ne: "frontier \<noteq> []" by simp
    note level = dag_level_inv [OF less.prems ne]
    show ?thesis
    proof (cases "dag_next ?d = []")
      case True
      then have "dag_loop g goal frontier d = Some ?d" using step by (simp add: dag_loop.simps)
      with level(1) True show ?thesis by metis
    next
      case False
      then obtain ws where ws: "dag_vids ?d = dag_vids d @ ws" "ws \<noteq> []" using level(2) by blast
      have "distinct (dag_vids d @ ws)" using level(1) ws(1) by (simp add: dag_inv_def dag_shape_def)
      then have "UNIV - set (dag_vids ?d) \<subset> UNIV - set (dag_vids d)" using ws by (cases ws) auto
      then have "card (UNIV - set (dag_vids ?d)) < card (UNIV - set (dag_vids d))"
        by (intro psubset_card_mono) simp_all
      from less.hyps [OF this level(1) less.prems(2)] step show ?thesis by simp
    qed
  qed
qed

lemma parent_dag_correct:
  assumes "s \<noteq> goal" "\<forall>v. distinct (knows_neighbors g v)"
  shows "(shortest_path_parent_dag s goal g = Some None \<and> (s, goal) \<notin> (knows_rel g)\<^sup>*) \<or>
    (\<exists>k d i n. shortest_path_parent_dag s goal g = Some (Some (dag_vids d, dag_parents d, i, n)) \<and>
       dag_shape g s goal k d \<and> dag_complete g s k d \<and>
       i < length (dag_vids d) \<and> dag_vids d ! i = goal \<and> dag_depths d ! i = n)"
proof -
  obtain d k fr where loop: "dag_loop g goal [0] (dag_start s) = Some d" and inv: "dag_inv g s goal k fr d"
    and fin: "fr = [] \<or> dag_goal d \<noteq> None"
    using dag_loop_ends [OF dag_inv_start [OF assms(1)] assms(2)] by blast
  have shape: "dag_shape g s goal k d" and compl: "dag_complete g s k d"
    and fr: "set fr = {i. i < length (dag_vids d) \<and> dag_depths d ! i = k}"
    using inv by (auto simp: dag_inv_def)
  show ?thesis
  proof (cases "dag_goal d")
    case None
    then have "fr = []" "goal \<notin> set (dag_vids d)" using fin shape by (auto simp: dag_shape_def)
    have "\<not> at_distance g s goal n" for n
    proof
      assume n: "at_distance g s goal n"
      have "k \<le> n" using dag_completeD [OF compl n] \<open>goal \<notin> set (dag_vids d)\<close> by (cases "n \<le> k") auto
      from at_distance_down [OF n this] obtain u where u: "at_distance g s u k" by blast
      then obtain j where "j < length (dag_vids d)" "dag_vids d ! j = u"
        using compl by (auto simp: dag_complete_def in_set_conv_nth)
      then have "j \<in> set fr" using shape u at_distance_unique unfolding fr by (auto simp: dag_shape_def)
      with \<open>fr = []\<close> show False by simp
    qed
    then have "(s, goal) \<notin> (knows_rel g)\<^sup>*" using at_distance_ex by (meson rtrancl_power)
    then show ?thesis using loop None by (simp add: shortest_path_parent_dag_def)
  next
    case (Some x)
    obtain i n where x: "x = (i, n)" by force
    have "i < length (dag_vids d) \<and> dag_vids d ! i = goal \<and> dag_depths d ! i = n"
      using shape Some x by (simp add: dag_shape_def)
    then show ?thesis using loop Some x shape compl by (auto simp: shortest_path_parent_dag_def)
  qed
qed

subsection \<open>The paths\<close>

definition is_path :: "snb_graph \<Rightarrow> vertex_id \<Rightarrow> vertex_id \<Rightarrow> vertex_id list \<Rightarrow> bool" where
  "is_path g s t p \<longleftrightarrow> p \<noteq> [] \<and> hd p = s \<and> last p = t \<and>
     successively (\<lambda>a b. b \<in> set (knows_neighbors g a)) p"

definition is_shortest_path :: "snb_graph \<Rightarrow> vertex_id \<Rightarrow> vertex_id \<Rightarrow> vertex_id list \<Rightarrow> bool" where
  "is_shortest_path g s t p \<longleftrightarrow> is_path g s t p \<and> (\<forall>q. is_path g s t q \<longrightarrow> length p \<le> length q)"

lemma is_path_snoc:
  "is_path g s t (p @ [v]) \<longleftrightarrow>
     (if p = [] then v = s \<and> v = t else t = v \<and> is_path g s (last p) p \<and> v \<in> set (knows_neighbors g (last p)))"
  by (auto simp: is_path_def successively_append_iff)

lemma is_path_relpow: "(\<exists>p. is_path g s t p \<and> length p = Suc n) \<longleftrightarrow> (s, t) \<in> knows_rel g ^^ n"
proof (induction n arbitrary: t)
  case 0
  show ?case by (auto simp: is_path_def length_Suc_conv)
next
  case (Suc n)
  show ?case
  proof
    assume "\<exists>p. is_path g s t p \<and> length p = Suc (Suc n)"
    then obtain p v where p: "is_path g s t (p @ [v])" "length p = Suc n"
      by (metis length_Suc_conv_rev)
    then have "p \<noteq> []" by auto
    with p have "is_path g s (last p) p" "(last p, t) \<in> knows_rel g" by (auto simp: is_path_snoc knows_rel_def)
    then show "(s, t) \<in> knows_rel g ^^ Suc n" using Suc p(2) by auto
  next
    assume "(s, t) \<in> knows_rel g ^^ Suc n"
    then obtain u where u: "(s, u) \<in> knows_rel g ^^ n" "t \<in> set (knows_neighbors g u)"
      by (auto simp: knows_rel_def)
    then obtain p where p: "is_path g s u p" "length p = Suc n" using Suc by blast
    then have "is_path g s t (p @ [t])" using u(2) by (auto simp: is_path_snoc) (auto simp: is_path_def)
    then show "\<exists>p. is_path g s t p \<and> length p = Suc (Suc n)" using p(2) by auto
  qed
qed

lemma shortest_path_length:
  assumes "at_distance g s t n"
  shows "is_shortest_path g s t p \<longleftrightarrow> is_path g s t p \<and> length p = Suc n"
proof -
  have len: "Suc n \<le> length q" if q: "is_path g s t q" for q
  proof -
    obtain m where m: "length q = Suc m" using q by (cases q) (auto simp: is_path_def)
    then have "(s, t) \<in> knows_rel g ^^ m" using is_path_relpow q by blast
    then show ?thesis using assms m by (auto simp: at_distance_def not_less)
  qed
  moreover obtain q where "is_path g s t q" "length q = Suc n"
    using assms is_path_relpow unfolding at_distance_def by blast
  ultimately show ?thesis unfolding is_shortest_path_def by (metis le_antisym)
qed

subsection \<open>Reading the paths off the parents\<close>

fun paths_to :: "vertex_id list \<Rightarrow> nat list list \<Rightarrow> nat \<Rightarrow> nat \<Rightarrow> vertex_id list list" where
  "paths_to vids parents 0 cur = [[vids ! cur]]"
| "paths_to vids parents (Suc n) cur =
     concat (map (\<lambda>j. map (\<lambda>p. p @ [vids ! cur]) (paths_to vids parents n j)) (parents ! cur))"

lemma enumerate_paths_eq:
  "weights_ok g c \<Longrightarrow> enumerate_paths g vids parents n cur rp (out, c) = (out', c') \<Longrightarrow>
   out' = out @ map (\<lambda>p. (p @ rev rp, path_halves g (p @ rev rp))) (paths_to vids parents n cur) \<and> weights_ok g c'"
proof (induction n arbitrary: cur rp out c out' c')
  case 0
  obtain w c1 where w: "path_weight g (rev (rp @ [vids ! cur])) c = (w, c1)" by force
  from path_weight_ok [OF "0.prems"(1) w] "0.prems"(2) w show ?case by (auto simp: Let_def)
next
  case (Suc n)
  have "weights_ok g c \<Longrightarrow>
      fold (\<lambda>j. enumerate_paths g vids parents n j (rp @ [vids ! cur])) js (out, c) = (out', c') \<Longrightarrow>
      out' = out @ map (\<lambda>p. (p @ rev rp, path_halves g (p @ rev rp)))
        (concat (map (\<lambda>j. map (\<lambda>p. p @ [vids ! cur]) (paths_to vids parents n j)) js)) \<and> weights_ok g c'" for js out c
  proof (induction js arbitrary: out c)
    case (Cons j js)
    obtain o1 c1 where 1: "enumerate_paths g vids parents n j (rp @ [vids ! cur]) (out, c) = (o1, c1)" by force
    from Suc.IH [OF Cons.prems(1) 1] Cons.IH [of c1 o1] Cons.prems(2) 1 show ?case by (simp add: comp_def)
  qed simp
  from this [OF Suc.prems(1)] Suc.prems(2) show ?case by simp
qed

lemma distinct_concat_map:
  assumes "distinct xs" "\<And>x. x \<in> set xs \<Longrightarrow> distinct (f x)"
    "\<And>x y z. x \<in> set xs \<Longrightarrow> y \<in> set xs \<Longrightarrow> z \<in> set (f x) \<Longrightarrow> z \<in> set (f y) \<Longrightarrow> x = y"
  shows "distinct (concat (map f xs))"
  using assms
proof (induction xs)
  case (Cons x xs)
  have "distinct (concat (map f xs))" using Cons by simp
  moreover have "set (f x) \<inter> set (f y) = {}" if "y \<in> set xs" for y
    using Cons.prems(1) Cons.prems(3) [of x y] that by auto
  ultimately show ?case using Cons.prems(1,2) by auto
qed simp

lemma paths_to_correct:
  assumes "dag_shape g s goal k d" "dag_complete g s k d" "i < length (dag_vids d)" "dag_depths d ! i = n"
  shows "set (paths_to (dag_vids d) (dag_parents d) n i) = {p. is_path g s (dag_vids d ! i) p \<and> length p = Suc n} \<and>
    distinct (paths_to (dag_vids d) (dag_parents d) n i)"
  using assms(3,4)
proof (induction n arbitrary: i)
  case 0
  then have "dag_vids d ! i = s" using assms(1) by (metis at_distance_self dag_shape_def)
  then show ?case by (auto simp: is_path_def length_Suc_conv)
next
  case (Suc n)
  let ?v = "dag_vids d ! i" and ?P = "paths_to (dag_vids d) (dag_parents d) n"
  have v: "at_distance g s ?v (Suc n)" "Suc n \<le> k" using assms(1) Suc.prems by (auto simp: dag_shape_def)
  have par: "distinct (dag_parents d ! i)" "set (dag_parents d ! i) =
      {j. j < length (dag_vids d) \<and> dag_depths d ! j = n \<and> dag_edge g d j ?v}"
    using assms(2) Suc.prems v(2) by (auto simp: dag_complete_def)
  have IH: "set (?P j) = {p. is_path g s (dag_vids d ! j) p \<and> length p = Suc n}" "distinct (?P j)"
    if "j \<in> set (dag_parents d ! i)" for j using Suc.IH [of j] that par(2) by auto
  have "p \<in> set (paths_to (dag_vids d) (dag_parents d) (Suc n) i) \<longleftrightarrow>
      is_path g s ?v p \<and> length p = Suc (Suc n)" for p
  proof
    assume "p \<in> set (paths_to (dag_vids d) (dag_parents d) (Suc n) i)"
    then obtain j q where j: "j \<in> set (dag_parents d ! i)" "q \<in> set (?P j)" "p = q @ [?v]" by auto
    then have q: "is_path g s (dag_vids d ! j) q" "length q = Suc n" using IH(1) by auto
    then have "last q = dag_vids d ! j" "q \<noteq> []" by (auto simp: is_path_def)
    then show "is_path g s ?v p \<and> length p = Suc (Suc n)" using q j par(2) by (simp add: is_path_snoc)
  next
    assume p: "is_path g s ?v p \<and> length p = Suc (Suc n)"
    then obtain q w where q: "p = q @ [w]" "length q = Suc n" by (metis length_Suc_conv_rev)
    then have "q \<noteq> []" by auto
    then have edge: "w = ?v" "is_path g s (last q) q" "?v \<in> set (knows_neighbors g (last q))"
      using p q by (auto simp: is_path_snoc)
    have "(s, last q) \<in> knows_rel g ^^ n" using edge(2) q(2) is_path_relpow by blast
    then obtain m where m: "m \<le> n" "at_distance g s (last q) m" using at_distance_ex by blast
    obtain m' where "m' \<le> Suc m" "at_distance g s ?v m'" using at_distance_step [OF m(2) edge(3)] by blast
    moreover have "m' = Suc n" using v(1) \<open>at_distance g s ?v m'\<close> by (rule at_distance_unique [symmetric])
    ultimately have "m = n" using m(1) by simp
    then have "last q \<in> set (dag_vids d)" using dag_completeD [OF assms(2) m(2)] v(2) by simp
    then obtain j where j: "j < length (dag_vids d)" "dag_vids d ! j = last q" by (auto simp: in_set_conv_nth)
    then have "dag_depths d ! j = n"
      using assms(1) m(2) \<open>m = n\<close> at_distance_unique by (auto simp: dag_shape_def)
    then have "j \<in> set (dag_parents d ! i)" using par(2) j edge(3) by simp
    moreover from this have "q \<in> set (?P j)" using IH(1) edge(2) j(2) q(2) by simp
    ultimately show "p \<in> set (paths_to (dag_vids d) (dag_parents d) (Suc n) i)" using q(1) edge(1) by auto
  qed
  moreover have "distinct (paths_to (dag_vids d) (dag_parents d) (Suc n) i)"
    unfolding paths_to.simps
  proof (rule distinct_concat_map [OF par(1)])
    fix j assume "j \<in> set (dag_parents d ! i)"
    then show "distinct (map (\<lambda>p. p @ [?v]) (?P j))" using IH(2) by (simp add: distinct_map inj_on_def)
  next
    fix j j' z
    assume j: "j \<in> set (dag_parents d ! i)" "j' \<in> set (dag_parents d ! i)"
      "z \<in> set (map (\<lambda>p. p @ [?v]) (?P j))" "z \<in> set (map (\<lambda>p. p @ [?v]) (?P j'))"
    then obtain q where "q \<in> set (?P j)" "q \<in> set (?P j')" by auto
    then have "dag_vids d ! j = dag_vids d ! j'" using IH(1) j by (auto simp: is_path_def)
    moreover have "distinct (dag_vids d)" using assms(1) by (simp add: dag_shape_def)
    ultimately show "j = j'" using j par(2) by (simp add: nth_eq_iff_index_eq)
  qed
  ultimately show ?case by auto
qed

text \<open>C12. The path query finds every shortest path between two persons, each once and no other path,
  and weighs it by the replies the persons along it wrote to each other; the search always
  ends, whether or not there is a path.\<close>

theorem all_shortest_paths_correct:
  assumes "\<forall>v. distinct (knows_neighbors g v)"
  shows "\<exists>rows. all_shortest_paths s t g ic14_cache_new = Some rows \<and> distinct (map fst rows) \<and>
    set (map fst rows) = {p. is_shortest_path g s t p} \<and> list_all (\<lambda>(p, w). w = path_halves g p) rows"
proof (cases "s = t")
  case True
  have "at_distance g s s 0" by (simp add: at_distance_self)
  then have "is_shortest_path g s s p \<longleftrightarrow> p = [s]" for p
    by (auto simp: shortest_path_length is_path_def length_Suc_conv)
  then show ?thesis using True by (auto simp: all_shortest_paths_def)
next
  case False
  from parent_dag_correct [OF False assms] show ?thesis
  proof (elim disjE exE conjE)
    assume none: "shortest_path_parent_dag s t g = Some None" "(s, t) \<notin> (knows_rel g)\<^sup>*"
    have "\<not> is_path g s t p" for p
    proof
      assume p: "is_path g s t p"
      then obtain n where "length p = Suc n" by (cases p) (auto simp: is_path_def)
      with p have "(s, t) \<in> knows_rel g ^^ n" using is_path_relpow by blast
      with none(2) show False by (meson rtrancl_power)
    qed
    then show ?thesis using none(1) False by (auto simp: all_shortest_paths_def is_shortest_path_def)
  next
    fix k d i n
    assume dag: "shortest_path_parent_dag s t g = Some (Some (dag_vids d, dag_parents d, i, n))"
      and d: "dag_shape g s t k d" "dag_complete g s k d" "i < length (dag_vids d)" "dag_vids d ! i = t"
        "dag_depths d ! i = n"
    obtain rows c where rows: "enumerate_paths g (dag_vids d) (dag_parents d) n i [] ([], ic14_cache_new) = (rows, c)"
      by force
    have "rows = map (\<lambda>p. (p, path_halves g p)) (paths_to (dag_vids d) (dag_parents d) n i)"
      using enumerate_paths_eq [OF weights_ok_new rows] by simp
    moreover have "at_distance g s t n" using d by (auto simp: dag_shape_def)
    ultimately have "map fst rows = paths_to (dag_vids d) (dag_parents d) n i"
        "list_all (\<lambda>(p, w). w = path_halves g p) rows"
      and shortest: "is_shortest_path g s t p \<longleftrightarrow> is_path g s t p \<and> length p = Suc n" for p
      by (auto simp: comp_def list_all_iff shortest_path_length)
    moreover have "all_shortest_paths s t g ic14_cache_new = Some rows"
      using dag rows False by (simp add: all_shortest_paths_def)
    ultimately show ?thesis
      using paths_to_correct [OF d(1,2,3,5)] unfolding shortest d(4) by (simp del: set_map)
  qed
qed

theorem all_shortest_paths_correct_witness:
  "{p. is_shortest_path \<lparr>sg_snapshot = 0, sg_vertices = [], sg_edge_props = [],
      sg_adjacency = [((1, 1), [2, 3]), ((2, 1), [4]), ((3, 1), [4])]\<rparr> 1 4 p} = {[1, 2, 4], [1, 3, 4]}"
proof -
  define g where "g = \<lparr>sg_snapshot = 0, sg_vertices = [], sg_edge_props = [],
      sg_adjacency = [((1, 1), [2, 3]), ((2, 1), [4]), ((3, 1), [4])]\<rparr>"
  have "\<forall>v. distinct (knows_neighbors g v)"
    by (simp add: g_def knows_neighbors_def out_neighbors_def group_of_def hm_get_def)
  from all_shortest_paths_correct [OF this, of 1 4] obtain rows where
    rows: "all_shortest_paths 1 4 g ic14_cache_new = Some rows" "set (map fst rows) = {p. is_shortest_path g 1 4 p}"
    by blast
  have "all_shortest_paths 1 4 g ic14_cache_new = Some [([1, 2, 4], 0), ([1, 3, 4], 0)]"
    unfolding g_def by code_simp
  then have "set (map fst rows) = {[1, 2, 4], [1, 3, 4]}" using rows(1) by auto
  then show ?thesis unfolding rows(2) g_def .
qed

subsection \<open>The order of the answer\<close>

lemma mset_sift_up: "i < length heap \<Longrightarrow> mset (sift_up heap i) = mset heap"
proof (induction heap i rule: sift_up.induct)
  case (1 heap i)
  let ?parent = "(i - 1) div 2"
  show ?case
  proof (cases "i \<noteq> 0 \<and> item_greater (heap ! i) (heap ! ?parent)")
    case True
    then have "mset (sift_up heap i) = mset (sift_up (heap[i := heap ! ?parent, ?parent := heap ! i]) ?parent)"
      by (subst sift_up.simps) (simp add: Let_def)
    also have "\<dots> = mset (heap[i := heap ! ?parent, ?parent := heap ! i])"
      using 1 True by simp
    also have "\<dots> = mset heap" using 1(2) by (simp add: mset_swap)
    finally show ?thesis .
  qed (subst sift_up.simps, auto simp: Let_def)
qed

text \<open>The order in which the paths are returned: the heap and the sort only permute them, and
  heavier paths come first.\<close>

lemma ic14_order:
  "mset (ic14_topk_order paths) = mset paths \<and>
   sorted_wrt (\<lambda>a b. snd b \<le> snd a) (ic14_topk_order paths)"
proof -
  let ?item = "\<lambda>(path, weight). (path, weight, unwrap_or 0 (first path))"
  let ?push = "\<lambda>(path, weight) heap. sift_up (heap @ [(path, weight, unwrap_or 0 (first path))]) (length heap)"
  let ?key = "\<lambda>(_, weight, start). (Reverse weight, start)"
  have heap: "mset (fold ?push ps heap) = mset heap + mset (map ?item ps)" for ps heap
    by (induction ps arbitrary: heap) (auto simp: mset_sift_up)
  have "mset (ic14_topk_order paths) =
      image_mset (\<lambda>(path, weight, _). (path, weight)) (mset (map ?item paths))"
    unfolding ic14_topk_order_def by (subst mset_map) (simp add: heap)
  also have "\<dots> = mset paths" by (simp add: image_mset.compositionality comp_def case_prod_unfold)
  finally have perm: "mset (ic14_topk_order paths) = mset paths" .
  let ?xs = "sort_key ?key (fold ?push paths [])"
  have "sorted (map ?key ?xs)" by simp
  then have "sorted_wrt (\<lambda>a b. fst (snd b) \<le> fst (snd a)) ?xs"
    unfolding sorted_map by (rule sorted_wrt_mono_rel [rotated]) (auto simp: less_eq_prod_def less_imp_le)
  then have "sorted_wrt (\<lambda>a b. snd b \<le> snd a) (ic14_topk_order paths)"
    by (simp add: ic14_topk_order_def sorted_wrt_map case_prod_unfold)
  with perm show ?thesis by simp
qed

end
