(* ===== verification/Snb_Store.thy ===== *)
theory Snb_Store
  imports Snb_Adjacency Engine
begin

section \<open>The store of the social network graph\<close>

text \<open>
  \<^verbatim>\<open>SnbGraph::open\<close> and \<^verbatim>\<open>SnbGraph::build_adjacency_cache\<close> of \<^verbatim>\<open>src/snb/props.rs\<close>: beside the
  engine, a store directory holds the vertices and the edge properties, a row of JSON on each line, and
  the binary cache of the adjacency index. A text file is the list of its lines; the renderings and
  readings of \<^verbatim>\<open>serde_json\<close> are parameters.
\<close>

record row_json =
  rj_vertex :: "vertex_row \<Rightarrow> string"
  rj_edge :: "edge_prop_row \<Rightarrow> string"
  rj_parse_vertex :: "string \<Rightarrow> vertex_row res"
  rj_parse_edge :: "string \<Rightarrow> edge_prop_row res"

record snb_store =
  ss_text :: "string \<Rightarrow> string list option"
  ss_files :: file_system

abbreviation vertices_file :: "string \<Rightarrow> string" where
  "vertices_file dir \<equiv> join_path dir ''snb_vertices.jsonl''"

abbreviation edge_props_file :: "string \<Rightarrow> string" where
  "edge_props_file dir \<equiv> join_path dir ''snb_edge_props.jsonl''"

abbreviation adjacency_file :: "string \<Rightarrow> string" where
  "adjacency_file dir \<equiv> join_path dir ''snb_adjacency.bin''"

definition on_files :: "(file_system, 'a) st \<Rightarrow> (snb_store, 'a) st" where
  "on_files m s = (let (fs, r) = m (ss_files s) in (s\<lparr>ss_files := fs\<rparr>, r))"

definition store_adjacency :: "string \<Rightarrow> engine \<Rightarrow> (snb_store, adjacency) st" where
  "store_adjacency cache_path e s =
     (if ss_files s cache_path \<noteq> None then (s, load_adjacency_cache cache_path (ss_files s))
      else sbind (slift (scan_edges (current_snapshot e) e)) (\<lambda>edges.
        let adjacency = build_adjacency_from_edges edges
        in sbind (on_files (write_adjacency_cache_atomic cache_path adjacency)) (\<lambda>_. sreturn adjacency)) s)"

definition snb_open :: "row_json \<Rightarrow> string \<Rightarrow> engine \<Rightarrow> (snb_store, snb_graph) st" where
  "snb_open json store_dir e =
     sbind (sreads (\<lambda>s. load_vertices (rj_parse_vertex json) (ss_text s (vertices_file store_dir)))) (\<lambda>vertices.
     sbind (sreads (\<lambda>s. load_edge_props (rj_parse_edge json) (ss_text s (edge_props_file store_dir)))) (\<lambda>props.
     sbind (store_adjacency (adjacency_file store_dir) e) (\<lambda>adjacency.
     sreturn \<lparr>sg_snapshot = current_snapshot e, sg_vertices = vertices, sg_edge_props = props,
       sg_adjacency = adjacency\<rparr>)))"

definition build_adjacency_cache :: "string \<Rightarrow> engine \<Rightarrow> (snb_store, nat) st" where
  "build_adjacency_cache store_dir e =
     sbind (slift (scan_edges (current_snapshot e) e)) (\<lambda>edges.
     let adjacency = build_adjacency_from_edges edges
     in sbind (on_files (write_adjacency_cache_atomic (adjacency_file store_dir) adjacency))
          (\<lambda>_. sreturn (length adjacency)))"

end
