(* ===== verification/Snb_Loader.thy ===== *)
theory Snb_Loader
  imports Snb_Store Csv "HOL-Library.List_Lexorder" "HOL-Library.Char_ord"
begin

section \<open>Importing the social network\<close>

text \<open>
  \<^verbatim>\<open>src/snb/full_loader.rs\<close>: the tables of the benchmark, and later its update streams, are read into
  the engine, the vertex rows, the edge property rows and the adjacency cache of a store directory. The
  state of an import is the engine, the store, the builder of the adjacency and the statistics. The
  \<^verbatim>\<open>csv\<close> package, the rendering of rows by \<^verbatim>\<open>serde_json\<close> and the listing of a directory are
  parameters; progress messages are left out. A row is in its file as soon as it is written, since the
  buffered writers are flushed both when an import ends and when it fails.
\<close>

subsection \<open>State\<close>

record import_stats =
  is_input_rows :: nat
  is_directed_edges :: nat

definition stats_add :: "import_stats \<Rightarrow> import_stats \<Rightarrow> import_stats" where
  "stats_add other s = s\<lparr>is_input_rows := is_input_rows s + is_input_rows other,
     is_directed_edges := is_directed_edges s + is_directed_edges other\<rparr>"

definition no_stats :: import_stats where
  "no_stats = \<lparr>is_input_rows = 0, is_directed_edges = 0\<rparr>"

record loader_env =
  le_csv :: csv_package
  le_json :: row_json
  le_read_dir :: "string \<Rightarrow> string res list res"

record loader =
  ld_engine :: engine
  ld_store :: snb_store
  ld_adjacency :: adjacency_builder
  ld_stats :: import_stats

definition on_engine :: "(engine, 'a) st \<Rightarrow> (loader, 'a) st" where
  "on_engine m s = (let (e, r) = m (ld_engine s) in (s\<lparr>ld_engine := e\<rparr>, r))"

definition on_store :: "(snb_store, 'a) st \<Rightarrow> (loader, 'a) st" where
  "on_store m s = (let (t, r) = m (ld_store s) in (s\<lparr>ld_store := t\<rparr>, r))"

definition add_stats :: "import_stats \<Rightarrow> (loader, unit) st" where
  "add_stats other = supdate (\<lambda>s. s\<lparr>ld_stats := stats_add other (ld_stats s)\<rparr>)"

definition count_directed :: "nat \<Rightarrow> (loader, unit) st" where
  "count_directed n = add_stats \<lparr>is_input_rows = 0, is_directed_edges = n\<rparr>"

text \<open>A loop over the items of a list, with a value carried from one to the next.\<close>

fun sfor :: "('a \<Rightarrow> 'b \<Rightarrow> ('s, 'b) st) \<Rightarrow> 'a list \<Rightarrow> 'b \<Rightarrow> ('s, 'b) st" where
  "sfor f [] acc = sreturn acc"
| "sfor f (x # xs) acc = sbind (f x acc) (sfor f xs)"

definition sdo :: "('a \<Rightarrow> ('s, unit) st) \<Rightarrow> 'a list \<Rightarrow> ('s, unit) st" where
  "sdo f xs = sfor (\<lambda>x _. f x) xs ()"

lemma sbind_slift: "sbind (slift (Inr x)) f = f x"
  by (rule ext) (simp add: sbind_def slift_def)

subsection \<open>Text files\<close>

definition text_lines :: "string \<Rightarrow> snb_store \<Rightarrow> string list" where
  "text_lines path t = (case ss_text t path of None \<Rightarrow> [] | Some ls \<Rightarrow> ls)"

definition create_text :: "string \<Rightarrow> (loader, unit) st" where
  "create_text path = on_store (supdate (\<lambda>t. t\<lparr>ss_text := (ss_text t)(path := Some [])\<rparr>))"

definition open_append :: "string \<Rightarrow> (loader, unit) st" where
  "open_append path = on_store (supdate (\<lambda>t. t\<lparr>ss_text := (ss_text t)(path := Some (text_lines path t))\<rparr>))"

definition append_line :: "string \<Rightarrow> string \<Rightarrow> (loader, unit) st" where
  "append_line path l =
     on_store (supdate (\<lambda>t. t\<lparr>ss_text := (ss_text t)(path := Some (text_lines path t @ [l]))\<rparr>))"

definition rename_text :: "string \<Rightarrow> string \<Rightarrow> (loader, unit) st" where
  "rename_text a b = on_store (\<lambda>t. case ss_text t a of None \<Rightarrow> (t, Inl Not_found)
     | Some ls \<Rightarrow> (t\<lparr>ss_text := (ss_text t)(a := None, b := Some ls)\<rparr>, Inr ()))"

subsection \<open>Columns and fields\<close>

definition rec_index :: "string list \<Rightarrow> nat \<Rightarrow> string res" where
  "rec_index r i = (if i < length r then Inr (r ! i) else Inl Slice_out_of_range)"

definition rec_get :: "string list \<Rightarrow> string list \<Rightarrow> string \<Rightarrow> string" where
  "rec_get headers r name =
     (case position (\<lambda>h. h = name) headers of None \<Rightarrow> '''' | Some i \<Rightarrow> get_or_empty r i)"

definition get_i64 :: "string list \<Rightarrow> string list \<Rightarrow> string \<Rightarrow> int res" where
  "get_i64 headers r name = parse_i64_str (rec_get headers r name)"

definition parse_optional_i64 :: "string \<Rightarrow> int option res" where
  "parse_optional_i64 raw =
     (let raw = trim raw
      in if raw = '''' \<or> raw = ''-1'' then Inr None
         else rbind (parse_i64_str raw) (\<lambda>v. Inr (Some v)))"

datatype col_ref = Col_index nat | Col_name string

fun col_get :: "col_ref \<Rightarrow> string list \<Rightarrow> string list \<Rightarrow> int option res" where
  "col_get (Col_index i) headers r = parse_optional_i64 (get_or_empty r i)"
| "col_get (Col_name name) headers r = parse_optional_i64 (rec_get headers r name)"

datatype prop_spec = Prop_none | Prop_i32_col nat | Prop_i64_col nat

fun prop_read :: "prop_spec \<Rightarrow> string list \<Rightarrow> edge_prop res" where
  "prop_read Prop_none r = Inr P_empty"
| "prop_read (Prop_i32_col i) r =
     rbind (rec_index r i) (\<lambda>s. rbind (parse_i32_str s) (\<lambda>v. Inr (P_i32 (of_int v))))"
| "prop_read (Prop_i64_col i) r =
     rbind (rec_index r i) (\<lambda>s. rbind (parse_i64_str s) (\<lambda>v. Inr (P_i64 v)))"

record named_edge_spec =
  ne_path :: string
  ne_src_label :: vertex_label
  ne_dst_label :: vertex_label
  ne_edge_label :: edge_label
  ne_src_col :: string
  ne_dst_col :: string

definition field_at :: "string list \<Rightarrow> nat \<Rightarrow> string" where
  "field_at parts i = (if i < length parts then parts ! i else '''')"

definition parse_field_i64 :: "string list \<Rightarrow> nat \<Rightarrow> int res" where
  "parse_field_i64 parts i = parse_i64_str (field_at parts i)"

definition res_ok :: "'a res \<Rightarrow> 'a option" where
  "res_ok r = (case r of Inl _ \<Rightarrow> None | Inr x \<Rightarrow> Some x)"

definition parse_id_list :: "string \<Rightarrow> int list" where
  "parse_id_list raw = List.map_filter (\<lambda>s. let s = trim s
     in if s \<noteq> '''' \<and> s \<noteq> ''-1'' then res_ok (parse_i64_str s) else None) (str_split (CHR '';'') raw)"

definition parse_org_year_list :: "string \<Rightarrow> (int \<times> int) list" where
  "parse_org_year_list raw = List.map_filter (\<lambda>item.
       case split_once (CHR '','') (trim item) of None \<Rightarrow> None
       | Some (org, year) \<Rightarrow> (case (res_ok (parse_i64_str org), res_ok (parse_i32_str year)) of
           (Some o1, Some y) \<Rightarrow> Some (o1, y) | _ \<Rightarrow> None)) (str_split (CHR '';'') raw)"

subsection \<open>Writing rows and edges\<close>

definition write_vertex :: "loader_env \<Rightarrow> string \<Rightarrow> vertex_id \<Rightarrow> vertex_data \<Rightarrow> (loader, unit) st" where
  "write_vertex env out vid data = append_line out (rj_vertex (le_json env) \<lparr>vr_vid = vid, vr_data = data\<rparr>)"

definition write_edge_prop ::
  "loader_env \<Rightarrow> string \<Rightarrow> vertex_id \<Rightarrow> vertex_id \<Rightarrow> edge_type \<Rightarrow> edge_prop \<Rightarrow> (loader, unit) st"
where
  "write_edge_prop env out src dst edge_type p =
     (if p = P_empty then sreturn ()
      else append_line out
        (rj_edge (le_json env) \<lparr>er_src = src, er_dst = dst, er_type = edge_type, er_prop = p\<rparr>))"

text \<open>Inserting an edge and recording it, with its timestamp, in the builder of the adjacency.\<close>

definition insert_recorded :: "vertex_id \<Rightarrow> vertex_id \<Rightarrow> edge_type \<Rightarrow> (loader, unit) st" where
  "insert_recorded src dst edge_type =
     sbind (on_engine (insert_edge src dst edge_type)) (\<lambda>ts.
     supdate (\<lambda>s. s\<lparr>ld_adjacency := ab_record_edge src edge_type dst ts (ld_adjacency s)\<rparr>))"

definition insert_forward_reverse ::
  "loader_env \<Rightarrow> string \<Rightarrow> vertex_id \<Rightarrow> vertex_id \<Rightarrow> edge_label \<Rightarrow> edge_prop \<Rightarrow> bool \<Rightarrow> (loader, unit) st"
where
  "insert_forward_reverse env out src dst edge_label p include_reverse =
     (let label = edge_label_i32 edge_label
      in sbind (insert_recorded src dst label) (\<lambda>_.
         sbind (write_edge_prop env out src dst label p) (\<lambda>_.
         if include_reverse then
           sbind (insert_recorded dst src (- label)) (\<lambda>_. write_edge_prop env out dst src (- label) p)
         else sreturn ())))"

subsection \<open>Tables\<close>

text \<open>Opening a table and running a body on each of its records.\<close>

definition csv_each ::
  "loader_env \<Rightarrow> string \<Rightarrow> (string list \<Rightarrow> string list \<Rightarrow> 'b \<Rightarrow> (loader, 'b) st) \<Rightarrow> 'b \<Rightarrow> (loader, 'b) st"
where
  "csv_each env path f acc =
     sbind (sreads (\<lambda>s. case ss_files (ld_store s) path of None \<Rightarrow> Inl Not_found | Some bs \<Rightarrow> le_csv env bs))
       (\<lambda>(headers, records). sfor (\<lambda>r acc. sbind (slift r) (\<lambda>r. f headers r acc)) records acc)"

definition import_vertex_file ::
  "loader_env \<Rightarrow> string \<Rightarrow> string \<Rightarrow> vertex_label \<Rightarrow> (string list \<Rightarrow> string list \<Rightarrow> vertex_data res) \<Rightarrow> (loader, unit) st"
where
  "import_vertex_file env path out label build =
     csv_each env path (\<lambda>headers r _.
       sbind (slift (build headers r)) (\<lambda>data.
       write_vertex env out (encode_vid label (data_external_id data)) data)) ()"

definition edge_ends ::
  "vertex_label \<Rightarrow> vertex_label \<Rightarrow> col_ref \<Rightarrow> col_ref \<Rightarrow> string list \<Rightarrow> string list \<Rightarrow> (vertex_id \<times> vertex_id) option res"
where
  "edge_ends src_label dst_label src_col dst_col headers r =
     rbind (col_get src_col headers r) (\<lambda>src. case src of None \<Rightarrow> Inr None | Some src_ext \<Rightarrow>
     rbind (col_get dst_col headers r) (\<lambda>dst. case dst of None \<Rightarrow> Inr None | Some dst_ext \<Rightarrow>
     Inr (Some (encode_vid src_label src_ext, encode_vid dst_label dst_ext))))"

definition import_edge_file ::
  "loader_env \<Rightarrow> string \<Rightarrow> string \<Rightarrow> vertex_label \<Rightarrow> vertex_label \<Rightarrow> edge_label \<Rightarrow> bool \<Rightarrow>
   col_ref \<Rightarrow> col_ref \<Rightarrow> prop_spec \<Rightarrow> (loader, import_stats) st"
where
  "import_edge_file env out path src_label dst_label edge_label bidirectional_positive src_col dst_col p =
     csv_each env path (\<lambda>headers r stats.
       let stats = stats\<lparr>is_input_rows := is_input_rows stats + 1\<rparr>
       in sbind (slift (edge_ends src_label dst_label src_col dst_col headers r)) (\<lambda>ends.
          case ends of None \<Rightarrow> sreturn stats
          | Some (src, dst) \<Rightarrow>
              sbind (slift (prop_read p r)) (\<lambda>prop_value.
              sbind (insert_forward_reverse env out src dst edge_label prop_value True) (\<lambda>_.
              if bidirectional_positive then
                sbind (insert_forward_reverse env out dst src edge_label prop_value False) (\<lambda>_.
                sreturn (stats\<lparr>is_directed_edges := is_directed_edges stats + 3\<rparr>))
              else sreturn (stats\<lparr>is_directed_edges := is_directed_edges stats + 2\<rparr>))))) no_stats"

definition import_named_edge :: "loader_env \<Rightarrow> string \<Rightarrow> named_edge_spec \<Rightarrow> (loader, import_stats) st" where
  "import_named_edge env out spec =
     import_edge_file env out (ne_path spec) (ne_src_label spec) (ne_dst_label spec) (ne_edge_label spec) False
       (Col_name (ne_src_col spec)) (Col_name (ne_dst_col spec)) Prop_none"

definition write_edge_prop_file ::
  "loader_env \<Rightarrow> string \<Rightarrow> string \<Rightarrow> vertex_label \<Rightarrow> vertex_label \<Rightarrow> edge_label \<Rightarrow> bool \<Rightarrow>
   col_ref \<Rightarrow> col_ref \<Rightarrow> prop_spec \<Rightarrow> (loader, nat) st"
where
  "write_edge_prop_file env out path src_label dst_label edge_label bidirectional_positive src_col dst_col p =
     csv_each env path (\<lambda>headers r input_rows.
       sbind (slift (edge_ends src_label dst_label src_col dst_col headers r)) (\<lambda>ends.
       case ends of None \<Rightarrow> sreturn (input_rows + 1)
       | Some (src, dst) \<Rightarrow>
           sbind (slift (prop_read p r)) (\<lambda>prop_value.
           let label = edge_label_i32 edge_label
           in sbind (write_edge_prop env out src dst label prop_value) (\<lambda>_.
              sbind (write_edge_prop env out dst src (- label) prop_value) (\<lambda>_.
              sbind (if bidirectional_positive then write_edge_prop env out dst src label prop_value
                     else sreturn ()) (\<lambda>_. sreturn (input_rows + 1)))))) ) 0"

subsection \<open>Vertices\<close>

definition place_row :: "string list \<Rightarrow> string list \<Rightarrow> vertex_data res" where
  "place_row h r =
     rbind (get_i64 h r ''id'') (\<lambda>i.
     rbind (parse_optional_i64 (rec_get h r ''isPartOf'')) (\<lambda>part.
     Inr (V_place \<lparr>pl_id = i, pl_name = rec_get h r ''name'', pl_type = rec_get h r ''type'',
       pl_is_part_of = part\<rparr>)))"

definition organisation_row :: "string list \<Rightarrow> string list \<Rightarrow> vertex_data res" where
  "organisation_row h r =
     rbind (get_i64 h r ''id'') (\<lambda>i.
     rbind (get_i64 h r ''place'') (\<lambda>place.
     Inr (V_organisation \<lparr>og_id = i, og_type = rec_get h r ''type'', og_name = rec_get h r ''name'',
       og_place = place\<rparr>)))"

definition tag_row :: "string list \<Rightarrow> string list \<Rightarrow> vertex_data res" where
  "tag_row h r =
     rbind (get_i64 h r ''id'') (\<lambda>i.
     rbind (get_i64 h r ''hasType'') (\<lambda>has_type.
     Inr (V_tag \<lparr>ta_id = i, ta_name = rec_get h r ''name'', ta_has_type = has_type\<rparr>)))"

definition tag_class_row :: "string list \<Rightarrow> string list \<Rightarrow> vertex_data res" where
  "tag_class_row h r =
     rbind (get_i64 h r ''id'') (\<lambda>i.
     rbind (parse_optional_i64 (rec_get h r ''isSubclassOf'')) (\<lambda>parent.
     Inr (V_tag_class \<lparr>tc_id = i, tc_name = rec_get h r ''name'', tc_is_subclass_of = parent\<rparr>)))"

definition person_row :: "string list \<Rightarrow> string list \<Rightarrow> vertex_data res" where
  "person_row h r =
     rbind (get_i64 h r ''id'') (\<lambda>i.
     rbind (get_i64 h r ''birthday'') (\<lambda>birthday.
     rbind (get_i64 h r ''creationDate'') (\<lambda>created.
     rbind (get_i64 h r ''place'') (\<lambda>place.
     Inr (V_person \<lparr>pe_id = i, pe_first_name = rec_get h r ''firstName'',
       pe_last_name = rec_get h r ''lastName'', pe_gender = rec_get h r ''gender'', pe_birthday = birthday,
       pe_creation_date = created, pe_location_ip = rec_get h r ''locationIP'',
       pe_browser_used = rec_get h r ''browserUsed'', pe_place = place,
       pe_language = rec_get h r ''language'', pe_email = rec_get h r ''email''\<rparr>)))))"

definition forum_row :: "string list \<Rightarrow> string list \<Rightarrow> vertex_data res" where
  "forum_row h r =
     rbind (get_i64 h r ''id'') (\<lambda>i.
     rbind (get_i64 h r ''creationDate'') (\<lambda>created.
     rbind (get_i64 h r ''moderator'') (\<lambda>moderator.
     Inr (V_forum \<lparr>fo_id = i, fo_title = rec_get h r ''title'', fo_creation_date = created,
       fo_moderator = moderator\<rparr>))))"

definition post_row :: "string list \<Rightarrow> string list \<Rightarrow> vertex_data res" where
  "post_row h r =
     rbind (get_i64 h r ''id'') (\<lambda>i.
     rbind (get_i64 h r ''creationDate'') (\<lambda>created.
     rbind (get_i64 h r ''length'') (\<lambda>len.
     rbind (get_i64 h r ''creator'') (\<lambda>creator.
     rbind (get_i64 h r ''Forum.id'') (\<lambda>forum.
     rbind (get_i64 h r ''place'') (\<lambda>place.
     Inr (V_post \<lparr>po_id = i, po_image_file = rec_get h r ''imageFile'', po_creation_date = created,
       po_location_ip = rec_get h r ''locationIP'', po_browser_used = rec_get h r ''browserUsed'',
       po_language = rec_get h r ''language'', po_content = rec_get h r ''content'', po_length = len,
       po_creator = creator, po_forum_id = forum, po_place = place\<rparr>)))))))"

definition comment_row :: "string list \<Rightarrow> string list \<Rightarrow> vertex_data res" where
  "comment_row h r =
     rbind (get_i64 h r ''id'') (\<lambda>i.
     rbind (get_i64 h r ''creationDate'') (\<lambda>created.
     rbind (get_i64 h r ''length'') (\<lambda>len.
     rbind (get_i64 h r ''creator'') (\<lambda>creator.
     rbind (get_i64 h r ''place'') (\<lambda>place.
     rbind (parse_optional_i64 (rec_get h r ''replyOfPost'')) (\<lambda>post.
     rbind (parse_optional_i64 (rec_get h r ''replyOfComment'')) (\<lambda>comment.
     Inr (V_comment \<lparr>co_id = i, co_creation_date = created,
       co_location_ip = rec_get h r ''locationIP'', co_browser_used = rec_get h r ''browserUsed'',
       co_content = rec_get h r ''content'', co_length = len, co_creator = creator, co_place = place,
       co_reply_of_post = post, co_reply_of_comment = comment\<rparr>))))))))"

definition vertex_tables ::
  "string \<Rightarrow> (string \<times> vertex_label \<times> (string list \<Rightarrow> string list \<Rightarrow> vertex_data res)) list"
where
  "vertex_tables csv_root =
     (let dynamic = join_path csv_root ''dynamic''; static_dir = join_path csv_root ''static''
      in [(join_path static_dir ''place_0_0.csv'', Place, place_row),
          (join_path static_dir ''organisation_0_0.csv'', Organisation, organisation_row),
          (join_path static_dir ''tag_0_0.csv'', Tag, tag_row),
          (join_path static_dir ''tagclass_0_0.csv'', TagClass, tag_class_row),
          (join_path dynamic ''person_0_0.csv'', Person, person_row),
          (join_path dynamic ''forum_0_0.csv'', Forum, forum_row),
          (join_path dynamic ''post_0_0.csv'', Post, post_row),
          (join_path dynamic ''comment_0_0.csv'', Comment, comment_row)])"

definition import_vertices :: "loader_env \<Rightarrow> string \<Rightarrow> string \<Rightarrow> (loader, unit) st" where
  "import_vertices env csv_root out =
     sdo (\<lambda>(path, label, build). import_vertex_file env path out label build) (vertex_tables csv_root)"

end
