(* ===== verification/Text_Lines.thy ===== *)
theory Text_Lines
  imports Csv
begin

section \<open>The lines of a text file\<close>

text \<open>
  \<^verbatim>\<open>BufRead::lines\<close>, through which the manifest and the update streams are read: lines end at a line
  feed, a carriage return before it is dropped, the last line may lack its line feed, and a line that
  is not UTF-8 is an error.
\<close>

fun utf8 :: "nat list \<Rightarrow> bool" where
  "utf8 [] = True"
| "utf8 (b # bs) =
     (let tail = (\<lambda>c. 0x80 \<le> c \<and> c \<le> 0xBF)
      in if b < 0x80 then utf8 bs
         else case bs of [] \<Rightarrow> False
         | c # cs \<Rightarrow>
             if 0xC2 \<le> b \<and> b \<le> 0xDF then tail c \<and> utf8 cs
             else case cs of [] \<Rightarrow> False
             | d # ds \<Rightarrow>
                 if b = 0xE0 then 0xA0 \<le> c \<and> c \<le> 0xBF \<and> tail d \<and> utf8 ds
                 else if b = 0xED then 0x80 \<le> c \<and> c \<le> 0x9F \<and> tail d \<and> utf8 ds
                 else if 0xE1 \<le> b \<and> b \<le> 0xEF then tail c \<and> tail d \<and> utf8 ds
                 else case ds of [] \<Rightarrow> False
                 | e # es \<Rightarrow>
                     if b = 0xF0 then 0x90 \<le> c \<and> c \<le> 0xBF \<and> tail d \<and> tail e \<and> utf8 es
                     else if 0xF1 \<le> b \<and> b \<le> 0xF3 then tail c \<and> tail d \<and> tail e \<and> utf8 es
                     else if b = 0xF4 then 0x80 \<le> c \<and> c \<le> 0x8F \<and> tail d \<and> tail e \<and> utf8 es
                     else False)"

definition string_of_bytes :: "bytes \<Rightarrow> string" where
  "string_of_bytes bs = map (\<lambda>b. char_of (unat b)) bs"

definition valid_utf8 :: "string \<Rightarrow> bool" where
  "valid_utf8 s = utf8 (map of_char s)"

definition strip_cr :: "string \<Rightarrow> string" where
  "strip_cr l = (if l \<noteq> [] \<and> last l = CHR 0x0D then butlast l else l)"

function split_lines :: "string \<Rightarrow> string list" where
  "split_lines s = (if s = [] then []
     else case dropWhile (\<lambda>c. c \<noteq> CHR 0x0A) s of
       [] \<Rightarrow> [s]
     | _ # rest \<Rightarrow> strip_cr (takeWhile (\<lambda>c. c \<noteq> CHR 0x0A) s) # split_lines rest)"
  by auto
termination
proof (relation "measure length")
  fix s :: string and c rest
  assume "dropWhile (\<lambda>c. c \<noteq> CHR 0x0A) s = c # rest"
  then have "length (c # rest) \<le> length s" by (metis length_dropWhile_le)
  then show "(rest, s) \<in> measure length" by simp
qed simp

definition lines_of :: "string \<Rightarrow> string res list" where
  "lines_of s = map (\<lambda>l. if valid_utf8 l then Inr l else Inl (Parse_error l)) (split_lines s)"

definition buf_lines :: "bytes \<Rightarrow> string res list" where
  "buf_lines bs = lines_of (string_of_bytes bs)"

lemma split_lines_feed:
  assumes "CHR 0x0A \<notin> set l"
  shows "split_lines (l @ CHR 0x0A # rest) = strip_cr l # split_lines rest"
proof -
  have l: "\<forall>c \<in> set l. c \<noteq> CHR 0x0A" using assms by auto
  have "dropWhile (\<lambda>c. c \<noteq> CHR 0x0A) (l @ CHR 0x0A # rest) = CHR 0x0A # rest"
    "takeWhile (\<lambda>c. c \<noteq> CHR 0x0A) (l @ CHR 0x0A # rest) = l"
    using l by (simp_all add: dropWhile_append takeWhile_append)
  then show ?thesis by (subst split_lines.simps) (simp del: split_lines.simps)
qed

lemma split_lines_unended:
  assumes "CHR 0x0A \<notin> set l" "l \<noteq> []"
  shows "split_lines l = [l]"
proof -
  have none: "dropWhile (\<lambda>c. c \<noteq> CHR 0x0A) l = []" using assms(1) by auto
  show ?thesis unfolding split_lines.simps [of l] none using assms(2) by simp
qed

lemma valid_utf8_ascii: "list_all (\<lambda>c. (of_char c :: nat) < 128) s \<Longrightarrow> valid_utf8 s"
proof -
  have "list_all (\<lambda>b. b < 128) bs \<Longrightarrow> utf8 bs" for bs by (induction bs) (simp_all add: Let_def)
  then show "list_all (\<lambda>c. (of_char c :: nat) < 128) s \<Longrightarrow> valid_utf8 s"
    by (simp add: valid_utf8_def list_all_iff)
qed

end
