(* ===== verification/Snb_Import.thy ===== *)
theory Snb_Import
  imports Snb_Loader Text_Lines "HOL-Library.Sublist"
begin

section \<open>Whole imports\<close>

text \<open>
  The entry points of \<^verbatim>\<open>src/snb/full_loader.rs\<close>: the import of the tables, the rebuild of the edge
  property file, and the import of update streams, whose lines are the eight update operations of the
  benchmark.
\<close>

subsection \<open>The update operations\<close>

definition insert_counted ::
  "loader_env \<Rightarrow> string \<Rightarrow> vertex_id \<Rightarrow> vertex_id \<Rightarrow> edge_label \<Rightarrow> edge_prop \<Rightarrow> (loader, unit) st"
where
  "insert_counted env out src dst label p =
     sbind (insert_forward_reverse env out src dst label p True) (\<lambda>_. count_directed 2)"

text \<open>An edge to the vertex a field names.\<close>

definition insert_to_field ::
  "loader_env \<Rightarrow> string \<Rightarrow> vertex_id \<Rightarrow> vertex_label \<Rightarrow> string list \<Rightarrow> nat \<Rightarrow> edge_label \<Rightarrow> (loader, unit) st"
where
  "insert_to_field env out vid label p i edge_label =
     sbind (slift (parse_field_i64 p i)) (\<lambda>x.
     insert_counted env out vid (encode_vid label x) edge_label P_empty)"

definition insert_tags ::
  "loader_env \<Rightarrow> string \<Rightarrow> vertex_id \<Rightarrow> edge_label \<Rightarrow> string \<Rightarrow> (loader, unit) st"
where
  "insert_tags env out vid edge_label raw =
     sdo (\<lambda>tag. insert_counted env out vid (encode_vid Tag tag) edge_label P_empty) (parse_id_list raw)"

definition insert_organisations ::
  "loader_env \<Rightarrow> string \<Rightarrow> vertex_id \<Rightarrow> edge_label \<Rightarrow> string \<Rightarrow> (loader, unit) st"
where
  "insert_organisations env out vid edge_label raw =
     sdo (\<lambda>(org, year). insert_counted env out vid (encode_vid Organisation org) edge_label (P_i32 (of_int year)))
       (parse_org_year_list raw)"

definition person_fields :: "string list \<Rightarrow> int \<Rightarrow> vertex_data res" where
  "person_fields p i =
     rbind (parse_field_i64 p 7) (\<lambda>birthday.
     rbind (parse_field_i64 p 8) (\<lambda>created.
     rbind (parse_field_i64 p 11) (\<lambda>place.
     Inr (V_person \<lparr>pe_id = i, pe_first_name = field_at p 4, pe_last_name = field_at p 5,
       pe_gender = field_at p 6, pe_birthday = birthday, pe_creation_date = created,
       pe_location_ip = field_at p 9, pe_browser_used = field_at p 10, pe_place = place,
       pe_language = field_at p 12, pe_email = field_at p 13\<rparr>))))"

definition apply_add_person :: "loader_env \<Rightarrow> string \<Rightarrow> string \<Rightarrow> string list \<Rightarrow> (loader, unit) st" where
  "apply_add_person env vertices out p =
     sbind (slift (parse_field_i64 p 3)) (\<lambda>i. let vid = encode_vid Person i in
     sbind (slift (person_fields p i)) (\<lambda>data.
     sbind (write_vertex env vertices vid data) (\<lambda>_.
     sbind (insert_to_field env out vid Place p 11 IsLocatedIn) (\<lambda>_.
     sbind (insert_tags env out vid HasInterest (field_at p 14)) (\<lambda>_.
     sbind (insert_organisations env out vid StudyAt (field_at p 15)) (\<lambda>_.
     insert_organisations env out vid WorkAt (field_at p 16)))))))"

definition forum_fields :: "string list \<Rightarrow> int \<Rightarrow> vertex_data res" where
  "forum_fields p i =
     rbind (parse_field_i64 p 5) (\<lambda>created.
     rbind (parse_field_i64 p 6) (\<lambda>moderator.
     Inr (V_forum \<lparr>fo_id = i, fo_title = field_at p 4, fo_creation_date = created, fo_moderator = moderator\<rparr>)))"

definition apply_add_forum :: "loader_env \<Rightarrow> string \<Rightarrow> string \<Rightarrow> string list \<Rightarrow> (loader, unit) st" where
  "apply_add_forum env vertices out p =
     sbind (slift (parse_field_i64 p 3)) (\<lambda>i. let vid = encode_vid Forum i in
     sbind (slift (forum_fields p i)) (\<lambda>data.
     sbind (write_vertex env vertices vid data) (\<lambda>_.
     sbind (insert_to_field env out vid Person p 6 HasModerator) (\<lambda>_.
     insert_tags env out vid HasTag (field_at p 7)))))"

definition post_fields :: "string list \<Rightarrow> int \<Rightarrow> vertex_data res" where
  "post_fields p i =
     rbind (parse_field_i64 p 5) (\<lambda>created.
     rbind (parse_field_i64 p 10) (\<lambda>len.
     rbind (parse_field_i64 p 11) (\<lambda>creator.
     rbind (parse_field_i64 p 12) (\<lambda>forum.
     rbind (parse_field_i64 p 13) (\<lambda>place.
     Inr (V_post \<lparr>po_id = i, po_image_file = field_at p 4, po_creation_date = created,
       po_location_ip = field_at p 6, po_browser_used = field_at p 7, po_language = field_at p 8,
       po_content = field_at p 9, po_length = len, po_creator = creator, po_forum_id = forum,
       po_place = place\<rparr>))))))"

definition apply_add_post :: "loader_env \<Rightarrow> string \<Rightarrow> string \<Rightarrow> string list \<Rightarrow> (loader, unit) st" where
  "apply_add_post env vertices out p =
     sbind (slift (parse_field_i64 p 3)) (\<lambda>i. let vid = encode_vid Post i in
     sbind (slift (post_fields p i)) (\<lambda>data.
     sbind (write_vertex env vertices vid data) (\<lambda>_.
     sbind (insert_to_field env out vid Person p 11 HasCreator) (\<lambda>_.
     sbind (slift (parse_field_i64 p 12)) (\<lambda>forum.
     sbind (insert_counted env out (encode_vid Forum forum) vid ContainerOf P_empty) (\<lambda>_.
     sbind (insert_to_field env out vid Place p 13 IsLocatedIn) (\<lambda>_.
     insert_tags env out vid HasTag (field_at p 14))))))))"

definition comment_fields :: "string list \<Rightarrow> int \<Rightarrow> int option \<Rightarrow> int option \<Rightarrow> vertex_data res" where
  "comment_fields p i reply_of_post reply_of_comment =
     rbind (parse_field_i64 p 4) (\<lambda>created.
     rbind (parse_field_i64 p 8) (\<lambda>len.
     rbind (parse_field_i64 p 9) (\<lambda>creator.
     rbind (parse_field_i64 p 10) (\<lambda>place.
     Inr (V_comment \<lparr>co_id = i, co_creation_date = created, co_location_ip = field_at p 5,
       co_browser_used = field_at p 6, co_content = field_at p 7, co_length = len, co_creator = creator,
       co_place = place, co_reply_of_post = reply_of_post, co_reply_of_comment = reply_of_comment\<rparr>)))))"

definition insert_reply ::
  "loader_env \<Rightarrow> string \<Rightarrow> vertex_id \<Rightarrow> vertex_label \<Rightarrow> edge_label \<Rightarrow> int option \<Rightarrow> (loader, unit) st"
where
  "insert_reply env out vid label edge_label target =
     (case target of None \<Rightarrow> sreturn ()
      | Some x \<Rightarrow> insert_counted env out vid (encode_vid label x) edge_label P_empty)"

definition apply_add_comment :: "loader_env \<Rightarrow> string \<Rightarrow> string \<Rightarrow> string list \<Rightarrow> (loader, unit) st" where
  "apply_add_comment env vertices out p =
     sbind (slift (parse_field_i64 p 3)) (\<lambda>i. let vid = encode_vid Comment i in
     sbind (slift (parse_optional_i64 (field_at p 11))) (\<lambda>reply_of_post.
     sbind (slift (parse_optional_i64 (field_at p 12))) (\<lambda>reply_of_comment.
     sbind (slift (comment_fields p i reply_of_post reply_of_comment)) (\<lambda>data.
     sbind (write_vertex env vertices vid data) (\<lambda>_.
     sbind (insert_to_field env out vid Person p 9 HasCreator) (\<lambda>_.
     sbind (insert_to_field env out vid Place p 10 IsLocatedIn) (\<lambda>_.
     sbind (insert_reply env out vid Post ReplyOfPost reply_of_post) (\<lambda>_.
     sbind (insert_reply env out vid Comment ReplyOfComment reply_of_comment) (\<lambda>_.
     insert_tags env out vid HasTag (field_at p 13))))))))))"

definition apply_binary_update_edge ::
  "loader_env \<Rightarrow> string \<Rightarrow> string list \<Rightarrow> vertex_label \<Rightarrow> vertex_label \<Rightarrow> edge_label \<Rightarrow> bool \<Rightarrow> (loader, unit) st"
where
  "apply_binary_update_edge env out p src_label dst_label edge_label bidirectional_positive =
     sbind (slift (parse_field_i64 p 3)) (\<lambda>a. let src = encode_vid src_label a in
     sbind (slift (parse_field_i64 p 4)) (\<lambda>b. let dst = encode_vid dst_label b in
     sbind (slift (parse_field_i64 p 5)) (\<lambda>v. let prop_value = P_i64 v in
     sbind (insert_forward_reverse env out src dst edge_label prop_value True) (\<lambda>_.
     if bidirectional_positive then insert_forward_reverse env out dst src edge_label prop_value False
     else sreturn ()))))"

definition apply_update :: "loader_env \<Rightarrow> string \<Rightarrow> string \<Rightarrow> string list \<Rightarrow> (loader, unit) st" where
  "apply_update env vertices out parts =
     (let kind = parts ! 2
      in if kind = ''1'' then apply_add_person env vertices out parts
         else if kind = ''2'' then
           sbind (apply_binary_update_edge env out parts Person Post LikesPost False) (\<lambda>_. count_directed 2)
         else if kind = ''3'' then
           sbind (apply_binary_update_edge env out parts Person Comment LikesComment False) (\<lambda>_. count_directed 2)
         else if kind = ''4'' then apply_add_forum env vertices out parts
         else if kind = ''5'' then
           sbind (apply_binary_update_edge env out parts Forum Person HasMember False) (\<lambda>_. count_directed 2)
         else if kind = ''6'' then apply_add_post env vertices out parts
         else if kind = ''7'' then apply_add_comment env vertices out parts
         else if kind = ''8'' then
           sbind (apply_binary_update_edge env out parts Person Person Knows True) (\<lambda>_. count_directed 3)
         else sreturn ())"

definition apply_line :: "loader_env \<Rightarrow> string \<Rightarrow> string \<Rightarrow> string \<Rightarrow> (loader, unit) st" where
  "apply_line env vertices out line =
     (if trim line = [] then sreturn ()
      else let parts = str_split (CHR ''|'') line
      in if length parts < 3 then sreturn ()
      else sbind (add_stats \<lparr>is_input_rows = 1, is_directed_edges = 0\<rparr>) (\<lambda>_. apply_update env vertices out parts))"

definition import_update_stream_file :: "loader_env \<Rightarrow> string \<Rightarrow> string \<Rightarrow> string \<Rightarrow> (loader, unit) st" where
  "import_update_stream_file env vertices out path =
     sbind (sreads (\<lambda>s. case ss_files (ld_store s) path of None \<Rightarrow> Inl Not_found | Some bs \<Rightarrow> Inr (buf_lines bs)))
       (\<lambda>ls. sdo (\<lambda>l. sbind (slift l) (apply_line env vertices out)) ls)"

definition update_stream_files :: "loader_env \<Rightarrow> string \<Rightarrow> string list res" where
  "update_stream_files env csv_root =
     rbind (le_read_dir env csv_root) (\<lambda>entries. rbind (rmap (\<lambda>entry. entry) entries) (\<lambda>names.
       Inr (map (join_path csv_root) (filter (\<lambda>name. valid_utf8 name \<and> prefix ''updateStream_0_'' name \<and>
         (suffix ''_person.csv'' name \<or> suffix ''_forum.csv'' name)) names))))"

subsection \<open>The entry points\<close>

text \<open>What both imports end with: the flush, the build of the adjacency and its cache file.\<close>

definition finish_import :: "string \<Rightarrow> (loader, import_stats) st" where
  "finish_import cache_path =
     sbind (on_engine flush_active) (\<lambda>_ s.
     sbind (on_store (on_files (write_adjacency_cache_atomic cache_path (fst (ab_build (ld_adjacency s))))))
       (\<lambda>_. sreturn (ld_stats s)) s)"

text \<open>The tables with an edge on each row: name, labels, whether the edge goes both ways, property.\<close>

definition edge_tables ::
  "(string \<times> vertex_label \<times> vertex_label \<times> edge_label \<times> bool \<times> prop_spec) list"
where
  "edge_tables =
     [(''person_knows_person_0_0.csv'', Person, Person, Knows, True, Prop_i64_col 2),
      (''person_likes_comment_0_0.csv'', Person, Comment, LikesComment, False, Prop_i64_col 2),
      (''person_likes_post_0_0.csv'', Person, Post, LikesPost, False, Prop_i64_col 2),
      (''person_hasInterest_tag_0_0.csv'', Person, Tag, HasInterest, False, Prop_none),
      (''person_studyAt_organisation_0_0.csv'', Person, Organisation, StudyAt, False, Prop_i32_col 2),
      (''person_workAt_organisation_0_0.csv'', Person, Organisation, WorkAt, False, Prop_i32_col 2),
      (''forum_hasMember_person_0_0.csv'', Forum, Person, HasMember, False, Prop_i64_col 2),
      (''forum_hasTag_tag_0_0.csv'', Forum, Tag, HasTag, False, Prop_none),
      (''comment_hasTag_tag_0_0.csv'', Comment, Tag, HasTag, False, Prop_none),
      (''post_hasTag_tag_0_0.csv'', Post, Tag, HasTag, False, Prop_none)]"

definition named_edges :: "string \<Rightarrow> string \<Rightarrow> named_edge_spec list" where
  "named_edges dynamic static_dir = map (\<lambda>(path, src, dst, label, src_col, dst_col).
       \<lparr>ne_path = path, ne_src_label = src, ne_dst_label = dst, ne_edge_label = label,
        ne_src_col = src_col, ne_dst_col = dst_col\<rparr>)
     [(join_path dynamic ''person_0_0.csv'', Person, Place, IsLocatedIn, ''id'', ''place''),
      (join_path dynamic ''forum_0_0.csv'', Forum, Person, HasModerator, ''id'', ''moderator''),
      (join_path dynamic ''post_0_0.csv'', Post, Person, HasCreator, ''id'', ''creator''),
      (join_path dynamic ''post_0_0.csv'', Forum, Post, ContainerOf, ''Forum.id'', ''id''),
      (join_path dynamic ''post_0_0.csv'', Post, Place, IsLocatedIn, ''id'', ''place''),
      (join_path dynamic ''comment_0_0.csv'', Comment, Person, HasCreator, ''id'', ''creator''),
      (join_path dynamic ''comment_0_0.csv'', Comment, Place, IsLocatedIn, ''id'', ''place''),
      (join_path dynamic ''comment_0_0.csv'', Comment, Post, ReplyOfPost, ''id'', ''replyOfPost''),
      (join_path dynamic ''comment_0_0.csv'', Comment, Comment, ReplyOfComment, ''id'', ''replyOfComment''),
      (join_path static_dir ''organisation_0_0.csv'', Organisation, Place, IsLocatedIn, ''id'', ''place''),
      (join_path static_dir ''place_0_0.csv'', Place, Place, IsPartOf, ''id'', ''isPartOf''),
      (join_path static_dir ''tag_0_0.csv'', Tag, TagClass, HasType, ''id'', ''hasType''),
      (join_path static_dir ''tagclass_0_0.csv'', TagClass, TagClass, IsSubclassOf, ''id'', ''isSubclassOf'')]"

definition import_snb_full :: "loader_env \<Rightarrow> string \<Rightarrow> string \<Rightarrow> (loader, import_stats) st" where
  "import_snb_full env csv_root store_dir =
     (let out = edge_props_file store_dir; dynamic = join_path csv_root ''dynamic'';
          static_dir = join_path csv_root ''static''
      in sbind (create_text (vertices_file store_dir)) (\<lambda>_.
         sbind (create_text out) (\<lambda>_.
         sbind (supdate (\<lambda>s. s\<lparr>ld_stats := no_stats, ld_adjacency := ab_default\<rparr>)) (\<lambda>_.
         sbind (import_vertices env csv_root (vertices_file store_dir)) (\<lambda>_.
         sbind (sdo (\<lambda>(name, src, dst, label, bidirectional, p).
             sbind (import_edge_file env out (join_path dynamic name) src dst label bidirectional
               (Col_index 0) (Col_index 1) p) add_stats) edge_tables) (\<lambda>_.
         sbind (sdo (\<lambda>spec. sbind (import_named_edge env out spec) add_stats)
             (named_edges dynamic static_dir)) (\<lambda>_.
         finish_import (adjacency_file store_dir))))))))"

definition prop_tables :: "(string \<times> vertex_label \<times> vertex_label \<times> edge_label \<times> bool \<times> prop_spec) list" where
  "prop_tables =
     [(''person_knows_person_0_0.csv'', Person, Person, Knows, True, Prop_i64_col 2),
      (''person_likes_comment_0_0.csv'', Person, Comment, LikesComment, False, Prop_i64_col 2),
      (''person_likes_post_0_0.csv'', Person, Post, LikesPost, False, Prop_i64_col 2),
      (''person_studyAt_organisation_0_0.csv'', Person, Organisation, StudyAt, False, Prop_i32_col 2),
      (''person_workAt_organisation_0_0.csv'', Person, Organisation, WorkAt, False, Prop_i32_col 2),
      (''forum_hasMember_person_0_0.csv'', Forum, Person, HasMember, False, Prop_i64_col 2)]"

definition rebuild_snb_edge_props :: "loader_env \<Rightarrow> string \<Rightarrow> string \<Rightarrow> (loader, nat) st" where
  "rebuild_snb_edge_props env csv_root store_dir =
     (let path = edge_props_file store_dir; tmp_path = path @ ''.tmp''; dynamic = join_path csv_root ''dynamic''
      in sbind (create_text tmp_path) (\<lambda>_.
         sbind (sfor (\<lambda>(name, src, dst, label, bidirectional, p) rows.
             sbind (write_edge_prop_file env tmp_path (join_path dynamic name) src dst label bidirectional
               (Col_index 0) (Col_index 1) p) (\<lambda>n. sreturn (rows + n))) prop_tables 0) (\<lambda>rows.
         sbind (rename_text tmp_path path) (\<lambda>_. sreturn rows))))"

definition import_snb_updates :: "loader_env \<Rightarrow> string \<Rightarrow> string \<Rightarrow> (loader, import_stats) st" where
  "import_snb_updates env csv_root store_dir =
     (let vertices = vertices_file store_dir; out = edge_props_file store_dir; cache_path = adjacency_file store_dir
      in sbind (open_append vertices) (\<lambda>_.
         sbind (open_append out) (\<lambda>_.
         sbind (sreads (\<lambda>s. if ss_files (ld_store s) cache_path \<noteq> None then
               rbind (load_adjacency_cache cache_path (ss_files (ld_store s))) (\<lambda>adj.
                 Inr (ab_from_adjacency adj (current_snapshot (ld_engine s))))
             else Inr ab_default)) (\<lambda>adjacency.
         sbind (supdate (\<lambda>s. s\<lparr>ld_stats := no_stats, ld_adjacency := adjacency\<rparr>)) (\<lambda>_.
         sbind (slift (update_stream_files env csv_root)) (\<lambda>files.
         sbind (sdo (import_update_stream_file env vertices out) (sort files)) (\<lambda>_.
         finish_import cache_path))))))) "

end
