(* ===== verification/Snb_Agree.thy ===== *)
theory Snb_Agree
  imports Snb_Adjacency Engine_Spec
begin

section \<open>The builder and the engine\<close>

text \<open>
  When the builder of the adjacency index agrees with the engine: each of its groups lists what a
  rebuild from a scan would, the most recently written first. An insertion that is also recorded keeps
  the agreement, a flush keeps it, and a builder started from an exact index has it. A builder that
  started empty beside an engine that already held edges agrees with it on the edges written since.
\<close>

subsection \<open>The newest edges of a group first\<close>

definition edge_pairs :: "engine \<Rightarrow> vertex_id \<Rightarrow> edge_type \<Rightarrow> (vertex_id \<times> timestamp) set" where
  "edge_pairs e src ty = (\<lambda>r. (e_dst r, e_ts r)) `
     {r \<in> latest (records e) (en_ts e). e_marker r = Insert \<and> e_src r = src \<and> e_type r = ty}"

definition newest_first :: "engine \<Rightarrow> vertex_id \<Rightarrow> edge_type \<Rightarrow> vertex_id list \<Rightarrow> bool" where
  "newest_first e src ty ds \<longleftrightarrow>
     (\<exists>ps. ds = map fst ps \<and> set ps = edge_pairs e src ty \<and> sorted_wrt (\<lambda>p q. snd q < snd p) ps)"

lemma edge_pairs_facts:
  assumes "engine_inv e"
  shows "finite (edge_pairs e src ty)" "(d, t) \<in> edge_pairs e src ty \<Longrightarrow> t \<le> en_ts e"
    "(d, t) \<in> edge_pairs e src ty \<Longrightarrow> (d, t') \<in> edge_pairs e src ty \<Longrightarrow> t = t'"
    "inj_on snd (edge_pairs e src ty)"
proof -
  have time: "inj_on e_ts (records e)" "\<forall>r \<in> records e. e_ts r \<le> en_ts e"
    using assms by (simp_all add: engine_inv_def time_ok_def)
  show "finite (edge_pairs e src ty)"
    unfolding edge_pairs_def using finite_subset [OF latest_subset finite_records] by simp
  show "(d, t) \<in> edge_pairs e src ty \<Longrightarrow> t \<le> en_ts e"
    using time(2) latest_subset by (auto simp: edge_pairs_def)
  show "(d, t) \<in> edge_pairs e src ty \<Longrightarrow> (d, t') \<in> edge_pairs e src ty \<Longrightarrow> t = t'"
    unfolding edge_pairs_def latest_def by (auto simp: edge_key_def intro: antisym)
  show "inj_on snd (edge_pairs e src ty)"
    using time(1) unfolding edge_pairs_def latest_def by (fastforce simp: inj_on_def)
qed

lemma strict_desc_unique:
  fixes ps qs :: "(vertex_id \<times> timestamp) list"
  assumes "sorted_wrt (\<lambda>p q. snd q < snd p) ps" "sorted_wrt (\<lambda>p q. snd q < snd p) qs" "set ps = set qs"
    "inj_on snd (set ps)"
  shows "ps = qs"
proof -
  have "sorted_wrt (<) (map (\<lambda>p. Reverse (snd p)) ps)" "sorted_wrt (<) (map (\<lambda>p. Reverse (snd p)) qs)"
    using assms(1,2) by (simp_all add: sorted_wrt_map)
  moreover have "set (map (\<lambda>p. Reverse (snd p)) qs) = set (map (\<lambda>p. Reverse (snd p)) ps)"
    using assms(3) by simp
  ultimately have "map (\<lambda>p. Reverse (snd p)) ps = map (\<lambda>p. Reverse (snd p)) qs"
    using strict_sorted_equal by metis
  moreover have "inj_on (\<lambda>p. Reverse (snd p)) (set ps \<union> set qs)"
    using assms(3,4) by (auto simp: inj_on_def)
  ultimately show ?thesis by (simp add: inj_on_map_eq_map)
qed

lemma newest_first_unique:
  assumes "engine_inv e" "newest_first e src ty ds" "newest_first e src ty ds'"
  shows "ds = ds'"
  using assms(2,3) edge_pairs_facts(4) [OF assms(1), of src ty] strict_desc_unique
  unfolding newest_first_def by metis

text \<open>The order of a group is decided by its pairs.\<close>

lemma order_group_strict: "sorted_wrt (<) (map (\<lambda>(d, t). (Reverse t, d)) (order_group dsts))"
proof -
  have "inj_on (\<lambda>(d, t). (Reverse t, d)) (set (order_group dsts))" by (auto simp: inj_on_def)
  then have "distinct (map (\<lambda>(d, t). (Reverse t, d)) (order_group dsts))"
    using order_group_spec(2) [of dsts] by (simp add: distinct_map)
  then show ?thesis by (simp add: strict_sorted_iff) (simp add: order_group_def)
qed

lemma order_group_unique:
  assumes "sorted_wrt (<) (map (\<lambda>(d, t). (Reverse t, d)) xs)"
    and "set xs = {(d, t). (d, t) \<in> set dsts \<and> (\<forall>t'. (d, t') \<in> set dsts \<longrightarrow> t' \<le> t)}"
  shows "order_group dsts = xs"
proof -
  let ?f = "\<lambda>(d :: vertex_id, t :: timestamp). (Reverse t, d)"
  have inj: "inj ?f" by (auto simp: inj_def)
  have "map ?f (order_group dsts) = map ?f xs"
    using strict_sorted_equal [OF assms(1) order_group_strict] order_group_spec(1) [of dsts] assms(2) by simp
  then show ?thesis using inj by (simp add: inj_map_eq_map)
qed

lemma order_group_functional:
  assumes "sorted_wrt (\<lambda>p q. snd q < snd p) dsts" "distinct (map fst dsts)"
  shows "order_group dsts = dsts"
proof (rule order_group_unique)
  show "sorted_wrt (<) (map (\<lambda>(d, t). (Reverse t, d)) dsts)"
    unfolding sorted_wrt_map by (rule sorted_wrt_mono_rel [OF _ assms(1)]) (auto simp: less_prod_def)
  have "t = t'" if "(d, t) \<in> set dsts" "(d, t') \<in> set dsts" for d t t'
    using assms(2) that by (meson eq_key_imp_eq_value)
  then show "set dsts = {(d, t). (d, t) \<in> set dsts \<and> (\<forall>t'. (d, t') \<in> set dsts \<longrightarrow> t' \<le> t)}" by auto
qed

lemma order_group_newer:
  assumes "\<forall>p \<in> set dsts. snd p < t"
  shows "order_group (dsts @ [(d, t)]) = (d, t) # filter (\<lambda>p. fst p \<noteq> d) (order_group dsts)"
proof (rule order_group_unique)
  have "sorted_wrt (\<lambda>p q. (\<lambda>(d, t). (Reverse t, d)) p < (\<lambda>(d, t). (Reverse t, d)) q) (order_group dsts)"
    using order_group_strict by (simp add: sorted_wrt_map)
  then have f: "sorted_wrt (\<lambda>p q. (\<lambda>(d, t). (Reverse t, d)) p < (\<lambda>(d, t). (Reverse t, d)) q)
      (filter (\<lambda>p. fst p \<noteq> d) (order_group dsts))"
    by (rule sorted_wrt_filter)
  have "\<forall>q \<in> set (order_group dsts). snd q < t" using assms order_group_spec(1) [of dsts] by auto
  then show "sorted_wrt (<) (map (\<lambda>(d, t). (Reverse t, d)) ((d, t) # filter (\<lambda>p. fst p \<noteq> d) (order_group dsts)))"
    using f by (auto simp: sorted_wrt_map less_prod_def)
  show "set ((d, t) # filter (\<lambda>p. fst p \<noteq> d) (order_group dsts)) =
      {(d', t'). (d', t') \<in> set (dsts @ [(d, t)]) \<and> (\<forall>t''. (d', t'') \<in> set (dsts @ [(d, t)]) \<longrightarrow> t'' \<le> t')}"
    using assms by (auto simp: order_group_spec(1) dest: less_imp_le) force
qed

text \<open>A rebuild from a scan gives this order.\<close>

lemma scan_newest_first:
  assumes inv: "engine_inv e" and out: "scan_edges (current_snapshot e) e = Inr out"
  shows "newest_first e src ty (group_of (build_adjacency_from_edges out) (src, ty))"
proof -
  let ?ds = "map (\<lambda>e. (e_dst e, e_ts e)) (filter (\<lambda>e. e_src e = src \<and> e_type e = ty) out)"
  have "set out = {r \<in> latest (records e) (en_ts e). e_marker r = Insert}"
    by (rule scan_run [OF inv, of "en_ts e"]) (use out in \<open>simp add: current_snapshot_def\<close>)
  then have set: "set ?ds = edge_pairs e src ty" by (auto simp: edge_pairs_def)
  note p = edge_pairs_facts [OF inv]
  have all: "set (order_group ?ds) = edge_pairs e src ty"
    using p(3) [of _ _ src ty] unfolding order_group_spec(1) set by (blast intro: eq_refl)
  have "sorted_wrt (\<lambda>a b. (Reverse (snd a), fst a) < (Reverse (snd b), fst b)) (order_group ?ds)"
    using order_group_strict [of ?ds] by (simp add: sorted_wrt_map split_beta)
  then have "sorted_wrt (\<lambda>a b. snd b < snd a) (order_group ?ds)"
    by (rule sorted_wrt_mono_rel [rotated])
      (use inj_onD [OF edge_pairs_facts(4) [OF inv, of src ty, folded all]] in \<open>auto simp: less_prod_def less_le\<close>)
  then show ?thesis unfolding newest_first_def group_of_edges using all by blast
qed

subsection \<open>The builder\<close>

definition ab_inv :: "adjacency_builder \<Rightarrow> bool" where
  "ab_inv b \<longleftrightarrow> hm_inv (ab_grouped b) \<and> (\<forall>k. hm_get (ab_grouped b) k \<noteq> Some []) \<and>
     length (hm_all (\<lambda>ds. ds) (ab_grouped b)) = ab_directed_edges b"

lemma ab_inv_default: "ab_inv ab_default"
  by (simp add: ab_inv_def ab_default_def hm_inv_def hm_all_def hm_get_def)

lemma group_of_record:
  "hm_inv (ab_grouped b) \<Longrightarrow> group_of (ab_grouped (ab_record_edge src ty dst ts b)) k =
     (if k = (src, ty) then group_of (ab_grouped b) k @ [(dst, ts)] else group_of (ab_grouped b) k)"
  by (simp add: ab_record_edge_def group_of_insert)

lemma ab_inv_record: "ab_inv b \<Longrightarrow> ab_inv (ab_record_edge src ty dst ts b)"
proof -
  assume b: "ab_inv b"
  then have inv: "hm_inv (ab_grouped b)" by (simp add: ab_inv_def)
  let ?g = "group_of (ab_grouped b) (src, ty) @ [(dst, ts)]"
  have "\<forall>k. hm_get (hm_insert (src, ty) ?g (ab_grouped b)) k \<noteq> Some []"
    using b inv by (simp add: ab_inv_def hm.get_ins)
  moreover have "size (mset (hm_all (\<lambda>ds. ds) (hm_insert (src, ty) ?g (ab_grouped b))) +
      (case hm_get (ab_grouped b) (src, ty) of None \<Rightarrow> {#} | Some w \<Rightarrow> mset w)) =
    size (mset (hm_all (\<lambda>ds. ds) (ab_grouped b)) + mset ?g)"
    using mset_hm_all_insert [OF inv, of "\<lambda>ds. ds" "(src, ty)" ?g] by simp
  ultimately show ?thesis
    using b inv unfolding ab_inv_def ab_record_edge_def
    by (auto simp: hm.inv_ins group_of_def split: option.splits)
qed

text \<open>The groups a build keeps: none more than were recorded.\<close>

lemma build_bounds:
  assumes "ab_inv b"
  shows "hm_inv (fst (ab_build b))" "length (fst (ab_build b)) \<le> ab_directed_edges b"
    "sum_list (map (\<lambda>(_, dsts). length dsts) (fst (ab_build b))) \<le> ab_directed_edges b"
proof -
  let ?kept = "map (\<lambda>(k, ds). (k, map fst (order_group ds))) (ab_grouped b)"
  have inv: "hm_inv (ab_grouped b)" and ne: "\<forall>k. hm_get (ab_grouped b) k \<noteq> Some []"
    and n: "length (hm_all (\<lambda>ds. ds) (ab_grouped b)) = ab_directed_edges b"
    using assms by (simp_all add: ab_inv_def)
  show built: "hm_inv (fst (ab_build b))" by (rule ab_build_get(1) [OF inv])
  have keys: "distinct (map fst ?kept)" using inv by (simp add: hm_inv_def comp_def split_beta)
  have "map_of (fst (ab_build b)) k = map_of ?kept k" for k
    using ab_build_get(2) [OF inv, of k] by (simp add: hm_get_def map_of_map)
  then have "set (fst (ab_build b)) = set ?kept"
    by (intro map_of_inject_set [THEN iffD1]) (use built keys in \<open>auto simp: hm_inv_def\<close>)
  then have eq: "mset (fst (ab_build b)) = mset ?kept"
    by (rule set_eq_iff_mset_eq_distinct [THEN iffD1, rotated 2])
      (use built keys in \<open>auto simp: hm_inv_def distinct_map dest: inj_on_imageI2\<close>)
  have le: "length (order_group ds) \<le> length ds" for ds
  proof -
    have "set (order_group ds) \<subseteq> set ds" by (auto simp: order_group_spec(1))
    moreover have "distinct (order_group ds)" using order_group_spec(2) [of ds] by (simp add: distinct_map)
    ultimately show ?thesis by (metis card_length card_mono distinct_card finite_set le_trans)
  qed
  have total: "sum_list (map (\<lambda>(_, ds). length ds) gs) = length (hm_all (\<lambda>ds. ds) gs)" for gs :: "('k \<times> 'v list) list"
    by (induction gs) (auto simp: hm_all_def)
  have "sum_list (map (\<lambda>(_, dsts). length dsts) (fst (ab_build b))) = sum_list (map (\<lambda>(_, dsts). length dsts) ?kept)"
    using edge_total_mset [OF eq] by (simp only: edge_total_def)
  also have "\<dots> \<le> sum_list (map (\<lambda>(_, ds). length ds) (ab_grouped b))"
    using le by (simp add: comp_def split_beta sum_list_mono)
  finally show "sum_list (map (\<lambda>(_, dsts). length dsts) (fst (ab_build b))) \<le> ab_directed_edges b"
    unfolding total [of "ab_grouped b"] n .
  have "length (fst (ab_build b)) = length (ab_grouped b)" using eq by (metis length_map size_mset)
  also have "\<dots> \<le> length (hm_all (\<lambda>ds. ds) (ab_grouped b))"
  proof -
    have "(k, []) \<notin> set (ab_grouped b)" for k
      using ne inv map_of_is_SomeI unfolding hm_inv_def hm_get_def by metis
    moreover have "(\<forall>k. (k, []) \<notin> set gs) \<Longrightarrow> length gs \<le> length (hm_all (\<lambda>ds. ds) gs)"
      for gs :: "('k \<times> 'v list) list"
    proof (induction gs)
      case (Cons g gs)
      obtain k vs where g: "g = (k, vs)" by (cases g)
      then have "vs \<noteq> []" using Cons.prems by auto
      then show ?case using Cons g by (cases vs) (auto simp: hm_all_def)
    qed simp
    ultimately show ?thesis by blast
  qed
  finally show "length (fst (ab_build b)) \<le> ab_directed_edges b" using n by simp
qed

text \<open>A builder started from a loaded index: the position in the list stands for the age.\<close>

definition aged :: "timestamp \<Rightarrow> vertex_id list \<Rightarrow> (vertex_id \<times> timestamp) list" where
  "aged max_ts ds = map (\<lambda>(i, dst). (dst, saturating_sub max_ts (of_nat i))) (enumerate 0 ds)"

lemma fold_record_group:
  assumes "ab_inv b"
  shows "ab_inv (fold (\<lambda>(i, dst). ab_record_edge src ty dst (g i)) xs b) \<and>
    group_of (ab_grouped (fold (\<lambda>(i, dst). ab_record_edge src ty dst (g i)) xs b)) k =
      (if k = (src, ty) then group_of (ab_grouped b) k @ map (\<lambda>(i, dst). (dst, g i)) xs
       else group_of (ab_grouped b) k)"
  using assms
proof (induction xs arbitrary: b)
  case (Cons x xs)
  obtain i dst where x: "x = (i, dst)" by (cases x)
  have "hm_inv (ab_grouped b)" using Cons.prems by (simp add: ab_inv_def)
  then show ?case
    using Cons.IH [OF ab_inv_record [OF Cons.prems, of src ty dst "g i"]] x by (simp add: group_of_record)
qed simp

lemma from_adjacency_fold:
  assumes "ab_inv b" "distinct (map fst adj)"
  shows "ab_inv (fold (\<lambda>((src, ty), dsts) b.
           fold (\<lambda>(i, dst). ab_record_edge src ty dst (saturating_sub max_ts (of_nat i))) (enumerate 0 dsts) b) adj b) \<and>
    group_of (ab_grouped (fold (\<lambda>((src, ty), dsts) b.
           fold (\<lambda>(i, dst). ab_record_edge src ty dst (saturating_sub max_ts (of_nat i))) (enumerate 0 dsts) b) adj b)) k =
      group_of (ab_grouped b) k @ (case map_of adj k of None \<Rightarrow> [] | Some ds \<Rightarrow> aged max_ts ds)"
  using assms
proof (induction adj arbitrary: b)
  case (Cons g adj)
  obtain src ty dsts where g: "g = ((src, ty), dsts)" by (cases g) (metis prod.collapse)
  note r = fold_record_group [OF Cons.prems(1), where src = src and ty = ty and xs = "enumerate 0 dsts"
      and g = "\<lambda>i. saturating_sub max_ts (of_nat i)"]
  have "map_of adj (src, ty) = None" using Cons.prems(2) g by (simp add: map_of_eq_None_iff)
  then show ?case
    using Cons.IH [of "fold (\<lambda>(i, dst). ab_record_edge src ty dst (saturating_sub max_ts (of_nat i))) (enumerate 0 dsts) b"]
      r [of k] r Cons.prems(2) g by (auto simp: aged_def)
qed simp

lemma from_adjacency:
  assumes "hm_inv adj"
  shows "ab_inv (ab_from_adjacency adj max_ts)"
    "group_of (ab_grouped (ab_from_adjacency adj max_ts)) k = aged max_ts (group_of adj k)"
proof -
  have "group_of (ab_grouped ab_default) k = []" by (simp add: ab_default_def group_of_def hm_get_def)
  then show "ab_inv (ab_from_adjacency adj max_ts)"
    "group_of (ab_grouped (ab_from_adjacency adj max_ts)) k = aged max_ts (group_of adj k)"
    using from_adjacency_fold [OF ab_inv_default, of adj max_ts k] assms
    by (auto simp: ab_from_adjacency_def hm_inv_def group_of_def [of adj] hm_get_def aged_def split: option.splits)
qed

lemma aged_facts:
  assumes "length ds \<le> unat max_ts + 1" "distinct ds"
  shows "map fst (order_group (aged max_ts ds)) = ds" "p \<in> set (aged max_ts ds) \<Longrightarrow> snd p \<le> max_ts"
proof -
  have sub: "unat (saturating_sub max_ts (of_nat i)) = unat max_ts - i" if "i < length ds" for i
  proof -
    have i: "i \<le> unat max_ts" using that assms(1) by simp
    then have "i < 2 ^ 64" using unat_word_less(4) [of max_ts] by simp
    then have u: "unat (of_nat i :: u64) = i" by (rule unat_of_nat_u64)
    then have "of_nat i \<le> max_ts" using i by (simp add: word_le_nat_alt)
    then show ?thesis using u by (simp add: saturating_sub_def unat_sub)
  qed
  have fst: "map fst (aged max_ts ds) = ds" by (simp add: aged_def comp_def split_beta)
  have nth: "aged max_ts ds ! i = (ds ! i, saturating_sub max_ts (of_nat i))" if "i < length ds" for i
    using that by (simp add: aged_def nth_enumerate_eq)
  have len: "length (aged max_ts ds) = length ds" by (simp add: aged_def)
  have "sorted_wrt (\<lambda>p q. snd q < snd p) (aged max_ts ds)"
    unfolding sorted_wrt_iff_nth_less len using nth sub assms(1)
    by (auto simp: word_less_nat_alt)
  then show "map fst (order_group (aged max_ts ds)) = ds"
    using order_group_functional [of "aged max_ts ds"] fst assms(2) by simp
  assume "p \<in> set (aged max_ts ds)"
  then obtain i where "i < length ds" "p = aged max_ts ds ! i" by (auto simp: in_set_conv_nth len)
  then show "snd p \<le> max_ts" using nth sub by (simp add: word_le_nat_alt)
qed

subsection \<open>The builder agrees with the engine\<close>

text \<open>Where a builder started: from all the engine held (\<open>None\<close>), or from nothing at a time at which
  the engine already held some edges.\<close>

type_synonym start = "(timestamp \<times> edge_key set) option"

definition since :: "start \<Rightarrow> timestamp \<Rightarrow> bool" where
  "since st t \<longleftrightarrow> (case st of None \<Rightarrow> True | Some (t0, held) \<Rightarrow> t0 < t)"

definition newest_since :: "start \<Rightarrow> engine \<Rightarrow> vertex_id \<Rightarrow> edge_type \<Rightarrow> vertex_id list \<Rightarrow> bool" where
  "newest_since st e src ty ds \<longleftrightarrow>
     (\<exists>ps. ds = map fst ps \<and> set ps = {p \<in> edge_pairs e src ty. since st (snd p)} \<and> sorted_wrt (\<lambda>p q. snd q < snd p) ps)"

definition keeps_held :: "start \<Rightarrow> engine \<Rightarrow> bool" where
  "keeps_held st e \<longleftrightarrow>
     (case st of None \<Rightarrow> True | Some (t0, held) \<Rightarrow> t0 \<le> en_ts e \<and> held \<subseteq> view e (en_ts e))"

definition agrees :: "start \<Rightarrow> adjacency_builder \<Rightarrow> engine \<Rightarrow> bool" where
  "agrees st b e \<longleftrightarrow> ab_inv b \<and> (\<forall>k. \<forall>p \<in> set (group_of (ab_grouped b) k). snd p \<le> en_ts e) \<and>
     keeps_held st e \<and>
     (\<forall>src ty. newest_since st e src ty (map fst (order_group (group_of (ab_grouped b) (src, ty)))))"

lemma since_None [simp]: "since None t" "keeps_held None e" "newest_since None e = newest_first e"
  by (simp_all add: since_def keeps_held_def newest_since_def newest_first_def fun_eq_iff)

lemma agrees_build:
  assumes "agrees st b e"
  shows "newest_since st e src ty (group_of (fst (ab_build b)) (src, ty))"
  using assms by (simp add: agrees_def ab_inv_def group_of_build)

lemma image_of_if:
  "L = (if c then insert r X else S) \<Longrightarrow> f ` X = Y \<Longrightarrow> f r = q \<Longrightarrow> f ` L = (if c then insert q Y else f ` S)"
  by auto

lemma edge_pairs_insert:
  assumes inv: "engine_inv e" and recs: "records e' = insert (insert_record s d t (en_ts e + 1)) (records e)"
    and ts: "en_ts e' = en_ts e + 1" and room: "unat (en_ts e) + 1 < 2 ^ 64"
  shows "edge_pairs e' src ty = (if (src, ty) = (s, t)
      then insert (d, en_ts e + 1) {p \<in> edge_pairs e src ty. fst p \<noteq> d} else edge_pairs e src ty)"
    "view e' (en_ts e') = insert (s, sint t, d) (view e (en_ts e))"
proof -
  let ?r = "insert_record s d t (en_ts e + 1)"
  have time: "\<forall>x \<in> records e. e_ts x \<le> en_ts e" using inv by (simp add: engine_inv_def time_ok_def)
  then have older: "\<forall>x \<in> records e. e_ts x < e_ts ?r"
    using le_less_plus_1 [OF room] by (simp add: insert_record_def)
  have "latest (records e') (en_ts e') = insert ?r {x \<in> latest (records e) (en_ts e'). edge_key x \<noteq> edge_key ?r}"
    unfolding recs by (rule latest_insert_newest [OF older]) (simp add: ts insert_record_def)
  moreover have now: "latest (records e) (en_ts e') = latest (records e) (en_ts e)"
    using time le_less_plus_1 [OF room] unfolding latest_def ts by (auto intro: less_imp_le)
  ultimately have l: "latest (records e') (en_ts e') =
      insert ?r {x \<in> latest (records e) (en_ts e). edge_key x \<noteq> edge_key ?r}" by simp
  let ?S = "{r \<in> latest (records e) (en_ts e). e_marker r = Insert \<and> e_src r = src \<and> e_type r = ty}"
  have inj: "sint (a :: i32) = sint b \<longleftrightarrow> a = b" for a b using signed_word_eqI by auto
  have "{r \<in> latest (records e') (en_ts e'). e_marker r = Insert \<and> e_src r = src \<and> e_type r = ty} =
      (if (src, ty) = (s, t) then insert ?r {x \<in> ?S. e_dst x \<noteq> d} else ?S)"
    unfolding l by (auto simp: insert_record_def edge_key_def inj)
  moreover have "(\<lambda>r. (e_dst r, e_ts r)) ` {x \<in> ?S. e_dst x \<noteq> d} = {p \<in> (\<lambda>r. (e_dst r, e_ts r)) ` ?S. fst p \<noteq> d}"
    by force
  ultimately show "edge_pairs e' src ty = (if (src, ty) = (s, t)
      then insert (d, en_ts e + 1) {p \<in> edge_pairs e src ty. fst p \<noteq> d} else edge_pairs e src ty)"
    unfolding edge_pairs_def by (rule image_of_if) (simp add: insert_record_def)
  have "view e' (en_ts e') = insert (edge_key ?r) (view e (en_ts e'))"
    using view_newest [OF recs older, of "en_ts e'"] by (simp add: ts insert_record_def)
  then show "view e' (en_ts e') = insert (s, sint t, d) (view e (en_ts e))"
    using now by (simp add: view_def insert_record_def edge_key_def)
qed

lemma newest_since_insert:
  assumes inv: "engine_inv e" and recs: "records e' = insert (insert_record s d t (en_ts e + 1)) (records e)"
    and ts: "en_ts e' = en_ts e + 1" and room: "unat (en_ts e) + 1 < 2 ^ 64" and ds: "newest_since st e src ty ds"
    and new: "since st (en_ts e + 1)"
  shows "newest_since st e' src ty (if (src, ty) = (s, t) then d # filter (\<lambda>x. x \<noteq> d) ds else ds)"
proof -
  obtain ps where ps: "ds = map fst ps" "set ps = {p \<in> edge_pairs e src ty. since st (snd p)}"
    "sorted_wrt (\<lambda>p q. snd q < snd p) ps"
    using ds unfolding newest_since_def by blast
  note same = edge_pairs_insert(1) [OF inv recs ts room, of src ty]
  have newer: "\<forall>p \<in> set ps. snd p < en_ts e + 1"
    using edge_pairs_facts(2) [OF inv] le_less_plus_1 [OF room] unfolding ps(2) by auto
  show ?thesis
  proof (cases "(src, ty) = (s, t)")
    case True
    let ?qs = "(d, en_ts e + 1) # filter (\<lambda>p. fst p \<noteq> d) ps"
    have "map fst ?qs = d # filter (\<lambda>x. x \<noteq> d) ds" by (simp add: ps(1) filter_map comp_def)
    moreover have "set ?qs = {p \<in> edge_pairs e' src ty. since st (snd p)}" using True ps(2) same new by auto
    moreover have "sorted_wrt (\<lambda>p q. snd q < snd p) ?qs"
      using newer sorted_wrt_filter [OF ps(3)] by simp
    ultimately show ?thesis using True unfolding newest_since_def by (metis (no_types, lifting))
  next
    case False
    then show ?thesis using ps same unfolding newest_since_def by auto
  qed
qed

lemma keeps_held_insert:
  assumes "engine_inv e" "records e' = insert (insert_record s d t (en_ts e + 1)) (records e)"
    and ts: "en_ts e' = en_ts e + 1" and room: "unat (en_ts e) + 1 < 2 ^ 64" and held: "keeps_held st e"
  shows "keeps_held st e'" "since st (en_ts e + 1)"
  using held edge_pairs_insert(2) [OF assms(1-4)] le_less_plus_1 [OF room]
  by (auto simp: keeps_held_def since_def ts intro: less_imp_le split: option.splits)

lemma agrees_insert:
  assumes "engine_inv e" "records e' = insert (insert_record s d t (en_ts e + 1)) (records e)"
    and ts: "en_ts e' = en_ts e + 1" and room: "unat (en_ts e) + 1 < 2 ^ 64" and b: "agrees st b e"
  shows "agrees st (ab_record_edge s t d (en_ts e + 1) b) e'"
proof -
  have inv: "ab_inv b" "hm_inv (ab_grouped b)" and held: "keeps_held st e"
    using b by (simp_all add: agrees_def ab_inv_def)
  have old: "snd p < en_ts e + 1" if "p \<in> set (group_of (ab_grouped b) k)" for p k
    using b that le_less_plus_1 [OF room] unfolding agrees_def by blast
  have "map fst (order_group (group_of (ab_grouped (ab_record_edge s t d (en_ts e + 1) b)) (src, ty))) =
      (if (src, ty) = (s, t) then d # filter (\<lambda>x. x \<noteq> d) (map fst (order_group (group_of (ab_grouped b) (src, ty))))
       else map fst (order_group (group_of (ab_grouped b) (src, ty))))" for src ty
    using order_group_newer [of "group_of (ab_grouped b) (s, t)" "en_ts e + 1" d] old inv(2)
    by (auto simp: group_of_record filter_map comp_def)
  then have "newest_since st e' src ty
      (map fst (order_group (group_of (ab_grouped (ab_record_edge s t d (en_ts e + 1) b)) (src, ty))))" for src ty
    using newest_since_insert [OF assms(1-4) _ keeps_held_insert(2) [OF assms(1-4) held]] b
    unfolding agrees_def by presburger
  moreover have "snd p \<le> en_ts e'" if "p \<in> set (group_of (ab_grouped (ab_record_edge s t d (en_ts e + 1) b)) k)" for p k
  proof -
    have "p = (d, en_ts e + 1) \<or> p \<in> set (group_of (ab_grouped b) k)"
      using that inv(2) by (auto simp: group_of_record split: if_splits)
    moreover have "p \<in> set (group_of (ab_grouped b) k) \<Longrightarrow> snd p \<le> en_ts e + 1"
      by (rule less_imp_le, rule old)
    ultimately show ?thesis unfolding ts by auto
  qed
  ultimately show ?thesis
    using ab_inv_record [OF inv(1)] keeps_held_insert(1) [OF assms(1-4) held] by (simp add: agrees_def)
qed

lemma agrees_same_now:
  assumes "same_now e e'" "agrees st b e"
  shows "agrees st b e'"
proof -
  have now: "en_ts e' = en_ts e" "latest (records e') (en_ts e) = latest (records e) (en_ts e)"
    using assms(1) by (simp_all add: same_now_def)
  have "keeps_held st e' = keeps_held st e" using now by (auto simp: keeps_held_def view_def split: option.splits)
  then show ?thesis using assms(2) now by (simp add: agrees_def newest_since_def edge_pairs_def)
qed

text \<open>An empty builder agrees with an engine without records, and with any engine on what is written
  from now on.\<close>

lemma group_of_default: "group_of (ab_grouped ab_default) k = []"
  by (simp add: ab_default_def group_of_def hm_get_def)

lemma agrees_fresh: "records e = {} \<Longrightarrow> agrees None ab_default e"
  by (simp add: agrees_def ab_inv_default newest_first_def edge_pairs_def latest_def group_of_default)
    (simp add: order_group_def newest_per_dst_def)

lemma agrees_empty:
  assumes "engine_inv e"
  shows "agrees (Some (en_ts e, view e (en_ts e))) ab_default e"
proof -
  have "{p \<in> edge_pairs e src ty. since (Some (en_ts e, held)) (snd p)} = {}" for src ty held
    using edge_pairs_facts(2) [OF assms, of _ _ src ty] by (fastforce simp: since_def)
  then have "newest_since (Some (en_ts e, held)) e src ty []" for src ty held
    by (simp add: newest_since_def)
  then show ?thesis
    by (simp add: agrees_def ab_inv_default keeps_held_def group_of_default)
      (simp add: order_group_def newest_per_dst_def)
qed

end
