(* ===== verification/Snb_Loaded.thy ===== *)
theory Snb_Loaded
  imports Snb_Import Snb_Agree
begin

section \<open>The adjacency cache of an import\<close>

text \<open>
  An import writes the adjacency cache from the edges it recorded on the way, not from the engine. The
  properties here say that nothing is lost by it: the cache is what a rebuild from a scan of the engine
  would give, group by group and in the same order. The invariant that carries them, that the builder
  agrees with the engine, is stated once and kept by every operation of the import.
\<close>

subsection \<open>What every operation of an import keeps\<close>

definition preserves :: "('s \<Rightarrow> bool) \<Rightarrow> ('s, 'a) st \<Rightarrow> bool" where
  "preserves I m \<longleftrightarrow> (\<forall>s s' r. I s \<longrightarrow> m s = (s', r) \<longrightarrow> I s')"

lemma preserves_run: "preserves I m \<Longrightarrow> I s \<Longrightarrow> m s = (s', r) \<Longrightarrow> I s'"
  by (auto simp: preserves_def)

lemma preserves_basic [intro]:
  "preserves I (sreturn x)" "preserves I (slift r)" "preserves I (sreads f)" "preserves I (sthrow err)"
  by (simp_all add: preserves_def st_simps)

lemma preserves_bind [intro]: "preserves I m \<Longrightarrow> (\<And>x. preserves I (f x)) \<Longrightarrow> preserves I (sbind m f)"
proof -
  assume m: "preserves I m" and f: "\<And>x. preserves I (f x)"
  show ?thesis
    unfolding preserves_def
  proof (intro allI impI)
    fix s s' r
    assume s: "I s" and run: "sbind m f s = (s', r)"
    obtain t q where t: "m s = (t, q)" by (cases "m s")
    have "I t" by (rule preserves_run [OF m s t])
    then show "I s'" using run t preserves_run [OF f] by (cases q) (auto simp: sbind_def)
  qed
qed

lemma preserves_if [intro]: "preserves I m \<Longrightarrow> preserves I m' \<Longrightarrow> preserves I (if c then m else m')"
  by simp

lemma preserves_option [intro]:
  "preserves I m \<Longrightarrow> (\<And>x. preserves I (f x)) \<Longrightarrow> preserves I (case v of None \<Rightarrow> m | Some x \<Rightarrow> f x)"
  by (cases v) simp_all

lemma preserves_prod [intro]: "(\<And>a b. preserves I (f a b)) \<Longrightarrow> preserves I (case p of (a, b) \<Rightarrow> f a b)"
  by (cases p) simp

lemma preserves_sfor [intro]: "(\<And>x acc. preserves I (f x acc)) \<Longrightarrow> preserves I (sfor f xs acc)"
proof (induction xs arbitrary: acc)
  case Nil
  show ?case by (simp only: sfor.simps) (rule preserves_basic)
next
  case (Cons x xs)
  show ?case by (simp only: sfor.simps) (rule preserves_bind, use Cons in auto)
qed

lemma preserves_sdo [intro]: "(\<And>x. preserves I (f x)) \<Longrightarrow> preserves I (sdo f xs)"
  unfolding sdo_def by (rule preserves_sfor)

text \<open>An invariant of the engine and the builder that an insertion keeps is kept by every operation
  that reads the tables and the streams.\<close>

locale import_invariant =
  fixes I :: "loader \<Rightarrow> bool"
  assumes frame: "\<lbrakk>I s; ld_engine s' = ld_engine s; ld_adjacency s' = ld_adjacency s\<rbrakk> \<Longrightarrow> I s'"
    and insertion: "preserves I (insert_recorded src dst ty)"
begin

lemma store: "preserves I (on_store m)"
  unfolding preserves_def on_store_def by (auto split: prod.splits intro: frame)

lemma stats: "preserves I (add_stats other)" "preserves I (count_directed k)"
  by (auto simp: preserves_def add_stats_def count_directed_def supdate_def intro: frame)

lemma files: "preserves I (create_text path)" "preserves I (open_append path)" "preserves I (append_line path l)"
  "preserves I (rename_text path path')"
  unfolding create_text_def open_append_def append_line_def rename_text_def by (rule store)+

lemma rows: "preserves I (write_vertex env out vid data)" "preserves I (write_edge_prop env out src dst ty p)"
  unfolding write_vertex_def write_edge_prop_def by (intro preserves_if preserves_basic files)+

lemma forward_reverse: "preserves I (insert_forward_reverse env out src dst label p both)"
  unfolding insert_forward_reverse_def Let_def by (intro preserves_bind preserves_if preserves_basic insertion rows)

lemma table: "(\<And>headers r acc. preserves I (f headers r acc)) \<Longrightarrow> preserves I (csv_each env path f acc)"
  unfolding csv_each_def by (intro preserves_bind preserves_prod preserves_basic preserves_sfor)

lemma vertex_file: "preserves I (import_vertex_file env path out label build)"
  unfolding import_vertex_file_def by (intro table preserves_bind preserves_basic rows)

lemma vertices: "preserves I (import_vertices env csv_root out)"
  unfolding import_vertices_def Let_def by (intro preserves_sdo preserves_prod vertex_file)

lemma edge_file: "preserves I (import_edge_file env out path sl dl label both sc dc p)"
  unfolding import_edge_file_def Let_def
  by (intro table preserves_bind preserves_option preserves_prod preserves_if preserves_basic forward_reverse)

lemma counted: "preserves I (insert_counted env out src dst label p)"
  unfolding insert_counted_def by (intro preserves_bind forward_reverse stats)

lemma to_fields: "preserves I (insert_to_field env out vid label p i edge_label)"
  "preserves I (insert_tags env out vid edge_label raw)" "preserves I (insert_organisations env out vid edge_label raw)"
  "preserves I (insert_reply env out vid label edge_label target)"
  unfolding insert_to_field_def insert_tags_def insert_organisations_def insert_reply_def
  by (intro preserves_bind preserves_basic preserves_sdo preserves_prod preserves_option counted)+

lemma updates: "preserves I (apply_add_person env vertices out p)" "preserves I (apply_add_forum env vertices out p)"
  "preserves I (apply_add_post env vertices out p)" "preserves I (apply_add_comment env vertices out p)"
  "preserves I (apply_binary_update_edge env out p sl dl label both)"
  unfolding apply_add_person_def apply_add_forum_def apply_add_post_def apply_add_comment_def
    apply_binary_update_edge_def Let_def
  by (intro preserves_bind preserves_basic preserves_if rows to_fields counted forward_reverse)+

lemma update_line: "preserves I (apply_line env vertices out l)"
  unfolding apply_line_def apply_update_def Let_def
  by (intro preserves_if preserves_bind preserves_basic stats updates)

lemma stream: "preserves I (import_update_stream_file env vertices out path)"
  unfolding import_update_stream_file_def by (intro preserves_bind preserves_basic preserves_sdo update_line)

end

text \<open>The engine is one that a run of operations made, and the builder agrees with it, as long as the
  edges recorded stay below the bound under which no identifier of the engine wraps around.\<close>

definition on_course :: "start \<Rightarrow> lsm_config \<Rightarrow> nat \<Rightarrow> nat \<Rightarrow> loader \<Rightarrow> bool" where
  "on_course st cfg n base s \<longleftrightarrow>
     (let c = base + ab_directed_edges (ld_adjacency s)
      in n \<le> 2 ^ 62 \<and> (c < 2 ^ 30 \<longrightarrow>
           (\<exists>h. length h \<le> c \<and> tracks cfg n h (ld_engine s)) \<and> agrees st (ld_adjacency s) (ld_engine s)))"

lemma insert_tracked:
  assumes tr: "tracks cfg n h e" "length h < 2 ^ 30" "n \<le> 2 ^ 62"
  obtains e' where "insert_edge src dst ty e = (e', Inr (en_ts e + 1))" "tracks cfg n (h @ [Put src dst ty]) e'"
    "records e' = insert (insert_record src dst ty (en_ts e + 1)) (records e)" "en_ts e' = en_ts e + 1"
    "unat (en_ts e) + 1 < 2 ^ 64"
proof -
  have inv: "engine_inv e" using tr by (simp add: tracks_def)
  have small: "small e" by (rule tracks_small [OF tr])
  obtain e' where w: "stamp_and_write (insert_record src dst ty) e = (e', Inr (en_ts e + 1))"
    "records e' = insert (insert_record src dst ty (en_ts e + 1)) (records e)" "en_ts e' = en_ts e + 1"
    by (rule stamp_and_write_run [OF inv small, of "insert_record src dst ty"]) (simp_all add: insert_record_def)
  obtain e2 where e2: "exec_op (Put src dst ty) e = (e2, Inr ())" "tracks cfg n (h @ [Put src dst ty]) e2"
    by (rule tracks_step [OF tr])
  have "e2 = e'" using e2(1) w(1) by (simp add: insert_edge_stamp)
  moreover have "unat (en_ts e) + 1 < 2 ^ 64" using small by (simp add: small_def)
  ultimately show thesis using that w e2(2) by (simp add: insert_edge_stamp)
qed

interpretation course: import_invariant "on_course st cfg n base" for st cfg n base
proof
  show "on_course st cfg n base s \<Longrightarrow> ld_engine s' = ld_engine s \<Longrightarrow> ld_adjacency s' = ld_adjacency s \<Longrightarrow>
      on_course st cfg n base s'" for s s'
    by (simp add: on_course_def)
  show "preserves (on_course st cfg n base) (insert_recorded src dst ty)" for src dst ty
    unfolding preserves_def
  proof (intro allI impI)
    fix s s' r
    assume s: "on_course st cfg n base s" and run: "insert_recorded src dst ty s = (s', r)"
    let ?c = "base + ab_directed_edges (ld_adjacency s)"
    have n: "n \<le> 2 ^ 62" using s by (simp add: on_course_def Let_def)
    show "on_course st cfg n base s'"
    proof (cases "?c < 2 ^ 30")
      case True
      then obtain h where h: "length h \<le> ?c" "tracks cfg n h (ld_engine s)" "agrees st (ld_adjacency s) (ld_engine s)"
        using s by (auto simp: on_course_def Let_def)
      have "length h < 2 ^ 30" using h(1) True by simp
      from insert_tracked [OF h(2) this n]
      obtain e' where e': "insert_edge src dst ty (ld_engine s) = (e', Inr (en_ts (ld_engine s) + 1))"
        "tracks cfg n (h @ [Put src dst ty]) e'"
        "records e' = insert (insert_record src dst ty (en_ts (ld_engine s) + 1)) (records (ld_engine s))"
        "en_ts e' = en_ts (ld_engine s) + 1" "unat (en_ts (ld_engine s)) + 1 < 2 ^ 64" .
      have inv: "engine_inv (ld_engine s)" using h(2) by (simp add: tracks_def)
      let ?b = "ab_record_edge src ty dst (en_ts (ld_engine s) + 1) (ld_adjacency s)"
      have s': "s' = s\<lparr>ld_engine := e', ld_adjacency := ?b\<rparr>"
        using run e'(1) by (simp add: insert_recorded_def on_engine_def sbind_def supdate_def)
      have "agrees st ?b e'" by (rule agrees_insert [OF inv e'(3-5) h(3)])
      moreover have "length (h @ [Put src dst ty]) \<le> base + ab_directed_edges ?b"
        using h(1) by (simp add: ab_record_edge_def)
      ultimately show ?thesis using e'(2) n unfolding s' on_course_def Let_def by (auto intro!: exI)
    next
      case False
      have "ab_directed_edges (ld_adjacency s) \<le> ab_directed_edges (ld_adjacency s')"
        using run by (auto simp: insert_recorded_def on_engine_def sbind_def supdate_def ab_record_edge_def
            split: prod.splits sum.splits)
      then show ?thesis using False n by (simp add: on_course_def Let_def)
    qed
  qed
qed

subsection \<open>The cache an import leaves\<close>

text \<open>What a rebuild from a scan of the engine would give, group by group and in order.\<close>

definition index_exact :: "engine \<Rightarrow> adjacency \<Rightarrow> bool" where
  "index_exact e adj \<longleftrightarrow> (\<exists>edges. scan_edges (current_snapshot e) e = Inr edges \<and>
     (\<forall>k. group_of adj k = group_of (build_adjacency_from_edges edges) k))"

lemma exact_newest:
  assumes inv: "engine_inv e"
  shows "index_exact e adj \<longleftrightarrow> (\<forall>src ty. newest_first e src ty (group_of adj (src, ty)))"
proof
  assume "index_exact e adj"
  then show "\<forall>src ty. newest_first e src ty (group_of adj (src, ty))"
    using scan_newest_first [OF inv] unfolding index_exact_def by metis
next
  assume new: "\<forall>src ty. newest_first e src ty (group_of adj (src, ty))"
  obtain edges where edges: "scan_edges (current_snapshot e) e = Inr edges" by (rule scan_run [OF inv])
  have "group_of adj (src, ty) = group_of (build_adjacency_from_edges edges) (src, ty)" for src ty
    using newest_first_unique [OF inv] new scan_newest_first [OF inv edges] by blast
  then show "index_exact e adj" unfolding index_exact_def using edges by auto
qed

lemma newest_first_bounds:
  assumes inv: "engine_inv e" and ds: "newest_first e src ty ds"
  shows "distinct ds" "length ds \<le> unat (en_ts e) + 1"
proof -
  obtain ps where ps: "ds = map fst ps" "set ps = edge_pairs e src ty" "sorted_wrt (\<lambda>p q. snd q < snd p) ps"
    using ds unfolding newest_first_def by blast
  have "sorted_wrt (\<lambda>p q. p \<noteq> q) ps" by (rule sorted_wrt_mono_rel [OF _ ps(3)]) auto
  then have "distinct ps" by (simp add: distinct_conv_nth sorted_wrt_iff_nth_less) (metis linorder_neqE_nat)
  moreover have "inj_on fst (set ps)"
    using edge_pairs_facts(3) [OF inv, of _ _ src ty] unfolding ps(2) inj_on_def by auto
  ultimately show "distinct ds" by (simp add: ps(1) distinct_map)
  have "inj_on (\<lambda>p. unat (snd p)) (set ps)"
    using edge_pairs_facts(4) [OF inv, of src ty] unfolding ps(2) inj_on_def word_unat_eq_iff by simp
  moreover have "(\<lambda>p. unat (snd p)) ` set ps \<subseteq> {0..unat (en_ts e)}"
    using edge_pairs_facts(2) [OF inv, of _ _ src ty] unfolding ps(2) by (auto simp: word_le_nat_alt)
  ultimately have "card (set ps) \<le> card {0..unat (en_ts e)}" by (intro card_inj_on_le) auto
  then show "length ds \<le> unat (en_ts e) + 1" using \<open>distinct ps\<close> by (simp add: ps(1) distinct_card)
qed

lemma agrees_loaded:
  assumes inv: "engine_inv e" and adj: "hm_inv adj" "index_exact e adj"
  shows "agrees None (ab_from_adjacency adj (current_snapshot e)) e"
proof -
  have new: "newest_first e src ty (group_of adj (src, ty))" for src ty
    using adj(2) exact_newest [OF inv] by blast
  note bounds = newest_first_bounds [OF inv new]
  have "length (group_of adj k) \<le> unat (en_ts e) + 1" "distinct (group_of adj k)" for k
    using bounds by (cases k, simp)+
  note aged = aged_facts [OF this]
  show ?thesis
    unfolding agrees_def from_adjacency(2) [OF adj(1)] current_snapshot_def since_None
    using from_adjacency(1) [OF adj(1)] aged new by simp
qed

lemma rfold_keeps:
  "rfold f xs s = Inr s' \<Longrightarrow> P s \<Longrightarrow> (\<And>x s s'. P s \<Longrightarrow> f x s = Inr s' \<Longrightarrow> P s') \<Longrightarrow> P s'"
proof (induction xs arbitrary: s)
  case (Cons x xs)
  then show ?case by (auto simp: rbind_Inr_iff)
qed simp

lemma loaded_hm_inv: "load_adjacency_cache path fs = Inr adj \<Longrightarrow> hm_inv adj"
  unfolding load_adjacency_cache_def
  by (auto simp: rbind_Inr_iff Let_def hm.inv_empty hm.inv_ins split: option.splits if_splits prod.splits
      elim!: rfold_keeps)

text \<open>The cache at a path lists the edges written since a start, newest first, or all of them.\<close>

definition cache_since :: "start \<Rightarrow> string \<Rightarrow> loader \<Rightarrow> bool" where
  "cache_since st path s \<longleftrightarrow>
     (\<exists>adj. load_adjacency_cache path (ss_files (ld_store s)) = Inr adj \<and>
        (\<forall>k. group_of adj k = group_of (fst (ab_build (ld_adjacency s))) k) \<and>
        engine_inv (ld_engine s) \<and> keeps_held st (ld_engine s) \<and>
        (\<forall>src ty. newest_since st (ld_engine s) src ty (group_of adj (src, ty))))"

definition cache_exact :: "string \<Rightarrow> loader \<Rightarrow> bool" where
  "cache_exact path s \<longleftrightarrow>
     (\<exists>adj. load_adjacency_cache path (ss_files (ld_store s)) = Inr adj \<and> index_exact (ld_engine s) adj)"

lemma cache_since_exact: "cache_since None path s \<Longrightarrow> cache_exact path s"
  using exact_newest unfolding cache_since_def cache_exact_def since_None by metis

lemma finish_run:
  assumes course: "on_course st cfg n base s" and room: "base + ab_directed_edges (ld_adjacency s) < 2 ^ 30"
  obtains s' where "finish_import path s = (s', Inr (ld_stats s))" "ld_adjacency s' = ld_adjacency s"
    "cache_since st path s'"
proof -
  let ?adj = "fst (ab_build (ld_adjacency s))"
  obtain h where h: "length h < 2 ^ 30" "tracks cfg n h (ld_engine s)" and n: "n \<le> 2 ^ 62"
    and b: "agrees st (ld_adjacency s) (ld_engine s)"
    using course room by (force simp: on_course_def Let_def)
  have inv: "engine_inv (ld_engine s)" using h(2) by (simp add: tracks_def)
  obtain e' where e': "flush_active (ld_engine s) = (e', Inr ())" "same_now (ld_engine s) e'"
    by (rule flush_active_run [OF inv tracks_small [OF h(2,1) n]])
  have ab: "ab_inv (ld_adjacency s)" using b by (simp add: agrees_def)
  note bounds = build_bounds [OF ab]
  have "length ?adj < 2 ^ 64" "sum_list (map (\<lambda>(_, dsts). length dsts) ?adj) < 2 ^ 64"
    using bounds(2,3) room by simp_all
  from cache_reads_back [OF bounds(1) this, of path "ss_files (ld_store s)"]
  obtain fs' written adj where fs': "write_adjacency_cache_atomic path ?adj (ss_files (ld_store s)) = (fs', Inr written)"
    "load_adjacency_cache path fs' = Inr adj" "\<forall>k. hm_get adj k = hm_get ?adj k"
    by blast
  let ?s = "s\<lparr>ld_engine := e', ld_store := (ld_store s)\<lparr>ss_files := fs'\<rparr>\<rparr>"
  have run: "finish_import path s = (?s, Inr (ld_stats s))"
    using e'(1) fs'(1)
    by (simp add: finish_import_def on_engine_def on_store_def on_files_def sbind_def sreturn_def)
  have b': "agrees st (ld_adjacency s) e'" by (rule agrees_same_now [OF e'(2) b])
  have groups: "group_of adj k = group_of ?adj k" for k using fs'(3) [rule_format, of k] by (simp add: group_of_def)
  have "newest_since st e' src ty (group_of adj (src, ty))" for src ty
    using agrees_build [OF b'] by (simp add: groups)
  moreover have "engine_inv e'" using e'(2) by (simp add: same_now_def)
  moreover have "keeps_held st e'" using b' by (simp add: agrees_def)
  ultimately have "cache_since st path ?s" using fs'(2) groups by (simp add: cache_since_def)
  then show thesis using run by (intro that) simp_all
qed

definition ensures :: "('s \<Rightarrow> bool) \<Rightarrow> ('a \<Rightarrow> 's \<Rightarrow> bool) \<Rightarrow> ('s, 'a) st \<Rightarrow> bool" where
  "ensures Q P m \<longleftrightarrow> (\<forall>s s' x. Q s \<longrightarrow> m s = (s', Inr x) \<longrightarrow> P x s')"

lemma ensures_bind:
  "ensures Q R m \<Longrightarrow> (\<And>x. ensures (R x) P (f x)) \<Longrightarrow> ensures Q P (sbind m f)"
  unfolding ensures_def sbind_Inr_iff by blast

lemma ensures_keeps: "preserves I m \<Longrightarrow> ensures I (\<lambda>_. I) m"
  unfolding ensures_def preserves_def by blast

lemmas ensures_step = ensures_bind [OF ensures_keeps]

lemma finish_ensures:
  "ensures (on_course st cfg n base)
     (\<lambda>_ s. base + ab_directed_edges (ld_adjacency s) < 2 ^ 30 \<longrightarrow> cache_since st path s) (finish_import path)"
  unfolding ensures_def
proof (intro allI impI)
  fix s s' x
  assume I: "on_course st cfg n base s" and run: "finish_import path s = (s', Inr x)"
    and c: "base + ab_directed_edges (ld_adjacency s') < 2 ^ 30"
  have "ld_adjacency s' = ld_adjacency s"
    using run by (auto simp: finish_import_def on_engine_def on_store_def on_files_def sbind_def sreturn_def
        split: prod.splits sum.splits)
  then show "cache_since st path s'" using finish_run [OF I, of path] run c by auto
qed

subsection \<open>Imports that return\<close>

definition returns :: "('s \<Rightarrow> bool) \<Rightarrow> ('a \<Rightarrow> 's \<Rightarrow> bool) \<Rightarrow> ('s, 'a) st \<Rightarrow> bool" where
  "returns Q P m \<longleftrightarrow> (\<forall>s. Q s \<longrightarrow> (\<exists>s' x. m s = (s', Inr x) \<and> P x s'))"

lemma returns_bind:
  "returns Q R m \<Longrightarrow> (\<And>x. returns (R x) P (f x)) \<Longrightarrow> returns Q P (sbind m f)"
  unfolding returns_def sbind_def by fastforce

lemma returns_pure: "(\<And>s. Q s \<Longrightarrow> P x s) \<Longrightarrow> returns Q P (sreturn x)"
  by (simp add: returns_def sreturn_def)

lemma returns_slift: "r = Inr x \<Longrightarrow> (\<And>s. Q s \<Longrightarrow> P x s) \<Longrightarrow> returns Q P (slift r)"
  by (simp add: returns_def slift_def)

lemma returns_weaken: "returns Q P m \<Longrightarrow> (\<And>x s. P x s \<Longrightarrow> P' x s) \<Longrightarrow> returns Q P' m"
  unfolding returns_def by blast

text \<open>The state while tables are read: at most so many edges recorded, the files untouched.\<close>

definition reading :: "start \<Rightarrow> lsm_config \<Rightarrow> nat \<Rightarrow> nat \<Rightarrow> file_system \<Rightarrow> nat \<Rightarrow> loader \<Rightarrow> bool" where
  "reading st cfg n base fs c s \<longleftrightarrow>
     on_course st cfg n base s \<and> base + ab_directed_edges (ld_adjacency s) \<le> c \<and> ss_files (ld_store s) = fs"

lemma reading_mono: "reading st cfg n base fs c s \<Longrightarrow> c \<le> c' \<Longrightarrow> reading st cfg n base fs c' s"
  by (simp add: reading_def)

lemma returns_text:
  "returns (reading st cfg n base fs c) (\<lambda>_. reading st cfg n base fs c) (append_line path l)"
  "returns (reading st cfg n base fs c) (\<lambda>_. reading st cfg n base fs c) (write_vertex env out vid data)"
  "returns (reading st cfg n base fs c) (\<lambda>_. reading st cfg n base fs c) (write_edge_prop env out src dst ty p)"
  "returns (reading st cfg n base fs c) (\<lambda>_. reading st cfg n base fs c) (add_stats other)"
  by (auto simp: returns_def reading_def on_course_def append_line_def on_store_def supdate_def add_stats_def
      write_vertex_def write_edge_prop_def sreturn_def)

lemma returns_insert:
  assumes "c + 1 < 2 ^ 30"
  shows "returns (reading st cfg n base fs c) (\<lambda>_. reading st cfg n base fs (c + 1)) (insert_recorded src dst ty)"
  unfolding returns_def
proof (intro allI impI)
  fix s assume s: "reading st cfg n base fs c s"
  then obtain h where h: "length h < 2 ^ 30" "tracks cfg n h (ld_engine s)" and n: "n \<le> 2 ^ 62"
    using assms by (force simp: reading_def on_course_def Let_def)
  obtain e' where e': "insert_edge src dst ty (ld_engine s) = (e', Inr (en_ts (ld_engine s) + 1))"
    by (rule insert_tracked [OF h(2,1) n])
  let ?s = "s\<lparr>ld_engine := e', ld_adjacency := ab_record_edge src ty dst (en_ts (ld_engine s) + 1) (ld_adjacency s)\<rparr>"
  have run: "insert_recorded src dst ty s = (?s, Inr ())"
    using e' by (simp add: insert_recorded_def on_engine_def sbind_def supdate_def)
  moreover have "on_course st cfg n base ?s"
    using preserves_run [OF course.insertion _ run] s by (simp add: reading_def)
  ultimately show "\<exists>s' x. insert_recorded src dst ty s = (s', Inr x) \<and> reading st cfg n base fs (c + 1) s'"
    using s by (auto simp: reading_def ab_record_edge_def)
qed

lemma returns_forward_reverse:
  assumes "c + 2 < 2 ^ 30"
  shows "returns (reading st cfg n base fs c) (\<lambda>_. reading st cfg n base fs (c + 2))
    (insert_forward_reverse env out src dst label p both)"
proof -
  have c: "c + 1 < 2 ^ 30" "c + 1 + 1 < 2 ^ 30" using assms by simp_all
  have last: "returns (reading st cfg n base fs (c + 1)) (\<lambda>_. reading st cfg n base fs (c + 2))
      (if both then sbind (insert_recorded dst src (- edge_label_i32 label))
         (\<lambda>_. write_edge_prop env out dst src (- edge_label_i32 label) p) else sreturn ())"
    using returns_bind [OF returns_insert [OF c(2)] returns_text(3)]
    by (auto intro!: returns_pure elim: reading_mono simp: add.assoc)
  show ?thesis
    unfolding insert_forward_reverse_def Let_def
    by (rule returns_bind [OF returns_insert [OF c(1)]], rule returns_bind [OF returns_text(3) last])
qed

lemma returns_forward:
  assumes "c + 3 < 2 ^ 30"
  shows "returns (reading st cfg n base fs (c + 2)) (\<lambda>_. reading st cfg n base fs (c + 3))
    (insert_forward_reverse env out src dst label p False)"
proof -
  have c: "c + 2 + 1 < 2 ^ 30" using assms by simp
  have "returns (reading st cfg n base fs (c + 2)) (\<lambda>_. reading st cfg n base fs (c + 2 + 1))
      (insert_forward_reverse env out src dst label p False)"
    unfolding insert_forward_reverse_def Let_def if_False
    by (intro returns_bind [OF returns_insert [OF c]] returns_bind [OF returns_text(3)] returns_pure)
  then show ?thesis by (simp add: numeral_3_eq_3)
qed

lemma returns_sfor:
  assumes "\<And>x acc c. x \<in> set xs \<Longrightarrow> c + w x < B \<Longrightarrow>
      returns (reading st cfg n base fs c) (\<lambda>_. reading st cfg n base fs (c + w x)) (f x acc)"
    and "c + sum_list (map w xs) < B"
  shows "returns (reading st cfg n base fs c) (\<lambda>_. reading st cfg n base fs (c + sum_list (map w xs))) (sfor f xs acc)"
  using assms
proof (induction xs arbitrary: c acc)
  case Nil
  then show ?case by (auto intro!: returns_pure)
next
  case (Cons x xs)
  have "returns (reading st cfg n base fs (c + w x)) (\<lambda>_. reading st cfg n base fs (c + w x + sum_list (map w xs)))
      (sfor f xs acc)" for acc
    by (rule Cons.IH) (use Cons.prems in auto)
  moreover have "returns (reading st cfg n base fs c) (\<lambda>_. reading st cfg n base fs (c + w x)) (f x acc)"
    by (rule Cons.prems(1)) (use Cons.prems(2) in auto)
  ultimately have "returns (reading st cfg n base fs c) (\<lambda>_. reading st cfg n base fs (c + w x + sum_list (map w xs)))
      (sbind (f x acc) (sfor f xs))"
    by (intro returns_bind)
  then show ?case by (simp add: add.assoc)
qed

lemma returns_sdo:
  assumes "\<And>x c. x \<in> set xs \<Longrightarrow> c + w x < B \<Longrightarrow>
      returns (reading st cfg n base fs c) (\<lambda>_. reading st cfg n base fs (c + w x)) (f x)"
    and "c + sum_list (map w xs) < B"
  shows "returns (reading st cfg n base fs c) (\<lambda>_. reading st cfg n base fs (c + sum_list (map w xs))) (sdo f xs)"
  unfolding sdo_def by (rule returns_sfor) (use assms in auto)

text \<open>A table that can be read: it is there, every record is one, and a body accepts it.\<close>

definition table_ok ::
  "loader_env \<Rightarrow> file_system \<Rightarrow> string \<Rightarrow> (string list \<Rightarrow> string list \<Rightarrow> bool) \<Rightarrow> bool"
where
  "table_ok env fs path P \<longleftrightarrow> (case fs path of None \<Rightarrow> False | Some bs \<Rightarrow>
     (case le_csv env bs of Inl _ \<Rightarrow> False
      | Inr (headers, rs) \<Rightarrow> (\<forall>r \<in> set rs. case r of Inl _ \<Rightarrow> False | Inr r \<Rightarrow> P headers r)))"

definition table_length :: "loader_env \<Rightarrow> file_system \<Rightarrow> string \<Rightarrow> nat" where
  "table_length env fs path = (case fs path of None \<Rightarrow> 0 | Some bs \<Rightarrow>
     (case le_csv env bs of Inl _ \<Rightarrow> 0 | Inr (headers, rs) \<Rightarrow> length rs))"

definition is_ok :: "'a res \<Rightarrow> bool" where
  "is_ok r = (case r of Inl _ \<Rightarrow> False | Inr _ \<Rightarrow> True)"

lemma is_ok_iff: "is_ok r \<longleftrightarrow> (\<exists>x. r = Inr x)"
  by (cases r) (simp_all add: is_ok_def)

definition edge_row_ok ::
  "vertex_label \<Rightarrow> vertex_label \<Rightarrow> col_ref \<Rightarrow> col_ref \<Rightarrow> prop_spec \<Rightarrow> string list \<Rightarrow> string list \<Rightarrow> bool"
where
  "edge_row_ok sl dl sc dc p h r \<longleftrightarrow> (case edge_ends sl dl sc dc h r of Inl _ \<Rightarrow> False | Inr None \<Rightarrow> True
     | Inr (Some _) \<Rightarrow> is_ok (prop_read p r))"

lemma returns_table:
  assumes ok: "table_ok env fs path P" and room: "c + k * table_length env fs path < B"
    and body: "\<And>h r acc c. P h r \<Longrightarrow> c + k < B \<Longrightarrow>
      returns (reading st cfg n base fs c) (\<lambda>_. reading st cfg n base fs (c + k)) (f h r acc)"
  shows "returns (reading st cfg n base fs c) (\<lambda>_. reading st cfg n base fs (c + k * table_length env fs path))
    (csv_each env path f acc)"
proof -
  obtain bs h rs where t: "fs path = Some bs" "le_csv env bs = Inr (h, rs)"
    "\<forall>r \<in> set rs. case r of Inl _ \<Rightarrow> False | Inr r \<Rightarrow> P h r"
    using ok by (auto simp: table_ok_def split: option.splits sum.splits)
  have len: "table_length env fs path = length rs" by (simp add: table_length_def t)
  have loop: "returns (reading st cfg n base fs c) (\<lambda>_. reading st cfg n base fs (c + sum_list (map (\<lambda>_. k) rs)))
      (sfor (\<lambda>r acc. sbind (slift r) (\<lambda>r. f h r acc)) rs acc)"
  proof (rule returns_sfor)
    show "c + sum_list (map (\<lambda>_. k) rs) < B" using room by (simp add: len sum_list_triv mult.commute)
    fix x acc c assume x: "x \<in> set rs" and c: "c + k < B"
    then have "case x of Inl _ \<Rightarrow> False | Inr r \<Rightarrow> P h r" using t(3) by blast
    then obtain r where r: "x = Inr r" "P h r" by (cases x) auto
    show "returns (reading st cfg n base fs c) (\<lambda>_. reading st cfg n base fs (c + k)) (sbind (slift x) (\<lambda>r. f h r acc))"
      using body [OF r(2) c] by (simp add: r(1) returns_def sbind_def slift_def)
  qed
  have "sum_list (map (\<lambda>_. k) rs) = k * table_length env fs path"
    by (simp add: len sum_list_triv mult.commute)
  then show ?thesis
    using loop unfolding csv_each_def
    by (auto simp: returns_def reading_def t sbind_def sreads_def)
qed

lemma returns_vertex_file:
  assumes "table_ok env fs path (\<lambda>h r. is_ok (build h r))" "c < B"
  shows "returns (reading st cfg n base fs c) (\<lambda>_. reading st cfg n base fs c) (import_vertex_file env path out label build)"
proof -
  have "returns (reading st cfg n base fs c) (\<lambda>_. reading st cfg n base fs (c + 0 * table_length env fs path))
      (import_vertex_file env path out label build)"
    unfolding import_vertex_file_def
  proof (rule returns_table [OF assms(1), where B = B])
    show "c + 0 * table_length env fs path < B" using assms(2) by simp
    fix h r acc c assume "is_ok (build h r)"
    then obtain data where d: "build h r = Inr data" by (auto simp: is_ok_iff)
    show "returns (reading st cfg n base fs c) (\<lambda>_. reading st cfg n base fs (c + 0))
        (sbind (slift (build h r)) (\<lambda>data. write_vertex env out (encode_vid label (data_external_id data)) data))"
      using returns_text(2) by (simp add: d returns_def sbind_def slift_def)
  qed
  then show ?thesis by simp
qed

lemma returns_edge_file:
  assumes "table_ok env fs path (edge_row_ok sl dl sc dc p)" "c + 3 * table_length env fs path < 2 ^ 30"
  shows "returns (reading st cfg n base fs c) (\<lambda>_. reading st cfg n base fs (c + 3 * table_length env fs path))
    (import_edge_file env out path sl dl label both sc dc p)"
  unfolding import_edge_file_def Let_def
proof (rule returns_table [OF assms])
  fix h r and acc :: import_stats and c
  assume ok: "edge_row_ok sl dl sc dc p h r" and c: "c + 3 < (2 ^ 30 :: nat)"
  let ?stats = "acc\<lparr>is_input_rows := is_input_rows acc + 1\<rparr>"
  let ?J = "reading st cfg n base fs"
  show "returns (?J c) (\<lambda>_. ?J (c + 3))
     (sbind (slift (edge_ends sl dl sc dc h r)) (\<lambda>ends. case ends of None \<Rightarrow> sreturn ?stats
        | Some (src, dst) \<Rightarrow> sbind (slift (prop_read p r)) (\<lambda>prop_value.
            sbind (insert_forward_reverse env out src dst label prop_value True) (\<lambda>_.
            if both then sbind (insert_forward_reverse env out dst src label prop_value False)
                (\<lambda>_. sreturn (?stats\<lparr>is_directed_edges := is_directed_edges ?stats + 3\<rparr>))
            else sreturn (?stats\<lparr>is_directed_edges := is_directed_edges ?stats + 2\<rparr>)))))"
  proof (cases "edge_ends sl dl sc dc h r")
    case (Inr ends)
    show ?thesis
    proof (cases ends)
      case None
      then show ?thesis using Inr by (auto simp: returns_def sbind_def slift_def sreturn_def elim: reading_mono)
    next
      case (Some e)
      obtain src dst where e: "e = (src, dst)" by (cases e)
      obtain v where v: "prop_read p r = Inr v" using ok Inr Some by (auto simp: edge_row_ok_def is_ok_iff)
      have two: "c + 2 < 2 ^ 30" using c by simp
      have rest: "returns (?J (c + 2)) (\<lambda>_. ?J (c + 3))
          (if both then sbind (insert_forward_reverse env out dst src label v False)
                (\<lambda>_. sreturn (?stats\<lparr>is_directed_edges := is_directed_edges ?stats + 3\<rparr>))
            else sreturn (?stats\<lparr>is_directed_edges := is_directed_edges ?stats + 2\<rparr>))"
        using returns_forward [OF c] by (auto intro!: returns_bind returns_pure elim: reading_mono)
      have "returns (?J c) (\<lambda>_. ?J (c + 3)) (sbind (insert_forward_reverse env out src dst label v True) (\<lambda>_.
            if both then sbind (insert_forward_reverse env out dst src label v False)
                (\<lambda>_. sreturn (?stats\<lparr>is_directed_edges := is_directed_edges ?stats + 3\<rparr>))
            else sreturn (?stats\<lparr>is_directed_edges := is_directed_edges ?stats + 2\<rparr>)))"
        by (rule returns_bind [OF returns_forward_reverse [OF two] rest])
      then show ?thesis using Inr Some e v by (simp add: returns_def sbind_def slift_def)
    qed
  qed (use ok in \<open>simp add: edge_row_ok_def\<close>)
qed

subsection \<open>Importing the tables\<close>

definition data_ok :: "loader_env \<Rightarrow> file_system \<Rightarrow> string \<Rightarrow> bool" where
  "data_ok env fs csv_root \<longleftrightarrow>
     (let dynamic = join_path csv_root ''dynamic''; static_dir = join_path csv_root ''static''
      in (\<forall>(path, label, build) \<in> set (vertex_tables csv_root). table_ok env fs path (\<lambda>h r. is_ok (build h r))) \<and>
         (\<forall>(name, sl, dl, label, both, p) \<in> set edge_tables.
            table_ok env fs (join_path dynamic name) (edge_row_ok sl dl (Col_index 0) (Col_index 1) p)) \<and>
         (\<forall>e \<in> set (named_edges dynamic static_dir).
            table_ok env fs (ne_path e) (edge_row_ok (ne_src_label e) (ne_dst_label e) (Col_name (ne_src_col e))
              (Col_name (ne_dst_col e)) Prop_none)))"

text \<open>The records of the tables of edges: each adds at most three edges.\<close>

definition data_rows :: "loader_env \<Rightarrow> file_system \<Rightarrow> string \<Rightarrow> nat" where
  "data_rows env fs csv_root =
     (let dynamic = join_path csv_root ''dynamic''; static_dir = join_path csv_root ''static''
      in sum_list (map (\<lambda>(name, _). table_length env fs (join_path dynamic name)) edge_tables) +
         sum_list (map (\<lambda>e. table_length env fs (ne_path e)) (named_edges dynamic static_dir)))"

lemma returns_stats:
  "returns Q (\<lambda>_. reading st cfg n base fs c) m \<Longrightarrow> returns Q (\<lambda>_. reading st cfg n base fs c) (sbind m add_stats)"
  by (rule returns_bind) (auto intro: returns_text)

lemma returns_import:
  assumes n: "unat n < 2 ^ 62" and ok: "data_ok env fs csv_root" and room: "3 * data_rows env fs csv_root < 2 ^ 30"
  shows "returns (\<lambda>s. engine_create cfg n disk = (ld_engine s, Inr ()) \<and> ss_files (ld_store s) = fs)
    (\<lambda>_. cache_exact (adjacency_file store_dir)) (import_snb_full env csv_root store_dir)"
proof -
  let ?Q = "\<lambda>s :: loader. engine_create cfg n disk = (ld_engine s, Inr ()) \<and> ss_files (ld_store s) = fs"
  let ?J = "reading None cfg (Suc (unat n)) 0 fs"
  let ?dynamic = "join_path csv_root ''dynamic''" and ?static = "join_path csv_root ''static''"
  let ?edges = "\<lambda>(name, _). 3 * table_length env fs (join_path ?dynamic name)"
  let ?named = "\<lambda>e. 3 * table_length env fs (ne_path e)"
  have create: "returns ?Q (\<lambda>_. ?Q) (create_text path)" for path
    by (auto simp: returns_def create_text_def on_store_def supdate_def)
  have start: "returns ?Q (\<lambda>_. ?J 0) (supdate (\<lambda>s. s\<lparr>ld_stats := no_stats, ld_adjacency := ab_default\<rparr>))"
    unfolding returns_def
  proof (intro allI impI)
    fix s :: loader
    assume s: "?Q s"
    obtain e0 e where e: "engine_create cfg n disk = (e0, Inr ())" "run_ops [] e0 = (e, Inr ())"
      "tracks cfg (Suc (unat n)) [] e"
      by (rule created_run [of "[]" n cfg disk]) (use n in simp_all)
    have "records (ld_engine s) = {}"
      by (rule engine_create_run [of n cfg disk]) (use s n in auto)
    then show "\<exists>s' x. supdate (\<lambda>s. s\<lparr>ld_stats := no_stats, ld_adjacency := ab_default\<rparr>) s = (s', Inr x) \<and> ?J 0 s'"
      using e s n agrees_fresh
      by (auto simp: reading_def on_course_def Let_def ab_default_def sreturn_def supdate_def)
  qed
  have vertices: "returns (?J 0) (\<lambda>_. ?J 0) (import_vertices env csv_root out)" for out
  proof -
    have "returns (?J 0) (\<lambda>_. ?J (0 + sum_list (map (\<lambda>_. 0) (vertex_tables csv_root)))) (import_vertices env csv_root out)"
      unfolding import_vertices_def
      by (rule returns_sdo [where B = 1])
        (use ok returns_vertex_file in \<open>fastforce simp: data_ok_def Let_def\<close>)+
    then show ?thesis by simp
  qed
  have total: "sum_list (map ?edges edge_tables) + sum_list (map ?named (named_edges ?dynamic ?static)) < 2 ^ 30"
  proof -
    have e: "?edges = (\<lambda>x. 3 * (case x of (name, _) \<Rightarrow> table_length env fs (join_path ?dynamic name)))" by auto
    show ?thesis unfolding e sum_list_const_mult using room by (simp add: data_rows_def Let_def)
  qed
  have edges: "returns (?J 0) (\<lambda>_. ?J (0 + sum_list (map ?edges edge_tables)))
      (sdo (\<lambda>(name, src, dst, label, bidirectional, p).
         sbind (import_edge_file env out (join_path ?dynamic name) src dst label bidirectional
           (Col_index 0) (Col_index 1) p) add_stats) edge_tables)" for out
  proof (rule returns_sdo [where B = "2 ^ 30"])
    fix x c assume x: "x \<in> set edge_tables" and c: "c + ?edges x < 2 ^ 30"
    obtain name sl dl label both p where e: "x = (name, sl, dl, label, both, p)" by (cases x)
    have "\<forall>(name, sl, dl, label, both, p) \<in> set edge_tables.
        table_ok env fs (join_path ?dynamic name) (edge_row_ok sl dl (Col_index 0) (Col_index 1) p)"
      using ok unfolding data_ok_def Let_def by blast
    then have "table_ok env fs (join_path ?dynamic name) (edge_row_ok sl dl (Col_index 0) (Col_index 1) p)"
      using x e by blast
    then show "returns (?J c) (\<lambda>_. ?J (c + ?edges x))
        (case x of (name, src, dst, label, bidirectional, p) \<Rightarrow>
           sbind (import_edge_file env out (join_path ?dynamic name) src dst label bidirectional
             (Col_index 0) (Col_index 1) p) add_stats)"
      using c unfolding e prod.case by (intro returns_stats returns_edge_file)
  qed (use total in simp)
  have named: "returns (?J (0 + sum_list (map ?edges edge_tables)))
      (\<lambda>_. ?J (0 + sum_list (map ?edges edge_tables) + sum_list (map ?named (named_edges ?dynamic ?static))))
      (sdo (\<lambda>spec. sbind (import_named_edge env out spec) add_stats) (named_edges ?dynamic ?static))" for out
  proof (rule returns_sdo [where B = "2 ^ 30"])
    fix x c assume x: "x \<in> set (named_edges ?dynamic ?static)" and c: "c + ?named x < 2 ^ 30"
    have "table_ok env fs (ne_path x) (edge_row_ok (ne_src_label x) (ne_dst_label x) (Col_name (ne_src_col x))
        (Col_name (ne_dst_col x)) Prop_none)"
      using ok x unfolding data_ok_def Let_def by blast
    then show "returns (?J c) (\<lambda>_. ?J (c + ?named x)) (sbind (import_named_edge env out x) add_stats)"
      unfolding import_named_edge_def using c by (intro returns_stats returns_edge_file)
  qed (use total in simp)
  have finish: "returns (?J (0 + sum_list (map ?edges edge_tables) + sum_list (map ?named (named_edges ?dynamic ?static))))
      (\<lambda>_. cache_exact path) (finish_import path)" for path
    unfolding returns_def
  proof (intro allI impI)
    fix s assume "?J (0 + sum_list (map ?edges edge_tables) + sum_list (map ?named (named_edges ?dynamic ?static))) s"
    then have "on_course None cfg (Suc (unat n)) 0 s" "0 + ab_directed_edges (ld_adjacency s) < 2 ^ 30"
      using total by (auto simp: reading_def)
    then show "\<exists>s' x. finish_import path s = (s', Inr x) \<and> cache_exact path s'"
      by (rule finish_run [of _ _ _ _ _ path]) (blast intro: cache_since_exact)
  qed
  show ?thesis
    unfolding import_snb_full_def Let_def
    by (intro returns_bind [OF create] returns_bind [OF start] returns_bind [OF vertices]
        returns_bind [OF edges] returns_bind [OF named] finish)
qed

text \<open>C33. An import of well-formed tables into a new engine returns and leaves an adjacency cache that
  reads back and is exact: for every source and edge type it lists what a rebuild from a scan of the
  engine would, the most recently written first.\<close>

theorem full_import_exact:
  assumes "engine_create cfg n disk = (ld_engine s, Inr ())" "unat n < 2 ^ 62"
    and "data_ok env (ss_files (ld_store s)) csv_root" "3 * data_rows env (ss_files (ld_store s)) csv_root < 2 ^ 30"
  shows "\<exists>s' stats adj. import_snb_full env csv_root store_dir s = (s', Inr stats) \<and>
    load_adjacency_cache (adjacency_file store_dir) (ss_files (ld_store s')) = Inr adj \<and>
    index_exact (ld_engine s') adj"
  using returns_import [OF assms(2-4), of cfg disk store_dir] assms(1)
  unfolding returns_def cache_exact_def by auto

text \<open>A data set of one friendship.\<close>

definition knows_env :: loader_env where
  "knows_env = \<lparr>le_csv = (\<lambda>bs. if bs = [] then Inr ([''id''], [])
       else Inr ([''Person.id'', ''Person.id'', ''creationDate''], [Inr [''1'', ''2'', ''77'']])),
     le_json = \<lparr>rj_vertex = (\<lambda>_. ''v''), rj_edge = (\<lambda>_. ''e''),
       rj_parse_vertex = (\<lambda>_. Inl (Parse_error '''')), rj_parse_edge = (\<lambda>_. Inl (Parse_error ''''))\<rparr>,
     le_read_dir = (\<lambda>_. Inr [Inr ''updateStream_0_0_person.csv'', Inr ''notes.txt''])\<rparr>"

definition knows_files :: file_system where
  "knows_files path = (if path = ''data/dynamic/person_knows_person_0_0.csv'' then Some [1] else Some [])"

definition knows_loader :: "engine \<Rightarrow> loader" where
  "knows_loader e = \<lparr>ld_engine = e, ld_store = \<lparr>ss_text = (\<lambda>_. None), ss_files = knows_files\<rparr>,
     ld_adjacency = ab_default, ld_stats = no_stats\<rparr>"

lemma knows_tables:
  "table_ok knows_env knows_files path P \<longleftrightarrow> (path = ''data/dynamic/person_knows_person_0_0.csv'' \<longrightarrow>
     P [''Person.id'', ''Person.id'', ''creationDate''] [''1'', ''2'', ''77''])"
  "table_length knows_env knows_files path = (if path = ''data/dynamic/person_knows_person_0_0.csv'' then 1 else 0)"
  by (simp_all add: table_ok_def table_length_def knows_env_def knows_files_def)

lemma knows_data:
  "data_ok knows_env knows_files ''data''" "data_rows knows_env knows_files ''data'' = 1"
proof -
  have "edge_row_ok Person Person (Col_index 0) (Col_index 1) (Prop_i64_col 2)
      [''Person.id'', ''Person.id'', ''creationDate''] [''1'', ''2'', ''77'']"
    by (simp add: edge_row_ok_def edge_ends_def get_or_empty_def parse_optional_i64_def trim_def is_space_def
        parse_i64_str_def parse_int_def digits_value_def digit_value_def is_digit_def is_ok_def rec_index_def Let_def)
  then show "data_ok knows_env knows_files ''data''" "data_rows knows_env knows_files ''data'' = 1"
    by (simp_all add: data_ok_def data_rows_def knows_tables vertex_tables_def edge_tables_def named_edges_def
        join_path_def Let_def)
qed

theorem full_import_exact_witness:
  "\<exists>e0 s' stats adj. engine_create (config_new ''db'') 1 (\<lambda>_. None, None) = (e0, Inr ()) \<and>
    import_snb_full knows_env ''data'' ''store'' (knows_loader e0) = (s', Inr stats) \<and>
    load_adjacency_cache ''store/snb_adjacency.bin'' (ss_files (ld_store s')) = Inr adj \<and>
    index_exact (ld_engine s') adj"
proof -
  obtain e0 where e0: "engine_create (config_new ''db'') 1 (\<lambda>_. None, None) = (e0, Inr ())"
    by (rule engine_create_run [of 1]) simp_all
  then have "engine_create (config_new ''db'') 1 (\<lambda>_. None, None) = (ld_engine (knows_loader e0), Inr ())"
    by (simp add: knows_loader_def)
  from full_import_exact [OF this, of knows_env "''data''" "''store''"] show ?thesis
    using e0 knows_data by (auto simp: knows_loader_def join_path_def)
qed

subsection \<open>Importing update streams\<close>

text \<open>The builder an import of updates starts from: the cache, if there is one.\<close>

definition start_builder :: "string \<Rightarrow> file_system \<Rightarrow> engine \<Rightarrow> adjacency_builder res" where
  "start_builder path fs e =
     (if fs path \<noteq> None then
        rbind (load_adjacency_cache path fs) (\<lambda>adj. Inr (ab_from_adjacency adj (current_snapshot e)))
      else Inr ab_default)"

lemma start_builder_cached:
  assumes "engine_inv e" "load_adjacency_cache path fs = Inr adj" "index_exact e adj"
  shows "start_builder path fs e = Inr (ab_from_adjacency adj (current_snapshot e))"
    "agrees None (ab_from_adjacency adj (current_snapshot e)) e"
proof -
  have "fs path \<noteq> None"
    using assms(2) by (cases "fs path") (simp_all add: load_adjacency_cache_def)
  then show "start_builder path fs e = Inr (ab_from_adjacency adj (current_snapshot e))"
    using assms(2) by (simp add: start_builder_def)
  show "agrees None (ab_from_adjacency adj (current_snapshot e)) e"
    by (rule agrees_loaded [OF assms(1) loaded_hm_inv [OF assms(2)] assms(3)])
qed

lemma start_builder_missing: "fs path = None \<Longrightarrow> start_builder path fs e = Inr ab_default"
  by (simp add: start_builder_def)

lemma updates_ensures:
  assumes tr: "tracks cfg n h e" "n \<le> 2 ^ 62"
    and b: "start_builder (adjacency_file store_dir) fs e = Inr b0" "agrees st b0 e"
  shows "ensures (\<lambda>s. ld_engine s = e \<and> ss_files (ld_store s) = fs)
     (\<lambda>_ s. length h + ab_directed_edges (ld_adjacency s) < 2 ^ 30 \<longrightarrow> cache_since st (adjacency_file store_dir) s)
     (import_snb_updates env csv_root store_dir)"
proof -
  let ?Q = "\<lambda>s :: loader. ld_engine s = e \<and> ss_files (ld_store s) = fs"
  have opened: "preserves ?Q (open_append path)" for path
    by (auto simp: preserves_def open_append_def on_store_def supdate_def)
  have read: "ensures ?Q (\<lambda>b s. ?Q s \<and> b = b0)
      (sreads (\<lambda>s. if ss_files (ld_store s) (adjacency_file store_dir) \<noteq> None then
           rbind (load_adjacency_cache (adjacency_file store_dir) (ss_files (ld_store s))) (\<lambda>adj.
             Inr (ab_from_adjacency adj (current_snapshot (ld_engine s))))
         else Inr ab_default))"
    unfolding start_builder_def [symmetric] using b(1) by (auto simp: ensures_def sreads_def)
  have start: "ensures (\<lambda>s. ?Q s \<and> b = b0) (\<lambda>_. on_course st cfg n (length h))
      (supdate (\<lambda>s. s\<lparr>ld_stats := no_stats, ld_adjacency := b\<rparr>))" for b
    using tr b(2) by (auto simp: ensures_def supdate_def on_course_def Let_def intro!: exI [of _ h])
  show ?thesis
    unfolding import_snb_updates_def Let_def
    by (rule ensures_step [OF opened], rule ensures_step [OF opened], rule ensures_bind [OF read],
        rule ensures_bind [OF start], intro ensures_step finish_ensures preserves_basic preserves_sdo course.stream)
qed

text \<open>C34. An import of update streams into a store whose adjacency cache is exact, whatever was done to
  the engine before, leaves an exact cache: the edges of the update come first, and an edge inserted
  again moves to the front, as in a rebuild from a scan of the engine.\<close>

theorem updates_import_exact:
  assumes "engine_create cfg n disk = (e0, Inr ())" "run_ops ops e0 = (ld_engine s, Inr ())" "unat n < 2 ^ 62"
    and "load_adjacency_cache (adjacency_file store_dir) (ss_files (ld_store s)) = Inr adj"
    and "index_exact (ld_engine s) adj"
    and "import_snb_updates env csv_root store_dir s = (s', Inr stats)"
    and "length ops + ab_directed_edges (ld_adjacency s') < 2 ^ 30"
  shows "\<exists>adj'. load_adjacency_cache (adjacency_file store_dir) (ss_files (ld_store s')) = Inr adj' \<and>
    index_exact (ld_engine s') adj'"
proof -
  obtain e1 e where "engine_create cfg n disk = (e1, Inr ())" "run_ops ops e1 = (e, Inr ())"
    "tracks cfg (Suc (unat n)) ops e"
    by (rule created_run [of ops n]) (use assms(3,7) in simp_all)
  then have tr: "tracks cfg (Suc (unat n)) ops (ld_engine s)" using assms(1,2) by simp
  then have "engine_inv (ld_engine s)" by (simp add: tracks_def)
  note b = start_builder_cached [OF this assms(4,5)]
  have "ensures (\<lambda>t. ld_engine t = ld_engine s \<and> ss_files (ld_store t) = ss_files (ld_store s))
     (\<lambda>_ t. length ops + ab_directed_edges (ld_adjacency t) < 2 ^ 30 \<longrightarrow> cache_since None (adjacency_file store_dir) t)
     (import_snb_updates env csv_root store_dir)"
    by (rule updates_ensures [OF tr _ b]) (use assms(3) in simp)
  then have "cache_exact (adjacency_file store_dir) s'"
    using assms(6,7) cache_since_exact unfolding ensures_def by blast
  then show ?thesis unfolding cache_exact_def by blast
qed

text \<open>An update stream of one friendship (\<^verbatim>\<open>0|0|8|1|2|9\<close>), into a store whose cache lists nothing.\<close>

definition stream_bytes :: bytes where
  "stream_bytes = [48, 124, 48, 124, 56, 124, 49, 124, 50, 124, 57]"

definition stream_files :: file_system where
  "stream_files path =
     (if path = ''store/snb_adjacency.bin'' then Some (adjacency_image [])
      else if path = ''data/updateStream_0_0_person.csv'' then Some stream_bytes
      else None)"

definition stream_loader :: "engine \<Rightarrow> loader" where
  "stream_loader e = \<lparr>ld_engine = e, ld_store = \<lparr>ss_text = (\<lambda>_. None), ss_files = stream_files\<rparr>,
     ld_adjacency = ab_default, ld_stats = no_stats\<rparr>"

lemma stream_cache:
  obtains adj where "load_adjacency_cache ''store/snb_adjacency.bin'' stream_files = Inr adj" "\<forall>k. hm_get adj k = None"
proof -
  obtain fs' stats adj where w: "write_adjacency_cache_atomic ''store/snb_adjacency.bin'' [] Map.empty = (fs', Inr stats)"
    "load_adjacency_cache ''store/snb_adjacency.bin'' fs' = Inr adj" "\<forall>k. hm_get adj k = hm_get [] k"
    using cache_reads_back [OF hm.inv_empty, of "''store/snb_adjacency.bin''" Map.empty] by auto
  have "fs' ''store/snb_adjacency.bin'' = stream_files ''store/snb_adjacency.bin''"
    using w(1) by (auto simp: write_adjacency_cache_atomic_def stream_files_def st_simps sbind_def rename_blocking_def)
  then have "load_adjacency_cache ''store/snb_adjacency.bin'' stream_files = Inr adj"
    using w(2) by (simp add: load_adjacency_cache_def)
  then show thesis by (rule that) (use w(3) in \<open>simp add: hm_get_def\<close>)
qed

lemma stream_lines: "buf_lines stream_bytes = [Inr ''0|0|8|1|2|9'']"
proof -
  have "string_of_bytes stream_bytes = ''0|0|8|1|2|9''"
    by (simp add: string_of_bytes_def stream_bytes_def char_of_def bit_0)
  then show ?thesis by (simp add: buf_lines_def lines_of_def valid_utf8_def Let_def)
qed

lemma stream_line_steps:
  "apply_line env vertices out ''0|0|8|1|2|9'' = sbind (add_stats \<lparr>is_input_rows = 1, is_directed_edges = 0\<rparr>) (\<lambda>_.
      sbind (sbind (insert_forward_reverse env out (encode_vid Person 1) (encode_vid Person 2) Knows (P_i64 9) True) (\<lambda>_.
        insert_forward_reverse env out (encode_vid Person 2) (encode_vid Person 1) Knows (P_i64 9) False)) (\<lambda>_.
      add_stats \<lparr>is_input_rows = 0, is_directed_edges = 3\<rparr>))"
proof -
  have split: "str_split CHR ''|'' ''0|0|8|1|2|9'' = [''0'', ''0'', ''8'', ''1'', ''2'', ''9'']" by simp
  have fields: "parse_field_i64 [''0'', ''0'', ''8'', ''1'', ''2'', ''9''] 3 = Inr 1"
    "parse_field_i64 [''0'', ''0'', ''8'', ''1'', ''2'', ''9''] 4 = Inr 2"
    "parse_field_i64 [''0'', ''0'', ''8'', ''1'', ''2'', ''9''] 5 = Inr 9"
    by (simp_all add: parse_field_i64_def field_at_def parse_i64_str_def parse_int_def digits_value_def
        digit_value_def is_digit_def)
  have nonblank: "trim ''0|0|8|1|2|9'' \<noteq> []" by (simp add: trim_def is_space_def)
  then show ?thesis
    by (simp only: apply_line_def split Let_def)
      (simp add: apply_update_def apply_binary_update_edge_def fields sbind_slift count_directed_def Let_def)
qed

lemma stream_line:
  assumes "c + 3 < 2 ^ 30"
  shows "returns (reading st cfg n base fs c) (\<lambda>_. reading st cfg n base fs (c + 3)) (apply_line env vertices out ''0|0|8|1|2|9'')"
proof -
  have two: "c + 2 < 2 ^ 30" using assms by simp
  show ?thesis
    unfolding stream_line_steps
    by (intro returns_bind [OF returns_text(4)] returns_bind [OF returns_bind [OF returns_forward_reverse [OF two]
        returns_forward [OF assms]]] returns_text)
qed

lemma stream_import:
  assumes tr: "tracks cfg (Suc (unat n)) ops e" "unat n < 2 ^ 62" "length ops + 3 < 2 ^ 30"
    and b: "start_builder ''store/snb_adjacency.bin'' fs e = Inr b0" "agrees st b0 e" "ab_directed_edges b0 = 0"
    and stream: "fs ''data/updateStream_0_0_person.csv'' = Some stream_bytes"
    and s: "ld_engine s = e" "ss_files (ld_store s) = fs"
  obtains s' stats where "import_snb_updates knows_env ''data'' ''store'' s = (s', Inr stats)"
    "ab_directed_edges (ld_adjacency s') \<le> 3"
proof -
  let ?Q = "\<lambda>s :: loader. ld_engine s = e \<and> ss_files (ld_store s) = fs" and ?c = "length ops"
  let ?J = "reading st cfg (Suc (unat n)) ?c fs" and ?few = "\<lambda>s. ab_directed_edges (ld_adjacency s) \<le> 3"
  have opened: "returns ?Q (\<lambda>_. ?Q) (open_append path)" for path
    by (auto simp: returns_def open_append_def on_store_def supdate_def)
  have path: "adjacency_file ''store'' = ''store/snb_adjacency.bin''" by (simp add: join_path_def)
  have read: "returns ?Q (\<lambda>b s. ?Q s \<and> b = b0)
      (sreads (\<lambda>s. if ss_files (ld_store s) (adjacency_file ''store'') \<noteq> None then
           rbind (load_adjacency_cache (adjacency_file ''store'') (ss_files (ld_store s))) (\<lambda>adj.
             Inr (ab_from_adjacency adj (current_snapshot (ld_engine s))))
         else Inr ab_default))"
    unfolding start_builder_def [symmetric] using b(1) by (auto simp: returns_def sreads_def path)
  have start: "returns (\<lambda>s. ?Q s \<and> b = b0) (\<lambda>_. ?J ?c) (supdate (\<lambda>s. s\<lparr>ld_stats := no_stats, ld_adjacency := b\<rparr>))" for b
    using tr b(2,3) by (auto simp: returns_def supdate_def reading_def on_course_def Let_def)
  have files: "update_stream_files knows_env ''data'' = Inr [''data/updateStream_0_0_person.csv'']"
    by (simp add: update_stream_files_def knows_env_def valid_utf8_def Let_def suffix_def join_path_def prefix_code)
  have stream: "returns (?J ?c) (\<lambda>_. ?J (?c + 3)) (import_update_stream_file knows_env v out ''data/updateStream_0_0_person.csv'')" for v out
    using stream_line [of ?c st cfg "Suc (unat n)" ?c fs knows_env v out] stream tr(3)
    by (auto simp: import_update_stream_file_def returns_def reading_def sreads_def sbind_def
        stream_lines sdo_def slift_def sreturn_def)
  have finish: "returns (?J (?c + 3)) (\<lambda>_. ?few) (finish_import path)" for path
    unfolding returns_def
  proof (intro allI impI)
    fix s assume s: "?J (?c + 3) s"
    obtain s' where "finish_import path s = (s', Inr (ld_stats s))" "ld_adjacency s' = ld_adjacency s"
      by (rule finish_run [of st cfg "Suc (unat n)" ?c s path]) (use s tr(3) in \<open>auto simp: reading_def\<close>)
    then show "\<exists>s' x. finish_import path s = (s', Inr x) \<and> ?few s'"
      using s by (auto simp: reading_def)
  qed
  have lifted: "returns (?J ?c) (\<lambda>fs s. ?J ?c s \<and> fs = [''data/updateStream_0_0_person.csv''])
      (slift (update_stream_files knows_env ''data''))"
    by (simp add: returns_def slift_def files)
  have list: "returns (\<lambda>s. ?J ?c s \<and> fs = [''data/updateStream_0_0_person.csv'']) (\<lambda>_. ?J (?c + 3))
      (sdo (import_update_stream_file knows_env v out) (sort fs))" for v out fs
  proof -
    have "returns (?J ?c) (\<lambda>_. ?J (?c + 3)) (sdo (import_update_stream_file knows_env v out) (sort [''data/updateStream_0_0_person.csv'']))"
      by (simp add: sdo_def) (rule returns_bind [OF stream], simp add: returns_def sreturn_def)
    then show ?thesis by (auto simp: returns_def)
  qed
  have "returns ?Q (\<lambda>_. ?few) (import_snb_updates knows_env ''data'' ''store'')"
    unfolding import_snb_updates_def Let_def
    by (rule returns_bind [OF opened], rule returns_bind [OF opened], rule returns_bind [OF read],
        rule returns_bind [OF start], rule returns_bind [OF lifted], rule returns_bind [OF list finish])
  moreover have "?Q s" using s by simp
  ultimately show thesis using that unfolding returns_def by blast
qed

theorem updates_import_exact_witness:
  "\<exists>e0 s' stats adj. engine_create (config_new ''db'') 1 (\<lambda>_. None, None) = (e0, Inr ()) \<and>
    import_snb_updates knows_env ''data'' ''store'' (stream_loader e0) = (s', Inr stats) \<and>
    load_adjacency_cache ''store/snb_adjacency.bin'' (ss_files (ld_store s')) = Inr adj \<and>
    index_exact (ld_engine s') adj"
proof -
  obtain e0 where e0: "engine_create (config_new ''db'') 1 (\<lambda>_. None, None) = (e0, Inr ())" "engine_inv e0" "records e0 = {}"
    by (rule engine_create_run [of 1]) simp_all
  obtain adj where adj: "load_adjacency_cache ''store/snb_adjacency.bin'' stream_files = Inr adj" "\<forall>k. hm_get adj k = None"
    by (rule stream_cache)
  have "adj = []"
  proof (cases adj)
    case (Cons g gs)
    then have "hm_get adj (fst g) = Some (snd g)" by (cases g) (simp add: hm_get_def)
    then show ?thesis using adj(2) by simp
  qed simp
  have "newest_first e0 src ty (group_of adj (src, ty))" for src ty
    using adj(2) e0(3) by (simp add: newest_first_def edge_pairs_def latest_def group_of_def)
  then have exact: "index_exact e0 adj" using exact_newest [OF e0(2)] by blast
  have none: "ab_directed_edges (ab_from_adjacency adj (current_snapshot e0)) = 0"
    using \<open>adj = []\<close> by (simp add: ab_from_adjacency_def ab_default_def)
  obtain e1 e where "engine_create (config_new ''db'') 1 (\<lambda>_. None, None) = (e1, Inr ())" "run_ops [] e1 = (e, Inr ())"
    "tracks (config_new ''db'') (Suc (unat 1)) [] e"
    by (rule created_run [of "[]" 1]) simp_all
  then have tr: "tracks (config_new ''db'') (Suc (unat 1)) [] e0" using e0(1) by (simp add: sreturn_def)
  note b = start_builder_cached [OF e0(2) adj(1) exact]
  obtain s' stats where run: "import_snb_updates knows_env ''data'' ''store'' (stream_loader e0) = (s', Inr stats)"
    "ab_directed_edges (ld_adjacency s') \<le> 3"
    by (rule stream_import [OF tr _ _ b none, of "stream_loader e0"])
      (simp_all add: stream_files_def stream_loader_def)
  have "run_ops [] e0 = (ld_engine (stream_loader e0), Inr ())" by (simp add: sreturn_def stream_loader_def)
  from updates_import_exact [OF e0(1) this, of "''store''" adj knows_env "''data''" s' stats] show ?thesis
    using run e0(1) adj(1) exact by (auto simp: stream_loader_def join_path_def)
qed

end
