(* ===== verification/Snb_Rebuild.thy ===== *)
theory Snb_Rebuild
  imports Snb_Loaded
begin

section \<open>Rebuilding the edge properties\<close>

text \<open>
  \<^verbatim>\<open>rebuild_snb_edge_props\<close> writes the edge property file again from the tables. Every table
  determines the lines it adds to the file; the import and the rebuild are both shown to add them.
\<close>

definition appended :: "string \<Rightarrow> string list \<Rightarrow> snb_store \<Rightarrow> snb_store \<Rightarrow> bool" where
  "appended out L t t' \<longleftrightarrow> ss_files t' = ss_files t \<and> (\<forall>p. p \<noteq> out \<longrightarrow> ss_text t' p = ss_text t p) \<and>
     (\<forall>ls. ss_text t out = Some ls \<longrightarrow> ss_text t' out = Some (ls @ L))"

lemma appended_refl: "appended out [] t t"
  by (simp add: appended_def)

lemma appended_trans: "appended out L t t' \<Longrightarrow> appended out M t' t'' \<Longrightarrow> appended out (L @ M) t t''"
  by (simp add: appended_def)

definition edge_line :: "loader_env \<Rightarrow> vertex_id \<Rightarrow> vertex_id \<Rightarrow> edge_type \<Rightarrow> edge_prop \<Rightarrow> string list" where
  "edge_line env src dst ty p = (if p = P_empty then []
     else [rj_edge (le_json env) \<lparr>er_src = src, er_dst = dst, er_type = ty, er_prop = p\<rparr>])"

lemma write_edge_prop_run:
  "\<exists>s'. write_edge_prop env out src dst ty p s = (s', Inr ()) \<and> ld_engine s' = ld_engine s \<and>
     appended out (edge_line env src dst ty p) (ld_store s) (ld_store s')"
  by (auto simp: write_edge_prop_def edge_line_def append_line_def on_store_def supdate_def sreturn_def
      appended_def text_lines_def)

lemma insert_recorded_store:
  "insert_recorded src dst ty s = (s', r) \<Longrightarrow> ld_store s' = ld_store s"
  by (auto simp: insert_recorded_def on_engine_def sbind_def supdate_def split: prod.splits sum.splits)

lemma forward_reverse_lines:
  assumes run: "insert_forward_reverse env out src dst label p both s = (s', Inr x)"
  shows "appended out (edge_line env src dst (edge_label_i32 label) p @
      (if both then edge_line env dst src (- edge_label_i32 label) p else [])) (ld_store s) (ld_store s')"
proof -
  let ?l = "edge_label_i32 label"
  obtain t1 t2 where t: "insert_recorded src dst ?l s = (t1, Inr ())"
    "write_edge_prop env out src dst ?l p t1 = (t2, Inr ())"
    "(if both then sbind (insert_recorded dst src (- ?l)) (\<lambda>_. write_edge_prop env out dst src (- ?l) p)
      else sreturn ()) t2 = (s', Inr ())"
    using run unfolding insert_forward_reverse_def Let_def sbind_Inr_iff by auto
  have one: "appended out (edge_line env src dst ?l p) (ld_store s) (ld_store t2)"
    using write_edge_prop_run [of env out src dst ?l p t1] t(2) insert_recorded_store [OF t(1)] by auto
  show ?thesis
  proof (cases both)
    case True
    then obtain t3 where t3: "insert_recorded dst src (- ?l) t2 = (t3, Inr ())"
      "write_edge_prop env out dst src (- ?l) p t3 = (s', Inr ())"
      using t(3) by (auto simp: sbind_Inr_iff)
    have "appended out (edge_line env dst src (- ?l) p) (ld_store t2) (ld_store s')"
      using write_edge_prop_run [of env out dst src "- ?l" p t3] t3(2) insert_recorded_store [OF t3(1)] by auto
    then show ?thesis using appended_trans [OF one] True by simp
  next
    case False
    then show ?thesis using one t(3) by (simp add: sreturn_def)
  qed
qed

text \<open>The lines of a record and of a table.\<close>

definition row_lines ::
  "loader_env \<Rightarrow> vertex_label \<Rightarrow> vertex_label \<Rightarrow> edge_label \<Rightarrow> bool \<Rightarrow> col_ref \<Rightarrow> col_ref \<Rightarrow> prop_spec \<Rightarrow>
   string list \<Rightarrow> string list \<Rightarrow> string list res"
where
  "row_lines env sl dl label both sc dc p h r =
     rbind (edge_ends sl dl sc dc h r) (\<lambda>ends. case ends of None \<Rightarrow> Inr []
       | Some (src, dst) \<Rightarrow> rbind (prop_read p r) (\<lambda>v. let ty = edge_label_i32 label in
           Inr (edge_line env src dst ty v @ edge_line env dst src (- ty) v @
             (if both then edge_line env dst src ty v else []))))"

definition table_lines ::
  "loader_env \<Rightarrow> vertex_label \<Rightarrow> vertex_label \<Rightarrow> edge_label \<Rightarrow> bool \<Rightarrow> col_ref \<Rightarrow> col_ref \<Rightarrow> prop_spec \<Rightarrow>
   file_system \<Rightarrow> string \<Rightarrow> string list res"
where
  "table_lines env sl dl label both sc dc p fs path =
     (case fs path of None \<Rightarrow> Inl Not_found | Some bs \<Rightarrow>
        rbind (le_csv env bs) (\<lambda>(h, rs).
        rbind (rmap (\<lambda>r. rbind r (row_lines env sl dl label both sc dc p h)) rs) (\<lambda>ls. Inr (concat ls))))"

lemma row_lines_none: "row_lines env sl dl label both sc dc Prop_none h r = Inr L \<Longrightarrow> L = []"
  by (auto simp: row_lines_def edge_line_def rbind_Inr_iff Let_def split: option.splits if_splits)

lemma table_lines_none: "table_lines env sl dl label both sc dc Prop_none fs path = Inr L \<Longrightarrow> L = []"
proof -
  assume "table_lines env sl dl label both sc dc Prop_none fs path = Inr L"
  then obtain h rs ls where ls: "rmap (\<lambda>r. rbind r (row_lines env sl dl label both sc dc Prop_none h)) rs = Inr ls"
    "L = concat ls"
    by (auto simp: table_lines_def rbind_Inr_iff split: option.splits)
  have "ls ! i = []" if "i < length ls" for i
    using rmap_Inr_all [OF ls(1)] that row_lines_none by (auto simp: rbind_Inr_iff)
  then show ?thesis using ls(2) by (metis concat_eq_Nil_conv in_set_conv_nth)
qed

lemma slift_Inr_iff: "slift r s = (s', Inr x) \<longleftrightarrow> s' = s \<and> r = Inr x"
  by (auto simp: slift_def)

text \<open>A body that adds the lines of a record, run on every record.\<close>

lemma sfor_lines:
  assumes body: "\<And>h r acc s s' x. f h r acc s = (s', Inr x) \<Longrightarrow>
      \<exists>L. g h r = Inr L \<and> appended out L (ld_store s) (ld_store s')"
    and run: "sfor (\<lambda>r acc. sbind (slift r) (\<lambda>r. f h r acc)) rs acc s = (s', Inr x)"
  shows "\<exists>ls. rmap (\<lambda>r. rbind r (g h)) rs = Inr ls \<and> appended out (concat ls) (ld_store s) (ld_store s')"
  using run
proof (induction rs arbitrary: acc s)
  case Nil
  then show ?case by (simp add: sreturn_def appended_refl)
next
  case (Cons r rs)
  obtain r' t y where t: "r = Inr r'" "f h r' acc s = (t, Inr y)"
    "sfor (\<lambda>r acc. sbind (slift r) (\<lambda>r. f h r acc)) rs y t = (s', Inr x)"
    using Cons.prems by (cases r) (auto simp: sbind_Inr_iff slift_Inr_iff)
  obtain L where L: "g h r' = Inr L" "appended out L (ld_store s) (ld_store t)" using body [OF t(2)] by blast
  obtain ls where "rmap (\<lambda>r. rbind r (g h)) rs = Inr ls" "appended out (concat ls) (ld_store t) (ld_store s')"
    using Cons.IH [OF t(3)] by blast
  then show ?case using t(1) L appended_trans [OF L(2)] by auto
qed

lemma import_edge_row_lines:
  assumes "(let stats = stats\<lparr>is_input_rows := is_input_rows stats + 1\<rparr>
       in sbind (slift (edge_ends sl dl sc dc h r)) (\<lambda>ends.
          case ends of None \<Rightarrow> sreturn stats
          | Some (src, dst) \<Rightarrow>
              sbind (slift (prop_read p r)) (\<lambda>v.
              sbind (insert_forward_reverse env out src dst label v True) (\<lambda>_.
              if both then
                sbind (insert_forward_reverse env out dst src label v False) (\<lambda>_.
                sreturn (stats\<lparr>is_directed_edges := is_directed_edges stats + 3\<rparr>))
              else sreturn (stats\<lparr>is_directed_edges := is_directed_edges stats + 2\<rparr>))))) s = (s', Inr x)"
  shows "\<exists>L. row_lines env sl dl label both sc dc p h r = Inr L \<and> appended out L (ld_store s) (ld_store s')"
proof (cases "edge_ends sl dl sc dc h r")
  case (Inr ends)
  show ?thesis
  proof (cases ends)
    case None
    then show ?thesis using assms Inr
      by (auto simp: sbind_def slift_def sreturn_def row_lines_def appended_refl Let_def)
  next
    case (Some e)
    obtain src dst where e: "e = (src, dst)" by (cases e)
    obtain v t where v: "prop_read p r = Inr v" and t: "insert_forward_reverse env out src dst label v True s = (t, Inr ())"
      and rest: "both \<longrightarrow> (\<exists>t'. insert_forward_reverse env out dst src label v False t = (t', Inr ()) \<and> t' = s')"
        "\<not> both \<longrightarrow> s' = t"
      using assms Inr Some e
      by (auto simp: sbind_Inr_iff slift_def sreturn_def Let_def split: if_splits)
    have one: "appended out (edge_line env src dst (edge_label_i32 label) v @ edge_line env dst src (- edge_label_i32 label) v)
        (ld_store s) (ld_store t)"
      using forward_reverse_lines [OF t] by simp
    have "appended out (edge_line env src dst (edge_label_i32 label) v @ edge_line env dst src (- edge_label_i32 label) v @
        (if both then edge_line env dst src (edge_label_i32 label) v else [])) (ld_store s) (ld_store s')"
    proof (cases both)
      case True
      then have "insert_forward_reverse env out dst src label v False t = (s', Inr ())" using rest by auto
      from forward_reverse_lines [OF this] show ?thesis using appended_trans [OF one] True by simp
    qed (use one rest in simp)
    then show ?thesis using Inr Some e v by (simp add: row_lines_def Let_def)
  qed
qed (use assms in \<open>simp add: sbind_def slift_def Let_def\<close>)

lemma import_edge_file_lines:
  assumes "import_edge_file env out path sl dl label both sc dc p s = (s', Inr x)"
  shows "\<exists>L. table_lines env sl dl label both sc dc p (ss_files (ld_store s)) path = Inr L \<and>
    appended out L (ld_store s) (ld_store s')"
proof -
  obtain bs h rs where t: "ss_files (ld_store s) path = Some bs" "le_csv env bs = Inr (h, rs)"
    using assms by (auto simp: import_edge_file_def csv_each_def sbind_Inr_iff sreads_def split: option.splits)
  then show ?thesis
    using assms sfor_lines [OF import_edge_row_lines, where out = out and rs = rs and s = s and s' = s' and x = x]
    by (fastforce simp: import_edge_file_def csv_each_def sbind_def sreads_def table_lines_def)
qed

text \<open>The rebuild of one table adds its lines.\<close>

lemma sfor_adds:
  assumes body: "\<And>h r acc s L. g h r = Inr L \<Longrightarrow> \<exists>s' x. f h r acc s = (s', Inr x) \<and> ld_engine s' = ld_engine s \<and>
      appended out L (ld_store s) (ld_store s')"
    and lines: "rmap (\<lambda>r. rbind r (g h)) rs = Inr ls"
  shows "\<exists>s' x. sfor (\<lambda>r acc. sbind (slift r) (\<lambda>r. f h r acc)) rs acc s = (s', Inr x) \<and>
    ld_engine s' = ld_engine s \<and> appended out (concat ls) (ld_store s) (ld_store s')"
  using lines
proof (induction rs arbitrary: acc s ls)
  case Nil
  then show ?case by (simp add: sreturn_def appended_refl)
next
  case (Cons r rs)
  then obtain r' L ls' where r: "r = Inr r'" "g h r' = Inr L" "rmap (\<lambda>r. rbind r (g h)) rs = Inr ls'" "ls = L # ls'"
    by (auto simp: rbind_Inr_iff)
  obtain t x where t: "f h r' acc s = (t, Inr x)" "ld_engine t = ld_engine s" "appended out L (ld_store s) (ld_store t)"
    using body [OF r(2)] by blast
  obtain s' y where "sfor (\<lambda>r acc. sbind (slift r) (\<lambda>r. f h r acc)) rs x t = (s', Inr y)" "ld_engine s' = ld_engine t"
    "appended out (concat ls') (ld_store t) (ld_store s')"
    using Cons.IH [OF r(3)] by blast
  moreover have "sbind (slift r) (\<lambda>r. f h r acc) s = (t, Inr x)" using r(1) t(1) by (simp add: sbind_def slift_def)
  ultimately show ?case using r(4) t(2) appended_trans [OF t(3)] by (auto simp: sbind_simps(1))
qed

lemma csv_each_adds:
  assumes "ss_files (ld_store s) path = Some bs" "le_csv env bs = Inr (h, rs)"
    and lines: "rmap (\<lambda>r. rbind r (g h)) rs = Inr ls"
    and body: "\<And>h r acc s L. g h r = Inr L \<Longrightarrow> \<exists>s' x. f h r acc s = (s', Inr x) \<and> ld_engine s' = ld_engine s \<and>
      appended out L (ld_store s) (ld_store s')"
  shows "\<exists>s' x. csv_each env path f acc s = (s', Inr x) \<and> ld_engine s' = ld_engine s \<and>
    appended out (concat ls) (ld_store s) (ld_store s')"
  using sfor_adds [where f = f and g = g, OF body lines] assms(1,2)
  by (simp add: csv_each_def sbind_def [of "sreads _"] sreads_def)

lemma write_edge_row_lines:
  assumes "row_lines env sl dl label both sc dc p h r = Inr L"
  shows "\<exists>s' x. (sbind (slift (edge_ends sl dl sc dc h r)) (\<lambda>ends.
       case ends of None \<Rightarrow> sreturn (rows + 1)
       | Some (src, dst) \<Rightarrow>
           sbind (slift (prop_read p r)) (\<lambda>v.
           let ty = edge_label_i32 label
           in sbind (write_edge_prop env out src dst ty v) (\<lambda>_.
              sbind (write_edge_prop env out dst src (- ty) v) (\<lambda>_.
              sbind (if both then write_edge_prop env out dst src ty v else sreturn ()) (\<lambda>_.
              sreturn (rows + 1))))))) s = (s', Inr x) \<and>
    ld_engine s' = ld_engine s \<and> appended out L (ld_store s) (ld_store s')"
proof (cases "edge_ends sl dl sc dc h r")
  case (Inr ends)
  show ?thesis
  proof (cases ends)
    case None
    then show ?thesis using assms Inr
      by (simp add: row_lines_def sbind_def slift_def sreturn_def appended_refl)
  next
    case (Some e)
    obtain src dst where e: "e = (src, dst)" by (cases e)
    let ?ty = "edge_label_i32 label"
    obtain v where v: "prop_read p r = Inr v" and L: "L = edge_line env src dst ?ty v @ edge_line env dst src (- ?ty) v @
        (if both then edge_line env dst src ?ty v else [])"
      using assms Inr Some e by (auto simp: row_lines_def rbind_Inr_iff Let_def)
    obtain t1 where t1: "write_edge_prop env out src dst ?ty v s = (t1, Inr ())" "ld_engine t1 = ld_engine s"
      "appended out (edge_line env src dst ?ty v) (ld_store s) (ld_store t1)"
      using write_edge_prop_run by blast
    obtain t2 where t2: "write_edge_prop env out dst src (- ?ty) v t1 = (t2, Inr ())" "ld_engine t2 = ld_engine t1"
      "appended out (edge_line env dst src (- ?ty) v) (ld_store t1) (ld_store t2)"
      using write_edge_prop_run by blast
    obtain t3 where t3: "(if both then write_edge_prop env out dst src ?ty v else sreturn ()) t2 = (t3, Inr ())"
      "ld_engine t3 = ld_engine t2"
      "appended out (if both then edge_line env dst src ?ty v else []) (ld_store t2) (ld_store t3)"
      using write_edge_prop_run [of env out dst src ?ty v t2] appended_refl by (cases both) (auto simp: sreturn_def)
    have "appended out L (ld_store s) (ld_store t3)"
      unfolding L using appended_trans [OF t1(3) appended_trans [OF t2(3) t3(3)]] by simp
    then show ?thesis
      using Inr Some e v t1(1,2) t2(1,2) t3(1,2) by (simp add: sbind_def slift_def Let_def sreturn_def [of "rows + 1"])
  qed
qed (use assms in \<open>simp add: row_lines_def\<close>)

lemma write_edge_prop_file_lines:
  assumes "table_lines env sl dl label both sc dc p (ss_files (ld_store s)) path = Inr L"
  shows "\<exists>s' x. write_edge_prop_file env out path sl dl label both sc dc p s = (s', Inr x) \<and>
    ld_engine s' = ld_engine s \<and> appended out L (ld_store s) (ld_store s')"
proof -
  obtain bs h rs ls where t: "ss_files (ld_store s) path = Some bs" "le_csv env bs = Inr (h, rs)"
    "rmap (\<lambda>r. rbind r (row_lines env sl dl label both sc dc p h)) rs = Inr ls" "L = concat ls"
    using assms by (auto simp: table_lines_def rbind_Inr_iff split: option.splits)
  show ?thesis
    unfolding write_edge_prop_file_def t(4)
    by (rule csv_each_adds [where g = "row_lines env sl dl label both sc dc p", OF t(1-3)])
      (rule write_edge_row_lines)
qed

subsection \<open>The whole file\<close>

lemma add_stats_store: "add_stats other s = (s', Inr x) \<Longrightarrow> ld_store s' = ld_store s"
  by (auto simp: add_stats_def supdate_def)

text \<open>The lines of the tables of edges, one after the other.\<close>

definition tables_lines ::
  "loader_env \<Rightarrow> string \<Rightarrow> file_system \<Rightarrow>
   (string \<times> vertex_label \<times> vertex_label \<times> edge_label \<times> bool \<times> prop_spec) list \<Rightarrow> string list res"
where
  "tables_lines env dynamic fs ts = rbind (rmap (\<lambda>(name, sl, dl, label, both, p).
     table_lines env sl dl label both (Col_index 0) (Col_index 1) p fs (join_path dynamic name)) ts)
     (\<lambda>ls. Inr (concat ls))"

lemma tables_lines_simps [simp]:
  "tables_lines env dynamic fs [] = Inr []"
  "tables_lines env dynamic fs ((name, sl, dl, label, both, p) # ts) =
     rbind (table_lines env sl dl label both (Col_index 0) (Col_index 1) p fs (join_path dynamic name)) (\<lambda>L.
     rbind (tables_lines env dynamic fs ts) (\<lambda>M. Inr (L @ M)))"
  by (auto simp: tables_lines_def rbind_assoc)

lemma tables_lines_filter:
  "tables_lines env dynamic fs ts = Inr L \<Longrightarrow>
   tables_lines env dynamic fs (filter (\<lambda>(name, sl, dl, label, both, p). p \<noteq> Prop_none) ts) = Inr L"
proof (induction ts arbitrary: L)
  case (Cons t ts)
  obtain name sl dl label both p where t: "t = (name, sl, dl, label, both, p)" by (cases t)
  then show ?case using Cons table_lines_none by (auto simp: rbind_Inr_iff)
qed simp

lemma import_edge_tables_lines:
  assumes "sdo (\<lambda>(name, src, dst, label, bidirectional, p).
      sbind (import_edge_file env out (join_path dynamic name) src dst label bidirectional
        (Col_index 0) (Col_index 1) p) add_stats) ts s = (s', Inr x)"
  shows "\<exists>L. tables_lines env dynamic (ss_files (ld_store s)) ts = Inr L \<and> appended out L (ld_store s) (ld_store s')"
  using assms
proof (induction ts arbitrary: s)
  case Nil
  then show ?case by (simp add: sdo_def sreturn_def appended_refl)
next
  case (Cons t ts)
  obtain name sl dl label both p where t: "t = (name, sl, dl, label, both, p)" by (cases t)
  obtain u st v y where u: "import_edge_file env out (join_path dynamic name) sl dl label both (Col_index 0) (Col_index 1) p s =
      (u, Inr st)" "add_stats st u = (v, Inr y)"
    and rest: "sdo (\<lambda>(name, src, dst, label, bidirectional, p).
      sbind (import_edge_file env out (join_path dynamic name) src dst label bidirectional
        (Col_index 0) (Col_index 1) p) add_stats) ts v = (s', Inr x)"
    using Cons.prems t by (auto simp: sdo_def sbind_Inr_iff)
  obtain L where L: "table_lines env sl dl label both (Col_index 0) (Col_index 1) p (ss_files (ld_store s)) (join_path dynamic name) = Inr L"
    "appended out L (ld_store s) (ld_store v)"
    using import_edge_file_lines [OF u(1)] add_stats_store [OF u(2)] by auto
  have "ss_files (ld_store v) = ss_files (ld_store s)" using L(2) by (simp add: appended_def)
  then show ?case using Cons.IH [OF rest] L t appended_trans [OF L(2)] by auto
qed

lemma import_named_lines:
  assumes "sdo (\<lambda>spec. sbind (import_named_edge env out spec) add_stats) specs s = (s', Inr x)"
  shows "appended out [] (ld_store s) (ld_store s')"
  using assms
proof (induction specs arbitrary: s)
  case Nil
  then show ?case by (simp add: sdo_def sreturn_def appended_refl)
next
  case (Cons e specs)
  obtain u st v y where u: "import_named_edge env out e s = (u, Inr st)" "add_stats st u = (v, Inr y)"
    and rest: "sdo (\<lambda>spec. sbind (import_named_edge env out spec) add_stats) specs v = (s', Inr x)"
    using Cons.prems by (auto simp: sdo_def sbind_Inr_iff)
  obtain L where "table_lines env (ne_src_label e) (ne_dst_label e) (ne_edge_label e) False (Col_name (ne_src_col e))
      (Col_name (ne_dst_col e)) Prop_none (ss_files (ld_store s)) (ne_path e) = Inr L"
    "appended out L (ld_store s) (ld_store u)"
    using import_edge_file_lines u(1) unfolding import_named_edge_def by blast
  then have "appended out [] (ld_store s) (ld_store v)"
    using table_lines_none add_stats_store [OF u(2)] by metis
  from appended_trans [OF this Cons.IH [OF rest]] show ?case by simp
qed

lemma import_vertices_store:
  assumes "import_vertices env csv_root out s = (s', Inr x)" "out \<noteq> out'"
  shows "ss_files (ld_store s') = ss_files (ld_store s) \<and> ss_text (ld_store s') out' = ss_text (ld_store s) out'"
proof -
  let ?same = "\<lambda>s s' :: loader. ss_files (ld_store s') = ss_files (ld_store s) \<and>
      ss_text (ld_store s') out' = ss_text (ld_store s) out'"
  have loop: "sfor f xs acc s = (s', Inr x) \<Longrightarrow> (\<And>x acc s s' y. f x acc s = (s', Inr y) \<Longrightarrow> ?same s s') \<Longrightarrow> ?same s s'"
    for f :: "'x \<Rightarrow> 'y \<Rightarrow> (loader, 'y) st" and xs acc s s' x
  proof (induction xs arbitrary: acc s)
    case (Cons a xs)
    then obtain t y where t: "f a acc s = (t, Inr y)" "sfor f xs y t = (s', Inr x)" by (auto simp: sbind_Inr_iff)
    have "?same t s'" by (rule Cons.IH [OF t(2) Cons.prems(2)])
    moreover have "?same s t" by (rule Cons.prems(2) [OF t(1)])
    ultimately show ?case by simp
  qed (simp add: sreturn_def)
  have row: "(sbind (slift r) (\<lambda>r. sbind (slift (build h r)) (\<lambda>data.
      write_vertex env out (encode_vid label (data_external_id data)) data))) s = (s', Inr y) \<Longrightarrow> ?same s s'"
    for r build h label s s' y
    using assms(2)
    by (auto simp: sbind_Inr_iff slift_Inr_iff write_vertex_def append_line_def on_store_def supdate_def)
  have table: "import_vertex_file env path out label build s = (s', Inr y) \<Longrightarrow> ?same s s'" for path label build s s' y
    by (auto simp: import_vertex_file_def csv_each_def sbind_Inr_iff sreads_def split: option.splits prod.splits
        dest!: loop [OF _ row])
  show ?thesis
    using assms(1) unfolding import_vertices_def sdo_def
    by (rule loop) (use table in \<open>auto split: prod.splits\<close>)
qed

lemma tables_lines_cong:
  assumes "\<And>t. t \<in> set ts \<Longrightarrow> fs' (join_path dynamic (fst t)) = fs (join_path dynamic (fst t))"
  shows "tables_lines env dynamic fs' ts = tables_lines env dynamic fs ts"
  using assms
proof (induction ts)
  case (Cons t ts)
  obtain name sl dl label both p where t: "t = (name, sl, dl, label, both, p)" by (cases t)
  then have "table_lines env sl dl label both (Col_index 0) (Col_index 1) p fs' (join_path dynamic name) =
      table_lines env sl dl label both (Col_index 0) (Col_index 1) p fs (join_path dynamic name)"
    using Cons.prems [of t] by (simp add: table_lines_def)
  then show ?case using Cons t by simp
qed simp

lemma rebuild_tables:
  assumes "tables_lines env dynamic (ss_files (ld_store s)) ts = Inr L"
  shows "\<exists>s' x. sfor (\<lambda>(name, src, dst, label, bidirectional, p) rows.
      sbind (write_edge_prop_file env out (join_path dynamic name) src dst label bidirectional
        (Col_index 0) (Col_index 1) p) (\<lambda>n. sreturn (rows + n))) ts rows s = (s', Inr x) \<and>
    ld_engine s' = ld_engine s \<and> appended out L (ld_store s) (ld_store s')"
  using assms
proof (induction ts arbitrary: s L rows)
  case Nil
  then show ?case by (simp add: sreturn_def appended_refl)
next
  case (Cons t ts)
  obtain name sl dl label both p where t: "t = (name, sl, dl, label, both, p)" by (cases t)
  obtain A B where L: "table_lines env sl dl label both (Col_index 0) (Col_index 1) p (ss_files (ld_store s)) (join_path dynamic name) = Inr A"
    "tables_lines env dynamic (ss_files (ld_store s)) ts = Inr B" "L = A @ B"
    using Cons.prems t by (auto simp: rbind_Inr_iff)
  obtain u n where u: "write_edge_prop_file env out (join_path dynamic name) sl dl label both (Col_index 0) (Col_index 1) p s = (u, Inr n)"
    "ld_engine u = ld_engine s" "appended out A (ld_store s) (ld_store u)"
    using write_edge_prop_file_lines [OF L(1)] by blast
  have "tables_lines env dynamic (ss_files (ld_store u)) ts = Inr B" using L(2) u(3) by (simp add: appended_def)
  from Cons.IH [OF this, of "rows + n"] show ?case
    using t u L(3) appended_trans [OF u(3)] by (auto simp: sbind_def sreturn_def)
qed

lemma finish_import_store:
  assumes "finish_import path s = (s', Inr x)" "p \<noteq> path" "p \<noteq> tmp_path path"
  shows "ss_text (ld_store s') = ss_text (ld_store s)" "ss_files (ld_store s') p = ss_files (ld_store s) p"
  using assms
  by (auto simp: finish_import_def on_engine_def on_store_def on_files_def write_adjacency_cache_atomic_def
      rename_blocking_def st_simps sbind_def split: prod.splits sum.splits option.splits if_splits)

lemma import_full_lines:
  assumes "import_snb_full env csv_root store_dir s = (s', Inr stats)"
  obtains L where "tables_lines env (join_path csv_root ''dynamic'') (ss_files (ld_store s')) prop_tables = Inr L"
    "ss_text (ld_store s') (edge_props_file store_dir) = Some L"
proof -
  let ?out = "edge_props_file store_dir" and ?dyn = "join_path csv_root ''dynamic''"
  define s0 where "s0 = s\<lparr>ld_store := (ld_store s)\<lparr>ss_text := (ss_text (ld_store s))(vertices_file store_dir := Some [], ?out := Some [])\<rparr>,
      ld_stats := no_stats, ld_adjacency := ab_default\<rparr>"
  have s0: "ss_text (ld_store s0) ?out = Some []" by (simp add: s0_def)
  have ne: "vertices_file store_dir \<noteq> ?out" by (simp add: join_path_def)
  obtain t1 t2 t3 where t: "import_vertices env csv_root (vertices_file store_dir) s0 = (t1, Inr ())"
    "sdo (\<lambda>(name, src, dst, label, bidirectional, p).
         sbind (import_edge_file env ?out (join_path ?dyn name) src dst label bidirectional
           (Col_index 0) (Col_index 1) p) add_stats) edge_tables t1 = (t2, Inr ())"
    "sdo (\<lambda>spec. sbind (import_named_edge env ?out spec) add_stats)
       (named_edges ?dyn (join_path csv_root ''static'')) t2 = (t3, Inr ())"
    "finish_import (adjacency_file store_dir) t3 = (s', Inr stats)"
    using assms unfolding import_snb_full_def Let_def
    by (auto simp: create_text_def on_store_def supdate_def sbind_simps s0_def sbind_Inr_iff)
  obtain L where L: "tables_lines env ?dyn (ss_files (ld_store t1)) edge_tables = Inr L" "appended ?out L (ld_store t1) (ld_store t2)"
    using import_edge_tables_lines [OF t(2)] by blast
  have empty: "ss_text (ld_store t1) ?out = Some []"
    using import_vertices_store [OF t(1) ne] s0 by simp
  have named: "appended ?out [] (ld_store t2) (ld_store t3)" by (rule import_named_lines [OF t(3)])
  have files: "ss_files (ld_store t3) = ss_files (ld_store t1)"
    using L(2) named by (simp add: appended_def)
  have v: "last (fst x) = CHR ''v'' \<and> fst x \<noteq> []" if "x \<in> set prop_tables" for x
    using that by (auto simp: prop_tables_def)
  then have "join_path ?dyn (fst x) \<noteq> adjacency_file store_dir \<and>
      join_path ?dyn (fst x) \<noteq> tmp_path (adjacency_file store_dir)" if "x \<in> set prop_tables" for x
    using v [OF that] by (auto simp: join_path_def tmp_path_def dest!: arg_cong [where f = last])
  then have "tables_lines env ?dyn (ss_files (ld_store s')) prop_tables =
      tables_lines env ?dyn (ss_files (ld_store t1)) prop_tables"
    using finish_import_store(2) [OF t(4)] files by (intro tables_lines_cong) simp
  moreover have "prop_tables = filter (\<lambda>(name, sl, dl, label, both, p). p \<noteq> Prop_none) edge_tables"
    by (simp add: prop_tables_def edge_tables_def)
  ultimately have "tables_lines env ?dyn (ss_files (ld_store s')) prop_tables = Inr L"
    using tables_lines_filter [OF L(1)] by simp
  moreover have "ss_text (ld_store t3) ?out = Some L"
    using empty L(2) named by (simp add: appended_def)
  moreover have "ss_text (ld_store s') = ss_text (ld_store t3)"
    using t(4)
    by (auto simp: finish_import_def on_engine_def on_store_def on_files_def sbind_def sreturn_def
      split: prod.splits sum.splits)
  ultimately show thesis using that by simp
qed

text \<open>C35. After an import of the whole data set, rebuilding the edge properties from the same tables
  returns, writes exactly the file the import wrote, line by line, and does not touch the engine.\<close>

theorem rebuild_matches_import:
  assumes "import_snb_full env csv_root store_dir s = (s', Inr stats)"
  shows "\<exists>s'' rows. rebuild_snb_edge_props env csv_root store_dir s' = (s'', Inr rows) \<and>
    ss_text (ld_store s'') (edge_props_file store_dir) = ss_text (ld_store s') (edge_props_file store_dir) \<and>
    ld_engine s'' = ld_engine s'"
proof -
  let ?out = "edge_props_file store_dir" and ?dyn = "join_path csv_root ''dynamic''"
  let ?tmp = "?out @ ''.tmp''"
  obtain L where L: "tables_lines env ?dyn (ss_files (ld_store s')) prop_tables = Inr L"
    "ss_text (ld_store s') ?out = Some L"
    by (rule import_full_lines [OF assms])
  define s1 where "s1 = s'\<lparr>ld_store := (ld_store s')\<lparr>ss_text := (ss_text (ld_store s'))(?tmp := Some [])\<rparr>\<rparr>"
  have "tables_lines env ?dyn (ss_files (ld_store s1)) prop_tables = Inr L" using L(1) by (simp add: s1_def)
  from rebuild_tables [OF this, of ?tmp 0] obtain t rows where t: "sfor (\<lambda>(name, src, dst, label, bidirectional, p) rows.
      sbind (write_edge_prop_file env ?tmp (join_path ?dyn name) src dst label bidirectional
        (Col_index 0) (Col_index 1) p) (\<lambda>n. sreturn (rows + n))) prop_tables 0 s1 = (t, Inr rows)"
    "ld_engine t = ld_engine s1" "appended ?tmp L (ld_store s1) (ld_store t)"
    by blast
  have "ss_text (ld_store t) ?tmp = Some L" using t(3) by (simp add: appended_def s1_def)
  then show ?thesis
    using t(1,2) L(2)
    by (simp add: rebuild_snb_edge_props_def Let_def create_text_def on_store_def supdate_def s1_def [symmetric]
        sbind_simps rename_text_def sreturn_def) (simp add: s1_def)
qed

theorem rebuild_matches_import_witness:
  "\<exists>e0 s1 s2 stats rows. engine_create (config_new ''db'') 1 (\<lambda>_. None, None) = (e0, Inr ()) \<and>
    import_snb_full knows_env ''data'' ''store'' (knows_loader e0) = (s1, Inr stats) \<and>
    rebuild_snb_edge_props knows_env ''data'' ''store'' s1 = (s2, Inr rows) \<and>
    ss_text (ld_store s2) ''store/snb_edge_props.jsonl'' = ss_text (ld_store s1) ''store/snb_edge_props.jsonl''"
proof -
  obtain e0 where e0: "engine_create (config_new ''db'') 1 (\<lambda>_. None, None) = (e0, Inr ())"
    by (rule engine_create_run [of 1]) simp_all
  have "returns (\<lambda>s. engine_create (config_new ''db'') 1 (\<lambda>_. None, None) = (ld_engine s, Inr ()) \<and>
      ss_files (ld_store s) = knows_files) (\<lambda>_. cache_exact (adjacency_file ''store''))
      (import_snb_full knows_env ''data'' ''store'')"
    by (rule returns_import) (simp_all add: knows_data)
  moreover have "ld_engine (knows_loader e0) = e0" "ss_files (ld_store (knows_loader e0)) = knows_files"
    by (simp_all add: knows_loader_def)
  ultimately obtain s1 stats where i: "import_snb_full knows_env ''data'' ''store'' (knows_loader e0) = (s1, Inr stats)"
    unfolding returns_def using e0 by metis
  from rebuild_matches_import [OF i] show ?thesis using e0 i by (auto simp: join_path_def)
qed

end
