(* ===== verification/Topology_Loader.thy ===== *)
theory Topology_Loader
  imports Snb_Loader Engine_Spec
begin

section \<open>Importing the topology\<close>

text \<open>
  \<^verbatim>\<open>src/loader/snb.rs\<close>: the edges of the benchmark's tables between raw vertex ids, without labels or
  properties, and the check of the friendships in the engine against their table. The state is the
  engine; the file system and the \<^verbatim>\<open>csv\<close> package are parameters.
\<close>

record validate_stats =
  va_checked_vertices :: nat
  va_expected_directed_edges :: nat
  va_actual_directed_edges :: nat

text \<open>\<^verbatim>\<open>str::parse\<close> of an unsigned integer, which takes no minus sign.\<close>

definition parse_vertex_id :: "string \<Rightarrow> vertex_id res" where
  "parse_vertex_id s = (case s of CHR ''-'' # _ \<Rightarrow> Inl (Parse_error s)
     | _ \<Rightarrow> rbind (parse_int 0 (2 ^ 64 - 1) s) (\<lambda>v. Inr (of_int v)))"

definition read_table :: "csv_package \<Rightarrow> file_system \<Rightarrow> string \<Rightarrow> csv_table res" where
  "read_table csv fs path = (case fs path of None \<Rightarrow> Inl Not_found | Some bs \<Rightarrow> csv bs)"

definition index_row :: "nat \<Rightarrow> nat \<Rightarrow> string list \<Rightarrow> (vertex_id \<times> vertex_id) res" where
  "index_row src_idx dst_idx r =
     rbind (rec_index r src_idx) (\<lambda>a. rbind (parse_vertex_id a) (\<lambda>src.
     rbind (rec_index r dst_idx) (\<lambda>b. rbind (parse_vertex_id b) (\<lambda>dst. Inr (src, dst)))))"

definition import_index_edge_file ::
  "csv_package \<Rightarrow> file_system \<Rightarrow> string \<Rightarrow> edge_type \<Rightarrow> bool \<Rightarrow> nat \<Rightarrow> nat \<Rightarrow> (engine, import_stats) st"
where
  "import_index_edge_file csv fs path edge_type bidirectional src_idx dst_idx =
     sbind (slift (read_table csv fs path)) (\<lambda>(_, records).
     sfor (\<lambda>r stats. sbind (slift (rbind r (index_row src_idx dst_idx))) (\<lambda>(src, dst).
       sbind (insert_edge src dst edge_type) (\<lambda>_.
       if bidirectional then
         sbind (insert_edge dst src edge_type) (\<lambda>_.
         sreturn (stats_add \<lparr>is_input_rows = 1, is_directed_edges = 2\<rparr> stats))
       else sreturn (stats_add \<lparr>is_input_rows = 1, is_directed_edges = 1\<rparr> stats)))) records no_stats)"

definition import_named_edge_file_inner ::
  "csv_package \<Rightarrow> file_system \<Rightarrow> string \<Rightarrow> string \<Rightarrow> string \<Rightarrow> edge_type \<Rightarrow> bool \<Rightarrow> (engine, import_stats) st"
where
  "import_named_edge_file_inner csv fs path src_col dst_col edge_type bidirectional =
     sbind (slift (read_table csv fs path)) (\<lambda>(headers, records).
     sbind (slift (idx headers src_col)) (\<lambda>src_idx.
     sbind (slift (idx headers dst_col)) (\<lambda>dst_idx.
     sfor (\<lambda>r stats. sbind (slift r) (\<lambda>r.
       let stats = stats\<lparr>is_input_rows := is_input_rows stats + 1\<rparr>;
           src_raw = trim (get_or_empty r src_idx);
           dst_raw = trim (get_or_empty r dst_idx)
       in if src_raw = '''' \<or> dst_raw = '''' then sreturn stats
          else sbind (slift (parse_vertex_id src_raw)) (\<lambda>src.
            sbind (slift (parse_vertex_id dst_raw)) (\<lambda>dst.
            sbind (insert_edge src dst edge_type) (\<lambda>_.
            if bidirectional then
              sbind (insert_edge dst src edge_type) (\<lambda>_.
              sreturn (stats\<lparr>is_directed_edges := is_directed_edges stats + 2\<rparr>))
            else sreturn (stats\<lparr>is_directed_edges := is_directed_edges stats + 1\<rparr>)))))) records no_stats)))"

definition import_named_edge_file ::
  "csv_package \<Rightarrow> file_system \<Rightarrow> string \<Rightarrow> string \<Rightarrow> string \<Rightarrow> edge_type \<Rightarrow> (engine, import_stats) st"
where
  "import_named_edge_file csv fs path src_col dst_col edge_type =
     import_named_edge_file_inner csv fs path src_col dst_col edge_type False"

definition import_reversed_named_edge_file ::
  "csv_package \<Rightarrow> file_system \<Rightarrow> string \<Rightarrow> string \<Rightarrow> string \<Rightarrow> edge_type \<Rightarrow> (engine, import_stats) st"
where
  "import_reversed_named_edge_file csv fs path src_col dst_col edge_type =
     import_named_edge_file_inner csv fs path src_col dst_col edge_type False"

abbreviation knows_table :: "string \<Rightarrow> string" where
  "knows_table csv_root \<equiv> join_path csv_root ''dynamic/person_knows_person_0_0.csv''"

definition import_person_knows :: "csv_package \<Rightarrow> file_system \<Rightarrow> string \<Rightarrow> (engine, import_stats) st" where
  "import_person_knows csv fs csv_root =
     sbind (import_index_edge_file csv fs (knows_table csv_root) (edge_label_i32 Knows) True 0 1) (\<lambda>stats.
     sbind flush_active (\<lambda>_. sreturn stats))"

text \<open>The tables of the topology, in the order they are read.\<close>

definition topology_index_tables :: "(string \<times> edge_label \<times> bool) list" where
  "topology_index_tables =
     [(''person_knows_person_0_0.csv'', Knows, True),
      (''person_likes_comment_0_0.csv'', LikesComment, False),
      (''person_likes_post_0_0.csv'', LikesPost, False),
      (''person_hasInterest_tag_0_0.csv'', HasInterest, False),
      (''person_studyAt_organisation_0_0.csv'', StudyAt, False),
      (''person_workAt_organisation_0_0.csv'', WorkAt, False),
      (''forum_hasMember_person_0_0.csv'', HasMember, False),
      (''forum_hasTag_tag_0_0.csv'', HasTag, False),
      (''comment_hasTag_tag_0_0.csv'', HasTag, False),
      (''post_hasTag_tag_0_0.csv'', HasTag, False)]"

definition topology_named_tables ::
  "csv_package \<Rightarrow> file_system \<Rightarrow> string \<Rightarrow> string \<Rightarrow> (engine, import_stats) st list"
where
  "topology_named_tables csv fs dynamic static_dir =
     [import_named_edge_file csv fs (join_path dynamic ''person_0_0.csv'') ''id'' ''place'' (edge_label_i32 IsLocatedIn),
      import_named_edge_file csv fs (join_path dynamic ''forum_0_0.csv'') ''id'' ''moderator'' (edge_label_i32 HasModerator),
      import_named_edge_file csv fs (join_path dynamic ''post_0_0.csv'') ''id'' ''creator'' (edge_label_i32 HasCreator),
      import_reversed_named_edge_file csv fs (join_path dynamic ''post_0_0.csv'') ''Forum.id'' ''id'' (edge_label_i32 ContainerOf),
      import_named_edge_file csv fs (join_path dynamic ''post_0_0.csv'') ''id'' ''place'' (edge_label_i32 IsLocatedIn),
      import_named_edge_file csv fs (join_path dynamic ''comment_0_0.csv'') ''id'' ''creator'' (edge_label_i32 HasCreator),
      import_named_edge_file csv fs (join_path dynamic ''comment_0_0.csv'') ''id'' ''place'' (edge_label_i32 IsLocatedIn),
      import_named_edge_file csv fs (join_path dynamic ''comment_0_0.csv'') ''id'' ''replyOfPost'' (edge_label_i32 ReplyOfPost),
      import_named_edge_file csv fs (join_path dynamic ''comment_0_0.csv'') ''id'' ''replyOfComment'' (edge_label_i32 ReplyOfComment),
      import_named_edge_file csv fs (join_path static_dir ''organisation_0_0.csv'') ''id'' ''place'' (edge_label_i32 IsLocatedIn),
      import_named_edge_file csv fs (join_path static_dir ''place_0_0.csv'') ''id'' ''isPartOf'' (edge_label_i32 IsPartOf),
      import_named_edge_file csv fs (join_path static_dir ''tag_0_0.csv'') ''id'' ''hasType'' (edge_label_i32 HasType),
      import_named_edge_file csv fs (join_path static_dir ''tagclass_0_0.csv'') ''id'' ''isSubclassOf'' (edge_label_i32 IsSubclassOf)]"

definition import_snb_topology :: "csv_package \<Rightarrow> file_system \<Rightarrow> string \<Rightarrow> (engine, import_stats) st" where
  "import_snb_topology csv fs csv_root =
     (let dynamic = join_path csv_root ''dynamic''; static_dir = join_path csv_root ''static''
      in sbind (sfor (\<lambda>table stats. sbind table (\<lambda>other. sreturn (stats_add other stats)))
           (map (\<lambda>(name, label, bidirectional).
               import_index_edge_file csv fs (join_path dynamic name) (edge_label_i32 label) bidirectional 0 1)
             topology_index_tables @ topology_named_tables csv fs dynamic static_dir) no_stats) (\<lambda>stats.
         sbind flush_active (\<lambda>_. sreturn stats)))"

subsection \<open>The check of the friendships\<close>

definition neighbour_set :: "(vertex_id, vertex_id set) hash_map \<Rightarrow> vertex_id \<Rightarrow> vertex_id set" where
  "neighbour_set m v = (case hm_get m v of None \<Rightarrow> {} | Some ns \<Rightarrow> ns)"

definition add_neighbour :: "vertex_id \<Rightarrow> vertex_id \<Rightarrow> (vertex_id, vertex_id set) hash_map \<Rightarrow> (vertex_id, vertex_id set) hash_map" where
  "add_neighbour a b m = hm_insert a (insert b (neighbour_set m a)) m"

definition load_person_knows_adjacency ::
  "csv_package \<Rightarrow> file_system \<Rightarrow> string \<Rightarrow> (vertex_id, vertex_id set) hash_map res"
where
  "load_person_knows_adjacency csv fs csv_root =
     rbind (read_table csv fs (knows_table csv_root)) (\<lambda>(_, records).
     rfold (\<lambda>r m. rbind (rbind r (index_row 0 1)) (\<lambda>(a, b). Inr (add_neighbour b a (add_neighbour a b m)))) records [])"

fun validate_loop ::
  "nat \<Rightarrow> snapshot_id \<Rightarrow> (vertex_id \<times> vertex_id set) list \<Rightarrow> validate_stats \<Rightarrow> (engine, validate_stats) st"
where
  "validate_loop max_vertices snapshot [] stats = sreturn stats"
| "validate_loop max_vertices snapshot ((src, expected) # rest) stats =
     (if max_vertices \<le> va_checked_vertices stats then sreturn stats
      else sbind (engine_get_neighbors src snapshot) (\<lambda>out.
        let actual = e_dst ` set (filter (\<lambda>e. e_type e = edge_label_i32 Knows) out)
        in if actual \<noteq> expected then sthrow (Unsupported ''person_knows mismatch'')
           else validate_loop max_vertices snapshot rest
             \<lparr>va_checked_vertices = va_checked_vertices stats + 1,
              va_expected_directed_edges = va_expected_directed_edges stats + card expected,
              va_actual_directed_edges = va_actual_directed_edges stats + card actual\<rparr>))"

definition validate_person_knows ::
  "csv_package \<Rightarrow> file_system \<Rightarrow> string \<Rightarrow> nat \<Rightarrow> (engine, validate_stats) st"
where
  "validate_person_knows csv fs csv_root max_vertices =
     sbind (slift (load_person_knows_adjacency csv fs csv_root)) (\<lambda>expected e.
     validate_loop max_vertices (current_snapshot e) expected
       \<lparr>va_checked_vertices = 0, va_expected_directed_edges = 0, va_actual_directed_edges = 0\<rparr> e)"

subsection \<open>The import is a run of insertions\<close>

definition knows_ops :: "(vertex_id \<times> vertex_id) list \<Rightarrow> engine_op list" where
  "knows_ops ps = concat (map (\<lambda>(a, b). [Put a b (edge_label_i32 Knows), Put b a (edge_label_i32 Knows)]) ps)"

lemma run_ops_append: "run_ops (xs @ ys) s = sbind (run_ops xs) (\<lambda>_. run_ops ys) s"
proof (induction xs arbitrary: s)
  case (Cons x xs)
  then show ?case by (simp add: sbind_def split: prod.splits sum.splits)
qed (simp add: sbind_def sreturn_def)

lemma import_loop_ops:
  assumes "rmap (\<lambda>r. rbind r (index_row 0 1)) rs = Inr ps" "tracks cfg n h e" "n \<le> 2 ^ 62"
    "length h + 2 * length ps < 2 ^ 30"
  shows "\<exists>e' stats'. sfor (\<lambda>r stats. sbind (slift (rbind r (index_row 0 1))) (\<lambda>(src, dst).
       sbind (insert_edge src dst (edge_label_i32 Knows)) (\<lambda>_.
       if True then
         sbind (insert_edge dst src (edge_label_i32 Knows)) (\<lambda>_.
         sreturn (stats_add \<lparr>is_input_rows = 1, is_directed_edges = 2\<rparr> stats))
       else sreturn (stats_add \<lparr>is_input_rows = 1, is_directed_edges = 1\<rparr> stats)))) rs stats e = (e', Inr stats') \<and>
     tracks cfg n (h @ knows_ops ps) e' \<and> stats' = \<lparr>is_input_rows = is_input_rows stats + length ps,
       is_directed_edges = is_directed_edges stats + 2 * length ps\<rparr>"
  using assms
proof (induction rs arbitrary: ps h e stats)
  case Nil
  then show ?case by (simp add: sreturn_def knows_ops_def)
next
  case (Cons r rs)
  obtain a b qs where p: "rbind r (index_row 0 1) = Inr (a, b)" "rmap (\<lambda>r. rbind r (index_row 0 1)) rs = Inr qs"
    "ps = (a, b) # qs"
    using Cons.prems(1) by (auto simp: rbind_Inr_iff [of "rbind r _"] rbind_Inr_iff [of "rmap _ _"])
  have len: "length h < 2 ^ 30" "length (h @ [Put a b (edge_label_i32 Knows)]) < 2 ^ 30"
    using Cons.prems(4) p(3) by simp_all
  obtain e1 where e1: "exec_op (Put a b (edge_label_i32 Knows)) e = (e1, Inr ())"
    "tracks cfg n (h @ [Put a b (edge_label_i32 Knows)]) e1"
    by (rule tracks_step [OF Cons.prems(2) len(1) Cons.prems(3)])
  obtain e2 where e2: "exec_op (Put b a (edge_label_i32 Knows)) e1 = (e2, Inr ())"
    "tracks cfg n ((h @ [Put a b (edge_label_i32 Knows)]) @ [Put b a (edge_label_i32 Knows)]) e2"
    by (rule tracks_step [OF e1(2) len(2) Cons.prems(3)])
  obtain t1 t2 where ins: "insert_edge a b (edge_label_i32 Knows) e = (e1, Inr t1)"
    "insert_edge b a (edge_label_i32 Knows) e1 = (e2, Inr t2)"
    using e1(1) e2(1) by (auto simp: sdrop_def sbind_def sreturn_def split: prod.splits sum.splits)
  let ?stats = "stats_add \<lparr>is_input_rows = 1, is_directed_edges = 2\<rparr> stats"
  have "\<exists>e' stats'. sfor (\<lambda>r stats. sbind (slift (rbind r (index_row 0 1))) (\<lambda>(src, dst).
       sbind (insert_edge src dst (edge_label_i32 Knows)) (\<lambda>_.
       if True then
         sbind (insert_edge dst src (edge_label_i32 Knows)) (\<lambda>_.
         sreturn (stats_add \<lparr>is_input_rows = 1, is_directed_edges = 2\<rparr> stats))
       else sreturn (stats_add \<lparr>is_input_rows = 1, is_directed_edges = 1\<rparr> stats)))) rs ?stats e2 = (e', Inr stats') \<and>
     tracks cfg n (((h @ [Put a b (edge_label_i32 Knows)]) @ [Put b a (edge_label_i32 Knows)]) @ knows_ops qs) e' \<and>
     stats' = \<lparr>is_input_rows = is_input_rows ?stats + length qs, is_directed_edges = is_directed_edges ?stats + 2 * length qs\<rparr>"
    by (rule Cons.IH [OF p(2) e2(2) Cons.prems(3)]) (use Cons.prems(4) p(3) in simp)
  moreover have "sbind (slift (rbind r (index_row 0 1))) (\<lambda>(src, dst).
       sbind (insert_edge src dst (edge_label_i32 Knows)) (\<lambda>_.
       if True then
         sbind (insert_edge dst src (edge_label_i32 Knows)) (\<lambda>_.
         sreturn (stats_add \<lparr>is_input_rows = 1, is_directed_edges = 2\<rparr> stats))
       else sreturn (stats_add \<lparr>is_input_rows = 1, is_directed_edges = 1\<rparr> stats))) e = (e2, Inr ?stats)"
    using p(1) ins by (simp add: sbind_def slift_def sreturn_def)
  ultimately show ?case
    by (simp only: sfor.simps sbind_simps(1)) (simp add: p(3) knows_ops_def stats_add_def)
qed

lemma edges_after_knows:
  "fold apply_op (knows_ops ps) E = E \<union> {(a, sint (edge_label_i32 Knows), b) |a b. (a, b) \<in> set ps \<or> (b, a) \<in> set ps}"
  by (induction ps arbitrary: E) (auto simp: knows_ops_def)

lemma writes_knows: "writes (knows_ops ps) = knows_ops ps"
  by (induction ps) (auto simp: knows_ops_def writes_def)

lemma length_knows_ops: "length (knows_ops ps) = 2 * length ps"
  by (induction ps) (auto simp: knows_ops_def)

lemma imported_engine:
  assumes "engine_create cfg n disk = (e0, Inr ())" "unat n < 2 ^ 62"
    and table: "read_table csv fs (knows_table csv_root) = Inr (h, rs)"
    and rows: "rmap (\<lambda>r. rbind r (index_row 0 1)) rs = Inr ps" and few: "2 * length ps + 1 < 2 ^ 30"
  obtains e where "import_person_knows csv fs csv_root e0 = (e, Inr \<lparr>is_input_rows = length ps, is_directed_edges = 2 * length ps\<rparr>)"
    "engine_inv e" "view e (en_ts e) = {(a, sint (edge_label_i32 Knows), b) |a b. (a, b) \<in> set ps \<or> (b, a) \<in> set ps}"
proof -
  obtain x y where "engine_create cfg n disk = (x, Inr ())" "run_ops [] x = (y, Inr ())" "tracks cfg (Suc (unat n)) [] y"
    by (rule created_run [of "[]" n cfg disk]) (use assms(2) in simp_all)
  then have t0: "tracks cfg (Suc (unat n)) [] e0" using assms(1) by (simp add: sreturn_def)
  have n: "Suc (unat n) \<le> 2 ^ 62" using assms(2) by simp
  obtain e1 where e1: "import_index_edge_file csv fs (knows_table csv_root) (edge_label_i32 Knows) True 0 1 e0 =
      (e1, Inr \<lparr>is_input_rows = length ps, is_directed_edges = 2 * length ps\<rparr>)"
    "tracks cfg (Suc (unat n)) (knows_ops ps) e1"
    using import_loop_ops [OF rows t0 n, of no_stats] few
    unfolding import_index_edge_file_def table sbind_slift prod.case by (auto simp: no_stats_def)
  have len: "length (knows_ops ps) < 2 ^ 30" using few by (simp add: length_knows_ops)
  obtain e where e: "flush_active e1 = (e, Inr ())" "tracks cfg (Suc (unat n)) (knows_ops ps @ [Flush]) e"
    by (rule tracks_step [OF e1(2) len n, of Flush]) simp
  have "import_person_knows csv fs csv_root e0 = (e, Inr \<lparr>is_input_rows = length ps, is_directed_edges = 2 * length ps\<rparr>)"
    using e1(1) e(1) by (simp add: import_person_knows_def sbind_def sreturn_def)
  moreover have "engine_inv e" using e(2) by (simp add: tracks_def)
  moreover have "view e (en_ts e) = {(a, sint (edge_label_i32 Knows), b) |a b. (a, b) \<in> set ps \<or> (b, a) \<in> set ps}"
    using e(2) stable_from_le [of cfg "knows_ops ps @ [Flush]"] edges_after_knows [of ps "{}"]
    by (simp add: tracks_def writes_knows edges_after_def del: edge_label_i32.simps)
  ultimately show thesis by (rule that)
qed

lemma neighbour_fold:
  assumes "rmap (\<lambda>r. rbind r (index_row 0 1)) rs = Inr ps" "hm_inv m"
  shows "\<exists>m'. rfold (\<lambda>r m. rbind (rbind r (index_row 0 1)) (\<lambda>(a, b). Inr (add_neighbour b a (add_neighbour a b m)))) rs m = Inr m' \<and>
    hm_inv m' \<and> (\<forall>v. hm_get m' v = (if hm_get m v = None \<and> v \<notin> fst ` set ps \<union> snd ` set ps then None
      else Some (neighbour_set m v \<union> {b. (v, b) \<in> set ps \<or> (b, v) \<in> set ps})))"
  using assms
proof (induction rs arbitrary: ps m)
  case Nil
  then show ?case by (auto simp: neighbour_set_def split: option.splits)
next
  case (Cons r rs)
  obtain a b qs where p: "rbind r (index_row 0 1) = Inr (a, b)" "rmap (\<lambda>r. rbind r (index_row 0 1)) rs = Inr qs"
    "ps = (a, b) # qs"
    using Cons.prems(1) by (auto simp: rbind_Inr_iff [of "rbind r _"] rbind_Inr_iff [of "rmap _ _"])
  let ?m = "add_neighbour b a (add_neighbour a b m)"
  have inv: "hm_inv ?m" using Cons.prems(2) by (simp add: add_neighbour_def hm.inv_ins)
  have get: "hm_get ?m v = (if v = b then Some (insert a (if b = a then insert b (neighbour_set m b) else neighbour_set m b))
      else if v = a then Some (insert b (neighbour_set m a)) else hm_get m v)" for v
    using Cons.prems(2) by (simp add: add_neighbour_def hm.inv_ins hm.get_ins neighbour_set_def)
  obtain m' where m': "rfold (\<lambda>r m. rbind (rbind r (index_row 0 1)) (\<lambda>(a, b). Inr (add_neighbour b a (add_neighbour a b m)))) rs ?m = Inr m'"
    "hm_inv m'" "\<forall>v. hm_get m' v = (if hm_get ?m v = None \<and> v \<notin> fst ` set qs \<union> snd ` set qs then None
      else Some (neighbour_set ?m v \<union> {b. (v, b) \<in> set qs \<or> (b, v) \<in> set qs}))"
    using Cons.IH [OF p(2) inv] by blast
  have "neighbour_set ?m v = neighbour_set m v \<union> {w. (v, w) = (a, b) \<or> (w, v) = (a, b)}" for v
    unfolding neighbour_set_def [of ?m] get by (auto simp: neighbour_set_def)
  then have "hm_get m' v = (if hm_get m v = None \<and> v \<notin> fst ` set ps \<union> snd ` set ps then None
      else Some (neighbour_set m v \<union> {b. (v, b) \<in> set ps \<or> (b, v) \<in> set ps}))" for v
    using m'(3) unfolding get p(3) by auto
  then show ?case using m'(1,2) p(1) by auto
qed

lemma validate_loop_ok:
  assumes "engine_inv e" "\<forall>(src, expected) \<in> set xs. expected = {d. (src, sint (edge_label_i32 Knows), d) \<in> view e snap}"
    and "va_checked_vertices stats \<le> k" "va_expected_directed_edges stats = va_actual_directed_edges stats"
  shows "\<exists>e' v. validate_loop k snap xs stats e = (e', Inr v) \<and>
    va_checked_vertices v = min k (va_checked_vertices stats + length xs) \<and>
    va_expected_directed_edges v = va_actual_directed_edges v"
  using assms
proof (induction xs arbitrary: e stats)
  case Nil
  then show ?case by (simp add: sreturn_def)
next
  case (Cons x xs)
  obtain src expected where x: "x = (src, expected)" by (cases x)
  show ?case
  proof (cases "k \<le> va_checked_vertices stats")
    case True
    then show ?thesis using Cons.prems x by (simp add: sreturn_def)
  next
    case False
    obtain c out where l: "get_neighbors_typed_internal src None snap e = (e\<lparr>en_cache := c\<rparr>, Inr out)"
      "engine_inv (e\<lparr>en_cache := c\<rparr>)" "records (e\<lparr>en_cache := c\<rparr>) = records e"
      "set out = {r \<in> latest (records e) snap. e_marker r = Insert \<and> e_src r = src \<and> of_type None r}"
      by (rule lookup_run [OF Cons.prems(1)])
    have inj: "sint (a :: i32) = sint b \<longleftrightarrow> a = b" for a b using signed_word_eqI by auto
    have "e_dst ` set (filter (\<lambda>e. e_type e = edge_label_i32 Knows) out) =
        {d. (src, sint (edge_label_i32 Knows), d) \<in> view e snap}"
      by (auto simp: l(4) view_def edge_key_def inj of_type_def image_iff simp del: edge_label_i32.simps)
    then have actual: "e_dst ` set (filter (\<lambda>e. e_type e = edge_label_i32 Knows) out) = expected"
      using Cons.prems(2) x by auto
    let ?stats = "\<lparr>va_checked_vertices = va_checked_vertices stats + 1,
        va_expected_directed_edges = va_expected_directed_edges stats + card expected,
        va_actual_directed_edges = va_actual_directed_edges stats + card expected\<rparr>"
    have "view (e\<lparr>en_cache := c\<rparr>) snap = view e snap" by (rule view_records [OF l(3)])
    then have "\<exists>e' v. validate_loop k snap xs ?stats (e\<lparr>en_cache := c\<rparr>) = (e', Inr v) \<and>
        va_checked_vertices v = min k (va_checked_vertices ?stats + length xs) \<and>
        va_expected_directed_edges v = va_actual_directed_edges v"
      by (intro Cons.IH [OF l(2)]) (use Cons.prems False in auto)
    then show ?thesis
      using False x actual l(1) by (auto simp: sbind_def engine_get_neighbors_def Let_def)
  qed
qed

text \<open>After an import of the friendships into a new engine, whose table may hold any well-formed
  rows, the check of the friendships returns without finding a difference: it looks at every person of
  the table, up to its limit, and counts as many edges as it expects.\<close>

lemma validate_after_import:
  assumes "engine_create cfg n disk = (e0, Inr ())" "unat n < 2 ^ 62"
    and "read_table csv fs (knows_table csv_root) = Inr (h, rs)"
    and "rmap (\<lambda>r. rbind r (index_row 0 1)) rs = Inr ps" "2 * length ps + 1 < 2 ^ 30"
  shows "\<exists>e1 stats e2 v. import_person_knows csv fs csv_root e0 = (e1, Inr stats) \<and>
    validate_person_knows csv fs csv_root max_vertices e1 = (e2, Inr v) \<and>
    va_checked_vertices v = min max_vertices (card (fst ` set ps \<union> snd ` set ps)) \<and>
    va_expected_directed_edges v = va_actual_directed_edges v"
proof -
  obtain e where e: "import_person_knows csv fs csv_root e0 = (e, Inr \<lparr>is_input_rows = length ps, is_directed_edges = 2 * length ps\<rparr>)"
    "engine_inv e" "view e (en_ts e) = {(a, sint (edge_label_i32 Knows), b) |a b. (a, b) \<in> set ps \<or> (b, a) \<in> set ps}"
    by (rule imported_engine [OF assms])
  have "hm_inv ([] :: (vertex_id, vertex_id set) hash_map)" by (rule hm.inv_empty)
  from neighbour_fold [OF assms(4) this] obtain m where m: "load_person_knows_adjacency csv fs csv_root = Inr m" "hm_inv m"
    "\<forall>v. hm_get m v = (if v \<notin> fst ` set ps \<union> snd ` set ps then None
      else Some {b. (v, b) \<in> set ps \<or> (b, v) \<in> set ps})"
    using assms(3) by (auto simp: load_person_knows_adjacency_def hm.get_empty neighbour_set_def)
  have "set (map fst m) = fst ` set ps \<union> snd ` set ps"
  proof -
    have "v \<in> set (map fst m) \<longleftrightarrow> hm_get m v \<noteq> None" for v
      by (simp add: hm_get_def map_of_eq_None_iff)
    then have "v \<in> set (map fst m) \<longleftrightarrow> v \<in> fst ` set ps \<union> snd ` set ps" for v
      using m(3) by simp
    then show ?thesis by blast
  qed
  then have len: "length m = card (fst ` set ps \<union> snd ` set ps)"
    using m(2) distinct_card [of "map fst m"] by (simp add: hm_inv_def)
  have "\<forall>(src, expected) \<in> set m. expected = {d. (src, sint (edge_label_i32 Knows), d) \<in> view e (en_ts e)}"
  proof (intro ballI)
    fix x assume x: "x \<in> set m"
    obtain src expected where p: "x = (src, expected)" by (cases x)
    have "hm_get m src = Some expected" using x p m(2) by (simp add: hm_get_def hm_inv_def)
    then have "expected = {b. (src, b) \<in> set ps \<or> (b, src) \<in> set ps}" using m(3) by (auto split: if_splits)
    then show "case x of (src, expected) \<Rightarrow> expected = {d. (src, sint (edge_label_i32 Knows), d) \<in> view e (en_ts e)}"
      using p e(3) by auto
  qed
  from validate_loop_ok [OF e(2) this, of "\<lparr>va_checked_vertices = 0, va_expected_directed_edges = 0, va_actual_directed_edges = 0\<rparr>" max_vertices]
  show ?thesis
    using e(1) m(1) len by (auto simp: validate_person_knows_def sbind_def slift_def current_snapshot_def)
qed

lemma validate_after_import_example:
  "\<exists>e0 e1 stats e2 v. engine_create (config_new ''db'') 1 (\<lambda>_. None, None) = (e0, Inr ()) \<and>
    import_person_knows (\<lambda>_. Inr ([''a'', ''b''], [Inr [''7'', ''8''], Inr [''8'', ''9'']])) (\<lambda>_. Some []) ''data'' e0 = (e1, Inr stats) \<and>
    validate_person_knows (\<lambda>_. Inr ([''a'', ''b''], [Inr [''7'', ''8''], Inr [''8'', ''9'']])) (\<lambda>_. Some []) ''data'' 10 e1 = (e2, Inr v) \<and>
    va_checked_vertices v = 3"
proof -
  let ?csv = "\<lambda>_. Inr ([''a'', ''b''], [Inr [''7'', ''8''], Inr [''8'', ''9'']])"
  obtain e0 where e0: "engine_create (config_new ''db'') 1 (\<lambda>_. None, None) = (e0, Inr ())"
    by (rule engine_create_run [of 1]) simp_all
  have t: "read_table ?csv (\<lambda>_. Some []) (knows_table ''data'') = Inr ([''a'', ''b''], [Inr [''7'', ''8''], Inr [''8'', ''9'']])"
    by (simp add: read_table_def)
  have r: "rmap (\<lambda>r. rbind r (index_row 0 1)) [Inr [''7'', ''8''], Inr [''8'', ''9'']] = Inr [(7, 8), (8, 9)]"
    by (simp add: index_row_def rec_index_def parse_vertex_id_def parse_int_def digits_value_def digit_value_def is_digit_def)
  let ?ps = "[(7, 8), (8, 9)] :: (vertex_id \<times> vertex_id) list"
  have "fst ` set ?ps \<union> snd ` set ?ps = {7, 8, 9}" by auto
  moreover have "card ({7, 8, 9} :: vertex_id set) = 3" by simp
  ultimately have "min 10 (card (fst ` set ?ps \<union> snd ` set ?ps)) = 3" by (simp only:)
  then show ?thesis using validate_after_import [OF e0 _ t r, of 10] e0 by auto
qed

end
