(* ===== verification/Snb_Validate.thy ===== *)
theory Snb_Validate
  imports Complex_Main Snb_Updates Snb_Import
begin

section \<open>Replaying validation files\<close>

text \<open>
  The validation functions of \<^verbatim>\<open>src/snb/queries.rs\<close>: a validation file has on each line the parameters of a
  request and the expected answer, in JSON, with a bar between them. The reader of JSON texts and
  \<^verbatim>\<open>as_f64\<close> are parameters beside the operations of \<open>json_ops\<close>; a JSON number is finite, so its
  \<^verbatim>\<open>f64\<close> is a rational. An answer of \<open>None\<close> is a path search that does not end.
\<close>

record 'j json_doc =
  jd_ops :: "'j json_ops"
  jd_parse :: "string \<Rightarrow> 'j res"
  jd_as_f64 :: "'j \<Rightarrow> rat option"

subsection \<open>Comparing answers\<close>

definition path_ids :: "'j json_ops \<Rightarrow> 'j \<Rightarrow> int list" where
  "path_ids J v = unwrap_or [] (do {
     ids \<leftarrow> j_get J v ''personIdsInPath'';
     items \<leftarrow> j_as_array J ids;
     Some (List.map_filter (j_as_i64 J) items) })"

definition path_weight_f64 :: "'j json_doc \<Rightarrow> 'j \<Rightarrow> rat" where
  "path_weight_f64 D v = unwrap_or 0 (do { w \<leftarrow> j_get (jd_ops D) v ''pathWeight''; jd_as_f64 D w })"

definition ic14_row_key :: "'j json_doc \<Rightarrow> 'j \<Rightarrow> rat reverse \<times> int list" where
  "ic14_row_key D row = (Reverse (path_weight_f64 D row), path_ids (jd_ops D) row)"

definition normalize_ic14 :: "'j json_doc \<Rightarrow> 'j \<Rightarrow> 'j" where
  "normalize_ic14 D v = (case j_as_array (jd_ops D) v of
     None \<Rightarrow> v
   | Some rows \<Rightarrow> j_array (jd_ops D) (sort_key (ic14_row_key D) rows))"

definition values_equal :: "'j json_doc \<Rightarrow> string \<Rightarrow> 'j \<Rightarrow> 'j \<Rightarrow> bool" where
  "values_equal D query_name actual expected =
     (if query_name \<noteq> ''IC14'' then actual = expected
      else normalize_ic14 D actual = normalize_ic14 D expected)"

definition supported_query_names :: "string list" where
  "supported_query_names =
     [''IC1'', ''IC2'', ''IC3'', ''IC4'', ''IC5'', ''IC6'', ''IC7'', ''IC8'', ''IC9'', ''IC10'', ''IC11'', ''IC12'',
      ''IC13'', ''IC14'', ''IS1'', ''IS2'', ''IS3'', ''IS4'', ''IS5'', ''IS6'', ''IS7'', ''IU1'', ''IU2'', ''IU3'',
      ''IU4'', ''IU5'', ''IU6'', ''IU7'', ''IU8'']"

subsection \<open>Reports\<close>

record 'j validation_report =
  vr_validation_params :: string
  vr_max_lines :: nat
  vr_checked :: nat
  vr_passed :: nat
  vr_skipped :: nat
  vr_failed :: nat
  vr_supported_queries :: "string list"
  vr_first_failure :: "'j option"

record 'j batch_validation_report =
  bv_validation_dir :: string
  bv_max_lines_per_query :: nat
  bv_reports :: "'j validation_report list"
  bv_checked :: nat
  bv_passed :: nat
  bv_skipped :: nat
  bv_failed :: nat

record 'j mixed_validation_report =
  mv_validation_params :: string
  mv_max_lines :: nat
  mv_processed :: nat
  mv_reads_checked :: nat
  mv_reads_passed :: nat
  mv_updates_applied :: nat
  mv_skipped :: nat
  mv_failed :: nat
  mv_supported_queries :: "string list"
  mv_first_failure :: "'j option"

text \<open>The local variables of the loops.\<close>

record 'j tally =
  t_checked :: nat
  t_passed :: nat
  t_skipped :: nat
  t_failed :: nat
  t_first_failure :: "'j option"

record 'j mixed_tally =
  m_processed :: nat
  m_reads_checked :: nat
  m_reads_passed :: nat
  m_updates_applied :: nat
  m_skipped :: nat
  m_failed :: nat
  m_first_failure :: "'j option"

definition failure_value :: "'j json_ops \<Rightarrow> nat \<Rightarrow> 'j \<Rightarrow> 'j \<Rightarrow> 'j \<Rightarrow> 'j" where
  "failure_value J line_no params expected actual = j_object J
     [(''line'', j_int J (int (line_no + 1))), (''params'', params), (''expected'', expected), (''actual'', actual)]"

text \<open>\<^verbatim>\<open>if first_failure.is_none()\<close>.\<close>

definition or_first :: "'a option \<Rightarrow> 'a \<Rightarrow> 'a option" where
  "or_first first_failure v = (case first_failure of None \<Rightarrow> Some v | Some w \<Rightarrow> Some w)"

text \<open>\<^verbatim>\<open>std::fs::read_to_string\<close>.\<close>

definition read_to_string :: "file_system \<Rightarrow> string \<Rightarrow> string res" where
  "read_to_string fs path = (case fs path of
     None \<Rightarrow> Inl Not_found
   | Some bs \<Rightarrow> let s = string_of_bytes bs in if valid_utf8 s then Inr s else Inl (Parse_error s))"

text \<open>The two halves of a line.\<close>

definition parse_line :: "'j json_doc \<Rightarrow> string \<Rightarrow> string \<Rightarrow> ('j \<times> 'j) res" where
  "parse_line D params_raw expected_raw =
     rbind (jd_parse D params_raw) (\<lambda>params. rbind (jd_parse D expected_raw) (\<lambda>expected. Inr (params, expected)))"

subsection \<open>Reads against one graph\<close>

definition tally_answer ::
  "'j json_doc \<Rightarrow> nat \<Rightarrow> 'j \<Rightarrow> 'j \<Rightarrow> (string \<times> 'j) option \<Rightarrow> 'j tally \<Rightarrow> 'j tally"
where
  "tally_answer D line_no params expected answer t =
     (case answer of
        None \<Rightarrow> t\<lparr>t_skipped := t_skipped t + 1\<rparr>
      | Some (query_name, actual) \<Rightarrow>
          let t = t\<lparr>t_checked := t_checked t + 1\<rparr>
          in if values_equal D query_name actual expected then t\<lparr>t_passed := t_passed t + 1\<rparr>
             else t\<lparr>t_failed := t_failed t + 1,
                    t_first_failure := or_first (t_first_failure t)
                      (failure_value (jd_ops D) line_no params expected actual)\<rparr>)"

fun validate_lines ::
  "'j json_doc \<Rightarrow> snb_graph \<Rightarrow> string option \<Rightarrow> nat \<Rightarrow> (nat \<times> string) list \<Rightarrow> 'j tally \<Rightarrow> 'j tally res option"
where
  "validate_lines D g query_hint max_lines [] t = Some (Inr t)"
| "validate_lines D g query_hint max_lines ((line_no, line) # ls) t =
     (if max_lines \<noteq> 0 \<and> max_lines \<le> t_checked t then Some (Inr t)
      else case split_once (CHR ''|'') line of
        None \<Rightarrow> validate_lines D g query_hint max_lines ls t
      | Some (params_raw, expected_raw) \<Rightarrow>
          (case parse_line D params_raw expected_raw of
             Inl err \<Rightarrow> Some (Inl err)
           | Inr (params, expected) \<Rightarrow>
               (case dispatch_query (jd_ops D) g params query_hint of
                  None \<Rightarrow> None
                | Some answer \<Rightarrow>
                    validate_lines D g query_hint max_lines ls (tally_answer D line_no params expected answer t))))"

definition tally_start :: "'j tally" where
  "tally_start = \<lparr>t_checked = 0, t_passed = 0, t_skipped = 0, t_failed = 0, t_first_failure = None\<rparr>"

definition validate_file_with_snb ::
  "'j json_doc \<Rightarrow> snb_graph \<Rightarrow> file_system \<Rightarrow> string \<Rightarrow> nat \<Rightarrow> string option \<Rightarrow> 'j validation_report res option"
where
  "validate_file_with_snb D g fs validation_params max_lines query_hint =
     (case read_to_string fs validation_params of
        Inl err \<Rightarrow> Some (Inl err)
      | Inr s \<Rightarrow>
          map_option (\<lambda>r. rbind r (\<lambda>t. Inr
              \<lparr>vr_validation_params = validation_params, vr_max_lines = max_lines, vr_checked = t_checked t,
               vr_passed = t_passed t, vr_skipped = t_skipped t, vr_failed = t_failed t,
               vr_supported_queries = supported_query_names, vr_first_failure = t_first_failure t\<rparr>))
            (validate_lines D g query_hint max_lines (enumerate 0 (split_lines s)) tally_start))"

subsection \<open>Reads and updates in one file\<close>

definition tally_read ::
  "'j json_doc \<Rightarrow> nat \<Rightarrow> 'j \<Rightarrow> 'j \<Rightarrow> (string \<times> 'j) option \<Rightarrow> 'j mixed_tally \<Rightarrow> 'j mixed_tally"
where
  "tally_read D line_no params expected answer t =
     (case answer of
        None \<Rightarrow> t\<lparr>m_skipped := m_skipped t + 1\<rparr>
      | Some (query_name, actual) \<Rightarrow>
          let t = t\<lparr>m_reads_checked := m_reads_checked t + 1\<rparr>
          in if values_equal D query_name actual expected then t\<lparr>m_reads_passed := m_reads_passed t + 1\<rparr>
             else t\<lparr>m_failed := m_failed t + 1,
                    m_first_failure := or_first (m_first_failure t)
                      (failure_value (jd_ops D) line_no params expected actual)\<rparr>)"

fun validate_mixed_lines ::
  "'j json_doc \<Rightarrow> nat \<Rightarrow> (nat \<times> string) list \<Rightarrow> 'j mixed_tally \<Rightarrow> snb_graph \<Rightarrow> (snb_graph \<times> 'j mixed_tally res) option"
where
  "validate_mixed_lines D max_lines [] t g = Some (g, Inr t)"
| "validate_mixed_lines D max_lines ((line_no, line) # ls) t g =
     (if max_lines \<noteq> 0 \<and> max_lines \<le> m_processed t then Some (g, Inr t)
      else case split_once (CHR ''|'') line of
        None \<Rightarrow> validate_mixed_lines D max_lines ls t g
      | Some (params_raw, expected_raw) \<Rightarrow>
          let t = t\<lparr>m_processed := m_processed t + 1\<rparr>
          in case parse_line D params_raw expected_raw of
             Inl err \<Rightarrow> Some (g, Inl err)
           | Inr (params, expected) \<Rightarrow>
               if j_as_str (jd_ops D) expected = Some ''-1'' then
                 (case update_endpoint_for_params (jd_ops D) params of
                    Some endpoint \<Rightarrow>
                      (case run_dgs_http_update (jd_ops D) endpoint params g of
                         (g, Inl err) \<Rightarrow> Some (g, Inl err)
                       | (g, Inr _) \<Rightarrow>
                           validate_mixed_lines D max_lines ls (t\<lparr>m_updates_applied := m_updates_applied t + 1\<rparr>) g)
                  | None \<Rightarrow> validate_mixed_lines D max_lines ls (t\<lparr>m_skipped := m_skipped t + 1\<rparr>) g)
               else
                 (case dispatch_query (jd_ops D) g params None of
                    None \<Rightarrow> None
                  | Some answer \<Rightarrow>
                      validate_mixed_lines D max_lines ls (tally_read D line_no params expected answer t) g))"

definition mixed_start :: "'j mixed_tally" where
  "mixed_start = \<lparr>m_processed = 0, m_reads_checked = 0, m_reads_passed = 0, m_updates_applied = 0, m_skipped = 0,
     m_failed = 0, m_first_failure = None\<rparr>"

definition validate_mixed_file_with_snb ::
  "'j json_doc \<Rightarrow> file_system \<Rightarrow> string \<Rightarrow> nat \<Rightarrow> snb_graph \<Rightarrow> (snb_graph \<times> 'j mixed_validation_report res) option"
where
  "validate_mixed_file_with_snb D fs validation_params max_lines g =
     (case read_to_string fs validation_params of
        Inl err \<Rightarrow> Some (g, Inl err)
      | Inr s \<Rightarrow>
          map_option (\<lambda>(g, r). (g, rbind r (\<lambda>t. Inr
              \<lparr>mv_validation_params = validation_params, mv_max_lines = max_lines, mv_processed = m_processed t,
               mv_reads_checked = m_reads_checked t, mv_reads_passed = m_reads_passed t,
               mv_updates_applied = m_updates_applied t, mv_skipped = m_skipped t, mv_failed = m_failed t,
               mv_supported_queries = supported_query_names, mv_first_failure = m_first_failure t\<rparr>)))
            (validate_mixed_lines D max_lines (enumerate 0 (split_lines s)) mixed_start g))"

subsection \<open>The entry points\<close>

text \<open>Opening the store may write the adjacency cache; what follows reads the files as they are then.\<close>

definition with_open_graph ::
  "row_json \<Rightarrow> string \<Rightarrow> engine \<Rightarrow> (snb_graph \<Rightarrow> file_system \<Rightarrow> 'a res option) \<Rightarrow> snb_store \<Rightarrow> (snb_store \<times> 'a res) option"
where
  "with_open_graph json store_dir e f s =
     (case snb_open json store_dir e s of
        (s', Inl err) \<Rightarrow> Some (s', Inl err)
      | (s', Inr g) \<Rightarrow> map_option (\<lambda>r. (s', r)) (f g (ss_files s')))"

definition validate_ic1_ic14 ::
  "'j json_doc \<Rightarrow> row_json \<Rightarrow> engine \<Rightarrow> string \<Rightarrow> string \<Rightarrow> nat \<Rightarrow> snb_store \<Rightarrow> (snb_store \<times> 'j validation_report res) option"
where
  "validate_ic1_ic14 D json e store_dir validation_params max_lines =
     with_open_graph json store_dir e (\<lambda>g fs. validate_file_with_snb D g fs validation_params max_lines None)"

definition missing_split_report :: "'j json_ops \<Rightarrow> string \<Rightarrow> string \<Rightarrow> nat \<Rightarrow> 'j validation_report" where
  "missing_split_report J query path max_lines_per_query =
     \<lparr>vr_validation_params = path, vr_max_lines = max_lines_per_query, vr_checked = 0, vr_passed = 0, vr_skipped = 0,
      vr_failed = 1, vr_supported_queries = supported_query_names,
      vr_first_failure = Some (j_object J
        [(''error'', j_str J ''validation split file not found''), (''query'', j_str J query), (''path'', j_str J path)])\<rparr>"

fun validate_batch_loop ::
  "'j json_doc \<Rightarrow> snb_graph \<Rightarrow> file_system \<Rightarrow> string \<Rightarrow> nat \<Rightarrow> string list \<Rightarrow> 'j validation_report list \<Rightarrow>
   'j validation_report list res option"
where
  "validate_batch_loop D g fs validation_dir max_lines_per_query [] reports = Some (Inr reports)"
| "validate_batch_loop D g fs validation_dir max_lines_per_query (q # queries) reports =
     (let query = to_ascii_lowercase (trim q)
      in if query = [] then validate_batch_loop D g fs validation_dir max_lines_per_query queries reports
         else let path = join_path validation_dir (''validation_params_'' @ query @ ''.csv'')
         in if fs path = None then
              validate_batch_loop D g fs validation_dir max_lines_per_query queries
                (reports @ [missing_split_report (jd_ops D) query path max_lines_per_query])
            else case validate_file_with_snb D g fs path max_lines_per_query (Some query) of
              None \<Rightarrow> None
            | Some (Inl err) \<Rightarrow> Some (Inl err)
            | Some (Inr report) \<Rightarrow>
                validate_batch_loop D g fs validation_dir max_lines_per_query queries (reports @ [report]))"

definition validate_ic_batch ::
  "'j json_doc \<Rightarrow> row_json \<Rightarrow> engine \<Rightarrow> string \<Rightarrow> string \<Rightarrow> string list \<Rightarrow> nat \<Rightarrow> snb_store \<Rightarrow>
   (snb_store \<times> 'j batch_validation_report res) option"
where
  "validate_ic_batch D json e store_dir validation_dir queries max_lines_per_query =
     with_open_graph json store_dir e (\<lambda>g fs.
       map_option (\<lambda>r. rbind r (\<lambda>reports. Inr
           \<lparr>bv_validation_dir = validation_dir, bv_max_lines_per_query = max_lines_per_query, bv_reports = reports,
            bv_checked = sum_list (map vr_checked reports), bv_passed = sum_list (map vr_passed reports),
            bv_skipped = sum_list (map vr_skipped reports), bv_failed = sum_list (map vr_failed reports)\<rparr>))
         (validate_batch_loop D g fs validation_dir max_lines_per_query queries []))"

definition validate_mixed_tugraph ::
  "'j json_doc \<Rightarrow> row_json \<Rightarrow> engine \<Rightarrow> string \<Rightarrow> string \<Rightarrow> nat \<Rightarrow> snb_store \<Rightarrow>
   (snb_store \<times> 'j mixed_validation_report res) option"
where
  "validate_mixed_tugraph D json e store_dir validation_params max_lines =
     with_open_graph json store_dir e (\<lambda>g fs.
       map_option snd (validate_mixed_file_with_snb D fs validation_params max_lines g))"

end
