(* ===== verification/Snb_Replay.thy ===== *)
theory Snb_Replay
  imports Snb_Validate
begin

section \<open>What a replay reports\<close>

text \<open>
  The loop over a mixed validation file, against a description of what it should do: the lines with a bar
  are the items of the file, every update item changes the graph, and every read item is answered on the
  graph that the updates before it have made.
\<close>

subsection \<open>The items of a file\<close>

type_synonym 'j item = "nat \<times> 'j \<times> 'j"

definition item_of_line :: "'j json_doc \<Rightarrow> nat \<times> string \<Rightarrow> 'j item res option" where
  "item_of_line D l = map_option (\<lambda>(p, e). rbind (parse_line D p e) (\<lambda>(p, e). Inr (fst l, p, e)))
     (split_once (CHR ''|'') (snd l))"

definition file_items :: "'j json_doc \<Rightarrow> string \<Rightarrow> 'j item res list" where
  "file_items D s = List.map_filter (item_of_line D) (enumerate 0 (split_lines s))"

text \<open>The items before the first that does not parse, and its error.\<close>

fun parsed_prefix :: "'a res list \<Rightarrow> 'a list \<times> lsm_error option" where
  "parsed_prefix [] = ([], None)"
| "parsed_prefix (Inl e # rs) = ([], Some e)"
| "parsed_prefix (Inr x # rs) = map_prod (Cons x) id (parsed_prefix rs)"

definition at_most :: "nat \<Rightarrow> 'a list \<Rightarrow> 'a list" where
  "at_most n xs = (if n = 0 then xs else take n xs)"

definition is_update :: "'j json_doc \<Rightarrow> 'j item \<Rightarrow> bool" where
  "is_update D = (\<lambda>(n, p, e). j_as_str (jd_ops D) e = Some ''-1'')"

definition item_endpoint :: "'j json_doc \<Rightarrow> 'j item \<Rightarrow> string option" where
  "item_endpoint D = (\<lambda>(n, p, e). update_endpoint_for_params (jd_ops D) p)"

definition apply_item :: "'j json_doc \<Rightarrow> 'j item \<Rightarrow> snb_graph \<Rightarrow> snb_graph" where
  "apply_item D it g = (if is_update D it then
     case item_endpoint D it of None \<Rightarrow> g
     | Some ep \<Rightarrow> fst (run_dgs_http_update (jd_ops D) ep (fst (snd it)) g) else g)"

text \<open>The graph an item meets, and how a read item is answered there.\<close>

definition graph_at :: "'j json_doc \<Rightarrow> 'j item list \<Rightarrow> snb_graph \<Rightarrow> nat \<Rightarrow> snb_graph" where
  "graph_at D its g i = fold (apply_item D) (take i its) g"

definition item_answer :: "'j json_doc \<Rightarrow> snb_graph \<Rightarrow> 'j item \<Rightarrow> (string \<times> 'j) option option" where
  "item_answer D g it = dispatch_query (jd_ops D) g (fst (snd it)) None"

definition item_known :: "'j json_doc \<Rightarrow> snb_graph \<Rightarrow> 'j item \<Rightarrow> bool" where
  "item_known D g it = (if is_update D it then item_endpoint D it \<noteq> None else item_answer D g it \<noteq> Some None)"

definition item_passes :: "'j json_doc \<Rightarrow> snb_graph \<Rightarrow> 'j item \<Rightarrow> bool" where
  "item_passes D g it = (case item_answer D g it of
     Some (Some (name, actual)) \<Rightarrow> values_equal D name actual (snd (snd it)) | _ \<Rightarrow> False)"

definition item_failure :: "'j json_doc \<Rightarrow> snb_graph \<Rightarrow> 'j item \<Rightarrow> 'j" where
  "item_failure D g it =
     failure_value (jd_ops D) (fst it) (fst (snd it)) (snd (snd it)) (snd (the (the (item_answer D g it))))"

text \<open>Counting the items with a property of the item and of the graph it meets.\<close>

definition count_items ::
  "'j json_doc \<Rightarrow> (snb_graph \<Rightarrow> 'j item \<Rightarrow> bool) \<Rightarrow> 'j item list \<Rightarrow> snb_graph \<Rightarrow> nat" where
  "count_items D P its g = length (filter (\<lambda>i. P (graph_at D its g i) (its ! i)) [0..<length its])"

definition first_item ::
  "'j json_doc \<Rightarrow> (snb_graph \<Rightarrow> 'j item \<Rightarrow> bool) \<Rightarrow> 'j item list \<Rightarrow> snb_graph \<Rightarrow> nat option" where
  "first_item D P its g = List.find (\<lambda>i. P (graph_at D its g i) (its ! i)) [0..<length its]"

lemma graph_at_snoc: "i \<le> length its \<Longrightarrow> graph_at D (its @ [it]) g i = graph_at D its g i"
  by (simp add: graph_at_def)

lemma graph_at_end [simp]: "graph_at D its g (length its) = fold (apply_item D) its g"
  by (simp add: graph_at_def)

lemma count_items_Nil [simp]: "count_items D P [] g = 0"
  by (simp add: count_items_def)

lemma first_item_Nil [simp]: "first_item D P [] g = None"
  by (simp add: first_item_def)

lemma count_items_snoc [simp]:
  "count_items D P (its @ [it]) g = count_items D P its g + (if P (fold (apply_item D) its g) it then 1 else 0)"
proof -
  have "filter (\<lambda>i. P (graph_at D (its @ [it]) g i) ((its @ [it]) ! i)) [0..<length its] =
      filter (\<lambda>i. P (graph_at D its g i) (its ! i)) [0..<length its]"
    by (rule filter_cong) (auto simp: graph_at_snoc nth_append)
  then show ?thesis by (simp add: count_items_def graph_at_snoc nth_append)
qed

lemma find_append: "List.find P (xs @ ys) = (case List.find P xs of None \<Rightarrow> List.find P ys | Some x \<Rightarrow> Some x)"
  by (induction xs) auto

lemma first_item_snoc:
  "first_item D P (its @ [it]) g = (case first_item D P its g of
     Some i \<Rightarrow> Some i | None \<Rightarrow> if P (fold (apply_item D) its g) it then Some (length its) else None)"
proof -
  have "List.find (\<lambda>i. P (graph_at D (its @ [it]) g i) ((its @ [it]) ! i)) [0..<length its] =
      List.find (\<lambda>i. P (graph_at D its g i) (its ! i)) [0..<length its]"
    by (rule find_cong) (auto simp: graph_at_snoc nth_append)
  then show ?thesis by (simp add: first_item_def find_append graph_at_snoc nth_append split: option.splits)
qed

lemma first_item_less: "first_item D P its g = Some i \<Longrightarrow> i < length its"
  by (auto simp: first_item_def find_Some_iff)

subsection \<open>The loop is a fold over the items\<close>

text \<open>The report of the items, counted.\<close>

definition is_read_known :: "'j json_doc \<Rightarrow> snb_graph \<Rightarrow> 'j item \<Rightarrow> bool" where
  "is_read_known D g it \<longleftrightarrow> \<not> is_update D it \<and> item_known D g it"

definition is_read_failed :: "'j json_doc \<Rightarrow> snb_graph \<Rightarrow> 'j item \<Rightarrow> bool" where
  "is_read_failed D g it \<longleftrightarrow> is_read_known D g it \<and> \<not> item_passes D g it"

definition tally_of :: "'j json_doc \<Rightarrow> 'j item list \<Rightarrow> snb_graph \<Rightarrow> 'j mixed_tally" where
  "tally_of D its g =
     \<lparr>m_processed = length its,
      m_reads_checked = count_items D (is_read_known D) its g,
      m_reads_passed = count_items D (\<lambda>g it. is_read_known D g it \<and> item_passes D g it) its g,
      m_updates_applied = count_items D (\<lambda>g it. is_update D it \<and> item_known D g it) its g,
      m_skipped = count_items D (\<lambda>g it. \<not> item_known D g it) its g,
      m_failed = count_items D (is_read_failed D) its g,
      m_first_failure = map_option (\<lambda>i. item_failure D (graph_at D its g i) (its ! i))
        (first_item D (is_read_failed D) its g)\<rparr>"

text \<open>One round of the loop.\<close>

definition tally_item :: "'j json_doc \<Rightarrow> snb_graph \<Rightarrow> 'j item \<Rightarrow> 'j mixed_tally \<Rightarrow> 'j mixed_tally" where
  "tally_item D g it t =
     (let t = t\<lparr>m_processed := m_processed t + 1\<rparr>
      in if is_update D it then
           (case item_endpoint D it of
              Some _ \<Rightarrow> t\<lparr>m_updates_applied := m_updates_applied t + 1\<rparr>
            | None \<Rightarrow> t\<lparr>m_skipped := m_skipped t + 1\<rparr>)
         else tally_read D (fst it) (fst (snd it)) (snd (snd it)) (the (item_answer D g it)) t)"

lemma tally_of_Nil: "tally_of D [] g = mixed_start"
  by (simp add: tally_of_def mixed_start_def)

lemma tally_of_snoc:
  assumes "\<not> is_update D it \<longrightarrow> item_answer D (fold (apply_item D) its g) it \<noteq> None"
  shows "tally_of D (its @ [it]) g = tally_item D (fold (apply_item D) its g) it (tally_of D its g)"
proof -
  have "map_option (\<lambda>i. item_failure D (graph_at D (its @ [it]) g i) ((its @ [it]) ! i))
        (first_item D (is_read_failed D) (its @ [it]) g) =
      (case map_option (\<lambda>i. item_failure D (graph_at D its g i) (its ! i)) (first_item D (is_read_failed D) its g) of
         Some v \<Rightarrow> Some v
       | None \<Rightarrow> if is_read_failed D (fold (apply_item D) its g) it
           then Some (item_failure D (fold (apply_item D) its g) it) else None)"
    by (auto simp: first_item_snoc graph_at_snoc nth_append dest!: first_item_less split: option.splits)
  with assms show ?thesis
    by (cases "item_answer D (fold (apply_item D) its g) it"; cases "item_endpoint D it")
      (auto simp: tally_of_def tally_item_def Let_def tally_read_def is_read_failed_def is_read_known_def item_known_def
        item_passes_def item_failure_def or_first_def split: option.splits)
qed

text \<open>The rounds in order, with the graph they leave; \<open>read_answers\<close>: no path search runs forever.\<close>

fun tally_items :: "'j json_doc \<Rightarrow> 'j item list \<Rightarrow> snb_graph \<Rightarrow> 'j mixed_tally \<Rightarrow> 'j mixed_tally" where
  "tally_items D [] g t = t"
| "tally_items D (it # its) g t = tally_items D its (apply_item D it g) (tally_item D g it t)"

fun read_answers :: "'j json_doc \<Rightarrow> 'j item list \<Rightarrow> snb_graph \<Rightarrow> bool" where
  "read_answers D [] g = True"
| "read_answers D (it # its) g \<longleftrightarrow>
     (\<not> is_update D it \<longrightarrow> item_answer D g it \<noteq> None) \<and> read_answers D its (apply_item D it g)"

lemma tally_items_snoc:
  "tally_items D (its @ [it]) g t = tally_item D (fold (apply_item D) its g) it (tally_items D its g t)"
  by (induction its arbitrary: g t) auto

lemma read_answers_snoc:
  "read_answers D (its @ [it]) g \<longleftrightarrow>
     read_answers D its g \<and> (\<not> is_update D it \<longrightarrow> item_answer D (fold (apply_item D) its g) it \<noteq> None)"
  by (induction its arbitrary: g) auto

lemma read_answersI:
  "\<forall>i < length its. \<not> is_update D (its ! i) \<longrightarrow> item_answer D (graph_at D its g i) (its ! i) \<noteq> None \<Longrightarrow>
   read_answers D its g"
proof (induction its rule: rev_induct)
  case (snoc it its)
  have "read_answers D its g"
  proof (rule snoc.IH, intro allI impI)
    fix i assume "i < length its" "\<not> is_update D (its ! i)"
    then show "item_answer D (graph_at D its g i) (its ! i) \<noteq> None"
      using snoc.prems [rule_format, of i] by (simp add: nth_append graph_at_snoc)
  qed
  with snoc.prems [rule_format, of "length its"] show ?case
    by (simp add: read_answers_snoc graph_at_snoc)
qed simp

lemma tally_items_counts: "read_answers D its g \<Longrightarrow> tally_items D its g mixed_start = tally_of D its g"
  by (induction its rule: rev_induct) (simp_all add: tally_of_Nil tally_items_snoc tally_of_snoc read_answers_snoc)

lemma processed_tally_item [simp]: "m_processed (tally_item D g it t) = Suc (m_processed t)"
  by (simp add: tally_item_def Let_def tally_read_def split: option.splits)

text \<open>An update that the parameters select is never refused.\<close>

lemma update_accepted:
  "update_endpoint_for_params J p = Some ep \<Longrightarrow> snd (run_dgs_http_update J ep p g) = Inr (j_object J [])"
  by (auto simp: update_endpoint_for_params_def run_dgs_http_update_def Let_def split: if_splits)

definition remaining :: "nat \<Rightarrow> nat \<Rightarrow> 'a list \<Rightarrow> 'a list" where
  "remaining n k xs = (if n = 0 then xs else take (n - k) xs)"

lemma remaining_Cons:
  "n = 0 \<or> k < n \<Longrightarrow> remaining n k (x # xs) = x # remaining n (Suc k) xs"
  by (cases "n - k") (auto simp: remaining_def Suc_diff_Suc intro!: arg_cong [where f = "\<lambda>m. take m xs"])

lemma remaining_done: "n \<noteq> 0 \<Longrightarrow> n \<le> k \<Longrightarrow> remaining n k xs = []"
  by (simp add: remaining_def)

lemma mixed_lines_items:
  assumes "parsed_prefix (remaining max_lines (m_processed t) (List.map_filter (item_of_line D) ls)) = (its, r)"
    and "read_answers D its g"
  shows "validate_mixed_lines D max_lines ls t g =
    Some (fold (apply_item D) its g, case r of None \<Rightarrow> Inr (tally_items D its g t) | Some e \<Rightarrow> Inl e)"
  using assms
proof (induction ls arbitrary: t g its)
  case Nil
  then show ?case by (auto simp: remaining_def split: if_splits)
next
  case (Cons l ls)
  obtain n line where l: "l = (n, line)" by (cases l)
  show ?case
  proof (cases "max_lines \<noteq> 0 \<and> max_lines \<le> m_processed t")
    case True
    with Cons.prems show ?thesis by (auto simp: l remaining_done)
  next
    case more: False
    show ?thesis
    proof (cases "split_once (CHR ''|'') line")
      case None
      then have "item_of_line D l = None" by (simp add: l item_of_line_def)
      with Cons.prems(1) have "parsed_prefix (remaining max_lines (m_processed t)
          (List.map_filter (item_of_line D) ls)) = (its, r)"
        by (simp add: List.map_filter_simps)
      from Cons.IH [OF this Cons.prems(2)] more None show ?thesis by (auto simp: l)
    next
      case (Some halves)
      then obtain p e where halves: "split_once (CHR ''|'') line = Some (p, e)" by (cases halves) auto
      show ?thesis
      proof (cases "parse_line D p e")
        case (Inl err)
        with Cons.prems more show ?thesis
          by (auto simp: l halves item_of_line_def List.map_filter_simps remaining_Cons)
      next
        case (Inr pe)
        then obtain params expected where pe: "parse_line D p e = Inr (params, expected)" by (cases pe) auto
        define it where "it = (n, params, expected)"
        have line_item: "item_of_line D l = Some (Inr it)"
          by (simp add: l halves pe it_def item_of_line_def)
        obtain its' where its: "its = it # its'"
          and rest: "parsed_prefix (remaining max_lines (m_processed (tally_item D g it t))
            (List.map_filter (item_of_line D) ls)) = (its', r)"
          using Cons.prems(1) more
          by (auto simp: line_item List.map_filter_simps remaining_Cons map_prod_def split: prod.splits)
        have answers: "read_answers D its' (apply_item D it g)" "\<not> is_update D it \<longrightarrow> item_answer D g it \<noteq> None"
          using Cons.prems(2) by (simp_all add: its)
        note IH = Cons.IH [OF rest answers(1)]
        have "validate_mixed_lines D max_lines (l # ls) t g =
            validate_mixed_lines D max_lines ls (tally_item D g it t) (apply_item D it g)"
        proof (cases "is_update D it")
          case True
          then have "j_as_str (jd_ops D) expected = Some ''-1''" by (simp add: it_def is_update_def)
          with more True show ?thesis
            using update_accepted [of "jd_ops D" params _ g]
            by (auto simp: l halves pe it_def tally_item_def apply_item_def item_endpoint_def Let_def
                split: option.splits prod.splits sum.splits)
        next
          case False
          then have "j_as_str (jd_ops D) expected \<noteq> Some ''-1''" by (simp add: it_def is_update_def)
          with more False answers(2) show ?thesis
            by (auto simp: l halves pe it_def tally_item_def apply_item_def item_answer_def Let_def)
        qed
        with IH show ?thesis by (simp add: its split: option.split)
      qed
    qed
  qed
qed

subsection \<open>The report of a mixed replay\<close>

text \<open>C15. A replay of a mixed file stops at the first line that does not parse, with the updates before it
  applied and its error as the answer; without such a line it reports exactly: every update applied in its
  place, every read answered on the graph of the updates before it, each item counted once under what became
  of it, and the failed read that comes first.\<close>

theorem mixed_replay_exact:
  assumes "fs path = Some bs" "valid_utf8 (string_of_bytes bs)"
    and "parsed_prefix (at_most max_lines (file_items D (string_of_bytes bs))) = (its, err)"
    and "\<forall>i < length its. \<not> is_update D (its ! i) \<longrightarrow> item_answer D (graph_at D its g i) (its ! i) \<noteq> None"
  shows "\<exists>res. validate_mixed_file_with_snb D fs path max_lines g = Some (fold (apply_item D) its g, res) \<and>
    (case err of
       Some e \<Rightarrow> res = Inl e
     | None \<Rightarrow> \<exists>r. res = Inr r \<and> mv_processed r = length its \<and>
         mv_updates_applied r = count_items D (\<lambda>g it. is_update D it \<and> item_known D g it) its g \<and>
         mv_reads_checked r = count_items D (is_read_known D) its g \<and>
         mv_reads_passed r = count_items D (\<lambda>g it. is_read_known D g it \<and> item_passes D g it) its g \<and>
         mv_failed r = count_items D (\<lambda>g it. is_read_known D g it \<and> \<not> item_passes D g it) its g \<and>
         mv_skipped r = count_items D (\<lambda>g it. \<not> item_known D g it) its g \<and>
         mv_first_failure r = map_option (\<lambda>i. item_failure D (graph_at D its g i) (its ! i))
           (first_item D (\<lambda>g it. is_read_known D g it \<and> \<not> item_passes D g it) its g))"
proof -
  have remaining: "remaining max_lines (m_processed (mixed_start :: 'a mixed_tally)) xs = at_most max_lines xs"
    for xs :: "'a item res list"
    by (simp add: remaining_def at_most_def mixed_start_def)
  have answers: "read_answers D its g" by (rule read_answersI) (rule assms(4))
  have failed: "is_read_failed D = (\<lambda>g it. is_read_known D g it \<and> \<not> item_passes D g it)"
    by (intro ext) (simp add: is_read_failed_def)
  have "validate_mixed_lines D max_lines (enumerate 0 (split_lines (string_of_bytes bs))) mixed_start g =
      Some (fold (apply_item D) its g, case err of None \<Rightarrow> Inr (tally_of D its g) | Some e \<Rightarrow> Inl e)"
    unfolding tally_items_counts [OF answers, symmetric]
    by (rule mixed_lines_items [OF _ answers]) (simp add: remaining assms(3) [unfolded file_items_def] del: split_lines.simps)
  then show ?thesis
    using assms(1,2)
    by (cases err) (simp_all add: validate_mixed_file_with_snb_def read_to_string_def Let_def tally_of_def failed del: split_lines.simps)
qed

text \<open>A file that asks for a person, adds the person and asks again; a JSON value is its text here.\<close>

definition replay_json :: "string json_doc" where
  "replay_json = \<lparr>jd_ops =
     \<lparr>j_get = (\<lambda>v key. if v = ''u'' \<and> key \<in> {''firstName'', ''lastName'', ''birthday'', ''personId''} \<or>
          v = ''q'' \<and> key = ''personIdSQ1'' then Some ''A'' else None),
      j_as_i64 = (\<lambda>v. Some 1), j_as_u64 = (\<lambda>v. Some 1), j_as_str = Some, j_as_array = (\<lambda>v. None), j_null = ''n'',
      j_bool = (\<lambda>b. []), j_int = (\<lambda>v. []), j_half = (\<lambda>v. []), j_str = (\<lambda>v. v), j_array = concat,
      j_object = (\<lambda>fs. if fs = [] then [] else snd (hd fs))\<rparr>,
     jd_parse = Inr, jd_as_f64 = (\<lambda>v. None)\<rparr>"

definition replay_bytes :: bytes where
  "replay_bytes = [0x71, 0x7C, 0x6E, 0x0A, 0x75, 0x7C, 0x2D, 0x31, 0x0A, 0x71, 0x7C, 0x41]"

definition replay_its :: "string item list" where
  "replay_its = [(0, ''q'', ''n''), (1, ''u'', ''-1''), (2, ''q'', ''A'')]"

definition replay_graph :: snb_graph where
  "replay_graph = \<lparr>sg_snapshot = 0, sg_vertices = [], sg_edge_props = [], sg_adjacency = []\<rparr>"

lemma replay_text: "string_of_bytes replay_bytes = ''q|n'' @ CHR 0x0A # ''u|-1'' @ CHR 0x0A # ''q|A''"
  by code_simp

lemma replay_items: "parsed_prefix (at_most 0 (file_items replay_json (string_of_bytes replay_bytes))) = (replay_its, None)"
  by code_simp

lemma replay_returns:
  "\<forall>i < length replay_its. \<not> is_update replay_json (replay_its ! i) \<longrightarrow>
     item_answer replay_json (graph_at replay_json replay_its replay_graph i) (replay_its ! i) \<noteq> None"
  by code_simp

lemma replay_counts:
  "count_items replay_json (\<lambda>g it. is_update replay_json it \<and> item_known replay_json g it) replay_its replay_graph = 1"
  "count_items replay_json (\<lambda>g it. is_read_known replay_json g it \<and> item_passes replay_json g it)
     replay_its replay_graph = 2"
  by code_simp+

theorem mixed_replay_exact_witness:
  "\<exists>g r. validate_mixed_file_with_snb replay_json [''replay.csv'' \<mapsto> replay_bytes] ''replay.csv'' 0 replay_graph =
      Some (g, Inr r) \<and> mv_processed r = 3 \<and> mv_updates_applied r = 1 \<and> mv_reads_passed r = 2"
proof -
  have "[''replay.csv'' \<mapsto> replay_bytes] ''replay.csv'' = Some replay_bytes" by simp
  moreover have "valid_utf8 (string_of_bytes replay_bytes)" unfolding replay_text by code_simp
  ultimately show ?thesis
    using mixed_replay_exact [OF _ _ replay_items replay_returns, of "[''replay.csv'' \<mapsto> replay_bytes]" "''replay.csv''"]
    by (auto simp: replay_counts) (simp add: replay_its_def)
qed

subsection \<open>A file of reads\<close>

lemma map_sum_InrE: "map_sum id f x = Inr y \<Longrightarrow> (\<And>z. x = Inr z \<Longrightarrow> y = f z \<Longrightarrow> P) \<Longrightarrow> P"
  by (cases x) auto

lemma same_result_cases:
  assumes "map_option (map_prod id (map_sum id f)) X = map_option (Pair g) Y"
  obtains "X = None" "Y = None"
    | e where "X = Some (g, Inl e)" "Y = Some (Inl e)"
    | m where "X = Some (g, Inr m)" "Y = Some (Inr (f m))"
proof (cases X)
  case (Some hr)
  then obtain h r where X: "X = Some (h, r)" by (cases hr) auto
  from assms X that show ?thesis by (cases r; cases Y) auto
qed (use assms that in \<open>cases Y; simp\<close>)

definition reads_of_mixed :: "'j mixed_tally \<Rightarrow> 'j tally" where
  "reads_of_mixed m = \<lparr>t_checked = m_reads_checked m, t_passed = m_reads_passed m, t_skipped = m_skipped m,
     t_failed = m_failed m, t_first_failure = m_first_failure m\<rparr>"

lemma reads_of_tally_read:
  "reads_of_mixed (tally_read D n p e a m) = tally_answer D n p e a (reads_of_mixed m)"
  by (simp add: reads_of_mixed_def tally_read_def tally_answer_def Let_def split: option.splits)

lemma reads_of_processed [simp]: "reads_of_mixed (m\<lparr>m_processed := k\<rparr>) = reads_of_mixed m"
  by (simp add: reads_of_mixed_def)

lemma lines_agree:
  assumes "\<And>it. Inr it \<in> set (List.map_filter (item_of_line D) ls) \<Longrightarrow> \<not> is_update D it"
  shows "map_option (map_prod id (map_sum id reads_of_mixed)) (validate_mixed_lines D 0 ls m g) =
    map_option (Pair g) (validate_lines D g None 0 ls (reads_of_mixed m))"
  using assms
proof (induction ls arbitrary: m)
  case (Cons l ls)
  obtain n line where l: "l = (n, line)" by (cases l)
  have IH: "map_option (map_prod id (map_sum id reads_of_mixed)) (validate_mixed_lines D 0 ls m g) =
      map_option (Pair g) (validate_lines D g None 0 ls (reads_of_mixed m))" for m
    by (rule Cons.IH) (use Cons.prems in \<open>auto simp: List.map_filter_simps split: option.splits\<close>)
  show ?case
  proof (cases "split_once (CHR ''|'') line")
    case (Some halves)
    obtain p e where halves: "halves = (p, e)" by (cases halves)
    show ?thesis
    proof (cases "parse_line D p e")
      case (Inr pe)
      obtain params expected where pe: "pe = (params, expected)" by (cases pe)
      have "item_of_line D l = Some (Inr (n, params, expected))"
        using Some Inr by (simp add: l halves pe item_of_line_def)
      then have "Inr (n, params, expected) \<in> set (List.map_filter (item_of_line D) (l # ls))"
        by (simp add: List.map_filter_simps)
      from Cons.prems [OF this] have "j_as_str (jd_ops D) expected \<noteq> Some ''-1''" by (simp add: is_update_def)
      then show ?thesis
        using Some Inr IH [of "tally_read D n params expected (the (dispatch_query (jd_ops D) g params None))
          (m\<lparr>m_processed := m_processed m + 1\<rparr>)"]
        by (cases "dispatch_query (jd_ops D) g params None") (simp_all add: l halves pe Let_def reads_of_tally_read id_def)
    qed (use Some in \<open>simp add: l halves\<close>)
  qed (simp add: l IH [unfolded id_def] id_def)
qed simp

text \<open>On a file without updates and without a limit, the replay of reads and the replay of a mixed file
  give the same result, an error or an endless search included, and the second leaves the graph as it was.\<close>

lemma reads_replay_agrees:
  assumes "\<And>bs it. fs path = Some bs \<Longrightarrow> Inr it \<in> set (file_items D (string_of_bytes bs)) \<Longrightarrow> \<not> is_update D it"
  shows "map_option (Pair g) (validate_file_with_snb D g fs path 0 None) =
    map_option (map_prod id (map_sum id (\<lambda>r.
        \<lparr>vr_validation_params = mv_validation_params r, vr_max_lines = mv_max_lines r,
         vr_checked = mv_reads_checked r, vr_passed = mv_reads_passed r, vr_skipped = mv_skipped r,
         vr_failed = mv_failed r, vr_supported_queries = mv_supported_queries r,
         vr_first_failure = mv_first_failure r\<rparr>)))
      (validate_mixed_file_with_snb D fs path 0 g)"
proof (cases "read_to_string fs path")
  case (Inr s)
  then obtain bs where bs: "fs path = Some bs" "s = string_of_bytes bs"
    by (auto simp: read_to_string_def Let_def split: option.splits if_splits)
  have start: "tally_start = reads_of_mixed mixed_start"
    by (simp add: tally_start_def reads_of_mixed_def mixed_start_def)
  have "map_option (map_prod id (map_sum id reads_of_mixed))
        (validate_mixed_lines D 0 (enumerate 0 (split_lines s)) mixed_start g) =
      map_option (Pair g) (validate_lines D g None 0 (enumerate 0 (split_lines s)) tally_start)"
    unfolding start by (rule lines_agree) (use assms [OF bs(1)] in \<open>simp add: bs(2) file_items_def del: split_lines.simps\<close>)
  then show ?thesis
    by (rule same_result_cases)
      (simp_all add: validate_mixed_file_with_snb_def validate_file_with_snb_def Inr reads_of_mixed_def
        del: split_lines.simps)
qed (simp add: validate_mixed_file_with_snb_def validate_file_with_snb_def)

definition reads_bytes :: bytes where
  "reads_bytes = [0x71, 0x7C, 0x6E, 0x0A, 0x71, 0x7C, 0x41]"

lemma reads_items: "file_items replay_json (string_of_bytes reads_bytes) = [Inr (0, ''q'', ''n''), Inr (1, ''q'', ''A'')]"
  by code_simp

lemma reads_report:
  "map_option (map_sum id vr_passed)
     (validate_file_with_snb replay_json replay_graph [''reads.csv'' \<mapsto> reads_bytes] ''reads.csv'' 0 None) =
   Some (Inr 1)"
  by code_simp

lemma reads_replay_agrees_example:
  "\<exists>r. validate_mixed_file_with_snb replay_json [''reads.csv'' \<mapsto> reads_bytes] ''reads.csv'' 0 replay_graph =
     Some (replay_graph, Inr r) \<and> mv_reads_passed r = 1"
proof -
  define fs where "fs = [''reads.csv'' \<mapsto> reads_bytes]"
  have reads: "\<not> is_update replay_json it"
    if "fs ''reads.csv'' = Some bs" "Inr it \<in> set (file_items replay_json (string_of_bytes bs))" for bs it
  proof -
    from that have "it = (0, ''q'', ''n'') \<or> it = (1, ''q'', ''A'')" by (auto simp: reads_items fs_def)
    then show ?thesis by (auto simp: is_update_def replay_json_def)
  qed
  have "map_option (Pair replay_graph) (validate_file_with_snb replay_json replay_graph fs ''reads.csv'' 0 None) =
    map_option (map_prod id (map_sum id (\<lambda>r.
        \<lparr>vr_validation_params = mv_validation_params r, vr_max_lines = mv_max_lines r,
         vr_checked = mv_reads_checked r, vr_passed = mv_reads_passed r, vr_skipped = mv_skipped r,
         vr_failed = mv_failed r, vr_supported_queries = mv_supported_queries r,
         vr_first_failure = mv_first_failure r\<rparr>)))
      (validate_mixed_file_with_snb replay_json fs ''reads.csv'' 0 replay_graph)"
    by (rule reads_replay_agrees) (rule reads)
  with reads_report show ?thesis
    unfolding fs_def [symmetric] by (auto dest!: sym [of "Some _"] elim!: map_sum_InrE)
qed

end
