(* ===== verification/Snb_Server.thy ===== *)
theory Snb_Server
  imports Snb_Updates Snb_Import
begin

section \<open>The HTTP server\<close>

text \<open>
  The connection handler of \<^verbatim>\<open>src/snb/server.rs\<close>. A connection is the list of what its reads
  return, an error or a chunk of bytes; after the list, and on an empty chunk, the peer has closed it. The
  lock around the graph makes a handler one step on it. The reader and writer of JSON bytes and the text of
  an error are parameters. White space is that of ASCII.
\<close>

type_synonym connection = "bytes res list"

record 'j http_env =
  he_ops :: "'j json_ops"
  he_from_slice :: "bytes \<Rightarrow> 'j res"
  he_to_vec :: "'j \<Rightarrow> bytes"
  he_error_text :: "lsm_error \<Rightarrow> string"

datatype http_request = Http_get (request_path: string) | Http_post (request_path: string) (request_body: bytes)

definition bytes_of_string :: "string \<Rightarrow> bytes" where
  "bytes_of_string s = map (\<lambda>c. of_nat (of_char c)) s"

subsection \<open>Bytes and text\<close>

definition crlf2 :: bytes where
  "crlf2 = [13, 10, 13, 10]"

definition slice_windows :: "nat \<Rightarrow> 'a list \<Rightarrow> 'a list list" where
  "slice_windows n xs = map (\<lambda>i. take n (drop i xs)) [0..<length xs + 1 - n]"

definition find_header_end :: "bytes \<Rightarrow> nat option" where
  "find_header_end buf = position (\<lambda>w. w = crlf2) (slice_windows 4 buf)"

text \<open>\<^verbatim>\<open>String::from_utf8_lossy\<close>: every maximal prefix of a sequence that cannot be continued becomes
  one replacement character.\<close>

definition utf8_tail :: "nat \<Rightarrow> bool" where
  "utf8_tail c \<longleftrightarrow> 0x80 \<le> c \<and> c \<le> 0xBF"

definition utf8_second :: "nat \<Rightarrow> nat \<Rightarrow> bool" where
  "utf8_second b c \<longleftrightarrow>
     (if b = 0xE0 then 0xA0 \<le> c \<and> c \<le> 0xBF else if b = 0xED then 0x80 \<le> c \<and> c \<le> 0x9F
      else if b = 0xF0 then 0x90 \<le> c \<and> c \<le> 0xBF else if b = 0xF4 then 0x80 \<le> c \<and> c \<le> 0x8F
      else utf8_tail c)"

definition replacement :: "nat list" where
  "replacement = [0xEF, 0xBF, 0xBD]"

fun utf8_lossy :: "nat list \<Rightarrow> nat list" where
  "utf8_lossy [] = []"
| "utf8_lossy (b # bs) =
     (if b < 0x80 then b # utf8_lossy bs
      else if 0xC2 \<le> b \<and> b \<le> 0xDF then
        (case bs of [] \<Rightarrow> replacement
         | c # cs \<Rightarrow> if utf8_tail c then b # c # utf8_lossy cs else replacement @ utf8_lossy bs)
      else if 0xE0 \<le> b \<and> b \<le> 0xF4 then
        (case bs of [] \<Rightarrow> replacement
         | c # cs \<Rightarrow>
             if \<not> utf8_second b c then replacement @ utf8_lossy bs
             else (case cs of [] \<Rightarrow> replacement
               | d # ds \<Rightarrow>
                   if \<not> utf8_tail d then replacement @ utf8_lossy cs
                   else if b \<le> 0xEF then b # c # d # utf8_lossy ds
                   else (case ds of [] \<Rightarrow> replacement
                     | e # es \<Rightarrow>
                         if utf8_tail e then b # c # d # e # utf8_lossy es else replacement @ utf8_lossy ds)))
      else replacement @ utf8_lossy bs)"

definition from_utf8_lossy :: "bytes \<Rightarrow> string" where
  "from_utf8_lossy bs = map char_of (utf8_lossy (map unat bs))"

text \<open>\<^verbatim>\<open>split_whitespace\<close>: the next part and the rest.\<close>

definition next_part :: "string \<Rightarrow> string \<times> string" where
  "next_part s = (let s = dropWhile is_space s
    in (takeWhile (\<lambda>c. \<not> is_space c) s, dropWhile (\<lambda>c. \<not> is_space c) s))"

definition parse_usize :: "string \<Rightarrow> nat option" where
  "parse_usize s = (let ds = (case s of [] \<Rightarrow> [] | c # cs \<Rightarrow> if c = CHR ''+'' then cs else s)
    in if ds = [] \<or> \<not> list_all is_digit ds \<or> 2 ^ 64 \<le> digits_value ds then None else Some (digits_value ds))"

definition eq_ignore_ascii_case :: "string \<Rightarrow> string \<Rightarrow> bool" where
  "eq_ignore_ascii_case a b \<longleftrightarrow> to_ascii_lowercase a = to_ascii_lowercase b"

subsection \<open>Reading a request\<close>

definition content_length_of :: "string \<Rightarrow> nat option" where
  "content_length_of line = (case split_once (CHR '':'') line of
     None \<Rightarrow> None
   | Some (name, value) \<Rightarrow>
       if eq_ignore_ascii_case name ''content-length'' then parse_usize (trim value) else None)"

text \<open>The method, the path and the length of the body; the first length that parses counts.\<close>

definition parse_header :: "bytes \<Rightarrow> (string \<times> string \<times> nat) res" where
  "parse_header header = (case split_lines (from_utf8_lossy header) of
     [] \<Rightarrow> Inl (Unsupported ''empty HTTP request'')
   | request_line # lines \<Rightarrow>
       let (method, rest) = next_part request_line; (path, _) = next_part rest
       in Inr (method, path, unwrap_or 0 (first (List.map_filter content_length_of lines))))"

fun read_headers :: "connection \<Rightarrow> bytes \<Rightarrow> (bytes \<times> nat \<times> connection) res" where
  "read_headers [] buf = Inl (Unsupported ''connection closed before complete HTTP headers'')"
| "read_headers (Inl err # stream) buf = Inl err"
| "read_headers (Inr chunk # stream) buf =
     (if chunk = [] then Inl (Unsupported ''connection closed before complete HTTP headers'')
      else let buf = buf @ chunk
        in case find_header_end buf of
             Some pos \<Rightarrow> Inr (buf, pos, stream)
           | None \<Rightarrow> if 1024 * 1024 < length buf then Inl (Unsupported ''HTTP headers too large'')
               else read_headers stream buf)"

fun read_body :: "connection \<Rightarrow> nat \<Rightarrow> bytes \<Rightarrow> bytes res" where
  "read_body stream needed buf =
     (if needed \<le> length buf then Inr buf
      else case stream of
        [] \<Rightarrow> Inl (Unsupported ''connection closed before complete HTTP body'')
      | Inl err # stream \<Rightarrow> Inl err
      | Inr chunk # stream \<Rightarrow>
          if chunk = [] then Inl (Unsupported ''connection closed before complete HTTP body'')
          else read_body stream needed (buf @ chunk))"

definition request_of :: "string \<Rightarrow> string \<Rightarrow> bytes \<Rightarrow> http_request res" where
  "request_of method path body =
     (if method = ''GET'' then Inr (Http_get path)
      else if method = ''POST'' then Inr (Http_post path body)
      else Inl (Unsupported (''unsupported HTTP method: '' @ method)))"

text \<open>The end of the body as a \<^verbatim>\<open>usize\<close>: a sum that does not fit panics, at the addition or, where it
  wraps, at the slice that then ends before it starts.\<close>

definition read_http_request :: "connection \<Rightarrow> http_request res" where
  "read_http_request stream =
     rbind (read_headers stream []) (\<lambda>(buf, header_end, stream).
     rbind (parse_header (take header_end buf)) (\<lambda>(method, path, content_len).
     let body_start = header_end + 4
     in if 2 ^ 64 \<le> body_start + content_len then Inl Slice_out_of_range
        else rbind (read_body stream (body_start + content_len) buf) (\<lambda>buf.
          request_of method path (take content_len (drop body_start buf)))))"

subsection \<open>Answering\<close>

definition http_response :: "nat \<Rightarrow> string \<Rightarrow> bytes \<Rightarrow> bytes" where
  "http_response status content_type body =
     (let reason = (if status = 200 then ''OK'' else if status = 404 then ''Not Found''
        else if status = 500 then ''Internal Server Error'' else ''OK'')
      in bytes_of_string (''HTTP/1.1 '' @ dec status @ '' '' @ reason @ [CHR 0x0D, CHR 0x0A] @
           ''Content-Type: '' @ content_type @ [CHR 0x0D, CHR 0x0A] @
           ''Content-Length: '' @ dec (length body) @ [CHR 0x0D, CHR 0x0A] @
           ''Connection: close'' @ [CHR 0x0D, CHR 0x0A, CHR 0x0D, CHR 0x0A]) @ body)"

definition json_type :: string where
  "json_type = ''application/json''"

definition result_response :: "'j http_env \<Rightarrow> string \<Rightarrow> 'j res \<Rightarrow> bytes" where
  "result_response E path r = (case r of
     Inr value \<Rightarrow> http_response 200 json_type (he_to_vec E value)
   | Inl err \<Rightarrow> http_response 500 json_type (he_to_vec E (j_object (he_ops E)
       [(''error'', j_str (he_ops E) (he_error_text E err)), (''path'', j_str (he_ops E) path)])))"

definition is_update_path :: "string \<Rightarrow> bool" where
  "is_update_path path \<longleftrightarrow> (let p = ''/query/interactive_update_'' in take (length p) path = p)"

text \<open>What the handler writes to the connection; an error closes it with nothing written. \<open>None\<close> is a path
  search that does not end.\<close>

definition handle_connection :: "'j http_env \<Rightarrow> connection \<Rightarrow> snb_graph \<Rightarrow> (snb_graph \<times> bytes res) option" where
  "handle_connection E stream g =
     (case read_http_request stream of
        Inl err \<Rightarrow> Some (g, Inl err)
      | Inr (Http_get path) \<Rightarrow>
          if path = ''/'' then
            Some (g, Inr (http_response 200 json_type
              (bytes_of_string (CHR ''{'' # CHR 0x22 # ''status'' @ CHR 0x22 # CHR '':'' # CHR 0x22 # ''ok'' @
                [CHR 0x22, CHR ''}'']))))
          else Some (g, Inr (http_response 404 json_type (he_to_vec E (j_object (he_ops E)
            [(''error'', j_str (he_ops E) ''not found''), (''path'', j_str (he_ops E) path)]))))
      | Inr (Http_post path body) \<Rightarrow>
          (case he_from_slice E body of
             Inl err \<Rightarrow> Some (g, Inl err)
           | Inr params \<Rightarrow>
               if is_update_path path then
                 (let (g', r) = run_dgs_http_update (he_ops E) path params g
                  in Some (g', Inr (result_response E path r)))
               else map_option (\<lambda>r. (g, Inr (result_response E path r)))
                 (run_dgs_http_query (he_ops E) g path params)))"

end
