(* ===== verification/Snb_Serving.thy ===== *)
theory Snb_Serving
  imports Snb_Server
begin

section \<open>Requests over a connection\<close>

text \<open>
  Up to a limit on the header, a request is a function of the bytes sent, not of how the network cut them
  into reads. The functions of \<open>Snb_Server\<close> are compared with
  \<open>request_of_bytes\<close>, which looks at all bytes at once.
\<close>

subsection \<open>The end of the header\<close>

lemma position_Some_iff:
  "position P xs = Some i \<longleftrightarrow> i < length xs \<and> P (xs ! i) \<and> (\<forall>j < i. \<not> P (xs ! j))"
proof (induction xs arbitrary: i)
  case (Cons x xs)
  then show ?case by (cases i) (auto simp: nth_Cons split: nat.splits)
qed simp

lemma find_header_end_iff:
  "find_header_end bs = Some p \<longleftrightarrow>
     p + 4 \<le> length bs \<and> take 4 (drop p bs) = crlf2 \<and> (\<forall>j < p. take 4 (drop j bs) \<noteq> crlf2)"
  by (auto simp: find_header_end_def slice_windows_def position_Some_iff)

lemma find_header_end_append:
  assumes "find_header_end bs = Some p"
  shows "find_header_end (bs @ cs) = Some p"
  using assms by (auto simp: find_header_end_iff)

lemma find_header_end_prefix:
  assumes "find_header_end (bs @ cs) = Some p" "p + 4 \<le> length bs"
  shows "find_header_end bs = Some p"
  using assms by (auto simp: find_header_end_iff)

subsection \<open>A request as a function of its bytes\<close>

definition request_of_bytes :: "bytes \<Rightarrow> http_request res" where
  "request_of_bytes bs = (case find_header_end bs of
     None \<Rightarrow> Inl (Unsupported ''connection closed before complete HTTP headers'')
   | Some p \<Rightarrow> rbind (parse_header (take p bs)) (\<lambda>(verb, path, n).
       if 2 ^ 64 \<le> p + 4 + n then Inl Slice_out_of_range
       else if length bs < p + 4 + n then Inl (Unsupported ''connection closed before complete HTTP body'')
       else request_of verb path (take n (drop (p + 4) bs))))"

text \<open>Chunks that carry something. The limit on the header is tested after each read that does not
  complete it, on all bytes read so far, so it depends on where the reads end: \<open>read_over_limit\<close> says
  that some read leaves more than 1 MiB and no complete header. A header that ends within the first
  1 MiB (or a connection of at most that many bytes) is never refused.\<close>

abbreviation chunks_ok :: "bytes list \<Rightarrow> bool" where
  "chunks_ok chunks \<equiv> [] \<notin> set chunks"

definition over_limit_from :: "bytes \<Rightarrow> bytes list \<Rightarrow> bool" where
  "over_limit_from buf chunks \<longleftrightarrow>
     (\<exists>k \<le> length chunks. 1024 * 1024 < length (buf @ concat (take k chunks)) \<and>
        find_header_end (buf @ concat (take k chunks)) = None)"

definition read_over_limit :: "bytes list \<Rightarrow> bool" where
  "read_over_limit chunks \<longleftrightarrow>
     (\<exists>k \<le> length chunks. 1024 * 1024 < length (concat (take k chunks)) \<and>
        find_header_end (concat (take k chunks)) = None)"

definition header_within_limit :: "bytes \<Rightarrow> bool" where
  "header_within_limit bs \<longleftrightarrow>
     (case find_header_end bs of Some p \<Rightarrow> p + 4 | None \<Rightarrow> length bs) \<le> 1024 * 1024"

lemma over_limit_from_Nil [simp]:
  "over_limit_from buf [] \<longleftrightarrow> 1024 * 1024 < length buf \<and> find_header_end buf = None"
  by (simp add: over_limit_from_def)

lemma over_limit_from_Cons [simp]:
  "over_limit_from buf (c # chunks) \<longleftrightarrow>
     1024 * 1024 < length buf \<and> find_header_end buf = None \<or> over_limit_from (buf @ c) chunks"
proof -
  have ex: "(\<exists>k \<le> Suc n. P k) \<longleftrightarrow> P 0 \<or> (\<exists>k \<le> n. P (Suc k))" for n and P :: "nat \<Rightarrow> bool"
    by (metis Suc_le_mono not0_implies_Suc zero_le)
  show ?thesis by (simp add: over_limit_from_def ex)
qed

lemma over_limit_found:
  "find_header_end buf = Some p \<Longrightarrow> \<not> over_limit_from buf chunks"
  using find_header_end_append by (fastforce simp: over_limit_from_def)

lemma within_limit_reads:
  assumes "header_within_limit (concat chunks)"
  shows "\<not> read_over_limit chunks"
proof
  assume "read_over_limit chunks"
  then obtain k where k: "1024 * 1024 < length (concat (take k chunks))" "find_header_end (concat (take k chunks)) = None"
    by (auto simp: read_over_limit_def)
  have cut: "concat (take k chunks) @ concat (drop k chunks) = concat chunks"
    by (metis append_take_drop_id concat_append)
  then have "length (concat (take k chunks)) \<le> length (concat chunks)" by (metis le_add1 length_append)
  then show False
    using assms k find_header_end_prefix [of "concat (take k chunks)" "concat (drop k chunks)"] unfolding cut
    by (auto simp: header_within_limit_def split: option.splits)
qed

lemma read_headers_found:
  assumes "find_header_end (buf @ concat chunks) = Some p" "\<not> over_limit_from buf chunks"
    and "chunks_ok chunks" "find_header_end buf = None"
  shows "\<exists>buf' rest. read_headers (map Inr chunks) buf = Inr (buf', p, map Inr rest) \<and>
    buf' @ concat rest = buf @ concat chunks \<and> p + 4 \<le> length buf' \<and> chunks_ok rest"
  using assms
proof (induction chunks arbitrary: buf)
  case (Cons c chunks)
  show ?case
  proof (cases "find_header_end (buf @ c)")
    case None
    then have "length (buf @ c) \<le> 1024 * 1024" using Cons.prems(2) by (cases chunks) auto
    with None Cons.prems Cons.IH [of "buf @ c"] show ?thesis by auto
  next
    case (Some q)
    with find_header_end_append [OF Some, of "concat chunks"] Cons.prems have "q = p" by simp
    moreover from Some have "q + 4 \<le> length (buf @ c)" by (simp only: find_header_end_iff)
    ultimately show ?thesis using Some Cons.prems by (auto intro!: exI [of _ chunks])
  qed
qed auto

lemma read_headers_missing:
  assumes "find_header_end (buf @ concat chunks) = None" "\<not> over_limit_from buf chunks"
    and "chunks_ok chunks"
  shows "read_headers (map Inr chunks) buf = Inl (Unsupported ''connection closed before complete HTTP headers'')"
  using assms
proof (induction chunks arbitrary: buf)
  case (Cons c chunks)
  have none: "find_header_end (buf @ c) = None"
    using Cons.prems(1) find_header_end_append [of "buf @ c" _ "concat chunks"]
    by (cases "find_header_end (buf @ c)") auto
  then have "length (buf @ c) \<le> 1024 * 1024" using Cons.prems(2) by (cases chunks) auto
  with none Cons.prems Cons.IH [of "buf @ c"] show ?case by auto
qed auto

lemma read_headers_over:
  assumes "over_limit_from buf chunks" "length buf \<le> 1024 * 1024" "chunks_ok chunks"
  shows "read_headers (map Inr chunks) buf = Inl (Unsupported ''HTTP headers too large'')"
  using assms
proof (induction chunks arbitrary: buf)
  case (Cons c chunks)
  then have over: "over_limit_from (buf @ c) chunks" by simp
  then have "find_header_end (buf @ c) = None"
    using over_limit_found by (cases "find_header_end (buf @ c)") auto
  then show ?case using Cons over by auto
qed simp

lemma read_body_chunks:
  assumes "chunks_ok chunks"
  shows "if needed \<le> length (buf @ concat chunks)
    then \<exists>buf' rest. read_body (map Inr chunks) needed buf = Inr buf' \<and> buf' @ rest = buf @ concat chunks \<and>
      needed \<le> length buf'
    else read_body (map Inr chunks) needed buf =
      Inl (Unsupported ''connection closed before complete HTTP body'')"
  using assms
proof (induction chunks arbitrary: buf)
  case (Cons c chunks)
  then show ?case using Cons.IH [of "buf @ c"] by (cases "needed \<le> length buf") auto
qed auto

declare read_body.simps [simp del] split_lines.simps [simp del]

lemma take_drop_prefix:
  "buf' @ rest = bs \<Longrightarrow> k + n \<le> length buf' \<Longrightarrow> take n (drop k buf') = take n (drop k bs)"
  by auto

lemma read_over_limit_from: "read_over_limit chunks = over_limit_from [] chunks"
  by (simp add: read_over_limit_def over_limit_from_def)

lemma request_chunking_over:
  "chunks_ok chunks \<Longrightarrow> read_over_limit chunks \<Longrightarrow>
   read_http_request (map Inr chunks) = Inl (Unsupported ''HTTP headers too large'')"
  by (simp add: read_http_request_def read_over_limit_from read_headers_over)

lemma request_chunking_same:
  assumes "chunks_ok chunks" "\<not> read_over_limit chunks"
  shows "read_http_request (map Inr chunks) = request_of_bytes (concat chunks)"
proof (cases "find_header_end (concat chunks)")
  case None
  with assms read_headers_missing [of "[]" chunks] show ?thesis
    by (simp add: read_http_request_def request_of_bytes_def read_over_limit_from)
next
  case (Some p)
  have "find_header_end [] = None" by (simp add: find_header_end_def slice_windows_def)
  with Some assms read_headers_found [of "[]" chunks p]
  obtain buf rest where headers: "read_headers (map Inr chunks) [] = Inr (buf, p, map Inr rest)"
      "buf @ concat rest = concat chunks" "p + 4 \<le> length buf" "chunks_ok rest"
    by (auto simp: read_over_limit_from)
  have header: "take p buf = take p (concat chunks)"
    unfolding headers(2) [symmetric] using headers(3) by simp
  show ?thesis
  proof (cases "parse_header (take p (concat chunks))")
    case (Inl e)
    with Some headers(1) header show ?thesis by (simp add: read_http_request_def request_of_bytes_def)
  next
    case (Inr r)
    obtain verb path n where r: "r = (verb, path, n)" by (cases r)
    have body: "if p + 4 + n \<le> length (concat chunks)
      then \<exists>buf' rest'. read_body (map Inr rest) (p + 4 + n) buf = Inr buf' \<and> buf' @ rest' = concat chunks \<and>
        p + 4 + n \<le> length buf'
      else read_body (map Inr rest) (p + 4 + n) buf =
        Inl (Unsupported ''connection closed before complete HTTP body'')"
      using read_body_chunks [OF headers(4), of "p + 4 + n" buf] unfolding headers(2) .
    have unfolded: "read_http_request (map Inr chunks) =
        (if 2 ^ 64 \<le> p + 4 + n then Inl Slice_out_of_range
         else rbind (read_body (map Inr rest) (p + 4 + n) buf)
           (\<lambda>buf. request_of verb path (take n (drop (p + 4) buf))))"
      using headers(1) header Inr r by (simp add: read_http_request_def Let_def)
    show ?thesis
    proof (cases "p + 4 + n \<le> length (concat chunks)")
      case True
      with body obtain buf' rest' where "read_body (map Inr rest) (p + 4 + n) buf = Inr buf'"
          "buf' @ rest' = concat chunks" "p + 4 + n \<le> length buf'"
        by auto
      with True Some Inr r show ?thesis
        by (simp add: unfolded request_of_bytes_def take_drop_prefix [of buf' rest' "concat chunks"])
    next
      case False
      with body Some Inr r show ?thesis by (simp add: unfolded request_of_bytes_def)
    qed
  qed
qed

text \<open>A header that ends just past the limit is accepted or refused depending on where a read ends:
  the same bytes, 1 MiB of header and then its last four bytes in one read or cut after the first.\<close>

lemma limit_depends_on_reads:
  assumes "chunks_ok chunks" "length (concat chunks) = 1024 * 1024"
    and "find_header_end (concat chunks @ crlf2) = Some (1024 * 1024)"
  shows "read_http_request (map Inr (chunks @ [crlf2])) = request_of_bytes (concat chunks @ crlf2) \<and>
    read_http_request (map Inr (chunks @ [[13], [10, 13, 10]])) = Inl (Unsupported ''HTTP headers too large'')"
proof -
  have crlf2: "[13] @ [10, 13, 10] = crlf2" by (simp add: crlf2_def)
  have "\<not> read_over_limit (chunks @ [crlf2])"
  proof
    assume "read_over_limit (chunks @ [crlf2])"
    then obtain k where k: "k \<le> Suc (length chunks)" "1024 * 1024 < length (concat (take k (chunks @ [crlf2])))"
      "find_header_end (concat (take k (chunks @ [crlf2]))) = None"
      by (auto simp: read_over_limit_def)
    have "k = Suc (length chunks)"
    proof (rule ccontr)
      assume "k \<noteq> Suc (length chunks)"
      then have "take k (chunks @ [crlf2]) = take k chunks" using k(1) by simp
      moreover have "length (concat (take k chunks)) \<le> length (concat chunks)"
        by (metis append_take_drop_id concat_append le_add1 length_append)
      ultimately show False using k(2) assms(2) by simp
    qed
    then show False using k(3) assms(3) by simp
  qed
  moreover have "read_over_limit (chunks @ [[13], [10, 13, 10]])"
  proof -
    have "find_header_end (concat chunks @ [13]) = None"
    proof (cases "find_header_end (concat chunks @ [13])")
      case (Some q)
      have "q = 1024 * 1024"
        using find_header_end_append [OF Some, of "[10, 13, 10]"] assms(3) by (simp add: crlf2_def)
      then show ?thesis using Some assms(2) by (simp add: find_header_end_iff)
    qed
    then show ?thesis
      unfolding read_over_limit_def using assms(2) by (intro exI [of _ "Suc (length chunks)"]) simp
  qed
  moreover have "chunks_ok (chunks @ [crlf2])" "chunks_ok (chunks @ [[13], [10, 13, 10]])"
    using assms(1) by (simp_all add: crlf2_def)
  ultimately show ?thesis
    using request_chunking_same [of "chunks @ [crlf2]"] request_chunking_over [of "chunks @ [[13], [10, 13, 10]]"] by simp
qed

text \<open>C16. For every way the network cuts the bytes of a connection into reads: if after some read more
  than 1 MiB has arrived and the header is not complete, the request is refused as too large;
  otherwise the result, a request or an error, is the one that looking at all the bytes at once
  gives. A header that ends within the first 1 MiB is thus read alike however it is cut.\<close>

theorem request_chunking:
  assumes "chunks_ok chunks"
  shows "read_http_request (map Inr chunks) =
      (if read_over_limit chunks then Inl (Unsupported ''HTTP headers too large'')
       else request_of_bytes (concat chunks)) \<and>
    (header_within_limit (concat chunks) \<longrightarrow> \<not> read_over_limit chunks)"
  using request_chunking_over [OF assms] request_chunking_same [OF assms] within_limit_reads by simp

definition get_bytes :: bytes where
  "get_bytes = [71, 69, 84, 32, 47, 13, 10, 13, 10]"

theorem request_chunking_witness:
  "read_http_request (map Inr [[71, 69, 84], [32, 47, 13, 10, 13], [10]]) = Inr (Http_get ''/'')"
proof -
  have bytes: "concat [[71, 69, 84], [32, 47, 13, 10, 13], [10]] = get_bytes" by (simp add: get_bytes_def)
  have "find_header_end get_bytes = Some 5" by code_simp
  moreover have "parse_header (take 5 get_bytes) = Inr (''GET'', ''/'', 0)" by code_simp
  ultimately have "header_within_limit get_bytes" "request_of_bytes get_bytes = Inr (Http_get ''/'')"
    by (simp_all add: header_within_limit_def request_of_bytes_def request_of_def get_bytes_def)
  then show ?thesis
    using request_chunking [of "[[71, 69, 84], [32, 47, 13, 10, 13], [10]]"] unfolding bytes by simp
qed

end
