(* ===== verification/Snb_Posts.thy ===== *)
theory Snb_Posts
  imports Snb_Serving
begin

section \<open>Requests of the usual form\<close>

text \<open>
  From the bytes of a \<^verbatim>\<open>POST\<close> to the answer: the header is found, the length of the body read, the
  body handed to the handler of the path, and the answer framed. The handlers are those of
  \<open>Snb_Api\<close> and \<open>Snb_Updates\<close>.
\<close>

subsection \<open>A request of the usual form\<close>

text \<open>A request line, header lines, an empty line and the body.\<close>

abbreviation crlf :: string where
  "crlf \<equiv> [CHR 0x0D, CHR 0x0A]"

definition header_text :: "string list \<Rightarrow> string" where
  "header_text ls = concat (map (\<lambda>l. l @ crlf) ls)"

definition http_message :: "string list \<Rightarrow> bytes \<Rightarrow> bytes" where
  "http_message ls body = bytes_of_string (header_text ls @ crlf) @ body"

definition plain_char :: "char \<Rightarrow> bool" where
  "plain_char c \<longleftrightarrow> 32 \<le> (of_char c :: nat) \<and> (of_char c :: nat) < 127"

definition plain_line :: "string \<Rightarrow> bool" where
  "plain_line l \<longleftrightarrow> l \<noteq> [] \<and> list_all plain_char l"

definition post_lines :: "string \<Rightarrow> string list \<Rightarrow> nat \<Rightarrow> string list \<Rightarrow> string list" where
  "post_lines path before n after =
     (''POST '' @ path @ '' HTTP/1.1'') # before @ (''Content-Length: '' @ dec n) # after"

lemma bytes_of_string_simps [simp]:
  "bytes_of_string [] = []"
  "bytes_of_string (c # s) = of_nat (of_char c) # bytes_of_string s"
  "bytes_of_string (s @ t) = bytes_of_string s @ bytes_of_string t"
  "length (bytes_of_string s) = length s"
  by (simp_all add: bytes_of_string_def)

lemma unat_byte [simp]: "unat (of_nat (of_char c) :: u8) = of_char c"
proof -
  have "of_char c < (256 :: nat)" using range_nat_of_char by (metis UNIV_I atLeastLessThan_iff image_eqI)
  then show ?thesis by (simp add: unat_of_nat)
qed

lemma find_header_end_Cons:
  "find_header_end (b # bs) = (if take 4 (b # bs) = crlf2 then Some 0 else map_option Suc (find_header_end bs))"
proof (cases "find_header_end bs")
  case None
  then have none: "p + 4 \<le> length bs \<Longrightarrow> take 4 (drop p bs) = crlf2 \<Longrightarrow> \<exists>j < p. take 4 (drop j bs) = crlf2" for p
    using find_header_end_iff [of bs p] by auto
  have "take 4 (drop p bs) \<noteq> crlf2" for p
  proof
    assume found: "take 4 (drop p bs) = crlf2"
    define m where "m = (LEAST q. take 4 (drop q bs) = crlf2)"
    have m: "take 4 (drop m bs) = crlf2" unfolding m_def by (rule LeastI [of _ p]) (rule found)
    then have "length (take 4 (drop m bs)) = 4" by (simp add: crlf2_def)
    then have "m + 4 \<le> length bs" by auto
    with none [OF _ m] not_less_Least show False unfolding m_def by blast
  qed
  note absent = this
  show ?thesis
  proof (cases "take 4 (b # bs) = crlf2")
    case True
    then have "length (take 4 (b # bs)) = 4" by (simp only: crlf2_def) simp
    then have "4 \<le> length (b # bs)" by auto
    with True None show ?thesis by (simp add: find_header_end_iff)
  next
    case False
    have "find_header_end (b # bs) \<noteq> Some p" for p
      using False absent [of "p - 1"] by (cases p) (auto simp: find_header_end_iff)
    with False None show ?thesis by (cases "find_header_end (b # bs)") auto
  qed
next
  case (Some p)
  have length: "take 4 (b # bs) = crlf2 \<Longrightarrow> 4 \<le> length (b # bs)"
    by (drule arg_cong [of _ _ length]) (simp add: crlf2_def)
  have "find_header_end (b # bs) = (if take 4 (b # bs) = crlf2 then Some 0 else Some (Suc p))"
    using Some unfolding find_header_end_iff
    by (auto simp: find_header_end_iff less_Suc_eq_0_disj dest: length simp del: take_Cons_numeral)
  with Some show ?thesis by simp
qed

lemma find_header_end_skip:
  "13 \<notin> set xs \<Longrightarrow> find_header_end (xs @ bs) = map_option (\<lambda>p. length xs + p) (find_header_end bs)"
proof (induction xs)
  case Nil
  then show ?case by (simp add: option.map_ident)
next
  case (Cons x xs)
  then show ?case by (simp add: find_header_end_Cons crlf2_def option.map_comp comp_def)
qed

lemma find_header_end_line:
  "13 \<noteq> c \<Longrightarrow> find_header_end (13 # 10 # c # bs) = map_option (\<lambda>p. p + 2) (find_header_end (c # bs))"
  by (simp only: find_header_end_Cons [of 13] find_header_end_Cons [of 10])
    (auto simp: crlf2_def option.map_comp comp_def)

lemma byte_of_char_eq [simp]: "(of_nat (of_char c) = (13 :: u8)) \<longleftrightarrow> of_char c = (13 :: nat)"
proof
  assume "of_nat (of_char c) = (13 :: u8)"
  then have "unat (of_nat (of_char c) :: u8) = unat (13 :: u8)" by (rule arg_cong)
  then show "of_char c = (13 :: nat)" unfolding unat_byte by simp
qed simp

lemma plain_no_cr: "list_all plain_char l \<Longrightarrow> 13 \<notin> set (bytes_of_string l)"
  by (auto simp: bytes_of_string_def list_all_iff plain_char_def eq_commute [of 13])

subsection \<open>The header is found and decoded\<close>

lemma find_header_end_message:
  assumes "ls \<noteq> []" "list_all plain_line ls"
  shows "find_header_end (http_message ls body) = Some (length (header_text ls) - 2)"
  using assms
proof (induction ls)
  case (Cons l ls)
  then have l: "13 \<notin> set (bytes_of_string l)" "l \<noteq> []" by (simp_all add: plain_line_def plain_no_cr)
  show ?case
  proof (cases ls)
    case Nil
    with l show ?thesis
      by (simp add: http_message_def header_text_def find_header_end_skip, simp add: find_header_end_Cons crlf2_def)
  next
    case (Cons k ks)
    with Cons.prems have k: "list_all plain_char k" "k \<noteq> []" by (simp_all add: plain_line_def)
    obtain c cs where "k = c # cs" using k(2) by (cases k) auto
    with k have c: "13 \<noteq> (of_nat (of_char c) :: u8)" by (auto simp: plain_char_def eq_commute [of 13])
    have "find_header_end (http_message ls body) = Some (length (header_text ls) - 2)"
      using Cons.prems Cons by (intro Cons.IH) simp_all
    with Cons l \<open>k = c # cs\<close> find_header_end_line [OF c] show ?thesis
      by (simp add: http_message_def header_text_def find_header_end_skip)
  qed
qed simp

lemma utf8_lossy_ascii: "list_all (\<lambda>b. b < 128) bs \<Longrightarrow> utf8_lossy bs = bs"
  by (induction bs) auto

lemma char_of_of_char [simp]: "char_of (of_char c :: nat) = c"
  by simp

lemma from_utf8_lossy_ascii:
  "list_all (\<lambda>c. (of_char c :: nat) < 128) s \<Longrightarrow> from_utf8_lossy (bytes_of_string s) = s"
  by (simp add: from_utf8_lossy_def bytes_of_string_def comp_def utf8_lossy_ascii list_all_iff)

lemma plain_no_lf: "plain_line l \<Longrightarrow> CHR 0x0A \<notin> set l"
  by (auto simp: plain_line_def list_all_iff plain_char_def)

lemma split_lines_line: "CHR 0x0A \<notin> set l \<Longrightarrow> split_lines (l @ CHR 0x0D # CHR 0x0A # rest) = l # split_lines rest"
proof -
  assume l: "CHR 0x0A \<notin> set l"
  then have "dropWhile (\<lambda>c. c \<noteq> CHR 0x0A) (l @ CHR 0x0D # CHR 0x0A # rest) = CHR 0x0A # rest"
      "takeWhile (\<lambda>c. c \<noteq> CHR 0x0A) (l @ CHR 0x0D # CHR 0x0A # rest) = l @ [CHR 0x0D]"
    by (induction l) auto
  then show ?thesis by (subst split_lines.simps) (simp add: strip_cr_def)
qed

lemma split_lines_last: "plain_line l \<Longrightarrow> split_lines l = [l]"
proof -
  assume l: "plain_line l"
  from plain_no_lf [OF l] have none: "dropWhile (\<lambda>c. c \<noteq> CHR 0x0A) l = []" by auto
  show ?thesis unfolding split_lines.simps [of l] none using l by (simp add: plain_line_def)
qed

text \<open>The header without its last line end.\<close>

fun header_lines :: "string list \<Rightarrow> string" where
  "header_lines [] = []"
| "header_lines [l] = l"
| "header_lines (l # k # ls) = l @ crlf @ header_lines (k # ls)"

lemma header_text_lines: "ls \<noteq> [] \<Longrightarrow> header_text ls = header_lines ls @ crlf"
  by (induction ls rule: header_lines.induct) (simp_all add: header_text_def)

lemma split_header_lines: "list_all plain_line ls \<Longrightarrow> split_lines (header_lines ls) = ls"
proof (induction ls rule: header_lines.induct)
  case 1
  then show ?case by (subst split_lines.simps) simp
qed (auto simp: split_lines_last split_lines_line plain_no_lf)

lemma header_lines_ascii: "list_all plain_line ls \<Longrightarrow> list_all (\<lambda>c. (of_char c :: nat) < 128) (header_lines ls)"
  by (induction ls rule: header_lines.induct) (auto simp: plain_line_def plain_char_def list_all_iff)

lemma message_header:
  assumes "ls \<noteq> []" "list_all plain_line ls"
  defines "p \<equiv> length (header_text ls) - 2"
  shows "split_lines (from_utf8_lossy (take p (http_message ls body))) = ls"
    "drop (p + 4) (http_message ls body) = body" "length (http_message ls body) = p + 4 + length body"
  using assms(1,2) unfolding p_def
  by (simp_all add: http_message_def header_text_lines from_utf8_lossy_ascii header_lines_ascii split_header_lines)

subsection \<open>The request line and the length\<close>

definition plain_word :: "string \<Rightarrow> bool" where
  "plain_word w \<longleftrightarrow> w \<noteq> [] \<and> list_all (\<lambda>c. plain_char c \<and> c \<noteq> CHR '' '') w"

lemma plain_word_no_space: "plain_word w \<Longrightarrow> list_all (\<lambda>c. \<not> is_space c) w"
proof -
  assume w: "plain_word w"
  have "\<not> is_space c" if c: "c \<in> set w" for c
  proof
    assume "is_space c"
    moreover have char: "32 \<le> (of_char c :: nat)" "c \<noteq> CHR '' ''"
      using w c by (simp_all add: plain_word_def plain_char_def list_all_iff)
    ultimately have "of_char c = (32 :: nat)" unfolding is_space_def Let_def by linarith
    then have "char_of (of_char c :: nat) = (char_of (32 :: nat) :: char)" by (rule arg_cong)
    also have "(char_of (32 :: nat) :: char) = CHR '' ''" by code_simp
    finally have "c = CHR '' ''" by (simp only: char_of_of_char)
    with char(2) show False ..
  qed
  then show ?thesis by (simp add: list_all_iff)
qed

lemma is_space_blank [simp]: "is_space (CHR '' '')"
  by (simp add: is_space_def)

lemma takeWhile_word:
  "list_all (\<lambda>c. \<not> is_space c) w \<Longrightarrow> takeWhile (\<lambda>c. \<not> is_space c) (w @ CHR '' '' # s) = w"
  "list_all (\<lambda>c. \<not> is_space c) w \<Longrightarrow> dropWhile (\<lambda>c. \<not> is_space c) (w @ CHR '' '' # s) = CHR '' '' # s"
  by (induction w) auto

lemma next_part_word:
  assumes "plain_word w"
  shows "next_part (w @ CHR '' '' # s) = (w, CHR '' '' # s)" "next_part (CHR '' '' # w @ CHR '' '' # s) = (w, CHR '' '' # s)"
proof -
  obtain c cs where w: "w = c # cs" using assms by (cases w) (auto simp: plain_word_def)
  then have "dropWhile is_space (w @ CHR '' '' # s) = w @ CHR '' '' # s"
    using plain_word_no_space [OF assms] by simp
  then show "next_part (w @ CHR '' '' # s) = (w, CHR '' '' # s)"
      "next_part (CHR '' '' # w @ CHR '' '' # s) = (w, CHR '' '' # s)"
    using takeWhile_word [OF plain_word_no_space [OF assms]] by (simp_all add: next_part_def Let_def)
qed

lemma dec_not_Nil [simp]: "dec n \<noteq> []"
  by (subst dec.simps) simp

lemma parse_usize_dec: "n < 2 ^ 64 \<Longrightarrow> parse_usize (dec n) = Some n"
proof -
  assume n: "n < 2 ^ 64"
  have digits: "list_all is_digit (dec n)" by (simp add: list_all_iff is_digit_dec)
  obtain c cs where c: "dec n = c # cs" by (cases "dec n") auto
  with digits have "is_digit c" by simp
  then have "c \<noteq> CHR ''+''" by (auto simp: is_digit_def)
  then have "(case dec n of [] \<Rightarrow> [] | c # cs \<Rightarrow> if c = CHR ''+'' then cs else dec n) = dec n" by (simp add: c)
  with digits n show ?thesis by (simp add: parse_usize_def)
qed

lemma trim_digits: "list_all is_digit s \<Longrightarrow> trim (CHR '' '' # s) = s"
proof -
  assume s: "list_all is_digit s"
  have "\<not> is_space c" if "is_digit c" for c
    using that by (auto simp: is_digit_def is_space_def Let_def)
  with s have no_space: "list_all (\<lambda>c. \<not> is_space c) s" by (auto simp: list_all_iff)
  have "dropWhile is_space t = t" if "list_all (\<lambda>c. \<not> is_space c) t" for t
    using that by (cases t) simp_all
  with no_space have "dropWhile is_space s = s" "dropWhile is_space (rev s) = rev s" by simp_all
  then show ?thesis by (simp add: trim_def)
qed

lemma content_length_name: "to_ascii_lowercase ''Content-Length'' = to_ascii_lowercase ''content-length''"
  by code_simp

lemma content_length_line: "n < 2 ^ 64 \<Longrightarrow> content_length_of (''Content-Length: '' @ dec n) = Some n"
  by (simp add: content_length_of_def eq_ignore_ascii_case_def content_length_name trim_digits parse_usize_dec
      list_all_iff is_digit_dec)

lemma first_map_filter:
  "\<forall>x \<in> set xs. f x = None \<Longrightarrow> f y = Some v \<Longrightarrow> first (List.map_filter f (xs @ y # ys)) = Some v"
  by (induction xs) (simp_all add: List.map_filter_simps first_def)

lemma parse_header_post:
  assumes "plain_word path" "\<forall>l \<in> set before. content_length_of l = None" "n < 2 ^ 64"
    and "split_lines (from_utf8_lossy header) = post_lines path before n after"
  shows "parse_header header = Inr (''POST'', path, n)"
proof -
  have post: "next_part (''POST '' @ path @ '' HTTP/1.1'') = (''POST'', CHR '' '' # path @ '' HTTP/1.1'')"
    using next_part_word(1) [of "''POST''" "path @ '' HTTP/1.1''"]
    by (simp add: plain_word_def plain_char_def)
  have path: "next_part (CHR '' '' # path @ '' HTTP/1.1'') = (path, '' HTTP/1.1'')"
    using next_part_word(2) [OF assms(1), of "''HTTP/1.1''"] by simp
  show ?thesis
    unfolding parse_header_def assms(4) post_lines_def list.case Let_def post prod.case path
      first_map_filter [of before content_length_of, OF assms(2) content_length_line [OF assms(3)]]
    by (simp add: unwrap_or_def)
qed

lemma plain_dec: "plain_line (''Content-Length: '' @ dec n)"
proof -
  have "plain_char c" if "is_digit c" for c using that by (simp add: is_digit_def plain_char_def)
  then have "list_all plain_char (dec n)" by (auto simp: list_all_iff dest: is_digit_dec)
  then show ?thesis by (simp add: plain_line_def plain_char_def)
qed

lemma plain_request_line: "plain_word path \<Longrightarrow> plain_line (''POST '' @ path @ '' HTTP/1.1'')"
  by (simp add: plain_line_def plain_word_def plain_char_def list_all_iff)

text \<open>C37. A \<^verbatim>\<open>POST\<close> of the usual form, with any header lines around its length and cut into any
  reads, is answered by the handler of its path: an update runs on the graph, a query leaves it as it is, and
  the answer or the error of the handler is the body of the response.\<close>

theorem post_served:
  assumes "concat chunks = http_message (post_lines path before (length body) after) body" "chunks_ok chunks"
    and "plain_word path" "list_all plain_line before" "list_all plain_line after"
    and "\<forall>l \<in> set before. content_length_of l = None"
    and "length (header_text (post_lines path before (length body) after)) + 2 \<le> 1024 * 1024" "length body < 2 ^ 63"
    and "he_from_slice E body = Inr params"
  shows "handle_connection E (map Inr chunks) g =
    (if is_update_path path then
       (let (g', r) = run_dgs_http_update (he_ops E) path params g in Some (g', Inr (result_response E path r)))
     else map_option (\<lambda>r. (g, Inr (result_response E path r))) (run_dgs_http_query (he_ops E) g path params))"
proof -
  let ?ls = "post_lines path before (length body) after"
  define p where "p = length (header_text ?ls) - 2"
  have ls: "?ls \<noteq> []" "list_all plain_line ?ls"
    using assms(4,5) plain_request_line [OF assms(3)] plain_dec by (simp_all add: post_lines_def)
  note found = find_header_end_message [OF ls, of body, folded p_def assms(1)]
  note header = message_header [OF ls, of body, folded p_def assms(1)]
  have n: "p + 4 + length body < 2 ^ 64" "length body < 2 ^ 64" using assms(7,8) by (simp_all add: p_def)
  have "header_within_limit (concat chunks)"
    using assms(7) by (simp add: header_within_limit_def found) (simp add: p_def)
  from request_chunking_same [OF assms(2) within_limit_reads [OF this]]
  have "read_http_request (map Inr chunks) = Inr (Http_post path body)"
    using found header(2,3) n parse_header_post [OF assms(3,6) n(2) header(1)]
    by (simp add: request_of_bytes_def request_of_def)
  with assms(9) show ?thesis by (simp add: handle_connection_def)
qed

definition serve_env :: "int http_env" where
  "serve_env = \<lparr>he_ops = example_json, he_from_slice = (\<lambda>_. Inr 5), he_to_vec = (\<lambda>_. [0x7B, 0x7D]),
     he_error_text = (\<lambda>_. [])\<rparr>"

definition serve_graph :: snb_graph where
  "serve_graph = \<lparr>sg_snapshot = 0, sg_vertices = [], sg_edge_props = [], sg_adjacency = []\<rparr>"

definition serve_path :: string where
  "serve_path = ''/query/interactive_update_1''"

definition serve_message :: bytes where
  "serve_message = http_message (post_lines serve_path [''Host: a''] 2 []) [0x7B, 0x7D]"

lemma serve_chunks: "chunks_ok [take 9 serve_message, drop 9 serve_message]"
  by code_simp

lemma serve_plain:
  "plain_word serve_path" "list_all plain_line [''Host: a'']" "content_length_of ''Host: a'' = None"
  "is_update_path serve_path"
  by code_simp+

lemma serve_header: "length (header_text (post_lines serve_path [''Host: a''] 2 [])) = 71"
  by code_simp

theorem post_served_witness:
  "\<exists>answer. handle_connection serve_env (map Inr [take 9 serve_message, drop 9 serve_message]) serve_graph =
    Some (update_person example_json 5 serve_graph, Inr answer)"
proof -
  have "concat [take 9 serve_message, drop 9 serve_message] =
      http_message (post_lines serve_path [''Host: a''] (length [0x7B, 0x7D :: u8]) []) [0x7B, 0x7D]"
    by (simp add: serve_message_def numeral_2_eq_2)
  from post_served [OF this serve_chunks serve_plain(1,2), of serve_env 5 serve_graph] serve_plain(3,4) serve_header [unfolded numeral_2_eq_2]
  show ?thesis
    by (simp add: serve_env_def run_dgs_http_update_def Let_def serve_path_def)
qed

subsection \<open>The response\<close>

definition response_lines :: "nat \<Rightarrow> string \<Rightarrow> string \<Rightarrow> nat \<Rightarrow> string list" where
  "response_lines status reason content_type n =
     [''HTTP/1.1 '' @ dec status @ '' '' @ reason, ''Content-Type: '' @ content_type, ''Content-Length: '' @ dec n,
      ''Connection: close'']"

lemma response_message:
  "http_response status content_type body = http_message
     (response_lines status (if status = 404 then ''Not Found'' else if status = 500 then ''Internal Server Error''
        else ''OK'') content_type (length body)) body"
  by (simp add: http_response_def http_message_def response_lines_def header_text_def Let_def)

text \<open>The end of the header of a response is where the body begins, and the length it states is that of
  the body.\<close>

lemma response_reads_back:
  assumes "status \<in> {200, 404, 500}"
  shows "\<exists>p. find_header_end (http_response status json_type body) = Some p \<and>
    drop (p + 4) (http_response status json_type body) = body \<and>
    ''Content-Length: '' @ dec (length body) \<in> set (split_lines (from_utf8_lossy (take p (http_response status json_type body))))"
proof -
  define ls where "ls = response_lines status (if status = 404 then ''Not Found''
    else if status = 500 then ''Internal Server Error'' else ''OK'') json_type (length body)"
  have "list_all plain_char (dec status)"
    using assms by (auto simp: list_all_iff is_digit_def plain_char_def dest!: is_digit_dec)
  then have "list_all plain_line ls"
    using plain_dec [of "length body"]
    by (auto simp: ls_def response_lines_def plain_line_def plain_char_def json_type_def)
  then have ls: "ls \<noteq> []" "list_all plain_line ls" by (simp_all add: ls_def response_lines_def)
  have response: "http_response status json_type body = http_message ls body"
    unfolding ls_def by (rule response_message)
  show ?thesis
    unfolding response using find_header_end_message [OF ls] message_header [OF ls]
    by (auto simp: ls_def response_lines_def)
qed

end
