(* ===== verification/Metrics.thy ===== *)
theory Metrics
  imports Engine
begin

section \<open>Metrics\<close>

text \<open>
  The counters, latency histograms and per-partition statistics of \<^verbatim>\<open>src/metrics.rs\<close>. Each named
  counter and each named histogram of \<^verbatim>\<open>Metrics\<close> is a value of an enumeration, and the struct maps
  them to what they hold. The functions here are one call at a time; \<open>Metrics_Threads\<close> runs their atomic
  operations interleaved. Counters wrap at 64 bits, as \<^verbatim>\<open>fetch_add\<close> does. The arithmetic of
  \<^verbatim>\<open>f64\<close> is a parameter.
\<close>

subsection \<open>Latency histograms\<close>

definition latency_bucket_us :: "u64 list" where
  "latency_bucket_us = [100, 250, 500, 1000, 2000, 5000, 10000, 20000, 50000, 100000, 250000, 500000, 1000000,
     5000000, 30000000, -1]"

record latency_metric =
  lm_count :: u64
  lm_sum_us :: u64
  lm_min_us :: u64
  lm_max_us :: u64
  lm_buckets :: "u64 list"

definition latency_default :: latency_metric where
  "latency_default = \<lparr>lm_count = 0, lm_sum_us = 0, lm_min_us = -1, lm_max_us = 0,
     lm_buckets = replicate (length latency_bucket_us) 0\<rparr>"

text \<open>The loops of \<^verbatim>\<open>fetch_min\<close> and \<^verbatim>\<open>fetch_max\<close> when nobody interferes.\<close>

definition fetch_min :: "u64 \<Rightarrow> u64 \<Rightarrow> u64" where
  "fetch_min target value = (if value < target then value else target)"

definition fetch_max :: "u64 \<Rightarrow> u64 \<Rightarrow> u64" where
  "fetch_max target value = (if target < value then value else target)"

fun bucket_index_from :: "u64 \<Rightarrow> u64 list \<Rightarrow> nat option" where
  "bucket_index_from v [] = None"
| "bucket_index_from v (upper # us) = (if v \<le> upper then Some 0 else map_option Suc (bucket_index_from v us))"

definition bucket_add :: "u64 \<Rightarrow> u64 list \<Rightarrow> u64 list" where
  "bucket_add v bs = (case bucket_index_from v latency_bucket_us of
     None \<Rightarrow> bs | Some i \<Rightarrow> bs[i := bs ! i + 1])"

definition record_us :: "u64 \<Rightarrow> latency_metric \<Rightarrow> latency_metric" where
  "record_us v m =
     (let m = m\<lparr>lm_count := lm_count m + 1\<rparr>;
          m = m\<lparr>lm_sum_us := lm_sum_us m + v\<rparr>;
          m = m\<lparr>lm_min_us := fetch_min (lm_min_us m) v\<rparr>;
          m = m\<lparr>lm_max_us := fetch_max (lm_max_us m) v\<rparr>
      in m\<lparr>lm_buckets := bucket_add v (lm_buckets m)\<rparr>)"

text \<open>A duration is its number of microseconds.\<close>

definition duration_to_us :: "nat \<Rightarrow> u64" where
  "duration_to_us micros = (if micros < 2 ^ 64 then of_nat micros else -1)"

definition record_duration :: "nat \<Rightarrow> latency_metric \<Rightarrow> latency_metric" where
  "record_duration micros = record_us (duration_to_us micros)"

definition latency_reset :: "latency_metric \<Rightarrow> latency_metric" where
  "latency_reset m = \<lparr>lm_count = 0, lm_sum_us = 0, lm_min_us = -1, lm_max_us = 0,
     lm_buckets = map (\<lambda>_. 0) (lm_buckets m)\<rparr>"

record bucket_snapshot =
  bs_upper_bound_us :: u64
  bs_count :: u64

record latency_snapshot =
  ls_count :: u64
  ls_sum_us :: u64
  ls_min_us :: u64
  ls_max_us :: u64
  ls_avg_us :: u64
  ls_p50_us :: u64
  ls_p90_us :: u64
  ls_p99_us :: u64
  ls_buckets :: "bucket_snapshot list"

definition bucket_snapshots :: "latency_metric \<Rightarrow> bucket_snapshot list" where
  "bucket_snapshots m =
     map (\<lambda>(upper, n). \<lparr>bs_upper_bound_us = upper, bs_count = n\<rparr>) (zip latency_bucket_us (lm_buckets m))"

text \<open>The loop over the buckets, with the number of observations seen so far.\<close>

fun percentile_loop :: "bucket_snapshot list \<Rightarrow> u64 \<Rightarrow> u64 \<Rightarrow> u64 option" where
  "percentile_loop [] target seen = None"
| "percentile_loop (b # bs) target seen =
     (let seen = seen + bs_count b
      in if target \<le> seen then Some (bs_upper_bound_us b) else percentile_loop bs target seen)"

text \<open>\<open>ceil_rank n p\<close> is \<^verbatim>\<open>((n as f64) * percentile).ceil() as u64\<close> for \<open>p\<close> per cent.\<close>

definition percentile_from_buckets :: "(u64 \<Rightarrow> nat \<Rightarrow> u64) \<Rightarrow> bucket_snapshot list \<Rightarrow> u64 \<Rightarrow> nat \<Rightarrow> u64" where
  "percentile_from_buckets ceil_rank buckets n p =
     (if n = 0 then 0
      else let target = max (ceil_rank n p) 1
        in case percentile_loop buckets target 0 of
             Some upper \<Rightarrow> upper
           | None \<Rightarrow> if buckets = [] then 0 else bs_upper_bound_us (last buckets))"

definition take_snapshot :: "(u64 \<Rightarrow> nat \<Rightarrow> u64) \<Rightarrow> latency_metric \<Rightarrow> latency_snapshot" where
  "take_snapshot ceil_rank m =
     (let n = lm_count m; buckets = bucket_snapshots m
      in \<lparr>ls_count = n, ls_sum_us = lm_sum_us m,
          ls_min_us = (if n = 0 then 0 else lm_min_us m),
          ls_max_us = (if n = 0 then 0 else lm_max_us m),
          ls_avg_us = (if n = 0 then 0 else lm_sum_us m div n),
          ls_p50_us = percentile_from_buckets ceil_rank buckets n 50,
          ls_p90_us = percentile_from_buckets ceil_rank buckets n 90,
          ls_p99_us = percentile_from_buckets ceil_rank buckets n 99,
          ls_buckets = buckets\<rparr>)"

subsection \<open>Endpoints\<close>

record endpoint_metric =
  em_count :: u64
  em_errors :: u64
  em_latency :: latency_metric

definition endpoint_default :: endpoint_metric where
  "endpoint_default = \<lparr>em_count = 0, em_errors = 0, em_latency = latency_default\<rparr>"

definition endpoint_record :: "nat \<Rightarrow> bool \<Rightarrow> endpoint_metric \<Rightarrow> endpoint_metric" where
  "endpoint_record micros ok m =
     (let m = m\<lparr>em_count := em_count m + 1\<rparr>;
          m = (if ok then m else m\<lparr>em_errors := em_errors m + 1\<rparr>)
      in m\<lparr>em_latency := record_duration micros (em_latency m)\<rparr>)"

definition endpoint_reset :: "endpoint_metric \<Rightarrow> endpoint_metric" where
  "endpoint_reset m = \<lparr>em_count = 0, em_errors = 0, em_latency = latency_reset (em_latency m)\<rparr>"

subsection \<open>Partitions of level 0\<close>

record l0_partition_probe =
  pp_candidate_segments :: u64
  pp_range_filtered_segments :: u64
  pp_bloom_filtered_segments :: u64
  pp_filter_passed_segments :: u64
  pp_matched_segments :: u64
  pp_offset_cache_hits :: u64
  pp_offset_cache_misses :: u64
  pp_body_reads :: u64
  pp_bloom_false_positive_probes :: u64

definition probe_default :: l0_partition_probe where
  "probe_default = \<lparr>pp_candidate_segments = 0, pp_range_filtered_segments = 0, pp_bloom_filtered_segments = 0,
     pp_filter_passed_segments = 0, pp_matched_segments = 0, pp_offset_cache_hits = 0, pp_offset_cache_misses = 0,
     pp_body_reads = 0, pp_bloom_false_positive_probes = 0\<rparr>"

record l0_partition_metric =
  pm_query_count :: u64
  pm_probes :: l0_partition_probe

text \<open>\<open>pm_probes\<close> holds the nine sums of \<^verbatim>\<open>L0PartitionMetric\<close> that a probe adds to.\<close>

definition partition_default :: l0_partition_metric where
  "partition_default = \<lparr>pm_query_count = 0, pm_probes = probe_default\<rparr>"

definition add_probe :: "l0_partition_probe \<Rightarrow> l0_partition_probe \<Rightarrow> l0_partition_probe" where
  "add_probe m p = \<lparr>pp_candidate_segments = pp_candidate_segments m + pp_candidate_segments p,
     pp_range_filtered_segments = pp_range_filtered_segments m + pp_range_filtered_segments p,
     pp_bloom_filtered_segments = pp_bloom_filtered_segments m + pp_bloom_filtered_segments p,
     pp_filter_passed_segments = pp_filter_passed_segments m + pp_filter_passed_segments p,
     pp_matched_segments = pp_matched_segments m + pp_matched_segments p,
     pp_offset_cache_hits = pp_offset_cache_hits m + pp_offset_cache_hits p,
     pp_offset_cache_misses = pp_offset_cache_misses m + pp_offset_cache_misses p,
     pp_body_reads = pp_body_reads m + pp_body_reads p,
     pp_bloom_false_positive_probes = pp_bloom_false_positive_probes m + pp_bloom_false_positive_probes p\<rparr>"

record 'f f64_ops =
  f_of_u64 :: "u64 \<Rightarrow> 'f"
  f_add :: "'f \<Rightarrow> 'f \<Rightarrow> 'f"
  f_mul :: "'f \<Rightarrow> 'f \<Rightarrow> 'f"
  f_div :: "'f \<Rightarrow> 'f \<Rightarrow> 'f"
  f_max :: "'f \<Rightarrow> 'f \<Rightarrow> 'f"
  f_less :: "'f \<Rightarrow> 'f \<Rightarrow> bool"

record 'f l0_partition_snapshot =
  ps_key :: l0_partition_key
  ps_query_count :: u64
  ps_probes :: l0_partition_probe
  ps_avg_candidate_segments :: 'f
  ps_offset_cache_miss_rate :: 'f

definition partition_snapshot ::
  "'f f64_ops \<Rightarrow> l0_partition_key \<Rightarrow> l0_partition_metric \<Rightarrow> 'f l0_partition_snapshot" where
  "partition_snapshot F key m =
     (let p = pm_probes m; cache_probes = pp_offset_cache_hits p + pp_offset_cache_misses p
      in \<lparr>ps_key = key, ps_query_count = pm_query_count m, ps_probes = p,
          ps_avg_candidate_segments = (if pm_query_count m = 0 then f_of_u64 F 0
            else f_div F (f_of_u64 F (pp_candidate_segments p)) (f_of_u64 F (pm_query_count m))),
          ps_offset_cache_miss_rate = (if cache_probes = 0 then f_of_u64 F 0
            else f_div F (f_of_u64 F (pp_offset_cache_misses p)) (f_of_u64 F cache_probes))\<rparr>)"

text \<open>\<open>entry(key).or_default()\<close>.\<close>

definition update_partition ::
  "(l0_partition_metric \<Rightarrow> l0_partition_metric) \<Rightarrow> l0_partition_key \<Rightarrow>
   (l0_partition_key, l0_partition_metric) hash_map \<Rightarrow> (l0_partition_key, l0_partition_metric) hash_map"
where
  "update_partition f key ps =
     hm_insert key (f (case hm_get ps key of None \<Rightarrow> partition_default | Some m \<Rightarrow> m)) ps"

subsection \<open>The whole struct\<close>

datatype counter =
    Insert_ops | Delete_ops | Get_neighbors_ops | Scan_ops | Read_syscalls | Write_syscalls | Read_bytes |
    Write_bytes | Flush_count | Compaction_count | Compaction_input_bytes | Compaction_output_bytes |
    Http_requests | Http_2xx | Http_4xx | Http_5xx | Snb_vertices_count | Snb_edge_props_count |
    Snb_adjacency_groups | Snb_adjacency_edges | Snb_adjacency_bytes | Snb_adjacency_cache_hits |
    Snb_adjacency_cache_misses | Snb_adjacency_cache_write_syscalls | Snb_adjacency_cache_write_bytes |
    Vertex_lookups | Edge_prop_lookups | Adjacency_lookups | Neighbor_clone_items | Csr_header_reads |
    Csr_offset_reads | Csr_body_reads | Csr_full_scan_reads | Csr_header_bytes | Csr_offset_bytes |
    Csr_body_bytes | Candidate_l0_segments | Range_filtered_segments | Bloom_filtered_segments |
    Filter_passed_segments | Matched_l0_segments | Csr_offset_cache_hits | Csr_offset_cache_misses |
    L0_bloom_false_positive_probes

datatype latency =
    Http_request_read_latency | Http_json_parse_latency | Http_handler_latency | Http_serialize_latency |
    Http_response_write_latency | Snb_read_lock_wait_latency | Snb_read_lock_hold_latency |
    Snb_write_lock_wait_latency | Snb_write_lock_hold_latency | Snb_vertices_load_latency |
    Snb_edge_props_load_latency | Snb_adjacency_load_latency | Snb_adjacency_scan_latency |
    Snb_adjacency_group_latency | Snb_adjacency_write_latency | Storage_insert_latency |
    Storage_delete_latency | Storage_get_neighbors_latency | Storage_scan_edges_latency |
    Storage_flush_latency | Storage_compaction_latency | Storage_rebuild_index_latency |
    Csr_get_neighbors_latency | Csr_read_all_edges_latency | Csr_read_offsets_latency |
    Io_semaphore_wait_latency | Io_read_blocking_latency | Io_write_blocking_latency |
    Io_create_blocking_latency | Io_sync_blocking_latency | Io_remove_blocking_latency

record metrics =
  mt_counters :: "counter \<Rightarrow> u64"
  mt_latencies :: "latency \<Rightarrow> latency_metric"
  mt_endpoints :: "(string, endpoint_metric) hash_map"
  mt_l0_partitions :: "(l0_partition_key, l0_partition_metric) hash_map"

definition metrics_default :: metrics where
  "metrics_default = \<lparr>mt_counters = (\<lambda>_. 0), mt_latencies = (\<lambda>_. latency_default), mt_endpoints = [],
     mt_l0_partitions = []\<rparr>"

definition count_up :: "counter \<Rightarrow> u64 \<Rightarrow> metrics \<Rightarrow> metrics" where
  "count_up c n m = m\<lparr>mt_counters := (mt_counters m)(c := mt_counters m c + n)\<rparr>"

definition add_read :: "u64 \<Rightarrow> metrics \<Rightarrow> metrics" where
  "add_read bytes m = count_up Read_bytes bytes (count_up Read_syscalls 1 m)"

definition add_write :: "u64 \<Rightarrow> metrics \<Rightarrow> metrics" where
  "add_write bytes m = count_up Write_bytes bytes (count_up Write_syscalls 1 m)"

definition record_http_status :: "nat \<Rightarrow> metrics \<Rightarrow> metrics" where
  "record_http_status status m =
     (let m = count_up Http_requests 1 m
      in if 200 \<le> status \<and> status \<le> 299 then count_up Http_2xx 1 m
         else if 400 \<le> status \<and> status \<le> 499 then count_up Http_4xx 1 m
         else if 500 \<le> status \<and> status \<le> 599 then count_up Http_5xx 1 m
         else m)"

definition record_endpoint :: "string \<Rightarrow> nat \<Rightarrow> bool \<Rightarrow> metrics \<Rightarrow> metrics" where
  "record_endpoint endpoint micros ok m =
     (let old = (case hm_get (mt_endpoints m) endpoint of None \<Rightarrow> endpoint_default | Some em \<Rightarrow> em)
      in m\<lparr>mt_endpoints := hm_insert endpoint (endpoint_record micros ok old) (mt_endpoints m)\<rparr>)"

definition record_l0_partition_query :: "l0_partition_key \<Rightarrow> metrics \<Rightarrow> metrics" where
  "record_l0_partition_query key m =
     m\<lparr>mt_l0_partitions :=
       update_partition (\<lambda>p. p\<lparr>pm_query_count := pm_query_count p + 1\<rparr>) key (mt_l0_partitions m)\<rparr>"

definition record_l0_partition_probe :: "l0_partition_key \<Rightarrow> l0_partition_probe \<Rightarrow> metrics \<Rightarrow> metrics" where
  "record_l0_partition_probe key probe m =
     m\<lparr>mt_l0_partitions :=
       update_partition (\<lambda>p. p\<lparr>pm_probes := add_probe (pm_probes p) probe\<rparr>) key (mt_l0_partitions m)\<rparr>"

definition l0_partition_snapshots :: "'f f64_ops \<Rightarrow> metrics \<Rightarrow> 'f l0_partition_snapshot list" where
  "l0_partition_snapshots F m =
     sort_key (\<lambda>s. (sint (pk_src_label (ps_key s)), sint (pk_edge_type (ps_key s)), pk_range_start (ps_key s)))
       (map (\<lambda>(key, p). partition_snapshot F key p) (mt_l0_partitions m))"

definition reset_counters :: "metrics \<Rightarrow> metrics" where
  "reset_counters m = fold (\<lambda>c m. m\<lparr>mt_counters := (mt_counters m)(c := 0)\<rparr>) [
      Insert_ops, Delete_ops, Get_neighbors_ops, Scan_ops, Read_syscalls, Write_syscalls, Read_bytes,
      Write_bytes, Flush_count, Compaction_count, Compaction_input_bytes, Compaction_output_bytes,
      Http_requests, Http_2xx, Http_4xx, Http_5xx, Snb_vertices_count, Snb_edge_props_count,
      Snb_adjacency_groups, Snb_adjacency_edges, Snb_adjacency_bytes, Snb_adjacency_cache_hits,
      Snb_adjacency_cache_misses, Snb_adjacency_cache_write_syscalls, Snb_adjacency_cache_write_bytes,
      Vertex_lookups, Edge_prop_lookups, Adjacency_lookups, Neighbor_clone_items, Csr_header_reads,
      Csr_offset_reads, Csr_body_reads, Csr_full_scan_reads, Csr_header_bytes, Csr_offset_bytes,
      Csr_body_bytes, Candidate_l0_segments, Range_filtered_segments, Bloom_filtered_segments,
      Filter_passed_segments, Matched_l0_segments, Csr_offset_cache_hits, Csr_offset_cache_misses,
      L0_bloom_false_positive_probes] m"

definition reset_latencies :: "metrics \<Rightarrow> metrics" where
  "reset_latencies m =
     fold (\<lambda>l m. m\<lparr>mt_latencies := (mt_latencies m)(l := latency_reset (mt_latencies m l))\<rparr>) [
      Http_request_read_latency, Http_json_parse_latency, Http_handler_latency, Http_serialize_latency,
      Http_response_write_latency, Snb_read_lock_wait_latency, Snb_read_lock_hold_latency,
      Snb_write_lock_wait_latency, Snb_write_lock_hold_latency, Snb_vertices_load_latency,
      Snb_edge_props_load_latency, Snb_adjacency_load_latency, Snb_adjacency_scan_latency,
      Snb_adjacency_group_latency, Snb_adjacency_write_latency, Storage_insert_latency, Storage_delete_latency,
      Storage_get_neighbors_latency, Storage_scan_edges_latency, Storage_flush_latency,
      Storage_compaction_latency, Storage_rebuild_index_latency, Csr_get_neighbors_latency,
      Csr_read_all_edges_latency, Csr_read_offsets_latency, Io_semaphore_wait_latency,
      Io_read_blocking_latency, Io_write_blocking_latency, Io_create_blocking_latency,
      Io_sync_blocking_latency, Io_remove_blocking_latency] m"

definition metrics_reset :: "metrics \<Rightarrow> metrics" where
  "metrics_reset m =
     (let m = reset_counters m; m = reset_latencies m;
          m = m\<lparr>mt_endpoints := map (\<lambda>(name, em). (name, endpoint_reset em)) (mt_endpoints m)\<rparr>
      in m\<lparr>mt_l0_partitions := []\<rparr>)"

end
