(* ===== verification/Metrics_Facts.thy ===== *)
theory Metrics_Facts
  imports Metrics
begin

section \<open>What the metrics report\<close>

text \<open>
  A histogram after a list of observations, the snapshot taken of it, and the reset of the whole struct.
\<close>

subsection \<open>The histogram of a list\<close>

definition count_where :: "('a \<Rightarrow> bool) \<Rightarrow> 'a list \<Rightarrow> nat" where
  "count_where P xs = length (filter P xs)"

lemma count_where_simps [simp]:
  "count_where P [] = 0" "count_where P (x # xs) = (if P x then 1 else 0) + count_where P xs"
  "count_where P (xs @ ys) = count_where P xs + count_where P ys"
  by (simp_all add: count_where_def)

lemma count_where_le: "count_where P xs \<le> length xs"
  by (simp add: count_where_def)

lemma count_where_all: "(\<And>x. x \<in> set xs \<Longrightarrow> P x) \<Longrightarrow> count_where P xs = length xs"
  by (simp add: count_where_def)

lemma count_where_split:
  "(\<And>x. x \<in> set xs \<Longrightarrow> P x \<Longrightarrow> Q x) \<Longrightarrow>
   count_where Q xs = count_where P xs + count_where Q (filter (\<lambda>x. \<not> P x) xs)"
  by (induction xs) auto

text \<open>The observations up to each bound and above the one before it.\<close>

fun histogram :: "u64 list \<Rightarrow> u64 list \<Rightarrow> u64 list" where
  "histogram [] vs = []"
| "histogram (u # us) vs = of_nat (count_where (\<lambda>v. v \<le> u) vs) # histogram us (filter (\<lambda>v. \<not> v \<le> u) vs)"

lemma length_histogram [simp]: "length (histogram us vs) = length us"
  by (induction us arbitrary: vs) auto

lemma histogram_Nil [simp]: "histogram us [] = replicate (length us) 0"
  by (induction us) auto

lemma histogram_snoc:
  "(case bucket_index_from v us of None \<Rightarrow> histogram us vs | Some i \<Rightarrow> (histogram us vs)[i := histogram us vs ! i + 1]) =
   histogram us (vs @ [v])"
proof (induction us arbitrary: vs)
  case (Cons u us)
  show ?case
  proof (cases "v \<le> u")
    case False
    with Cons.IH [of "filter (\<lambda>v. \<not> v \<le> u) vs"] show ?thesis
      by (cases "bucket_index_from v us") (simp_all add: False del: not_le)
  qed simp
qed simp

lemma histogram_perm: "mset vs = mset ws \<Longrightarrow> histogram us vs = histogram us ws"
proof (induction us arbitrary: vs ws)
  case (Cons u us)
  have "count_where (\<lambda>v. v \<le> u) vs = count_where (\<lambda>v. v \<le> u) ws"
    using Cons.prems by (metis count_where_def mset_filter size_mset)
  moreover have "histogram us (filter (\<lambda>v. \<not> v \<le> u) vs) = histogram us (filter (\<lambda>v. \<not> v \<le> u) ws)"
    using Cons.prems by (intro Cons.IH) simp
  ultimately show ?case by simp
qed simp

subsection \<open>A metric after its observations\<close>

definition recorded :: "u64 list \<Rightarrow> latency_metric" where
  "recorded vs = fold record_us vs latency_default"

lemma recorded_snoc: "recorded (vs @ [v]) = record_us v (recorded vs)"
  by (simp add: recorded_def)

lemma fetch_min_min: "fetch_min a b = min a b"
  by (auto simp: fetch_min_def min_def dest: leD)

lemma fetch_max_max: "fetch_max a b = max a b"
  by (auto simp: fetch_max_def max_def dest: leD)

lemma recorded_fields:
  "recorded vs = \<lparr>lm_count = of_nat (length vs), lm_sum_us = sum_list vs, lm_min_us = Min (insert (-1) (set vs)),
     lm_max_us = Max (insert 0 (set vs)), lm_buckets = histogram latency_bucket_us vs\<rparr>"
proof (induction vs rule: rev_induct)
  case Nil
  then show ?case by (simp add: recorded_def latency_default_def)
next
  case (snoc v vs)
  have sets: "insert a (set (vs @ [v])) = insert v (insert a (set vs))" for a by auto
  have "min (Min (insert (-1) (set vs))) v = Min (insert (-1) (set (vs @ [v])))"
    "max (Max (insert 0 (set vs))) v = Max (insert 0 (set (vs @ [v])))"
    unfolding sets by (subst Min_insert Max_insert; (rule min.commute max.commute | simp))+
  moreover have "bucket_add v (histogram latency_bucket_us vs) = histogram latency_bucket_us (vs @ [v])"
    by (simp only: bucket_add_def histogram_snoc)
  ultimately show ?case
    unfolding recorded_snoc snoc.IH
    by (simp add: record_us_def Let_def fetch_min_min fetch_max_max add.commute del: set_append Max_insert Min_insert)
qed

lemma recorded_perm: "mset vs = mset ws \<Longrightarrow> recorded vs = recorded ws"
proof -
  assume perm: "mset vs = mset ws"
  then have "length vs = length ws" "set vs = set ws" by (auto dest: mset_eq_length mset_eq_setD)
  moreover have "sum_list vs = sum_list ws" using perm by (metis sum_mset_sum_list)
  ultimately show ?thesis by (simp add: recorded_fields histogram_perm [OF perm])
qed

subsection \<open>Percentiles\<close>

lemma unat_of_count: "n < 2 ^ 64 \<Longrightarrow> unat (of_nat n :: u64) = n"
  by (simp add: unat_of_nat take_bit_nat_eq_self)

lemma percentile_loop_histogram:
  assumes "sorted_wrt (<) us" "k + length vs < 2 ^ 64" "unat target \<le> k + count_where (\<lambda>v. v \<le> last us) vs" "us \<noteq> []"
    and "k < unat target"
  shows "\<exists>b \<in> set us. percentile_loop
      (map (\<lambda>(upper, n). \<lparr>bs_upper_bound_us = upper, bs_count = n\<rparr>) (zip us (histogram us vs))) target (of_nat k) = Some b \<and>
    unat target \<le> k + count_where (\<lambda>v. v \<le> b) vs \<and>
    (\<forall>b' \<in> set us. b' < b \<longrightarrow> k + count_where (\<lambda>v. v \<le> b') vs < unat target)"
  using assms
proof (induction us arbitrary: vs k)
  case (Cons u us)
  let ?n = "count_where (\<lambda>v. v \<le> u) vs"
  let ?vs = "filter (\<lambda>v. \<not> v \<le> u) vs"
  have len: "?n + length ?vs = length vs"
    unfolding count_where_def by (rule sum_length_filter_compl)
  have split: "count_where (\<lambda>v. v \<le> b) vs = ?n + count_where (\<lambda>v. v \<le> b) ?vs" if "u \<le> b" for b
    by (rule count_where_split) (use that in auto)
  have seen: "(of_nat k :: u64) + of_nat ?n = of_nat (k + ?n)" by simp
  have reached: "target \<le> of_nat (k + ?n) \<longleftrightarrow> unat target \<le> k + ?n"
    unfolding word_le_nat_alt [of target] using Cons.prems(2) len by (subst unat_of_count) simp_all
  show ?case
  proof (cases "unat target \<le> k + ?n")
    case True
    with Cons.prems(1) reached show ?thesis by (auto simp: seen simp del: of_nat_add)
  next
    case False
    with Cons.prems(3) have us: "us \<noteq> []" by auto
    have last: "unat target \<le> k + ?n + count_where (\<lambda>v. v \<le> last us) ?vs"
      using Cons.prems(1,3) us split [of "last us"] last_in_set [OF us] by (auto simp: less_imp_le)
    have "\<exists>b \<in> set us. percentile_loop
        (map (\<lambda>(upper, n). \<lparr>bs_upper_bound_us = upper, bs_count = n\<rparr>) (zip us (histogram us ?vs))) target
          (of_nat (k + ?n)) = Some b \<and>
      unat target \<le> k + ?n + count_where (\<lambda>v. v \<le> b) ?vs \<and>
      (\<forall>b' \<in> set us. b' < b \<longrightarrow> k + ?n + count_where (\<lambda>v. v \<le> b') ?vs < unat target)"
      by (rule Cons.IH) (use Cons.prems(1,2) len last us False in auto)
    then obtain b where b: "b \<in> set us" "percentile_loop
        (map (\<lambda>(upper, n). \<lparr>bs_upper_bound_us = upper, bs_count = n\<rparr>) (zip us (histogram us ?vs))) target
          (of_nat (k + ?n)) = Some b"
      "unat target \<le> k + ?n + count_where (\<lambda>v. v \<le> b) ?vs"
      "\<forall>b' \<in> set us. b' < b \<longrightarrow> k + ?n + count_where (\<lambda>v. v \<le> b') ?vs < unat target"
      by blast
    have "u < b'" if "b' \<in> set us" for b' using Cons.prems(1) that by simp
    note above = this
    have upper: "unat target \<le> k + count_where (\<lambda>v. v \<le> b) vs"
      using b(3) split [OF less_imp_le [OF above [OF b(1)]]] by (simp only: add.assoc)
    have least: "k + count_where (\<lambda>v. v \<le> b') vs < unat target" if "b' \<in> set (u # us)" "b' < b" for b'
    proof (cases "b' = u")
      case True
      with False show ?thesis by simp
    next
      case other: False
      with that have "b' \<in> set us" by simp
      with b(4) that(2) split [OF less_imp_le [OF above]] show ?thesis by (simp only: add.assoc)
    qed
    have "percentile_loop (map (\<lambda>(upper, n). \<lparr>bs_upper_bound_us = upper, bs_count = n\<rparr>)
        (zip (u # us) (histogram (u # us) vs))) target (of_nat k) = Some b"
      using False reached b(2) by (simp add: seen del: of_nat_add)
    with b(1) upper least show ?thesis by (intro bexI [of _ b]) simp_all
  qed
qed simp

text \<open>A bound that is a quantile: enough observations are at most it, and no smaller bound has enough.\<close>

definition bucket_quantile :: "u64 list \<Rightarrow> nat \<Rightarrow> u64 \<Rightarrow> bool" where
  "bucket_quantile vs k b \<longleftrightarrow> b \<in> set latency_bucket_us \<and> k \<le> count_where (\<lambda>v. v \<le> b) vs \<and>
     (\<forall>b' \<in> set latency_bucket_us. b' < b \<longrightarrow> count_where (\<lambda>v. v \<le> b') vs < k)"

lemma latency_buckets_sorted: "sorted_wrt (<) latency_bucket_us" "last latency_bucket_us = -1" "latency_bucket_us \<noteq> []"
  by (simp_all add: latency_bucket_us_def word_less_nat_alt unsigned_minus_1_eq_mask mask_eq_exp_minus_1)

lemma percentile_recorded:
  assumes "vs \<noteq> []" "length vs < 2 ^ 64" "unat (ceil_rank (of_nat (length vs)) p) \<le> length vs"
  shows "bucket_quantile vs (max (unat (ceil_rank (of_nat (length vs)) p)) 1)
    (percentile_from_buckets ceil_rank (bucket_snapshots (recorded vs)) (lm_count (recorded vs)) p)"
proof -
  let ?target = "max (ceil_rank (of_nat (length vs)) p) 1"
  have target: "unat ?target = max (unat (ceil_rank (of_nat (length vs)) p)) 1"
    by (simp add: max_def word_le_nat_alt)
  have all: "count_where (\<lambda>v. v \<le> last latency_bucket_us) vs = length vs"
    by (rule count_where_all) (simp add: latency_buckets_sorted)
  from assms(1) have "1 \<le> length vs" by (simp add: Suc_le_eq)
  with assms(3) have enough: "unat ?target \<le> 0 + count_where (\<lambda>v. v \<le> last latency_bucket_us) vs" "0 < unat ?target"
    unfolding all target by simp_all
  have "(of_nat (length vs) :: u64) \<noteq> 0"
    using assms(1,2) unat_of_count [of "length vs"] by auto
  moreover obtain b where b: "b \<in> set latency_bucket_us"
      "percentile_loop (bucket_snapshots (recorded vs)) ?target (of_nat 0) = Some b"
      "unat ?target \<le> count_where (\<lambda>v. v \<le> b) vs"
      "\<forall>b' \<in> set latency_bucket_us. b' < b \<longrightarrow> count_where (\<lambda>v. v \<le> b') vs < unat ?target"
    using percentile_loop_histogram [OF latency_buckets_sorted(1) _ enough(1) latency_buckets_sorted(3) enough(2)] assms(2)
    unfolding bucket_snapshots_def recorded_fields latency_metric.simps add_0 by blast
  moreover have count: "lm_count (recorded vs) = of_nat (length vs)" by (simp add: recorded_fields)
  ultimately have "percentile_from_buckets ceil_rank (bucket_snapshots (recorded vs)) (lm_count (recorded vs)) p = b"
    by (simp add: percentile_from_buckets_def Let_def count)
  then show ?thesis using b(1,3,4) by (simp only: bucket_quantile_def target)
qed

lemma snapshot_columns:
  "length us = length bs \<Longrightarrow>
   map bs_upper_bound_us (map (\<lambda>(upper, n). \<lparr>bs_upper_bound_us = upper, bs_count = n\<rparr>) (zip us bs)) = us \<and>
   map bs_count (map (\<lambda>(upper, n). \<lparr>bs_upper_bound_us = upper, bs_count = n\<rparr>) (zip us bs)) = bs"
  by (induction us bs rule: list_induct2) auto

text \<open>C38. The snapshot of a histogram that has recorded a list of durations: their number, sum, extremes and
  average, the count of each bucket, and for every percentile the least bucket bound with enough observations
  below it.\<close>

theorem snapshot_exact:
  assumes "vs \<noteq> []" "length vs < 2 ^ 64"
    and "\<forall>p \<in> {50, 90, 99}. unat (ceil_rank (of_nat (length vs)) p) \<le> length vs"
  defines "s \<equiv> take_snapshot ceil_rank (fold record_us vs latency_default)"
    and "rank \<equiv> \<lambda>p. max (unat (ceil_rank (of_nat (length vs)) p)) 1"
  shows "unat (ls_count s) = length vs \<and> ls_sum_us s = sum_list vs \<and> ls_avg_us s = sum_list vs div of_nat (length vs) \<and>
    ls_min_us s = Min (set vs) \<and> ls_max_us s = Max (set vs) \<and>
    map bs_upper_bound_us (ls_buckets s) = latency_bucket_us \<and>
    map bs_count (ls_buckets s) = histogram latency_bucket_us vs \<and>
    bucket_quantile vs (rank 50) (ls_p50_us s) \<and> bucket_quantile vs (rank 90) (ls_p90_us s) \<and>
    bucket_quantile vs (rank 99) (ls_p99_us s)"
proof -
  have s: "s = take_snapshot ceil_rank (recorded vs)" by (simp add: s_def recorded_def)
  have n: "(of_nat (length vs) :: u64) \<noteq> 0" "unat (of_nat (length vs) :: u64) = length vs"
    using assms(1,2) unat_of_count [of "length vs"] by auto
  have "Min (insert (-1) (set vs)) = min (-1) (Min (set vs))" "Max (insert 0 (set vs)) = max 0 (Max (set vs))"
    using assms(1) by (simp_all only: Min_insert Max_insert finite_set set_empty not_False_eq_True)
  then have "Min (insert (-1) (set vs)) = Min (set vs)" "Max (insert 0 (set vs)) = Max (set vs)"
    by (simp_all only: min_absorb2 max_absorb2 word_n1_ge word_zero_le)
  with n show ?thesis
    using percentile_recorded [OF assms(1,2), of ceil_rank] assms(3)
      snapshot_columns [of latency_bucket_us "histogram latency_bucket_us vs"]
    by (simp add: s take_snapshot_def Let_def rank_def recorded_fields bucket_snapshots_def del: map_map)
qed

theorem snapshot_exact_witness:
  "ls_min_us (take_snapshot (\<lambda>n p. n) (fold record_us [10, 2500, 80000] latency_default)) = 10 \<and>
   bucket_quantile [10, 2500, 80000] 3 (ls_p99_us (take_snapshot (\<lambda>n p. n) (fold record_us [10, 2500, 80000] latency_default)))"
  using snapshot_exact [of "[10, 2500, 80000]" "\<lambda>n p. n"] by (simp add: min_def)

subsection \<open>The reset\<close>

definition well_shaped :: "metrics \<Rightarrow> bool" where
  "well_shaped m \<longleftrightarrow> (\<forall>l. length (lm_buckets (mt_latencies m l)) = length latency_bucket_us) \<and>
     (\<forall>(name, em) \<in> set (mt_endpoints m). length (lm_buckets (em_latency em)) = length latency_bucket_us)"

lemma latency_reset_default:
  "length (lm_buckets m) = length latency_bucket_us \<Longrightarrow> latency_reset m = latency_default"
  by (simp add: latency_reset_def latency_default_def map_replicate_const)

lemma fold_counters:
  "fold (\<lambda>c m. m\<lparr>mt_counters := (mt_counters m)(c := 0)\<rparr>) cs m =
   m\<lparr>mt_counters := (\<lambda>c. if c \<in> set cs then 0 else mt_counters m c)\<rparr>"
  by (induction cs arbitrary: m) (auto simp: fun_eq_iff)

lemma fold_latencies:
  "distinct ls \<Longrightarrow> fold (\<lambda>l m. m\<lparr>mt_latencies := (mt_latencies m)(l := f (mt_latencies m l))\<rparr>) ls m =
   m\<lparr>mt_latencies := (\<lambda>l. if l \<in> set ls then f (mt_latencies m l) else mt_latencies m l)\<rparr>"
  by (induction ls arbitrary: m) (auto simp: fun_eq_iff)

lemma reset_counters_all: "reset_counters m = m\<lparr>mt_counters := (\<lambda>_. 0)\<rparr>"
proof -
  have "mt_counters (reset_counters m) c = 0" for c
    unfolding reset_counters_def fold_counters by (cases c) simp_all
  then show ?thesis by (simp add: reset_counters_def fold_counters fun_eq_iff)
qed

lemma reset_latencies_all: "reset_latencies m = m\<lparr>mt_latencies := latency_reset \<circ> mt_latencies m\<rparr>"
proof -
  have "mt_latencies (reset_latencies m) l = latency_reset (mt_latencies m l)" for l
    unfolding reset_latencies_def by (subst fold_latencies; (simp; fail | cases l; simp))
  then show ?thesis by (simp add: reset_latencies_def fold_latencies fun_eq_iff)
qed

text \<open>The reset misses no counter and no histogram: what is left is the struct as it was created, with the
  names of the endpoints kept and their statistics cleared.\<close>

lemma reset_clears:
  assumes "well_shaped m"
  shows "metrics_reset m =
    metrics_default\<lparr>mt_endpoints := map (\<lambda>(name, _). (name, endpoint_default)) (mt_endpoints m)\<rparr>"
proof -
  have "map (\<lambda>(name, em). (name, endpoint_reset em)) (mt_endpoints m) =
      map (\<lambda>(name, _). (name, endpoint_default)) (mt_endpoints m)"
    using assms
    by (auto simp: well_shaped_def endpoint_reset_def endpoint_default_def latency_reset_default)
  moreover have "latency_reset \<circ> mt_latencies m = (\<lambda>_. latency_default)"
    using assms by (auto simp: well_shaped_def latency_reset_default)
  ultimately show ?thesis
    by (simp add: metrics_reset_def Let_def reset_counters_all reset_latencies_all metrics_default_def)
qed

end
