(* ===== verification/Metrics_Threads.thy ===== *)
theory Metrics_Threads
  imports Metrics_Facts
begin

section \<open>Threads that record at the same time\<close>

text \<open>
  \<^verbatim>\<open>LatencyMetric::record_us\<close> one atomic operation at a time, with the loops of
  \<^verbatim>\<open>fetch_min\<close> and \<^verbatim>\<open>fetch_max\<close> around a \<^verbatim>\<open>compare_exchange_weak\<close>, run by any number of
  threads in any interleaving. The cells are sequentially consistent: a load reads the last value stored. A
  weak exchange may fail although the cell holds the expected value; such a step carries the flag
  \<open>True\<close>.
\<close>

subsection \<open>The steps of a thread\<close>

text \<open>Where a thread is in the call; a loop holds the value it read.\<close>

datatype record_pc =
    At_count | At_sum | Load_min | Loop_min u64 | Load_max | Loop_max u64 | At_bucket | Recorded

inductive record_step :: "u64 \<Rightarrow> bool \<Rightarrow> latency_metric \<times> record_pc \<Rightarrow> latency_metric \<times> record_pc \<Rightarrow> bool" where
  add_count: "record_step v False (m, At_count) (m\<lparr>lm_count := lm_count m + 1\<rparr>, At_sum)"
| add_sum: "record_step v False (m, At_sum) (m\<lparr>lm_sum_us := lm_sum_us m + v\<rparr>, Load_min)"
| load_min: "record_step v False (m, Load_min) (m, Loop_min (lm_min_us m))"
| swap_min: "v < cur \<Longrightarrow> lm_min_us m = cur \<Longrightarrow> record_step v False (m, Loop_min cur) (m\<lparr>lm_min_us := v\<rparr>, Load_max)"
| retry_min: "v < cur \<Longrightarrow> lm_min_us m \<noteq> cur \<Longrightarrow> record_step v False (m, Loop_min cur) (m, Loop_min (lm_min_us m))"
| weak_min: "v < cur \<Longrightarrow> lm_min_us m = cur \<Longrightarrow> record_step v True (m, Loop_min cur) (m, Loop_min (lm_min_us m))"
| leave_min: "\<not> v < cur \<Longrightarrow> record_step v False (m, Loop_min cur) (m, Load_max)"
| load_max: "record_step v False (m, Load_max) (m, Loop_max (lm_max_us m))"
| swap_max: "cur < v \<Longrightarrow> lm_max_us m = cur \<Longrightarrow> record_step v False (m, Loop_max cur) (m\<lparr>lm_max_us := v\<rparr>, At_bucket)"
| retry_max: "cur < v \<Longrightarrow> lm_max_us m \<noteq> cur \<Longrightarrow> record_step v False (m, Loop_max cur) (m, Loop_max (lm_max_us m))"
| weak_max: "cur < v \<Longrightarrow> lm_max_us m = cur \<Longrightarrow> record_step v True (m, Loop_max cur) (m, Loop_max (lm_max_us m))"
| leave_max: "\<not> cur < v \<Longrightarrow> record_step v False (m, Loop_max cur) (m, At_bucket)"
| add_bucket: "record_step v False (m, At_bucket) (m\<lparr>lm_buckets := bucket_add v (lm_buckets m)\<rparr>, Recorded)"

inductive_cases record_stepE: "record_step v f (m, pc) s"

text \<open>One thread moves; a run carries the flags of its steps.\<close>

type_synonym recorders = "latency_metric \<times> (u64 \<times> record_pc) list"

inductive threads_step :: "bool \<Rightarrow> recorders \<Rightarrow> recorders \<Rightarrow> bool" where
  one_thread: "record_step v f (m, pc) (m', pc') \<Longrightarrow>
    threads_step f (m, xs @ (v, pc) # ys) (m', xs @ (v, pc') # ys)"

inductive threads_run :: "bool list \<Rightarrow> recorders \<Rightarrow> recorders \<Rightarrow> bool" where
  run_start: "threads_run [] s s"
| run_step: "threads_run fs s t \<Longrightarrow> threads_step f t u \<Longrightarrow> threads_run (fs @ [f]) s u"

subsection \<open>The invariant\<close>

text \<open>The values of the threads that are past a part of the call.\<close>

fun stage :: "record_pc \<Rightarrow> nat" where
  "stage At_count = 0" | "stage At_sum = 1" | "stage Load_min = 2" | "stage (Loop_min cur) = 2"
| "stage Load_max = 3" | "stage (Loop_max cur) = 3" | "stage At_bucket = 4" | "stage Recorded = 5"

definition past :: "nat \<Rightarrow> (u64 \<times> record_pc) list \<Rightarrow> u64 list" where
  "past k ths = map fst (filter (\<lambda>(v, pc). k \<le> stage pc) ths)"

lemma past_append [simp]: "past k (xs @ ys) = past k xs @ past k ys"
  by (simp add: past_def)

lemma past_Cons [simp]: "past k ((v, pc) # ths) = (if k \<le> stage pc then v # past k ths else past k ths)"
  by (simp add: past_def)

text \<open>A loop has read a value the cell has only improved on since.\<close>

fun loop_ok :: "latency_metric \<Rightarrow> record_pc \<Rightarrow> bool" where
  "loop_ok m (Loop_min cur) \<longleftrightarrow> lm_min_us m \<le> cur"
| "loop_ok m (Loop_max cur) \<longleftrightarrow> cur \<le> lm_max_us m"
| "loop_ok m pc \<longleftrightarrow> True"

definition recording :: "u64 list \<Rightarrow> u64 list \<Rightarrow> recorders \<Rightarrow> bool" where
  "recording ws vs = (\<lambda>(m, ths). map fst ths = vs \<and>
     m = \<lparr>lm_count = of_nat (length (ws @ past 1 ths)), lm_sum_us = sum_list (ws @ past 2 ths),
       lm_min_us = Min (insert (-1) (set (ws @ past 3 ths))), lm_max_us = Max (insert 0 (set (ws @ past 4 ths))),
       lm_buckets = histogram latency_bucket_us (ws @ past 5 ths)\<rparr> \<and>
     list_all (\<lambda>(v, pc). loop_ok m pc) ths)"

lemma past_start: "1 \<le> k \<Longrightarrow> past k (map (\<lambda>v. (v, At_count)) vs) = []"
  by (induction vs) (simp_all add: past_def)

lemma recording_start: "recording ws vs (recorded ws, map (\<lambda>v. (v, At_count)) vs)"
  by (simp add: recording_def past_start recorded_fields list_all_iff comp_def)

lemma Min_middle:
  "Min (insert (-1 :: u64) (set (ws @ as @ v # bs))) = min v (Min (insert (-1) (set (ws @ as @ bs))))"
proof -
  have "insert (-1 :: u64) (set (ws @ as @ v # bs)) = insert v (insert (-1) (set (ws @ as @ bs)))" by auto
  then show ?thesis by (simp only: Min_insert finite_set finite_insert insert_not_empty not_False_eq_True)
qed

lemma Max_middle:
  "Max (insert (0 :: u64) (set (ws @ as @ v # bs))) = max v (Max (insert 0 (set (ws @ as @ bs))))"
proof -
  have "insert (0 :: u64) (set (ws @ as @ v # bs)) = insert v (insert 0 (set (ws @ as @ bs)))" by auto
  then show ?thesis by (simp only: Max_insert finite_set finite_insert insert_not_empty not_False_eq_True)
qed

lemma histogram_middle:
  "histogram latency_bucket_us (ws @ as @ v # bs) = bucket_add v (histogram latency_bucket_us (ws @ as @ bs))"
proof -
  have "histogram latency_bucket_us (ws @ as @ v # bs) = histogram latency_bucket_us ((ws @ as @ bs) @ [v])"
    by (rule histogram_perm) simp
  then show ?thesis by (simp only: bucket_add_def histogram_snoc)
qed

text \<open>Improving a cell keeps what the loops have read.\<close>

lemma loops_ok_mono:
  assumes "list_all (\<lambda>(v, pc). loop_ok m pc) ths" "lm_min_us m' \<le> lm_min_us m" "lm_max_us m \<le> lm_max_us m'"
  shows "list_all (\<lambda>(v, pc). loop_ok m' pc) ths"
proof -
  have "loop_ok m pc \<Longrightarrow> loop_ok m' pc" for pc using assms(2,3) by (cases pc) auto
  with assms(1) show ?thesis by (auto simp: list_all_iff)
qed

lemma step_count:
  assumes "record_step v f (m, pc) (m', pc')" "lm_count m = of_nat (length (ws @ past 1 (xs @ (v, pc) # ys)))"
  shows "lm_count m' = of_nat (length (ws @ past 1 (xs @ (v, pc') # ys)))"
  using assms by (cases rule: record_step.cases) simp_all

lemma step_sum:
  assumes "record_step v f (m, pc) (m', pc')" "lm_sum_us m = sum_list (ws @ past 2 (xs @ (v, pc) # ys))"
  shows "lm_sum_us m' = sum_list (ws @ past 2 (xs @ (v, pc') # ys))"
  using assms by (cases rule: record_step.cases) simp_all

lemma step_min:
  assumes "record_step v f (m, pc) (m', pc')" "loop_ok m pc"
    and "lm_min_us m = Min (insert (-1) (set (ws @ past 3 (xs @ (v, pc) # ys))))"
  shows "lm_min_us m' = Min (insert (-1) (set (ws @ past 3 (xs @ (v, pc') # ys)))) \<and> lm_min_us m' \<le> lm_min_us m"
proof -
  define old where "old = Min (insert (-1) (set (ws @ past 3 xs @ past 3 ys)))"
  have middle: "Min (insert (-1) (set (ws @ past 3 xs @ v # past 3 ys))) = min v old"
    unfolding old_def by (rule Min_middle)
  show ?thesis
    using assms
    by (cases rule: record_step.cases)
      (simp_all add: middle old_def [symmetric] min_absorb1 min_absorb2 not_less less_imp_le
        del: set_append Min_insert)
qed

lemma step_max:
  assumes "record_step v f (m, pc) (m', pc')" "loop_ok m pc"
    and "lm_max_us m = Max (insert 0 (set (ws @ past 4 (xs @ (v, pc) # ys))))"
  shows "lm_max_us m' = Max (insert 0 (set (ws @ past 4 (xs @ (v, pc') # ys)))) \<and> lm_max_us m \<le> lm_max_us m'"
proof -
  define old where "old = Max (insert 0 (set (ws @ past 4 xs @ past 4 ys)))"
  have middle: "Max (insert 0 (set (ws @ past 4 xs @ v # past 4 ys))) = max v old"
    unfolding old_def by (rule Max_middle)
  show ?thesis
    using assms
    by (cases rule: record_step.cases)
      (simp_all add: middle old_def [symmetric] max_absorb1 max_absorb2 not_less less_imp_le
        del: set_append Max_insert)
qed

lemma step_buckets:
  assumes "record_step v f (m, pc) (m', pc')"
    and "lm_buckets m = histogram latency_bucket_us (ws @ past 5 (xs @ (v, pc) # ys))"
  shows "lm_buckets m' = histogram latency_bucket_us (ws @ past 5 (xs @ (v, pc') # ys))"
  using assms by (cases rule: record_step.cases) (simp_all add: histogram_middle)

lemma step_loop: "record_step v f (m, pc) (m', pc') \<Longrightarrow> loop_ok m' pc'"
  by (erule record_step.cases) auto

lemma recording_step:
  assumes "recording ws vs s" "threads_step f s t"
  shows "recording ws vs t"
  using assms(2,1)
proof (induction rule: threads_step.induct)
  case (one_thread v f m pc m' pc' xs ys)
  let ?old = "xs @ (v, pc) # ys" and ?new = "xs @ (v, pc') # ys"
  have inv: "map fst ?old = vs \<and>
      m = \<lparr>lm_count = of_nat (length (ws @ past 1 ?old)), lm_sum_us = sum_list (ws @ past 2 ?old),
        lm_min_us = Min (insert (-1) (set (ws @ past 3 ?old))), lm_max_us = Max (insert 0 (set (ws @ past 4 ?old))),
        lm_buckets = histogram latency_bucket_us (ws @ past 5 ?old)\<rparr> \<and> list_all (\<lambda>(v, pc). loop_ok m pc) ?old"
    using one_thread.prems unfolding recording_def prod.case .
  note vs = conjunct1 [OF inv] and eq = conjunct1 [OF conjunct2 [OF inv]]
    and loops = conjunct2 [OF conjunct2 [OF inv]]
  have m: "lm_count m = of_nat (length (ws @ past 1 ?old))" "lm_sum_us m = sum_list (ws @ past 2 ?old)"
    "lm_min_us m = Min (insert (-1) (set (ws @ past 3 ?old)))" "lm_max_us m = Max (insert 0 (set (ws @ past 4 ?old)))"
    "lm_buckets m = histogram latency_bucket_us (ws @ past 5 ?old)"
    by (subst eq, simp only: latency_metric.simps)+
  have loop: "loop_ok m pc" using loops by simp
  note new_min = step_min [OF one_thread.hyps loop m(3)] and new_max = step_max [OF one_thread.hyps loop m(4)]
  have "m' = \<lparr>lm_count = of_nat (length (ws @ past 1 ?new)), lm_sum_us = sum_list (ws @ past 2 ?new),
       lm_min_us = Min (insert (-1) (set (ws @ past 3 ?new))), lm_max_us = Max (insert 0 (set (ws @ past 4 ?new))),
       lm_buckets = histogram latency_bucket_us (ws @ past 5 ?new)\<rparr>"
    by (rule latency_metric.equality, simp_all only: latency_metric.simps step_count [OF one_thread.hyps m(1)]
        step_sum [OF one_thread.hyps m(2)] new_min new_max step_buckets [OF one_thread.hyps m(5)]) simp
  moreover have "list_all (\<lambda>(v, pc). loop_ok m' pc) ?new"
    using loops_ok_mono [OF loops conjunct2 [OF new_min] conjunct2 [OF new_max]] step_loop [OF one_thread.hyps] by simp
  ultimately show ?case using vs unfolding recording_def by simp
qed

lemma recording_run: "threads_run fs s t \<Longrightarrow> recording ws vs s \<Longrightarrow> recording ws vs t"
  by (induction rule: threads_run.induct) (auto intro: recording_step)

subsection \<open>Progress\<close>

text \<open>What is left to do, in rounds of all threads, and the loops that read an old value.\<close>

fun left :: "record_pc \<Rightarrow> nat" where
  "left At_count = 7" | "left At_sum = 6" | "left Load_min = 5" | "left (Loop_min cur) = 4"
| "left Load_max = 3" | "left (Loop_max cur) = 2" | "left At_bucket = 1" | "left Recorded = 0"

fun outdated :: "latency_metric \<Rightarrow> record_pc \<Rightarrow> nat" where
  "outdated m (Loop_min cur) = (if cur = lm_min_us m then 0 else 1)"
| "outdated m (Loop_max cur) = (if cur = lm_max_us m then 0 else 1)"
| "outdated m pc = 0"

definition remaining_work :: "nat \<Rightarrow> recorders \<Rightarrow> nat" where
  "remaining_work n = (\<lambda>(m, ths). (\<Sum>(v, pc) \<leftarrow> ths. left pc * (n + 1) + outdated m pc))"

lemma work_of_others:
  "(\<Sum>(v, pc) \<leftarrow> ths. left pc * k + outdated m' pc) \<le> (\<Sum>(v, pc) \<leftarrow> ths. left pc * k + outdated m pc) + length ths"
proof (induction ths)
  case (Cons th ths)
  have "outdated m' (snd th) \<le> 1" by (cases "snd th") auto
  with Cons show ?case by (auto split: prod.splits)
qed simp

lemma own_work:
  assumes "record_step v f (m, pc) (m', pc')"
  shows "f \<and> m' = m \<and> pc' = pc \<or>
    \<not> f \<and> m' = m \<and> left pc' * k + outdated m' pc' < left pc * k + outdated m pc \<or>
    \<not> f \<and> left pc = Suc (left pc') \<and> outdated m' pc' = 0"
  using assms by (cases rule: record_step.cases) auto

lemma work_step:
  assumes "threads_step f (m, ths) (m', ths')"
  shows "length ths' = length ths \<and>
    remaining_work (length ths) (m', ths') + (if f then 0 else 1) \<le> remaining_work (length ths) (m, ths)"
  using assms
proof (cases rule: threads_step.cases)
  case (one_thread v pc pc' xs ys)
  let ?n = "length (xs @ (v, pc) # ys)"
  let ?w = "\<lambda>m ths. \<Sum>(v, pc) \<leftarrow> ths. left pc * (?n + 1) + outdated m pc"
  from own_work [OF one_thread(3), of "?n + 1"]
  have "?w m' (xs @ (v, pc') # ys) + (if f then 0 else 1) \<le> ?w m (xs @ (v, pc) # ys)"
  proof (elim disjE conjE)
    assume "left pc = Suc (left pc')" "outdated m' pc' = 0"
    with work_of_others [of "?n + 1" m' xs m] work_of_others [of "?n + 1" m' ys m] show ?thesis by simp
  qed simp_all
  then show ?thesis unfolding one_thread(1,2) by (simp add: remaining_work_def)
qed

lemma work_run:
  "threads_run fs s t \<Longrightarrow> length (snd t) = length (snd s) \<and>
   length (filter Not fs) + remaining_work (length (snd s)) t \<le> remaining_work (length (snd s)) s"
proof (induction rule: threads_run.induct)
  case (run_step fs s t f u)
  with work_step [of f "fst t" "snd t" "fst u" "snd u"] show ?case by auto
qed simp

lemma work_start: "remaining_work n (m, map (\<lambda>v. (v, At_count)) vs) = 7 * length vs * (n + 1)"
  by (induction vs) (simp_all add: remaining_work_def algebra_simps)

text \<open>A thread that is not done can take a step that does not fail for nothing.\<close>

lemma thread_progress: "pc \<noteq> Recorded \<Longrightarrow> \<exists>s. record_step v False (m, pc) s"
proof (cases pc)
  case (Loop_min cur)
  then show ?thesis by (cases "v < cur"; cases "lm_min_us m = cur") (auto intro: record_step.intros)
next
  case (Loop_max cur)
  then show ?thesis by (cases "cur < v"; cases "lm_max_us m = cur") (auto intro: record_step.intros)
qed (auto intro: record_step.intros)

lemma stuck_recorded:
  assumes "\<forall>s. \<not> threads_step False (m, ths) s"
  shows "list_all (\<lambda>(v, pc). pc = Recorded) ths"
proof -
  have "pc = Recorded" if member: "(v, pc) \<in> set ths" for v pc
  proof (rule ccontr)
    assume "pc \<noteq> Recorded"
    then obtain m' pc' where "record_step v False (m, pc) (m', pc')" using thread_progress by (metis surj_pair)
    moreover obtain xs ys where "ths = xs @ (v, pc) # ys" using split_list [OF member] by blast
    ultimately show False using assms one_thread by blast
  qed
  then show ?thesis by (auto simp: list_all_iff)
qed

lemma past_all: "list_all (\<lambda>(v, pc). pc = Recorded) ths \<Longrightarrow> k \<le> 5 \<Longrightarrow> past k ths = map fst ths"
  by (induction ths) (auto simp: past_def)

text \<open>C17. Threads that record at the same time, in any interleaving of their atomic operations, lose nothing:
  apart from exchanges that fail for no reason the run is bounded by the number of threads, and once no thread
  can move the histogram is the one that recording the values one after the other gives.\<close>

theorem concurrent_records:
  assumes "threads_run fs (fold record_us ws latency_default, map (\<lambda>v. (v, At_count)) vs) (m, ths)"
  shows "length (filter Not fs) \<le> 7 * length vs * (length vs + 1) \<and>
    ((\<forall>s. \<not> threads_step False (m, ths) s) \<longrightarrow> m = fold record_us (ws @ vs) latency_default)"
proof (intro conjI impI)
  show "length (filter Not fs) \<le> 7 * length vs * (length vs + 1)"
    using work_run [OF assms] by (simp add: work_start)
  assume "\<forall>s. \<not> threads_step False (m, ths) s"
  then have finished: "list_all (\<lambda>(v, pc). pc = Recorded) ths" by (rule stuck_recorded)
  have "recording ws vs (m, ths)"
    using assms recording_start unfolding recorded_def by (rule recording_run)
  then have run: "map fst ths = vs \<and>
      m = \<lparr>lm_count = of_nat (length (ws @ past 1 ths)), lm_sum_us = sum_list (ws @ past 2 ths),
        lm_min_us = Min (insert (-1) (set (ws @ past 3 ths))), lm_max_us = Max (insert 0 (set (ws @ past 4 ths))),
        lm_buckets = histogram latency_bucket_us (ws @ past 5 ths)\<rparr> \<and> list_all (\<lambda>(v, pc). loop_ok m pc) ths"
    unfolding recording_def prod.case .
  then have past: "past k ths = vs" if "k \<le> 5" for k using past_all [OF finished that] by simp
  show "m = fold record_us (ws @ vs) latency_default"
    unfolding recorded_def [symmetric] recorded_fields
    by (subst conjunct1 [OF conjunct2 [OF run]]) (simp add: past del: set_append)
qed

text \<open>Every run can be continued until no thread can move.\<close>

lemma run_completes:
  "\<exists>fs m ths. threads_run fs s (m, ths) \<and> (\<forall>u. \<not> threads_step False (m, ths) u)"
proof -
  have "threads_run fs s t \<Longrightarrow> \<exists>fs m ths. threads_run fs s (m, ths) \<and> (\<forall>u. \<not> threads_step False (m, ths) u)" for fs t
  proof (induction "remaining_work (length (snd s)) t" arbitrary: fs t rule: less_induct)
    case less
    obtain m ths where t: "t = (m, ths)" by (cases t)
    show ?case
    proof (cases "\<forall>u. \<not> threads_step False t u")
      case True
      with less.prems t show ?thesis by blast
    next
      case False
      then obtain m' ths' where step: "threads_step False t (m', ths')" by auto
      have "length ths = length (snd s)" using work_run [OF less.prems] by (simp add: t)
      then have "remaining_work (length (snd s)) (m', ths') < remaining_work (length (snd s)) t"
        using work_step [OF step [unfolded t]] by (simp add: t)
      from less.hyps [OF this run_step [OF less.prems step]] show ?thesis .
    qed
  qed
  from this [OF run_start] show ?thesis .
qed

theorem concurrent_records_witness:
  "\<exists>fs m ths. threads_run fs (fold record_us [5] latency_default, map (\<lambda>v. (v, At_count)) [3, 9]) (m, ths) \<and>
     length (filter Not fs) \<le> 42 \<and> m = fold record_us [5, 3, 9] latency_default"
proof -
  obtain fs m ths where run: "threads_run fs (fold record_us [5] latency_default, map (\<lambda>v. (v, At_count)) [3, 9]) (m, ths)"
    "\<forall>u. \<not> threads_step False (m, ths) u"
    using run_completes by blast
  from concurrent_records [OF run(1)] run(2) have "length (filter Not fs) \<le> 42" "m = fold record_us ([5] @ [3, 9]) latency_default"
    by simp_all
  with run(1) show ?thesis by auto
qed

end
