(* ===== verification/Metrics_Json.thy ===== *)
theory Metrics_Json
  imports Snb_Api Metrics
begin

section \<open>The metrics as JSON\<close>

text \<open>
  \<^verbatim>\<open>snapshot_json\<close> and \<^verbatim>\<open>summary_json\<close> of \<^verbatim>\<open>src/metrics.rs\<close>: the values of the struct
  under the names the dashboards read. The rendering of a floating-point number is a parameter.
\<close>

definition j_u64 :: "'j json_ops \<Rightarrow> u64 \<Rightarrow> 'j" where
  "j_u64 J n = j_int J (uint n)"

definition bucket_value :: "'j json_ops \<Rightarrow> bucket_snapshot \<Rightarrow> 'j" where
  "bucket_value J b = j_object J [(''upper_bound_us'', j_u64 J (bs_upper_bound_us b)), (''count'', j_u64 J (bs_count b))]"

definition latency_value :: "'j json_ops \<Rightarrow> latency_snapshot \<Rightarrow> 'j" where
  "latency_value J s = j_object J [
     (''count'', j_u64 J (ls_count s)), (''sum_us'', j_u64 J (ls_sum_us s)), (''min_us'', j_u64 J (ls_min_us s)),
     (''max_us'', j_u64 J (ls_max_us s)), (''avg_us'', j_u64 J (ls_avg_us s)), (''p50_us'', j_u64 J (ls_p50_us s)),
     (''p90_us'', j_u64 J (ls_p90_us s)), (''p99_us'', j_u64 J (ls_p99_us s)),
     (''buckets'', j_rows J (bucket_value J) (ls_buckets s))]"

definition partition_key_value :: "'j json_ops \<Rightarrow> l0_partition_key \<Rightarrow> 'j" where
  "partition_key_value J k = j_object J [
     (''src_label'', j_int J (sint (pk_src_label k))), (''edge_type'', j_int J (sint (pk_edge_type k))),
     (''range_start'', j_u64 J (pk_range_start k)), (''range_end'', j_u64 J (pk_range_end k))]"

definition partition_value :: "'j json_ops \<Rightarrow> ('f \<Rightarrow> 'j) \<Rightarrow> 'f l0_partition_snapshot \<Rightarrow> 'j" where
  "partition_value J j_f64 s =
     (let p = ps_probes s
      in j_object J [
        (''key'', partition_key_value J (ps_key s)), (''query_count'', j_u64 J (ps_query_count s)),
        (''candidate_segments'', j_u64 J (pp_candidate_segments p)),
        (''range_filtered_segments'', j_u64 J (pp_range_filtered_segments p)),
        (''bloom_filtered_segments'', j_u64 J (pp_bloom_filtered_segments p)),
        (''filter_passed_segments'', j_u64 J (pp_filter_passed_segments p)),
        (''matched_segments'', j_u64 J (pp_matched_segments p)),
        (''offset_cache_hits'', j_u64 J (pp_offset_cache_hits p)),
        (''offset_cache_misses'', j_u64 J (pp_offset_cache_misses p)),
        (''body_reads'', j_u64 J (pp_body_reads p)),
        (''bloom_false_positive_probes'', j_u64 J (pp_bloom_false_positive_probes p)),
        (''avg_candidate_segments'', j_f64 (ps_avg_candidate_segments s)),
        (''offset_cache_miss_rate'', j_f64 (ps_offset_cache_miss_rate s))])"

definition endpoint_value :: "'j json_ops \<Rightarrow> (u64 \<Rightarrow> nat \<Rightarrow> u64) \<Rightarrow> endpoint_metric \<Rightarrow> 'j" where
  "endpoint_value J ceil_rank em = j_object J [
     (''count'', j_u64 J (em_count em)), (''errors'', j_u64 J (em_errors em)),
     (''latency'', latency_value J (take_snapshot ceil_rank (em_latency em)))]"

definition counter_value :: "'j json_ops \<Rightarrow> metrics \<Rightarrow> counter \<Rightarrow> 'j" where
  "counter_value J mt c = j_u64 J (mt_counters mt c)"

definition latency_of :: "'j json_ops \<Rightarrow> (u64 \<Rightarrow> nat \<Rightarrow> u64) \<Rightarrow> metrics \<Rightarrow> latency \<Rightarrow> 'j" where
  "latency_of J ceil_rank mt l = latency_value J (take_snapshot ceil_rank (mt_latencies mt l))"

definition snapshot_storage ::
  "'j json_ops \<Rightarrow> 'f f64_ops \<Rightarrow> ('f \<Rightarrow> 'j) \<Rightarrow> (u64 \<Rightarrow> nat \<Rightarrow> u64) \<Rightarrow> metrics \<Rightarrow> 'j"
where
  "snapshot_storage J F j_f64 ceil_rank mt =
     (let c = counter_value J mt; l = latency_of J ceil_rank mt in j_object J [
       (''insert_ops'', c Insert_ops), (''delete_ops'', c Delete_ops),
       (''get_neighbors_ops'', c Get_neighbors_ops), (''scan_ops'', c Scan_ops),
       (''insert_latency'', l Storage_insert_latency), (''delete_latency'', l Storage_delete_latency),
       (''get_neighbors_latency'', l Storage_get_neighbors_latency),
       (''scan_edges_latency'', l Storage_scan_edges_latency), (''flush_count'', c Flush_count),
       (''flush_latency'', l Storage_flush_latency), (''compaction_count'', c Compaction_count),
       (''compaction_latency'', l Storage_compaction_latency),
       (''compaction_input_bytes'', c Compaction_input_bytes),
       (''compaction_output_bytes'', c Compaction_output_bytes),
       (''rebuild_index_latency'', l Storage_rebuild_index_latency)])"

definition snapshot_io ::
  "'j json_ops \<Rightarrow> 'f f64_ops \<Rightarrow> ('f \<Rightarrow> 'j) \<Rightarrow> (u64 \<Rightarrow> nat \<Rightarrow> u64) \<Rightarrow> metrics \<Rightarrow> 'j"
where
  "snapshot_io J F j_f64 ceil_rank mt =
     (let c = counter_value J mt; l = latency_of J ceil_rank mt in j_object J [
       (''read_syscalls'', c Read_syscalls), (''write_syscalls'', c Write_syscalls),
       (''read_bytes'', c Read_bytes), (''write_bytes'', c Write_bytes),
       (''semaphore_wait_latency'', l Io_semaphore_wait_latency),
       (''read_blocking_latency'', l Io_read_blocking_latency),
       (''write_blocking_latency'', l Io_write_blocking_latency),
       (''create_blocking_latency'', l Io_create_blocking_latency),
       (''sync_blocking_latency'', l Io_sync_blocking_latency),
       (''remove_blocking_latency'', l Io_remove_blocking_latency)])"

definition snapshot_csr ::
  "'j json_ops \<Rightarrow> 'f f64_ops \<Rightarrow> ('f \<Rightarrow> 'j) \<Rightarrow> (u64 \<Rightarrow> nat \<Rightarrow> u64) \<Rightarrow> metrics \<Rightarrow> 'j"
where
  "snapshot_csr J F j_f64 ceil_rank mt =
     (let c = counter_value J mt; l = latency_of J ceil_rank mt in j_object J [
       (''get_neighbors_latency'', l Csr_get_neighbors_latency),
       (''read_all_edges_latency'', l Csr_read_all_edges_latency),
       (''read_offsets_latency'', l Csr_read_offsets_latency), (''header_reads'', c Csr_header_reads),
       (''offset_reads'', c Csr_offset_reads), (''body_reads'', c Csr_body_reads),
       (''full_scan_reads'', c Csr_full_scan_reads), (''header_bytes'', c Csr_header_bytes),
       (''offset_bytes'', c Csr_offset_bytes), (''body_bytes'', c Csr_body_bytes),
       (''candidate_l0_segments'', c Candidate_l0_segments),
       (''range_filtered_segments'', c Range_filtered_segments),
       (''bloom_filtered_segments'', c Bloom_filtered_segments),
       (''filter_passed_segments'', c Filter_passed_segments), (''matched_l0_segments'', c Matched_l0_segments),
       (''offset_cache_hits'', c Csr_offset_cache_hits), (''offset_cache_misses'', c Csr_offset_cache_misses),
       (''bloom_false_positive_probes'', c L0_bloom_false_positive_probes),
       (''l0_partitions'', j_rows J (partition_value J j_f64) (l0_partition_snapshots F mt))])"

definition snapshot_http ::
  "'j json_ops \<Rightarrow> 'f f64_ops \<Rightarrow> ('f \<Rightarrow> 'j) \<Rightarrow> (u64 \<Rightarrow> nat \<Rightarrow> u64) \<Rightarrow> metrics \<Rightarrow> 'j"
where
  "snapshot_http J F j_f64 ceil_rank mt =
     (let c = counter_value J mt; l = latency_of J ceil_rank mt in j_object J [
       (''requests'', c Http_requests), (''status_2xx'', c Http_2xx), (''status_4xx'', c Http_4xx),
       (''status_5xx'', c Http_5xx), (''request_read_latency'', l Http_request_read_latency),
       (''json_parse_latency'', l Http_json_parse_latency), (''handler_latency'', l Http_handler_latency),
       (''serialize_latency'', l Http_serialize_latency),
       (''response_write_latency'', l Http_response_write_latency),
       (''endpoints'', j_object J (map (\<lambda>(name, em). (name, endpoint_value J ceil_rank em)) (mt_endpoints mt)))])"

definition snapshot_locks ::
  "'j json_ops \<Rightarrow> 'f f64_ops \<Rightarrow> ('f \<Rightarrow> 'j) \<Rightarrow> (u64 \<Rightarrow> nat \<Rightarrow> u64) \<Rightarrow> metrics \<Rightarrow> 'j"
where
  "snapshot_locks J F j_f64 ceil_rank mt =
     (let l = latency_of J ceil_rank mt in j_object J [
       (''read_wait_latency'', l Snb_read_lock_wait_latency),
       (''read_hold_latency'', l Snb_read_lock_hold_latency),
       (''write_wait_latency'', l Snb_write_lock_wait_latency),
       (''write_hold_latency'', l Snb_write_lock_hold_latency)])"

definition snapshot_cache ::
  "'j json_ops \<Rightarrow> 'f f64_ops \<Rightarrow> ('f \<Rightarrow> 'j) \<Rightarrow> (u64 \<Rightarrow> nat \<Rightarrow> u64) \<Rightarrow> metrics \<Rightarrow> 'j"
where
  "snapshot_cache J F j_f64 ceil_rank mt =
     (let c = counter_value J mt; l = latency_of J ceil_rank mt in j_object J [
       (''vertices'', c Snb_vertices_count), (''edge_props'', c Snb_edge_props_count),
       (''adjacency_groups'', c Snb_adjacency_groups), (''adjacency_edges'', c Snb_adjacency_edges),
       (''adjacency_bytes'', c Snb_adjacency_bytes), (''adjacency_cache_hits'', c Snb_adjacency_cache_hits),
       (''adjacency_cache_misses'', c Snb_adjacency_cache_misses),
       (''adjacency_cache_write_syscalls'', c Snb_adjacency_cache_write_syscalls),
       (''adjacency_cache_write_bytes'', c Snb_adjacency_cache_write_bytes),
       (''vertices_load_latency'', l Snb_vertices_load_latency),
       (''edge_props_load_latency'', l Snb_edge_props_load_latency),
       (''adjacency_load_latency'', l Snb_adjacency_load_latency),
       (''adjacency_scan_latency'', l Snb_adjacency_scan_latency),
       (''adjacency_group_latency'', l Snb_adjacency_group_latency),
       (''adjacency_write_latency'', l Snb_adjacency_write_latency)])"

definition snapshot_helpers ::
  "'j json_ops \<Rightarrow> 'f f64_ops \<Rightarrow> ('f \<Rightarrow> 'j) \<Rightarrow> (u64 \<Rightarrow> nat \<Rightarrow> u64) \<Rightarrow> metrics \<Rightarrow> 'j"
where
  "snapshot_helpers J F j_f64 ceil_rank mt =
     (let c = counter_value J mt in j_object J [
       (''vertex_lookups'', c Vertex_lookups), (''edge_prop_lookups'', c Edge_prop_lookups),
       (''adjacency_lookups'', c Adjacency_lookups), (''neighbor_clone_items'', c Neighbor_clone_items)])"

definition snapshot_snb ::
  "'j json_ops \<Rightarrow> 'f f64_ops \<Rightarrow> ('f \<Rightarrow> 'j) \<Rightarrow> (u64 \<Rightarrow> nat \<Rightarrow> u64) \<Rightarrow> metrics \<Rightarrow> 'j"
where
  "snapshot_snb J F j_f64 ceil_rank mt =
     (j_object J [
       (''locks'', snapshot_locks J F j_f64 ceil_rank mt), (''cache'', snapshot_cache J F j_f64 ceil_rank mt),
       (''helpers'', snapshot_helpers J F j_f64 ceil_rank mt)])"

definition metrics_snapshot_json ::
  "'j json_ops \<Rightarrow> 'f f64_ops \<Rightarrow> ('f \<Rightarrow> 'j) \<Rightarrow> (u64 \<Rightarrow> nat \<Rightarrow> u64) \<Rightarrow> metrics \<Rightarrow> 'j"
where
  "metrics_snapshot_json J F j_f64 ceil_rank mt =
     (j_object J [
       (''storage'', snapshot_storage J F j_f64 ceil_rank mt), (''io'', snapshot_io J F j_f64 ceil_rank mt),
       (''csr'', snapshot_csr J F j_f64 ceil_rank mt), (''http'', snapshot_http J F j_f64 ceil_rank mt),
       (''snb'', snapshot_snb J F j_f64 ceil_rank mt)])"

definition metrics_summary_json ::
  "'j json_ops \<Rightarrow> (u64 \<Rightarrow> nat \<Rightarrow> u64) \<Rightarrow> metrics \<Rightarrow> 'j" where
  "metrics_summary_json J ceil_rank mt =
     (let c = counter_value J mt; p99 = (\<lambda>l. j_u64 J (ls_p99_us (take_snapshot ceil_rank (mt_latencies mt l))))
      in j_object J [
        (''http_requests'', c Http_requests), (''http_5xx'', c Http_5xx),
        (''endpoint_count'', j_int J (int (length (mt_endpoints mt)))),
        (''read_bytes'', c Read_bytes), (''write_bytes'', c Write_bytes),
        (''storage_get_neighbors_p99_us'', p99 Storage_get_neighbors_latency),
        (''http_handler_p99_us'', p99 Http_handler_latency),
        (''snb_read_lock_wait_p99_us'', p99 Snb_read_lock_wait_latency)])"

end
