(* ===== verification/Read_Amp.thy ===== *)
theory Read_Amp
  imports Engine_Spec Metrics
begin

section \<open>Read amplification\<close>

text \<open>
  What a lookup records about the segments of level 0 it meets, and the compaction of the partition where
  that costs most (\<^verbatim>\<open>compact_best_l0_partition_by_score\<close> of \<^verbatim>\<open>src/graph.rs\<close>). The lookup
  runs on the engine and the metrics together; the counters inside the segment reader are left out. The
  arithmetic and the order of \<^verbatim>\<open>f64\<close> are a parameter.
\<close>

subsection \<open>A lookup with its metrics\<close>

definition engine_part :: "(engine, 'a) st \<Rightarrow> (engine \<times> metrics, 'a) st" where
  "engine_part f = (\<lambda>(e, mt). let (e', r) = f e in ((e', mt), r))"

definition metrics_part :: "(metrics \<Rightarrow> metrics) \<Rightarrow> (engine \<times> metrics, unit) st" where
  "metrics_part f = supdate (\<lambda>(e, mt). (e, f mt))"

text \<open>The part of the loop after the filters: the lookup in the segment and its probe.\<close>

definition metered_segment ::
  "vertex_id \<Rightarrow> csr_segment_meta \<Rightarrow> l0_partition_key \<Rightarrow> bool \<Rightarrow> (engine \<times> metrics, edge_record list) st"
where
  "metered_segment src m key cached_hit =
     (let probe = probe_default\<lparr>pp_candidate_segments := 1, pp_filter_passed_segments := 1\<rparr>;
          probe = (if cached_hit then probe\<lparr>pp_offset_cache_hits := 1\<rparr> else probe\<lparr>pp_offset_cache_misses := 1\<rparr>)
      in sbind (metrics_part (count_up Filter_passed_segments 1)) (\<lambda>_.
         sbind (engine_part (\<lambda>e. with_reader (get_neighbors (engine_io e) (engine_store e) (en_fs e) m src) e)) (\<lambda>es.
         sbind (metrics_part (\<lambda>mt.
             if es \<noteq> [] then record_l0_partition_probe key (probe\<lparr>pp_matched_segments := 1, pp_body_reads := 1\<rparr>)
               (count_up Matched_l0_segments 1 mt)
             else if cached_hit then record_l0_partition_probe key (probe\<lparr>pp_bloom_false_positive_probes := 1\<rparr>) mt
             else record_l0_partition_probe key probe mt)) (\<lambda>_.
         sreturn es))))"

fun metered_l0 ::
  "vertex_id \<Rightarrow> edge_type option \<Rightarrow> l0_partition_key list \<Rightarrow> csr_segment_meta list \<Rightarrow>
   (engine \<times> metrics, edge_record list) st"
where
  "metered_l0 src edge_type touched [] = sreturn []"
| "metered_l0 src edge_type touched (m # ms) =
     (\<lambda>(e, mt). if \<not> may_contain_partition m src edge_type then metered_l0 src edge_type touched ms (e, mt)
      else
        let key = mk_l0_partition_key (en_config e) src edge_type m;
            mt = (if key \<in> set touched then mt else record_l0_partition_query key mt);
            touched = List.insert key touched;
            probe = probe_default\<lparr>pp_candidate_segments := 1\<rparr>;
            mt = count_up Candidate_l0_segments 1 mt
        in if src < m_min_src m \<or> m_max_src m < src then
             let mt = count_up Range_filtered_segments 1 mt;
                 mt = record_l0_partition_probe key (probe\<lparr>pp_range_filtered_segments := 1\<rparr>) mt
             in metered_l0 src edge_type touched ms (e, mt)
           else
             let (cached, c) = cached_may_contain_src (m_file_id m) src (en_cache e);
                 e = e\<lparr>en_cache := c\<rparr>
             in case cached of
                  Some (Inl err) \<Rightarrow> ((e, mt), Inl err)
                | Some (Inr False) \<Rightarrow>
                    let mt = count_up Bloom_filtered_segments 1 mt;
                        mt = record_l0_partition_probe key
                          (probe\<lparr>pp_bloom_filtered_segments := 1, pp_offset_cache_hits := 1\<rparr>) mt
                    in metered_l0 src edge_type touched ms (e, mt)
                | _ \<Rightarrow>
                    sbind (metered_segment src m key (cached \<noteq> None)) (\<lambda>es.
                    sbind (metered_l0 src edge_type touched ms) (\<lambda>rest. sreturn (es @ rest))) (e, mt))"

text \<open>\<^verbatim>\<open>get_neighbors_typed_internal\<close> with what it counts; \<open>micros\<close> is the time it takes.\<close>

definition metered_get_neighbors ::
  "nat \<Rightarrow> vertex_id \<Rightarrow> edge_type option \<Rightarrow> snapshot_id \<Rightarrow> (engine \<times> metrics, edge_record list) st"
where
  "metered_get_neighbors micros src edge_type snapshot =
     sbind (metrics_part (count_up Get_neighbors_ops 1)) (\<lambda>_.
     sbind (engine_part (sreads (\<lambda>e. edges_of_graphs e src))) (\<lambda>mem.
     sbind (\<lambda>(e, mt). metered_l0 src edge_type [] (get_level (v_levels (en_version e)) L0) (e, mt)) (\<lambda>l0.
     sbind (engine_part (\<lambda>e. index_lookup src (get_positions (en_index e) src) e)) (\<lambda>upper.
     let updates = mem @ l0 @ upper;
         updates = (case edge_type of Some t \<Rightarrow> filter (\<lambda>x. e_type x = t) updates | None \<Rightarrow> updates);
         out = merge_visible updates snapshot
     in sbind (metrics_part (\<lambda>mt. mt\<lparr>mt_latencies := (mt_latencies mt)
            (Storage_get_neighbors_latency := record_duration micros (mt_latencies mt Storage_get_neighbors_latency))\<rparr>))
          (\<lambda>_. sreturn out)))))"

subsection \<open>Picking a partition\<close>

record 'f picked_l0_partition =
  pl_key :: l0_partition_key
  pl_score :: 'f
  pl_estimated_rewrite_bytes :: u64
  pl_selected_l0_segments :: nat
  pl_query_count :: u64
  pl_avg_candidate_segments :: 'f
  pl_offset_cache_miss_rate :: 'f

text \<open>\<open>min_score\<close> is \<^verbatim>\<open>l0_ra_min_score\<close> of the configuration.\<close>

definition score_l0_partition ::
  "'f f64_ops \<Rightarrow> lsm_config \<Rightarrow> 'f \<Rightarrow> csr_segment_meta list \<Rightarrow> 'f l0_partition_snapshot \<Rightarrow> 'f picked_l0_partition option"
where
  "score_l0_partition F cfg min_score l0_files s =
     (if ps_query_count s < cfg_l0_ra_min_queries cfg then None
      else
        let target = \<lparr>t_src_label = pk_src_label (ps_key s), t_edge_type = Some (pk_edge_type (ps_key s)),
              t_min_src = Some (pk_range_start (ps_key s)), t_max_src = Some (pk_range_end (ps_key s))\<rparr>;
            selected = filter (\<lambda>m. target_matches_meta m target) l0_files
        in if length selected < cfg_l0_ra_min_l0_segments cfg then None
           else
             let estimated_rewrite_bytes = sum_list (map estimated_meta_bytes selected);
                 one = f_of_u64 F 1;
                 rewrite_mib = f_max F (f_div F (f_of_u64 F estimated_rewrite_bytes) (f_of_u64 F 1048576)) one;
                 score = f_div F (f_mul F (f_mul F (f_of_u64 F (ps_query_count s))
                     (f_max F (ps_avg_candidate_segments s) one)) (f_add F one (ps_offset_cache_miss_rate s)))
                   rewrite_mib
             in if f_less F score min_score then None
                else Some \<lparr>pl_key = ps_key s, pl_score = score, pl_estimated_rewrite_bytes = estimated_rewrite_bytes,
                  pl_selected_l0_segments = length selected, pl_query_count = ps_query_count s,
                  pl_avg_candidate_segments = ps_avg_candidate_segments s,
                  pl_offset_cache_miss_rate = ps_offset_cache_miss_rate s\<rparr>)"

text \<open>\<^verbatim>\<open>max_by\<close>: the later of two that compare equal.\<close>

fun max_by :: "('a \<Rightarrow> 'a \<Rightarrow> bool) \<Rightarrow> 'a list \<Rightarrow> 'a option" where
  "max_by lt [] = None"
| "max_by lt (x # xs) = Some (fold (\<lambda>y best. if lt y best then best else y) xs x)"

definition pick_l0_partition_by_score ::
  "'f f64_ops \<Rightarrow> 'f \<Rightarrow> metrics \<Rightarrow> engine \<Rightarrow> 'f picked_l0_partition option"
where
  "pick_l0_partition_by_score F min_score mt e =
     (let l0_files = get_level (v_levels (en_version e)) L0
      in if l0_files = [] then None
         else max_by (\<lambda>a b. f_less F (pl_score a) (pl_score b))
           (List.map_filter (score_l0_partition F (en_config e) min_score l0_files) (l0_partition_snapshots F mt)))"

record 'f l0_compaction_decision =
  cd_picked :: "'f picked_l0_partition"
  cd_outputs :: "csr_segment_meta list"

definition compact_best_l0_partition_by_score ::
  "'f f64_ops \<Rightarrow> 'f \<Rightarrow> metrics \<Rightarrow> (engine, 'f l0_compaction_decision option) st"
where
  "compact_best_l0_partition_by_score F min_score mt e =
     (case pick_l0_partition_by_score F min_score mt e of
        None \<Rightarrow> (e, Inr None)
      | Some pick \<Rightarrow>
          sbind (compact_l0_range_to_l1 (pk_src_label (pl_key pick)) (Some (pk_edge_type (pl_key pick)))
              (pk_range_start (pl_key pick)) (pk_range_end (pl_key pick)))
            (\<lambda>outputs. sreturn (Some \<lparr>cd_picked = pick, cd_outputs = outputs\<rparr>)) e)"

subsection \<open>Metrics change no answer\<close>

lemma metrics_part_run: "metrics_part f (e, mt) = ((e, f mt), Inr ())"
  by (simp add: metrics_part_def supdate_def)

lemma metered_segment_engine:
  "\<exists>mt'. metered_segment src m key hit (e, mt) =
    (let (e', r) = with_reader (get_neighbors (engine_io e) (engine_store e) (en_fs e) m src) e in ((e', mt'), r))"
  by (auto simp: metered_segment_def Let_def sbind_def metrics_part_run engine_part_def sreturn_def
      split: prod.splits sum.splits)

lemma metered_l0_engine:
  "\<exists>mt'. metered_l0 src edge_type touched ms (e, mt) =
    (let (e', r) = l0_lookup src edge_type ms e in ((e', mt'), r))"
proof (induction ms arbitrary: touched e mt)
  case Nil
  then show ?case by (simp add: sreturn_def)
next
  case (Cons m ms)
  have then_rest: "\<exists>mt'. sbind (metered_segment src m key hit)
        (\<lambda>es. sbind (metered_l0 src edge_type touched ms) (\<lambda>rest. sreturn (es @ rest))) (e, mt) =
      (let (e', r) = sbind (with_reader (get_neighbors (engine_io e) (engine_store e) (en_fs e) m src))
        (\<lambda>es. sbind (l0_lookup src edge_type ms) (\<lambda>rest. sreturn (es @ rest))) e in ((e', mt'), r))"
    for key hit touched e mt
  proof -
    obtain e1 r1 where seg: "with_reader (get_neighbors (engine_io e) (engine_store e) (en_fs e) m src) e = (e1, r1)"
      by (cases "with_reader (get_neighbors (engine_io e) (engine_store e) (en_fs e) m src) e")
    obtain mt1 where mt1: "metered_segment src m key hit (e, mt) = ((e1, mt1), r1)"
      using metered_segment_engine [of src m key hit e mt] seg by auto
    obtain mt2 where "metered_l0 src edge_type touched ms (e1, mt1) =
        (let (e', r) = l0_lookup src edge_type ms e1 in ((e', mt2), r))"
      using Cons.IH by blast
    with seg mt1 show ?thesis
      by (cases r1; cases "l0_lookup src edge_type ms e1"; cases "snd (l0_lookup src edge_type ms e1)")
        (auto simp: sbind_def sreturn_def)
  qed
  obtain cached c where cached: "cached_may_contain_src (m_file_id m) src (en_cache e) = (cached, c)"
    by (cases "cached_may_contain_src (m_file_id m) src (en_cache e)")
  define key where "key = mk_l0_partition_key (en_config e) src edge_type m"
  define mt1 where "mt1 = count_up Candidate_l0_segments 1
    (if key \<in> set touched then mt else record_l0_partition_query key mt)"
  define e1 where "e1 = e\<lparr>en_cache := c\<rparr>"
  consider (partition) "\<not> may_contain_partition m src edge_type"
    | (range) "may_contain_partition m src edge_type" "src < m_min_src m \<or> m_max_src m < src"
    | (panic) err where "may_contain_partition m src edge_type" "\<not> (src < m_min_src m \<or> m_max_src m < src)"
        "cached = Some (Inl err)"
    | (bloom) "may_contain_partition m src edge_type" "\<not> (src < m_min_src m \<or> m_max_src m < src)"
        "cached = Some (Inr False)"
    | (pass) "may_contain_partition m src edge_type" "\<not> (src < m_min_src m \<or> m_max_src m < src)"
        "cached = None \<or> cached = Some (Inr True)"
    by (cases cached; cases "the cached"; auto)
  then show ?case
  proof cases
    case partition
    with Cons.IH show ?thesis by simp
  next
    case range
    with Cons.IH show ?thesis
      unfolding metered_l0.simps l0_lookup.simps prod.case Let_def key_def [symmetric] mt1_def [symmetric]
      by (simp only: if_True if_False simp_thms)
  next
    case panic
    then show ?thesis
      unfolding metered_l0.simps l0_lookup.simps prod.case Let_def key_def [symmetric] mt1_def [symmetric]
      by (simp add: cached)
  next
    case bloom
    with Cons.IH show ?thesis
      unfolding metered_l0.simps l0_lookup.simps prod.case Let_def key_def [symmetric] mt1_def [symmetric]
        cached e1_def [symmetric]
      by (simp only: if_False simp_thms option.case sum.case bool.case)
  next
    case pass
    with then_rest [of key _ "List.insert key touched" e1 mt1] show ?thesis
      unfolding metered_l0.simps l0_lookup.simps prod.case Let_def key_def [symmetric] mt1_def [symmetric]
        cached e1_def [symmetric]
      by (elim disjE) (simp_all only: if_False simp_thms option.case sum.case bool.case)
  qed
qed

subsection \<open>The books balance\<close>

text \<open>Every candidate was filtered by range, filtered by the Bloom filter, or read; every candidate in range
  hit or missed the cache; every match read a body.\<close>

definition probe_balanced :: "l0_partition_probe \<Rightarrow> bool" where
  "probe_balanced p \<longleftrightarrow>
     pp_candidate_segments p = pp_range_filtered_segments p + pp_bloom_filtered_segments p + pp_filter_passed_segments p \<and>
     pp_offset_cache_hits p + pp_offset_cache_misses p = pp_bloom_filtered_segments p + pp_filter_passed_segments p \<and>
     pp_body_reads p = pp_matched_segments p"

definition metrics_balanced :: "metrics \<Rightarrow> bool" where
  "metrics_balanced mt \<longleftrightarrow> (\<forall>(key, p) \<in> set (mt_l0_partitions mt). probe_balanced (pm_probes p))"

lemma balanced_add: "probe_balanced p \<Longrightarrow> probe_balanced q \<Longrightarrow> probe_balanced (add_probe p q)"
proof -
  assume p: "probe_balanced p" and q: "probe_balanced q"
  have shuffle: "(a + b) + (c + d) = (a + c) + (b + d)" for a b c d :: u64 by (simp add: ac_simps)
  show ?thesis
    using p q by (simp add: probe_balanced_def add_probe_def) (simp add: shuffle ac_simps)
qed

lemma set_hm_insert: "set (hm_insert k v m) \<subseteq> insert (k, v) (set m)"
  unfolding hm_insert_def by (induction m) auto

lemma balanced_update:
  assumes "metrics_balanced mt" "\<And>p. probe_balanced (pm_probes p) \<Longrightarrow> probe_balanced (pm_probes (f p))"
  shows "metrics_balanced (mt\<lparr>mt_l0_partitions := update_partition f key (mt_l0_partitions mt)\<rparr>)"
proof -
  let ?ps = "mt_l0_partitions mt"
  have "probe_balanced (pm_probes (case hm_get ?ps key of None \<Rightarrow> partition_default | Some m \<Rightarrow> m))"
    using assms(1) by (auto simp: hm_get_def partition_default_def probe_default_def probe_balanced_def
        metrics_balanced_def dest!: map_of_SomeD split: option.split)
  from assms(2) [OF this] assms(1) set_hm_insert [of key _ ?ps] show ?thesis
    by (fastforce simp: metrics_balanced_def update_partition_def)
qed

lemma balanced_query: "metrics_balanced mt \<Longrightarrow> metrics_balanced (record_l0_partition_query key mt)"
  unfolding record_l0_partition_query_def by (rule balanced_update) simp_all

lemma balanced_probe:
  "metrics_balanced mt \<Longrightarrow> probe_balanced p \<Longrightarrow> metrics_balanced (record_l0_partition_probe key p mt)"
  unfolding record_l0_partition_probe_def by (rule balanced_update) (simp_all add: balanced_add)

lemma balanced_count: "metrics_balanced (count_up c n mt) = metrics_balanced mt"
  by (simp add: metrics_balanced_def count_up_def)

lemma balanced_segment:
  "metrics_balanced mt \<Longrightarrow> metrics_balanced (snd (fst (metered_segment src m key hit (e, mt))))"
  by (auto simp: metered_segment_def Let_def sbind_def metrics_part_run engine_part_def sreturn_def balanced_count
      probe_balanced_def probe_default_def intro!: balanced_probe split: prod.split sum.split)

lemma balanced_l0:
  "metrics_balanced mt \<Longrightarrow> metrics_balanced (snd (fst (metered_l0 src edge_type touched ms (e, mt))))"
proof (induction ms arbitrary: touched e mt)
  case Nil
  then show ?case by (simp add: sreturn_def)
next
  case (Cons m ms)
  have rest: "metrics_balanced mt \<Longrightarrow> metrics_balanced (snd (fst (sbind (metered_segment src m key hit)
      (\<lambda>es. sbind (metered_l0 src edge_type touched ms) (\<lambda>rest. sreturn (es @ rest))) (e, mt))))"
    for key hit touched e mt
  proof -
    assume mt: "metrics_balanced mt"
    obtain e1 mt1 r1 where seg: "metered_segment src m key hit (e, mt) = ((e1, mt1), r1)" by (metis surj_pair)
    obtain e2 mt2 r2 where l0: "metered_l0 src edge_type touched ms (e1, mt1) = ((e2, mt2), r2)" by (metis surj_pair)
    from balanced_segment [OF mt, of src m key hit e] have "metrics_balanced mt1" by (simp add: seg)
    from Cons.IH [OF this, of touched e1] have "metrics_balanced mt2" by (simp add: l0)
    with \<open>metrics_balanced mt1\<close> show ?thesis
      using seg l0 by (cases r1; cases r2) (simp_all add: sbind_def sreturn_def)
  qed
  define key where "key = mk_l0_partition_key (en_config e) src edge_type m"
  define mt1 where "mt1 = count_up Candidate_l0_segments 1
    (if key \<in> set touched then mt else record_l0_partition_query key mt)"
  obtain cached c where cached: "cached_may_contain_src (m_file_id m) src (en_cache e) = (cached, c)"
    by (cases "cached_may_contain_src (m_file_id m) src (en_cache e)")
  have mt1: "metrics_balanced mt1"
    using Cons.prems by (simp add: mt1_def balanced_count balanced_query)
  have probes: "probe_balanced (probe_default\<lparr>pp_candidate_segments := 1, pp_range_filtered_segments := 1\<rparr>)"
    "probe_balanced (probe_default\<lparr>pp_candidate_segments := 1, pp_bloom_filtered_segments := 1, pp_offset_cache_hits := 1\<rparr>)"
    by (simp_all add: probe_balanced_def probe_default_def)
  have filtered:
    "metrics_balanced (record_l0_partition_probe key
       (probe_default\<lparr>pp_candidate_segments := 1, pp_range_filtered_segments := 1\<rparr>) (count_up Range_filtered_segments 1 mt1))"
    "metrics_balanced (record_l0_partition_probe key
       (probe_default\<lparr>pp_candidate_segments := 1, pp_bloom_filtered_segments := 1, pp_offset_cache_hits := 1\<rparr>)
       (count_up Bloom_filtered_segments 1 mt1))"
    using mt1 probes by (simp_all add: balanced_probe balanced_count)
  show ?case
    unfolding metered_l0.simps prod.case Let_def key_def [symmetric] mt1_def [symmetric] cached
    using Cons.IH Cons.prems filtered rest [OF mt1] mt1 by (simp split: option.split sum.split bool.split)
qed

text \<open>A lookup that keeps metrics answers what the lookup without them answers and leaves the same
  engine, and the statistics it keeps about the partitions of level 0 stay balanced.\<close>

lemma metered_lookup_run:
  assumes "metrics_balanced mt"
  shows "\<exists>mt'. metered_get_neighbors micros src edge_type snapshot (e, mt) =
      (let (e', r) = get_neighbors_typed_internal src edge_type snapshot e in ((e', mt'), r)) \<and>
    metrics_balanced mt'"
proof -
  define l0 where "l0 = get_level (v_levels (en_version e)) L0"
  define mt0 where "mt0 = count_up Get_neighbors_ops 1 mt"
  have mt0: "metrics_balanced mt0" using assms by (simp add: mt0_def balanced_count)
  obtain e1 r1 where lookup: "l0_lookup src edge_type l0 e = (e1, r1)" by (cases "l0_lookup src edge_type l0 e")
  then obtain mt1 where metered: "metered_l0 src edge_type [] l0 (e, mt0) = ((e1, mt1), r1)"
    using metered_l0_engine [of src edge_type "[]" l0 e mt0] by auto
  have mt1: "metrics_balanced mt1" using balanced_l0 [OF mt0, of src edge_type "[]" l0 e] by (simp add: metered)
  have timed: "metrics_balanced (mt1\<lparr>mt_latencies := f\<rparr>)" for f
    using mt1 by (simp add: metrics_balanced_def)
  obtain e2 r2 where upper: "index_lookup src (get_positions (en_index e1) src) e1 = (e2, r2)"
    by (cases "index_lookup src (get_positions (en_index e1) src) e1")
  show ?thesis
  proof (cases "edges_of_graphs e src")
    case Inl
    with mt0 show ?thesis
      by (auto simp: metered_get_neighbors_def get_neighbors_typed_internal_def sbind_def metrics_part_run engine_part_def
          sreads_def mt0_def [symmetric])
  next
    case (Inr mem)
    then show ?thesis
      using lookup metered mt1 upper timed
      by (cases r1; cases r2)
        (auto simp: metered_get_neighbors_def get_neighbors_typed_internal_def sbind_def metrics_part_run engine_part_def
          sreads_def sreturn_def mt0_def [symmetric] l0_def [symmetric] Let_def)
  qed
qed

lemma metrics_default_balanced: "metrics_balanced metrics_default"
  by (simp add: metrics_balanced_def metrics_default_def)

subsection \<open>The compaction of the best partition\<close>

definition scored_partitions ::
  "'f f64_ops \<Rightarrow> 'f \<Rightarrow> metrics \<Rightarrow> engine \<Rightarrow> 'f picked_l0_partition list" where
  "scored_partitions F min_score mt e =
     (let l0_files = get_level (v_levels (en_version e)) L0
      in if l0_files = [] then []
         else List.map_filter (score_l0_partition F (en_config e) min_score l0_files) (l0_partition_snapshots F mt))"

lemma pick_scored:
  "pick_l0_partition_by_score F min_score mt e =
   max_by (\<lambda>a b. f_less F (pl_score a) (pl_score b)) (scored_partitions F min_score mt e)"
  by (simp add: pick_l0_partition_by_score_def scored_partitions_def Let_def)

text \<open>What \<^verbatim>\<open>partial_cmp\<close> promises on numbers that are not \<^verbatim>\<open>NaN\<close>.\<close>

definition weak_order :: "('a \<Rightarrow> 'a \<Rightarrow> bool) \<Rightarrow> bool" where
  "weak_order lt \<longleftrightarrow> (\<forall>a b. lt a b \<longrightarrow> \<not> lt b a) \<and> (\<forall>a b c. lt a c \<longrightarrow> lt a b \<or> lt b c)"

lemma max_by_fold:
  assumes "weak_order lt" "\<forall>z \<in> A. \<not> lt x z" "x \<in> A"
  shows "(let b = fold (\<lambda>y best. if lt y best then best else y) xs x in b \<in> A \<union> set xs \<and> (\<forall>z \<in> A \<union> set xs. \<not> lt b z))"
  using assms(2,3)
proof (induction xs arbitrary: x A)
  case (Cons y xs)
  have asym: "\<not> lt b a" if "lt a b" for a b using assms(1) that by (simp add: weak_order_def)
  have neg: "\<not> lt a c" if "\<not> lt a b" "\<not> lt b c" for a b c using assms(1) that unfolding weak_order_def by blast
  define b where "b = (if lt y x then x else y)"
  have b: "b \<in> insert y A" using Cons.prems(2) by (simp add: b_def)
  have best: "\<forall>z \<in> insert y A. \<not> lt b z"
  proof (cases "lt y x")
    case True
    have "\<not> lt x y" by (rule asym) (rule True)
    with Cons.prems(1) True show ?thesis by (simp add: b_def)
  next
    case False
    have "\<not> lt y z" if "z \<in> A" for z by (rule neg [OF False]) (use Cons.prems(1) that in blast)
    moreover have "\<not> lt y y" using asym [of y y] by blast
    ultimately show ?thesis using False by (simp add: b_def)
  qed
  show ?case using Cons.IH [OF best b] by (simp add: b_def [symmetric])
qed (simp add: Let_def)

lemma max_by_best:
  assumes "weak_order lt" "max_by lt xs = Some b"
  shows "b \<in> set xs \<and> (\<forall>z \<in> set xs. \<not> lt b z)"
proof (cases xs)
  case (Cons x ys)
  have "\<not> lt x x" using assms(1) by (auto simp: weak_order_def)
  with max_by_fold [OF assms(1), of "{x}" x ys] assms(2) Cons show ?thesis by (simp add: Let_def)
qed (use assms in simp)

lemma max_by_None: "max_by lt xs = None \<longleftrightarrow> xs = []"
  by (cases xs) simp_all

text \<open>C18. The compaction that the statistics choose always succeeds and changes no answer at the present or a later
  snapshot, whatever lookups recorded and whatever the scores are; it does nothing exactly when no partition
  passes the thresholds, and otherwise takes one whose score no other exceeds.\<close>

theorem best_compaction_sound:
  assumes "engine_inv e" "small e" "current_snapshot e \<le> snap"
    and "weak_order (f_less F)"
  shows "\<exists>e' d. compact_best_l0_partition_by_score F min_score mt e = (e', Inr d) \<and> engine_inv e' \<and>
    lookup_gives e' src edge_type snap (view e snap) \<and>
    (case d of None \<Rightarrow> e' = e \<and> scored_partitions F min_score mt e = []
     | Some choice \<Rightarrow> cd_picked choice \<in> set (scored_partitions F min_score mt e) \<and>
         (\<forall>q \<in> set (scored_partitions F min_score mt e). \<not> f_less F (pl_score (cd_picked choice)) (pl_score q)))"
proof (cases "pick_l0_partition_by_score F min_score mt e")
  case None
  then have "scored_partitions F min_score mt e = []" by (simp add: pick_scored max_by_None)
  with None lookup_view [OF assms(1)] assms(1) show ?thesis by (simp add: compact_best_l0_partition_by_score_def)
next
  case (Some p)
  have ts: "en_ts e \<le> snap" using assms(3) by (simp add: current_snapshot_def)
  obtain e' r where c: "compact_l0_target_to_l1 \<lparr>t_src_label = pk_src_label (pl_key p),
        t_edge_type = Some (pk_edge_type (pl_key p)), t_min_src = Some (pk_range_start (pl_key p)),
        t_max_src = Some (pk_range_end (pl_key p))\<rparr> e = (e', Inr r)" "same_now e e'"
    by (rule compact_target_op [OF assms(1,2)])
  have "engine_inv e' \<and> lookup_gives e' src edge_type snap (view e snap)"
    using c(2) view_same [OF c(2) ts] lookup_view [of e' src edge_type snap] by (simp add: same_now_def)
  moreover have "compact_best_l0_partition_by_score F min_score mt e =
      (e', Inr (Some \<lparr>cd_picked = p, cd_outputs = r\<rparr>))"
    using Some c(1)
    by (simp add: compact_best_l0_partition_by_score_def compact_l0_range_to_l1_def sbind_def sreturn_def)
  moreover have "weak_order (\<lambda>a b :: 'a picked_l0_partition. f_less F (pl_score a) (pl_score b))"
    using assms(4) unfolding weak_order_def by blast
  note max_by_best [OF this Some [unfolded pick_scored]]
  ultimately show ?thesis by auto
qed

definition nat_f64 :: "nat f64_ops" where
  "nat_f64 = \<lparr>f_of_u64 = unat, f_add = (+), f_mul = (*), f_div = (div), f_max = max, f_less = (<)\<rparr>"

theorem best_compaction_sound_witness:
  "\<exists>e e' d. run_ops [Put 1 2 3, Flush, Remove 1 2 3, Put 1 7 3, Flush]
      (fst (engine_create (config_new ''db'') 1 (\<lambda>_. None, None))) = (e, Inr ()) \<and>
    compact_best_l0_partition_by_score nat_f64 1 metrics_default e = (e', Inr d) \<and>
    lookup_gives e' 1 None 3 {(1, 3, 7)}"
proof -
  let ?ops = "[Put 1 2 3, Flush, Remove 1 2 3, Put 1 7 3, Flush]"
  obtain e0 e where r: "engine_create (config_new ''db'') 1 (\<lambda>_. None, None) = (e0, Inr ())"
    "run_ops ?ops e0 = (e, Inr ())" and t: "tracks (config_new ''db'') (Suc (unat 1)) ?ops e"
    by (rule created_run [of ?ops 1]) simp_all
  have small: "small e" by (rule tracks_small [OF t]) simp_all
  have w: "writes ?ops = [Put 1 2 3, Remove 1 2 3, Put 1 7 3]" by (simp add: writes_def)
  have "stable_from (config_new ''db'') ?ops = 0" by (simp add: stable_from_def writes_def config_new_def)
  moreover have "edges_after [Put 1 2 3, Remove 1 2 3, Put 1 7 3] = {(1, 3, 7)}" by (auto simp: edges_after_def)
  ultimately have v: "engine_inv e" "unat (en_ts e) = 3" "view e 3 = {(1, 3, 7)}"
    using t by (simp_all add: tracks_def w)
  then have now: "current_snapshot e \<le> 3" by (simp add: current_snapshot_def word_le_nat_alt)
  have "weak_order (f_less nat_f64)"
    by (auto simp: weak_order_def nat_f64_def)
  from best_compaction_sound [OF v(1) small now this, of 1 metrics_default 1 None] r show ?thesis
    unfolding v(3) by auto
qed

end
