(* ===== verification/Commands.thy ===== *)
theory Commands
  imports Read_Amp Topology_Loader Snb_Import Snb_Validate
begin

section \<open>The command line\<close>

text \<open>
  The commands of \<^verbatim>\<open>src/bin/lsmgraph.rs\<close> that do more than print what one function returns: the
  import, the compaction, the storage benchmark and the list of queries to validate. Arguments arrive parsed;
  what a command prints is its result, less the timings and the snapshot of the metrics. A command opens its own
  engine, so its metrics start empty; what opening counts (bytes read, the time of the index) is left out, it does
  not touch the statistics of the partitions.
\<close>

subsection \<open>Lists of queries\<close>

definition query_names :: "string \<Rightarrow> nat \<Rightarrow> string list" where
  "query_names kind n = map (\<lambda>i. kind @ dec i) [1..<n + 1]"

definition parse_query_list :: "string \<Rightarrow> string list" where
  "parse_query_list raw =
     (let s = to_ascii_lowercase (trim raw)
      in if s \<in> {''ic'', ''all-ic'', ''ic1-ic14''} then query_names ''ic'' 14
         else if s \<in> {''is'', ''all-is'', ''is1-is7''} then query_names ''is'' 7
         else if s \<in> {''read'', ''reads'', ''all-read'', ''all-reads''} then query_names ''ic'' 14 @ query_names ''is'' 7
         else map to_ascii_lowercase (filter (\<lambda>q. q \<noteq> []) (map trim (str_split (CHR '','') s))))"

subsection \<open>Import\<close>

definition create_in_loader :: "lsm_config \<Rightarrow> u64 \<Rightarrow> file_system \<times> manifest_record list option \<Rightarrow> (loader, unit) st" where
  "create_in_loader cfg n disk s = (let (e, r) = engine_create cfg n disk in (s\<lparr>ld_engine := e\<rparr>, r))"

text \<open>The relation is looked at after the engine is created. The names of the base graph (\<^verbatim>\<open>snb-base\<close>,
  \<^verbatim>\<open>base\<close>, \<^verbatim>\<open>base-graph\<close>) are handled before, by \<open>build_from_snb\<close>.\<close>

definition import_relation :: "loader_env \<Rightarrow> string \<Rightarrow> string \<Rightarrow> string \<Rightarrow> (loader, import_stats) st" where
  "import_relation env csv_root store_dir relation s =
     (if relation = ''person_knows'' then
        on_engine (import_person_knows (le_csv env) (ss_files (ld_store s)) csv_root) s
      else if relation \<in> {''all-topology'', ''topology'', ''all''} then
        on_engine (import_snb_topology (le_csv env) (ss_files (ld_store s)) csv_root) s
      else if relation \<in> {''snb-full'', ''full''} then import_snb_full env csv_root store_dir s
      else (s, Inl (Unsupported relation)))"

definition import_command ::
  "loader_env \<Rightarrow> lsm_config \<Rightarrow> u64 \<Rightarrow> file_system \<times> manifest_record list option \<Rightarrow> string \<Rightarrow> string \<Rightarrow> bool \<Rightarrow>
   (loader, import_stats \<times> snapshot_id) st"
where
  "import_command env cfg n disk csv_root relation compact_after =
     sbind (create_in_loader cfg n disk) (\<lambda>_.
     sbind (import_relation env csv_root (cfg_store_dir cfg) relation) (\<lambda>stats.
     sbind (if compact_after then sbind (on_engine compact_l0_to_l1) (\<lambda>_. sreturn ()) else sreturn ()) (\<lambda>_.
     sreads (\<lambda>s. Inr (stats, current_snapshot (ld_engine s))))))"

subsection \<open>Compaction\<close>

record compact_args =
  ca_auto_pick :: bool
  ca_src_label :: "i32 option"
  ca_edge_type :: "edge_type option"
  ca_min_src :: "vertex_id option"
  ca_max_src :: "vertex_id option"

datatype 'f compact_output =
    Decided "'f l0_compaction_decision option"
  | Targeted "csr_segment_meta list"
  | Compacted "csr_segment_meta option"

definition compact_command ::
  "'f f64_ops \<Rightarrow> 'f \<Rightarrow> metrics \<Rightarrow> compact_args \<Rightarrow> (engine, 'f compact_output) st"
where
  "compact_command F min_score mt a =
     (if ca_auto_pick a then
        sbind (compact_best_l0_partition_by_score F min_score mt) (\<lambda>decision. sreturn (Decided decision))
      else if ca_src_label a \<noteq> None \<or> ca_edge_type a \<noteq> None \<or> ca_min_src a \<noteq> None \<or> ca_max_src a \<noteq> None then
        let src_label = unwrap_or UNKNOWN_SOURCE_LABEL (ca_src_label a)
        in (case (ca_min_src a, ca_max_src a) of
              (Some lo, Some hi) \<Rightarrow>
                sbind (compact_l0_range_to_l1 src_label (ca_edge_type a) lo hi) (\<lambda>outputs. sreturn (Targeted outputs))
            | (None, None) \<Rightarrow>
                sbind (compact_l0_partition_to_l1 src_label (ca_edge_type a)) (\<lambda>outputs. sreturn (Targeted outputs))
            | _ \<Rightarrow> sthrow (Unsupported ''--min-src and --max-src must be supplied together''))
      else sbind compact_l0_to_l1 (\<lambda>meta. sreturn (Compacted meta)))"

text \<open>Most commands open an engine first.\<close>

definition open_and ::
  "lsm_config \<Rightarrow> u64 \<Rightarrow> file_system \<times> manifest_record list option \<Rightarrow> (engine, 'a) st \<Rightarrow> engine \<times> 'a res"
where
  "open_and cfg n disk f =
     (case engine_open cfg n disk of (e, Inl err) \<Rightarrow> (e, Inl err) | (e, Inr _) \<Rightarrow> f e)"

definition open_and_compact ::
  "'f f64_ops \<Rightarrow> 'f \<Rightarrow> lsm_config \<Rightarrow> u64 \<Rightarrow> file_system \<times> manifest_record list option \<Rightarrow> compact_args \<Rightarrow>
   engine \<times> 'f compact_output res"
where
  "open_and_compact F min_score cfg n disk a =
     open_and cfg n disk (compact_command F min_score metrics_default a)"

subsection \<open>Looking at a store\<close>

definition neighbors_command ::
  "lsm_config \<Rightarrow> u64 \<Rightarrow> file_system \<times> manifest_record list option \<Rightarrow> vertex_id \<Rightarrow> edge_type option \<Rightarrow>
   engine \<times> edge_record list res"
where
  "neighbors_command cfg n disk src edge_type =
     open_and cfg n disk (\<lambda>e. let snapshot = current_snapshot e
       in (case edge_type of Some t \<Rightarrow> get_neighbors_typed src t snapshot | None \<Rightarrow> engine_get_neighbors src snapshot) e)"

definition scan_command ::
  "lsm_config \<Rightarrow> u64 \<Rightarrow> file_system \<times> manifest_record list option \<Rightarrow> engine \<times> (snapshot_id \<times> nat) res"
where
  "scan_command cfg n disk =
     open_and cfg n disk (\<lambda>e. let snapshot = current_snapshot e
       in sbind (sreads (scan_edges snapshot)) (\<lambda>edges. sreturn (snapshot, length edges)) e)"

definition stats_command ::
  "lsm_config \<Rightarrow> u64 \<Rightarrow> file_system \<times> manifest_record list option \<Rightarrow>
   engine \<times> (snapshot_id \<times> nat list) res"
where
  "stats_command cfg n disk =
     open_and cfg n disk (sreads (\<lambda>e. Inr (current_snapshot e, live_file_count_by_level e)))"

definition validate_knows_command ::
  "csv_package \<Rightarrow> lsm_config \<Rightarrow> u64 \<Rightarrow> file_system \<times> manifest_record list option \<Rightarrow> file_system \<Rightarrow> string \<Rightarrow> nat \<Rightarrow>
   engine \<times> validate_stats res"
where
  "validate_knows_command csv cfg n disk fs csv_root max_vertices =
     open_and cfg n disk (validate_person_knows csv fs csv_root max_vertices)"

definition validate_batch_command ::
  "'j json_doc \<Rightarrow> row_json \<Rightarrow> lsm_config \<Rightarrow> u64 \<Rightarrow> file_system \<times> manifest_record list option \<Rightarrow>
   string \<Rightarrow> string \<Rightarrow> nat \<Rightarrow> snb_store \<Rightarrow> (snb_store \<times> 'j batch_validation_report res) option"
where
  "validate_batch_command D json cfg n disk validation_dir queries max_lines_per_query s =
     (case engine_open cfg n disk of
        (_, Inl err) \<Rightarrow> Some (s, Inl err)
      | (e, Inr _) \<Rightarrow> validate_ic_batch D json e (cfg_store_dir cfg) validation_dir (parse_query_list queries)
          max_lines_per_query s)"

subsection \<open>The storage benchmark\<close>

definition wanted :: "edge_type option \<Rightarrow> edge_record \<Rightarrow> bool" where
  "wanted t x = (case t of None \<Rightarrow> True | Some t \<Rightarrow> e_type x = t)"

text \<open>Every \<open>stride\<close>-th edge gives its source, until there are enough; then the sources left over.\<close>

fun sample_stride ::
  "edge_type option \<Rightarrow> nat \<Rightarrow> nat \<Rightarrow> edge_record list \<Rightarrow> nat \<Rightarrow> vertex_id list \<Rightarrow> vertex_id list"
where
  "sample_stride t stride samples [] matched srcs = srcs"
| "sample_stride t stride samples (x # xs) matched srcs =
     (if \<not> wanted t x then sample_stride t stride samples xs matched srcs
      else if matched mod stride = 0 \<and> e_src x \<notin> set srcs then
        let srcs = srcs @ [e_src x]
        in if samples \<le> length srcs then srcs else sample_stride t stride samples xs (matched + 1) srcs
      else sample_stride t stride samples xs (matched + 1) srcs)"

fun sample_fill :: "edge_type option \<Rightarrow> nat \<Rightarrow> edge_record list \<Rightarrow> vertex_id list \<Rightarrow> vertex_id list" where
  "sample_fill t samples [] srcs = srcs"
| "sample_fill t samples (x # xs) srcs =
     (if \<not> wanted t x then sample_fill t samples xs srcs
      else if e_src x \<notin> set srcs then
        let srcs = srcs @ [e_src x]
        in if samples \<le> length srcs then srcs else sample_fill t samples xs srcs
      else sample_fill t samples xs srcs)"

definition sample_sources :: "edge_type option \<Rightarrow> nat \<Rightarrow> edge_record list \<Rightarrow> vertex_id list" where
  "sample_sources t samples edges =
     (let candidate_edges = length (filter (wanted t) edges);
          stride = max (candidate_edges div max samples 1) 1;
          srcs = sample_stride t stride samples edges 0 []
      in if length srcs < samples then sample_fill t samples edges srcs else srcs)"

fun bench_lookups ::
  "(vertex_id \<Rightarrow> nat) \<Rightarrow> snapshot_id \<Rightarrow> edge_type option \<Rightarrow> vertex_id list \<Rightarrow> nat \<Rightarrow> (engine \<times> metrics, nat) st"
where
  "bench_lookups clock snapshot t [] n = sreturn n"
| "bench_lookups clock snapshot t (src # srcs) n =
     sbind (metered_get_neighbors (clock src) src t snapshot) (\<lambda>out. bench_lookups clock snapshot t srcs (n + length out))"

record 'f bench_report =
  br_snapshot :: snapshot_id
  br_scan_edges :: nat
  br_candidate_edges :: nat
  br_sampled_vertices :: nat
  br_neighbor_edges :: nat
  br_auto_compaction :: "'f l0_compaction_decision option"
  br_levels :: "nat list"

definition metered_scan :: "nat \<Rightarrow> snapshot_id \<Rightarrow> (engine \<times> metrics, edge_record list) st" where
  "metered_scan micros snapshot =
     sbind (metrics_part (count_up Scan_ops 1)) (\<lambda>_.
     sbind (engine_part (sreads (scan_edges snapshot))) (\<lambda>out.
     sbind (metrics_part (\<lambda>mt. mt\<lparr>mt_latencies := (mt_latencies mt)
         (Storage_scan_edges_latency := record_duration micros (mt_latencies mt Storage_scan_edges_latency))\<rparr>))
       (\<lambda>_. sreturn out)))"

text \<open>After opening; \<open>scan_micros\<close> and \<open>clock\<close> are the times the operations take.\<close>

definition storage_bench ::
  "'f f64_ops \<Rightarrow> 'f \<Rightarrow> nat \<Rightarrow> (vertex_id \<Rightarrow> nat) \<Rightarrow> nat \<Rightarrow> edge_type option \<Rightarrow> bool \<Rightarrow> (engine \<times> metrics, 'f bench_report) st"
where
  "storage_bench F min_score scan_micros clock samples t auto_compact =
     (\<lambda>(e, mt). let snapshot = current_snapshot e
      in sbind (metered_scan scan_micros snapshot) (\<lambda>edges.
         let srcs = sample_sources t samples edges
         in sbind (bench_lookups clock snapshot t srcs 0) (\<lambda>neighbor_edges.
            sbind (if auto_compact then (\<lambda>(e, mt). engine_part (compact_best_l0_partition_by_score F min_score mt) (e, mt))
                   else sreturn None) (\<lambda>decision.
            sreads (\<lambda>(e, mt). Inr \<lparr>br_snapshot = snapshot, br_scan_edges = length edges,
              br_candidate_edges = length (filter (wanted t) edges), br_sampled_vertices = length srcs,
              br_neighbor_edges = neighbor_edges, br_auto_compaction = decision,
              br_levels = live_file_count_by_level e\<rparr>)))) (e, mt))"

subsection \<open>A compaction on request never picks\<close>

text \<open>C40. The compaction that is to pick a partition by its statistics opens a new engine, which has none: it
  decides for nothing on every store.\<close>

theorem auto_pick_idle:
  assumes "engine_open cfg n disk = (e, Inr ())" "ca_auto_pick a"
  shows "open_and_compact F min_score cfg n disk a = (e, Inr (Decided None))"
  using assms
  by (simp add: open_and_def open_and_compact_def compact_command_def compact_best_l0_partition_by_score_def pick_scored
      scored_partitions_def l0_partition_snapshots_def metrics_default_def Let_def List.map_filter_simps
      sbind_def sreturn_def)

theorem auto_pick_idle_witness:
  "\<exists>e. engine_open (config_new ''db'') 7 (\<lambda>_. None, None) = (e, Inr ()) \<and>
    open_and_compact nat_f64 0 (config_new ''db'') 7 (\<lambda>_. None, None)
      \<lparr>ca_auto_pick = True, ca_src_label = None, ca_edge_type = None, ca_min_src = None, ca_max_src = None\<rparr> =
      (e, Inr (Decided None))"
proof -
  have "concat (drop (Suc 0) (split_levels [] k)) = []" for k
    by (simp add: split_levels_def drop_map)
  then obtain e where e: "engine_open (config_new ''db'') 7 (\<lambda>_. None, None) = (e, Inr ())"
    by (auto simp: engine_open_def open_inner_def prepare_store_def rebuild_index_def manifest_load_def sbind_def
        sreturn_def supdate_def Let_def)
  show ?thesis by (rule exI [of _ e], rule conjI [OF e], rule auto_pick_idle [OF e]) simp
qed

subsection \<open>A misspelt relation\<close>

lemma created_empty:
  "engine_create cfg n disk = (e, r) \<Longrightarrow>
   r = Inr () \<and> en_manifest e = None \<and> (\<forall>p. take (Suc (length (cfg_store_dir cfg))) p = cfg_store_dir cfg @ ''/'' \<longrightarrow> en_fs e p = None)"
proof -
  have concat: "concat (drop (Suc 0) (split_levels [] k)) = []" for k
    by (simp add: split_levels_def drop_map)
  assume "engine_create cfg n disk = (e, r)"
  then show ?thesis
    by (auto simp: engine_create_def open_inner_def prepare_store_def rebuild_index_def concat sbind_def sreturn_def
        supdate_def Let_def)
qed

text \<open>An import of an unknown relation is refused, but only after the store it names has been emptied.\<close>

lemma unknown_relation_empties_store:
  assumes "relation \<notin> {''person_knows'', ''all-topology'', ''topology'', ''all'', ''snb-full'', ''full'',
    ''snb-base'', ''base'', ''base-graph''}"
  shows "\<exists>s'. import_command env cfg n disk csv_root relation compact_after s = (s', Inl (Unsupported relation)) \<and>
    en_manifest (ld_engine s') = None \<and>
    (\<forall>p. take (Suc (length (cfg_store_dir cfg))) p = cfg_store_dir cfg @ ''/'' \<longrightarrow> en_fs (ld_engine s') p = None)"
proof -
  obtain e r where create: "engine_create cfg n disk = (e, r)" by (cases "engine_create cfg n disk")
  from created_empty [OF create] assms show ?thesis
    by (simp add: import_command_def create_in_loader_def import_relation_def create sbind_def)
qed

lemma unknown_relation_empties_store_example:
  "\<forall>env s. \<exists>s'. import_command env (config_new ''db'') 1 ((\<lambda>_. None)(''db/x'' := Some [1]), Some [])
      ''csv'' ''person-knows'' False s = (s', Inl (Unsupported ''person-knows'')) \<and>
    en_manifest (ld_engine s') = None \<and> en_fs (ld_engine s') ''db/x'' = None"
proof (intro allI)
  fix env s
  from unknown_relation_empties_store [of "''person-knows''" env "config_new ''db''" 1
      "((\<lambda>_. None)(''db/x'' := Some [1]), Some [])" "''csv''" False s]
  show "\<exists>s'. import_command env (config_new ''db'') 1 ((\<lambda>_. None)(''db/x'' := Some [1]), Some [])
      ''csv'' ''person-knows'' False s = (s', Inl (Unsupported ''person-knows'')) \<and>
    en_manifest (ld_engine s') = None \<and> en_fs (ld_engine s') ''db/x'' = None"
    by (auto simp: config_new_def)
qed

subsection \<open>The sample of the benchmark\<close>

definition sources_of :: "edge_type option \<Rightarrow> edge_record list \<Rightarrow> vertex_id set" where
  "sources_of t xs = e_src ` {x \<in> set xs. wanted t x}"

lemma sources_of_simps [simp]:
  "sources_of t [] = {}"
  "sources_of t (x # xs) = (if wanted t x then insert (e_src x) (sources_of t xs) else sources_of t xs)"
  by (auto simp: sources_of_def)

lemma finite_sources [simp]: "finite (sources_of t xs)"
  by (simp add: sources_of_def)

lemma sample_stride_sound:
  "distinct srcs \<Longrightarrow> length srcs < samples \<Longrightarrow>
   (let out = sample_stride t stride samples xs matched srcs
    in distinct out \<and> length out \<le> samples \<and> set srcs \<subseteq> set out \<and> set out \<subseteq> set srcs \<union> sources_of t xs)"
proof (induction xs arbitrary: matched srcs)
  case (Cons x xs)
  show ?case
  proof (cases "wanted t x \<and> matched mod stride = 0 \<and> e_src x \<notin> set srcs \<and> Suc (length srcs) < samples")
    case True
    with Cons.prems Cons.IH [of "srcs @ [e_src x]" "matched + 1"] show ?thesis by (auto simp: Let_def)
  next
    case False
    with Cons.prems Cons.IH [of srcs "if wanted t x then matched + 1 else matched"] show ?thesis
      by (auto simp: Let_def split: if_splits)
  qed
qed (simp add: Let_def)

lemma sample_fill_complete:
  "distinct srcs \<Longrightarrow> length srcs < samples \<Longrightarrow>
   (let out = sample_fill t samples xs srcs
    in distinct out \<and> set srcs \<subseteq> set out \<and> set out \<subseteq> set srcs \<union> sources_of t xs \<and>
      length out = min samples (card (set srcs \<union> sources_of t xs)))"
proof (induction xs arbitrary: srcs)
  case Nil
  then show ?case by (simp add: Let_def distinct_card)
next
  case (Cons x xs)
  show ?case
  proof (cases "wanted t x \<and> e_src x \<notin> set srcs")
    case True
    show ?thesis
    proof (cases "samples \<le> Suc (length srcs)")
      case enough: True
      have "card (set (srcs @ [e_src x])) \<le> card (set srcs \<union> sources_of t (x # xs))"
        by (rule card_mono) (use True in auto)
      moreover have "card (set (srcs @ [e_src x])) = Suc (length srcs)"
        using True Cons.prems(1) distinct_card [of "srcs @ [e_src x]"] by simp
      ultimately show ?thesis using True enough Cons.prems by (auto simp: Let_def)
    next
      case False
      with True Cons.prems Cons.IH [of "srcs @ [e_src x]"] show ?thesis
        by (simp add: Let_def insert_commute)
    qed
  next
    case False
    then have "set srcs \<union> sources_of t (x # xs) = set srcs \<union> sources_of t xs" by auto
    with False Cons.prems Cons.IH [of srcs] show ?thesis by (auto simp: Let_def)
  qed
qed

lemma sample_all:
  assumes "0 < samples"
  shows "distinct (sample_sources t samples edges) \<and> set (sample_sources t samples edges) \<subseteq> sources_of t edges \<and>
    length (sample_sources t samples edges) = min samples (card (sources_of t edges))"
proof -
  define stride where "stride = max (length (filter (wanted t) edges) div max samples 1) 1"
  define srcs where "srcs = sample_stride t stride samples edges 0 []"
  have s: "distinct srcs" "length srcs \<le> samples" "set srcs \<subseteq> sources_of t edges"
    using sample_stride_sound [of "[]" samples t stride edges 0] assms by (simp_all add: srcs_def Let_def)
  have out: "sample_sources t samples edges = (if length srcs < samples then sample_fill t samples edges srcs else srcs)"
    unfolding sample_sources_def Let_def srcs_def stride_def by (rule refl)
  show ?thesis
  proof (cases "length srcs < samples")
    case True
    with sample_fill_complete [OF s(1) True, of t edges] s(3) show ?thesis
      unfolding out by (auto simp: Let_def Un_absorb1)
  next
    case False
    with s(2) have "length srcs = samples" by simp
    moreover have "card (set srcs) \<le> card (sources_of t edges)" by (rule card_mono) (simp_all add: s(3))
    ultimately show ?thesis
      unfolding out using s(1,3) distinct_card [OF s(1)] by simp
  qed
qed

lemma sample_of_none: "sample_sources None 0 [insert_record 1 2 3 4] = [1]"
  by code_simp

subsection \<open>The counts of the benchmark\<close>

definition typed :: "edge_type option \<Rightarrow> edge_key \<Rightarrow> bool" where
  "typed t k \<longleftrightarrow> t = None \<or> t = Some (of_int (fst (snd k)))"

lemma wanted_key: "wanted t x \<longleftrightarrow> typed t (edge_key x)"
  by (auto simp: wanted_def typed_def edge_key_def split: option.split)

lemma asks_typed: "asks src t k \<longleftrightarrow> fst k = src \<and> typed t k"
  by (simp add: asks_def typed_def)

lemma length_keys:
  "sorted_wrt (<) (map edge_key out) \<Longrightarrow> length out = card (edge_key ` set out)"
  by (metis distinct_card length_map list.set_map strict_sorted_iff)

lemma length_wanted:
  assumes "sorted_wrt (<) (map edge_key out)"
  shows "length (filter (wanted t) out) = card {k \<in> edge_key ` set out. typed t k}"
proof -
  have sorted: "sorted_wrt (<) (map edge_key (filter (wanted t) out))"
    using assms by (induction out) auto
  have keys: "edge_key ` set (filter (wanted t) out) = {k \<in> edge_key ` set out. typed t k}"
    by (auto simp: wanted_key)
  show ?thesis unfolding length_keys [OF sorted] keys ..
qed

lemma bench_lookups_run:
  assumes "engine_inv e" "metrics_balanced mt"
  shows "\<exists>e' mt'. bench_lookups clock snap t srcs n (e, mt) =
      ((e', mt'), Inr (n + (\<Sum>src\<leftarrow>srcs. card {k \<in> view e snap. asks src t k})))"
  using assms
proof (induction srcs arbitrary: e mt n)
  case (Cons src srcs)
  obtain c out where l: "get_neighbors_typed_internal src t snap e = (e\<lparr>en_cache := c\<rparr>, Inr out)"
    "engine_inv (e\<lparr>en_cache := c\<rparr>)" "records (e\<lparr>en_cache := c\<rparr>) = records e"
    "set out = {r \<in> latest (records e) snap. e_marker r = Insert \<and> e_src r = src \<and> of_type t r}"
    "sorted_wrt (<) (map edge_key out)"
    by (rule lookup_run [OF Cons.prems(1)])
  have "edge_key ` set out = {k \<in> view e snap. asks src t k}"
    unfolding l(4) view_def by (auto simp: asks_record)
  with length_keys [OF l(5)] have n: "length out = card {k \<in> view e snap. asks src t k}" by simp
  obtain mt' where m: "metered_get_neighbors (clock src) src t snap (e, mt) = ((e\<lparr>en_cache := c\<rparr>, mt'), Inr out)"
    "metrics_balanced mt'"
    using metered_lookup_run [OF Cons.prems(2), of "clock src" src t snap e] by (auto simp: l(1))
  have v: "view (e\<lparr>en_cache := c\<rparr>) snap = view e snap" using l(3) by (simp add: view_def)
  have "bench_lookups clock snap t (src # srcs) n (e, mt) =
      bench_lookups clock snap t srcs (n + length out) (e\<lparr>en_cache := c\<rparr>, mt')"
    unfolding bench_lookups.simps sbind_def m(1) by simp
  moreover note Cons.IH [OF l(2) m(2), of "n + length out", unfolded v n]
  ultimately show ?case by (simp only: n list.map sum_list.Cons add.assoc)
qed (simp add: sreturn_def)

lemma sum_over_sources:
  assumes "finite V" "distinct srcs"
  shows "(\<Sum>src\<leftarrow>srcs. card {k \<in> V. asks src t k}) = card {k \<in> V. typed t k \<and> fst k \<in> set srcs}"
  using assms(2)
proof (induction srcs)
  case (Cons src srcs)
  have "{k \<in> V. typed t k \<and> fst k \<in> set (src # srcs)} =
      {k \<in> V. asks src t k} \<union> {k \<in> V. typed t k \<and> fst k \<in> set srcs}"
    by (auto simp: asks_typed)
  moreover have "{k \<in> V. asks src t k} \<inter> {k \<in> V. typed t k \<and> fst k \<in> set srcs} = {}"
    using Cons.prems by (auto simp: asks_typed)
  ultimately have "card {k \<in> V. typed t k \<and> fst k \<in> set (src # srcs)} =
      card {k \<in> V. asks src t k} + card {k \<in> V. typed t k \<and> fst k \<in> set srcs}"
    using card_Un_disjoint [of "{k \<in> V. asks src t k}" "{k \<in> V. typed t k \<and> fst k \<in> set srcs}"] assms(1)
    by fastforce
  with Cons show ?case by (simp only: list.map sum_list.Cons distinct.simps)
qed simp

lemma key_sources: "sources_of t out = fst ` {k \<in> edge_key ` set out. typed t k}"
proof -
  have "{k \<in> edge_key ` set out. typed t k} = edge_key ` {x \<in> set out. wanted t x}"
    by (auto simp: wanted_key)
  then show ?thesis by (simp add: sources_of_def image_image edge_key_def)
qed

text \<open>C39. The benchmark counts as neighbours only edges of the type asked for, and when the sample may hold every
  source it counts each of them, so its two counts agree.\<close>

theorem bench_counts_agree:
  assumes "engine_inv e" "metrics_balanced mt" "0 < samples"
  shows "\<exists>s' r. storage_bench F min_score scan_micros clock samples t False (e, mt) = (s', Inr r) \<and>
    br_scan_edges r = card (view e (current_snapshot e)) \<and>
    br_candidate_edges r = card {k \<in> view e (current_snapshot e). typed t k} \<and>
    br_neighbor_edges r \<le> br_candidate_edges r \<and>
    (card (fst ` {k \<in> view e (current_snapshot e). typed t k}) \<le> samples \<longrightarrow>
      br_neighbor_edges r = br_candidate_edges r)"
proof -
  let ?snap = "current_snapshot e" and ?V = "view e (current_snapshot e)"
  obtain out where scan: "scan_edges ?snap e = Inr out" "edge_key ` set out = ?V" "sorted_wrt (<) (map edge_key out)"
    using scan_view [OF assms(1), of ?snap] by (auto simp: scan_gives_def)
  have fin: "finite ?V" unfolding scan(2) [symmetric] by simp
  obtain mt1 where m: "metered_scan scan_micros ?snap (e, mt) = ((e, mt1), Inr out)" "metrics_balanced mt1"
    using assms(2) by (auto simp: metered_scan_def sbind_def metrics_part_run engine_part_def sreads_def sreturn_def
        scan(1) metrics_balanced_def count_up_def)
  let ?S = "sample_sources t samples out"
  have S: "distinct ?S" "set ?S \<subseteq> sources_of t out" "length ?S = min samples (card (sources_of t out))"
    using sample_all [OF assms(3), of t out] by simp_all
  obtain e' mt' where l: "bench_lookups clock ?snap t ?S 0 (e, mt1) =
      ((e', mt'), Inr (card {k \<in> ?V. typed t k \<and> fst k \<in> set ?S}))"
    using bench_lookups_run [OF assms(1) m(2), of clock ?snap t ?S 0] sum_over_sources [OF fin S(1)] by auto
  have le: "card {k \<in> ?V. typed t k \<and> fst k \<in> set ?S} \<le> card {k \<in> ?V. typed t k}"
    by (rule card_mono) (use fin in auto)
  have eq: "card {k \<in> ?V. typed t k \<and> fst k \<in> set ?S} = card {k \<in> ?V. typed t k}"
    if "card (fst ` {k \<in> ?V. typed t k}) \<le> samples"
  proof -
    have "card (set ?S) = card (sources_of t out)"
      using that S(3) distinct_card [OF S(1)] by (simp add: key_sources scan(2))
    with S(2) have "set ?S = fst ` {k \<in> ?V. typed t k}"
      by (simp add: card_subset_eq key_sources scan(2))
    then show ?thesis by (intro arg_cong [where f = card]) auto
  qed
  show ?thesis
    using le eq length_keys [OF scan(3)] length_wanted [OF scan(3), of t]
    by (simp add: storage_bench_def Let_def sbind_def m(1) l sreturn_def sreads_def scan(2))
qed

theorem bench_counts_agree_witness:
  "\<exists>e0 e s' r. engine_create (config_new ''db'') 1 (\<lambda>_. None, None) = (e0, Inr ()) \<and>
    run_ops [Put 1 2 3, Flush, Put 1 5 3, Put 4 5 6] e0 = (e, Inr ()) \<and>
    storage_bench nat_f64 0 7 unat 5 (Some 3) False (e, metrics_default) = (s', Inr r) \<and>
    br_scan_edges r = 3 \<and> br_neighbor_edges r = 2"
proof -
  let ?ops = "[Put 1 2 3, Flush, Put 1 5 3, Put 4 5 6]"
  obtain e0 e where r: "engine_create (config_new ''db'') 1 (\<lambda>_. None, None) = (e0, Inr ())"
    "run_ops ?ops e0 = (e, Inr ())" and t: "tracks (config_new ''db'') (Suc (unat 1)) ?ops e"
    by (rule created_run [of ?ops 1]) simp_all
  have w: "writes ?ops = [Put 1 2 3, Put 1 5 3, Put 4 5 6]" by (simp add: writes_def)
  have "stable_from (config_new ''db'') ?ops = 0" by (simp add: stable_from_def writes_def config_new_def)
  moreover have "edges_after (writes ?ops) = {(1, 3, 2), (1, 3, 5), (4, 6, 5)}" by (auto simp: w edges_after_def)
  ultimately have v: "engine_inv e" "en_ts e = 3" "view e 3 = {(1, 3, 2), (1, 3, 5), (4, 6, 5)}"
    using t by (simp_all add: tracks_def w word_unat_eq_iff)
  have "{k \<in> view e 3. typed (Some 3) k} = {(1, 3, 2), (1, 3, 5)}"
    by (auto simp: v(3) typed_def)
  with bench_counts_agree [OF v(1) metrics_default_balanced, of 5 nat_f64 0 7 unat "Some 3"] r v(3)
  show ?thesis by (auto simp: current_snapshot_def v(2))
qed

end
