(* ===== verification/Engine_Races.thy ===== *)
theory Engine_Races
  imports Engine_Spec
begin

section \<open>A compaction and what runs meanwhile\<close>

text \<open>
  The full compaction of \<^verbatim>\<open>src/graph.rs\<close> cut where it suspends: it pins the files of the
  current version and reads them, and later writes what it merged and publishes a version without levels 0 and 1.
  Run back to back the two parts are the compaction of the engine; a flush that ends in between is lost until the
  store is opened again. Likewise a flush that publishes a version computed from the one it pinned before a rotation.
\<close>

definition compact_pin :: "bool \<Rightarrow> (engine, (csr_segment_meta list \<times> edge_record list) option) st" where
  "compact_pin force =
     sbind wait_for_flushes (\<lambda>_ e.
       let l0_files = get_level (v_levels (en_version e)) L0;
           l1_files = get_level (v_levels (en_version e)) L1
       in if l0_files = [] then (e, Inr None)
          else if \<not> force \<and> length l0_files < cfg_l0_file_threshold (en_config e) then (e, Inr None)
          else sbind (sreads (read_segments (l0_files @ l1_files))) (\<lambda>updates.
            sreturn (Some (l0_files @ l1_files, updates))) e)"

definition compact_publish :: "csr_segment_meta list \<Rightarrow> edge_record list \<Rightarrow> (engine, csr_segment_meta) st" where
  "compact_publish files updates e =
     sbind (write_level_segment L1 (merge_latest_records updates (current_snapshot e) True)) (\<lambda>output.
     sbind (supdate (log_deletes files)) (\<lambda>_.
     sbind (supdate (\<lambda>e. publish (v_memgraphs (en_version e))
                       (full_levels output (v_levels (en_version e))) e)) (\<lambda>_.
     sreturn output))) e"

definition compact_install :: "csr_segment_meta list \<Rightarrow> edge_record list \<Rightarrow> (engine, csr_segment_meta) st" where
  "compact_install files updates =
     sbind (compact_publish files updates) (\<lambda>output. sbind rebuild_index (\<lambda>_. sreturn output))"

lemma compact_in_two_parts:
  "compact_l0_to_l1_inner force =
     sbind (compact_pin force) (\<lambda>p. case p of
       None \<Rightarrow> sreturn None
     | Some (files, updates) \<Rightarrow> sbind (compact_install files updates) (\<lambda>output. sreturn (Some output)))"
proof (rule ext)
  fix e
  obtain e1 r where w: "wait_for_flushes e = (e1, r)" by (cases "wait_for_flushes e")
  define files where "files = get_level (v_levels (en_version e1)) L0 @ get_level (v_levels (en_version e1)) L1"
  show "compact_l0_to_l1_inner force e =
     sbind (compact_pin force) (\<lambda>p. case p of
       None \<Rightarrow> sreturn None
     | Some (files, updates) \<Rightarrow> sbind (compact_install files updates) (\<lambda>output. sreturn (Some output))) e"
  proof (cases r)
    case (Inl err)
    then show ?thesis by (simp add: compact_l0_to_l1_inner_def compact_pin_def sbind_def w)
  next
    case (Inr u)
    then have w: "wait_for_flushes e = (e1, Inr ())" using w by simp
    show ?thesis
    proof (cases "read_segments files e1")
      case (Inl err)
      then show ?thesis
        unfolding compact_l0_to_l1_inner_def compact_pin_def Let_def
        by (simp add: sbind_def w files_def sreads_def sreturn_def)
    next
      case (Inr updates)
      have rest: "sbind (write_level_segment L1 (merge_latest_records updates (current_snapshot e1) True)) (\<lambda>output.
          sbind (supdate (log_deletes files)) (\<lambda>_.
          sbind (supdate (\<lambda>e. publish (v_memgraphs (en_version e)) (full_levels output (v_levels (en_version e))) e)) (\<lambda>_.
          sbind rebuild_index (\<lambda>_. sreturn (Some output))))) e1 =
        sbind (compact_install files updates) (\<lambda>output. sreturn (Some output)) e1"
        by (simp add: compact_install_def compact_publish_def sbind_def sreturn_def supdate_def split: prod.split sum.split)
      show ?thesis
        unfolding compact_l0_to_l1_inner_def compact_pin_def Let_def
        by (simp add: sbind_def w files_def [symmetric] Inr sreads_def sreturn_def rest [unfolded sbind_def],
            simp add: sreturn_def split: prod.split sum.split)
    qed
  qed
qed

subsection \<open>What runs meanwhile keeps the files\<close>

definition grown :: "engine \<Rightarrow> engine \<Rightarrow> bool" where
  "grown e e' \<longleftrightarrow>
     en_config e' = en_config e \<and> live e \<subseteq> live e' \<and> (\<forall>m \<in> live e. file_recs e' m = file_recs e m) \<and>
     get_level (v_levels (en_version e')) L1 = get_level (v_levels (en_version e)) L1 \<and>
     drop 2 (v_levels (en_version e')) = drop 2 (v_levels (en_version e))"

lemma grown_refl [simp]: "grown e e"
  by (simp add: grown_def)

lemma grown_trans: "grown a b \<Longrightarrow> grown b c \<Longrightarrow> grown a c"
  by (auto simp: grown_def)

lemma grown_records:
  assumes "grown e e'" shows "disk_records e \<subseteq> disk_records e'"
proof -
  have "disk_records e = (\<Union>m \<in> live e. set (file_recs e' m))"
    using assms by (auto simp: disk_records_def grown_def)
  then show ?thesis using assms unfolding disk_records_def grown_def by blast
qed

lemma grown_same_disk: "same_disk e e' \<Longrightarrow> grown e e'"
  by (auto simp: grown_def same_disk_live same_disk_recs) (simp_all add: same_disk_def)

lemma index_keeps_disk:
  "live (e\<lparr>en_cache := c, en_index := ix\<rparr>) = live e" "file_recs (e\<lparr>en_cache := c, en_index := ix\<rparr>) = file_recs e"
  by (simp_all add: live_def file_recs_def fun_eq_iff)

lemma flush_levels:
  fixes ls :: levels
  defines "ls' \<equiv> ensure_level L0 ls"
  shows "set (concat (ls'[unat L0 := sort_level (ls' ! unat L0 @ metas)])) = set (concat ls) \<union> set metas"
    "drop 2 (ls'[unat L0 := sort_level (ls' ! unat L0 @ metas)]) = drop 2 ls"
    "get_level (ls'[unat L0 := sort_level (ls' ! unat L0 @ metas)]) L1 = get_level ls L1"
proof -
  obtain a as where ls': "ls' = a # as" "ls = a # as \<or> ls = [] \<and> a = [] \<and> as = []"
    by (cases ls) (auto simp: ls'_def ensure_level_def resize_levels_def L0_def)
  then show "set (concat (ls'[unat L0 := sort_level (ls' ! unat L0 @ metas)])) = set (concat ls) \<union> set metas"
    "drop 2 (ls'[unat L0 := sort_level (ls' ! unat L0 @ metas)]) = drop 2 ls"
    "get_level (ls'[unat L0 := sort_level (ls' ! unat L0 @ metas)]) L1 = get_level ls L1"
    by (auto simp: L0_def L1_def get_level_def sort_level_def)
qed

lemma flush_grown:
  assumes disk: "disk_ok e" and fits: "length (contents (graph_of e i)) < 2 ^ 56"
    and room: "unat (en_next_file_id e) + length (contents (graph_of e i)) < 2 ^ 64"
    and run: "flush_memgraph i e = (e', r)"
  shows "grown e e'"
proof (cases "all_edges_sorted (graph_of e i) = []")
  case True
  with run show ?thesis by (simp add: flush_memgraph_def)
next
  case ne: False
  define segs where "segs = build_l0_flush_segments (en_config e) (all_edges_sorted (graph_of e i))"
  have ms: "mset (concat segs) = mset (contents (graph_of e i))"
    by (simp add: segs_def build_l0_flush_segments_mset)
  have len: "length segs \<le> length (contents (graph_of e i))"
    using length_concat_ge [of segs] build_l0_flush_segments_nonempty [OF ne] concat_mset_length(1) [OF ms]
    by (simp add: segs_def)
  have fits': "length (concat segs) < 2 ^ 56" unfolding concat_mset_length(1) [OF ms] by (rule fits)
  have room': "unat (en_next_file_id e) + length segs < 2 ^ 64"
    by (rule le_less_trans [OF add_left_mono [OF len] room])
  have files: "engine_files_ok e (live e)" using disk by (simp add: disk_ok_def)
  obtain fs' metas where w: "smap (write_level_segment L0) segs e =
      (e\<lparr>en_fs := fs', en_next_file_id := en_next_file_id e + of_nat (length segs),
         en_manifest := log_all (map Create_file metas) (en_manifest e)\<rparr>, Inr metas)"
    "\<forall>x \<in> live e. seg_records (engine_io e) (engine_store e) fs' x = file_recs e x"
    using write_level_segments_run [OF files segs_fit [OF fits'] room'] by blast
  let ?e1 = "e\<lparr>en_fs := fs', en_next_file_id := en_next_file_id e + of_nat (length segs),
      en_manifest := log_all (map Create_file metas) (en_manifest e)\<rparr>"
  have "rebuild_index (publish_flush i metas ?e1) = (e', r)"
    using run ne w(1) by (auto simp: flush_memgraph_def Let_def sbind_def supdate_def segs_def split: prod.splits sum.splits)
  from rebuild_only_index [OF this] obtain c ix where e': "e' = (publish_flush i metas ?e1)\<lparr>en_cache := c, en_index := ix\<rparr>"
    by blast
  show ?thesis
    unfolding grown_def e' index_keeps_disk
    using w(2) flush_levels [of "v_levels (en_version e)" metas]
    by (auto simp: publish_flush_def Let_def live_def file_recs_def)
qed

lemma kept_room:
  assumes "kept e e1" "unat (en_ts e) < 2 ^ 55" "unat (en_next_file_id e) + pend e < 2 ^ 64"
  shows "unat (en_ts e1) < 2 ^ 55" "unat (en_next_file_id e1) + pend e1 < 2 ^ 64"
  using assms by (simp_all add: kept_def)

lemma flush_task_grown:
  assumes core: "core_ok e" and i: "i \<in> set (memgraphs e)"
    and small: "unat (en_ts e) < 2 ^ 55" and room: "unat (en_next_file_id e) + pend e < 2 ^ 64"
    and run: "flush_memgraph i e = (e', r)"
  shows "grown e e'"
proof -
  have g: "graphs_ok e" and disk: "disk_ok e" and time: "time_ok e" using core by (auto simp: core_ok_def)
  have "length (contents (graph_of e i)) \<le> pend e"
    using pend_graph [OF _ i] g by (simp add: graphs_ok_def)
  moreover have "pend e \<le> unat (en_ts e)" using time by (simp add: time_ok_def)
  ultimately show ?thesis
    using flush_grown [OF disk _ _ run] small room by simp
qed

lemma grown_tasks [simp]: "grown (e\<lparr>en_tasks := ts\<rparr>) e' = grown e e'" "grown e (e'\<lparr>en_tasks := ts\<rparr>) = grown e e'"
proof -
  have "live (x\<lparr>en_tasks := ts\<rparr>) = live x" "file_recs (x\<lparr>en_tasks := ts\<rparr>) = file_recs x" for x
    by (simp_all add: live_def file_recs_def fun_eq_iff)
  then show "grown (e\<lparr>en_tasks := ts\<rparr>) e' = grown e e'" "grown e (e'\<lparr>en_tasks := ts\<rparr>) = grown e e'"
    by (simp_all add: grown_def)
qed

lemma wait_tasks_grown:
  assumes "core_ok e" "en_tasks e = rev ts" "tasks_ok e (rev ts)"
    and "unat (en_ts e) < 2 ^ 55" "unat (en_next_file_id e) + pend e < 2 ^ 64"
  shows "grown e (fst (wait_tasks ts e))"
  using assms
proof (induction ts arbitrary: e)
  case Nil
  then show ?case by (simp add: sreturn_def)
next
  case (Cons t ts)
  let ?e = "e\<lparr>en_tasks := rev ts\<rparr>"
  have core: "core_ok ?e" and tk: "tasks_ok ?e (rev ts @ [t])"
    and small: "unat (en_ts ?e) < 2 ^ 55" and room: "unat (en_next_file_id ?e) + pend ?e < 2 ^ 64"
    using Cons.prems by (simp_all add: tasks_field)
  have pop: "wait_tasks (t # ts) e = sbind (run_task t) (\<lambda>_. wait_tasks ts) ?e"
    using Cons.prems(2) by (simp add: sbind_def supdate_def)
  obtain e1 where r: "run_task t ?e = (e1, Inr ())" "kept ?e e1" "tasks_ok e1 (rev ts)" "en_tasks e1 = rev ts"
    "grown ?e e1"
  proof (cases t)
    case (Pending i)
    then have "i \<in> set (memgraphs ?e)" using tk by (auto simp: tasks_ok_def)
    then show thesis
      using flush_task_run [of ?e "rev ts" i "[]"] flush_task_grown [OF core _ small room] core tk small room that Pending
      by auto
  next
    case (Finished r)
    then have "r = Inr ()" using tk by (auto simp: tasks_ok_def)
    moreover have "tasks_ok ?e (rev ts)" using tk Finished by (auto simp: tasks_ok_def)
    ultimately show thesis using Finished that [of ?e] kept_refl [OF core] by (simp add: slift_def)
  qed
  have "grown e1 (fst (wait_tasks ts e1))"
    using r kept_room [OF r(2) small room] by (intro Cons.IH) (auto simp: kept_def)
  with r(5) have "grown e (fst (wait_tasks ts e1))" using grown_trans [of ?e] by simp
  then show ?case unfolding pop using r(1) by (simp add: sbind_def)
qed

lemma wait_grown:
  assumes "engine_inv e" "unat (en_ts e) < 2 ^ 55" "unat (en_next_file_id e) + pend e < 2 ^ 64"
  shows "grown e (fst (wait_for_flushes e))"
  unfolding wait_for_flushes_def
  by (rule wait_tasks_grown) (use assms in \<open>simp_all add: engine_inv_core\<close>)

lemma background_grown:
  assumes inv: "engine_inv e" and small: "unat (en_ts e) < 2 ^ 55" and room: "unat (en_next_file_id e) + pend e < 2 ^ 64"
  shows "grown e (background_flush n e)"
proof (cases "n < length (en_tasks e) \<and> (\<exists>i. en_tasks e ! n = Pending i)")
  case False
  then have "background_flush n e = e"
    by (auto simp: background_flush_def split: flush_task.splits)
  then show ?thesis by simp
next
  case True
  then obtain i where n: "n < length (en_tasks e)" and i: "en_tasks e ! n = Pending i" by blast
  have "Pending i \<in> set (en_tasks e)" using nth_mem [OF n] i by simp
  then have m: "i \<in> set (memgraphs e)" using inv by (auto simp: engine_inv_def tasks_ok_def)
  have core: "core_ok e" using inv by (simp add: engine_inv_core)
  obtain e' r where f: "flush_memgraph i e = (e', r)" by (cases "flush_memgraph i e")
  show ?thesis
    using flush_task_grown [OF core m small room f] n i f by (simp add: background_flush_def)
qed

lemma exec_grown:
  assumes inv: "engine_inv e" and small: "small e" and op: "\<not> compacts (en_config e) op"
    and run: "exec_op op e = (e', r)"
  shows "grown e e'"
proof -
  note s = small_room [OF inv small]
  have room: "unat (en_next_file_id e) + pend e < 2 ^ 64" using s(2) by simp
  show ?thesis
  proof (cases op)
    case (Put src dst t)
    obtain e1 x where w: "write_edge (insert_record src dst t (en_ts e + 1)) (e\<lparr>en_ts := en_ts e + 1\<rparr>) = (e1, x)"
      by (cases "write_edge (insert_record src dst t (en_ts e + 1)) (e\<lparr>en_ts := en_ts e + 1\<rparr>)")
    have "same_disk e e1" using write_edge_disk [of "e\<lparr>en_ts := en_ts e + 1\<rparr>"] w by (metis clock_field(5) fst_conv)
    moreover have "e' = e1"
      using run Put w
      by (auto simp: sdrop_def insert_edge_def next_ts_def sbind_def sreturn_def split: sum.splits prod.splits)
    ultimately show ?thesis using grown_same_disk by blast
  next
    case (Remove src dst t)
    obtain e1 x where w: "write_edge (delete_record src dst t (en_ts e + 1)) (e\<lparr>en_ts := en_ts e + 1\<rparr>) = (e1, x)"
      by (cases "write_edge (delete_record src dst t (en_ts e + 1)) (e\<lparr>en_ts := en_ts e + 1\<rparr>)")
    have "same_disk e e1" using write_edge_disk [of "e\<lparr>en_ts := en_ts e + 1\<rparr>"] w by (metis clock_field(5) fst_conv)
    moreover have "e' = e1"
      using run Remove w
      by (auto simp: sdrop_def delete_edge_def next_ts_def sbind_def sreturn_def split: sum.splits prod.splits)
    ultimately show ?thesis using grown_same_disk by blast
  next
    case Flush
    define e0 where "e0 = (if mg_is_empty (graph_of e (en_active e)) then e
        else fst (enqueue_flush (en_active e) (rotate_active e)))"
    have e0: "engine_inv e0" "en_ts e0 = en_ts e" "pend e0 = pend e" "en_next_file_id e0 = en_next_file_id e"
      "en_config e0 = en_config e"
      using rotated_inv [OF inv small _ refl] empty_active [OF inv] inv by (auto simp: e0_def)
    have "same_disk e e0"
      by (simp add: e0_def enqueue_flush_def rotate_active_def publish_def same_disk_def supdate_def Let_def)
    then have "grown e e0" by (rule grown_same_disk)
    moreover have "grown e0 (fst (wait_for_flushes e0))"
      by (rule wait_grown [OF e0(1)]) (use s(1) room e0 in simp_all)
    moreover obtain e1 where w: "wait_for_flushes e0 = (e1, Inr ())" "kept e0 e1"
      using wait_for_flushes_run [OF e0(1)] s(1) room e0 by metis
    moreover have "e' = e1"
      using run Flush op w e0(5)
      by (simp add: flush_active_def Let_def e0_def [symmetric] sbind_def kept_def)
    ultimately show ?thesis using grown_trans by auto
  next
    case (Background n)
    then show ?thesis using run background_grown [OF inv s(1) room, of n] by (simp add: supdate_def)
  next
    case (Look src t snap)
    obtain c out where "get_neighbors_typed_internal src t snap e = (e\<lparr>en_cache := c\<rparr>, Inr out)"
      by (rule lookup_run [OF inv])
    then have "e' = e\<lparr>en_cache := c\<rparr>" using run Look by (simp add: sdrop_def sbind_def sreturn_def)
    then show ?thesis by (simp add: grown_def live_def file_recs_def)
  qed (use op in simp_all)
qed

lemma run_grown:
  assumes "tracks cfg n h e" "length h + length ops < 2 ^ 30" "n \<le> 2 ^ 62" "\<forall>op \<in> set ops. \<not> compacts cfg op"
  shows "\<exists>e'. run_ops ops e = (e', Inr ()) \<and> tracks cfg n (h @ ops) e' \<and> grown e e'"
  using assms
proof (induction ops arbitrary: e h)
  case Nil
  then show ?case by (simp add: sreturn_def)
next
  case (Cons op ops)
  have len: "length h < 2 ^ 30" using Cons.prems(2) by simp
  obtain e1 where s: "exec_op op e = (e1, Inr ())" "tracks cfg n (h @ [op]) e1"
    by (rule tracks_step [OF Cons.prems(1) len Cons.prems(3)])
  have "grown e e1"
    by (rule exec_grown [OF _ tracks_small [OF Cons.prems(1) len Cons.prems(3)] _ s(1)])
      (use Cons.prems in \<open>simp_all add: tracks_def\<close>)
  moreover have "\<exists>e'. run_ops ops e1 = (e', Inr ()) \<and> tracks cfg n ((h @ [op]) @ ops) e' \<and> grown e1 e'"
    by (rule Cons.IH [OF s(2)]) (use Cons.prems in simp_all)
  ultimately show ?case using s(1) grown_trans by (fastforce simp: sbind_def)
qed

subsection \<open>The two parts around other operations\<close>

lemma below_two_levels:
  assumes "distinct (concat ls)"
  shows "set (concat ls) - set (get_level ls L0 @ get_level ls L1) = set (concat (drop 2 ls))"
proof (cases ls)
  case (Cons a as)
  with assms show ?thesis by (cases as) (auto simp: get_level_def L0_def L1_def)
qed simp

lemma pin_run:
  assumes inv: "engine_inv e" and small: "small e"
    and run: "compact_pin force e = (e1, Inr (Some (files, updates)))"
  shows "kept e e1" "engine_inv e1" "set files \<subseteq> live e1"
    "files = get_level (v_levels (en_version e1)) L0 @ get_level (v_levels (en_version e1)) L1"
    "updates = concat (map (file_recs e1) files)"
proof -
  obtain x where w: "wait_for_flushes e = (x, Inr ())" "kept e x" "engine_inv x" "disk_ok x"
    by (rule after_flushes [OF inv small])
  define fs where "fs = get_level (v_levels (en_version x)) L0 @ get_level (v_levels (en_version x)) L1"
  have sub: "set fs \<subseteq> live x" using get_level_live by (simp add: fs_def)
  note read = read_segments_run [OF w(4) sub]
  have "e1 = x \<and> files = fs \<and> updates = concat (map (file_recs x) fs)"
    using run unfolding compact_pin_def Let_def
    by (auto simp: sbind_def w(1) fs_def [symmetric] sreads_def sreturn_def read split: if_splits)
  then show "kept e e1" "engine_inv e1" "set files \<subseteq> live e1"
    "files = get_level (v_levels (en_version e1)) L0 @ get_level (v_levels (en_version e1)) L1"
    "updates = concat (map (file_recs e1) files)"
    using w sub by (simp_all add: fs_def)
qed

lemma scan_manifest: "scan_edges snap (e\<lparr>en_manifest := x\<rparr>) = scan_edges snap e"
  by (simp add: scan_edges_def read_segments_def Let_def engine_io_def engine_store_def)

lemma rebuild_manifest:
  "rebuild_index (e\<lparr>en_manifest := x\<rparr>) = (let (e', r) = rebuild_index e in (e'\<lparr>en_manifest := x\<rparr>, r))"
proof -
  have "index_metas ms ix (e\<lparr>en_manifest := x\<rparr>) = (let (e', r) = index_metas ms ix e in (e'\<lparr>en_manifest := x\<rparr>, r))"
    for ms ix and e :: engine
  proof (induction ms arbitrary: ix e)
    case (Cons m ms)
    have "with_reader (read_offsets (engine_io e) (engine_store e) (en_fs e) m) (e\<lparr>en_manifest := x\<rparr>) =
        (let (e', r) = with_reader (read_offsets (engine_io e) (engine_store e) (en_fs e) m) e
         in (e'\<lparr>en_manifest := x\<rparr>, r))"
      by (auto simp: with_reader_def Let_def split: prod.split option.split)
    then show ?case using Cons.IH by (simp add: Let_def split: prod.split)
  qed (simp add: sreturn_def)
  then show ?thesis by (simp add: rebuild_index_def sbind_def supdate_def Let_def split: prod.split sum.split)
qed

lemma install_run:
  assumes inv1: "engine_inv e1" and inv: "engine_inv e" and small: "small e" and g: "grown e1 e"
    and files: "files = get_level (v_levels (en_version e1)) L0 @ get_level (v_levels (en_version e1)) L1"
    and U: "U = concat (map (file_recs e1) files)"
  obtains m e3 x ef B where "compact_install files U e = (e3, Inr m)"
    "e3 = x\<lparr>en_manifest := en_manifest e3\<rparr>" "engine_inv x"
    "records x = latest (set U) (en_ts e) \<union> (mem_records e \<union> B)" "disk_records e1 = set U \<union> B"
    "disk_records e1 \<subseteq> disk_records e"
    "compacted e ef" "en_config ef = en_config e3" "en_fs ef = en_fs e3" "en_manifest ef = en_manifest e3"
proof -
  let ?m = "merge_latest_records U (en_ts e) True" and ?ls = "v_levels (en_version e)"
  let ?S = "get_level ?ls L0 @ get_level ?ls L1"
  have disk: "disk_ok e" and time: "time_ok e" using inv by (simp_all add: engine_inv_def)
  have d1: "distinct (concat (v_levels (en_version e1)))" "distinct (concat ?ls)"
    using inv1 inv by (simp_all add: engine_inv_def disk_ok_def)
  note s = small_room [OF inv small]
  have room: "unat (en_next_file_id e) + Suc (unat (en_ts e)) < 2 ^ 64" using s(2) by simp
  have sub1: "set files \<subseteq> live e1" using get_level_live by (simp add: files)
  then have sub: "set files \<subseteq> live e" using g by (auto simp: grown_def)
  have U2: "U = concat (map (file_recs e) files)"
    unfolding U using sub1 g by (intro arg_cong [where f = concat] map_cong) (auto simp: grown_def)
  note sel = selected_records [OF time sub U2]
  obtain e1w metas where w: "smap (write_level_segment L1) [?m] e = (e1w, Inr metas)"
    "en_version e1w = en_version e" "en_ts e1w = en_ts e" "length metas = length [?m]"
    "\<forall>ls'. mset (concat ls') + mset files = mset metas + mset (concat ?ls) \<longrightarrow>
      (\<exists>e'. rebuild_index (publish (memgraphs e) ls' (log_deletes files e1w)) = (e', Inr ()) \<and>
        compacted e e' \<and> unat (en_next_file_id e') \<le> unat (en_next_file_id e) + Suc (unat (en_ts e)))"
    by (rule compaction_run [OF disk time s(1) room sub U2, of "[?m]"]) auto
  obtain m where m: "metas = [m]" using w(4) by (cases metas) auto
  have w1: "write_level_segment L1 ?m e = (e1w, Inr m)"
    using w(1) unfolding m by (auto simp: sbind_Inr_iff sreturn_def)
  \<comment> \<open>the levels that keep what was flushed meanwhile\<close>
  define ls where "ls = [m # filter (\<lambda>x. x \<notin> set files) (concat ?ls)]"
  have "distinct files"
    using d1(1) unfolding files
    by (cases "v_levels (en_version e1)"; cases "tl (v_levels (en_version e1))") (auto simp: get_level_def L0_def L1_def)
  then have "mset (concat ls) + mset files = mset metas + mset (concat ?ls)"
    using mset_without [OF _ d1(2), of files] sub by (simp add: ls_def m live_def)
  with w(5) obtain ef where ef: "rebuild_index (publish (memgraphs e) ls (log_deletes files e1w)) = (ef, Inr ())"
    "compacted e ef" by blast
  \<comment> \<open>the levels that are published\<close>
  have len: "length (concat [?m]) < 2 ^ 56" using sel(2) s(1) by simp
  have room1: "unat (en_next_file_id e) + length [?m] < 2 ^ 64" using room by simp
  have subS: "set ?S \<subseteq> live e" using get_level_live by simp
  obtain e2w metas' where "smap (write_level_segment L1) [?m] e = (e2w, Inr metas')"
    and c: "\<forall>mgs ls'. mset (concat ls') + mset ?S = mset metas' + mset (concat ?ls) \<longrightarrow>
      (\<exists>e'. rebuild_index (publish mgs ls' (log_deletes ?S e2w)) = (e', Inr ()) \<and> committed e mgs [?m] ?S e')"
    by (rule commit_run [where level = L1, OF disk len room1 subS])
  then have same: "e2w = e1w" "metas' = [m]" using w(1) m by simp_all
  obtain x where x: "rebuild_index (publish (memgraphs e) (full_levels m ?ls) (log_deletes ?S e1w)) = (x, Inr ())"
    "committed e (memgraphs e) [?m] ?S x"
    using c full_levels_mset [of m ?ls] unfolding same by blast
  let ?log = "en_manifest (log_deletes files e1w)"
  have pub: "publish (memgraphs e) (full_levels m ?ls) (log_deletes files e1w) =
      (publish (memgraphs e) (full_levels m ?ls) (log_deletes ?S e1w))\<lparr>en_manifest := ?log\<rparr>"
    by (simp add: log_deletes_log publish_def)
  have v: "en_version (log_deletes files e1w) = en_version e" by (simp add: log_deletes_log w(2))
  have run: "compact_install files U e = (x\<lparr>en_manifest := ?log\<rparr>, Inr m)"
    unfolding compact_install_def compact_publish_def current_snapshot_def
    by (simp add: sbind_def w1 supdate_def v pub [unfolded memgraphs_def] rebuild_manifest x(1) [unfolded memgraphs_def]
        sreturn_def)
  define B where "B = (\<Union>y \<in> live e - set ?S. set (file_recs e y))"
  have rest: "live e - set ?S = live e1 - set files"
    using below_two_levels [OF d1(1)] below_two_levels [OF d1(2)] g
    by (simp add: live_def files grown_def)
  have B: "B = (\<Union>y \<in> live e1 - set files. set (file_recs e1 y))"
    unfolding B_def rest using g by (auto simp: grown_def)
  have all: "disk_records e1 = set U \<union> B"
    using sub1 unfolding U B by (auto simp: disk_records_def)
  have mem: "same_memory e x" "memgraphs x = memgraphs e" and dx: "disk_ok x"
    and rx: "disk_records x = latest (set U) (en_ts e) \<union> B"
    using x(2) sel(1) by (simp_all add: committed_def B_def)
  note sm = same_memory_graphs_ok [OF mem]
  have recs: "records x = latest (set U) (en_ts e) \<union> (mem_records e \<union> B)"
    using rx sm(3) by (auto simp: records_def)
  have old: "disk_records e1 \<subseteq> disk_records e"
    by (rule grown_records [OF g])
  have "records x \<subseteq> records e"
    using recs latest_subset [of "set U" "en_ts e"] all old by (auto simp: records_def)
  then have "time_ok x"
    using time sm(4) mem(1) inj_on_subset unfolding time_ok_def
    by (auto simp: inj_on_def subset_iff same_memory_def)
  then have "engine_inv x"
    using inv sm dx mem(1) by (simp add: engine_inv_def same_memory_def)
  moreover obtain c ix where "x = (publish (memgraphs e) (full_levels m ?ls) (log_deletes ?S e1w))\<lparr>en_cache := c, en_index := ix\<rparr>"
    using rebuild_only_index [OF x(1)] by blast
  moreover obtain c' ix' where "ef = (publish (memgraphs e) ls (log_deletes files e1w))\<lparr>en_cache := c', en_index := ix'\<rparr>"
    using rebuild_only_index [OF ef(1)] by blast
  ultimately show thesis
    using that [OF run, of x B ef] recs all old ef(2) by (simp add: log_deletes_log)
qed

text \<open>C7. Writes and flushes that run while a full compaction reads its files are not seen after it publishes its
  version, until the store is opened again: what they brought to disk is in the log but in no level.\<close>

theorem compaction_loses_flushes:
  assumes "engine_create cfg k disk = (e0, Inr ())" "run_ops hist e0 = (e, Inr ())"
    and pin: "compact_pin force e = (e1, Inr (Some (files, updates)))"
    and ops: "run_ops ops e1 = (e2, Inr ())" "\<forall>op \<in> set ops. \<not> compacts cfg op"
    and bounds: "length hist + length ops < 2 ^ 30" "unat k < 2 ^ 62" "unat j + 1 < 2 ^ 64"
  shows "\<exists>m e3 e4. compact_install files updates e2 = (e3, Inr m) \<and>
    engine_open (en_config e3) j (en_fs e3, en_manifest e3) = (e4, Inr ()) \<and>
    (\<forall>snap. current_snapshot e2 \<le> snap \<longrightarrow>
       scan_gives e3 snap (visible (mem_records e2 \<union> disk_records e1) snap) \<and>
       scan_gives e4 snap (visible (disk_records e2) snap))"
proof -
  have len: "length hist < 2 ^ 30" "Suc (unat k) \<le> 2 ^ 62" using bounds(1,2) by simp_all
  have t: "tracks cfg (Suc (unat k)) hist e"
    using created_run [OF len(1) bounds(2), of cfg disk] assms(1,2) by (metis Pair_inject)
  have inv: "engine_inv e" using t by (simp add: tracks_def)
  note p = pin_run [OF inv tracks_small [OF t len] pin]
  have t1: "tracks cfg (Suc (unat k)) hist e1"
    using t p(1,2) by (simp add: tracks_def kept_def spent_def view_def)
  have t2: "tracks cfg (Suc (unat k)) (hist @ ops) e2" and g: "grown e1 e2"
    using run_grown [OF t1 bounds(1) len(2) ops(2)] ops(1) by auto
  have inv2: "engine_inv e2" using t2 by (simp add: tracks_def)
  have small: "small e2" by (rule tracks_small [OF t2]) (use bounds(1) len(2) in simp_all)
  obtain m e3 x ef B where i: "compact_install files updates e2 = (e3, Inr m)"
    "e3 = x\<lparr>en_manifest := en_manifest e3\<rparr>" "engine_inv x"
    "records x = latest (set updates) (en_ts e2) \<union> (mem_records e2 \<union> B)" "disk_records e1 = set updates \<union> B"
    "disk_records e1 \<subseteq> disk_records e2"
    "compacted e2 ef" "en_config ef = en_config e3" "en_fs ef = en_fs e3" "en_manifest ef = en_manifest e3"
    by (rule install_run [OF p(2) inv2 small g p(4,5)])
  have ts: "\<forall>r \<in> records e2. e_ts r \<le> en_ts e2" using inv2 by (simp add: engine_inv_def time_ok_def)
  have fin: "finite (set updates)" "finite (mem_records e2 \<union> B)"
    using finite_records [of x] i(4) by simp_all
  have "view x snap = visible (mem_records e2 \<union> disk_records e1) snap" if "en_ts e2 \<le> snap" for snap
  proof -
    have "\<forall>r \<in> set updates \<union> (mem_records e2 \<union> B). e_ts r \<le> en_ts e2"
      using ts i(5,6) by (auto simp: records_def)
    then have "latest (records x) snap = latest (mem_records e2 \<union> disk_records e1) snap"
      using latest_compact [OF fin _ that] unfolding i(4,5) by (simp add: Un_left_commute)
    then show ?thesis by (simp add: view_def visible_def)
  qed
  moreover have "scan_gives e3 snap (view x snap)" for snap
    using scan_view [OF i(3), of snap] unfolding scan_gives_def by (subst i(2)) (simp add: scan_manifest)
  ultimately have now: "scan_gives e3 snap (visible (mem_records e2 \<union> disk_records e1) snap)" if "en_ts e2 \<le> snap" for snap
    using that by metis
  obtain e4 where e4: "engine_open (en_config ef) j (en_fs ef, en_manifest ef) = (e4, Inr ())" "engine_inv e4"
    "records e4 = disk_records ef"
    by (rule engine_open_run [OF compacted_run(1) [OF inv2 i(7)] bounds(3)])
  obtain A C where A: "disk_records e2 = A \<union> C" "disk_records ef = latest A (en_ts e2) \<union> C"
    using i(7) by (auto simp: compacted_def)
  have "finite (disk_records e2)" by (simp add: disk_records_def live_def)
  then have finA: "finite A" "finite C" unfolding A(1) by simp_all
  have "latest (disk_records ef) snap = latest (disk_records e2) snap" if "en_ts e2 \<le> snap" for snap
    unfolding A using latest_compact [OF finA _ that] ts by (auto simp: records_def A(1))
  then have "scan_gives e4 snap (visible (disk_records e2) snap)" if "en_ts e2 \<le> snap" for snap
    using scan_view [OF e4(2), of snap] that by (simp add: view_visible e4(3) visible_def)
  with now i(1) e4(1) show ?thesis
    by (intro exI [of _ m] exI [of _ e3] exI [of _ e4]) (simp add: i(8-10) current_snapshot_def)
qed

lemma pin_ok:
  assumes inv: "engine_inv e" and small: "small e" and w: "wait_for_flushes e = (e1, Inr ())"
    and l0: "get_level (v_levels (en_version e1)) L0 \<noteq> []"
  shows "\<exists>files updates. compact_pin True e = (e1, Inr (Some (files, updates)))"
proof -
  obtain x where x: "wait_for_flushes e = (x, Inr ())" "disk_ok x"
    by (rule after_flushes [OF inv small])
  have sub: "set (get_level (v_levels (en_version e1)) L0 @ get_level (v_levels (en_version e1)) L1) \<subseteq> live e1"
    using get_level_live by simp
  have "disk_ok e1" using x w by simp
  note read = read_segments_run [OF this sub]
  show ?thesis
    unfolding compact_pin_def Let_def by (simp add: sbind_def w l0 sreads_def sreturn_def read)
qed

lemma created_levels:
  assumes "engine_create cfg n disk = (e, r)"
  shows "concat (v_levels (en_version e)) = []"
proof -
  obtain x where x: "rebuild_index x = (e, r)" "v_levels (en_version x) = split_levels [] (cfg_max_levels cfg)"
    using assms by (auto simp: engine_create_def open_inner_def prepare_store_def Let_def)
  from rebuild_only_index [OF x(1)] show ?thesis using x(2) by (auto simp: split_levels_def)
qed

text \<open>A store with one edge on disk, and its compaction.\<close>

lemma pinned_example:
  obtains e0 e e1 files updates where "engine_create (config_new ''db'') 1 (\<lambda>_. None, None) = (e0, Inr ())"
    "run_ops [Put 1 2 3, Flush] e0 = (e, Inr ())" "compact_pin True e = (e1, Inr (Some (files, updates)))"
    "mem_records e1 = {}" "view e 1 = {(1, 3, 2)}" "current_snapshot e \<le> 1"
    "tracks (config_new ''db'') (Suc (unat (1 :: u64))) [Put 1 2 3, Flush] e1"
proof -
  let ?cfg = "config_new ''db''" and ?h = "[Put 1 2 3, Flush]" and ?n = "Suc (unat (1 :: u64))"
  have auto: "\<not> cfg_auto_compaction ?cfg" by (simp add: config_new_def)
  obtain e0 where c: "engine_create ?cfg 1 (\<lambda>_. None, None) = (e0, Inr ())" "tracks ?cfg ?n [] e0"
    by (rule created_run [of "[]" 1 ?cfg "(\<lambda>_. None, None)"]) (simp_all add: sreturn_def)
  have n: "?n \<le> 2 ^ 62" by simp
  obtain e where e: "run_ops ?h e0 = (e, Inr ())" "tracks ?cfg ?n ([] @ ?h) e" "mem_records e = {}"
    by (rule write_then_flush [OF c(2) _ n auto, of "Put 1 2 3"]) simp_all
  have inv: "engine_inv e" using e(2) by (simp add: tracks_def)
  have small: "small e" by (rule tracks_small [OF e(2)]) simp_all
  have g0: "grown e0 e" using run_grown [OF c(2) _ n, of ?h] e(1) auto by auto
  obtain e1 where w: "wait_for_flushes e = (e1, Inr ())" "kept e e1" "engine_inv e1" "en_tasks e1 = []"
    by (rule after_flushes [OF inv small])
  have g1: "grown e e1" using wait_grown [OF inv] small_room [OF inv small] w(1) by simp
  have low: "get_level (v_levels (en_version e1)) L1 = []" "concat (drop 2 (v_levels (en_version e1))) = []"
    using grown_trans [OF g0 g1] created_levels [OF c(1)] by (auto simp: grown_def get_level_def dest: in_set_dropD nth_mem)
  have mem: "mem_records e1 = {}"
  proof -
    have "set (memgraphs e1) = {en_active e1}" "en_active e1 \<in> set (memgraphs e)" "graph_of e1 = graph_of e"
      using w inv by (auto simp: engine_inv_def tasks_ok_def graphs_ok_def kept_def graph_of_def)
    then show ?thesis using e(3) by (auto simp: mem_records_def)
  qed
  have "stable_from ?cfg ?h = 0" by (simp add: stable_from_def writes_def config_new_def)
  moreover have "edges_after [Put 1 2 3] = {(1, 3, 2)}" by (auto simp: edges_after_def)
  ultimately have v: "view e 1 = {(1, 3, 2)}" "unat (en_ts e) = 1" using e(2) by (simp_all add: tracks_def writes_def)
  have "view e1 1 = {(1, 3, 2)}" using v(1) w(2) by (simp add: view_def kept_def)
  then have "live e1 \<noteq> {}" using mem by (auto simp: view_def records_def disk_records_def latest_def)
  moreover have "distinct (concat (v_levels (en_version e1)))" using w(3) by (simp add: engine_inv_def disk_ok_def)
  ultimately have l0: "get_level (v_levels (en_version e1)) L0 \<noteq> []"
    using below_two_levels [of "v_levels (en_version e1)"] low by (auto simp: live_def)
  obtain files updates where pin: "compact_pin True e = (e1, Inr (Some (files, updates)))"
    using pin_ok [OF inv small w(1) l0] by blast
  have t1: "tracks ?cfg ?n ?h e1"
    using e(2) w(2,3) by (simp add: tracks_def kept_def spent_def view_def)
  have "current_snapshot e \<le> 1" using v(2) by (simp add: current_snapshot_def word_le_nat_alt)
  then show thesis using that [OF c(1) e(1) pin mem v(1) _ t1] by blast
qed

theorem compaction_loses_flushes_witness:
  "\<exists>e0 e e1 files updates e2 m e3 e4.
    engine_create (config_new ''db'') 1 (\<lambda>_. None, None) = (e0, Inr ()) \<and> run_ops [Put 1 2 3, Flush] e0 = (e, Inr ()) \<and>
    compact_pin True e = (e1, Inr (Some (files, updates))) \<and> run_ops [Put 4 5 6, Flush] e1 = (e2, Inr ()) \<and>
    compact_install files updates e2 = (e3, Inr m) \<and> scan_gives e3 2 {(1, 3, 2)} \<and>
    engine_open (en_config e3) 9 (en_fs e3, en_manifest e3) = (e4, Inr ()) \<and> scan_gives e4 2 {(1, 3, 2), (4, 6, 5)}"
proof -
  let ?cfg = "config_new ''db''" and ?h = "[Put 1 2 3, Flush]" and ?ops = "[Put 4 5 6, Flush]"
    and ?n = "Suc (unat (1 :: u64))"
  have auto: "\<not> cfg_auto_compaction ?cfg" by (simp add: config_new_def)
  obtain e0 e e1 files updates where s: "engine_create ?cfg 1 (\<lambda>_. None, None) = (e0, Inr ())" "run_ops ?h e0 = (e, Inr ())"
    and pin: "compact_pin True e = (e1, Inr (Some (files, updates)))" "mem_records e1 = {}"
    and t1: "tracks ?cfg ?n ?h e1"
    by (rule pinned_example)
  have n: "?n \<le> 2 ^ 62" by simp
  obtain e2 where e2: "run_ops ?ops e1 = (e2, Inr ())" "tracks ?cfg ?n (?h @ ?ops) e2" "mem_records e2 = {}"
    by (rule write_then_flush [OF t1 _ n auto, of "Put 4 5 6"]) simp_all
  have edges: "edges_after [Put 1 2 3] = {(1, 3, 2)}" "edges_after [Put 1 2 3, Put 4 5 6] = {(1, 3, 2), (4, 6, 5)}"
    by (auto simp: edges_after_def)
  have st: "stable_from ?cfg (?h @ ?ops) = 0" "stable_from ?cfg ?h = 0"
    by (simp_all add: stable_from_def writes_def config_new_def)
  have "visible (disk_records e1) 2 = view e1 2" "visible (disk_records e2) 2 = view e2 2"
    using pin(2) e2(3) by (simp_all add: view_visible records_def)
  then have v: "visible (disk_records e1) 2 = {(1, 3, 2)}" "visible (disk_records e2) 2 = {(1, 3, 2), (4, 6, 5)}"
    using t1 e2(2) st edges by (simp_all add: tracks_def writes_def)
  have now: "current_snapshot e2 \<le> 2"
    using e2(2) by (simp add: current_snapshot_def word_le_nat_alt tracks_def writes_def)
  obtain m e3 e4 where "compact_install files updates e2 = (e3, Inr m)"
    "engine_open (en_config e3) 9 (en_fs e3, en_manifest e3) = (e4, Inr ())"
    "\<forall>snap. current_snapshot e2 \<le> snap \<longrightarrow>
       scan_gives e3 snap (visible (mem_records e2 \<union> disk_records e1) snap) \<and>
       scan_gives e4 snap (visible (disk_records e2) snap)"
    using compaction_loses_flushes [OF s pin(1) e2(1), of 9] auto by auto
  with now s pin(1) e2(1) show ?thesis unfolding e2(3) Un_empty_left using v by metis
qed

subsection \<open>A version published before its index\<close>

lemma uncompacted_levels:
  assumes "engine_create cfg k disk = (e0, Inr ())" "run_ops hist e0 = (e, Inr ())"
    and "\<forall>op \<in> set hist. \<not> compacts cfg op" "length hist < 2 ^ 30" "unat k < 2 ^ 62"
    and run: "compact_pin force e = (e1, Inr (Some (files, updates)))"
  shows "engine_inv e" "small e" "engine_inv e1" "upper e1 = {}"
proof -
  have c: "tracks cfg (Suc (unat k)) [] e0"
    using created_run [of "[]" k cfg disk] assms(1,5) by (auto simp: sreturn_def)
  have n: "Suc (unat k) \<le> 2 ^ 62" using assms(5) by simp
  have t: "tracks cfg (Suc (unat k)) hist e" and g0: "grown e0 e"
    using run_grown [OF c _ n assms(3)] assms(2,4) by auto
  show inv: "engine_inv e" and small: "small e"
    using t tracks_small [OF t assms(4) n] by (simp_all add: tracks_def)
  show inv1: "engine_inv e1" by (rule pin_run [OF inv small run])
  have "fst (wait_for_flushes e) = e1"
    using run unfolding compact_pin_def Let_def
    by (auto simp: sbind_def sreads_def sreturn_def split: prod.splits sum.splits if_splits)
  moreover have "grown e (fst (wait_for_flushes e))"
    by (rule wait_grown [OF inv]) (use small_room [OF inv small] in simp_all)
  ultimately have "grown e0 e1" using grown_trans [OF g0] by simp
  moreover have "concat (v_levels (en_version e0)) = []" by (rule created_levels [OF assms(1)])
  ultimately have low: "get_level (v_levels (en_version e1)) L1 = []" "concat (drop 2 (v_levels (en_version e1))) = []"
    by (auto simp: grown_def get_level_def dest: in_set_dropD nth_mem)
  have "concat (drop 1 ls) = get_level ls L1 @ concat (drop 2 ls)" for ls :: levels
    by (cases ls; cases "tl ls") (auto simp: get_level_def L1_def)
  then show "upper e1 = {}" by (simp add: upper_def low)
qed

lemma publish_fields:
  assumes "compact_publish files updates e = (e', Inr m)"
  shows "en_index e' = en_index e" "graph_of e' = graph_of e" "memgraphs e' = memgraphs e"
    "get_level (v_levels (en_version e')) L0 = []"
proof -
  obtain fs n log where e': "e' = publish (memgraphs e) (full_levels m (v_levels (en_version e)))
      (log_deletes files (e\<lparr>en_next_file_id := n, en_fs := fs, en_manifest := log\<rparr>))"
    using assms
    by (auto simp: compact_publish_def write_level_segment_def alloc_file_id_def with_fs_def sbind_def supdate_def
        sreturn_def log_deletes_log memgraphs_def Let_def split: prod.splits sum.splits)
  show "en_index e' = en_index e" "graph_of e' = graph_of e" "memgraphs e' = memgraphs e"
    by (simp_all add: e' log_deletes_log)
  show "get_level (v_levels (en_version e')) L0 = []"
    by (auto simp: e' get_level_def full_levels_def Let_def L0_def L1_def nth_list_update)
qed

text \<open>C8. Between the version a compaction publishes and the index it builds after it, a lookup finds none of the
  compacted edges: on a store that has not been compacted before and holds nothing in memory, none at all. When
  the index is built they are back.\<close>

theorem compaction_hides_edges:
  assumes "engine_create cfg k disk = (e0, Inr ())" "run_ops hist e0 = (e, Inr ())"
    and "\<forall>op \<in> set hist. \<not> compacts cfg op" "length hist < 2 ^ 30" "unat k < 2 ^ 62"
    and pin: "compact_pin force e = (e1, Inr (Some (files, updates)))" and empty: "mem_records e1 = {}"
  shows "\<exists>m e2 e3. compact_publish files updates e1 = (e2, Inr m) \<and> rebuild_index e2 = (e3, Inr ()) \<and>
    (\<forall>src t snap. get_neighbors_typed_internal src t snap e2 = (e2, Inr []) \<and>
      (current_snapshot e \<le> snap \<longrightarrow> lookup_gives e3 src t snap (view e snap)))"
proof -
  note u = uncompacted_levels [OF assms(1-5) pin]
  obtain e3 r where full: "compact_l0_to_l1_inner force e = (e3, Inr r)" "same_now e e3"
    by (rule compact_full_op [OF u(1,2)])
  then obtain m e2 where p: "compact_publish files updates e1 = (e2, Inr m)" "rebuild_index e2 = (e3, Inr ())"
    unfolding compact_in_two_parts compact_install_def
    by (auto simp: sbind_def pin sreturn_def split: prod.splits sum.splits)
  have e2: "en_index e2 = en_index e1" "graph_of e2 = graph_of e1" "memgraphs e2 = memgraphs e1"
    "get_level (v_levels (en_version e2)) L0 = []"
    using publish_fields [OF p(1)] by simp_all
  have "graphs_ok e1" "index_ok e1" using u(3) by (auto simp: engine_inv_def disk_ok_def)
  moreover have "concat (map (\<lambda>i. contents (graph_of e1 i)) (memgraphs e1)) = []"
    using empty by (auto simp: mem_records_def)
  ultimately have "edges_of_graphs e1 src = Inr []" for src using edges_of_graphs_run by simp
  then have g: "edges_of_graphs e2 src = Inr []" for src
    using e2(2,3) by (simp add: edges_of_graphs_def memgraphs_def)
  have "get_positions (en_index e2) src = []" for src
    using \<open>index_ok e1\<close> u(4) e2(1) by (auto simp: index_ok_def intro: ccontr)
  then have "get_neighbors_typed_internal src t snap e2 = (e2, Inr [])" for src t snap
    by (cases t)
      (simp_all add: get_neighbors_typed_internal_def sbind_def sreads_def sreturn_def g e2(4) merge_visible_def
        merge_latest_records_def)
  moreover have "lookup_gives e3 src t snap (view e snap)" if "current_snapshot e \<le> snap" for src t snap
    using lookup_view [of e3] view_same [OF full(2)] full(2) that by (metis current_snapshot_def same_now_def)
  ultimately show ?thesis using p by blast
qed

theorem compaction_hides_edges_witness:
  "\<exists>e0 e e1 files updates m e2 e3.
    engine_create (config_new ''db'') 1 (\<lambda>_. None, None) = (e0, Inr ()) \<and> run_ops [Put 1 2 3, Flush] e0 = (e, Inr ()) \<and>
    compact_pin True e = (e1, Inr (Some (files, updates))) \<and> compact_publish files updates e1 = (e2, Inr m) \<and>
    get_neighbors_typed_internal 1 None 1 e2 = (e2, Inr []) \<and> rebuild_index e2 = (e3, Inr ()) \<and>
    lookup_gives e3 1 None 1 {(1, 3, 2)}"
proof -
  obtain e0 e e1 files updates where s: "engine_create (config_new ''db'') 1 (\<lambda>_. None, None) = (e0, Inr ())"
    "run_ops [Put 1 2 3, Flush] e0 = (e, Inr ())" "compact_pin True e = (e1, Inr (Some (files, updates)))"
    "mem_records e1 = {}" "view e 1 = {(1, 3, 2)}" "current_snapshot e \<le> 1"
    by (rule pinned_example)
  have "\<forall>op \<in> set [Put 1 2 3, Flush]. \<not> compacts (config_new ''db'') op" by (simp add: config_new_def)
  from compaction_hides_edges [OF s(1,2) this _ _ s(3,4)] s show ?thesis by fastforce
qed

subsection \<open>A rotation during a flush\<close>

text \<open>The end of a flush with the version it pinned: what is published between is overwritten.\<close>

definition publish_flush_from :: "version \<Rightarrow> u64 \<Rightarrow> csr_segment_meta list \<Rightarrow> engine \<Rightarrow> engine" where
  "publish_flush_from old i metas e =
     (let levels = ensure_level L0 (v_levels old);
          levels = levels[unat L0 := sort_level (levels ! unat L0 @ metas)]
      in e\<lparr>en_version := \<lparr>v_id = v_id old + 1, v_memgraphs = filter (\<lambda>m. m \<noteq> i) (v_memgraphs old), v_levels = levels\<rparr>\<rparr>)"

lemma publish_flush_pinned: "publish_flush i metas e = publish_flush_from (en_version e) i metas e"
  by (simp add: publish_flush_def publish_flush_from_def publish_def Let_def)

lemma scan_same:
  assumes "concat (map (\<lambda>i. all_edges_sorted (graph_of e' i)) (memgraphs e')) =
      concat (map (\<lambda>i. all_edges_sorted (graph_of e i)) (memgraphs e))"
    and "v_levels (en_version e') = v_levels (en_version e)" "en_config e' = en_config e" "en_fs e' = en_fs e"
  shows "scan_edges snap e' = scan_edges snap e"
  using assms by (simp add: scan_edges_def read_segments_def Let_def memgraphs_def engine_io_def engine_store_def)

lemma no_edges_new: "all_edges_sorted (new_memgraph cfg i) = []"
  by (simp add: set_empty [symmetric] new_memgraph_def del: set_empty)

text \<open>C9. A flush that pinned its version before a rotation and publishes after it drops the new active graph from
  the version: the next insert succeeds and no scan sees it.\<close>

theorem rotation_lost:
  assumes inv: "engine_inv e" and small: "small e"
    and e1: "e1 = publish_flush_from (en_version e) i metas (rotate_active e)"
  shows "\<exists>e2. insert_edge src dst t e1 = (e2, Inr (en_ts e + 1)) \<and>
    (\<forall>snap. scan_edges snap e2 = scan_edges snap e1)"
proof -
  let ?n = "en_next_graph e" and ?r = "insert_record src dst t (en_ts e + 1)"
  have g: "graphs_ok e" using inv by (simp add: engine_inv_def)
  have hm: "hm_inv (en_graphs e)" and lt: "\<forall>j \<in> set (memgraphs e). j < ?n" using g by (auto simp: graphs_ok_def)
  have f: "en_active e1 = ?n" "en_graphs e1 = hm_insert ?n (new_memgraph (en_config e) ?n) (en_graphs e)"
    "en_ts e1 = en_ts e" "en_next_graph e1 = ?n + 1" "en_config e1 = en_config e"
    by (simp_all add: e1 publish_flush_from_def rotate_active_def publish_def Let_def)
  have mem: "set (memgraphs e1) \<subseteq> set (memgraphs e)"
    by (auto simp: e1 publish_flush_from_def memgraphs_def Let_def)
  have hm1: "hm_inv (en_graphs e1)" by (simp add: f hm hm.inv_ins)
  have "graph_of e1 ?n = new_memgraph (en_config e) ?n" by (simp add: graph_of_def f hm hm.get_ins)
  then have "mg_inv (graph_of e1 ?n)" using graph_good_new by (simp add: new_memgraph_def graph_good_def)
  then obtain g' where g': "mg_insert ?r (graph_of e1 ?n) = Inr g'" using mg_insert_total by blast
  define e' where "e' = e1\<lparr>en_ts := en_ts e + 1, en_graphs := hm_insert ?n g' (en_graphs e1)\<rparr>"
  have run: "insert_edge src dst t e1 =
      (if mg_is_full g' then fst (enqueue_flush ?n (rotate_active e')) else e', Inr (en_ts e + 1))"
    using g' by (simp add: insert_edge_def next_ts_def write_edge_def sbind_def sreturn_def f e'_def Let_def
        enqueue_flush_def supdate_def graph_of_def)
  have other: "graph_of e' j = graph_of e1 j" if "j \<in> set (memgraphs e1)" for j
    using mem lt that hm1 by (auto simp: e'_def graph_of_def hm.get_ins)
  have here: "scan_edges snap e' = scan_edges snap e1" for snap
    using other by (intro scan_same) (auto simp: e'_def memgraphs_def intro!: arg_cong [where f = concat])
  have next_n: "j \<noteq> ?n + 1" if "j \<in> set (memgraphs e1)" for j
    using mem lt that le_less_plus_1 [OF small_room(3) [OF inv small]] by fastforce
  let ?full = "fst (enqueue_flush ?n (rotate_active e'))"
  have hm': "hm_inv (en_graphs e')" using hm1 by (simp add: e'_def hm.inv_ins)
  have g2: "graph_of ?full j = (if j = ?n + 1 then new_memgraph (en_config e) j else graph_of e' j)" for j
    using hm' by (simp add: enqueue_flush_def supdate_def rotate_active_def publish_def Let_def graph_of_def hm.get_ins
        e'_def f)
  have m': "memgraphs e' = memgraphs e1" by (simp add: e'_def)
  have m2: "memgraphs ?full = (?n + 1) # memgraphs e1"
    by (simp add: enqueue_flush_def supdate_def rotate_active_def publish_def Let_def memgraphs_def e'_def f)
  have "map (\<lambda>j. all_edges_sorted (graph_of ?full j)) (memgraphs e1) = map (\<lambda>j. all_edges_sorted (graph_of e' j)) (memgraphs e1)"
    by (rule map_cong [OF refl]) (simp only: g2 next_n if_False)
  then have "concat (map (\<lambda>j. all_edges_sorted (graph_of ?full j)) (memgraphs ?full)) =
      concat (map (\<lambda>j. all_edges_sorted (graph_of e' j)) (memgraphs e'))"
    by (simp only: m' m2 list.map concat.simps g2 [of "?n + 1"] simp_thms if_True no_edges_new append_Nil)
  then have "scan_edges snap ?full = scan_edges snap e'" for snap
    by (rule scan_same) (simp_all add: enqueue_flush_def supdate_def rotate_active_def publish_def Let_def)
  with here run show ?thesis by (cases "mg_is_full g'") auto
qed

theorem rotation_lost_witness:
  "\<exists>e e1 e2. run_ops [Put 1 2 3] (fst (engine_create (config_new ''db'') 1 (\<lambda>_. None, None))) = (e, Inr ()) \<and>
    e1 = publish_flush_from (en_version e) 0 [] (rotate_active e) \<and>
    insert_edge 4 5 6 e1 = (e2, Inr (en_ts e + 1)) \<and> scan_edges 9 e2 = scan_edges 9 e1"
proof -
  let ?ops = "[Put 1 2 3]"
  obtain e0 e where r: "engine_create (config_new ''db'') 1 (\<lambda>_. None, None) = (e0, Inr ())"
    "run_ops ?ops e0 = (e, Inr ())" and t: "tracks (config_new ''db'') (Suc (unat 1)) ?ops e"
    by (rule created_run [of ?ops 1]) simp_all
  have "small e" by (rule tracks_small [OF t]) simp_all
  moreover have "engine_inv e" using t by (simp add: tracks_def)
  ultimately show ?thesis using rotation_lost [of e _ 0 "[]" 4 5 6] r by (metis fst_conv)
qed

end
