(* ===== verification/Snb_Uncached.thy ===== *)
theory Snb_Uncached
  imports Snb_Loaded
begin

section \<open>An import into a store without its cache\<close>

text \<open>
  When the adjacency cache is missing, \<^verbatim>\<open>import_snb_updates\<close> of \<^verbatim>\<open>src/snb/full_loader.rs\<close> starts from an
  empty builder, beside an engine that may hold edges. The builder then agrees with the engine on the
  edges stamped since, and on no other: the invariant of \<open>Snb_Loaded\<close>, with the time and the edges of
  the start.
\<close>

lemma mem_newest_since:
  assumes "newest_since st e src ty ds"
  shows "dst \<in> set ds \<longleftrightarrow> (\<exists>r \<in> latest (records e) (en_ts e).
    e_marker r = Insert \<and> edge_key r = (src, sint ty, dst) \<and> since st (e_ts r))"
proof -
  have inj: "sint (a :: i32) = sint b \<longleftrightarrow> a = b" for a b using signed_word_eqI by auto
  obtain ps where ps: "ds = map fst ps" "set ps = {p \<in> edge_pairs e src ty. since st (snd p)}"
    using assms unfolding newest_since_def by blast
  have "dst \<in> set ds \<longleftrightarrow> (\<exists>t. (dst, t) \<in> edge_pairs e src ty \<and> since st t)"
    unfolding ps(1) set_map ps(2) by force
  then show ?thesis by (auto simp: edge_pairs_def edge_key_def inj)
qed

lemma uncached_since:
  assumes "tracks cfg (Suc (unat n)) ops (ld_engine s)" "unat n < 2 ^ 62"
    and "ss_files (ld_store s) (adjacency_file store_dir) = None"
    and "import_snb_updates env csv_root store_dir s = (s', Inr stats)"
    and "length ops + ab_directed_edges (ld_adjacency s') < 2 ^ 30"
  shows "cache_since (Some (en_ts (ld_engine s), view (ld_engine s) (en_ts (ld_engine s)))) (adjacency_file store_dir) s'"
proof -
  let ?e = "ld_engine s" and ?fs = "ss_files (ld_store s)"
  let ?st = "Some (en_ts ?e, view ?e (en_ts ?e))"
  have start: "start_builder (adjacency_file store_dir) ?fs ?e = Inr ab_default"
    using assms(3) by (rule start_builder_missing)
  have "engine_inv ?e" using assms(1) by (simp add: tracks_def)
  then have "agrees ?st ab_default ?e" by (rule agrees_empty)
  moreover have "Suc (unat n) \<le> 2 ^ 62" using assms(2) by simp
  ultimately have "ensures (\<lambda>t. ld_engine t = ?e \<and> ss_files (ld_store t) = ?fs)
     (\<lambda>_ t. length ops + ab_directed_edges (ld_adjacency t) < 2 ^ 30 \<longrightarrow> cache_since ?st (adjacency_file store_dir) t)
     (import_snb_updates env csv_root store_dir)"
    by (intro updates_ensures [OF assms(1) _ start])
  then show ?thesis using assms(4,5) unfolding ensures_def by blast
qed

text \<open>C36. When the cache file is missing, as it is before the store is first opened, an import of updates
  starts from an empty builder, whatever the engine holds. If it returns, the engine still shows every
  edge it showed before, but the cache left on disk lists exactly the edges whose newest insertion was
  stamped during this import: an edge held before and not inserted again is missing from it, and later
  openings read the cache.\<close>

theorem updates_without_cache:
  assumes "engine_create cfg n disk = (e0, Inr ())" "run_ops ops e0 = (ld_engine s, Inr ())" "unat n < 2 ^ 62"
    and "ss_files (ld_store s) (adjacency_file store_dir) = None"
    and "import_snb_updates env csv_root store_dir s = (s', Inr stats)"
    and "length ops + ab_directed_edges (ld_adjacency s') < 2 ^ 30"
  shows "\<exists>adj. load_adjacency_cache (adjacency_file store_dir) (ss_files (ld_store s')) = Inr adj \<and>
    view (ld_engine s) (current_snapshot (ld_engine s)) \<subseteq> view (ld_engine s') (current_snapshot (ld_engine s')) \<and>
    (\<forall>src ty dst. dst \<in> set (group_of adj (src, ty)) \<longleftrightarrow>
       (\<exists>r \<in> latest (records (ld_engine s')) (current_snapshot (ld_engine s')).
          e_marker r = Insert \<and> edge_key r = (src, sint ty, dst) \<and> current_snapshot (ld_engine s) < e_ts r))"
proof -
  let ?st = "Some (en_ts (ld_engine s), view (ld_engine s) (en_ts (ld_engine s)))"
  obtain e1 e where "engine_create cfg n disk = (e1, Inr ())" "run_ops ops e1 = (e, Inr ())"
    "tracks cfg (Suc (unat n)) ops e"
    by (rule created_run [of ops n]) (use assms(3,6) in simp_all)
  then have "tracks cfg (Suc (unat n)) ops (ld_engine s)" using assms(1,2) by simp
  from uncached_since [OF this assms(3-6)] show ?thesis
    using mem_newest_since [of ?st "ld_engine s'"]
    by (auto simp: cache_since_def keeps_held_def since_def current_snapshot_def)
qed

text \<open>A store that holds the edge from 1 to 2 of type 1 and has no cache, and the update stream of one
  friendship: the edge is shown and not listed.\<close>

definition uncached_files :: file_system where
  "uncached_files path =
     (if path = ''data/updateStream_0_0_person.csv'' then Some stream_bytes else None)"

definition uncached_loader :: "engine \<Rightarrow> loader" where
  "uncached_loader e = \<lparr>ld_engine = e, ld_store = \<lparr>ss_text = (\<lambda>_. None), ss_files = uncached_files\<rparr>,
     ld_adjacency = ab_default, ld_stats = no_stats\<rparr>"

text \<open>The stream records nothing for the source 1.\<close>

definition unlisted :: "loader \<Rightarrow> bool" where
  "unlisted s \<longleftrightarrow> hm_inv (ab_grouped (ld_adjacency s)) \<and> group_of (ab_grouped (ld_adjacency s)) (1, 1) = []"

lemma unlisted_insert: "(src, ty) \<noteq> (1, 1) \<Longrightarrow> preserves unlisted (insert_recorded src dst ty)"
  by (auto simp: preserves_def unlisted_def insert_recorded_def on_engine_def sbind_def supdate_def group_of_record
      ab_record_edge_def hm.inv_ins group_of_insert split: prod.splits sum.splits)

lemma unlisted_text: "preserves unlisted (add_stats other)" "preserves unlisted (write_edge_prop env out src dst ty p)"
  "preserves unlisted (finish_import path)"
  by (auto simp: preserves_def unlisted_def add_stats_def write_edge_prop_def append_line_def on_store_def on_engine_def
      on_files_def finish_import_def supdate_def sreturn_def sbind_def split: prod.splits sum.splits)

lemma unlisted_line: "preserves unlisted (apply_line env vertices out ''0|0|8|1|2|9'')"
proof -
  have "encode_vid Person 1 \<noteq> 1" by code_simp
  moreover have "encode_vid Person 2 \<noteq> 1" by code_simp
  moreover have "preserves unlisted (insert_forward_reverse env out src dst Knows p both)"
    if "src \<noteq> 1" "dst \<noteq> 1" for src dst p both
    unfolding insert_forward_reverse_def Let_def
    by (intro preserves_bind preserves_if preserves_basic unlisted_insert unlisted_text) (use that in simp_all)
  ultimately have "preserves unlisted (insert_forward_reverse env out (encode_vid Person 1) (encode_vid Person 2) Knows p both)"
    "preserves unlisted (insert_forward_reverse env out (encode_vid Person 2) (encode_vid Person 1) Knows p both)" for p both
    by blast+
  then show ?thesis
    unfolding stream_line_steps by (intro preserves_bind unlisted_text)
qed

lemma unlisted_import:
  assumes "ss_files (ld_store s) = uncached_files" "import_snb_updates knows_env ''data'' ''store'' s = (s', Inr stats)"
  shows "unlisted s'"
proof -
  let ?Q = "\<lambda>s :: loader. ss_files (ld_store s) = uncached_files"
  let ?R = "\<lambda>s. unlisted s \<and> ?Q s"
  have opened: "ensures ?Q (\<lambda>_. ?Q) (open_append path)" for path
    by (auto simp: ensures_def open_append_def on_store_def supdate_def)
  have read: "ensures ?Q (\<lambda>b s. ?Q s \<and> b = ab_default)
      (sreads (\<lambda>s. if ss_files (ld_store s) (adjacency_file ''store'') \<noteq> None then
           rbind (load_adjacency_cache (adjacency_file ''store'') (ss_files (ld_store s))) (\<lambda>adj.
             Inr (ab_from_adjacency adj (current_snapshot (ld_engine s))))
         else Inr ab_default))"
    by (auto simp: ensures_def sreads_def uncached_files_def join_path_def)
  have start: "ensures (\<lambda>s. ?Q s \<and> b = ab_default) (\<lambda>_. ?R)
      (supdate (\<lambda>s. s\<lparr>ld_stats := no_stats, ld_adjacency := b\<rparr>))" for b
    by (auto simp: ensures_def supdate_def unlisted_def group_of_default) (simp add: ab_default_def hm.inv_empty)
  have files: "ensures ?R (\<lambda>fs s. ?R s \<and> fs = [''data/updateStream_0_0_person.csv''])
      (slift (update_stream_files knows_env ''data''))"
    by (auto simp: ensures_def slift_def update_stream_files_def knows_env_def valid_utf8_def Let_def suffix_def
        join_path_def prefix_code)
  have stream: "ensures ?R (\<lambda>_. unlisted)
      (import_update_stream_file knows_env v out ''data/updateStream_0_0_person.csv'')" for v out
    using unlisted_line [of knows_env v out]
    by (auto simp: import_update_stream_file_def ensures_def sreads_def sbind_def uncached_files_def
        stream_lines sdo_def slift_def sreturn_def preserves_def split: prod.splits sum.splits)
  have list: "ensures (\<lambda>s. ?R s \<and> fs = [''data/updateStream_0_0_person.csv'']) (\<lambda>_. unlisted)
      (sdo (import_update_stream_file knows_env v out) (sort fs))" for v out fs
  proof -
    have "ensures ?R (\<lambda>_. unlisted) (sdo (import_update_stream_file knows_env v out) (sort [''data/updateStream_0_0_person.csv'']))"
      by (simp add: sdo_def) (rule ensures_bind [OF stream], simp add: ensures_def sreturn_def)
    then show ?thesis by (auto simp: ensures_def)
  qed
  have "ensures ?Q (\<lambda>_. unlisted) (import_snb_updates knows_env ''data'' ''store'')"
    unfolding import_snb_updates_def Let_def
    by (rule ensures_bind [OF opened], rule ensures_bind [OF opened], rule ensures_bind [OF read],
        rule ensures_bind [OF start], rule ensures_bind [OF files],
        rule ensures_bind [OF list ensures_keeps [OF unlisted_text(3)]])
  then show ?thesis using assms unfolding ensures_def by blast
qed

theorem updates_without_cache_witness:
  "\<exists>e0 e s' stats adj. engine_create (config_new ''db'') 1 (\<lambda>_. None, None) = (e0, Inr ()) \<and>
    run_ops [Put 1 2 1, Flush] e0 = (e, Inr ()) \<and>
    import_snb_updates knows_env ''data'' ''store'' (uncached_loader e) = (s', Inr stats) \<and>
    load_adjacency_cache ''store/snb_adjacency.bin'' (ss_files (ld_store s')) = Inr adj \<and>
    (1, 1, 2) \<in> view (ld_engine s') (current_snapshot (ld_engine s')) \<and> group_of adj (1, 1) = [] \<and>
    (\<forall>src ty dst. dst \<in> set (group_of adj (src, ty)) \<longleftrightarrow>
       (\<exists>r \<in> latest (records (ld_engine s')) (current_snapshot (ld_engine s')).
          e_marker r = Insert \<and> edge_key r = (src, sint ty, dst) \<and> 1 < e_ts r))"
proof -
  let ?ops = "[Put 1 2 1, Flush]" and ?cfg = "config_new ''db''"
  obtain e0 e where e: "engine_create ?cfg 1 (\<lambda>_. None, None) = (e0, Inr ())" "run_ops ?ops e0 = (e, Inr ())"
    and tr: "tracks ?cfg (Suc (unat 1)) ?ops e"
    by (rule created_run [of ?ops 1]) simp_all
  have w: "writes ?ops = [Put 1 2 1]" by (simp add: writes_def)
  have "unat (en_ts e) = 1" using tr by (simp add: tracks_def w)
  then have now: "en_ts e = 1" by (simp add: word_unat_eq_iff)
  have "stable_from ?cfg ?ops = 0" by (simp add: stable_from_def writes_def config_new_def)
  then have v: "view e 1 = {(1, 1, 2)}" using tr by (simp add: tracks_def w edges_after_def)
  have "engine_inv e" using tr by (simp add: tracks_def)
  note b = agrees_empty [OF this]
  have none: "uncached_files ''store/snb_adjacency.bin'' = None" by (simp add: uncached_files_def)
  then have start: "start_builder ''store/snb_adjacency.bin'' uncached_files e = Inr ab_default"
    by (rule start_builder_missing)
  let ?s = "uncached_loader e"
  have s: "ld_engine ?s = e" "ss_files (ld_store ?s) = uncached_files" by (simp_all add: uncached_loader_def)
  obtain s' stats where run: "import_snb_updates knows_env ''data'' ''store'' ?s = (s', Inr stats)"
    "ab_directed_edges (ld_adjacency s') \<le> 3"
    by (rule stream_import [OF tr _ _ start b, of ?s])
      (simp_all add: uncached_files_def ab_default_def s)
  have path: "adjacency_file ''store'' = ''store/snb_adjacency.bin''" by (simp add: join_path_def)
  have ops: "run_ops ?ops e0 = (ld_engine ?s, Inr ())" "ss_files (ld_store ?s) (adjacency_file ''store'') = None"
    using e(2) none by (simp_all add: s path)
  from updates_without_cache [OF e(1) ops(1) _ ops(2) run(1)]
  obtain adj where adj: "load_adjacency_cache ''store/snb_adjacency.bin'' (ss_files (ld_store s')) = Inr adj"
    "view e (en_ts e) \<subseteq> view (ld_engine s') (current_snapshot (ld_engine s'))"
    "\<forall>src ty dst. dst \<in> set (group_of adj (src, ty)) \<longleftrightarrow>
       (\<exists>r \<in> latest (records (ld_engine s')) (current_snapshot (ld_engine s')).
          e_marker r = Insert \<and> edge_key r = (src, sint ty, dst) \<and> 1 < e_ts r)"
    using run(2) by (auto simp: s path current_snapshot_def now)
  have "cache_since (Some (en_ts e, view e (en_ts e))) ''store/snb_adjacency.bin'' s'"
    using uncached_since [of ?cfg 1 ?ops ?s "''store''" knows_env "''data''" s' stats] tr run ops(2) by (simp add: s path)
  then have "group_of adj (1, 1) = group_of (fst (ab_build (ld_adjacency s'))) (1, 1)"
    using adj(1) by (auto simp: cache_since_def)
  also have "\<dots> = []"
    using unlisted_import [OF s(2) run(1)]
    by (simp add: unlisted_def group_of_build order_group_def newest_per_dst_def)
  finally have "group_of adj (1, 1) = []" .
  then show ?thesis using e run(1) adj v now by auto
qed

end
