(* ===== verification/Manifest_Text.thy ===== *)
theory Manifest_Text
  imports Manifest Text_Lines "HOL-Library.Sublist"
begin

section \<open>The text of the manifest\<close>

text \<open>
  \<^verbatim>\<open>Manifest::load\<close> and \<^verbatim>\<open>Manifest::append\<close> of \<^verbatim>\<open>src/csr/manifest.rs\<close> on the text of the file: one JSON
  object per line. A line that does not parse makes the whole load fail, so a torn last line does. On
  the text of a list of records the two agree with the load and the append on that list, which the
  engine's model uses. \<^verbatim>\<open>serde_json\<close> is a parameter, with the behaviour the code relies on stated by
  \<open>json_manifest\<close>.
\<close>

record manifest_json =
  mj_render :: "manifest_record \<Rightarrow> string"
  mj_parse :: "string \<Rightarrow> manifest_record res"

subsection \<open>Loading and appending\<close>

text \<open>The loop over the lines; the state is the live files, the largest id and the largest time.\<close>

fun load_lines :: "manifest_json \<Rightarrow> string res list \<Rightarrow> replay_state \<Rightarrow> replay_state res" where
  "load_lines J [] st = Inr st"
| "load_lines J (line # lines) st =
     rbind line (\<lambda>line.
       if trim line = [] then load_lines J lines st
       else rbind (mj_parse J line) (\<lambda>record. load_lines J lines (manifest_step record st)))"

definition manifest_load_text :: "manifest_json \<Rightarrow> string option \<Rightarrow> manifest_state res" where
  "manifest_load_text J at_path =
     (case at_path of
        None \<Rightarrow> Inr \<lparr>ms_live_files = [], ms_next_file_id = 1, ms_max_ts = 0\<rparr>
      | Some contents \<Rightarrow>
          rbind (load_lines J (lines_of contents) ([], 0, 0)) (\<lambda>(live, max_file_id, max_ts).
          Inr \<lparr>ms_live_files = bt_values live, ms_next_file_id = max_file_id + 1, ms_max_ts = max_ts\<rparr>))"

definition line_feed :: string where
  "line_feed = [CHR 0x0A]"

definition manifest_append_text :: "manifest_json \<Rightarrow> manifest_record \<Rightarrow> string option \<Rightarrow> string option" where
  "manifest_append_text J r at_path =
     Some ((case at_path of None \<Rightarrow> [] | Some contents \<Rightarrow> contents) @ mj_render J r @ line_feed)"

text \<open>The records of a text, when every line parses.\<close>

fun parse_lines :: "manifest_json \<Rightarrow> string res list \<Rightarrow> manifest_record list res" where
  "parse_lines J [] = Inr []"
| "parse_lines J (line # lines) =
     rbind line (\<lambda>line.
       if trim line = [] then parse_lines J lines
       else rbind (mj_parse J line) (\<lambda>record. rbind (parse_lines J lines) (\<lambda>rs. Inr (record # rs))))"

definition manifest_records :: "manifest_json \<Rightarrow> string option \<Rightarrow> manifest_record list option res" where
  "manifest_records J at_path =
     (case at_path of None \<Rightarrow> Inr None | Some contents \<Rightarrow> rbind (parse_lines J (lines_of contents)) (\<lambda>rs. Inr (Some rs)))"

lemma load_lines_parse: "load_lines J ls st = rbind (parse_lines J ls) (\<lambda>rs. Inr (fold manifest_step rs st))"
proof (induction ls arbitrary: st)
  case (Cons l ls)
  show ?case
  proof (cases l)
    case (Inr line)
    show ?thesis
      using Cons by (cases "mj_parse J line"; cases "parse_lines J ls") (simp_all add: Inr)
  qed simp
qed simp

text \<open>The load of a text is the load of its records, and fails when a line does not parse.\<close>

lemma load_text_records: "manifest_load_text J at_path = rbind (manifest_records J at_path) (\<lambda>log. Inr (manifest_load log))"
proof (cases at_path)
  case (Some contents)
  then show ?thesis
    by (cases "parse_lines J (lines_of contents)")
      (simp_all add: manifest_load_text_def manifest_records_def load_lines_parse manifest_load_def manifest_replay_def
        split: prod.splits)
qed (simp add: manifest_load_text_def manifest_records_def manifest_load_def)

subsection \<open>What the code relies on\<close>

text \<open>What \<^verbatim>\<open>serde_json\<close> does with a record: it renders to an object on one line of ASCII and parses back
  to itself; a text cut off in the middle of an object does not parse, and neither do two objects in a
  row.\<close>

definition json_manifest :: "manifest_json \<Rightarrow> bool" where
  "json_manifest J \<longleftrightarrow>
     (\<forall>r. mj_parse J (mj_render J r) = Inr r) \<and>
     (\<forall>r. \<exists>body. mj_render J r = CHR ''{'' # body @ [CHR ''}'']) \<and>
     (\<forall>r. list_all (\<lambda>c. (of_char c :: nat) < 128 \<and> c \<noteq> CHR 0x0A) (mj_render J r)) \<and>
     (\<forall>r p. strict_prefix p (mj_render J r) \<longrightarrow> (\<exists>err. mj_parse J p = Inl err)) \<and>
     (\<forall>r r'. \<exists>err. mj_parse J (mj_render J r @ mj_render J r') = Inl err)"

lemma json_manifestD:
  assumes "json_manifest J"
  shows "mj_parse J (mj_render J r) = Inr r" "\<exists>body. mj_render J r = CHR ''{'' # body @ [CHR ''}'']"
    "list_all (\<lambda>c. (of_char c :: nat) < 128 \<and> c \<noteq> CHR 0x0A) (mj_render J r)"
    "strict_prefix p (mj_render J r) \<Longrightarrow> \<exists>err. mj_parse J p = Inl err"
    "\<exists>err. mj_parse J (mj_render J r @ mj_render J r') = Inl err"
  using assms by (simp_all add: json_manifest_def)

definition log_text :: "manifest_json \<Rightarrow> manifest_record list \<Rightarrow> string" where
  "log_text J rs = concat (map (\<lambda>r. mj_render J r @ line_feed) rs)"

lemma log_text_simps [simp]:
  "log_text J [] = []" "log_text J (r # rs) = mj_render J r @ CHR 0x0A # log_text J rs"
  "log_text J (rs @ rs') = log_text J rs @ log_text J rs'"
  by (simp_all add: log_text_def line_feed_def)

text \<open>A text written for a log; when the process stops after the last record and before its line feed,
  the line feed is missing.\<close>

definition written_as :: "manifest_json \<Rightarrow> manifest_record list option \<Rightarrow> string option \<Rightarrow> bool" where
  "written_as J log at_path \<longleftrightarrow>
     at_path = map_option (log_text J) log \<or>
     (\<exists>rs r. log = Some (rs @ [r]) \<and> at_path = Some (log_text J rs @ mj_render J r))"

lemma append_text_written:
  "manifest_append_text J r (map_option (log_text J) log) = map_option (log_text J) (manifest_append r log)"
  by (cases log) (simp_all add: manifest_append_text_def manifest_append_def line_feed_def)

subsection \<open>Reading back what was written\<close>

lemma trim_object: "trim (CHR ''{'' # p) \<noteq> []"
proof -
  have "\<not> is_space (CHR ''{'')" by (simp add: is_space_def)
  then have "dropWhile is_space (rev (CHR ''{'' # p)) \<noteq> []" "dropWhile is_space (CHR ''{'' # p) = CHR ''{'' # p"
    by auto
  then show ?thesis by (simp add: trim_def)
qed

lemma render_line:
  assumes "json_manifest J"
  shows "CHR 0x0A \<notin> set (mj_render J r)" "mj_render J r \<noteq> []" "strip_cr (mj_render J r) = mj_render J r"
    "valid_utf8 (mj_render J r)" "trim (mj_render J r) \<noteq> []"
proof -
  obtain body where b: "mj_render J r = CHR ''{'' # body @ [CHR ''}'']" using json_manifestD(2) [OF assms] by blast
  note a = json_manifestD(3) [OF assms, of r]
  show "CHR 0x0A \<notin> set (mj_render J r)" "valid_utf8 (mj_render J r)"
    using a valid_utf8_ascii [of "mj_render J r"] by (auto simp: list_all_iff)
  show "mj_render J r \<noteq> []" "strip_cr (mj_render J r) = mj_render J r" "trim (mj_render J r) \<noteq> []"
    using trim_object by (simp_all add: b strip_cr_def)
qed

lemma parse_log_text:
  assumes "json_manifest J"
  shows "parse_lines J (lines_of (log_text J rs @ end)) = rbind (parse_lines J (lines_of end)) (\<lambda>es. Inr (rs @ es))"
proof (induction rs)
  case Nil
  show ?case by (cases "parse_lines J (lines_of end)") simp_all
next
  case (Cons r rs)
  note line = render_line [OF assms, of r]
  have "lines_of (log_text J (r # rs) @ end) = Inr (mj_render J r) # lines_of (log_text J rs @ end)"
    using split_lines_feed [OF line(1)] line(3,4) by (simp add: lines_of_def del: split_lines.simps)
  then show ?case
    using Cons.IH line(5) json_manifestD(1) [OF assms]
    by (cases "parse_lines J (lines_of end)") simp_all
qed

lemma lines_of_Nil [simp]: "lines_of [] = []"
  by (simp add: lines_of_def)

theorem records_written:
  assumes "json_manifest J" "written_as J log at_path"
  shows "manifest_records J at_path = Inr log"
proof -
  have ended: "manifest_records J (map_option (log_text J) log) = Inr log"
    using parse_log_text [OF assms(1), of _ "[]"] by (cases log) (simp_all add: manifest_records_def)
  have unended: "manifest_records J (Some (log_text J rs @ mj_render J r)) = Inr (Some (rs @ [r]))" for rs r
  proof -
    note line = render_line [OF assms(1), of r]
    have "lines_of (mj_render J r) = [Inr (mj_render J r)]"
      using split_lines_unended [OF line(1,2)] line(4) by (simp add: lines_of_def del: split_lines.simps)
    then have "parse_lines J (lines_of (mj_render J r)) = Inr [r]"
      using line(5) json_manifestD(1) [OF assms(1)] by simp
    then show ?thesis by (simp add: manifest_records_def parse_log_text [OF assms(1)])
  qed
  show ?thesis using assms(2) ended unended unfolding written_as_def by blast
qed

text \<open>A record that was only partly written makes the load fail, and so does an append after a line
  that had lost its line feed.\<close>

theorem torn_record_fails:
  assumes "json_manifest J" "strict_prefix p (mj_render J r)" "p \<noteq> []"
  shows "\<exists>err. manifest_records J (Some (log_text J rs @ p)) = Inl err"
proof -
  obtain body where b: "mj_render J r = CHR ''{'' # body @ [CHR ''}'']" using json_manifestD(2) [OF assms(1)] by blast
  obtain q where q: "mj_render J r = p @ q" using assms(2) by (auto simp: strict_prefix_def prefix_def)
  have sub: "set p \<subseteq> set (mj_render J r)" unfolding q by simp
  have "CHR 0x0A \<notin> set p" using sub render_line(1) [OF assms(1)] by blast
  then have "split_lines p = [p]" using assms(3) by (rule split_lines_unended)
  moreover have "valid_utf8 p"
    using json_manifestD(3) [OF assms(1), of r] sub by (intro valid_utf8_ascii) (auto simp: list_all_iff)
  ultimately have "lines_of p = [Inr p]" by (simp add: lines_of_def del: split_lines.simps)
  moreover obtain p' where "p = CHR ''{'' # p'" using assms(3) b q by (cases p) auto
  moreover obtain err where "mj_parse J p = Inl err" using json_manifestD(4) [OF assms(1,2)] by blast
  ultimately have "parse_lines J (lines_of p) = Inl err" using trim_object by simp
  then show ?thesis by (simp add: manifest_records_def parse_log_text [OF assms(1)])
qed

theorem append_to_unended_line_fails:
  assumes "json_manifest J"
  shows "\<exists>err. manifest_records J (manifest_append_text J r' (Some (log_text J rs @ mj_render J r))) = Inl err"
proof -
  obtain body where b: "mj_render J r = CHR ''{'' # body @ [CHR ''}'']" using json_manifestD(2) [OF assms] by blast
  let ?l = "mj_render J r @ mj_render J r'"
  note line = render_line [OF assms]
  have "split_lines (?l @ CHR 0x0A # []) = strip_cr ?l # split_lines []"
    by (rule split_lines_feed) (use line(1) in simp)
  moreover obtain body' where "mj_render J r' = CHR ''{'' # body' @ [CHR ''}'']"
    using json_manifestD(2) [OF assms] by blast
  then have "last ?l = CHR ''}''" by simp
  then have "strip_cr ?l = ?l" by (simp add: strip_cr_def)
  moreover have "valid_utf8 ?l"
    using json_manifestD(3) [OF assms, of r] json_manifestD(3) [OF assms, of r']
    by (intro valid_utf8_ascii) (auto simp: list_all_iff)
  ultimately have "lines_of (?l @ line_feed) = [Inr ?l]" by (simp add: lines_of_def line_feed_def)
  moreover have "trim ?l \<noteq> []" using trim_object by (simp add: b)
  moreover obtain err where "mj_parse J ?l = Inl err" using json_manifestD(5) [OF assms] by blast
  ultimately have "parse_lines J (lines_of (?l @ line_feed)) = Inl err" by simp
  then show ?thesis
    using parse_log_text [OF assms, of rs "?l @ line_feed"] by (simp add: manifest_records_def manifest_append_text_def)
qed

subsection \<open>A format with this behaviour\<close>

text \<open>Objects of a tag and fixed-width binary numbers: the hypothesis on the package can hold.\<close>

definition bit_digits :: "u64 \<Rightarrow> string" where
  "bit_digits w = map (\<lambda>i. if bit w i then CHR ''1'' else CHR ''0'') [0..<64]"

definition digits_word :: "string \<Rightarrow> u64" where
  "digits_word s = horner_sum of_bool 2 (map (\<lambda>c. c = CHR ''1'') s)"

definition meta_words :: "csr_segment_meta \<Rightarrow> u64 list" where
  "meta_words m =
     [m_file_id m, ucast (m_level m), ucast (m_src_label m), ucast (m_edge_type_partition m), m_min_src m,
      m_max_src m, m_min_ts m, m_edge_count m, m_unique_src_count m, m_segment_bytes m, m_max_ts m]"

definition words_meta :: "u64 list \<Rightarrow> csr_segment_meta" where
  "words_meta ws =
     \<lparr>m_file_id = ws ! 0, m_level = ucast (ws ! 1), m_src_label = ucast (ws ! 2),
      m_edge_type_partition = ucast (ws ! 3), m_min_src = ws ! 4, m_max_src = ws ! 5, m_min_ts = ws ! 6,
      m_edge_count = ws ! 7, m_unique_src_count = ws ! 8, m_segment_bytes = ws ! 9, m_max_ts = ws ! 10\<rparr>"

fun record_tag :: "manifest_record \<Rightarrow> char" where
  "record_tag (Create_file m) = CHR ''C''"
| "record_tag (Delete_file f) = CHR ''D''"

fun record_words :: "manifest_record \<Rightarrow> u64 list" where
  "record_words (Create_file m) = meta_words m"
| "record_words (Delete_file f) = [f]"

definition record_object :: "manifest_record \<Rightarrow> string" where
  "record_object r = CHR ''{'' # record_tag r # concat (map bit_digits (record_words r)) @ [CHR ''}'']"

definition object_record :: "string \<Rightarrow> manifest_record" where
  "object_record s =
     (let word = (\<lambda>i. digits_word (take 64 (drop (64 * i) (drop 2 s))))
      in if take 1 (drop 1 s) = ''C'' then Create_file (words_meta (map word [0..<11])) else Delete_file (word 0))"

definition binary_json :: manifest_json where
  "binary_json = \<lparr>mj_render = record_object,
     mj_parse = (\<lambda>s. if record_object (object_record s) = s then Inr (object_record s) else Inl (Parse_error s))\<rparr>"

lemma digits_word_bits: "digits_word (bit_digits w) = w"
proof -
  have "map (\<lambda>c. c = CHR ''1'') (bit_digits w) = map (bit w) [0..<64]" by (simp add: bit_digits_def)
  then have "digits_word (bit_digits w) = take_bit 64 w"
    unfolding digits_word_def by (simp only: horner_sum_bit_eq_take_bit)
  then show ?thesis by (simp add: take_bit_word_eq_self)
qed

lemma nth_bit_digits:
  "i < length ws \<Longrightarrow> take 64 (drop (64 * i) (concat (map bit_digits ws) @ end)) = bit_digits (ws ! i)"
proof (induction ws arbitrary: i)
  case (Cons w ws)
  have len: "length (bit_digits w) = 64" by (simp add: bit_digits_def)
  show ?case
  proof (cases i)
    case (Suc k)
    then have "drop (64 * i) (bit_digits w @ concat (map bit_digits ws) @ end) =
        drop (64 * k) (concat (map bit_digits ws) @ end)"
      using len by simp
    then show ?thesis using Cons Suc by simp
  qed (use len in simp)
qed simp

lemma object_record_object: "object_record (record_object r) = r"
proof (cases r)
  case (Create_file m)
  have n: "length (meta_words m) = 11" by (simp add: meta_words_def)
  have "map (\<lambda>i. digits_word (take 64 (drop (64 * i) (drop 2 (record_object r))))) [0..<11] = meta_words m"
    using nth_bit_digits [of _ "meta_words m" "''}''"] n
    by (intro nth_equalityI) (simp_all add: record_object_def Create_file digits_word_bits)
  moreover have "words_meta (meta_words m) = m"
    by (simp add: words_meta_def meta_words_def unsigned_ucast_eq take_bit_word_eq_self)
  ultimately show ?thesis by (simp add: object_record_def Create_file record_object_def Let_def)
next
  case (Delete_file f)
  then show ?thesis
    using nth_bit_digits [of 0 "[f]" "''}''"] by (simp add: object_record_def record_object_def digits_word_bits Let_def)
qed

lemma json_manifest_binary: "json_manifest binary_json"
proof -
  have digits: "set (concat (map bit_digits ws)) \<subseteq> {CHR ''0'', CHR ''1''}" for ws
    by (auto simp: bit_digits_def split: if_splits)
  have tag: "record_tag r \<in> {CHR ''C'', CHR ''D''}" for r by (cases r) simp_all
  have inner: "set (butlast (record_object r)) \<subseteq> {CHR ''{'', CHR ''C'', CHR ''D'', CHR ''0'', CHR ''1''}" for r
    using digits [of "record_words r"] tag [of r] by (auto simp: record_object_def butlast_append)
  have last: "last (record_object r) = CHR ''}''" "record_object r \<noteq> []" for r by (simp_all add: record_object_def)
  have no: "record_object r' \<noteq> p" if "record_object r = p @ q" "q \<noteq> []" for r r' p q
  proof
    assume "record_object r' = p"
    then have "CHR ''}'' \<in> set p" using last [of r'] last_in_set by metis
    then have "CHR ''}'' \<in> set (butlast (record_object r))" using that by (simp add: butlast_append)
    then show False using inner [of r] by auto
  qed
  have ascii: "list_all (\<lambda>c. (of_char c :: nat) < 128 \<and> c \<noteq> CHR 0x0A) (record_object r)" for r
  proof -
    have "set (record_object r) \<subseteq> {CHR ''{'', CHR ''C'', CHR ''D'', CHR ''0'', CHR ''1'', CHR ''}''}"
      using digits [of "record_words r"] tag [of r] by (auto simp: record_object_def)
    then show ?thesis unfolding list_all_iff by auto
  qed
  show ?thesis
    unfolding json_manifest_def
  proof (intro conjI allI impI)
    fix r r' p
    show "mj_parse binary_json (mj_render binary_json r) = Inr r"
      by (simp add: binary_json_def object_record_object)
    show "\<exists>body. mj_render binary_json r = CHR ''{'' # body @ [CHR ''}'']"
      by (simp add: binary_json_def record_object_def)
    show "list_all (\<lambda>c. (of_char c :: nat) < 128 \<and> c \<noteq> CHR 0x0A) (mj_render binary_json r)"
      using ascii by (simp add: binary_json_def)
    show "\<exists>err. mj_parse binary_json p = Inl err" if cut: "strict_prefix p (mj_render binary_json r)"
    proof -
      obtain q where q: "record_object r = p @ q"
        using cut by (auto simp: binary_json_def strict_prefix_def prefix_def)
      have "q \<noteq> []" using cut q by (auto simp: binary_json_def)
      from no [OF q this] show ?thesis by (simp add: binary_json_def)
    qed
    have "record_object r'' \<noteq> record_object r @ record_object r'" for r''
      using no [of r'' "record_object r" "record_object r'" r] last(2) [of r'] by blast
    then show "\<exists>err. mj_parse binary_json (mj_render binary_json r @ mj_render binary_json r') = Inl err"
      by (simp add: binary_json_def)
  qed
qed

end
