(* ===== verification/Engine_Crash.thy ===== *)
theory Engine_Crash
  imports Engine_Spec Manifest_Text
begin

section \<open>A store whose process stopped\<close>

text \<open>
  What a store shows when the process that used it stopped, between two operations or in the middle of
  one, and it is opened again. What had been written stays on disk. The moments of an operation are
  those of its model: between two of the flushes it awaits, in the loop of a flush or a compaction that
  writes and logs segments (also while a segment is being written, when only the files under the next
  id differ), and in the loop that logs the replaced files. The manifest is its text, which may end in
  the middle of a record.
\<close>

subsection \<open>Opening from the text of the manifest\<close>

definition engine_open_text ::
  "manifest_json \<Rightarrow> lsm_config \<Rightarrow> u64 \<Rightarrow> file_system \<times> string option \<Rightarrow> engine res"
where
  "engine_open_text J cfg next_graph disk =
     rbind (manifest_records J (snd disk)) (\<lambda>log.
       let (e, r) = engine_open cfg next_graph (fst disk, log) in rbind r (\<lambda>_. Inr e))"

text \<open>It fails when the load of the manifest does.\<close>

lemma engine_open_text_fails:
  "manifest_load_text J at_path = Inl err \<Longrightarrow> engine_open_text J cfg n (fs, at_path) = Inl err"
  by (cases "manifest_records J at_path") (simp_all add: engine_open_text_def load_text_records)

lemma engine_open_text_written:
  assumes "json_manifest J" "written_as J log at_path" "engine_open cfg n (fs, log) = (e, Inr ())"
  shows "engine_open_text J cfg n (fs, at_path) = Inr e"
  using records_written [OF assms(1,2)] assms(3) by (simp add: engine_open_text_def)

subsection \<open>The moments of an operation\<close>

text \<open>The states of an operation between its flushes.\<close>

fun awaits :: "engine_op \<Rightarrow> bool" where
  "awaits Flush = True"
| "awaits Compact = True"
| "awaits (Compact_partition label t) = True"
| "awaits (Compact_range label t lo hi) = True"
| "awaits op = False"

fun before_waiting :: "engine_op \<Rightarrow> engine \<Rightarrow> engine" where
  "before_waiting Flush e =
     (if mg_is_empty (graph_of e (en_active e)) then e
      else fst (enqueue_flush (en_active e) (rotate_active e)))"
| "before_waiting op e = e"

definition between :: "engine \<Rightarrow> engine_op \<Rightarrow> engine \<Rightarrow> bool" where
  "between e op x \<longleftrightarrow>
     x = e \<or>
     awaits op \<and> (\<exists>k \<le> length (en_tasks (before_waiting op e)).
       wait_tasks (take k (rev (en_tasks (before_waiting op e)))) (before_waiting op e) = (x, Inr ()))"

text \<open>What a part of an operation that starts in a state writes: the segments, their level, and the
  files they replace. A part is a flush of one memory graph, a full compaction or that of a target.\<close>

inductive commits :: "engine \<Rightarrow> level_id \<Rightarrow> edge_record list list \<Rightarrow> csr_segment_meta list \<Rightarrow> bool" where
  commits_flush:
    "\<lbrakk>i \<in> set (memgraphs x); all_edges_sorted (graph_of x i) \<noteq> []\<rbrakk> \<Longrightarrow>
     commits x L0 (build_l0_flush_segments (en_config x) (all_edges_sorted (graph_of x i))) []"
| commits_full:
    "\<lbrakk>S = get_level (v_levels (en_version x)) L0 @ get_level (v_levels (en_version x)) L1;
      read_segments S x = Inr updates\<rbrakk> \<Longrightarrow>
     commits x L1 [merge_latest_records updates (current_snapshot x) True] S"
| commits_target:
    "\<lbrakk>S = select_l0 target (v_levels (en_version x)) @ select_l1 target (v_levels (en_version x));
      read_segments S x = Inr updates\<rbrakk> \<Longrightarrow>
     commits x L1 (split_compaction_segments (merge_latest_records updates (current_snapshot x) True)
       (cfg_segment_target_bytes (en_config x))) S"

text \<open>The disk when the process stops in a state or in a part that starts there, and the records of the
  files that are then live in the log. While a segment is written, its temporary and its final file
  may hold anything.\<close>

inductive stopped ::
  "engine \<Rightarrow> file_system \<times> manifest_record list option \<Rightarrow> edge_record set \<Rightarrow> bool"
where
  stopped_idle: "stopped x (en_fs x, en_manifest x) (disk_records x)"
| stopped_writing:
    "\<lbrakk>commits x level segs S; k < length segs;
      smap (write_level_segment level) (take k segs) x = (y, Inr metas);
      file = segment_path (engine_store x) level (en_next_file_id y);
      \<forall>p. p \<noteq> file \<longrightarrow> p \<noteq> tmp_path file \<longrightarrow> fs p = en_fs y p\<rbrakk> \<Longrightarrow>
     stopped x (fs, en_manifest y) (set (concat (take k segs)) \<union> disk_records x)"
| stopped_logging:
    "\<lbrakk>commits x level segs S; j \<le> length S;
      smap (write_level_segment level) segs x = (y, Inr metas)\<rbrakk> \<Longrightarrow>
     stopped x (en_fs y, en_manifest (log_deletes (take j S) y))
       (set (concat segs) \<union> (\<Union>m \<in> live x - set (take j S). set (file_recs x m)))"

subsection \<open>Such a disk is one an engine could have left\<close>

lemma disk_ok_other_files:
  assumes disk: "disk_ok z" and same: "\<And>m. m \<in> live z \<Longrightarrow> fs (path_for (engine_store z) m) = en_fs z (path_for (engine_store z) m)"
  shows "disk_ok (z\<lparr>en_fs := fs\<rparr>)" "disk_records (z\<lparr>en_fs := fs\<rparr>) = disk_records z"
proof -
  let ?z = "z\<lparr>en_fs := fs\<rparr>" and ?io = "engine_io z" and ?store = "engine_store z"
  have files: "engine_files_ok z (live z)" using disk by (simp add: disk_ok_def)
  have live: "live ?z = live z" "upper ?z = upper z" "engine_log ?z = engine_log z"
    by (simp_all add: live_def upper_def engine_log_def)
  have seg: "has_segment ?store fs m (seg_records ?io ?store (en_fs z) m)" if "m \<in> live z" for m
    by (rule has_segment_fs [where fs = "en_fs z"]) (use files_okD(2) [OF files that] same [OF that] in simp_all)
  have recs: "seg_records ?io ?store fs m = seg_records ?io ?store (en_fs z) m" if "m \<in> live z" for m
    using io_backend.seg_records_written [OF engine_io_backend seg [OF that]]
      io_backend.seg_records_sorted [OF engine_io_backend files that] by simp
  have fr: "file_recs ?z m = file_recs z m" if "m \<in> live z" for m
    using recs [OF that] by (simp add: file_recs_def)
  have "engine_files_ok ?z (live ?z)"
    using files seg recs by (simp add: files_ok_def live)
  moreover have "entry_ok ?io ?store fs (en_next_file_id z) (live z) = entry_ok ?io ?store (en_fs z) (en_next_file_id z) (live z)"
    using recs by (auto simp: entry_ok_def fun_eq_iff)
  then have "cache_ok ?z (live ?z)"
    using disk by (simp add: disk_ok_def cache_ok_def live)
  moreover have "index_ok ?z"
    using disk fr upper_live [of z] unfolding disk_ok_def index_ok_def live by (auto 0 3)
  moreover have "log_ok ?z"
    using disk fr by (simp add: disk_ok_def log_ok_def live)
  ultimately show "disk_ok ?z" using disk by (simp add: disk_ok_def)
  show "disk_records ?z = disk_records z" using fr by (simp add: disk_records_def live)
qed

lemma commit_disk:
  assumes disk: "disk_ok x" and fits: "length (concat segs) < 2 ^ 56"
    and room: "unat (en_next_file_id x) + length segs < 2 ^ 64" and sub: "set old \<subseteq> live x" "distinct old"
    and w: "smap (write_level_segment level) segs x = (y, Inr metas)"
  obtains z where "en_config z = en_config x" "en_fs z = en_fs y" "en_manifest z = en_manifest (log_deletes old y)"
    "en_next_file_id z = en_next_file_id y" "disk_ok z"
    "disk_records z = set (concat segs) \<union> (\<Union>m \<in> live x - set old. set (file_recs x m))"
proof -
  let ?ls = "[metas @ filter (\<lambda>m. m \<notin> set old) (concat (v_levels (en_version x)))]"
  have d: "distinct (concat (v_levels (en_version x)))" using disk by (simp add: disk_ok_def)
  have "filter_mset (\<lambda>m. m \<notin> set old) (mset (concat (v_levels (en_version x)))) + mset old =
      mset (concat (v_levels (en_version x)))"
    by (rule mset_without [OF sub(2) d]) (use sub(1) in \<open>simp add: live_def\<close>)
  then have ls: "mset (concat ?ls) + mset old = mset metas + mset (concat (v_levels (en_version x)))"
    by (simp add: ac_simps)
  obtain z where z: "rebuild_index (publish [] ?ls (log_deletes old y)) = (z, Inr ())" "committed x [] segs old z"
  proof (rule commit_run [where level = level, OF disk fits room sub(1)])
    fix e1 ms
    assume "smap (write_level_segment level) segs x = (e1, Inr ms)"
      and all: "\<forall>mgs ls'. mset (concat ls') + mset old = mset ms + mset (concat (v_levels (en_version x))) \<longrightarrow>
        (\<exists>e'. rebuild_index (publish mgs ls' (log_deletes old e1)) = (e', Inr ()) \<and> committed x mgs segs old e')"
    then have "e1 = y" "ms = metas" using w by simp_all
    then show thesis using all ls that by blast
  qed
  obtain c ix where "z = (publish [] ?ls (log_deletes old y))\<lparr>en_cache := c, en_index := ix\<rparr>"
    using rebuild_only_index [OF z(1)] by blast
  then have "en_fs z = en_fs y" "en_manifest z = en_manifest (log_deletes old y)" "en_next_file_id z = en_next_file_id y"
    by (simp_all add: log_deletes_log)
  then show thesis by (rule that [rotated]) (use z(2) in \<open>auto simp: committed_def same_memory_def\<close>)
qed

definition commit_good :: "engine \<Rightarrow> edge_record list list \<Rightarrow> csr_segment_meta list \<Rightarrow> bool" where
  "commit_good x segs S \<longleftrightarrow>
     set S \<subseteq> live x \<and> distinct S \<and> length (concat segs) < 2 ^ 56 \<and>
     unat (en_next_file_id x) + length segs < 2 ^ 64 \<and> set (concat segs) \<subseteq> records x \<and>
     (S = [] \<or> set (concat segs) = latest (\<Union>m \<in> set S. set (file_recs x m)) (en_ts x))"

lemma commits_good:
  assumes core: "core_ok x" and ts: "unat (en_ts x) < 2 ^ 55"
    and room: "unat (en_next_file_id x) + pend x + Suc (unat (en_ts x)) < 2 ^ 64" and c: "commits x level segs S"
  shows "commit_good x segs S"
proof -
  have g: "graphs_ok x" and disk: "disk_ok x" and time: "time_ok x" using core by (auto simp: core_ok_def)
  let ?ls = "v_levels (en_version x)"
  have d: "distinct (concat ?ls)" using disk by (simp add: disk_ok_def)
  have lev: "distinct (get_level ?ls L0 @ get_level ?ls L1)"
  proof -
    consider "?ls = []" | a where "?ls = [a]" | a b cs where "?ls = a # b # cs"
      by (cases ?ls rule: remdups_adj.cases) auto
    then show ?thesis using d by cases (auto simp: get_level_def L0_def L1_def)
  qed
  have merged: "set S \<subseteq> live x \<and> distinct S \<and> length (concat segs) < 2 ^ 56 \<and>
      unat (en_next_file_id x) + length segs < 2 ^ 64 \<and> set (concat segs) \<subseteq> records x \<and>
      set (concat segs) = latest (\<Union>m \<in> set S. set (file_recs x m)) (en_ts x)"
    if S: "set S \<subseteq> live x" "distinct S" and r: "read_segments S x = Inr updates"
      and segs: "mset (concat segs) = mset (merge_latest_records updates (current_snapshot x) True)"
      and len: "segs = [merge_latest_records updates (current_snapshot x) True] \<or> (\<forall>s \<in> set segs. s \<noteq> [])"
    for updates
  proof -
    have U: "updates = concat (map (file_recs x) S)" using read_segments_run [OF disk S(1)] r by simp
    note sel = selected_records [OF time S(1) U]
    have n: "length (concat segs) \<le> Suc (unat (en_ts x))" "set (concat segs) = latest (set updates) (en_ts x)"
      using concat_mset_length [OF segs] sel by (simp_all add: current_snapshot_def)
    have "length segs \<le> Suc (unat (en_ts x))" using len length_concat_ge [of segs] n(1) by auto
    moreover have "set updates \<subseteq> records x" using S(1) U by (auto simp: records_def disk_records_def)
    moreover have "set updates = (\<Union>m \<in> set S. set (file_recs x m))" using U by simp
    ultimately show ?thesis
      using S n ts room latest_subset [of "set updates" "en_ts x"] by auto
  qed
  have sub: "set (get_level ?ls k) \<subseteq> live x" for k by (rule get_level_live)
  from c show ?thesis
  proof cases
    case (commits_flush i)
    let ?es = "all_edges_sorted (graph_of x i)"
    have ms: "mset (concat segs) = mset (contents (graph_of x i))"
      using commits_flush by (simp add: build_l0_flush_segments_mset)
    have "length (contents (graph_of x i)) \<le> pend x"
      using pend_graph [OF _ commits_flush(4)] g by (simp add: graphs_ok_def)
    moreover have "length segs \<le> length (concat segs)"
      using length_concat_ge [of segs] build_l0_flush_segments_nonempty [OF commits_flush(5)] commits_flush(2) by simp
    moreover have "pend x \<le> unat (en_ts x)" using time by (simp add: time_ok_def)
    moreover have "set (contents (graph_of x i)) \<subseteq> records x"
      using commits_flush(4) by (auto simp: records_def mem_records_def)
    ultimately show ?thesis unfolding commit_good_def
      using concat_mset_length [OF ms] ts room commits_flush(3) by (auto simp del: set_concat)
  next
    case (commits_full updates)
    then have "set S \<subseteq> live x" "distinct S" using sub lev by auto
    moreover have "mset (concat segs) = mset (merge_latest_records updates (current_snapshot x) True)"
      by (simp add: commits_full(2))
    ultimately show ?thesis
      unfolding commit_good_def using merged [OF _ _ commits_full(4)] commits_full(2) by blast
  next
    case (commits_target target updates)
    have "set S \<subseteq> live x" "distinct S"
      using sub lev unfolding commits_target(3) by (auto simp: select_l0_def select_l1_def Let_def)
    moreover have "\<forall>s \<in> set segs. s \<noteq> []"
      using split_range_nonempty unfolding commits_target(2) by (auto simp: split_compaction_segments_def)
    moreover have "mset (concat segs) = mset (merge_latest_records updates (current_snapshot x) True)"
      unfolding commits_target(2) by (simp add: split_compaction_segments_def split_range_concat)
    ultimately show ?thesis unfolding commit_good_def
      using merged [OF _ _ commits_target(4)] by blast
  qed
qed

text \<open>The disk at any such moment is that of a consistent store.\<close>

lemma stopped_store:
  assumes core: "core_ok x" and ts: "unat (en_ts x) < 2 ^ 55"
    and room: "unat (en_next_file_id x) + pend x + Suc (unat (en_ts x)) < 2 ^ 64" and st: "stopped x (fs, log) R"
  obtains z where "en_config z = en_config x" "en_fs z = fs" "en_manifest z = log" "disk_ok z" "disk_records z = R"
    "R \<subseteq> records x" "\<forall>snap \<ge> en_ts x. latest (disk_records x \<union> R) snap = latest R snap"
  using st
proof cases
  case stopped_idle
  then show thesis using core by (intro that [of x]) (auto simp: core_ok_def records_def)
next
  case (stopped_writing level segs S k y metas fpath)
  have disk: "disk_ok x" using core by (simp add: core_ok_def)
  have good: "commit_good x segs S" by (rule commits_good [OF core ts room stopped_writing(3)])
  have "concat segs = concat (take k segs) @ concat (drop k segs)" by (metis append_take_drop_id concat_append)
  then have part: "length (concat (take k segs)) \<le> length (concat segs)" "set (concat (take k segs)) \<subseteq> set (concat segs)"
    by (metis le_add1 length_append, metis set_append Un_upper1)
  have fits: "length (concat (take k segs)) < 2 ^ 56" "unat (en_next_file_id x) + length (take k segs) < 2 ^ 64"
    using good part(1) by (auto simp: commit_good_def)
  obtain z where z: "en_config z = en_config x" "en_fs z = en_fs y" "en_manifest z = en_manifest (log_deletes [] y)"
    "en_next_file_id z = en_next_file_id y" "disk_ok z"
    "disk_records z = set (concat (take k segs)) \<union> (\<Union>m \<in> live x - set []. set (file_recs x m))"
    by (rule commit_disk [where old = "[]", OF disk fits _ _ stopped_writing(5)]) simp_all
  have store: "engine_store z = engine_store x" using z(1) by (simp add: engine_store_def)
  have same: "fs (path_for (engine_store z) m) = en_fs z (path_for (engine_store z) m)" if "m \<in> live z" for m
  proof -
    have "m_file_id m < en_next_file_id z" using z(5) that by (auto simp: disk_ok_def files_ok_def)
    then have "m_file_id m \<noteq> en_next_file_id y" using z(4) by auto
    then have "path_for (engine_store z) m \<noteq> fpath"
      by (simp add: path_for_segment stopped_writing(6) store segment_path_neq)
    moreover have "path_for (engine_store z) m \<noteq> tmp_path fpath"
      using tmp_path_neq_segment [of fpath, symmetric] by (simp add: path_for_segment)
    ultimately show ?thesis using stopped_writing(7) z(2) by simp
  qed
  have R: "R = set (concat (take k segs)) \<union> disk_records x" by (rule stopped_writing(2))
  have "disk_records z = R" unfolding R z(6) by (simp add: disk_records_def)
  moreover have "R \<subseteq> records x"
    using part(2) good unfolding R commit_good_def records_def by blast
  moreover have "disk_records x \<union> R = R" by (auto simp: R)
  ultimately show thesis
    using disk_ok_other_files [OF z(5) same] z(1,3)
    by (intro that [of "z\<lparr>en_fs := fs\<rparr>"]) (simp_all add: stopped_writing(1) log_deletes_def)
next
  case (stopped_logging level segs S j y metas)
  have disk: "disk_ok x" using core by (simp add: core_ok_def)
  have good: "commit_good x segs S" by (rule commits_good [OF core ts room stopped_logging(4)])
  have old: "set (take j S) \<subseteq> live x" "distinct (take j S)"
    using good set_take_subset [of j S] by (auto simp: commit_good_def)
  obtain z where z: "en_config z = en_config x" "en_fs z = en_fs y" "en_manifest z = en_manifest (log_deletes (take j S) y)"
    "disk_ok z" "disk_records z = set (concat segs) \<union> (\<Union>m \<in> live x - set (take j S). set (file_recs x m))"
    by (rule commit_disk [OF disk _ _ old stopped_logging(6)]) (use good in \<open>auto simp: commit_good_def\<close>)
  have R: "R = set (concat segs) \<union> (\<Union>m \<in> live x - set (take j S). set (file_recs x m))" by (rule stopped_logging(3))
  have sub: "R \<subseteq> records x"
    using good unfolding R commit_good_def records_def disk_records_def by blast
  have keep: "latest (disk_records x \<union> R) snap = latest R snap" if "en_ts x \<le> snap" for snap
  proof (cases "S = []")
    case True
    then have "disk_records x \<union> R = R" by (auto simp: R disk_records_def)
    then show ?thesis by simp
  next
    case False
    let ?A = "\<Union>m \<in> set S. set (file_recs x m)" and ?B = "\<Union>m \<in> live x - set S. set (file_recs x m)"
    have dx: "disk_records x = ?A \<union> ?B" using good by (auto simp: commit_good_def disk_records_def)
    have segs: "set (concat segs) = latest ?A (en_ts x)" using good False by (auto simp: commit_good_def)
    have "R \<subseteq> latest ?A (en_ts x) \<union> disk_records x" unfolding R segs by (auto simp: disk_records_def)
    then have Rd: "R \<subseteq> disk_records x" using latest_subset [of ?A "en_ts x"] unfolding dx by blast
    have keepR: "latest ?A (en_ts x) \<union> ?B \<subseteq> R" unfolding R segs using set_take_subset [of j S] by blast
    have fin: "finite (disk_records x)" using finite_records [of x] by (simp add: records_def)
    have "\<forall>r \<in> ?A \<union> ?B. e_ts r \<le> en_ts x"
      using core unfolding core_ok_def time_ok_def records_def dx by blast
    then have "latest (latest ?A (en_ts x) \<union> ?B) snap = latest (disk_records x) snap"
      unfolding dx using that fin unfolding dx by (intro latest_compact) simp_all
    then have "latest (disk_records x) snap \<subseteq> R"
      using latest_subset [of "latest ?A (en_ts x) \<union> ?B" snap] keepR by blast
    then have "latest R snap = latest (disk_records x) snap" by (rule latest_absorb [OF fin Rd])
    moreover have "disk_records x \<union> R = disk_records x" using Rd by blast
    ultimately show ?thesis by simp
  qed
  then show thesis
    using z sub by (intro that [of z]) (simp_all add: R stopped_logging(1,2))
qed

subsection \<open>Between the flushes of an operation\<close>

lemma wait_tasks_part:
  assumes inv: "engine_inv y" and ts: "unat (en_ts y) < 2 ^ 55" "unat (en_next_file_id y) + pend y < 2 ^ 64"
    and k: "k \<le> length (en_tasks y)" "wait_tasks (take k (rev (en_tasks y))) y = (x, Inr ())"
  shows "kept y x"
proof -
  let ?us = "take (length (en_tasks y) - k) (en_tasks y)"
  have rev: "rev (take k (rev (en_tasks y))) = drop (length (en_tasks y) - k) (en_tasks y)" by (simp add: rev_take)
  then have split: "en_tasks y = ?us @ rev (take k (rev (en_tasks y)))" by simp
  have "tasks_ok y (?us @ rev (take k (rev (en_tasks y))))" using inv split by (simp add: engine_inv_core)
  then obtain e' where "wait_tasks (take k (rev (en_tasks y))) y = (e', Inr ())" "kept y e'"
    using wait_tasks_run [OF _ split _ ts] inv by (auto simp: engine_inv_core)
  then show ?thesis using k(2) by simp
qed

lemma before_waiting_run:
  assumes inv: "engine_inv e" and small: "small e"
  shows "engine_inv (before_waiting op e) \<and> records (before_waiting op e) = records e \<and>
    en_ts (before_waiting op e) = en_ts e \<and> pend (before_waiting op e) = pend e \<and>
    en_next_file_id (before_waiting op e) = en_next_file_id e \<and> en_config (before_waiting op e) = en_config e \<and>
    disk_records (before_waiting op e) = disk_records e"
proof (cases "op = Flush \<and> contents (graph_of e (en_active e)) \<noteq> []")
  case True
  let ?e = "fst (enqueue_flush (en_active e) (rotate_active e))"
  have same: "same_disk e ?e"
    by (simp add: same_disk_def enqueue_flush_def supdate_def rotate_active_def Let_def publish_def)
  have "before_waiting op e = ?e" using True empty_active [OF inv] by simp
  then show ?thesis
    using rotated_inv [OF inv small _ refl] same_disk_records [OF same] True by simp
next
  case False
  then have "before_waiting op e = e" using empty_active [OF inv] by (cases op) auto
  then show ?thesis using inv by simp
qed

lemma between_run:
  assumes inv: "engine_inv e" and small: "small e" and b: "between e op x"
  shows "core_ok x" "en_ts x = en_ts e" "en_config x = en_config e" "records x = records e"
    "disk_records e \<subseteq> disk_records x" "unat (en_ts x) < 2 ^ 55"
    "unat (en_next_file_id x) + pend x + Suc (unat (en_ts x)) < 2 ^ 64"
proof -
  let ?y = "before_waiting op e"
  note s = small_room [OF inv small] and y = before_waiting_run [OF inv small, of op]
  have "core_ok x \<and> records x = records e \<and> en_ts x = en_ts e \<and> en_config x = en_config e \<and>
      disk_records e \<subseteq> disk_records x \<and> unat (en_next_file_id x) + pend x \<le> unat (en_next_file_id e) + pend e"
  proof (cases "x = e")
    case True
    then show ?thesis using inv by (simp add: engine_inv_core)
  next
    case False
    then obtain k where "k \<le> length (en_tasks ?y)" "wait_tasks (take k (rev (en_tasks ?y))) ?y = (x, Inr ())"
      using b unfolding between_def by blast
    from wait_tasks_part [OF _ _ _ this] have "kept ?y x" using y s by simp
    then show ?thesis using y by (simp add: kept_def)
  qed
  then show "core_ok x" "en_ts x = en_ts e" "en_config x = en_config e" "records x = records e"
    "disk_records e \<subseteq> disk_records x" "unat (en_ts x) < 2 ^ 55"
    "unat (en_next_file_id x) + pend x + Suc (unat (en_ts x)) < 2 ^ 64"
    using s by simp_all
qed

text \<open>The last moment of a part leaves the disk that the part leaves.\<close>

lemma flush_last_moment:
  assumes i: "i \<in> set (memgraphs e)" "all_edges_sorted (graph_of e i) \<noteq> []" and run: "flush_memgraph i e = (e', Inr ())"
  shows "\<exists>R. stopped e (en_fs e', en_manifest e') R"
proof -
  let ?segs = "build_l0_flush_segments (en_config e) (all_edges_sorted (graph_of e i))"
  obtain y metas where y: "smap (write_level_segment L0) ?segs e = (y, Inr metas)"
    "rebuild_index (publish_flush i metas y) = (e', Inr ())"
    using run i(2) by (auto simp: flush_memgraph_def Let_def sbind_def supdate_def split: prod.splits sum.splits)
  have "en_fs e' = en_fs y" "en_manifest e' = en_manifest y"
    using rebuild_only_index [OF y(2)] by (auto simp: publish_flush_def Let_def)
  then show ?thesis
    using stopped_logging [OF commits_flush [OF i] _ y(1), of 0] by (auto simp: log_deletes_def)
qed

lemma target_compaction_last_moment:
  assumes w: "wait_for_flushes e0 = (e, Inr ())" and run: "compact_l0_target_to_l1 target e0 = (e', Inr metas)"
  shows "\<exists>R. stopped e (en_fs e', en_manifest e') R"
proof (cases "select_l0 target (v_levels (en_version e)) = []")
  case True
  then have "e' = e" using run by (simp add: compact_l0_target_to_l1_def sbind_def w)
  then show ?thesis using stopped_idle by auto
next
  case False
  let ?S = "select_l0 target (v_levels (en_version e)) @ select_l1 target (v_levels (en_version e))"
  obtain updates where u: "read_segments ?S e = Inr updates"
    using run False by (cases "read_segments ?S e") (auto simp: compact_l0_target_to_l1_def sbind_def w sreads_def Let_def)
  let ?segs = "split_compaction_segments (merge_latest_records updates (current_snapshot e) True)
       (cfg_segment_target_bytes (en_config e))"
  obtain y where y: "smap (write_level_segment L1) ?segs e = (y, Inr metas)"
    "rebuild_index (publish (v_memgraphs (en_version (log_deletes ?S y)))
       (target_levels (select_l0 target (v_levels (en_version e))) (select_l1 target (v_levels (en_version e))) metas
         (v_levels (en_version (log_deletes ?S y)))) (log_deletes ?S y)) = (e', Inr ())"
    using run False u
    by (auto simp: compact_l0_target_to_l1_def sbind_def w sreads_def supdate_def sreturn_def Let_def
        split: prod.splits sum.splits)
  have "en_fs e' = en_fs y" "en_manifest e' = en_manifest (log_deletes ?S y)"
    using rebuild_only_index [OF y(2)] by (auto simp: log_deletes_log)
  then show ?thesis
    using stopped_logging [OF commits_target [OF refl u] _ y(1), of "length ?S"] by auto
qed

lemma full_compaction_last_moment:
  assumes w: "wait_for_flushes e0 = (e, Inr ())" and run: "compact_l0_to_l1_inner force e0 = (e', Inr (Some m))"
  shows "\<exists>R. stopped e (en_fs e', en_manifest e') R"
proof -
  let ?S = "get_level (v_levels (en_version e)) L0 @ get_level (v_levels (en_version e)) L1"
  have go: "\<not> (get_level (v_levels (en_version e)) L0 = [] \<or>
      \<not> force \<and> length (get_level (v_levels (en_version e)) L0) < cfg_l0_file_threshold (en_config e))"
    using run by (auto simp: compact_l0_to_l1_inner_def sbind_def [of wait_for_flushes] w Let_def split: if_splits)
  obtain updates where u: "read_segments ?S e = Inr updates"
    using run go by (cases "read_segments ?S e") (auto simp: compact_l0_to_l1_inner_def sbind_def w sreads_def Let_def)
  let ?es = "merge_latest_records updates (current_snapshot e) True"
  obtain y where y: "write_level_segment L1 ?es e = (y, Inr m)"
    "rebuild_index (publish (v_memgraphs (en_version (log_deletes ?S y)))
       (full_levels m (v_levels (en_version (log_deletes ?S y)))) (log_deletes ?S y)) = (e', Inr ())"
    using run go u
    by (auto simp: compact_l0_to_l1_inner_def sbind_def w sreads_def supdate_def sreturn_def Let_def
        split: prod.splits sum.splits)
  have segs: "smap (write_level_segment L1) [?es] e = (y, Inr [m])"
    using y(1) by (simp add: sbind_def sreturn_def)
  have "en_fs e' = en_fs y" "en_manifest e' = en_manifest (log_deletes ?S y)"
    using rebuild_only_index [OF y(2)] by (auto simp: log_deletes_log)
  then show ?thesis
    using stopped_logging [OF commits_full [OF refl u] _ segs, of "length ?S"] by auto
qed

subsection \<open>Properties\<close>

text \<open>C6. Whenever the process stops, between two operations of a run on a created engine or at any of
  the moments of the next one, opening the store again shows exactly the records of the segments
  whose creation had reached the manifest and whose replacement had not: all of them records the
  engine held, and at present or later every edge that was on disk when the operation began. So only
  what was still in memory is lost, and a segment that was written but not logged. This holds when the
  manifest ends with a whole record, with or without its line feed; when the process stopped in the
  middle of writing a record, the store does not open any more.\<close>

theorem crash_keeps_flushed:
  assumes J: "json_manifest J"
    and run: "engine_create cfg n disk = (e0, Inr ())" "run_ops ops e0 = (e, Inr ())"
    and bounds: "length ops < 2 ^ 30" "unat n < 2 ^ 62" "unat j + 1 < 2 ^ 64"
    and st: "between e op x" "stopped x (fs, log) R"
  shows "R \<subseteq> records e \<and>
    (\<forall>snap \<ge> current_snapshot e. visible (disk_records e \<union> R) snap = visible R snap) \<and>
    (\<forall>at_path. written_as J log at_path \<longrightarrow>
       (\<exists>e'. engine_open_text J cfg j (fs, at_path) = Inr e' \<and> engine_inv e' \<and>
          (\<forall>snap. scan_gives e' snap (visible R snap)))) \<and>
    (\<forall>r p. strict_prefix p (mj_render J r) \<and> p \<noteq> [] \<longrightarrow>
       (\<exists>err. engine_open_text J cfg j
          (fs, Some (log_text J (case log of None \<Rightarrow> [] | Some rs \<Rightarrow> rs) @ p)) = Inl err))"
proof (intro conjI allI impI)
  obtain e1 e2 where "engine_create cfg n disk = (e1, Inr ())" "run_ops ops e1 = (e2, Inr ())"
    "tracks cfg (Suc (unat n)) ops e2"
    by (rule created_run [OF bounds(1,2)])
  then have tr: "tracks cfg (Suc (unat n)) ops e" using run by simp
  have inv: "engine_inv e" and cfg: "en_config e = cfg" using tr by (auto simp: tracks_def)
  have "small e" by (rule tracks_small [OF tr bounds(1)]) (use bounds(2) in simp)
  note x = between_run [OF inv this st(1)]
  obtain z where z: "en_config z = en_config x" "en_fs z = fs" "en_manifest z = log" "disk_ok z" "disk_records z = R"
    and R: "R \<subseteq> records x" "\<forall>snap \<ge> en_ts x. latest (disk_records x \<union> R) snap = latest R snap"
    by (rule stopped_store [OF x(1,6,7) st(2)])
  show "R \<subseteq> records e" using R(1) x(4) by simp
  show "visible (disk_records e \<union> R) snap = visible R snap" if "current_snapshot e \<le> snap" for snap
  proof -
    have "finite (disk_records x \<union> R)"
      using finite_subset [OF R(1) finite_records] finite_records [of x] by (simp add: records_def)
    moreover have "disk_records e \<union> R \<subseteq> disk_records x \<union> R" using x(5) by blast
    moreover have same: "latest (disk_records x \<union> R) snap = latest R snap"
      using R(2) that x(2) by (simp add: current_snapshot_def)
    then have "latest (disk_records x \<union> R) snap \<subseteq> disk_records e \<union> R"
      using latest_subset [of R snap] by blast
    ultimately have "latest (disk_records e \<union> R) snap = latest (disk_records x \<union> R) snap"
      by (rule latest_absorb)
    then show ?thesis using same by (simp add: visible_def)
  qed
  fix at_path
  assume text_ok: "written_as J log at_path"
  have "inj_on e_ts (disk_records z)"
    using x(1) inj_on_subset [OF _ R(1)] unfolding z(5) core_ok_def time_ok_def by blast
  then obtain e' where
    e': "engine_open (en_config z) j (en_fs z, en_manifest z) = (e', Inr ())" "engine_inv e'" "records e' = disk_records z"
    by (rule disk_open_run [OF z(4) _ bounds(3)])
  then have "engine_open cfg j (fs, log) = (e', Inr ())" using z x(3) cfg by simp
  from engine_open_text_written [OF J text_ok this]
  have "engine_open_text J cfg j (fs, at_path) = Inr e'" .
  moreover have "scan_gives e' snap (visible R snap)" for snap
    using scan_view [OF e'(2), of snap] by (simp add: view_visible e'(3) z(5))
  ultimately show "\<exists>e'. engine_open_text J cfg j (fs, at_path) = Inr e' \<and> engine_inv e' \<and>
      (\<forall>snap. scan_gives e' snap (visible R snap))"
    using e'(2) by blast
next
  fix r p
  assume "strict_prefix p (mj_render J r) \<and> p \<noteq> []"
  then obtain err where "manifest_records J (Some (log_text J (case log of None \<Rightarrow> [] | Some rs \<Rightarrow> rs) @ p)) = Inl err"
    using torn_record_fails [OF J] by blast
  then show "\<exists>err. engine_open_text J cfg j (fs, Some (log_text J (case log of None \<Rightarrow> [] | Some rs \<Rightarrow> rs) @ p)) = Inl err"
    by (simp add: engine_open_text_def)
qed

text \<open>The process stops during a flush, when the temporary file of the segment holds three bytes of it:
  what was flushed before is shown.\<close>

lemma flushed_then_put:
  obtains e0 e where "engine_create (config_new ''db'') 1 (\<lambda>_. None, None) = (e0, Inr ())"
    "run_ops [Put 1 2 3, Flush, Put 4 5 6] e0 = (e, Inr ())" "engine_inv e" "small e"
    "visible (disk_records e) 9 = {(1, 3, 2)}" "records e \<noteq> disk_records e"
proof -
  let ?cfg = "config_new ''db''" and ?put = "Put 4 5 6"
  obtain e0 b where e0: "engine_create ?cfg 1 (\<lambda>_. None, None) = (e0, Inr ())" "run_ops [] e0 = (b, Inr ())"
    "tracks ?cfg (Suc (unat 1)) [] b"
    by (rule created_run [of "[]" 1]) simp_all
  then have tr0: "tracks ?cfg (Suc (unat 1)) [] e0" by (simp add: sreturn_def)
  have auto: "\<not> cfg_auto_compaction ?cfg" by (simp add: config_new_def)
  obtain e1 where e1: "run_ops [Put 1 2 3, Flush] e0 = (e1, Inr ())" "tracks ?cfg (Suc (unat 1)) ([] @ [Put 1 2 3, Flush]) e1"
    "mem_records e1 = {}"
    by (rule write_then_flush [where op = "Put 1 2 3", OF tr0 _ _ auto]) simp_all
  obtain e where e: "exec_op ?put e1 = (e, Inr ())" "tracks ?cfg (Suc (unat 1)) (([] @ [Put 1 2 3, Flush]) @ [?put]) e"
    by (rule tracks_step [where op = "Put 4 5 6", OF e1(2)]) simp_all
  have run: "run_ops [Put 1 2 3, Flush, ?put] e0 = (e, Inr ())"
    using e1(1) e(1) by (auto simp: sbind_def sreturn_def split: prod.splits sum.splits)
  have "e = fst (write_edge (insert_record 4 5 6 (en_ts e1 + 1)) (e1\<lparr>en_ts := en_ts e1 + 1\<rparr>))"
    using e(1) by (auto simp: sdrop_def insert_edge_def next_ts_def sbind_def sreturn_def split: prod.splits sum.splits)
  then have "same_disk e1 e"
    using write_edge_disk [of "e1\<lparr>en_ts := en_ts e1 + 1\<rparr>" "insert_record 4 5 6 (en_ts e1 + 1)"] by (simp add: clock_field)
  then have "disk_records e = disk_records e1" by (rule same_disk_records)
  then have disk: "disk_records e = records e1" using e1(3) by (simp add: records_def)
  have w: "writes [Put 1 2 3, Flush] = [Put 1 2 3]" "writes [Put 1 2 3, Flush, ?put] = [Put 1 2 3, ?put]"
    "stable_from ?cfg [Put 1 2 3, Flush] = 0" "stable_from ?cfg [Put 1 2 3, Flush, ?put] = 0"
    by (simp_all add: writes_def stable_from_def config_new_def)
  have "view e1 9 = {(1, 3, 2)}" "view e 9 = {(1, 3, 2), (4, 6, 5)}"
    using e1(2) e(2) w by (auto simp: tracks_def edges_after_def)
  then have v: "visible (disk_records e) 9 = {(1, 3, 2)}" "visible (records e) 9 \<noteq> {(1, 3, 2)}"
    by (simp_all add: view_visible disk)
  then have "records e \<noteq> disk_records e" by auto
  moreover have "small e" by (rule tracks_small [OF e(2)]) simp_all
  moreover have "engine_inv e" using e(2) by (simp add: tracks_def)
  ultimately show thesis using that [OF e0(1) run] v(1) by blast
qed

theorem crash_keeps_flushed_witness:
  "\<exists>e0 e x fpath e'. engine_create (config_new ''db'') 1 (\<lambda>_. None, None) = (e0, Inr ()) \<and>
    run_ops [Put 1 2 3, Flush, Put 4 5 6] e0 = (e, Inr ()) \<and> between e Flush x \<and>
    stopped x ((en_fs x)(tmp_path fpath \<mapsto> [1, 2, 3]), en_manifest x) (disk_records x) \<and>
    engine_open_text binary_json (config_new ''db'') 7
      ((en_fs x)(tmp_path fpath \<mapsto> [1, 2, 3]), map_option (log_text binary_json) (en_manifest x)) = Inr e' \<and>
    scan_gives e' 9 {(1, 3, 2)}"
proof -
  let ?cfg = "config_new ''db''" and ?J = binary_json
  obtain e0 e where e: "engine_create ?cfg 1 (\<lambda>_. None, None) = (e0, Inr ())"
    "run_ops [Put 1 2 3, Flush, Put 4 5 6] e0 = (e, Inr ())" "engine_inv e" "small e"
    "visible (disk_records e) 9 = {(1, 3, 2)}" "records e \<noteq> disk_records e"
    by (rule flushed_then_put)
  let ?x = "before_waiting Flush e"
  note y = before_waiting_run [OF e(3,4), of Flush]
  have btw: "between e Flush ?x"
    unfolding between_def by (intro disjI2 conjI exI [of _ 0]) (simp_all add: sreturn_def)
  have "mem_records ?x \<noteq> {}" using y e(6) by (auto simp: records_def)
  then obtain i where i: "i \<in> set (memgraphs ?x)" "contents (graph_of ?x i) \<noteq> []" by (auto simp: mem_records_def)
  have "all_edges_sorted (graph_of ?x i) \<noteq> []" using i(2) by (metis mset_all_edges_sorted mset_zero_iff)
  note c = commits_flush [OF i(1) this]
  let ?segs = "build_l0_flush_segments (en_config ?x) (all_edges_sorted (graph_of ?x i))"
  let ?file = "segment_path (engine_store ?x) L0 (en_next_file_id ?x)"
  let ?fs = "(en_fs ?x)(tmp_path ?file \<mapsto> [1, 2, 3])"
  have "mset (concat ?segs) = mset (contents (graph_of ?x i))" by (simp add: build_l0_flush_segments_mset)
  then have "?segs \<noteq> []" using i(2) by (metis concat.simps(1) mset_zero_iff)
  then have k: "0 < length ?segs" by blast
  have "stopped ?x (?fs, en_manifest ?x) (set (concat (take 0 ?segs)) \<union> disk_records ?x)"
    by (rule stopped_writing [OF c k _ refl, where metas = "[]"]) (simp_all add: sreturn_def)
  then have st: "stopped ?x (?fs, en_manifest ?x) (disk_records ?x)" by simp
  have bounds: "length [Put 1 2 3, Flush, Put 4 5 6] < 2 ^ 30" "unat (1 :: u64) < 2 ^ 62" "unat (7 :: u64) + 1 < 2 ^ 64"
    by simp_all
  note crash = crash_keeps_flushed [OF json_manifest_binary e(1,2) bounds btw st]
  have "written_as ?J (en_manifest ?x) (map_option (log_text ?J) (en_manifest ?x))" by (simp add: written_as_def)
  with crash obtain e' where "engine_open_text ?J ?cfg 7 (?fs, map_option (log_text ?J) (en_manifest ?x)) = Inr e'"
    "scan_gives e' 9 (visible (disk_records ?x) 9)"
    by blast
  moreover have "visible (disk_records ?x) 9 = {(1, 3, 2)}" using e(5) y by simp
  ultimately show ?thesis using e(1,2) btw st by metis
qed

end
