(* ===== verification/Spec2Isabelle.thy ===== *)
theory Spec2Isabelle
  imports Delta_View Base_Roots Snb_Updates Snb_Reads Snb_All_Paths Snb_Rebuild Topology_Loader Snb_Replay Snb_Posts Metrics_Threads Metrics_Json Commands Engine_Races Snb_Uncached Engine_Crash
begin

text \<open>
  This library models \<^verbatim>\<open>lsmgraph-rs\<close>, a store for large graphs organised as a log-structured merge
  tree, with the property graph of the LDBC social network benchmark on top of it. All source paths
  below are under \<^verbatim>\<open>src/src\<close>.

  \<^bold>\<open>The program.\<close> The engine (\<^verbatim>\<open>graph.rs\<close>) takes inserts and deletes of typed edges. Each gets a
  timestamp and goes to the active memory graph (\<^verbatim>\<open>memgraph\<close>). A full memory graph is frozen and flushed:
  its records are sorted, cut into segments (\<^verbatim>\<open>csr/format.rs\<close>, \<^verbatim>\<open>csr/writer.rs\<close>) and logged in
  the manifest (\<^verbatim>\<open>csr/manifest.rs\<close>); the segments form level 0 of a version (\<^verbatim>\<open>version.rs\<close>). A
  compaction merges level 0, or a partition or range of it, into level 1. A lookup collects the records of a
  source from the memory graphs, from level 0 (skipping segments by partition, range and Bloom filter,
  \<^verbatim>\<open>csr/cache.rs\<close>) and from the upper levels through an index (\<^verbatim>\<open>index.rs\<close>), and keeps the newest
  record of each edge at a snapshot. The loaders and queries (\<^verbatim>\<open>snb\<close>) keep vertex and edge properties
  and an in-memory adjacency index, which is rebuilt from the engine or read from a cache file. A second, static
  store (\<^verbatim>\<open>base_graph\<close>) holds compressed adjacency rows and columns built from the data set; a view
  (\<^verbatim>\<open>dynamic_view\<close>) joins it with an engine that holds later changes (\<^verbatim>\<open>delta\<close>).
  The queries are reached over HTTP (\<^verbatim>\<open>snb/server.rs\<close>) or replayed from files of requests with the answers
  expected; the command line (\<^verbatim>\<open>bin/lsmgraph.rs\<close>) runs imports, compactions and a benchmark. Operations count
  what they do in shared histograms (\<^verbatim>\<open>metrics.rs\<close>), and the statistics of the partitions of level 0
  choose what a scored compaction merges.

  \<^bold>\<open>Conventions.\<close> Integers with a width in the source are words where they are stored, wrapped or
  compared as such, and \<open>nat\<close> or \<open>int\<close> where the source only counts; external ids are \<open>int\<close>. A
  \<^verbatim>\<open>Result\<close> is a sum with \<open>lsm_error\<close> on the left (\<open>rbind\<close>, \<open>rfold\<close>), and a step
  that changes a state has type \<open>('s, 'a) st\<close>: an error leaves what the steps before it did. A panic is an
  error value. A file system is a partial map from paths to bytes. An asynchronous operation is one step;
  background flushes are tasks of the engine that a separate step runs at any later time. A
  \<^verbatim>\<open>HashMap\<close> or \<^verbatim>\<open>BTreeMap\<close> is an association list (\<open>hm_\<close>, \<open>bt_\<close>); results are
  shown not to depend on the order in which a hash map iterates. Code outside the repository is a parameter:
  the transfers of the operating system, the \<^verbatim>\<open>csv\<close> package, the renderings and readings of
  \<^verbatim>\<open>serde_json\<close>, the arithmetic of \<^verbatim>\<open>f64\<close> (\<open>f64_ops\<close>, of which only that its order is a
  weak order is ever assumed). The records of the property files are identified with their JSON lines; those of the
  manifest are in the engine's operations, and the text of the manifest is modelled beside them.

  \<^bold>\<open>The theories.\<close>
  \<^item> \<open>Lsm_Prelude\<close>: results, state steps, little-endian codecs (locale \<open>fixed_codec\<close>), slices,
    sorting. \<open>Std_Maps\<close>: the standard maps and their contract (locales \<open>std_map\<close>,
    \<open>ordered_map\<close>). \<open>Decimal\<close>, \<open>Csv\<close>: numbers and tables as text.
  \<^item> \<open>Graph_Types\<close> (\<^verbatim>\<open>types.rs\<close>), \<open>Mem_Graph\<close>, \<open>Merge\<close>, \<open>Segments\<close>
    (\<^verbatim>\<open>config.rs\<close>, \<^verbatim>\<open>levels.rs\<close>, the pure helpers of \<^verbatim>\<open>graph.rs\<close>), \<open>Index\<close>.
  \<^item> \<open>Io_Backend\<close>: the three backends and the contract the engine needs of them (locale
    \<open>io_backend\<close>). \<open>Csr_Format\<close>, \<open>Csr_Writer\<close>, \<open>Csr_Cache\<close>, \<open>Csr_Reader\<close>,
    \<open>Manifest\<close>: a segment from records to bytes and back, and the log. \<open>Text_Lines\<close>,
    \<open>Manifest_Text\<close>: the lines of a text file, and the log as the lines of its file, of which one
    that does not parse fails the load. \<open>Segment_Store\<close>: what a set of segment files means.
  \<^item> \<open>Engine\<close>: the operations. \<open>Engine_Inv\<close>: the records an engine holds and its invariant.
    \<open>Engine_Memory\<close>, \<open>Engine_Store\<close>, \<open>Engine_Disk\<close>, \<open>Engine_Flush\<close>, \<open>Engine_Compact\<close>,
    \<open>Engine_Read\<close>, \<open>Engine_Open\<close>, \<open>Engine_Ops\<close>: every operation, run from a state of the
    invariant, succeeds and keeps it. \<open>Engine_Spec\<close>: refinement of a set of edges.
    \<open>Engine_Crash\<close>: the moments of an operation at which the process can stop, as the states of its
    loops after some of their rounds (\<open>between\<close>, \<open>commits\<close>, \<open>stopped\<close>), and what
    opening the store then shows. \<open>Engine_Races\<close>: a full compaction cut where it suspends, a flush that publishes a
    version it pinned earlier, and what other operations lose by them.
  \<^item> \<open>Snb_Graph\<close> (\<^verbatim>\<open>snb/props.rs\<close>), \<open>Snb_Adjacency\<close>: properties, the adjacency index and
    its cache file. \<open>Snb_Lookup\<close>, \<open>Snb_Short\<close>, \<open>Snb_Complex\<close>, \<open>Snb_Paths\<close>,
    \<open>Snb_Calendar\<close>, \<open>Snb_Updates\<close>, \<open>Snb_Api\<close> (\<^verbatim>\<open>snb/queries.rs\<close>): the queries and
    updates. \<open>Snb_Distance\<close>, \<open>Snb_All_Paths\<close>, \<open>Snb_Reads\<close>: their correctness.
  \<^item> \<open>Base_Catalog\<close>, \<open>Base_Csr\<close>, \<open>Base_Graph\<close>, \<open>Base_Builder\<close>: the base graph.
    \<open>Base_Roots\<close>, \<open>Base_Built\<close>: the root posts, and what a finished build holds when it is opened.
    \<open>Delta_View\<close>: the delta and the view.
  \<^item> \<open>Snb_Store\<close>: opening a store directory. \<open>Snb_Loader\<close>, \<open>Snb_Import\<close>
    (\<^verbatim>\<open>snb/full_loader.rs\<close>): tables, update streams and the files an import writes. \<open>Snb_Agree\<close>,
    \<open>Snb_Loaded\<close>, \<open>Snb_Uncached\<close>, \<open>Snb_Rebuild\<close>: the cache an import leaves, also when
    none was there before, and the edge properties written again (locale
    \<open>import_invariant\<close>: what an insertion keeps, every operation of an import keeps).
    \<open>Topology_Loader\<close> (\<^verbatim>\<open>loader/snb.rs\<close>): edges between raw ids and their check.
  \<^item> \<open>Snb_Validate\<close>: the comparison of answers and the replay of files (\<^verbatim>\<open>snb/queries.rs\<close>);
    \<open>Snb_Replay\<close>: what a replay reports. \<open>Snb_Server\<close> (\<^verbatim>\<open>snb/server.rs\<close>): a connection from
    its chunks to its response; \<open>Snb_Serving\<close>, \<open>Snb_Posts\<close>: how far a request depends on the chunks,
    and that it is answered as sent.
  \<^item> \<open>Metrics\<close>, \<open>Metrics_Json\<close> (\<^verbatim>\<open>metrics.rs\<close>): counters, histograms, statistics and the report;
    \<open>Metrics_Facts\<close>: what a snapshot says; \<open>Metrics_Threads\<close>: recording as the steps of threads.
    \<open>Read_Amp\<close>: lookups that record, and the compaction their statistics choose.
    \<open>Commands\<close> (\<^verbatim>\<open>bin/lsmgraph.rs\<close>): the commands.

  \<^bold>\<open>What is proved.\<close> The engine refines a set of edges: any run of operations succeeds, and lookups and
  scans at the present, and back to the last compaction at every past snapshot, give exactly the edges the
  inserts and deletes leave; compaction is transparent; after a flush, reopening shows everything. When the
  process stops, also in the middle of a flush or a compaction, reopening shows exactly the segments that are live in
  the manifest, and loses no edge that was on disk when the operation began, provided the manifest ends with a whole
  record; a torn record makes the opening fail. Below it: round trips of segments, rows, cache files and ids,
  soundness of every filter, order and completeness of merges and of the planning of segments, replay of the manifest. Above it: the
  index built from the edges and read from its cache, shortest distances and all shortest paths, the nearest and
  newest rows of the truncated queries, updates that are read back and keep the index symmetric. A theorem that
  a loop returns is part of the statements about loops: termination on cyclic data for the searches, and for
  \<^verbatim>\<open>resolve_comment_root\<close> exactly on acyclic replies.
  An import writes its adjacency cache from the edges it recorded, not from the engine; the cache is shown to be
  what a rebuild from the engine would give, after a full import and after every import of updates that
  starts from an exact cache; without a cache file an import of updates lists only what it inserted itself.
  A replay of a mixed file compares each read on the graph its updates before it leave. A request is the same however
  the network cuts it, unless more than one mebibyte arrives before its header is complete, and a
  \<^verbatim>\<open>POST\<close> is answered with what its query or update gives. A snapshot of a histogram is exact, also when threads record concurrently, and all of them finish. A lookup with metrics answers as
  without; the compaction the statistics choose has the best score and changes no answer.
  Run as one step a compaction is transparent; cut in two it is not: what is flushed in between is lost to readers
  until the store is opened again, and lookups between its version and its index miss the compacted edges.

  \<^bold>\<open>Bounds.\<close> Runs of fewer than \<open>2 ^ 30\<close> operations keep every counter below its width
  (\<open>small\<close>, \<open>tracks\<close>): a run of \<open>n\<close> operations takes at most \<open>n\<close> timestamps and about
  \<open>n * n\<close> file ids. Segments of fewer than \<open>2 ^ 56\<close> records keep the byte positions of a segment within
  64 bits. Fuel is not used: loops that follow data are defined with a measure, and the one without a bound is a
  partial function whose missing value stands for a recursion that does not end.

  The steps of threads that record are finitely many: at most \<open>7 * n * (n + 1)\<close> of \<open>n\<close> records besides
  the spurious failures of \<^verbatim>\<open>compare_exchange_weak\<close>. The request reader is bound by the size its code
  checks after each read that does not complete the header (one mebibyte).

  \<^bold>\<open>Not modelled.\<close> What a loss of power does to writes that were not synchronised (a stop of the process
  keeps what was written), and a stop while a store is being created or emptied; the parsing of arguments, printing
  and timing of the command line; the sockets and the
  accept loop of the server and the lock around its graph (a request is one step); the counters inside the segment
  reader and the backends; memory orders weaker than sequential consistency; and interleavings inside an operation
  of the engine other than those of \<open>Engine_Races\<close>: its steps are atomic, and where the code
  publishes a version computed from an older one the manifest of this development lists the race as a finding.
\<close>

end
